(* ===== verification/Prelude.thy ===== *)
theory Prelude
  imports Main "HOL-Library.Word" "HOL-Library.Monad_Syntax" "HOL-Library.List_Lexorder"
    "HOL-Library.Product_Lexorder" "HOL-Library.Char_ord"
begin

text \<open>
  Shared ground of the development.

  \<^item> The ordered map of the Rust standard library, \<open>BTreeMap\<close>, as a list of key/value pairs
    in strictly ascending key order (\<open>bt_ok\<close>): a lookup is \<open>map_of\<close>, iteration is the list
    itself, so the iteration order the code relies on is the order of the model.
  \<^item> A Rust \<open>String\<close> is the list of its UTF-8 bytes (type \<^typ>\<open>string\<close>, one \<^typ>\<open>char\<close> per
    byte): \<open>len\<close> is \<^const>\<open>length\<close>, and the derived order of strings, tuples and options is
    the lexicographic one of the imported order theories.
  \<^item> \<open>u64\<close> and \<open>u32\<close> values are naturals below the stated bounds, \<open>i32\<close> values are integers
    with Rust's saturating operations written out.
  \<^item> The option monad carries the \<open>?\<close> operator; results with an error are sums whose left
    side is the error.
\<close>

named_theorems bt_simps \<open>rewriting with the ordered map\<close>
named_theorems json_simps \<open>evaluation of accessors on constructed JSON values\<close>

section \<open>Ordered maps\<close>

type_synonym ('k, 'v) btree = "('k \<times> 'v) list"

definition bt_ok :: "('k::linorder, 'v) btree \<Rightarrow> bool" where
  "bt_ok m \<longleftrightarrow> sorted_wrt (<) (map fst m)"

fun bt_insert :: "'k::linorder \<Rightarrow> 'v \<Rightarrow> ('k, 'v) btree \<Rightarrow> ('k, 'v) btree" where
  "bt_insert k v [] = [(k, v)]"
| "bt_insert k v ((a, b) # m) =
     (if k < a then (k, v) # (a, b) # m
      else if k = a then (k, v) # m
      else (a, b) # bt_insert k v m)"

definition bt_remove :: "'k \<Rightarrow> ('k, 'v) btree \<Rightarrow> ('k, 'v) btree" where
  "bt_remove k m = filter (\<lambda>p. fst p \<noteq> k) m"

definition bt_of_list :: "('k::linorder \<times> 'v) list \<Rightarrow> ('k, 'v) btree" where
  "bt_of_list ps = foldl (\<lambda>m p. bt_insert (fst p) (snd p) m) [] ps"

lemma bt_ok_Nil [simp, bt_simps]: "bt_ok []"
  by (simp add: bt_ok_def)

lemma bt_ok_Cons: "bt_ok ((a, b) # m) \<longleftrightarrow> (\<forall>p \<in> set m. a < fst p) \<and> bt_ok m"
  by (auto simp: bt_ok_def)

lemma bt_ok_distinct: "bt_ok m \<Longrightarrow> distinct (map fst m)"
  by (simp add: bt_ok_def strict_sorted_iff)

lemma map_of_bt_insert [simp, bt_simps]: "map_of (bt_insert k v m) = (map_of m)(k \<mapsto> v)"
  by (induction k v m rule: bt_insert.induct) (auto simp: fun_eq_iff)

lemma keys_bt_insert [simp, bt_simps]: "fst ` set (bt_insert k v m) = insert k (fst ` set m)"
  by (induction k v m rule: bt_insert.induct) auto

lemma set_bt_insert: "set (bt_insert k v m) \<subseteq> insert (k, v) (set m)"
  by (induction k v m rule: bt_insert.induct) auto

lemma bt_ok_insert [simp, intro]: "bt_ok m \<Longrightarrow> bt_ok (bt_insert k v m)"
proof (induction k v m rule: bt_insert.induct)
  case (1 k v)
  then show ?case by (simp add: bt_ok_Cons)
next
  case (2 k v a b m)
  have keys: "fst p = k \<or> fst p \<in> fst ` set m" if "p \<in> set (bt_insert k v m)" for p
    using that keys_bt_insert [of k v m] by (metis image_eqI insertE)
  from 2 keys show ?case by (fastforce simp: bt_ok_Cons)
qed

lemma map_of_bt_remove [simp, bt_simps]: "map_of (bt_remove k m) = (map_of m)(k := None)"
  by (induction m) (auto simp: bt_remove_def fun_eq_iff)

lemma bt_ok_remove [simp, intro]: "bt_ok m \<Longrightarrow> bt_ok (bt_remove k m)"
  by (induction m) (auto simp: bt_remove_def bt_ok_Cons split: if_splits)

lemma map_of_in_set: "bt_ok m \<Longrightarrow> (k, v) \<in> set m \<longleftrightarrow> map_of m k = Some v"
  by (simp add: bt_ok_distinct)

lemma bt_ext:
  assumes "bt_ok a" and "bt_ok b" and "map_of a = map_of b"
  shows "a = b"
proof -
  have sorted: "sorted_wrt (<) (map fst a)" "sorted_wrt (<) (map fst b)"
    using assms(1,2) by (simp_all add: bt_ok_def)
  have "set (map fst a) = set (map fst b)"
    using assms(3) by (metis dom_map_of_conv_image_fst image_set)
  then have keys: "map fst a = map fst b"
    using sorted by (metis strict_sorted_equal)
  have vals: "m = map (\<lambda>k. (k, the (map_of m k))) (map fst m)" if "bt_ok m" for m :: "('a, 'b) btree"
    using that by (auto simp: map_of_in_set [symmetric] intro!: map_idI [symmetric])
      (metis map_of_in_set option.sel)
  show ?thesis
    using vals [OF assms(1)] vals [OF assms(2)] keys assms(3) by metis
qed

lemma bt_ok_foldl: "bt_ok m \<Longrightarrow> bt_ok (foldl (\<lambda>m p. bt_insert (fst p) (snd p) m) m ps)"
  by (induction ps arbitrary: m) auto

lemma map_of_foldl:
  "map_of (foldl (\<lambda>m p. bt_insert (fst p) (snd p) m) m ps) = map_of m ++ map_of (rev ps)"
  by (induction ps arbitrary: m) (auto simp: fun_eq_iff map_add_def split: option.splits)

lemma bt_ok_of_list [simp, intro]: "bt_ok (bt_of_list ps)"
  by (simp add: bt_of_list_def bt_ok_foldl)

lemma map_of_bt_of_list: "map_of (bt_of_list ps) = map_of (rev ps)"
  by (simp add: bt_of_list_def map_of_foldl)

lemma map_of_rev_distinct: "distinct (map fst ps) \<Longrightarrow> map_of (rev ps) = map_of ps"
  by (subst map_of_inject_set) (simp_all add: rev_map [symmetric])

lemma map_of_bt_of_list_distinct:
  "distinct (map fst ps) \<Longrightarrow> map_of (bt_of_list ps) = map_of ps"
  by (simp add: map_of_bt_of_list map_of_rev_distinct)

lemma length_keys: "bt_ok m \<Longrightarrow> length m = card (dom (map_of m))"
  by (metis bt_ok_distinct distinct_card dom_map_of_conv_image_fst image_set length_map)

lemma length_bt_of_list: "distinct (map fst ps) \<Longrightarrow> length (bt_of_list ps) = length ps"
  using length_keys [of "bt_of_list ps"]
  by (metis bt_ok_of_list distinct_card dom_map_of_conv_image_fst image_set length_map
      map_of_bt_of_list_distinct)

lemma bt_of_list_id: "bt_ok m \<Longrightarrow> bt_of_list m = m"
  by (rule bt_ext) (auto simp: map_of_bt_of_list_distinct bt_ok_distinct)

subsection \<open>Updating in place\<close>

text \<open>
  \<open>entry(k).or_default()\<close> followed by a mutation is \<open>bt_entry\<close>; \<open>get_mut(k)\<close> followed by a
  mutation is \<open>bt_adjust\<close>, which changes nothing when the key is absent.
\<close>

fun bt_entry :: "'k::linorder \<Rightarrow> 'v \<Rightarrow> ('v \<Rightarrow> 'v) \<Rightarrow> ('k, 'v) btree \<Rightarrow> ('k, 'v) btree" where
  "bt_entry k d f [] = [(k, f d)]"
| "bt_entry k d f ((a, b) # m) =
     (if k < a then (k, f d) # (a, b) # m
      else if k = a then (a, f b) # m
      else (a, b) # bt_entry k d f m)"

definition bt_adjust :: "'k \<Rightarrow> ('v \<Rightarrow> 'v) \<Rightarrow> ('k, 'v) btree \<Rightarrow> ('k, 'v) btree" where
  "bt_adjust k f m = map (\<lambda>p. if fst p = k then (fst p, f (snd p)) else p) m"

lemma keys_bt_entry [simp]: "fst ` set (bt_entry k d f m) = insert k (fst ` set m)"
  by (induction k d f m rule: bt_entry.induct) auto

lemma bt_ok_entry [simp, intro]: "bt_ok m \<Longrightarrow> bt_ok (bt_entry k d f m)"
proof (induction k d f m rule: bt_entry.induct)
  case (1 k d f)
  then show ?case by (simp add: bt_ok_Cons)
next
  case (2 k d f a b m)
  have keys: "fst p = k \<or> fst p \<in> fst ` set m" if "p \<in> set (bt_entry k d f m)" for p
    using that keys_bt_entry [of k d f m] by (metis image_eqI insertE)
  from 2 keys show ?case by (fastforce simp: bt_ok_Cons)
qed

lemma map_of_bt_entry:
  assumes "bt_ok m"
  shows "map_of (bt_entry k d f m) = (map_of m)(k \<mapsto> f (case map_of m k of None \<Rightarrow> d | Some b \<Rightarrow> b))"
  using assms
proof (induction k d f m rule: bt_entry.induct)
  case (1 k d f)
  then show ?case by simp
next
  case (2 k d f a b m)
  have absent: "map_of m k = None" if "k < a"
    using 2(2) that by (auto simp: bt_ok_Cons map_of_eq_None_iff)
  have ok: "bt_ok m" using 2(2) by (simp add: bt_ok_Cons)
  consider "k < a" | "k = a" | "\<not> k < a" "k \<noteq> a" by blast
  then show ?case
  proof cases
    case 1
    then show ?thesis using absent by (auto simp: fun_eq_iff)
  next
    case 2
    then show ?thesis by (auto simp: fun_eq_iff)
  next
    case 3
    from "2.IH" [OF 3 ok] 3 show ?thesis by (auto simp: fun_eq_iff)
  qed
qed

lemma map_of_bt_adjust: "map_of (bt_adjust k f m) = (map_of m)(k := map_option f (map_of m k))"
  by (induction m) (auto simp: bt_adjust_def fun_eq_iff)

lemma keys_bt_adjust [simp]: "map fst (bt_adjust k f m) = map fst m"
  by (simp add: bt_adjust_def comp_def if_distrib cong: if_cong)

lemma bt_ok_adjust [simp]: "bt_ok (bt_adjust k f m) \<longleftrightarrow> bt_ok m"
  by (simp add: bt_ok_def)

lemma map_of_map_snd: "map_of (map (\<lambda>p. (fst p, f (snd p))) m) k = map_option f (map_of m k)"
  by (induction m) auto

lemma bt_ok_map_snd: "bt_ok (map (\<lambda>p. (fst p, f (snd p))) m) \<longleftrightarrow> bt_ok m"
  by (simp add: bt_ok_def comp_def)

subsection \<open>The map contract\<close>

text \<open>
  What the components rely on when they keep state in an ordered map: a lookup sees the last
  insertion, a removal removes, and both keep the order.
\<close>

locale ordered_map =
  fixes get :: "'m \<Rightarrow> 'k \<Rightarrow> 'v option"
    and put :: "'k \<Rightarrow> 'v \<Rightarrow> 'm \<Rightarrow> 'm"
    and del :: "'k \<Rightarrow> 'm \<Rightarrow> 'm"
    and wf :: "'m \<Rightarrow> bool"
  assumes get_put: "get (put k v m) j = (if j = k then Some v else get m j)"
    and get_del: "get (del k m) j = (if j = k then None else get m j)"
    and wf_put: "wf m \<Longrightarrow> wf (put k v m)"
    and wf_del: "wf m \<Longrightarrow> wf (del k m)"
    and ext: "wf m \<Longrightarrow> wf n \<Longrightarrow> (\<And>k. get m k = get n k) \<Longrightarrow> m = n"
begin

lemma put_put_same: "wf m \<Longrightarrow> put k v (put k w m) = put k v m"
  by (intro ext wf_put) (simp_all add: get_put)

lemma put_swap: "wf m \<Longrightarrow> j \<noteq> k \<Longrightarrow> put j v (put k w m) = put k w (put j v m)"
  by (intro ext wf_put) (simp_all add: get_put)

lemma put_id: "wf m \<Longrightarrow> get m k = Some v \<Longrightarrow> put k v m = m"
  by (intro ext wf_put) (simp_all add: get_put)

lemma del_absent: "wf m \<Longrightarrow> get m k = None \<Longrightarrow> del k m = m"
  by (intro ext wf_del) (simp_all add: get_del)

end

interpretation bt: ordered_map map_of bt_insert bt_remove bt_ok
  by unfold_locales (auto intro: bt_ext)

section \<open>Machine integers\<close>

abbreviation u64_max :: nat where
  "u64_max \<equiv> 2 ^ 64 - 1"

abbreviation i64_max :: int where
  "i64_max \<equiv> 2 ^ 63 - 1"

section \<open>The option monad\<close>

lemma bind_Some_iff:
  "Option.bind x f = Some y \<longleftrightarrow> (\<exists>a. x = Some a \<and> f a = Some y)"
  by (cases x) auto

lemma guard_Some_iff: "(if b then Some x else None) = Some y \<longleftrightarrow> b \<and> x = y"
  by auto

lemma those_Some_iff: "those xs = Some ys \<longleftrightarrow> xs = map Some ys"
  by (induction xs arbitrary: ys) (auto split: option.splits)

section \<open>Keeping the newest\<close>

text \<open>
  The verify-then-keep-newest rule of the gossiped records: a slot takes the record when it is
  empty or the record beats what it holds. The contract is that \<open>beats\<close> is a strict weak order;
  then the outcome is a record nothing seen beats, whatever the order of arrival.
\<close>

definition keep_newest :: "('r \<Rightarrow> 'r \<Rightarrow> bool) \<Rightarrow> 'r option \<Rightarrow> 'r \<Rightarrow> 'r option" where
  "keep_newest beats slot r =
     (case slot of None \<Rightarrow> Some r | Some held \<Rightarrow> if beats r held then Some r else Some held)"

lemma keep_newest_pred: "pred_option P h \<Longrightarrow> P r \<Longrightarrow> pred_option P (keep_newest beats h r)"
  by (auto simp: keep_newest_def split: option.splits)

locale newest_wins =
  fixes beats :: "'r \<Rightarrow> 'r \<Rightarrow> bool"
  assumes irrefl: "\<not> beats a a"
    and trans: "beats a b \<Longrightarrow> beats b c \<Longrightarrow> beats a c"
    and weak: "beats a c \<Longrightarrow> beats a b \<or> beats b c"
begin

lemma asym: "beats a b \<Longrightarrow> \<not> beats b a"
  using irrefl trans by blast

lemma keep_idem: "keep_newest beats (keep_newest beats h r) r = keep_newest beats h r"
  using irrefl by (auto simp: keep_newest_def split: option.splits)

lemma keep_upper:
  "keep_newest beats h r = Some k \<Longrightarrow> \<not> beats r k \<and> (\<forall>x. h = Some x \<longrightarrow> \<not> beats x k)"
  using irrefl asym by (auto simp: keep_newest_def split: option.splits if_splits)

lemma foldl_keep:
  assumes "foldl (keep_newest beats) h rs = Some k"
  shows "(h = Some k \<or> k \<in> set rs) \<and> (\<forall>x \<in> set rs. \<not> beats x k) \<and> (\<forall>x. h = Some x \<longrightarrow> \<not> beats x k)"
  using assms
proof (induction rs arbitrary: h)
  case Nil
  then show ?case using irrefl by auto
next
  case (Cons r rs)
  obtain m where m: "keep_newest beats h r = Some m"
    by (cases h; cases "\<exists>x. h = Some x \<and> beats r x") (auto simp: keep_newest_def)
  with Cons.prems have fold: "foldl (keep_newest beats) (Some m) rs = Some k" by simp
  note IH = Cons.IH [OF fold]
  have "m = r \<or> h = Some m"
    using m by (auto simp: keep_newest_def split: option.splits if_splits)
  moreover have "\<not> beats x k" if "\<not> beats x m" for x
    using that IH weak [of x k m] by blast
  ultimately show ?case using IH keep_upper [OF m] by auto
qed

lemma foldl_keep_some: "foldl (keep_newest beats) h rs = None \<longleftrightarrow> h = None \<and> rs = []"
  by (induction rs arbitrary: h) (auto simp: keep_newest_def split: option.splits)

lemma order_irrelevant:
  assumes "set rs = set ss"
    and "foldl (keep_newest beats) None rs = Some k" and "foldl (keep_newest beats) None ss = Some l"
  shows "\<not> beats k l \<and> \<not> beats l k"
  using foldl_keep [OF assms(2)] foldl_keep [OF assms(3)] assms(1) by auto

end

lemma newest_wins_rank: "newest_wins (\<lambda>a b. (rank b :: 'k::linorder) < rank a)"
  by unfold_locales auto

section \<open>Runs\<close>

text \<open>An invariant every operation of a component keeps holds after any sequence of them.\<close>

locale op_invariant =
  fixes apply_op :: "'s \<Rightarrow> 'op \<Rightarrow> 's" and op_ok :: "'op \<Rightarrow> bool" and inv :: "'s \<Rightarrow> bool"
  assumes keep: "inv s \<Longrightarrow> op_ok op \<Longrightarrow> inv (apply_op s op)"
begin

lemma run: "inv s \<Longrightarrow> list_all op_ok ops \<Longrightarrow> inv (foldl apply_op s ops)"
  by (induction ops arbitrary: s) (auto intro: keep)

end

end
