(* ===== verification/Json.thy ===== *)
theory Json
  imports Prelude
begin

text \<open>
  The JSON values the program exchanges and persists: the public data type of the JSON crate
  (null, booleans, numbers, strings, arrays, objects) with the accessors the sources call on it.
  Objects are ordered maps, because the crate is built without its insertion-order feature.
  A number is what that type distinguishes: a non-negative integer that fits \<open>u64\<close>, a negative
  one that fits \<open>i64\<close>, or a float, kept as its bit pattern.

  On top of them stands the strict object reader of \<open>sync/src/records.rs\<close>, on which every
  signed record rests, and the page reader of \<open>sync/src/protocol.rs\<close>.
\<close>

datatype jnum = PosInt nat | NegInt int | Float "64 word"

datatype json =
    JNull
  | JBool bool
  | JNum jnum
  | JStr string
  | JArr "json list"
  | JObj "(string \<times> json) list"

fun jnum_ok :: "jnum \<Rightarrow> bool" where
  "jnum_ok (PosInt n) \<longleftrightarrow> n \<le> u64_max"
| "jnum_ok (NegInt i) \<longleftrightarrow> i < 0 \<and> - (2 ^ 63) \<le> i"
| "jnum_ok (Float w) \<longleftrightarrow> True"

fun json_ok :: "json \<Rightarrow> bool" where
  "json_ok (JNum n) \<longleftrightarrow> jnum_ok n"
| "json_ok (JArr xs) \<longleftrightarrow> (\<forall>x \<in> set xs. json_ok x)"
| "json_ok (JObj m) \<longleftrightarrow> bt_ok m \<and> (\<forall>p \<in> set m. json_ok (snd p))"
| "json_ok _ \<longleftrightarrow> True"

definition jobj :: "(string \<times> json) list \<Rightarrow> json" where
  "jobj kvs = JObj (bt_of_list kvs)"

section \<open>Accessors\<close>

fun as_object :: "json \<Rightarrow> (string \<times> json) list option" where
  "as_object (JObj m) = Some m"
| "as_object _ = None"

fun as_array :: "json \<Rightarrow> json list option" where
  "as_array (JArr xs) = Some xs"
| "as_array _ = None"

fun as_str :: "json \<Rightarrow> string option" where
  "as_str (JStr s) = Some s"
| "as_str _ = None"

fun as_bool :: "json \<Rightarrow> bool option" where
  "as_bool (JBool b) = Some b"
| "as_bool _ = None"

fun as_u64 :: "json \<Rightarrow> nat option" where
  "as_u64 (JNum (PosInt n)) = Some n"
| "as_u64 _ = None"

fun as_i64 :: "json \<Rightarrow> int option" where
  "as_i64 (JNum (PosInt n)) = (if int n \<le> i64_max then Some (int n) else None)"
| "as_i64 (JNum (NegInt i)) = Some i"
| "as_i64 _ = None"

definition jget :: "json \<Rightarrow> string \<Rightarrow> json option" where
  "jget v k = Option.bind (as_object v) (\<lambda>m. map_of m k)"

definition of_u64 :: "nat \<Rightarrow> json" where
  "of_u64 n = JNum (PosInt n)"

definition of_i64 :: "int \<Rightarrow> json" where
  "of_i64 i = JNum (if 0 \<le> i then PosInt (nat i) else NegInt i)"

lemma as_object_Some [simp]: "as_object v = Some m \<longleftrightarrow> v = JObj m"
  by (cases v) auto

lemma as_array_Some [simp]: "as_array v = Some xs \<longleftrightarrow> v = JArr xs"
  by (cases v) auto

lemma as_str_Some [simp]: "as_str v = Some s \<longleftrightarrow> v = JStr s"
  by (cases v) auto

lemma as_bool_Some [simp]: "as_bool v = Some b \<longleftrightarrow> v = JBool b"
  by (cases v) auto

lemma as_u64_Some [simp]: "as_u64 v = Some n \<longleftrightarrow> v = JNum (PosInt n)"
  by (cases v rule: as_u64.cases) auto

lemma as_u64_of_u64 [simp]: "as_u64 (of_u64 n) = Some n"
  by (simp add: of_u64_def)

lemma as_i64_of_i64: "i \<le> i64_max \<Longrightarrow> as_i64 (of_i64 i) = Some i"
  by (auto simp: of_i64_def)

lemma as_i64_Some: "json_ok v \<Longrightarrow> as_i64 v = Some i \<Longrightarrow> v = of_i64 i \<and> i \<le> i64_max"
  by (cases v rule: as_i64.cases) (auto simp: of_i64_def split: if_splits)

lemma jget_jobj: "distinct (map fst kvs) \<Longrightarrow> jget (jobj kvs) k = map_of kvs k"
  by (simp add: jget_def jobj_def map_of_bt_of_list_distinct)

lemma json_ok_jobj:
  "distinct (map fst kvs) \<Longrightarrow> (\<forall>p \<in> set kvs. json_ok (snd p)) \<Longrightarrow> json_ok (jobj kvs)"
  unfolding jobj_def json_ok.simps
  by (metis bt_ok_of_list map_of_bt_of_list_distinct map_of_in_set map_of_eq_Some_iff prod.collapse)

lemma json_ok_of_u64: "n \<le> u64_max \<Longrightarrow> json_ok (of_u64 n)"
  by (simp add: of_u64_def)

lemma json_ok_of_i64: "- (2 ^ 63) \<le> i \<Longrightarrow> i \<le> i64_max \<Longrightarrow> json_ok (of_i64 i)"
  by (auto simp: of_i64_def nat_le_iff)

lemma json_ok_jget: "json_ok v \<Longrightarrow> jget v k = Some w \<Longrightarrow> json_ok w"
  by (cases v) (auto simp: jget_def dest!: map_of_SomeD)

section \<open>The strict object reader\<close>

text \<open>
  \<open>exact_fields\<close>: the value is an object whose keys are exactly the given fields, and the
  fields' values are handed back in the order asked for.
\<close>

definition exact_fields :: "json \<Rightarrow> string list \<Rightarrow> json list option" where
  "exact_fields v fields = do {
     m \<leftarrow> as_object v;
     if length m \<noteq> length fields then None
     else those (map (map_of m) fields)
   }"

lemma exact_fields_jobj:
  assumes "distinct (map fst kvs)" and "map fst kvs = fields"
  shows "exact_fields (jobj kvs) fields = Some (map snd kvs)"
proof -
  have "map (map_of (bt_of_list kvs)) fields = map Some (map snd kvs)"
    using assms by (auto simp: map_of_bt_of_list_distinct)
  then show ?thesis
    using assms by (auto simp: exact_fields_def jobj_def length_bt_of_list those_Some_iff)
qed

lemma exact_fields_bt:
  assumes "exact_fields (JObj m) fields = Some vs" and bt: "bt_ok m" and "distinct fields"
  shows "length vs = length fields \<and> JObj m = jobj (zip fields vs)"
proof -
  from assms(1) have len: "length m = length fields"
    and vs: "map (map_of m) fields = map Some vs"
    by (auto simp: exact_fields_def bind_Some_iff those_Some_iff split: if_splits)
  have lenvs: "length vs = length fields" using vs by (metis length_map)
  have get: "map_of m (fields ! i) = Some (vs ! i)" if "i < length fields" for i
    using that vs by (metis lenvs nth_map)
  have sub: "set fields \<subseteq> dom (map_of m)"
    using get by (auto simp: in_set_conv_nth)
  moreover have "card (dom (map_of m)) = card (set fields)"
    using length_keys [OF bt] len assms(3) by (simp add: distinct_card)
  ultimately have dom: "dom (map_of m) = set fields"
    by (metis card_subset_eq finite_dom_map_of)
  have "map_of m = map_of (zip fields vs)"
  proof
    fix k
    show "map_of m k = map_of (zip fields vs) k"
    proof (cases "k \<in> set fields")
      case True
      then obtain i where i: "i < length fields" "k = fields ! i" by (auto simp: in_set_conv_nth)
      with get lenvs assms(3) show ?thesis by (simp add: map_of_zip_nth)
    next
      case False
      then have "map_of m k = None" using dom by auto
      moreover have "map_of (zip fields vs) k = None"
        using False lenvs by (simp add: map_of_zip_is_None)
      ultimately show ?thesis by simp
    qed
  qed
  then have "m = bt_of_list (zip fields vs)"
    using bt assms(3) lenvs by (intro bt_ext) (auto simp: map_of_bt_of_list_distinct)
  with lenvs show ?thesis by (simp add: jobj_def)
qed

lemma exact_fieldsD:
  assumes "exact_fields v fields = Some vs" and "json_ok v" and "distinct fields"
  shows "length vs = length fields \<and> v = jobj (zip fields vs)"
proof -
  from assms(1) obtain m where "v = JObj m" by (auto simp: exact_fields_def bind_Some_iff)
  with assms exact_fields_bt show ?thesis by auto
qed

lemma exact_fields_ok:
  assumes "exact_fields v fields = Some vs" and "json_ok v" and "w \<in> set vs"
  shows "json_ok w"
  using assms
  by (fastforce simp: exact_fields_def bind_Some_iff those_Some_iff list_eq_iff_nth_eq
      in_set_conv_nth jget_def split: if_splits dest: map_of_SomeD)

section \<open>Strict codecs\<close>

text \<open>
  The contract every wire object of the sync engine keeps with its readers: what is written
  from a well-formed object parses back to it, and a value that parses is well-formed and is
  exactly what the object writes. The second law is what makes a signature over the written form
  unambiguous; together they make the parser injective and lift to whole pages.
\<close>

locale strict_codec =
  fixes enc :: "'a \<Rightarrow> json"
    and dec :: "json \<Rightarrow> 'a option"
    and ok :: "'a \<Rightarrow> bool"
  assumes enc_json: "ok a \<Longrightarrow> json_ok (enc a)"
    and dec_enc: "ok a \<Longrightarrow> dec (enc a) = Some a"
    and enc_dec: "json_ok v \<Longrightarrow> dec v = Some a \<Longrightarrow> ok a \<and> v = enc a"
begin

lemma enc_inj: "ok a \<Longrightarrow> ok b \<Longrightarrow> enc a = enc b \<Longrightarrow> a = b"
  by (metis dec_enc option.inject)

lemma dec_inj: "json_ok v \<Longrightarrow> json_ok w \<Longrightarrow> dec v = Some a \<Longrightarrow> dec w = Some a \<Longrightarrow> v = w"
  using enc_dec by blast

lemma dec_list: "(\<forall>a \<in> set as. ok a) \<Longrightarrow> those (map dec (map enc as)) = Some as"
  by (induction as) (auto simp: dec_enc)

lemma dec_list_strict:
  "(\<forall>v \<in> set vs. json_ok v) \<Longrightarrow> those (map dec vs) = Some as \<Longrightarrow>
   (\<forall>a \<in> set as. ok a) \<and> vs = map enc as"
proof (induction vs arbitrary: as)
  case Nil
  then show ?case by simp
next
  case (Cons v vs)
  then obtain a as' where "dec v = Some a" "those (map dec vs) = Some as'" "as = a # as'"
    by (auto split: option.splits)
  with Cons show ?case using enc_dec [of v a] by auto
qed

end

end
