(* ===== verification/Gates.thy ===== *)
theory Gates
  imports Text
begin

text \<open>
  What may cross the wire as an identifier or as a path: the format checks of
  \<open>sync/src/records.rs\<close> and the wire-path gate of \<open>sync/src/wirepath.rs\<close>. Unicode
  normalization comes from a third-party crate and enters as the parameters \<open>is_nfc\<close> and
  \<open>nfc\<close>. A refusal carries its reason, as in the source.

  The gate's promise is stated against a resolver that reads a path the way a filesystem does:
  a path the gate accepts names a place strictly below the root it is joined to.
\<close>

section \<open>Identifiers\<close>

definition valid_set_id :: "string \<Rightarrow> bool" where
  "valid_set_id s \<longleftrightarrow>
     length s = 22 \<and> list_all (\<lambda>b. is_alnum b \<or> b = CHR ''-'' \<or> b = CHR ''_'') s"

definition lower_hex :: "string \<Rightarrow> nat \<Rightarrow> bool" where
  "lower_hex s len \<longleftrightarrow> length s = len \<and> list_all is_lower_hex s"

definition valid_node_id :: "string \<Rightarrow> bool" where
  "valid_node_id s \<longleftrightarrow> lower_hex s 64"

definition valid_key :: "string \<Rightarrow> bool" where
  "valid_key s \<longleftrightarrow> lower_hex s 64"

definition valid_sig :: "string \<Rightarrow> bool" where
  "valid_sig s \<longleftrightarrow> lower_hex s 128"

lemma valid_node_id_no_at: "valid_node_id s \<Longrightarrow> CHR ''@'' \<notin> set s"
  by (auto simp: valid_node_id_def lower_hex_def list_all_iff is_lower_hex_def is_digit_def)

section \<open>The wire-path gate\<close>

definition STAGING_DIR :: string where
  "STAGING_DIR = ''.1device.tmp''"

definition STAGING_SUFFIX :: string where
  "STAGING_SUFFIX = ''.1dtmp''"

definition COMPONENT_MAX_BYTES :: nat where
  "COMPONENT_MAX_BYTES = 200"

definition PATH_MAX_BYTES :: nat where
  "PATH_MAX_BYTES = 4096"

definition windows_reserved :: "string \<Rightarrow> bool" where
  "windows_reserved name =
     (let stem = map to_upper (hd (split_on CHR ''.'' name))
      in stem = ''CON'' \<or> stem = ''PRN'' \<or> stem = ''AUX'' \<or> stem = ''NUL'' \<or>
         ((starts_with stem ''COM'' \<or> starts_with stem ''LPT'') \<and> length stem = 4 \<and>
          is_digit (stem ! 3) \<and> stem ! 3 \<noteq> CHR ''0''))"

definition check_component :: "(string \<Rightarrow> bool) \<Rightarrow> string \<Rightarrow> string + unit" where
  "check_component is_nfc name =
     (if name = [] \<or> name = ''.'' \<or> name = ''..'' then Inl ''dot or empty component''
      else if length name > COMPONENT_MAX_BYTES then Inl ''component over the byte budget''
      else if list_ex (\<lambda>b. byte_of b < 32 \<or> byte_of b = 127) name then Inl ''control character''
      else if CHR 0x5C \<in> set name \<or> CHR '':'' \<in> set name then Inl ''separator character''
      else if ends_with name ''.'' \<or> ends_with name '' '' then Inl ''trailing dot or space''
      else if \<not> is_nfc name then Inl ''not NFC''
      else if name = STAGING_DIR \<or> (starts_with name ''.'' \<and> ends_with name STAGING_SUFFIX)
        then Inl ''reserved staging name''
      else if windows_reserved name then Inl ''reserved device name''
      else Inr ())"

fun check_components :: "(string \<Rightarrow> bool) \<Rightarrow> string list \<Rightarrow> string + unit" where
  "check_components is_nfc [] = Inr ()"
| "check_components is_nfc (c # cs) =
     (case check_component is_nfc c of Inl e \<Rightarrow> Inl e | Inr u \<Rightarrow> check_components is_nfc cs)"

definition check_wire_path :: "(string \<Rightarrow> bool) \<Rightarrow> string \<Rightarrow> string + unit" where
  "check_wire_path is_nfc path =
     (if path = [] then Inl ''empty path''
      else if length path > PATH_MAX_BYTES then Inl ''path too long''
      else if starts_with path ''/'' \<or> ends_with path ''/'' then Inl ''not a relative path''
      else check_components is_nfc (split_on CHR ''/'' path))"

definition wire_name :: "(string \<Rightarrow> bool) \<Rightarrow> (string \<Rightarrow> string) \<Rightarrow> bool \<Rightarrow> string \<Rightarrow> string option" where
  "wire_name is_nfc nfc macos disk_name =
     (if is_nfc disk_name then Some disk_name
      else if macos then Some (nfc disk_name)
      else None)"

definition basename :: "string \<Rightarrow> string" where
  "basename path = last (split_on CHR ''/'' path)"

definition path_ok :: "(string \<Rightarrow> bool) \<Rightarrow> string \<Rightarrow> bool" where
  "path_ok is_nfc p \<longleftrightarrow> check_wire_path is_nfc p = Inr ()"

lemma check_components_iff:
  "check_components is_nfc cs = Inr () \<longleftrightarrow> (\<forall>c \<in> set cs. check_component is_nfc c = Inr ())"
  by (induction cs) (auto split: sum.splits)

lemma check_component_safe:
  assumes "check_component is_nfc c = Inr ()"
  shows "c \<noteq> []" "c \<noteq> ''.''" "c \<noteq> ''..''" "length c \<le> 200" "CHR 0x5C \<notin> set c" "CHR '':'' \<notin> set c"
    "c \<noteq> STAGING_DIR" "\<not> windows_reserved c" "is_nfc c"
    "\<forall>b \<in> set c. 32 \<le> byte_of b \<and> byte_of b \<noteq> 127"
  using assms
  by (auto simp: check_component_def COMPONENT_MAX_BYTES_def list_ex_iff not_less split: if_splits)

lemma path_ok_components:
  "path_ok is_nfc p \<Longrightarrow> c \<in> set (split_on CHR ''/'' p) \<Longrightarrow> check_component is_nfc c = Inr ()"
  by (auto simp: path_ok_def check_wire_path_def check_components_iff split: if_splits)

section \<open>Reading a path as a filesystem does\<close>

text \<open>
  Specification only: the components of a joined path are walked from a directory, an empty
  component or a dot stays, two dots go up. Both separators of the supported platforms cut.
\<close>

fun walk :: "string list \<Rightarrow> string list \<Rightarrow> string list" where
  "walk dir [] = dir"
| "walk dir (c # cs) =
     (if c = [] \<or> c = ''.'' then walk dir cs
      else if c = ''..'' then walk (butlast dir) cs
      else walk (dir @ [c]) cs)"

definition cut_path :: "string \<Rightarrow> string list" where
  "cut_path p = concat (map (split_on CHR 0x5C) (split_on CHR ''/'' p))"

lemma walk_plain:
  "(\<forall>c \<in> set cs. c \<noteq> [] \<and> c \<noteq> ''.'' \<and> c \<noteq> ''..'') \<Longrightarrow> walk dir cs = dir @ cs"
  by (induction cs arbitrary: dir) auto

lemma cut_path_gated: "path_ok is_nfc p \<Longrightarrow> cut_path p = split_on CHR ''/'' p"
proof -
  assume "path_ok is_nfc p"
  then have "\<forall>c \<in> set (split_on CHR ''/'' p). split_on CHR 0x5C c = [c]"
    using path_ok_components check_component_safe(5) split_on_single by blast
  then have "map (split_on CHR 0x5C) (split_on CHR ''/'' p) = map (\<lambda>c. [c]) (split_on CHR ''/'' p)"
    by simp
  then have "cut_path p = concat (map (\<lambda>c. [c]) (split_on CHR ''/'' p))"
    by (simp only: cut_path_def)
  then show ?thesis by simp
qed

lemma byte_to_upper:
  "byte_of (to_upper c) =
    (if 97 \<le> byte_of c \<and> byte_of c \<le> 122 then byte_of c - 32 else (byte_of c :: nat))"
proof (cases "97 \<le> (byte_of c :: nat) \<and> (byte_of c :: nat) \<le> 122")
  case True
  then have "(byte_of c :: nat) - 32 < 256" by linarith
  with True show ?thesis by (simp add: to_upper_def)
qed (auto simp: to_upper_def)

lemma to_upper_idem: "to_upper (to_upper c) = to_upper c"
proof -
  have "\<not> (97 \<le> (byte_of (to_upper c) :: nat) \<and> (byte_of (to_upper c) :: nat) \<le> 122)"
    unfolding byte_to_upper by (auto split: if_splits)
  then show ?thesis by (auto simp: to_upper_def [of "to_upper c"])
qed

lemma to_upper_dot: "to_upper c = CHR ''.'' \<longleftrightarrow> c = CHR ''.''"
proof
  assume "to_upper c = CHR ''.''"
  then have "(byte_of (to_upper c) :: nat) = 46" by simp
  then have "(byte_of c :: nat) = byte_of CHR ''.''"
    unfolding byte_to_upper by (auto split: if_splits)
  then show "c = CHR ''.''" by (simp only: of_char_eq_iff)
qed (simp add: to_upper_def)

lemma hd_split_upper: "hd (split_on CHR ''.'' (map to_upper s)) = map to_upper (hd (split_on CHR ''.'' s))"
  by (induction s) (auto simp: to_upper_dot split: list.splits)

section \<open>Properties\<close>

text \<open>
  C5. No write and no unlink outside the root: a path the gate accepts, joined to any root and
  read with either platform's separators, walks straight down to a place strictly below the root,
  through its own components; none of them is the engine's staging directory, a reserved device
  name, or over the byte budget, and no drive or stream separator occurs.
\<close>

theorem gated_path_stays_below_root:
  assumes "check_wire_path is_nfc p = Inr ()"
  shows "walk root (cut_path p) = root @ split_on CHR ''/'' p \<and> split_on CHR ''/'' p \<noteq> [] \<and>
     length p \<le> 4096 \<and> CHR '':'' \<notin> set p \<and>
     (\<forall>c \<in> set (split_on CHR ''/'' p). c \<noteq> STAGING_DIR \<and> \<not> windows_reserved c \<and> length c \<le> 200)"
proof -
  have ok: "path_ok is_nfc p" using assms by (simp add: path_ok_def)
  let ?cs = "split_on CHR ''/'' p"
  have safe: "check_component is_nfc c = Inr ()" if "c \<in> set ?cs" for c
    using path_ok_components [OF ok that] .
  have "CHR '':'' \<notin> set p"
  proof
    assume "CHR '':'' \<in> set p"
    then have "CHR '':'' \<in> set (join_with CHR ''/'' ?cs)" by simp
    moreover have "set (join_with d ws) \<subseteq> insert d (\<Union>w \<in> set ws. set w)" for d ws
      by (induction d ws rule: join_with.induct) auto
    ultimately obtain c where "c \<in> set ?cs" "CHR '':'' \<in> set c" by fastforce
    with safe check_component_safe(6) show False by blast
  qed
  moreover have "length p \<le> 4096"
    using assms by (auto simp: check_wire_path_def PATH_MAX_BYTES_def split: if_splits)
  moreover have "walk root (cut_path p) = root @ ?cs"
    unfolding cut_path_gated [OF ok]
    using safe check_component_safe(1-3) by (intro walk_plain) blast
  ultimately show ?thesis
    using safe check_component_safe(4,7,8) by simp blast
qed

lemma gated_path_stays_below_root_witness:
  "check_wire_path (\<lambda>_. True) ''docs/a.txt'' = Inr () \<and>
   walk [''home'', ''sync''] (cut_path ''docs/a.txt'') = [''home'', ''sync'', ''docs'', ''a.txt'']"
proof -
  have ok: "check_wire_path (\<lambda>_. True) ''docs/a.txt'' = Inr ()"
    by (simp add: check_wire_path_def check_component_def PATH_MAX_BYTES_def COMPONENT_MAX_BYTES_def
        starts_with_def ends_with_def STAGING_DIR_def STAGING_SUFFIX_def windows_reserved_def
        to_upper_def is_digit_def Let_def)
  show ?thesis
    using ok gated_path_stays_below_root [OF ok, of "[''home'', ''sync'']"] by simp
qed

text \<open>
  Device names are refused in any case and with any extension: the check depends only on
  the letters of the stem, so \<open>con.txt\<close>, \<open>Con\<close> and \<open>CON.tar.gz\<close> are one name to it.
\<close>

theorem windows_reserved_any_case_any_extension:
  "windows_reserved (map to_upper name) = windows_reserved name \<and>
   windows_reserved name = windows_reserved (hd (split_on CHR ''.'' name))"
proof -
  have stem: "CHR ''.'' \<notin> set (hd (split_on CHR ''.'' name))"
    using split_on_no_sep [of _ "CHR ''.''" name] by (meson hd_in_set split_on_nonempty)
  show ?thesis
    by (simp add: windows_reserved_def hd_split_upper split_on_single [OF stem] to_upper_idem comp_def)
qed

end
