(* ===== verification/Versions.thy ===== *)
theory Versions
  imports Json Gates
begin

text \<open>
  Version vectors, \<open>sync/src/vv.rs\<close>: an ordered map from a component key \<open>node_id@gen\<close> to the
  last clock value seen of it. The order they carry (\<open>covers\<close>), the four-way classification the
  conflict rule branches on, the join, and the strict wire form.
\<close>

type_synonym vv = "(string, nat) btree"

definition CLOCK_MAX :: nat where
  "CLOCK_MAX = 2 ^ 53 - 1"

definition component :: "string \<Rightarrow> nat \<Rightarrow> string" where
  "component node_id generation = node_id @ CHR ''@'' # show_nat generation"

definition valid_component :: "string \<Rightarrow> bool" where
  "valid_component key =
     (case split_once CHR ''@'' key of
        None \<Rightarrow> False
      | Some (node, generation) \<Rightarrow>
          valid_node_id node \<and> generation \<noteq> [] \<and> length generation \<le> 16 \<and>
          list_all is_digit generation \<and>
          \<not> (length generation > 1 \<and> starts_with generation ''0''))"

datatype relation = Equal | Descends | Precedes | Concurrent

definition vv_get :: "vv \<Rightarrow> string \<Rightarrow> nat" where
  "vv_get a key = (case map_of a key of Some v \<Rightarrow> v | None \<Rightarrow> 0)"

definition vv_set :: "string \<Rightarrow> nat \<Rightarrow> vv \<Rightarrow> vv" where
  "vv_set key v a = bt_insert key v a"

definition covers :: "vv \<Rightarrow> vv \<Rightarrow> bool" where
  "covers a b \<longleftrightarrow> list_all (\<lambda>p. snd p \<le> vv_get a (fst p)) b"

definition vv_relation :: "vv \<Rightarrow> vv \<Rightarrow> relation" where
  "vv_relation a b =
     (case (covers a b, covers b a) of
        (True, True) \<Rightarrow> Equal
      | (True, False) \<Rightarrow> Descends
      | (False, True) \<Rightarrow> Precedes
      | (False, False) \<Rightarrow> Concurrent)"

fun merge_max :: "vv \<Rightarrow> vv \<Rightarrow> vv" where
  "merge_max a [] = a"
| "merge_max a ((key, v) # other) =
     merge_max (if vv_get a key < v then bt_insert key v a else a) other"

definition vv_to_value :: "vv \<Rightarrow> json" where
  "vv_to_value a = jobj (map (\<lambda>p. (fst p, of_u64 (snd p))) a)"

fun vv_parse :: "vv \<Rightarrow> (string \<times> json) list \<Rightarrow> vv option" where
  "vv_parse acc [] = Some acc"
| "vv_parse acc ((key, v) # m) =
     (if \<not> valid_component key then None
      else (case as_u64 v of
              None \<Rightarrow> None
            | Some n \<Rightarrow> if n \<le> CLOCK_MAX then vv_parse (bt_insert key n acc) m else None))"

definition vv_from_value :: "json \<Rightarrow> vv option" where
  "vv_from_value v = do { m \<leftarrow> as_object v; vv_parse [] m }"

definition vv_ok :: "vv \<Rightarrow> bool" where
  "vv_ok a \<longleftrightarrow> bt_ok a \<and> (\<forall>p \<in> set a. valid_component (fst p) \<and> snd p \<le> CLOCK_MAX)"

section \<open>The order\<close>

lemma vv_get_Nil [simp]: "vv_get [] k = 0"
  by (simp add: vv_get_def)

lemma vv_get_insert [simp]: "vv_get (bt_insert k v a) j = (if j = k then v else vv_get a j)"
  by (simp add: vv_get_def)

lemma vv_get_set [simp]: "vv_get (vv_set k v a) j = (if j = k then v else vv_get a j)"
  by (simp add: vv_set_def)

lemma covers_iff:
  assumes "bt_ok b"
  shows "covers a b \<longleftrightarrow> (\<forall>k. vv_get b k \<le> vv_get a k)"
proof
  assume cov: "covers a b"
  show "\<forall>k. vv_get b k \<le> vv_get a k"
  proof
    fix k
    show "vv_get b k \<le> vv_get a k"
    proof (cases "map_of b k")
      case None
      then show ?thesis by (simp add: vv_get_def)
    next
      case (Some v)
      then have "(k, v) \<in> set b" by (rule map_of_SomeD)
      with cov have "v \<le> vv_get a k" by (auto simp: covers_def list_all_iff)
      with Some show ?thesis by (simp add: vv_get_def [of b])
    qed
  qed
next
  assume le: "\<forall>k. vv_get b k \<le> vv_get a k"
  have "snd p \<le> vv_get a (fst p)" if "p \<in> set b" for p
  proof -
    have "map_of b (fst p) = Some (snd p)" using that assms by (simp add: bt_ok_distinct)
    then have "vv_get b (fst p) = snd p" by (simp add: vv_get_def)
    with le show ?thesis by metis
  qed
  then show "covers a b" by (simp add: covers_def list_all_iff)
qed

lemma bt_ok_merge_max [simp]: "bt_ok a \<Longrightarrow> bt_ok (merge_max a b)"
  by (induction a b rule: merge_max.induct) auto

lemma vv_get_Cons: "vv_get ((key, v) # m) k = (if k = key then v else vv_get m k)"
  by (simp add: vv_get_def)

lemma vv_get_absent: "\<forall>p \<in> set m. key < fst p \<Longrightarrow> vv_get m key = 0"
  by (fastforce simp: vv_get_def split: option.splits dest: map_of_SomeD)

lemma vv_get_merge_max:
  "bt_ok b \<Longrightarrow> vv_get (merge_max a b) k = max (vv_get a k) (vv_get b k)"
  by (induction a b rule: merge_max.induct) (auto simp: bt_ok_Cons vv_get_Cons vv_get_absent)

text \<open>
  The contract of a version order with a join, as the sync engine uses it: coverage is a preorder,
  and the join is the least vector covering both. Facts that hold of every such order are proved
  once here.
\<close>

locale version_order =
  fixes wf :: "'v \<Rightarrow> bool"
    and cov :: "'v \<Rightarrow> 'v \<Rightarrow> bool"
    and join :: "'v \<Rightarrow> 'v \<Rightarrow> 'v"
  assumes cov_refl: "wf a \<Longrightarrow> cov a a"
    and cov_trans: "wf a \<Longrightarrow> wf b \<Longrightarrow> wf c \<Longrightarrow> cov a b \<Longrightarrow> cov b c \<Longrightarrow> cov a c"
    and wf_join: "wf a \<Longrightarrow> wf b \<Longrightarrow> wf (join a b)"
    and cov_join: "wf a \<Longrightarrow> wf b \<Longrightarrow> wf c \<Longrightarrow> cov c (join a b) \<longleftrightarrow> cov c a \<and> cov c b"
begin

lemma join_upper: "wf a \<Longrightarrow> wf b \<Longrightarrow> cov (join a b) a \<and> cov (join a b) b"
  using cov_join [of a b "join a b"] by (simp add: wf_join cov_refl)

lemma join_least: "wf a \<Longrightarrow> wf b \<Longrightarrow> wf c \<Longrightarrow> cov c a \<Longrightarrow> cov c b \<Longrightarrow> cov c (join a b)"
  by (simp add: cov_join)

lemma join_commutes: "wf a \<Longrightarrow> wf b \<Longrightarrow> cov (join a b) (join b a)"
  using join_upper [of a b] by (simp add: cov_join wf_join)

lemma join_assoc:
  "wf a \<Longrightarrow> wf b \<Longrightarrow> wf c \<Longrightarrow>
   cov (join (join a b) c) (join a (join b c)) \<and> cov (join a (join b c)) (join (join a b) c)"
  using join_upper [of "join a b" c] join_upper [of a b] join_upper [of a "join b c"] join_upper [of b c]
  by (simp add: cov_join wf_join)

lemma join_absorbs: "wf a \<Longrightarrow> wf b \<Longrightarrow> cov a b \<Longrightarrow> cov a (join a b) \<and> cov (join a b) a"
  using join_upper [of a b] by (simp add: cov_join cov_refl)

lemma foldl_wf: "wf a \<Longrightarrow> (\<forall>b \<in> set bs. wf b) \<Longrightarrow> wf (foldl join a bs)"
  by (induction bs arbitrary: a) (auto simp: wf_join)

lemma foldl_least:
  "wf a \<Longrightarrow> (\<forall>b \<in> set bs. wf b) \<Longrightarrow> wf c \<Longrightarrow>
   cov c (foldl join a bs) \<longleftrightarrow> cov c a \<and> (\<forall>b \<in> set bs. cov c b)"
  by (induction bs arbitrary: a) (auto simp: cov_join wf_join)

lemma foldl_covers:
  assumes "wf a" and "\<forall>b \<in> set bs. wf b"
  shows "cov (foldl join a bs) a \<and> (\<forall>b \<in> set bs. cov (foldl join a bs) b)"
  using foldl_least [OF assms foldl_wf [OF assms]] cov_refl [OF foldl_wf [OF assms]] by simp

end

interpretation vv: version_order bt_ok covers merge_max
proof unfold_locales
  show "covers a c" if "bt_ok a" "bt_ok b" "bt_ok c" "covers a b" "covers b c" for a b c
    using that by (metis covers_iff order_trans)
qed (auto simp: covers_iff vv_get_merge_max)

lemma vv_relation_iff:
  "vv_relation a b = Equal \<longleftrightarrow> covers a b \<and> covers b a"
  "vv_relation a b = Descends \<longleftrightarrow> covers a b \<and> \<not> covers b a"
  "vv_relation a b = Precedes \<longleftrightarrow> \<not> covers a b \<and> covers b a"
  "vv_relation a b = Concurrent \<longleftrightarrow> \<not> covers a b \<and> \<not> covers b a"
  by (simp_all add: vv_relation_def split: bool.splits)

section \<open>Component keys\<close>

lemma valid_component_component:
  assumes "valid_node_id node" and "g < 10 ^ 16"
  shows "valid_component (component node g)"
proof -
  have split: "split_once CHR ''@'' (component node g) = Some (node, show_nat g)"
    using valid_node_id_no_at [OF assms(1)] by (simp add: component_def split_once_append)
  have "length (show_nat g) \<le> 16"
    using length_show_nat [of g 15] assms(2) by simp
  moreover have "list_all is_digit (show_nat g)"
    using show_nat_digits by (simp add: list_all_iff)
  moreover have "\<not> (length (show_nat g) > 1 \<and> starts_with (show_nat g) ''0'')"
  proof (cases "g = 0")
    case True
    then show ?thesis by (simp add: show_nat.simps)
  next
    case False
    then have "hd (show_nat g) \<noteq> CHR ''0''" by (simp add: show_nat_no_leading_zero)
    then show ?thesis by (cases "show_nat g") (auto simp: starts_with_def)
  qed
  ultimately show ?thesis
    using split assms(1) by (simp add: valid_component_def)
qed

lemma component_inj:
  assumes "valid_node_id m" and "valid_node_id n" and "component m g = component n h"
  shows "m = n \<and> g = h"
proof -
  have "split_once CHR ''@'' (component x k) = Some (x, show_nat k)" if "valid_node_id x" for x k
    using valid_node_id_no_at [OF that] by (simp add: component_def split_once_append)
  from this [OF assms(1)] this [OF assms(2)] assms(3)
  have "Some (m, show_nat g) = Some (n, show_nat h)" by metis
  then show ?thesis by (simp add: show_nat_inj)
qed

section \<open>The wire form\<close>

lemma vv_parse_written:
  "(\<forall>p \<in> set b. valid_component (fst p) \<and> snd p \<le> CLOCK_MAX) \<Longrightarrow>
   vv_parse acc (map (\<lambda>p. (fst p, of_u64 (snd p))) b) =
     Some (foldl (\<lambda>m p. bt_insert (fst p) (snd p) m) acc b)"
  by (induction b arbitrary: acc) auto

lemma vv_parse_strict:
  "vv_parse acc m = Some a \<Longrightarrow>
   \<exists>b. m = map (\<lambda>p. (fst p, of_u64 (snd p))) b \<and>
       (\<forall>p \<in> set b. valid_component (fst p) \<and> snd p \<le> CLOCK_MAX)"
proof (induction acc m rule: vv_parse.induct)
  case (2 acc key v m)
  then obtain n where n: "v = of_u64 n" "valid_component key" "n \<le> CLOCK_MAX"
    and rest: "vv_parse (bt_insert key n acc) m = Some a"
    by (auto simp: of_u64_def split: if_splits option.splits)
  from "2.IH" rest n obtain b where "m = map (\<lambda>p. (fst p, of_u64 (snd p))) b"
    and "\<forall>p \<in> set b. valid_component (fst p) \<and> snd p \<le> CLOCK_MAX"
    by (auto simp: of_u64_def)
  with n show ?case by (intro exI [of _ "(key, n) # b"]) simp
qed simp

lemma vv_to_value_sorted:
  "bt_ok a \<Longrightarrow> vv_to_value a = JObj (map (\<lambda>p. (fst p, of_u64 (snd p))) a)"
  by (simp add: vv_to_value_def jobj_def bt_of_list_id bt_ok_map_snd)

lemma json_ok_vv: "vv_ok a \<Longrightarrow> json_ok (vv_to_value a)"
  by (fastforce simp: vv_to_value_def vv_ok_def comp_def CLOCK_MAX_def dest!: bt_ok_distinct
      intro!: json_ok_jobj json_ok_of_u64)

interpretation vv: strict_codec vv_to_value vv_from_value vv_ok
proof unfold_locales
  show "json_ok (vv_to_value a)" if "vv_ok a" for a using that by (rule json_ok_vv)
next
  fix a :: vv
  assume "vv_ok a"
  then have ok: "bt_ok a" and valid: "\<forall>p \<in> set a. valid_component (fst p) \<and> snd p \<le> CLOCK_MAX"
    by (auto simp: vv_ok_def)
  with vv_parse_written [OF valid, of "[]"] show "vv_from_value (vv_to_value a) = Some a"
    by (simp add: vv_from_value_def vv_to_value_sorted bt_of_list_def [symmetric] bt_of_list_id)
next
  fix v and a :: vv
  assume v: "json_ok v" and parse: "vv_from_value v = Some a"
  then obtain m where m: "v = JObj m" "vv_parse [] m = Some a"
    by (auto simp: vv_from_value_def bind_Some_iff)
  then obtain b where b: "m = map (\<lambda>p. (fst p, of_u64 (snd p))) b"
    "\<forall>p \<in> set b. valid_component (fst p) \<and> snd p \<le> CLOCK_MAX"
    using vv_parse_strict by blast
  have ok: "bt_ok b" using v m(1) b(1) by (simp add: bt_ok_map_snd)
  with vv_parse_written [OF b(2), of "[]"] m(2) b(1) have "a = b"
    by (simp add: bt_of_list_def [symmetric] bt_of_list_id)
  with b m(1) ok show "vv_ok a \<and> v = vv_to_value a"
    by (simp add: vv_ok_def vv_to_value_sorted)
qed

lemma bt_insert_set: "p \<in> set (bt_insert k v m) \<Longrightarrow> p = (k, v) \<or> p \<in> set m"
  by (induction k v m rule: bt_insert.induct) (auto split: if_splits)

lemma vv_ok_set:
  "vv_ok a \<Longrightarrow> valid_component k \<Longrightarrow> n \<le> CLOCK_MAX \<Longrightarrow> vv_ok (vv_set k n a)"
  unfolding vv_ok_def vv_set_def using bt_insert_set by fastforce

section \<open>Properties\<close>

text \<open>
  The join of two version vectors is their least upper bound: a vector covers the join exactly
  when it covers both, and the join holds the larger of the two values at every component (a
  component absent from a vector counts as zero).
\<close>

theorem merge_max_is_join:
  assumes "bt_ok a" and "bt_ok b" and "bt_ok c"
  shows "(covers c (merge_max a b) \<longleftrightarrow> covers c a \<and> covers c b) \<and>
     (\<forall>k. vv_get (merge_max a b) k = max (vv_get a k) (vv_get b k))"
  using assms by (simp add: vv.cov_join vv_get_merge_max)

lemma merge_max_is_join_witness:
  "covers [(''x'', 3), (''y'', 2)] (merge_max [(''x'', 3)] [(''x'', 1), (''y'', 2)]) \<and>
   vv_get (merge_max [(''x'', 3)] [(''x'', 1), (''y'', 2)]) ''y'' = 2"
  using merge_max_is_join [of "[(''x'', 3)]" "[(''x'', 1), (''y'', 2)]" "[(''x'', 3), (''y'', 2)]"]
  by (simp add: bt_ok_def covers_def vv_get_def)

text \<open>
  The four-way relation is exactly the componentwise order: equal means equal everywhere,
  descends means at least everywhere and more somewhere, precedes is its converse, and concurrent
  means each side is ahead somewhere; swapping the arguments swaps the two directions.
\<close>

theorem relation_is_componentwise:
  assumes "bt_ok a" and "bt_ok b"
  shows "(case vv_relation a b of
       Equal \<Rightarrow> (\<forall>k. vv_get a k = vv_get b k) \<and> vv_relation b a = Equal
     | Descends \<Rightarrow> (\<forall>k. vv_get b k \<le> vv_get a k) \<and> (\<exists>k. vv_get b k < vv_get a k) \<and> vv_relation b a = Precedes
     | Precedes \<Rightarrow> (\<forall>k. vv_get a k \<le> vv_get b k) \<and> (\<exists>k. vv_get a k < vv_get b k) \<and> vv_relation b a = Descends
     | Concurrent \<Rightarrow> (\<exists>k. vv_get a k < vv_get b k) \<and> (\<exists>k. vv_get b k < vv_get a k) \<and> vv_relation b a = Concurrent)"
proof -
  have le: "covers x y \<longleftrightarrow> (\<forall>k. vv_get y k \<le> vv_get x k)" if "bt_ok y" for x y
    using covers_iff [OF that] .
  consider "covers a b" "covers b a" | "covers a b" "\<not> covers b a"
    | "\<not> covers a b" "covers b a" | "\<not> covers a b" "\<not> covers b a" by blast
  then show ?thesis
  proof cases
    case 1
    then have "vv_relation a b = Equal" "vv_relation b a = Equal" by (simp_all add: vv_relation_def)
    with 1 assms show ?thesis by (auto simp: le intro: order_antisym)
  next
    case 2
    then have "vv_relation a b = Descends" "vv_relation b a = Precedes" by (simp_all add: vv_relation_def)
    with 2 assms show ?thesis by (auto simp: le not_le)
  next
    case 3
    then have "vv_relation a b = Precedes" "vv_relation b a = Descends" by (simp_all add: vv_relation_def)
    with 3 assms show ?thesis by (auto simp: le not_le)
  next
    case 4
    then have "vv_relation a b = Concurrent" "vv_relation b a = Concurrent" by (simp_all add: vv_relation_def)
    with 4 assms show ?thesis by (auto simp: le not_le)
  qed
qed

lemma relation_is_componentwise_witness:
  "vv_relation [(''x'', 1)] [(''y'', 1)] = Concurrent \<and>
   (\<exists>k. vv_get [(''x'', 1)] k < vv_get [(''y'', 1)] k)"
proof -
  have "vv_relation [(''x'', 1)] [(''y'', 1)] = Concurrent"
    by (simp add: vv_relation_def covers_def vv_get_def)
  with relation_is_componentwise [of "[(''x'', 1)]" "[(''y'', 1)]"] show ?thesis
    by (simp add: bt_ok_def)
qed

end
