(* ===== verification/Index.thy ===== *)
theory Index
  imports Versions
begin

text \<open>
  The per-set file index, \<open>sync/src/index.rs\<close>: one entry per wire path with its version vector,
  kept in path order; tombstones stay. Entries have a strict wire form shared by the gossip pages
  and the index file; the delta rule and the clock-resume floor are read off the index.
\<close>

datatype entry_kind = EFile | EDir

fun entry_kind_as_str :: "entry_kind \<Rightarrow> string" where
  "entry_kind_as_str EFile = ''file''"
| "entry_kind_as_str EDir = ''dir''"

definition entry_kind_parse :: "string \<Rightarrow> entry_kind option" where
  "entry_kind_parse s = (if s = ''file'' then Some EFile else if s = ''dir'' then Some EDir else None)"

record mtime =
  m_secs :: int
  m_nanos :: nat

definition mtime_default :: mtime where
  "mtime_default = \<lparr>m_secs = 0, m_nanos = 0\<rparr>"

text \<open>What \<open>SystemTime::duration_since(UNIX_EPOCH)\<close> answers: a duration, or the error's duration.\<close>

datatype system_time = SinceEpoch nat nat | BeforeEpoch nat nat

definition secs_i64 :: "nat \<Rightarrow> int" where
  "secs_i64 s = (if int s \<le> i64_max then int s else i64_max)"

fun mtime_of :: "system_time \<Rightarrow> mtime" where
  "mtime_of (SinceEpoch s n) = \<lparr>m_secs = secs_i64 s, m_nanos = n\<rparr>"
| "mtime_of (BeforeEpoch s n) = \<lparr>m_secs = - secs_i64 s, m_nanos = 0\<rparr>"

definition seconds_apart :: "mtime \<Rightarrow> mtime \<Rightarrow> nat" where
  "seconds_apart a b = nat \<bar>m_secs a - m_secs b\<bar>"

record entry =
  e_path :: string
  e_kind :: entry_kind
  e_size :: nat
  e_mtime :: mtime
  e_exec :: bool
  e_hash :: string
  e_vv :: vv
  e_deleted :: bool

definition mtime_to_value :: "mtime \<Rightarrow> json" where
  "mtime_to_value m = jobj [(''secs'', of_i64 (m_secs m)), (''nanos'', of_u64 (m_nanos m))]"

definition entry_to_value :: "entry \<Rightarrow> json" where
  "entry_to_value e = jobj
     [(''path'', JStr (e_path e)),
      (''kind'', JStr (entry_kind_as_str (e_kind e))),
      (''size'', of_u64 (e_size e)),
      (''mtime'', mtime_to_value (e_mtime e)),
      (''exec'', JBool (e_exec e)),
      (''hash'', JStr (e_hash e)),
      (''vv'', vv_to_value (e_vv e)),
      (''deleted'', JBool (e_deleted e))]"

definition hash_form :: "string \<Rightarrow> bool" where
  "hash_form h \<longleftrightarrow> h = [] \<or> length h = 64 \<and> list_all is_lower_hex h"

definition entry_from_value :: "(string \<Rightarrow> bool) \<Rightarrow> json \<Rightarrow> entry option" where
  "entry_from_value is_nfc v = do {
     m \<leftarrow> as_object v;
     if length m \<noteq> 8 then None else do {
       path \<leftarrow> Option.bind (map_of m ''path'') as_str;
       if check_wire_path is_nfc path \<noteq> Inr () then None else do {
         hash \<leftarrow> Option.bind (map_of m ''hash'') as_str;
         if \<not> hash_form hash then None else do {
           mt \<leftarrow> Option.bind (map_of m ''mtime'') as_object;
           if length mt \<noteq> 2 then None else do {
             kind \<leftarrow> Option.bind (Option.bind (map_of m ''kind'') as_str) entry_kind_parse;
             size \<leftarrow> Option.bind (map_of m ''size'') as_u64;
             secs \<leftarrow> Option.bind (map_of mt ''secs'') as_i64;
             nanos \<leftarrow> Option.bind (map_of mt ''nanos'') as_u64;
             if \<not> nanos < 1000000000 then None else do {
               exec \<leftarrow> Option.bind (map_of m ''exec'') as_bool;
               vv \<leftarrow> Option.bind (map_of m ''vv'') vv_from_value;
               deleted \<leftarrow> Option.bind (map_of m ''deleted'') as_bool;
               Some \<lparr>e_path = path, e_kind = kind, e_size = size,
                     e_mtime = \<lparr>m_secs = secs, m_nanos = nanos\<rparr>, e_exec = exec,
                     e_hash = hash, e_vv = vv, e_deleted = deleted\<rparr>
             }
           }
         }
       }
     }
   }"

definition mtime_ok :: "mtime \<Rightarrow> bool" where
  "mtime_ok m \<longleftrightarrow> - (2 ^ 63) \<le> m_secs m \<and> m_secs m \<le> i64_max \<and> m_nanos m < 1000000000"

definition entry_ok :: "(string \<Rightarrow> bool) \<Rightarrow> entry \<Rightarrow> bool" where
  "entry_ok is_nfc e \<longleftrightarrow>
     path_ok is_nfc (e_path e) \<and> e_size e \<le> u64_max \<and> mtime_ok (e_mtime e) \<and>
     hash_form (e_hash e) \<and> vv_ok (e_vv e)"

section \<open>The index\<close>

type_synonym set_index = "(string, entry) btree"

definition index_get :: "set_index \<Rightarrow> string \<Rightarrow> entry option" where
  "index_get idx path = map_of idx path"

definition index_upsert :: "entry \<Rightarrow> set_index \<Rightarrow> set_index" where
  "index_upsert e idx = bt_insert (e_path e) e idx"

definition index_entries :: "set_index \<Rightarrow> entry list" where
  "index_entries idx = map snd idx"

definition live :: "set_index \<Rightarrow> entry list" where
  "live idx = filter (\<lambda>e. \<not> e_deleted e) (index_entries idx)"

definition not_covered_by :: "set_index \<Rightarrow> vv \<Rightarrow> entry list" where
  "not_covered_by idx peer_vv = filter (\<lambda>e. \<not> covers peer_vv (e_vv e)) (index_entries idx)"

definition max_component :: "set_index \<Rightarrow> string \<Rightarrow> nat" where
  "max_component idx key = fold max (map (\<lambda>e. vv_get (e_vv e) key) (index_entries idx)) 0"

definition index_to_value :: "set_index \<Rightarrow> json" where
  "index_to_value idx = jobj [(''entries'', JArr (map entry_to_value (index_entries idx)))]"

fun load_entries :: "(string \<Rightarrow> bool) \<Rightarrow> set_index \<Rightarrow> json list \<Rightarrow> set_index option" where
  "load_entries is_nfc idx [] = Some idx"
| "load_entries is_nfc idx (v # vs) =
     (case entry_from_value is_nfc v of
        None \<Rightarrow> None
      | Some e \<Rightarrow> load_entries is_nfc (bt_insert (e_path e) e idx) vs)"

definition index_from_value :: "(string \<Rightarrow> bool) \<Rightarrow> json \<Rightarrow> set_index option" where
  "index_from_value is_nfc v = do {
     es \<leftarrow> jget v ''entries'';
     vs \<leftarrow> as_array es;
     load_entries is_nfc [] vs
   }"

definition index_ok :: "set_index \<Rightarrow> bool" where
  "index_ok idx \<longleftrightarrow> bt_ok idx \<and> (\<forall>p \<in> set idx. e_path (snd p) = fst p \<and> bt_ok (e_vv (snd p)))"

lemma index_get_upsert [simp]:
  "index_get (index_upsert e idx) p = (if p = e_path e then Some e else index_get idx p)"
  by (simp add: index_get_def index_upsert_def)

lemma index_ok_Nil [simp]: "index_ok []"
  by (simp add: index_ok_def)

lemma index_ok_upsert: "index_ok idx \<Longrightarrow> bt_ok (e_vv e) \<Longrightarrow> index_ok (index_upsert e idx)"
  unfolding index_ok_def index_upsert_def using bt_insert_set by fastforce

lemma index_getD: "index_ok idx \<Longrightarrow> index_get idx p = Some e \<Longrightarrow> e_path e = p \<and> bt_ok (e_vv e)"
  by (fastforce simp: index_ok_def index_get_def dest: map_of_SomeD)

lemma index_entries_iff:
  "index_ok idx \<Longrightarrow> e \<in> set (index_entries idx) \<longleftrightarrow> index_get idx (e_path e) = Some e"
  by (force simp: index_ok_def index_get_def index_entries_def map_of_in_set [symmetric])

lemma fold_max: "fold max (ns :: nat list) m = Max (insert m (set ns))"
  using Max.set_eq_fold [of m ns] by simp

lemma max_component_ge: "e \<in> set (index_entries idx) \<Longrightarrow> vv_get (e_vv e) key \<le> max_component idx key"
  by (auto simp: max_component_def fold_max)

lemma max_component_attained:
  "max_component idx key = 0 \<or> (\<exists>e \<in> set (index_entries idx). vv_get (e_vv e) key = max_component idx key)"
proof -
  let ?S = "insert 0 ((\<lambda>e. vv_get (e_vv e) key) ` set (index_entries idx))"
  have "max_component idx key = Max ?S" by (simp add: max_component_def fold_max)
  moreover have "Max ?S \<in> ?S" by (intro Max_in) auto
  ultimately show ?thesis by auto
qed

section \<open>The wire form of entries\<close>

lemma entry_kind_round: "entry_kind_parse (entry_kind_as_str k) = Some k"
  by (cases k) (auto simp: entry_kind_parse_def)

lemma entry_kind_strict: "entry_kind_parse s = Some k \<Longrightarrow> s = entry_kind_as_str k"
  by (auto simp: entry_kind_parse_def split: if_splits)

lemma mtime_fields:
  assumes "mtime_ok m"
  shows "\<exists>mt. mtime_to_value m = JObj mt \<and> length mt = 2 \<and>
    map_of mt ''secs'' = Some (of_i64 (m_secs m)) \<and> map_of mt ''nanos'' = Some (of_u64 (m_nanos m))"
  unfolding mtime_to_value_def jobj_def
  by (auto simp: length_bt_of_list map_of_bt_of_list_distinct)

abbreviation entry_fields :: "string list" where
  "entry_fields \<equiv> [''path'', ''kind'', ''size'', ''mtime'', ''exec'', ''hash'', ''vv'', ''deleted'']"

lemma entry_dec_enc: "entry_ok is_nfc e \<Longrightarrow> entry_from_value is_nfc (entry_to_value e) = Some e"
proof -
  assume ok: "entry_ok is_nfc e"
  obtain m where m: "entry_to_value e = JObj m" and len: "length m = 8"
    and get: "map_of m ''path'' = Some (JStr (e_path e))"
      "map_of m ''kind'' = Some (JStr (entry_kind_as_str (e_kind e)))"
      "map_of m ''size'' = Some (of_u64 (e_size e))"
      "map_of m ''mtime'' = Some (mtime_to_value (e_mtime e))"
      "map_of m ''exec'' = Some (JBool (e_exec e))"
      "map_of m ''hash'' = Some (JStr (e_hash e))"
      "map_of m ''vv'' = Some (vv_to_value (e_vv e))"
      "map_of m ''deleted'' = Some (JBool (e_deleted e))"
    by (simp add: entry_to_value_def jobj_def length_bt_of_list map_of_bt_of_list_distinct)
  obtain mt where mt: "mtime_to_value (e_mtime e) = JObj mt" "length mt = 2"
    "map_of mt ''secs'' = Some (of_i64 (m_secs (e_mtime e)))"
    "map_of mt ''nanos'' = Some (of_u64 (m_nanos (e_mtime e)))"
    using mtime_fields ok by (auto simp: entry_ok_def)
  show ?thesis
    using ok
    by (simp add: entry_from_value_def m len get mt entry_ok_def path_ok_def mtime_ok_def
        entry_kind_round as_i64_of_i64 vv.dec_enc)
qed

lemma entry_enc_dec:
  assumes v: "json_ok v" and parse: "entry_from_value is_nfc v = Some e"
  shows "entry_ok is_nfc e \<and> v = entry_to_value e"
proof -
  from parse obtain m mt kind size secs nanos vv where
    m: "v = JObj m" "length m = 8" and path: "check_wire_path is_nfc (e_path e) = Inr ()"
    and hash: "hash_form (e_hash e)"
    and get: "map_of m ''path'' = Some (JStr (e_path e))"
      "map_of m ''kind'' = Some (JStr kind)"
      "map_of m ''size'' = Some (of_u64 (e_size e))"
      "map_of m ''mtime'' = Some (JObj mt)"
      "map_of m ''exec'' = Some (JBool (e_exec e))"
      "map_of m ''hash'' = Some (JStr (e_hash e))"
      "map_of m ''vv'' = Some vv"
      "map_of m ''deleted'' = Some (JBool (e_deleted e))"
    and kind: "entry_kind_parse kind = Some (e_kind e)"
    and mt: "length mt = 2" "map_of mt ''secs'' = Some secs" "as_i64 secs = Some (m_secs (e_mtime e))"
      "map_of mt ''nanos'' = Some (of_u64 (m_nanos (e_mtime e)))" "m_nanos (e_mtime e) < 1000000000"
    and vv: "vv_from_value vv = Some (e_vv e)"
    unfolding entry_from_value_def
    by (auto simp: bind_Some_iff of_u64_def split: if_splits)
  have in_m: "json_ok x" if "map_of m k = Some x" for k x
    using that v m(1) by (fastforce dest: map_of_SomeD)
  have bt: "bt_ok m" "bt_ok mt" using v m(1) in_m [OF get(4)] by auto
  have secs_ok: "json_ok secs"
    using in_m [OF get(4)] mt(2) by (fastforce dest: map_of_SomeD)
  have secs: "secs = of_i64 (m_secs (e_mtime e))" "m_secs (e_mtime e) \<le> i64_max"
    using as_i64_Some [OF secs_ok mt(3)] by blast+
  have low: "- (2 ^ 63) \<le> m_secs (e_mtime e)"
    using secs_ok secs(1) by (auto simp: of_i64_def split: if_splits)
  have "exact_fields (JObj mt) [''secs'', ''nanos''] =
      Some [of_i64 (m_secs (e_mtime e)), of_u64 (m_nanos (e_mtime e))]"
    using mt secs(1) by (simp add: exact_fields_def)
  from exact_fields_bt [OF this bt(2)] have mt_eq: "JObj mt = mtime_to_value (e_mtime e)"
    by (simp add: mtime_to_value_def)
  have vv_eq: "vv_ok (e_vv e)" "vv = vv_to_value (e_vv e)"
    using vv.enc_dec [OF in_m [OF get(7)] vv] by blast+
  have "exact_fields (JObj m) entry_fields =
      Some [JStr (e_path e), JStr (entry_kind_as_str (e_kind e)), of_u64 (e_size e),
        mtime_to_value (e_mtime e), JBool (e_exec e), JStr (e_hash e), vv_to_value (e_vv e),
        JBool (e_deleted e)]"
    using m get entry_kind_strict [OF kind] mt_eq vv_eq(2) by (simp add: exact_fields_def)
  from exact_fields_bt [OF this bt(1)] have "v = entry_to_value e"
    by (simp add: entry_to_value_def m(1))
  moreover have "e_size e \<le> u64_max" using in_m [OF get(3)] by (simp add: of_u64_def)
  ultimately show ?thesis
    using path hash secs(2) low mt(5) vv_eq(1) by (simp add: entry_ok_def path_ok_def mtime_ok_def)
qed

lemma json_ok_mtime: "mtime_ok m \<Longrightarrow> json_ok (mtime_to_value m)"
  by (auto simp: mtime_to_value_def mtime_ok_def intro!: json_ok_jobj json_ok_of_u64 json_ok_of_i64)

lemma json_ok_entry: "entry_ok is_nfc e \<Longrightarrow> json_ok (entry_to_value e)"
  unfolding entry_to_value_def
  by (rule json_ok_jobj) (simp_all add: entry_ok_def json_ok_of_u64 json_ok_mtime json_ok_vv)

interpretation entry_codec: strict_codec entry_to_value "entry_from_value is_nfc" "entry_ok is_nfc"
  for is_nfc
  by unfold_locales (auto simp: entry_dec_enc json_ok_entry dest: entry_enc_dec)

section \<open>The index file\<close>

lemma load_entries_written:
  "(\<forall>e \<in> set es. entry_ok is_nfc e) \<Longrightarrow>
   load_entries is_nfc idx (map entry_to_value es) =
     Some (foldl (\<lambda>m p. bt_insert (fst p) (snd p) m) idx (map (\<lambda>e. (e_path e, e)) es))"
  by (induction es arbitrary: idx) (auto simp: entry_codec.dec_enc)

lemma index_keys: "index_ok idx \<Longrightarrow> map (\<lambda>e. (e_path e, e)) (index_entries idx) = idx"
  by (auto simp: index_ok_def index_entries_def comp_def intro!: map_idI)

section \<open>Properties\<close>

text \<open>
  The wire form of an index entry is strict in both directions: a well-formed entry parses
  back to itself, and any value that parses is well-formed (gated path, bounded integers, a valid
  version vector) and is byte for byte what the entry writes, so nothing can be smuggled beside
  the eight fields.
\<close>

theorem entry_wire_form_is_exact:
  assumes "json_ok v"
  shows "entry_from_value is_nfc v = Some e \<longleftrightarrow> entry_ok is_nfc e \<and> v = entry_to_value e"
  using assms entry_codec.dec_enc entry_codec.enc_dec by blast

definition sample_entry :: entry where
  "sample_entry = \<lparr>e_path = ''a'', e_kind = EFile, e_size = 3, e_mtime = mtime_default,
     e_exec = False, e_hash = [], e_vv = [], e_deleted = True\<rparr>"

lemma sample_entry_ok: "entry_ok (\<lambda>_. True) sample_entry"
  by (simp add: sample_entry_def entry_ok_def path_ok_def check_wire_path_def check_component_def
      PATH_MAX_BYTES_def COMPONENT_MAX_BYTES_def starts_with_def ends_with_def STAGING_DIR_def
      STAGING_SUFFIX_def windows_reserved_def to_upper_def Let_def mtime_ok_def mtime_default_def
      hash_form_def vv_ok_def)

lemma entry_wire_form_is_exact_witness:
  "entry_from_value (\<lambda>_. True) (entry_to_value sample_entry) = Some sample_entry"
  using entry_wire_form_is_exact [OF json_ok_entry [OF sample_entry_ok]] sample_entry_ok
  by blast

text \<open>
  C6. The delta rule loses nothing: an entry is sent exactly when some component of its vector is
  ahead of the peer's advertised one, and a peer that joins the vectors of the delta into its own
  covers every entry of the index, whoever authored it.
\<close>

theorem delta_completes_the_peer:
  assumes "index_ok idx" and "bt_ok peer"
  shows "(\<forall>e \<in> set (index_entries idx).
        e \<in> set (not_covered_by idx peer) \<longleftrightarrow> (\<exists>k. vv_get peer k < vv_get (e_vv e) k)) \<and>
     (\<forall>e \<in> set (index_entries idx).
        covers (foldl merge_max peer (map e_vv (not_covered_by idx peer))) (e_vv e))"
proof -
  have bt: "bt_ok (e_vv e)" if "e \<in> set (index_entries idx)" for e
    using assms(1) that by (auto simp: index_ok_def index_entries_def)
  let ?vs = "map e_vv (not_covered_by idx peer)"
  have wf: "\<forall>b \<in> set ?vs. bt_ok b" using bt by (auto simp: not_covered_by_def)
  note join = vv.foldl_covers [OF assms(2) wf] and joined = vv.foldl_wf [OF assms(2) wf]
  have "covers (foldl merge_max peer ?vs) (e_vv e)" if e: "e \<in> set (index_entries idx)" for e
  proof (cases "covers peer (e_vv e)")
    case True
    with join show ?thesis
      using vv.cov_trans [OF joined assms(2) bt [OF e]] by blast
  next
    case False
    with e join show ?thesis by (auto simp: not_covered_by_def)
  qed
  moreover have "e \<in> set (not_covered_by idx peer) \<longleftrightarrow> (\<exists>k. vv_get peer k < vv_get (e_vv e) k)"
    if "e \<in> set (index_entries idx)" for e
    using that covers_iff [OF bt [OF that]] by (auto simp: not_covered_by_def not_le)
  ultimately show ?thesis by blast
qed

definition sample_index :: set_index where
  "sample_index =
     [(''a'', sample_entry\<lparr>e_vv := [(''x'', 1)]\<rparr>),
      (''b'', sample_entry\<lparr>e_path := ''b'', e_vv := [(''x'', 5)]\<rparr>)]"

lemma delta_completes_the_peer_witness:
  "map e_path (not_covered_by sample_index [(''x'', 3)]) = [''b''] \<and>
   covers (foldl merge_max [(''x'', 3)] (map e_vv (not_covered_by sample_index [(''x'', 3)]))) [(''x'', 5)]"
proof -
  have ok: "index_ok sample_index"
    by (simp add: index_ok_def sample_index_def bt_ok_def sample_entry_def)
  have peer: "bt_ok [(''x'', 3 :: nat)]" by (simp add: bt_ok_def)
  have "map e_path (not_covered_by sample_index [(''x'', 3)]) = [''b'']"
    by (simp add: not_covered_by_def sample_index_def index_entries_def covers_def vv_get_def
        sample_entry_def)
  with delta_completes_the_peer [OF ok peer] show ?thesis
    by (simp add: sample_index_def index_entries_def)
qed

text \<open>
  The index file round-trips: loading what a well-formed index wrote gives the same index,
  every tombstone and version vector included.
\<close>

theorem index_round_trip:
  assumes "index_ok idx" and "\<forall>e \<in> set (index_entries idx). entry_ok is_nfc e"
  shows "index_from_value is_nfc (index_to_value idx) = Some idx"
proof -
  have "load_entries is_nfc [] (map entry_to_value (index_entries idx)) = Some (bt_of_list idx)"
    using load_entries_written [OF assms(2), of "[]"]
    by (simp add: index_keys [OF assms(1)] bt_of_list_def)
  moreover have "bt_of_list idx = idx" using assms(1) by (simp add: index_ok_def bt_of_list_id)
  ultimately show ?thesis
    by (simp add: index_from_value_def index_to_value_def jget_jobj)
qed

lemma index_round_trip_witness:
  "index_from_value (\<lambda>_. True) (index_to_value [(''a'', sample_entry)]) = Some [(''a'', sample_entry)]"
  using index_round_trip [of "[(''a'', sample_entry)]" "\<lambda>_. True"] sample_entry_ok
  by (simp add: index_ok_def bt_ok_def index_entries_def sample_entry_def)

end
