(* ===== verification/Clock.thy ===== *)
theory Clock
  imports Index
begin

text \<open>
  The durable set clock, \<open>sync/src/clock.rs\<close>. The disk is the lease file together with a list of
  the outcomes of the writes to come (\<open>True\<close> is a write that fails; when the list is used up
  writes succeed), so a failing disk is part of the model. An operation returns its result, the
  clock in memory and the disk.

  The state machine at the end puts opens, ticks, jumps, crashes and failing writes in any order.
  Its flag says whether the process gives the clock up after an error. With the flag set no clock
  value is ever issued twice under one generation. Without it one is, because \<open>reserve\<close> moves the
  reservation in memory before the write that may fail.
\<close>

definition RESERVE_BLOCK :: nat where
  "RESERVE_BLOCK = 1000"

definition CLOCK_CEILING :: nat where
  "CLOCK_CEILING = 2 ^ 53 - 1 - RESERVE_BLOCK"

datatype lease_file = Absent | Text "json option" | Unreadable

record disk =
  d_lease :: lease_file
  d_faults :: "bool list"

record clock =
  c_generation :: nat
  c_current :: nat
  c_reserved :: nat

definition lease_doc :: "nat \<Rightarrow> nat \<Rightarrow> json" where
  "lease_doc g r = jobj [(''gen'', of_u64 g), (''reserved'', of_u64 r)]"

text \<open>The atomic write of the store: all or nothing.\<close>

definition write_lease :: "json \<Rightarrow> disk \<Rightarrow> (string + unit) \<times> disk" where
  "write_lease doc d =
     (case d_faults d of
        True # fs \<Rightarrow> (Inl ''write failed'', d\<lparr>d_faults := fs\<rparr>)
      | False # fs \<Rightarrow> (Inr (), d\<lparr>d_lease := Text (Some doc), d_faults := fs\<rparr>)
      | [] \<Rightarrow> (Inr (), d\<lparr>d_lease := Text (Some doc)\<rparr>))"

definition reserve :: "clock \<Rightarrow> disk \<Rightarrow> (string + unit) \<times> clock \<times> disk" where
  "reserve c d =
     (if c_current c > CLOCK_CEILING then (Inl ''set clock exhausted'', c, d)
      else (let c' = c\<lparr>c_reserved := c_current c + RESERVE_BLOCK\<rparr>;
                (res, d') = write_lease (lease_doc (c_generation c') (c_reserved c')) d
            in (res, c', d')))"

definition read_lease :: "json \<Rightarrow> (nat \<times> nat) option" where
  "read_lease doc = do {
     generation \<leftarrow> Option.bind (jget doc ''gen'') as_u64;
     reserved \<leftarrow> Option.bind (jget doc ''reserved'') as_u64;
     Some (generation, reserved)
   }"

definition clock_open :: "set_index \<Rightarrow> string \<Rightarrow> nat \<Rightarrow> disk \<Rightarrow> (string + clock) \<times> disk" where
  "clock_open index self_node unix_now d =
     (let start =
        (case d_lease d of
           Text None \<Rightarrow> Inl ''corrupt clock.lease''
         | Text (Some doc) \<Rightarrow>
             (case read_lease doc of
                None \<Rightarrow> Inl ''corrupt clock.lease''
              | Some (generation, reserved) \<Rightarrow>
                  (let floor = max_component index (component self_node generation)
                   in Inr \<lparr>c_generation = generation, c_current = max reserved floor,
                           c_reserved = reserved\<rparr>))
         | Absent \<Rightarrow> Inr \<lparr>c_generation = unix_now, c_current = 0, c_reserved = 0\<rparr>
         | Unreadable \<Rightarrow> Inl ''unreadable'')
      in case start of
           Inl e \<Rightarrow> (Inl e, d)
         | Inr c \<Rightarrow>
             if c_reserved c \<le> c_current c then
               (case reserve c d of
                  (Inl e, c', d') \<Rightarrow> (Inl e, d')
                | (Inr u, c', d') \<Rightarrow> (Inr c', d'))
             else (Inr c, d))"

definition tick :: "clock \<Rightarrow> disk \<Rightarrow> (string + nat) \<times> clock \<times> disk" where
  "tick c d =
     (if c_current c + 1 > c_reserved c then
        (case reserve c d of
           (Inl e, c', d') \<Rightarrow> (Inl e, c', d')
         | (Inr u, c', d') \<Rightarrow>
             (Inr (c_current c' + 1), c'\<lparr>c_current := c_current c' + 1\<rparr>, d'))
      else (Inr (c_current c + 1), c\<lparr>c_current := c_current c + 1\<rparr>, d))"

definition self_component :: "clock \<Rightarrow> string \<Rightarrow> string" where
  "self_component c self_node = component self_node (c_generation c)"

definition jump_above :: "nat \<Rightarrow> clock \<Rightarrow> disk \<Rightarrow> (string + unit) \<times> clock \<times> disk" where
  "jump_above claim c d =
     (if claim \<le> c_current c then (Inr (), c, d)
      else if claim > CLOCK_CEILING then (Inl ''claim beyond the clock ceiling'', c, d)
      else (let c' = c\<lparr>c_current := claim\<rparr>
            in if c_reserved c' \<le> c_current c' then reserve c' d else (Inr (), c', d)))"

section \<open>Single operations\<close>

text \<open>What is durable: the reservation in the lease file covers the clock in memory.\<close>

definition durable :: "clock \<Rightarrow> disk \<Rightarrow> bool" where
  "durable c d \<longleftrightarrow>
     (\<exists>r. d_lease d = Text (Some (lease_doc (c_generation c) r)) \<and> c_current c \<le> c_reserved c \<and>
          c_reserved c \<le> r \<and> r \<le> CLOCK_MAX)"

lemma read_lease_doc [simp]: "read_lease (lease_doc g r) = Some (g, r)"
  by (simp add: read_lease_def lease_doc_def jget_jobj)

lemma lease_doc_inj: "lease_doc g r = lease_doc h s \<longleftrightarrow> g = h \<and> r = s"
  by (metis Pair_inject option.inject read_lease_doc)

lemma clock_bounds: "CLOCK_CEILING + RESERVE_BLOCK = CLOCK_MAX" "0 < RESERVE_BLOCK" "CLOCK_MAX < u64_max"
  by (simp_all add: CLOCK_CEILING_def RESERVE_BLOCK_def CLOCK_MAX_def)

lemma write_lease_Inr:
  "write_lease doc d = (Inr u, d') \<Longrightarrow> d_lease d' = Text (Some doc)"
  by (auto simp: write_lease_def split: list.splits bool.splits)

lemma write_lease_Inl: "write_lease doc d = (Inl e, d') \<Longrightarrow> d_lease d' = d_lease d"
  by (auto simp: write_lease_def split: list.splits bool.splits)

lemma reserve_Inr:
  assumes "reserve c d = (Inr u, c', d')"
  shows "c' = c\<lparr>c_reserved := c_current c + RESERVE_BLOCK\<rparr> \<and> durable c' d' \<and> c_current c < c_reserved c'"
  using assms clock_bounds(1,2)
  by (auto simp: reserve_def Let_def durable_def split: if_splits prod.splits dest!: write_lease_Inr)

lemma reserve_Inl: "reserve c d = (Inl e, c', d') \<Longrightarrow> d_lease d' = d_lease d"
  by (auto simp: reserve_def Let_def split: if_splits prod.splits dest: write_lease_Inl)

lemma tick_Inr:
  assumes "durable c d" and "tick c d = (Inr n, c', d')"
  shows "n = c_current c + 1 \<and> c_current c' = n \<and> c_generation c' = c_generation c \<and> durable c' d'"
proof (cases "c_current c + 1 > c_reserved c")
  case True
  with assms(2) obtain u c1 where "reserve c d = (Inr u, c1, d')"
    and "n = c_current c1 + 1" "c' = c1\<lparr>c_current := c_current c1 + 1\<rparr>"
    by (auto simp: tick_def split: prod.splits sum.splits)
  with reserve_Inr [of c d u c1 d'] show ?thesis by (auto simp: durable_def)
next
  case False
  with assms show ?thesis by (auto simp: tick_def durable_def)
qed

lemma tick_Inl: "tick c d = (Inl e, c', d') \<Longrightarrow> d_lease d' = d_lease d"
  by (auto simp: tick_def split: if_splits prod.splits sum.splits dest: reserve_Inl)

lemma jump_above_Inr:
  assumes "durable c d" and "jump_above claim c d = (Inr u, c', d')"
  shows "claim \<le> c_current c' \<and> c_current c \<le> c_current c' \<and> c_generation c' = c_generation c \<and> durable c' d'"
  using assms
  by (auto simp: jump_above_def Let_def durable_def split: if_splits dest!: reserve_Inr)

lemma jump_above_Inl: "jump_above claim c d = (Inl e, c', d') \<Longrightarrow> d_lease d' = d_lease d"
  by (auto simp: jump_above_def Let_def split: if_splits dest: reserve_Inl)

lemma clock_open_Inr:
  assumes "clock_open idx self now d = (Inr c, d')"
  shows "durable c d' \<and>
    (case d_lease d of
       Text (Some doc) \<Rightarrow> \<exists>r. read_lease doc = Some (c_generation c, r) \<and> r \<le> c_current c \<and>
         max_component idx (component self (c_generation c)) \<le> c_current c
     | Absent \<Rightarrow> c_generation c = now \<and> c_current c = 0
     | _ \<Rightarrow> False)"
  using assms
  by (auto simp: clock_open_def Let_def split: lease_file.splits option.splits prod.splits sum.splits
      if_splits dest!: reserve_Inr)

lemma clock_open_Inl: "clock_open idx self now d = (Inl e, d') \<Longrightarrow> d_lease d' = d_lease d"
  by (auto simp: clock_open_def Let_def split: lease_file.splits option.splits prod.splits sum.splits
      if_splits dest: reserve_Inl)

section \<open>The clock as a state machine\<close>

record clock_sys =
  s_disk :: disk
  s_clock :: "clock option"
  s_issued :: "(nat \<times> nat) list"

definition clock_init :: "bool list \<Rightarrow> clock_sys" where
  "clock_init faults = \<lparr>s_disk = \<lparr>d_lease = Absent, d_faults = faults\<rparr>, s_clock = None, s_issued = []\<rparr>"

text \<open>
  One operation of the process. \<open>give_up\<close> says whether an error drops the clock; issued values are
  recorded newest first with their generation. A crash drops the clock, never the lease file.
\<close>

inductive clock_step :: "bool \<Rightarrow> string \<Rightarrow> clock_sys \<Rightarrow> clock_sys \<Rightarrow> bool" for give_up self where
  open_ok: "s_clock s = None \<Longrightarrow> clock_open idx self now (s_disk s) = (Inr c, d) \<Longrightarrow>
    clock_step give_up self s (s\<lparr>s_clock := Some c, s_disk := d\<rparr>)"
| open_err: "s_clock s = None \<Longrightarrow> clock_open idx self now (s_disk s) = (Inl e, d) \<Longrightarrow>
    clock_step give_up self s (s\<lparr>s_disk := d\<rparr>)"
| tick_ok: "s_clock s = Some c \<Longrightarrow> tick c (s_disk s) = (Inr n, c', d) \<Longrightarrow>
    clock_step give_up self s
      (s\<lparr>s_clock := Some c', s_disk := d, s_issued := (c_generation c', n) # s_issued s\<rparr>)"
| tick_err: "s_clock s = Some c \<Longrightarrow> tick c (s_disk s) = (Inl e, c', d) \<Longrightarrow>
    clock_step give_up self s
      (s\<lparr>s_clock := (if give_up then None else Some c'), s_disk := d\<rparr>)"
| jump_ok: "s_clock s = Some c \<Longrightarrow> jump_above claim c (s_disk s) = (Inr u, c', d) \<Longrightarrow>
    clock_step give_up self s (s\<lparr>s_clock := Some c', s_disk := d\<rparr>)"
| jump_err: "s_clock s = Some c \<Longrightarrow> jump_above claim c (s_disk s) = (Inl e, c', d) \<Longrightarrow>
    clock_step give_up self s
      (s\<lparr>s_clock := (if give_up then None else Some c'), s_disk := d\<rparr>)"
| crash: "clock_step give_up self s (s\<lparr>s_clock := None\<rparr>)"

inductive clock_reachable :: "bool \<Rightarrow> string \<Rightarrow> clock_sys \<Rightarrow> bool" for give_up self where
  start: "clock_reachable give_up self (clock_init faults)"
| step: "clock_reachable give_up self s \<Longrightarrow> clock_step give_up self s t \<Longrightarrow>
    clock_reachable give_up self t"

text \<open>
  The invariant of the giving-up process: the live clock is durable, every issued value is at most
  the live clock and at most the reservation on disk, under the disk's generation.
\<close>

definition lease_covers :: "lease_file \<Rightarrow> (nat \<times> nat) list \<Rightarrow> bool" where
  "lease_covers l issued \<longleftrightarrow>
     (case l of
        Absent \<Rightarrow> issued = []
      | Text (Some doc) \<Rightarrow>
          \<exists>g r. doc = lease_doc g r \<and> r \<le> CLOCK_MAX \<and>
                (\<forall>p \<in> set issued. fst p = g \<and> 0 < snd p \<and> snd p \<le> r)
      | _ \<Rightarrow> False)"

definition clock_inv :: "clock_sys \<Rightarrow> bool" where
  "clock_inv s \<longleftrightarrow>
     (case s_clock s of
        None \<Rightarrow> True
      | Some c \<Rightarrow> durable c (s_disk s) \<and> (\<forall>p \<in> set (s_issued s). snd p \<le> c_current c)) \<and>
     lease_covers (d_lease (s_disk s)) (s_issued s) \<and>
     sorted_wrt (\<lambda>p q. snd q < snd p) (s_issued s)"

lemma clock_inv_init: "clock_inv (clock_init faults)"
  by (simp add: clock_inv_def clock_init_def lease_covers_def)

lemma clock_inv_drop: "clock_inv s \<Longrightarrow> clock_inv (s\<lparr>s_clock := None\<rparr>)"
  by (simp add: clock_inv_def)

lemma clock_inv_disk:
  "clock_inv s \<Longrightarrow> d_lease d = d_lease (s_disk s) \<Longrightarrow> clock_inv (s\<lparr>s_clock := None, s_disk := d\<rparr>)"
  by (simp add: clock_inv_def)

lemma clock_inv_live:
  assumes "durable c d" and "\<forall>p \<in> set is. fst p = c_generation c \<and> 0 < snd p \<and> snd p \<le> c_current c"
    and "sorted_wrt (\<lambda>p q. snd q < snd p) is"
  shows "clock_inv (s\<lparr>s_clock := Some c, s_disk := d, s_issued := is\<rparr>)"
proof -
  from assms(1) obtain r where "d_lease d = Text (Some (lease_doc (c_generation c) r))"
    and "c_current c \<le> r" "r \<le> CLOCK_MAX"
    by (auto simp: durable_def)
  with assms show ?thesis by (auto simp: clock_inv_def lease_covers_def lease_doc_inj)
qed

lemma clock_inv_issued:
  assumes "clock_inv s" and "s_clock s = Some c" and "p \<in> set (s_issued s)"
  shows "fst p = c_generation c \<and> 0 < snd p \<and> snd p \<le> c_current c"
  using assms by (auto simp: clock_inv_def lease_covers_def durable_def lease_doc_inj)

lemma clock_step_inv:
  assumes "clock_step True self s t" and "clock_inv s"
  shows "clock_inv t"
  using assms
proof (induction rule: clock_step.induct)
  case (open_ok s idx now c d)
  note post = clock_open_Inr [OF open_ok(2)]
  have "fst p = c_generation c \<and> 0 < snd p \<and> snd p \<le> c_current c" if "p \<in> set (s_issued s)" for p
    using post open_ok(3) that
    by (fastforce simp: clock_inv_def lease_covers_def split: lease_file.splits option.splits)
  moreover have "sorted_wrt (\<lambda>p q. snd q < snd p) (s_issued s)"
    using open_ok(3) by (simp add: clock_inv_def)
  ultimately show ?case
    using post clock_inv_live [of c d "s_issued s" s] by simp
next
  case (open_err s idx now e d)
  from clock_inv_disk [OF open_err(3) clock_open_Inl [OF open_err(2)]] open_err(1)
  show ?case by (metis clock_sys.surjective clock_sys.update_convs(2))
next
  case (tick_ok s c n c' d)
  have "durable c (s_disk s)" using tick_ok(1,3) by (simp add: clock_inv_def)
  note post = tick_Inr [OF this tick_ok(2)]
  have old: "fst p = c_generation c' \<and> 0 < snd p \<and> snd p < n" if "p \<in> set (s_issued s)" for p
    using clock_inv_issued [OF tick_ok(3,1) that] post by auto
  have "sorted_wrt (\<lambda>p q. snd q < snd p) ((c_generation c', n) # s_issued s)"
    using tick_ok(3) old by (auto simp: clock_inv_def)
  moreover have "\<forall>p \<in> set ((c_generation c', n) # s_issued s).
      fst p = c_generation c' \<and> 0 < snd p \<and> snd p \<le> c_current c'"
    using old post by fastforce
  ultimately show ?case using post by (intro clock_inv_live) simp_all
next
  case (tick_err s c e c' d)
  then show ?case using clock_inv_disk tick_Inl by simp
next
  case (jump_ok s c claim u c' d)
  have "durable c (s_disk s)" using jump_ok(1,3) by (simp add: clock_inv_def)
  note post = jump_above_Inr [OF this jump_ok(2)]
  have "\<forall>p \<in> set (s_issued s). fst p = c_generation c' \<and> 0 < snd p \<and> snd p \<le> c_current c'"
    using clock_inv_issued [OF jump_ok(3,1)] post by fastforce
  moreover have "sorted_wrt (\<lambda>p q. snd q < snd p) (s_issued s)"
    using jump_ok(3) by (simp add: clock_inv_def)
  ultimately show ?case
    using post clock_inv_live [of c' d "s_issued s" s] by simp
next
  case (jump_err s c claim e c' d)
  then show ?case using clock_inv_disk jump_above_Inl by simp
next
  case (crash s)
  then show ?case by (rule clock_inv_drop)
qed

lemma clock_reachable_inv: "clock_reachable True self s \<Longrightarrow> clock_inv s"
  by (induction rule: clock_reachable.induct) (auto simp: clock_inv_init intro: clock_step_inv)

lemma decreasing_distinct: "sorted_wrt (\<lambda>p q. snd q < (snd p :: nat)) ps \<Longrightarrow> distinct ps"
  by (induction ps) auto

section \<open>Properties\<close>

text \<open>
  C7. A crash, a restart or a failing disk never makes the clock reuse a value: in any history of
  opens, ticks, jumps, write failures and crashes in which an error drops the clock, the values
  issued are strictly increasing, all under one generation, positive and within the canonical
  integer bound.
\<close>

theorem clock_never_reuses_a_value:
  assumes "clock_reachable True self s"
  shows "distinct (s_issued s) \<and> sorted_wrt (\<lambda>p q. snd q < snd p) (s_issued s) \<and>
    (\<forall>p \<in> set (s_issued s). 0 < snd p \<and> snd p \<le> CLOCK_MAX) \<and>
    (\<forall>p \<in> set (s_issued s). \<forall>q \<in> set (s_issued s). fst p = fst q)"
proof -
  have inv: "clock_inv s" using assms by (rule clock_reachable_inv)
  then have sorted: "sorted_wrt (\<lambda>p q. snd q < snd p) (s_issued s)" by (simp add: clock_inv_def)
  moreover have "distinct (s_issued s)"
    using sorted by (rule decreasing_distinct)
  moreover have "lease_covers (d_lease (s_disk s)) (s_issued s)"
    using inv by (simp add: clock_inv_def)
  then have "\<exists>g r. r \<le> CLOCK_MAX \<and> (\<forall>p \<in> set (s_issued s). fst p = g \<and> 0 < snd p \<and> snd p \<le> r)"
    by (fastforce simp: lease_covers_def split: lease_file.splits option.splits)
  then obtain g r where "r \<le> CLOCK_MAX" "\<forall>p \<in> set (s_issued s). fst p = g \<and> 0 < snd p \<and> snd p \<le> r"
    by blast
  then have "\<forall>p \<in> set (s_issued s). fst p = g \<and> 0 < snd p \<and> snd p \<le> CLOCK_MAX"
    by (meson order_trans)
  ultimately show ?thesis by simp
qed

text \<open>The first two ticks after a first open.\<close>

definition opened_clock :: clock where
  "opened_clock = \<lparr>c_generation = 7, c_current = 0, c_reserved = 1000\<rparr>"

definition leased_disk :: "bool list \<Rightarrow> disk" where
  "leased_disk faults = \<lparr>d_lease = Text (Some (lease_doc 7 1000)), d_faults = faults\<rparr>"

lemma open_first:
  "clock_open [] self 7 \<lparr>d_lease = Absent, d_faults = False # faults\<rparr> = (Inr opened_clock, leased_disk faults)"
  by (simp add: clock_open_def reserve_def write_lease_def opened_clock_def leased_disk_def Let_def
      CLOCK_CEILING_def RESERVE_BLOCK_def)

lemma reach_opened:
  "clock_reachable b self \<lparr>s_disk = leased_disk faults, s_clock = Some opened_clock, s_issued = []\<rparr>"
proof -
  have "clock_step b self (clock_init (False # faults))
      ((clock_init (False # faults))\<lparr>s_clock := Some opened_clock, s_disk := leased_disk faults\<rparr>)"
    using open_first by (intro clock_step.open_ok) (auto simp: clock_init_def)
  from clock_reachable.step [OF clock_reachable.start this] show ?thesis
    by (simp add: clock_init_def)
qed

lemma clock_never_reuses_a_value_witness:
  "\<exists>s. clock_reachable True ''n'' s \<and> s_issued s = [(7, 1)] \<and> distinct (s_issued s)"
proof -
  let ?c = "opened_clock\<lparr>c_current := 1\<rparr>"
  let ?s = "\<lparr>s_disk = leased_disk [], s_clock = Some ?c, s_issued = [(7, 1)]\<rparr>"
  have "tick opened_clock (leased_disk []) = (Inr 1, ?c, leased_disk [])"
    by (simp add: tick_def opened_clock_def)
  then have "clock_step True ''n'' \<lparr>s_disk = leased_disk [], s_clock = Some opened_clock, s_issued = []\<rparr> ?s"
    using clock_step.tick_ok
      [of "\<lparr>s_disk = leased_disk [], s_clock = Some opened_clock, s_issued = []\<rparr>" opened_clock 1 ?c "leased_disk []"]
    by (simp add: opened_clock_def)
  then have "clock_reachable True ''n'' ?s" by (rule clock_reachable.step [OF reach_opened])
  with clock_never_reuses_a_value [OF this] show ?thesis by (intro exI [of _ ?s]) simp
qed

text \<open>
  The guarantee needs the error to be fatal. The sources ignore a failed tick or jump and keep
  using the clock, and \<open>reserve\<close> has by then moved its reservation in memory: the history open, a
  jump whose write fails, tick, crash, open, tick issues the same value twice.
\<close>

theorem reissue_after_a_failed_reservation:
  "\<exists>s. clock_reachable False self s \<and> s_issued s = [(7, 1001), (7, 1001)]"
proof -
  define d1 where "d1 = leased_disk []"
  define c1 where "c1 = \<lparr>c_generation = 7, c_current = 1000, c_reserved = 2000\<rparr>"
  define c2 where "c2 = c1\<lparr>c_current := 1001\<rparr>"
  define d2 where "d2 = \<lparr>d_lease = Text (Some (lease_doc 7 2000)), d_faults = []\<rparr>"
  define st where "st c d is = \<lparr>s_disk = d, s_clock = c, s_issued = is\<rparr>" for c d "is"
  have jump: "jump_above 1000 opened_clock (leased_disk [True]) = (Inl ''write failed'', c1, d1)"
    by (simp add: jump_above_def opened_clock_def leased_disk_def reserve_def write_lease_def Let_def
        CLOCK_CEILING_def RESERVE_BLOCK_def c1_def d1_def)
  have s1: "clock_step False self (st (Some opened_clock) (leased_disk [True]) []) (st (Some c1) d1 [])"
    using clock_step.jump_err [of "st (Some opened_clock) (leased_disk [True]) []" opened_clock 1000
        "''write failed''" c1 d1 False self] jump
    by (simp add: st_def)
  have t: "tick c1 d = (Inr 1001, c2, d)" for d
    by (simp add: tick_def c1_def c2_def)
  have s2: "clock_step False self (st (Some c1) d []) (st (Some c2) d [(7, 1001)])" for d
    using clock_step.tick_ok [of "st (Some c1) d []" c1 1001 c2 d] t
    by (simp add: st_def c2_def c1_def)
  have s3: "clock_step False self (st (Some c2) d1 [(7, 1001)]) (st None d1 [(7, 1001)])"
    using clock_step.crash [of False self "st (Some c2) d1 [(7, 1001)]"] by (simp add: st_def)
  have "clock_open [] self 9 d1 = (Inr c1, d2)"
    by (simp add: clock_open_def d1_def d2_def c1_def leased_disk_def max_component_def index_entries_def
        reserve_def write_lease_def Let_def CLOCK_CEILING_def RESERVE_BLOCK_def)
  then have s4: "clock_step False self (st None d1 [(7, 1001)]) (st (Some c1) d2 [(7, 1001)])"
    using clock_step.open_ok [of "st None d1 [(7, 1001)]" "[]" self 9 c1 d2] by (simp add: st_def)
  have s5: "clock_step False self (st (Some c1) d2 [(7, 1001)]) (st (Some c2) d2 [(7, 1001), (7, 1001)])"
    using clock_step.tick_ok [of "st (Some c1) d2 [(7, 1001)]" c1 1001 c2 d2] t
    by (simp add: st_def c2_def c1_def)
  have "clock_reachable False self (st (Some opened_clock) (leased_disk [True]) [])"
    using reach_opened by (simp add: st_def)
  then have "clock_reachable False self (st (Some c2) d2 [(7, 1001), (7, 1001)])"
    using s1 s2 s3 s4 s5 clock_reachable.step by blast
  then show ?thesis by (intro exI [of _ "st (Some c2) d2 [(7, 1001), (7, 1001)]"]) (simp add: st_def)
qed

text \<open>
  An impossible claim about our own history is outrun or refused: below the ceiling, with a
  working disk, the jump succeeds and the next value issued is above the claim and durable; beyond
  the ceiling the claim is refused and neither the clock nor the disk moves.
\<close>

theorem jump_outruns_the_claim:
  assumes "durable c d" and "d_faults d = []" and "c_current c < claim"
  shows "(claim < CLOCK_CEILING \<longrightarrow>
      (\<exists>c' d' n c'' d''. jump_above claim c d = (Inr (), c', d') \<and> tick c' d' = (Inr n, c'', d'') \<and>
         claim < n \<and> durable c'' d'')) \<and>
    (claim > CLOCK_CEILING \<longrightarrow> (\<exists>e. jump_above claim c d = (Inl e, c, d)))"
proof (intro conjI impI)
  assume below: "claim < CLOCK_CEILING"
  have works: "\<exists>c' d'. reserve x y = (Inr (), c', d') \<and> d_faults d' = []"
    if "c_current x \<le> CLOCK_CEILING" "d_faults y = []" for x y
    using that by (simp add: reserve_def write_lease_def Let_def)
  obtain c' d' where jump: "jump_above claim c d = (Inr (), c', d')" "d_faults d' = []"
    "c_current c' = claim"
  proof (cases "c_reserved c \<le> claim")
    case True
    with below assms works [of "c\<lparr>c_current := claim\<rparr>" d] obtain c1 d1
      where r: "reserve (c\<lparr>c_current := claim\<rparr>) d = (Inr (), c1, d1)" "d_faults d1 = []" by auto
    with True below assms reserve_Inr [OF r(1)] that show ?thesis by (simp add: jump_above_def Let_def)
  next
    case False
    with below assms that show ?thesis by (simp add: jump_above_def Let_def)
  qed
  have dur: "durable c' d'" using jump_above_Inr [OF assms(1) jump(1)] by simp
  obtain n c'' d'' where t: "tick c' d' = (Inr n, c'', d'')"
  proof (cases "c_reserved c' < c_current c' + 1")
    case True
    from below jump(3) works [of c' d'] jump(2) obtain c1 d1 where "reserve c' d' = (Inr (), c1, d1)" by auto
    with True that show ?thesis by (simp add: tick_def)
  next
    case False
    with that show ?thesis by (simp add: tick_def)
  qed
  from tick_Inr [OF dur t] jump(3) have "claim < n" "durable c'' d''" by auto
  with jump t show "\<exists>c' d' n c'' d''. jump_above claim c d = (Inr (), c', d') \<and> tick c' d' = (Inr n, c'', d'') \<and>
      claim < n \<and> durable c'' d''" by blast
next
  assume "claim > CLOCK_CEILING"
  with assms(3) show "\<exists>e. jump_above claim c d = (Inl e, c, d)" by (simp add: jump_above_def)
qed

lemma jump_outruns_the_claim_witness:
  "(\<exists>c' d' n c'' d''. jump_above 50000 opened_clock (leased_disk []) = (Inr (), c', d') \<and>
      tick c' d' = (Inr n, c'', d'') \<and> 50000 < n)"
proof -
  have "durable opened_clock (leased_disk [])"
    by (auto simp: durable_def opened_clock_def leased_disk_def CLOCK_MAX_def)
  from jump_outruns_the_claim [OF this, of 50000] show ?thesis
    by (auto simp: leased_disk_def opened_clock_def CLOCK_CEILING_def RESERVE_BLOCK_def)
qed

end
