(* ===== verification/Scan.thy ===== *)
theory Scan
  imports Clock
begin

text \<open>
  The rescan, \<open>sync/src/scan.rs\<close>: one walk of the set's root against the index, and the folding of
  what it saw into the index with a clock value per difference.

  The filesystem below the root is a tree (\<open>fs_node\<close>) in directory order; an unreadable directory or
  file is \<open>None\<close> and becomes the \<open>io::Error\<close> of the walk. Unicode normalization and lowercasing and
  the content digest are parameters, with the two platform switches, in the record \<open>scan_env\<close>.
\<close>

record file_meta =
  fm_len :: nat
  fm_mtime :: mtime
  fm_exec :: bool

datatype os_name = Utf8 string | NotUtf8 string

datatype fs_node =
  FsFile file_meta "string option"
| FsDir "(os_name \<times> fs_node) list option"
| FsLink
| FsOther

record scan_env =
  se_is_nfc :: "string \<Rightarrow> bool"
  se_nfc :: "string \<Rightarrow> string"
  se_lower :: "string \<Rightarrow> string"
  se_digest :: "string \<Rightarrow> string"
  se_macos :: bool
  se_unix :: bool

record ignored =
  ig_name :: string
  ig_reason :: string

record observed =
  ob_path :: string
  ob_kind :: entry_kind
  ob_size :: nat
  ob_mtime :: mtime
  ob_exec :: bool
  ob_hash :: string

record observation =
  obs_changed :: "observed list"
  obs_touched :: "observed list"
  obs_tombstoned :: "string list"
  obs_ignored :: "ignored list"

definition MTIME_DOUBT_SECS :: nat where "MTIME_DOUBT_SECS = 2"

definition observation_default :: observation where
  "observation_default = \<lparr>obs_changed = [], obs_touched = [], obs_tombstoned = [], obs_ignored = []\<rparr>"

definition push_ignored :: "string \<Rightarrow> string \<Rightarrow> observation \<Rightarrow> observation" where
  "push_ignored name reason r = r\<lparr>obs_ignored := obs_ignored r @ [\<lparr>ig_name = name, ig_reason = reason\<rparr>]\<rparr>"

definition push_changed :: "observed \<Rightarrow> observation \<Rightarrow> observation" where
  "push_changed ob r = r\<lparr>obs_changed := obs_changed r @ [ob]\<rparr>"

definition push_touched :: "observed \<Rightarrow> observation \<Rightarrow> observation" where
  "push_touched ob r = r\<lparr>obs_touched := obs_touched r @ [ob]\<rparr>"

section \<open>Names\<close>

definition fold_key :: "scan_env \<Rightarrow> string \<Rightarrow> string" where
  "fold_key env wire = se_lower env wire"

definition accepted_name_at ::
  "scan_env \<Rightarrow> string \<Rightarrow> string \<Rightarrow> observation \<Rightarrow> string option \<times> observation" where
  "accepted_name_at env disk_name prefix r =
     (let full = prefix @ disk_name
      in if disk_name = STAGING_DIR \<or> (starts_with disk_name ''.'' \<and> ends_with disk_name STAGING_SUFFIX)
         then (None, r)
         else (case wire_name (se_is_nfc env) (se_nfc env) (se_macos env) disk_name of
                 None \<Rightarrow> (None, push_ignored full ''not NFC'' r)
               | Some wire \<Rightarrow>
                   (case check_component (se_is_nfc env) wire of
                      Inr u \<Rightarrow> (Some wire, r)
                    | Inl reason \<Rightarrow> (None, push_ignored full reason r))))"

section \<open>One file, one directory\<close>

definition reconcile_dir :: "string \<Rightarrow> set_index \<Rightarrow> observation \<Rightarrow> observation" where
  "reconcile_dir wire index r =
     (case index_get index wire of
        Some e \<Rightarrow>
          if \<not> e_deleted e \<and> e_kind e = EDir then r
          else push_changed \<lparr>ob_path = wire, ob_kind = EDir, ob_size = 0, ob_mtime = mtime_default,
                             ob_exec = False, ob_hash = []\<rparr> r
      | None \<Rightarrow> push_changed \<lparr>ob_path = wire, ob_kind = EDir, ob_size = 0, ob_mtime = mtime_default,
                              ob_exec = False, ob_hash = []\<rparr> r)"

definition exec_bit :: "scan_env \<Rightarrow> file_meta \<Rightarrow> entry option \<Rightarrow> bool" where
  "exec_bit env meta known =
     (if se_unix env then fm_exec meta
      else (case known of None \<Rightarrow> False | Some e \<Rightarrow> e_exec e))"

definition hash_file :: "scan_env \<Rightarrow> string option \<Rightarrow> string + string" where
  "hash_file env content =
     (case content of None \<Rightarrow> Inl ''io error'' | Some bytes \<Rightarrow> Inr (se_digest env bytes))"

definition reconcile_file ::
  "scan_env \<Rightarrow> string option \<Rightarrow> string \<Rightarrow> file_meta \<Rightarrow> set_index \<Rightarrow> observation \<Rightarrow> string + observation" where
  "reconcile_file env content wire meta index r =
     (let known = index_get index wire;
          exec = exec_bit env meta known;
          seen = (\<lambda>hash. \<lparr>ob_path = wire, ob_kind = EFile, ob_size = fm_len meta,
                          ob_mtime = fm_mtime meta, ob_exec = exec, ob_hash = hash\<rparr>)
      in case (case known of
                 Some k \<Rightarrow> if \<not> e_deleted k \<and> e_kind k = EFile then Some k else None
               | None \<Rightarrow> None) of
           None \<Rightarrow>
             (case hash_file env content of
                Inl e \<Rightarrow> Inl e
              | Inr hash \<Rightarrow> Inr (push_changed (seen hash) r))
         | Some k \<Rightarrow>
             (let same_stat = (e_size k = fm_len meta \<and> e_mtime k = fm_mtime meta);
                  coarse = (m_nanos (fm_mtime meta) = 0);
                  doubt = (e_size k = fm_len meta \<and>
                           (coarse \<or> seconds_apart (e_mtime k) (fm_mtime meta) \<le> MTIME_DOUBT_SECS))
              in if same_stat \<and> \<not> coarse \<and> e_exec k = exec then Inr r
                 else (case hash_file env content of
                         Inl e \<Rightarrow> Inl e
                       | Inr hash \<Rightarrow>
                           if same_stat \<or> doubt
                           then (if hash = e_hash k \<and> e_exec k = exec
                                 then Inr (push_touched (seen hash) r)
                                 else Inr (push_changed (seen hash) r))
                           else (if e_hash k = hash \<and> e_exec k = exec
                                 then Inr (push_touched (seen hash) r)
                                 else Inr (push_changed (seen hash) r)))))"

section \<open>One directory level\<close>

type_synonym candidate = "string \<times> string \<times> fs_node"

fun is_dir_or_file :: "fs_node \<Rightarrow> bool" where
  "is_dir_or_file (FsFile _ _) = True"
| "is_dir_or_file (FsDir _) = True"
| "is_dir_or_file _ = False"

fun gather ::
  "scan_env \<Rightarrow> string \<Rightarrow> (os_name \<times> fs_node) list \<Rightarrow> observation \<Rightarrow> candidate list \<times> observation" where
  "gather env prefix [] r = ([], r)"
| "gather env prefix ((NotUtf8 lossy, node) # rest) r =
     gather env prefix rest (push_ignored (prefix @ lossy) ''name is not valid UTF-8'' r)"
| "gather env prefix ((Utf8 disk_name, node) # rest) r =
     (if node = FsLink then gather env prefix rest (push_ignored (prefix @ disk_name) ''symlink'' r)
      else (case accepted_name_at env disk_name prefix r of
              (None, r) \<Rightarrow> gather env prefix rest r
            | (Some wire, r) \<Rightarrow>
                if \<not> is_dir_or_file node
                then gather env prefix rest (push_ignored (prefix @ disk_name) ''not a regular file'' r)
                else (case gather env prefix rest r of
                        (cs, r) \<Rightarrow> ((disk_name, wire, node) # cs, r))))"

definition fold_count :: "scan_env \<Rightarrow> candidate list \<Rightarrow> string \<Rightarrow> nat" where
  "fold_count env cs wire =
     length (filter (\<lambda>c. fold_key env (fst (snd c)) = fold_key env wire) cs)"

definition wire_path :: "string \<Rightarrow> string \<Rightarrow> string" where
  "wire_path prefix name = prefix @ name"

definition freeze_subtree :: "string \<Rightarrow> set_index \<Rightarrow> string list \<Rightarrow> string list" where
  "freeze_subtree wire index seen =
     map e_path (filter (\<lambda>e. starts_with (e_path e) (wire @ ''/'')) (live index)) @ wire # seen"

definition candidates_weight :: "candidate list \<Rightarrow> nat" where
  "candidates_weight cs = (\<Sum>c\<leftarrow>cs. 2 * size (snd (snd c)) + 1)"

definition entries_weight :: "(os_name \<times> fs_node) list \<Rightarrow> nat" where
  "entries_weight es = (\<Sum>e\<leftarrow>es. 2 * size (snd e) + 1)"

lemma gather_weight: "candidates_weight (fst (gather env prefix es r)) \<le> entries_weight es"
  by (induction env prefix es r rule: gather.induct)
    (auto simp: candidates_weight_def entries_weight_def split: prod.splits option.splits if_splits)

lemma size_entries:
  "entries_weight es + 1 \<le> 2 * size_list (size_prod (\<lambda>_. 0) size) es + 1"
  by (induction es) (auto simp: entries_weight_def)

lemma entries_weight_dir: "entries_weight es + 1 < 2 * size (FsDir (Some es)) + 1"
  using size_entries [of es] by simp

lemma candidates_weight_Cons [simp]:
  "candidates_weight [] = 0"
  "candidates_weight (c # cs) = 2 * size (snd (snd c)) + 1 + candidates_weight cs"
  by (simp_all add: candidates_weight_def)

definition dir_weight :: "(os_name \<times> fs_node) list option \<Rightarrow> nat" where
  "dir_weight es = (case es of None \<Rightarrow> 0 | Some es \<Rightarrow> entries_weight es + 1)"

lemma dir_weight_node: "dir_weight es < Suc (2 * size (FsDir es) + n)"
  using entries_weight_dir [of "the es"] by (cases es) (auto simp: dir_weight_def)

section \<open>The walk\<close>

type_synonym walk_state = "observation \<times> string list"

function walk_dir ::
    "scan_env \<Rightarrow> set_index \<Rightarrow> string \<Rightarrow> (os_name \<times> fs_node) list option \<Rightarrow> walk_state \<Rightarrow> string + walk_state"
  and walk_candidates ::
    "scan_env \<Rightarrow> set_index \<Rightarrow> (string \<Rightarrow> nat) \<Rightarrow> string \<Rightarrow> candidate list \<Rightarrow> walk_state \<Rightarrow> string + walk_state"
where
  "walk_dir env index prefix None st = Inl ''io error''"
| "walk_dir env index prefix (Some es) st =
     walk_candidates env index (fold_count env (fst (gather env prefix es (fst st)))) prefix
       (fst (gather env prefix es (fst st))) (snd (gather env prefix es (fst st)), snd st)"
| "walk_candidates env index cnt prefix [] st = Inr st"
| "walk_candidates env index cnt prefix ((disk_name, name, node) # cs) st =
     (if cnt name > 1
      then walk_candidates env index cnt prefix cs
             (push_ignored (prefix @ disk_name) ''collides under folding'' (fst st),
              freeze_subtree (wire_path prefix name) index (snd st))
      else (case node of
              FsDir es \<Rightarrow>
                (case walk_dir env index (wire_path prefix name @ ''/'') es
                        (reconcile_dir (wire_path prefix name) index (fst st),
                         wire_path prefix name # snd st) of
                   Inl e \<Rightarrow> Inl e
                 | Inr st' \<Rightarrow> walk_candidates env index cnt prefix cs st')
            | FsFile meta content \<Rightarrow>
                (case reconcile_file env content (wire_path prefix name) meta index (fst st) of
                   Inl e \<Rightarrow> Inl e
                 | Inr r \<Rightarrow> walk_candidates env index cnt prefix cs (r, wire_path prefix name # snd st))
            | _ \<Rightarrow> walk_candidates env index cnt prefix cs st))"
  by pat_completeness auto

termination
proof (relation "measure (\<lambda>x. case x of
      Inl (env, index, prefix, es, st) \<Rightarrow> dir_weight es
    | Inr (env, index, cnt, prefix, cs, st) \<Rightarrow> candidates_weight cs)", goal_cases)
  case (2 env index prefix es st)
  show ?case using gather_weight [of env prefix es "fst st"] by (simp add: dir_weight_def)
qed (auto intro: dir_weight_node simp del: fs_node.size)

definition scan_single_file ::
  "scan_env \<Rightarrow> set_index \<Rightarrow> string \<Rightarrow> os_name \<Rightarrow> fs_node option \<Rightarrow> walk_state \<Rightarrow> string + walk_state" where
  "scan_single_file env index root_display name node st =
     (case name of
        NotUtf8 _ \<Rightarrow> Inr (push_ignored root_display ''name is not valid UTF-8'' (fst st), snd st)
      | Utf8 disk_name \<Rightarrow>
          (case accepted_name_at env disk_name [] (fst st) of
             (None, r) \<Rightarrow> Inr (r, snd st)
           | (Some wire, r) \<Rightarrow>
               (case node of
                  None \<Rightarrow> Inr (r, snd st)
                | Some FsLink \<Rightarrow> Inr (push_ignored disk_name ''symlink'' r, snd st)
                | Some (FsFile meta content) \<Rightarrow>
                    (case reconcile_file env content wire meta index r of
                       Inl e \<Rightarrow> Inl e
                     | Inr r \<Rightarrow> Inr (r, wire # snd st))
                | Some _ \<Rightarrow> Inr (push_ignored disk_name ''not a regular file'' r, snd st))))"

datatype scan_root =
  RootFile string os_name "fs_node option"
| RootDir "(os_name \<times> fs_node) list option"

definition depth :: "string \<Rightarrow> nat" where
  "depth p = length (filter (\<lambda>c. c = CHR ''/'') p)"

text \<open>The comparison of the tombstone sort: deeper first, then the greater path.\<close>

definition tomb_before :: "string \<Rightarrow> string \<Rightarrow> bool" where
  "tomb_before a b \<longleftrightarrow> depth b < depth a \<or> (depth a = depth b \<and> b \<le> a)"

fun tomb_insert :: "string \<Rightarrow> string list \<Rightarrow> string list" where
  "tomb_insert p [] = [p]"
| "tomb_insert p (q # qs) = (if tomb_before p q then p # q # qs else q # tomb_insert p qs)"

definition tomb_sort :: "string list \<Rightarrow> string list" where
  "tomb_sort ps = foldr tomb_insert ps []"

definition missing_paths :: "set_index \<Rightarrow> string list \<Rightarrow> string list \<Rightarrow> string list" where
  "missing_paths index seen pending =
     filter (\<lambda>p. p \<notin> set seen \<and> p \<notin> set pending) (map e_path (live index))"

definition observe :: "scan_env \<Rightarrow> scan_root \<Rightarrow> set_index \<Rightarrow> string list \<Rightarrow> string + observation" where
  "observe env root index pending =
     (case (case root of
              RootFile display name node \<Rightarrow>
                scan_single_file env index display name node (observation_default, [])
            | RootDir es \<Rightarrow> walk_dir env index [] es (observation_default, [])) of
        Inl e \<Rightarrow> Inl e
      | Inr (r, seen) \<Rightarrow> Inr (r\<lparr>obs_tombstoned := tomb_sort (missing_paths index seen pending)\<rparr>))"

section \<open>Folding the observation in\<close>

record scan_report =
  sr_changed :: nat
  sr_tombstoned :: nat
  sr_ignored :: "ignored list"

definition touch :: "set_index \<Rightarrow> observed \<Rightarrow> set_index" where
  "touch index seen =
     (case index_get index (ob_path seen) of
        None \<Rightarrow> index
      | Some known \<Rightarrow> index_upsert (known\<lparr>e_size := ob_size seen, e_mtime := ob_mtime seen\<rparr>) index)"

fun fold_changed ::
  "string \<Rightarrow> observed list \<Rightarrow> nat \<Rightarrow> set_index \<Rightarrow> clock \<Rightarrow> disk \<Rightarrow> (string + nat) \<times> set_index \<times> clock \<times> disk" where
  "fold_changed self [] n index c d = (Inr n, index, c, d)"
| "fold_changed self (seen # rest) n index c d =
     (let vv = (case index_get index (ob_path seen) of None \<Rightarrow> [] | Some e \<Rightarrow> e_vv e)
      in case tick c d of
           (Inl e, c, d) \<Rightarrow> (Inl e, index, c, d)
         | (Inr t, c, d) \<Rightarrow>
             fold_changed self rest (n + 1)
               (index_upsert \<lparr>e_path = ob_path seen, e_kind = ob_kind seen, e_size = ob_size seen,
                  e_mtime = ob_mtime seen, e_exec = ob_exec seen, e_hash = ob_hash seen,
                  e_vv = vv_set self t vv, e_deleted = False\<rparr> index) c d)"

fun fold_tombstoned ::
  "string \<Rightarrow> string list \<Rightarrow> nat \<Rightarrow> set_index \<Rightarrow> clock \<Rightarrow> disk \<Rightarrow> (string + nat) \<times> set_index \<times> clock \<times> disk" where
  "fold_tombstoned self [] n index c d = (Inr n, index, c, d)"
| "fold_tombstoned self (path # rest) n index c d =
     (case index_get index path of
        None \<Rightarrow> fold_tombstoned self rest n index c d
      | Some entry \<Rightarrow>
          if e_deleted entry then fold_tombstoned self rest n index c d
          else (case tick c d of
                  (Inl e, c, d) \<Rightarrow> (Inl e, index, c, d)
                | (Inr t, c, d) \<Rightarrow>
                    fold_tombstoned self rest (n + 1)
                      (index_upsert \<lparr>e_path = path, e_kind = e_kind entry, e_size = 0,
                         e_mtime = mtime_default, e_exec = False, e_hash = [],
                         e_vv = vv_set self t (e_vv entry), e_deleted = True\<rparr> index) c d))"

definition fold_observation ::
  "string \<Rightarrow> observation \<Rightarrow> set_index \<Rightarrow> clock \<Rightarrow> disk \<Rightarrow> (string + scan_report) \<times> set_index \<times> clock \<times> disk" where
  "fold_observation self obs index c d =
     (case fold_changed self (obs_changed obs) 0 (foldl touch index (obs_touched obs)) c d of
        (Inl e, index, c, d) \<Rightarrow> (Inl e, index, c, d)
      | (Inr changed, index, c, d) \<Rightarrow>
          (case fold_tombstoned self (obs_tombstoned obs) 0 index c d of
             (Inl e, index, c, d) \<Rightarrow> (Inl e, index, c, d)
           | (Inr tombstoned, index, c, d) \<Rightarrow>
               (Inr \<lparr>sr_changed = changed, sr_tombstoned = tombstoned,
                     sr_ignored = obs_ignored obs\<rparr>, index, c, d)))"

definition rescan ::
  "scan_env \<Rightarrow> scan_root \<Rightarrow> string list \<Rightarrow> string \<Rightarrow> set_index \<Rightarrow> clock \<Rightarrow> disk \<Rightarrow>
   (string + scan_report) \<times> set_index \<times> clock \<times> disk" where
  "rescan env root pending self index c d =
     (case observe env root index pending of
        Inl e \<Rightarrow> (Inl e, index, c, d)
      | Inr obs \<Rightarrow> fold_observation self obs index c d)"

end
