(* ===== verification/Canonical.thy ===== *)
theory Canonical
  imports Json Text
begin

text \<open>
  Canonical JSON, \<open>sync/src/canonical.rs\<close>: the exact bytes a record signature covers. Object
  members are sorted by the UTF-16 code units of their names, nothing is spaced, and a float or an
  integer beyond \<open>2^53 - 1\<close> is refused. String escaping is the JSON crate's and enters as the
  parameter \<open>esc\<close>; \<open>string_escaping\<close> states what the serializer relies on: an opening quote,
  and a quoted string that can be read off unambiguously. The main result is that the canonical
  form determines the value, so a signature covers one object only.
\<close>

datatype canonical_error = UnsupportedNumber

definition max_safe_integer :: nat where
  "max_safe_integer = 2 ^ 53 - 1"

definition write_number :: "jnum \<Rightarrow> canonical_error + string" where
  "write_number n =
     (case as_i64 (JNum n) of
        Some v \<Rightarrow>
          if nat \<bar>v\<bar> \<le> max_safe_integer then Inr (show_int v)
          else (case as_u64 (JNum n) of
                  Some k \<Rightarrow> if k \<le> max_safe_integer then Inr (show_nat k) else Inl UnsupportedNumber
                | None \<Rightarrow> Inl UnsupportedNumber)
      | None \<Rightarrow>
          (case as_u64 (JNum n) of
             Some k \<Rightarrow> if k \<le> max_safe_integer then Inr (show_nat k) else Inl UnsupportedNumber
           | None \<Rightarrow> Inl UnsupportedNumber))"

fun collect :: "('e + 'a) list \<Rightarrow> 'e + 'a list" where
  "collect [] = Inr []"
| "collect (Inl e # rs) = Inl e"
| "collect (Inr a # rs) = (case collect rs of Inl e \<Rightarrow> Inl e | Inr as \<Rightarrow> Inr (a # as))"

fun write_value :: "(string \<Rightarrow> string) \<Rightarrow> json \<Rightarrow> canonical_error + string" where
  "write_value esc JNull = Inr ''null''"
| "write_value esc (JBool True) = Inr ''true''"
| "write_value esc (JBool False) = Inr ''false''"
| "write_value esc (JNum n) = write_number n"
| "write_value esc (JStr s) = Inr (esc s)"
| "write_value esc (JArr items) =
     (case collect (map (write_value esc) items) of
        Inl e \<Rightarrow> Inl e
      | Inr ss \<Rightarrow> Inr (CHR ''['' # join_with CHR '','' ss @ CHR '']'' # []))"
| "write_value esc (JObj m) =
     (case collect (map (\<lambda>p. case write_value esc (snd p) of
                               Inl e \<Rightarrow> Inl e
                             | Inr s \<Rightarrow> Inr (esc (fst p) @ CHR '':'' # s))
                     (sort_key (\<lambda>p. encode_utf16 (fst p)) m)) of
        Inl e \<Rightarrow> Inl e
      | Inr ss \<Rightarrow> Inr (CHR ''{'' # join_with CHR '','' ss @ CHR ''}'' # []))"

definition to_canonical_json :: "(string \<Rightarrow> string) \<Rightarrow> json \<Rightarrow> canonical_error + string" where
  "to_canonical_json esc v = write_value esc v"

definition string_escaping :: "(string \<Rightarrow> string) \<Rightarrow> bool" where
  "string_escaping esc \<longleftrightarrow>
     (\<forall>s. \<exists>b. esc s = CHR 0x22 # b) \<and>
     (\<forall>s t r u. esc s @ r = esc t @ u \<longrightarrow> s = t \<and> r = u)"

section \<open>Which values are canonicalizable\<close>

fun integer_profile :: "json \<Rightarrow> bool" where
  "integer_profile (JNum (PosInt n)) \<longleftrightarrow> n \<le> max_safe_integer"
| "integer_profile (JNum (NegInt i)) \<longleftrightarrow> nat \<bar>i\<bar> \<le> max_safe_integer"
| "integer_profile (JNum (Float w)) \<longleftrightarrow> False"
| "integer_profile (JArr xs) \<longleftrightarrow> (\<forall>x \<in> set xs. integer_profile x)"
| "integer_profile (JObj m) \<longleftrightarrow> (\<forall>p \<in> set m. integer_profile (snd p))"
| "integer_profile _ \<longleftrightarrow> True"

lemma collect_map_Inr [simp]: "collect (map Inr as) = Inr as"
  by (induction as) auto

lemma collect_Inr_iff: "collect rs = Inr as \<longleftrightarrow> rs = map Inr as"
  by (induction rs arbitrary: as rule: collect.induct) (auto split: sum.splits)

lemma collect_total: "(\<exists>as. collect rs = Inr as) \<longleftrightarrow> (\<forall>r \<in> set rs. \<exists>a. r = Inr a)"
  by (induction rs rule: collect.induct) (auto split: sum.splits)

lemma write_number_iff: "(\<exists>s. write_number n = Inr s) \<longleftrightarrow> integer_profile (JNum n)"
  by (cases n) (auto simp: write_number_def max_safe_integer_def)

lemma write_value_total: "(\<exists>s. write_value esc v = Inr s) \<longleftrightarrow> integer_profile v"
proof (induction esc v rule: write_value.induct)
  case (4 esc n)
  then show ?case by (simp add: write_number_iff)
next
  case (6 esc items)
  have "(\<exists>ss. collect (map (write_value esc) items) = Inr ss) \<longleftrightarrow> (\<forall>x \<in> set items. integer_profile x)"
    using 6 by (auto simp: collect_total)
  then show ?case by (auto split: sum.splits)
next
  case (7 esc m)
  let ?w = "\<lambda>p. case write_value esc (snd p) of Inl e \<Rightarrow> Inl e | Inr s \<Rightarrow> Inr (esc (fst p) @ CHR '':'' # s)"
  have "(\<exists>s. ?w p = Inr s) \<longleftrightarrow> integer_profile (snd p)" if "p \<in> set m" for p
  proof -
    have "(\<exists>s. write_value esc (snd p) = Inr s) \<longleftrightarrow> integer_profile (snd p)"
      using 7 that by (cases p) fastforce
    then show ?thesis by (auto split: sum.splits)
  qed
  then have "(\<exists>ss. collect (map ?w (sort_key (\<lambda>p. encode_utf16 (fst p)) m)) = Inr ss) \<longleftrightarrow>
      (\<forall>p \<in> set m. integer_profile (snd p))"
    by (simp add: collect_total)
  then show ?case by (auto split: sum.splits)
qed auto

section \<open>The canonical form determines the value\<close>

text \<open>The first byte of a written value tells its constructor.\<close>

fun kind_of :: "json \<Rightarrow> nat" where
  "kind_of JNull = 0"
| "kind_of (JBool True) = 1"
| "kind_of (JBool False) = 2"
| "kind_of (JNum n) = 3"
| "kind_of (JStr s) = 4"
| "kind_of (JArr xs) = 5"
| "kind_of (JObj m) = 6"

definition kind_of_byte :: "char \<Rightarrow> nat" where
  "kind_of_byte c =
     (if c = CHR ''n'' then 0 else if c = CHR ''t'' then 1 else if c = CHR ''f'' then 2
      else if is_digit c \<or> c = CHR ''-'' then 3 else if c = CHR 0x22 then 4
      else if c = CHR ''['' then 5 else if c = CHR ''{'' then 6 else 7)"

lemma write_number_cases:
  assumes "write_number n = Inr s"
  obtains k where "n = PosInt k" "s = show_nat k"
  | i where "n = NegInt i" "s = show_int i"
  using assms by (cases n) (auto simp: write_number_def show_int_def split: if_splits)

lemma show_nat_hd_digit: "is_digit (hd (show_nat k))"
  using show_nat_digits [of k] by (cases "show_nat k") auto

lemma write_number_kind:
  assumes "write_number n = Inr s"
  shows "s \<noteq> [] \<and> kind_of_byte (hd s) = 3"
proof -
  have digit: "kind_of_byte c = 3" if "is_digit c" for c
    using that by (auto simp: kind_of_byte_def is_digit_def)
  have "kind_of_byte (CHR ''-'') = 3" by (simp add: kind_of_byte_def is_digit_def)
  with assms digit show_nat_hd_digit show ?thesis
    by (auto elim!: write_number_cases simp: show_int_def split: if_splits)
qed

lemma kind_of_byte_literals [simp]:
  "kind_of_byte CHR ''n'' = 0" "kind_of_byte CHR ''t'' = 1" "kind_of_byte CHR ''f'' = 2"
  "kind_of_byte CHR 0x22 = 4" "kind_of_byte CHR ''['' = 5" "kind_of_byte CHR ''{'' = 6"
  "kind_of_byte CHR '']'' = 7" "kind_of_byte CHR ''}'' = 7" "kind_of_byte CHR '','' = 7"
  by (simp_all add: kind_of_byte_def is_digit_def)

lemma case_sum_Inr:
  "(case r of Inl e \<Rightarrow> Inl e | Inr x \<Rightarrow> Inr (f x)) = Inr y \<longleftrightarrow> (\<exists>x. r = Inr x \<and> y = f x)"
  by (cases r) auto

lemma write_value_kind:
  assumes "string_escaping esc" and "write_value esc v = Inr s"
  shows "s \<noteq> [] \<and> kind_of_byte (hd s) = kind_of v"
proof (cases v)
  case JNull
  with assms show ?thesis by auto
next
  case (JBool b)
  with assms show ?thesis by (cases b) auto
next
  case (JNum n)
  with assms(2) have "write_number n = Inr s" by simp
  from write_number_kind [OF this] JNum show ?thesis by simp
next
  case (JStr x)
  obtain b where "esc x = CHR 0x22 # b" using assms(1) unfolding string_escaping_def by blast
  with JStr assms(2) show ?thesis by auto
next
  case (JArr items)
  with assms(2) show ?thesis by (auto simp: case_sum_Inr)
next
  case (JObj m)
  with assms(2) show ?thesis by (auto simp: case_sum_Inr)
qed

lemma write_number_unique:
  assumes n: "write_number n = Inr s" and m: "write_number m = Inr t"
    and ok: "jnum_ok n" "jnum_ok m" and eq: "s @ r = t @ u"
    and stop: "stops is_digit r" "stops is_digit u"
  shows "n = m \<and> r = u"
proof -
  have run: "i = j \<and> r = u" if "show_nat i @ r = show_nat j @ u" for i j
    using run_unique [OF show_nat_digits show_nat_digits stop that] show_nat_inj by blast
  have minus: "show_nat k @ x \<noteq> CHR ''-'' # y" for k x y
    using show_nat_hd_digit [of k] by (cases "show_nat k") (auto simp: is_digit_def)
  show ?thesis
    using n m eq ok
    by (elim write_number_cases)
      (auto simp: show_int_def minus minus [symmetric] dest: run split: if_splits)
qed

lemma join_with_Cons:
  "join_with c (s # ss) @ d # r = s @ (if ss = [] then d # r else c # join_with c ss @ d # r)"
  by (cases ss) auto

lemma items_unique:
  fixes E :: "'a \<Rightarrow> 'e + string"
  assumes el: "\<And>x y s t r u. x \<in> set xs \<Longrightarrow> y \<in> set ys \<Longrightarrow> E x = Inr s \<Longrightarrow> E y = Inr t \<Longrightarrow>
      s @ r = t @ u \<Longrightarrow> stops is_digit r \<Longrightarrow> stops is_digit u \<Longrightarrow> x = y \<and> r = u"
    and start: "\<And>y t. E y = Inr t \<Longrightarrow> t \<noteq> [] \<and> kind_of_byte (hd t) \<noteq> 7"
    and d: "kind_of_byte d = 7" "\<not> is_digit d" "d \<noteq> CHR '',''"
    and xs: "map E xs = map Inr ss" and ys: "map E ys = map Inr ts"
    and eq: "join_with CHR '','' ss @ d # r = join_with CHR '','' ts @ d # u"
  shows "xs = ys \<and> r = u"
  using el xs ys eq
proof (induction xs arbitrary: ys ss ts)
  case Nil
  show ?case
  proof (cases ys)
    case Nil
    with Nil.prems show ?thesis by auto
  next
    case (Cons y ys')
    then obtain t ts' where ts: "ts = t # ts'" "E y = Inr t" using Nil.prems(3) by auto
    with Nil.prems(2,4) have "t @ (if ts' = [] then d # u else CHR '','' # join_with CHR '','' ts' @ d # u) = d # r"
      by (auto simp: join_with_Cons)
    with start [OF ts(2)] d(1) show ?thesis by (cases t) auto
  qed
next
  case (Cons x xs)
  from Cons.prems(2) obtain s ss' where ss: "ss = s # ss'" "E x = Inr s" "map E xs = map Inr ss'"
    by (cases ss) auto
  let ?r = "if ss' = [] then d # r else CHR '','' # join_with CHR '','' ss' @ d # r"
  show ?case
  proof (cases ys)
    case Nil
    with Cons.prems(3,4) ss(1) have "s @ ?r = d # u" by (auto simp: join_with_Cons)
    with start [OF ss(2)] d(1) show ?thesis by (cases s) auto
  next
    case (Cons y ys')
    with Cons.prems(3) obtain t ts' where
      ts: "ts = t # ts'" "E y = Inr t" "map E ys' = map Inr ts'" by (cases ts) auto
    let ?u = "if ts' = [] then d # u else CHR '','' # join_with CHR '','' ts' @ d # u"
    have "s @ ?r = t @ ?u"
      using Cons.prems(4) ss(1) ts(1) by (metis join_with_Cons)
    moreover have "stops is_digit ?r" "stops is_digit ?u"
      using d(2) by (auto simp: stops_def is_digit_def)
    moreover have "x \<in> set (x # xs)" "y \<in> set ys" using Cons by simp_all
    ultimately have xy: "x = y" and ru: "?r = ?u"
      using Cons.prems(1) ss(2) ts(2) by blast+
    show ?thesis
    proof (cases "ss' = []")
      case True
      with ru d(3) have "ts' = []" "r = u" by (auto split: if_splits)
      with True ss(3) ts(3) xy Cons show ?thesis by auto
    next
      case False
      with ru d(3) have "ts' \<noteq> []"
        and "join_with CHR '','' ss' @ d # r = join_with CHR '','' ts' @ d # u"
        by (auto split: if_splits)
      moreover have "x' = y' \<and> r' = u'"
        if "x' \<in> set xs" "y' \<in> set ys'" "E x' = Inr s'" "E y' = Inr t'" "s' @ r' = t' @ u'"
          "stops is_digit r'" "stops is_digit u'" for x' y' s' t' r' u'
        using Cons.prems(1) [OF _ _ that(3,4,5,6,7)] that(1,2) Cons by simp
      ultimately have "xs = ys' \<and> r = u"
        using Cons.IH [of ys' ss' ts'] ss(3) ts(3) by blast
      with xy Cons show ?thesis by simp
    qed
  qed
qed

lemma sort_key_eqD: "sort_key f xs = sort_key f ys \<Longrightarrow> set xs = set ys"
  by (metis set_sort)

lemma bt_set_eqI: "bt_ok m \<Longrightarrow> bt_ok n \<Longrightarrow> set m = set n \<Longrightarrow> m = n"
  by (rule bt_ext) (auto simp: map_of_inject_set bt_ok_distinct)

lemma same_kind:
  assumes "string_escaping esc" and "write_value esc v = Inr s" and "write_value esc w = Inr t"
    and "s @ r = t @ u"
  shows "kind_of v = kind_of w"
proof -
  have "s \<noteq> []" "t \<noteq> []" and "kind_of_byte (hd s) = kind_of v" "kind_of_byte (hd t) = kind_of w"
    using write_value_kind assms by blast+
  moreover from this assms(4) have "hd s = hd t" by (metis hd_append2)
  ultimately show ?thesis by simp
qed

lemma kind_of_inv:
  "kind_of v = 0 \<longleftrightarrow> v = JNull"
  "kind_of v = Suc 0 \<longleftrightarrow> v = JBool True"
  "kind_of v = 2 \<longleftrightarrow> v = JBool False"
  "kind_of v = 3 \<longleftrightarrow> (\<exists>n. v = JNum n)"
  "kind_of v = 4 \<longleftrightarrow> (\<exists>s. v = JStr s)"
  "kind_of v = 5 \<longleftrightarrow> (\<exists>xs. v = JArr xs)"
  "kind_of v = 6 \<longleftrightarrow> (\<exists>m. v = JObj m)"
  by (cases v rule: kind_of.cases; simp)+

lemma write_value_not_closing:
  "string_escaping esc \<Longrightarrow> write_value esc y = Inr t \<Longrightarrow> t \<noteq> [] \<and> kind_of_byte (hd t) \<noteq> 7"
  using write_value_kind [of esc y t] by (cases y rule: kind_of.cases) auto

lemma member_unique:
  assumes esc: "string_escaping esc"
    and val: "\<And>s t r u. write_value esc v = Inr s \<Longrightarrow> write_value esc w = Inr t \<Longrightarrow> s @ r = t @ u \<Longrightarrow>
       stops is_digit r \<Longrightarrow> stops is_digit u \<Longrightarrow> v = w \<and> r = u"
    and "write_value esc v = Inr s" "write_value esc w = Inr t"
    and eq: "(esc k @ CHR '':'' # s) @ r = (esc j @ CHR '':'' # t) @ u"
    and stop: "stops is_digit r" "stops is_digit u"
  shows "k = j \<and> v = w \<and> r = u"
proof -
  from eq have "esc k @ (CHR '':'' # s @ r) = esc j @ (CHR '':'' # t @ u)" by simp
  with esc have "k = j" and "s @ r = t @ u" unfolding string_escaping_def by blast+
  with val [OF assms(3,4) _ stop] show ?thesis by blast
qed

lemma write_value_unique:
  assumes esc: "string_escaping esc"
  shows "json_ok v \<Longrightarrow> json_ok w \<Longrightarrow> write_value esc v = Inr s \<Longrightarrow> write_value esc w = Inr t \<Longrightarrow>
    s @ r = t @ u \<Longrightarrow> stops is_digit r \<Longrightarrow> stops is_digit u \<Longrightarrow> v = w \<and> r = u"
proof (induction v arbitrary: w s t r u)
  case JNull
  with same_kind [OF esc JNull(3,4,5)] show ?case by (auto simp: kind_of_inv eq_commute [of 0])
next
  case (JBool b)
  from same_kind [OF esc JBool(3,4,5)] have "w = JBool b"
    by (cases b) (auto simp: kind_of_inv eq_commute [of "Suc 0"] eq_commute [of 2])
  with JBool show ?case by (cases b) auto
next
  case (JNum n)
  from same_kind [OF esc JNum(3,4,5)] obtain m where w: "w = JNum m"
    by (auto simp: kind_of_inv eq_commute [of 3])
  with JNum write_number_unique [of n s m t r u] show ?case by auto
next
  case (JStr x)
  from same_kind [OF esc JStr(3,4,5)] obtain y where w: "w = JStr y"
    by (auto simp: kind_of_inv eq_commute [of 4])
  with JStr have "esc x @ r = esc y @ u" by auto
  with esc have "x = y \<and> r = u" unfolding string_escaping_def by blast
  with w show ?case by simp
next
  case (JArr xs)
  from same_kind [OF esc JArr(4,5,6)] obtain ys where w: "w = JArr ys"
    by (auto simp: kind_of_inv eq_commute [of 5])
  from JArr(4) obtain ss where s: "map (write_value esc) xs = map Inr ss"
    "s = CHR ''['' # join_with CHR '','' ss @ [CHR '']'']"
    by (auto simp: case_sum_Inr collect_Inr_iff)
  from JArr(5) w obtain ts where t: "map (write_value esc) ys = map Inr ts"
    "t = CHR ''['' # join_with CHR '','' ts @ [CHR '']'']"
    by (auto simp: case_sum_Inr collect_Inr_iff)
  have "xs = ys \<and> r = u"
  proof (rule items_unique [where E = "write_value esc" and d = "CHR '']''"])
    show "x = y \<and> r' = u'"
      if "x \<in> set xs" "y \<in> set ys" "write_value esc x = Inr s'" "write_value esc y = Inr t'"
        "s' @ r' = t' @ u'" "stops is_digit r'" "stops is_digit u'" for x y s' t' r' u'
      using JArr.IH [OF that(1) _ _ that(3,4,5,6,7)] JArr.prems(1,2) w that(1,2) by auto
    show "join_with CHR '','' ss @ CHR '']'' # r = join_with CHR '','' ts @ CHR '']'' # u"
      using JArr.prems(5) s(2) t(2) by simp
  qed (use s t esc write_value_not_closing in \<open>auto simp: is_digit_def\<close>)
  with w show ?case by simp
next
  case (JObj m)
  let ?f = "\<lambda>p. encode_utf16 (fst p)"
  let ?E = "\<lambda>p. case write_value esc (snd p) of Inl e \<Rightarrow> Inl e | Inr s \<Rightarrow> Inr (esc (fst p) @ CHR '':'' # s)"
  from same_kind [OF esc JObj(4,5,6)] obtain n where w: "w = JObj n"
    by (auto simp: kind_of_inv eq_commute [of 6])
  from JObj(4) obtain ss where s: "map ?E (sort_key ?f m) = map Inr ss"
    "s = CHR ''{'' # join_with CHR '','' ss @ [CHR ''}'']"
    by (auto simp: case_sum_Inr collect_Inr_iff)
  from JObj(5) w obtain ts where t: "map ?E (sort_key ?f n) = map Inr ts"
    "t = CHR ''{'' # join_with CHR '','' ts @ [CHR ''}'']"
    by (auto simp: case_sum_Inr collect_Inr_iff)
  have "sort_key ?f m = sort_key ?f n \<and> r = u"
  proof (rule items_unique [where E = ?E and d = "CHR ''}''"])
    show "p = q \<and> r' = u'"
      if p: "p \<in> set (sort_key ?f m)" and q: "q \<in> set (sort_key ?f n)"
        and Es: "?E p = Inr s'" "?E q = Inr t'" and eq: "s' @ r' = t' @ u'"
        and stop: "stops is_digit r'" "stops is_digit u'" for p q s' t' r' u'
    proof -
      obtain s1 t1 where "write_value esc (snd p) = Inr s1" "s' = esc (fst p) @ CHR '':'' # s1"
        and "write_value esc (snd q) = Inr t1" "t' = esc (fst q) @ CHR '':'' # t1"
        using Es by (auto simp: case_sum_Inr)
      moreover have "snd p = snd q \<and> r2 = u2"
        if "write_value esc (snd p) = Inr s2" "write_value esc (snd q) = Inr t2" "s2 @ r2 = t2 @ u2"
          "stops is_digit r2" "stops is_digit u2" for s2 t2 r2 u2
        using JObj.IH [of p "snd p" "snd q" s2 t2 r2 u2] that p q JObj.prems(1,2) w
        by (cases p) auto
      ultimately have "fst p = fst q \<and> snd p = snd q \<and> r' = u'"
        using member_unique [OF esc _ _ _ _ stop, of "snd p" "snd q"] eq by blast
      then show ?thesis by (simp add: prod_eq_iff)
    qed
    show "join_with CHR '','' ss @ CHR ''}'' # r = join_with CHR '','' ts @ CHR ''}'' # u"
      using JObj.prems(5) s(2) t(2) by simp
    show "t' \<noteq> [] \<and> kind_of_byte (hd t') \<noteq> 7" if "?E q = Inr t'" for q t'
    proof -
      obtain b where "esc (fst q) = CHR 0x22 # b" using esc unfolding string_escaping_def by blast
      with that show ?thesis by (auto simp: case_sum_Inr)
    qed
  qed (use s t in \<open>auto simp: is_digit_def\<close>)
  then have "set m = set n" and ru: "r = u" using sort_key_eqD by blast+
  then have "m = n" using JObj.prems(1,2) w by (intro bt_set_eqI) auto
  with w ru show ?case by simp
qed

section \<open>The escaping of the JSON crate\<close>

text \<open>
  The documented escaping (quote and backslash, the five short control escapes, \<open>\\u00XX\<close> for the
  other controls, everything else literal) is one that satisfies \<open>string_escaping\<close>: the
  hypothesis of the results above can hold.
\<close>

definition hex_char :: "nat \<Rightarrow> char" where
  "hex_char d = (if d < 10 then char_of (48 + d) else char_of (87 + d))"

definition unhex :: "char \<Rightarrow> nat" where
  "unhex c = (if byte_of c < 58 then byte_of c - 48 else byte_of c - 87)"

definition escape_char :: "char \<Rightarrow> string" where
  "escape_char c =
     (if c = CHR 0x22 then [CHR 0x5C, CHR 0x22]
      else if c = CHR 0x5C then [CHR 0x5C, CHR 0x5C]
      else if c = CHR 0x08 then [CHR 0x5C, CHR ''b'']
      else if c = CHR 0x09 then [CHR 0x5C, CHR ''t'']
      else if c = CHR 0x0A then [CHR 0x5C, CHR ''n'']
      else if c = CHR 0x0C then [CHR 0x5C, CHR ''f'']
      else if c = CHR 0x0D then [CHR 0x5C, CHR ''r'']
      else if byte_of c < 32 then
        CHR 0x5C # ''u00'' @ [hex_char (byte_of c div 16), hex_char (byte_of c mod 16)]
      else [c])"

definition json_escape :: "string \<Rightarrow> string" where
  "json_escape s = CHR 0x22 # concat (map escape_char s) @ [CHR 0x22]"

definition unescape_char :: "string \<Rightarrow> (char \<times> string) option" where
  "unescape_char s =
     (case s of
        [] \<Rightarrow> None
      | c # s1 \<Rightarrow>
          if c \<noteq> CHR 0x5C then Some (c, s1)
          else (case s1 of
                  [] \<Rightarrow> None
                | e # s2 \<Rightarrow>
                    if e = CHR ''b'' then Some (CHR 0x08, s2)
                    else if e = CHR ''t'' then Some (CHR 0x09, s2)
                    else if e = CHR ''n'' then Some (CHR 0x0A, s2)
                    else if e = CHR ''f'' then Some (CHR 0x0C, s2)
                    else if e = CHR ''r'' then Some (CHR 0x0D, s2)
                    else if e = CHR ''u'' then
                      Some (char_of (16 * unhex (s2 ! 2) + unhex (s2 ! 3)), drop 4 s2)
                    else Some (e, s2)))"

lemma unhex_hex_char: "d < 16 \<Longrightarrow> unhex (hex_char d) = d"
  by (auto simp: unhex_def hex_char_def)

lemma escape_char_plain:
  "32 \<le> byte_of c \<Longrightarrow> c \<noteq> CHR 0x22 \<Longrightarrow> c \<noteq> CHR 0x5C \<Longrightarrow> escape_char c = [c]"
  by (auto simp: escape_char_def)

lemma unescape_escape: "unescape_char (escape_char c @ r) = Some (c, r)"
proof (cases "c \<in> {CHR 0x22, CHR 0x5C, CHR 0x08, CHR 0x09, CHR 0x0A, CHR 0x0C, CHR 0x0D}")
  case True
  then show ?thesis
    by (elim insertE emptyE) (simp_all add: escape_char_def unescape_char_def)
next
  case special: False
  show ?thesis
  proof (cases "byte_of c < 32")
    case True
    with special have "escape_char c =
        CHR 0x5C # ''u00'' @ [hex_char (byte_of c div 16), hex_char (byte_of c mod 16)]"
      by (simp add: escape_char_def)
    moreover have "char_of (16 * (byte_of c div 16) + byte_of c mod 16) = c"
      by (simp only: mult_div_mod_eq char_of_char)
    moreover have "byte_of c div 16 < 16" "byte_of c mod 16 < 16"
      using True by simp_all
    ultimately show ?thesis
      by (simp add: unescape_char_def unhex_hex_char del: mult_div_mod_eq)
  next
    case False
    with special show ?thesis by (simp add: escape_char_plain unescape_char_def)
  qed
qed

lemma escape_char_hd: "hd (escape_char c) \<noteq> CHR 0x22"
  by (simp add: escape_char_def)

lemma escape_char_nonempty: "escape_char c \<noteq> []"
  by (auto simp: escape_char_def)

lemma escaped_unique:
  "concat (map escape_char s) @ CHR 0x22 # r = concat (map escape_char t) @ CHR 0x22 # u \<Longrightarrow>
   s = t \<and> r = u"
proof (induction s arbitrary: t)
  case Nil
  show ?case
  proof (cases t)
    case (Cons d t')
    with Nil.prems show ?thesis
      using escape_char_hd [of d] escape_char_nonempty [of d] by (cases "escape_char d") auto
  qed (use Nil.prems in simp)
next
  case (Cons c s)
  show ?case
  proof (cases t)
    case Nil
    with Cons.prems show ?thesis
      using escape_char_hd [of c] escape_char_nonempty [of c]
      by (cases "escape_char c") auto
  next
    case (Cons d t')
    with Cons.prems have eq: "escape_char c @ (concat (map escape_char s) @ CHR 0x22 # r) =
        escape_char d @ (concat (map escape_char t') @ CHR 0x22 # u)"
      by simp
    then have "Some (c, concat (map escape_char s) @ CHR 0x22 # r) =
        Some (d, concat (map escape_char t') @ CHR 0x22 # u)"
      by (metis unescape_escape)
    with Cons.IH [of t'] Cons show ?thesis by auto
  qed
qed

lemma json_escape_ok: "string_escaping json_escape"
  unfolding string_escaping_def
proof (intro conjI allI impI)
  show "\<exists>b. json_escape s = CHR 0x22 # b" for s by (simp add: json_escape_def)
  fix s t r u assume "json_escape s @ r = json_escape t @ u"
  then have "concat (map escape_char s) @ CHR 0x22 # r = concat (map escape_char t) @ CHR 0x22 # u"
    by (simp add: json_escape_def)
  then show "s = t" and "r = u" using escaped_unique by blast+
qed

section \<open>Properties\<close>

text \<open>
  C4. A signature covers one object: two JSON values with the same canonical bytes are the same
  value, whatever their shape, given only that string escaping can be read back. (The members are
  re-sorted by UTF-16 units on the way, numbers and nested values are delimited by what follows.)
\<close>

theorem canonical_injective:
  assumes "string_escaping esc" and "json_ok v" and "json_ok w"
    and "to_canonical_json esc v = Inr s" and "to_canonical_json esc w = Inr s"
  shows "v = w"
  using write_value_unique [OF assms(1-3), of s s "[]" "[]"] assms(4,5)
  by (simp add: to_canonical_json_def stops_def)

text \<open>A concrete object (out of order in its source text) and itself rebuilt.\<close>

definition sample_object :: json where
  "sample_object = JObj [(''a'', JArr [JNull, JBool True]), (''seq'', JNum (PosInt 3))]"

lemmas sample_simps = to_canonical_json_def sample_object_def jobj_def bt_of_list_def bt_ok_def
  encode_utf16_def utf16_units_def write_number_def max_safe_integer_def show_int_def
  show_nat.simps digit_char_def char_of_eq_iff

lemma canonical_injective_witness:
  "to_canonical_json json_escape sample_object = Inr (concat [[CHR 0x7B], json_escape ''a'', '':[null,true],'', json_escape ''seq'', '':3}'']) \<and>
   jobj [(''seq'', JNum (PosInt 3)), (''a'', JArr [JNull, JBool True])] = sample_object"
proof
  show s: "to_canonical_json json_escape sample_object = Inr (concat [[CHR 0x7B], json_escape ''a'', '':[null,true],'', json_escape ''seq'', '':3}''])"
    by (simp add: sample_simps)
  have t: "to_canonical_json json_escape (jobj [(''seq'', JNum (PosInt 3)), (''a'', JArr [JNull, JBool True])]) =
      Inr (concat [[CHR 0x7B], json_escape ''a'', '':[null,true],'', json_escape ''seq'', '':3}''])"
    by (simp add: sample_simps)
  have ok: "json_ok sample_object"
    by (simp add: sample_simps)
  have ok': "json_ok (jobj [(''seq'', JNum (PosInt 3)), (''a'', JArr [JNull, JBool True])])"
    by (simp add: sample_simps)
  show "jobj [(''seq'', JNum (PosInt 3)), (''a'', JArr [JNull, JBool True])] = sample_object"
    by (rule canonical_injective [OF json_escape_ok ok' ok t s])
qed

text \<open>
  Canonicalization succeeds exactly on the integer profile: it refuses every float and every
  integer beyond \<open>2^53 - 1\<close> anywhere in the value, and nothing else.
\<close>

theorem canonical_total: "(\<exists>s. to_canonical_json esc v = Inr s) \<longleftrightarrow> integer_profile v"
  by (simp add: to_canonical_json_def write_value_total)

end
