(* ===== verification/Records.thy ===== *)
theory Records
  imports Canonical Gates
begin

text \<open>
  The signed objects of membership, \<open>sync/src/records.rs\<close>: the set descriptor, the self-signed
  membership records, the inviter-signed invitations, the one-hop endorsements and the conflict
  records, with their signing bytes, their verification, their keep-newest orders and their strict
  parsers.

  The signature scheme, the hex decoder and the JSON crate's string escaping are third-party and
  enter through the record \<open>deps\<close>; the engine's own key enters as \<open>identity\<close>. The panic of
  \<open>signed_bytes\<close> on a value that cannot be canonicalized is the result \<open>None\<close>, which no parsed
  record reaches (\<open>signing_bytes_total\<close>).
\<close>

record deps =
  hex_decode :: "string \<Rightarrow> string option"
  key_from_bytes_ok :: "string \<Rightarrow> bool"
  verify_strict :: "string \<Rightarrow> string \<Rightarrow> string \<Rightarrow> bool"
  str_json :: "string \<Rightarrow> string"

record identity =
  id_public_hex :: string
  sign_hex :: "string \<Rightarrow> string"

definition DOMAIN_DESCRIPTOR :: string where "DOMAIN_DESCRIPTOR = ''1device-sync:descriptor:''"
definition DOMAIN_MEMBER :: string where "DOMAIN_MEMBER = ''1device-sync:member-record:''"
definition DOMAIN_INVITED :: string where "DOMAIN_INVITED = ''1device-sync:invited-record:''"
definition DOMAIN_ENDORSEMENT :: string where "DOMAIN_ENDORSEMENT = ''1device-sync:endorsement:''"
definition DOMAIN_CONFLICT :: string where "DOMAIN_CONFLICT = ''1device-sync:conflict-record:''"

lemmas domain_defs = DOMAIN_DESCRIPTOR_def DOMAIN_MEMBER_def DOMAIN_INVITED_def
  DOMAIN_ENDORSEMENT_def DOMAIN_CONFLICT_def

definition NAME_MAX_BYTES :: nat where "NAME_MAX_BYTES = 255"

definition SEQ_MAX :: nat where "SEQ_MAX = 2 ^ 32"

definition verify_detached :: "deps \<Rightarrow> string \<Rightarrow> string \<Rightarrow> string \<Rightarrow> bool" where
  "verify_detached dp public_hex msg sig_hex =
     (case hex_decode dp public_hex of
        None \<Rightarrow> False
      | Some key_bytes \<Rightarrow>
          if length key_bytes \<noteq> 32 then False
          else if \<not> key_from_bytes_ok dp key_bytes then False
          else (case hex_decode dp sig_hex of
                  None \<Rightarrow> False
                | Some sig_bytes \<Rightarrow>
                    if length sig_bytes \<noteq> 64 then False
                    else verify_strict dp key_bytes msg sig_bytes))"

definition int_field :: "json \<Rightarrow> nat option" where
  "int_field v = do { n \<leftarrow> as_u64 v; if n < 2 ^ 53 then Some n else None }"

definition seq_field :: "json \<Rightarrow> nat option" where
  "seq_field v = do { n \<leftarrow> as_u64 v; if n \<le> SEQ_MAX then Some n else None }"

definition signed_bytes :: "deps \<Rightarrow> string \<Rightarrow> json \<Rightarrow> string option" where
  "signed_bytes dp domain body =
     (case to_canonical_json (str_json dp) body of
        Inl e \<Rightarrow> None
      | Inr canonical \<Rightarrow> Some (domain @ canonical))"

text \<open>Verification of a signed object: its signing bytes under a key and its signature.\<close>

definition verify_bytes :: "deps \<Rightarrow> string \<Rightarrow> string option \<Rightarrow> string \<Rightarrow> bool" where
  "verify_bytes dp key bytes sig =
     (case bytes of None \<Rightarrow> False | Some msg \<Rightarrow> verify_detached dp key msg sig)"

section \<open>The set descriptor\<close>

datatype set_kind = SDir | SFile

fun set_kind_as_str :: "set_kind \<Rightarrow> string" where
  "set_kind_as_str SDir = ''dir''"
| "set_kind_as_str SFile = ''file''"

definition set_kind_parse :: "string \<Rightarrow> set_kind option" where
  "set_kind_parse s = (if s = ''dir'' then Some SDir else if s = ''file'' then Some SFile else None)"

record set_descriptor =
  sd_set_id :: string
  sd_kind :: set_kind
  sd_name :: string
  sd_created_by :: string
  sd_created_at :: nat
  sd_sig :: string

definition descriptor_signed :: "set_descriptor \<Rightarrow> (string \<times> json) list" where
  "descriptor_signed d =
     [(''set_id'', JStr (sd_set_id d)),
      (''kind'', JStr (set_kind_as_str (sd_kind d))),
      (''name'', JStr (sd_name d)),
      (''created_by'', JStr (sd_created_by d)),
      (''created_at'', of_u64 (sd_created_at d))]"

definition descriptor_signing_bytes :: "deps \<Rightarrow> set_descriptor \<Rightarrow> string option" where
  "descriptor_signing_bytes dp d = signed_bytes dp DOMAIN_DESCRIPTOR (jobj (descriptor_signed d))"

definition descriptor_to_value :: "set_descriptor \<Rightarrow> json" where
  "descriptor_to_value d = jobj (descriptor_signed d @ [(''sig'', JStr (sd_sig d))])"

definition descriptor_verify :: "deps \<Rightarrow> string \<Rightarrow> set_descriptor \<Rightarrow> bool" where
  "descriptor_verify dp creator_pub_hex d =
     verify_bytes dp creator_pub_hex (descriptor_signing_bytes dp d) (sd_sig d)"

function clamp_name :: "string \<Rightarrow> string" where
  "clamp_name name = (if length name > NAME_MAX_BYTES then clamp_name (pop_char name) else name)"
  by pat_completeness auto
termination
  by (relation "measure length") (auto simp: NAME_MAX_BYTES_def intro!: pop_char_length)

declare clamp_name.simps [simp del]

definition descriptor_create ::
  "deps \<Rightarrow> identity \<Rightarrow> string \<Rightarrow> set_kind \<Rightarrow> string \<Rightarrow> string \<Rightarrow> nat \<Rightarrow> set_descriptor option" where
  "descriptor_create dp idn set_id kind name created_by created_at =
     (let clamped = clamp_name name;
          name' = (if clamped = [] then ''set'' else clamped);
          d = \<lparr>sd_set_id = set_id, sd_kind = kind, sd_name = name', sd_created_by = created_by,
               sd_created_at = created_at, sd_sig = []\<rparr>
      in case descriptor_signing_bytes dp d of
           None \<Rightarrow> None
         | Some msg \<Rightarrow> Some (d\<lparr>sd_sig := sign_hex idn msg\<rparr>))"

abbreviation descriptor_fields :: "string list" where
  "descriptor_fields \<equiv> [''set_id'', ''kind'', ''name'', ''created_by'', ''created_at'', ''sig'']"

definition descriptor_from_value :: "json \<Rightarrow> set_descriptor option" where
  "descriptor_from_value v = do {
     vs \<leftarrow> exact_fields v descriptor_fields;
     case vs of
       [set_id, kind, name, created_by, created_at, sig] \<Rightarrow> do {
         set_id \<leftarrow> as_str set_id;
         name \<leftarrow> as_str name;
         created_by \<leftarrow> as_str created_by;
         sig \<leftarrow> as_str sig;
         if \<not> valid_set_id set_id \<or> name = [] \<or> length name > NAME_MAX_BYTES \<or>
            \<not> valid_node_id created_by \<or> \<not> valid_sig sig
         then None
         else do {
           kind \<leftarrow> Option.bind (as_str kind) set_kind_parse;
           created_at \<leftarrow> int_field created_at;
           Some \<lparr>sd_set_id = set_id, sd_kind = kind, sd_name = name, sd_created_by = created_by,
                 sd_created_at = created_at, sd_sig = sig\<rparr>
         }
       }
     | _ \<Rightarrow> None
   }"

definition descriptor_ok :: "set_descriptor \<Rightarrow> bool" where
  "descriptor_ok d \<longleftrightarrow>
     valid_set_id (sd_set_id d) \<and> sd_name d \<noteq> [] \<and> length (sd_name d) \<le> NAME_MAX_BYTES \<and>
     valid_node_id (sd_created_by d) \<and> valid_sig (sd_sig d) \<and> sd_created_at d < 2 ^ 53"

lemma set_kind_parse_iff: "set_kind_parse s = Some k \<longleftrightarrow> s = set_kind_as_str k"
  by (cases k) (auto simp: set_kind_parse_def)

lemma int_field_Some: "int_field v = Some n \<longleftrightarrow> v = of_u64 n \<and> n < 2 ^ 53"
  by (auto simp: int_field_def bind_Some_iff of_u64_def split: if_splits)

lemma seq_field_Some: "seq_field v = Some n \<longleftrightarrow> v = of_u64 n \<and> n \<le> SEQ_MAX"
  by (auto simp: seq_field_def bind_Some_iff of_u64_def split: if_splits)

lemma field_round [json_simps]:
  "set_kind_parse (set_kind_as_str k) = Some k"
  "n < 2 ^ 53 \<Longrightarrow> int_field (of_u64 n) = Some n"
  "n \<le> SEQ_MAX \<Longrightarrow> seq_field (of_u64 n) = Some n"
  by (simp_all add: set_kind_parse_iff int_field_Some seq_field_Some)

lemma json_ok_small: "n < 2 ^ 53 \<Longrightarrow> json_ok (of_u64 n)"
  by (simp add: of_u64_def)

lemma json_ok_seq: "n \<le> SEQ_MAX \<Longrightarrow> json_ok (of_u64 n)"
  by (simp add: of_u64_def SEQ_MAX_def)

text \<open>The shape of a value the strict reader accepted, for the field counts in use.\<close>

lemma length_4: "length vs = Suc (Suc (Suc (Suc 0))) \<longleftrightarrow> (\<exists>a b c d. vs = [a, b, c, d])"
  by (auto simp: length_Suc_conv)

lemma length_6: "length vs = Suc (Suc (Suc (Suc (Suc (Suc 0))))) \<longleftrightarrow> (\<exists>a b c d e f. vs = [a, b, c, d, e, f])"
  by (auto simp: length_Suc_conv)

lemma length_7: "length vs = Suc (Suc (Suc (Suc (Suc (Suc (Suc 0)))))) \<longleftrightarrow> (\<exists>a b c d e f g. vs = [a, b, c, d, e, f, g])"
  by (auto simp: length_Suc_conv)

lemma length_8: "length vs = Suc (Suc (Suc (Suc (Suc (Suc (Suc (Suc 0))))))) \<longleftrightarrow> (\<exists>a b c d e f g h. vs = [a, b, c, d, e, f, g, h])"
  by (auto simp: length_Suc_conv)

interpretation descriptor: strict_codec descriptor_to_value descriptor_from_value descriptor_ok
proof unfold_locales
  fix d assume ok: "descriptor_ok d"
  show "json_ok (descriptor_to_value d)"
    unfolding descriptor_to_value_def using ok
    by (intro json_ok_jobj) (auto simp: descriptor_signed_def descriptor_ok_def json_ok_small)
  have "exact_fields (descriptor_to_value d) descriptor_fields =
      Some (map snd (descriptor_signed d @ [(''sig'', JStr (sd_sig d))]))"
    unfolding descriptor_to_value_def by (rule exact_fields_jobj) (simp_all add: descriptor_signed_def)
  with ok show "descriptor_from_value (descriptor_to_value d) = Some d"
    by (simp add: descriptor_from_value_def descriptor_signed_def descriptor_ok_def json_simps)
next
  fix v d assume v: "json_ok v" and parse: "descriptor_from_value v = Some d"
  then obtain vs where ex: "exact_fields v descriptor_fields = Some vs"
    by (auto simp: descriptor_from_value_def bind_Some_iff)
  from exact_fieldsD [OF this v] obtain a b c e f g where vs: "vs = [a, b, c, e, f, g]"
    and veq: "v = jobj (zip descriptor_fields vs)"
    by (auto simp: length_6)
  from parse ex vs veq show "descriptor_ok d \<and> v = descriptor_to_value d"
    by (auto simp: descriptor_from_value_def bind_Some_iff descriptor_ok_def descriptor_to_value_def
        descriptor_signed_def set_kind_parse_iff int_field_Some split: if_splits)
qed

section \<open>Self-signed membership records\<close>

datatype member_status = Active | Declined | Paused | Left

fun member_status_as_str :: "member_status \<Rightarrow> string" where
  "member_status_as_str Active = ''active''"
| "member_status_as_str Declined = ''declined''"
| "member_status_as_str Paused = ''paused''"
| "member_status_as_str Left = ''left''"

definition member_status_parse :: "string \<Rightarrow> member_status option" where
  "member_status_parse s =
     (if s = ''active'' then Some Active
      else if s = ''declined'' then Some Declined
      else if s = ''paused'' then Some Paused
      else if s = ''left'' then Some Left
      else None)"

definition is_terminal :: "member_status \<Rightarrow> bool" where
  "is_terminal st \<longleftrightarrow> st = Declined \<or> st = Left"

record member_record =
  mr_set_id :: string
  mr_node_id :: string
  mr_status :: member_status
  mr_seq :: nat
  mr_generation :: nat
  mr_sync_pub :: string
  mr_at :: nat
  mr_sig :: string

definition member_signed :: "member_record \<Rightarrow> (string \<times> json) list" where
  "member_signed r =
     [(''set_id'', JStr (mr_set_id r)),
      (''node_id'', JStr (mr_node_id r)),
      (''status'', JStr (member_status_as_str (mr_status r))),
      (''seq'', of_u64 (mr_seq r)),
      (''gen'', of_u64 (mr_generation r)),
      (''sync_pub'', JStr (mr_sync_pub r)),
      (''at'', of_u64 (mr_at r))]"

definition member_signing_bytes :: "deps \<Rightarrow> member_record \<Rightarrow> string option" where
  "member_signing_bytes dp r = signed_bytes dp DOMAIN_MEMBER (jobj (member_signed r))"

definition sign_own ::
  "deps \<Rightarrow> identity \<Rightarrow> string \<Rightarrow> string \<Rightarrow> member_status \<Rightarrow> nat \<Rightarrow> nat \<Rightarrow> nat \<Rightarrow> member_record option" where
  "sign_own dp idn set_id node_id status seq generation at =
     (let r = \<lparr>mr_set_id = set_id, mr_node_id = node_id, mr_status = status, mr_seq = seq,
               mr_generation = generation, mr_sync_pub = id_public_hex idn, mr_at = at, mr_sig = []\<rparr>
      in case member_signing_bytes dp r of
           None \<Rightarrow> None
         | Some msg \<Rightarrow> Some (r\<lparr>mr_sig := sign_hex idn msg\<rparr>))"

definition member_verify :: "deps \<Rightarrow> member_record \<Rightarrow> bool" where
  "member_verify dp r = verify_bytes dp (mr_sync_pub r) (member_signing_bytes dp r) (mr_sig r)"

definition member_beats :: "member_record \<Rightarrow> member_record \<Rightarrow> bool" where
  "member_beats a b \<longleftrightarrow> (mr_seq b, mr_at b, mr_sig b) < (mr_seq a, mr_at a, mr_sig a)"

definition member_to_value :: "member_record \<Rightarrow> json" where
  "member_to_value r = jobj (member_signed r @ [(''sig'', JStr (mr_sig r))])"

abbreviation member_fields :: "string list" where
  "member_fields \<equiv>
     [''set_id'', ''node_id'', ''status'', ''seq'', ''gen'', ''sync_pub'', ''at'', ''sig'']"

definition member_from_value :: "json \<Rightarrow> member_record option" where
  "member_from_value v = do {
     vs \<leftarrow> exact_fields v member_fields;
     case vs of
       [set_id, node_id, status, seq, generation, sync_pub, at, sig] \<Rightarrow> do {
         set_id \<leftarrow> as_str set_id;
         node_id \<leftarrow> as_str node_id;
         sync_pub \<leftarrow> as_str sync_pub;
         sig \<leftarrow> as_str sig;
         if \<not> valid_set_id set_id \<or> \<not> valid_node_id node_id \<or> \<not> valid_key sync_pub \<or> \<not> valid_sig sig
         then None
         else do {
           status \<leftarrow> Option.bind (as_str status) member_status_parse;
           seq \<leftarrow> seq_field seq;
           generation \<leftarrow> int_field generation;
           at \<leftarrow> int_field at;
           Some \<lparr>mr_set_id = set_id, mr_node_id = node_id, mr_status = status, mr_seq = seq,
                 mr_generation = generation, mr_sync_pub = sync_pub, mr_at = at, mr_sig = sig\<rparr>
         }
       }
     | _ \<Rightarrow> None
   }"

definition member_ok :: "member_record \<Rightarrow> bool" where
  "member_ok r \<longleftrightarrow>
     valid_set_id (mr_set_id r) \<and> valid_node_id (mr_node_id r) \<and> valid_key (mr_sync_pub r) \<and>
     valid_sig (mr_sig r) \<and> mr_seq r \<le> SEQ_MAX \<and> mr_generation r < 2 ^ 53 \<and> mr_at r < 2 ^ 53"

lemma member_status_parse_iff: "member_status_parse s = Some k \<longleftrightarrow> s = member_status_as_str k"
  by (cases k) (auto simp: member_status_parse_def)

lemma member_status_round [json_simps]: "member_status_parse (member_status_as_str k) = Some k"
  by (simp add: member_status_parse_iff)

lemma member_status_not_invited: "member_status_as_str k \<noteq> ''invited''"
  by (cases k) auto

interpretation member: strict_codec member_to_value member_from_value member_ok
proof unfold_locales
  fix r assume ok: "member_ok r"
  show "json_ok (member_to_value r)"
    unfolding member_to_value_def using ok
    by (intro json_ok_jobj) (auto simp: member_signed_def member_ok_def json_ok_small json_ok_seq)
  have "exact_fields (member_to_value r) member_fields =
      Some (map snd (member_signed r @ [(''sig'', JStr (mr_sig r))]))"
    unfolding member_to_value_def by (rule exact_fields_jobj) (simp_all add: member_signed_def)
  with ok show "member_from_value (member_to_value r) = Some r"
    by (simp add: member_from_value_def member_signed_def member_ok_def json_simps)
next
  fix v r assume v: "json_ok v" and parse: "member_from_value v = Some r"
  then obtain vs where ex: "exact_fields v member_fields = Some vs"
    by (auto simp: member_from_value_def bind_Some_iff)
  from exact_fieldsD [OF this v] obtain a b c d e f g h where vs: "vs = [a, b, c, d, e, f, g, h]"
    and veq: "v = jobj (zip member_fields vs)"
    by (auto simp: length_8)
  from parse ex vs veq show "member_ok r \<and> v = member_to_value r"
    by (auto simp: member_from_value_def bind_Some_iff member_ok_def member_to_value_def
        member_signed_def member_status_parse_iff int_field_Some seq_field_Some split: if_splits)
qed

interpretation member: newest_wins member_beats
  unfolding member_beats_def by (rule newest_wins_rank)

section \<open>Inviter-signed records\<close>

record invited_record =
  ir_set_id :: string
  ir_node_id :: string
  ir_invited_by :: string
  ir_supersedes_seq :: nat
  ir_at :: nat
  ir_sig :: string

definition invited_signed :: "invited_record \<Rightarrow> (string \<times> json) list" where
  "invited_signed r =
     [(''set_id'', JStr (ir_set_id r)),
      (''node_id'', JStr (ir_node_id r)),
      (''status'', JStr ''invited''),
      (''invited_by'', JStr (ir_invited_by r)),
      (''supersedes_seq'', of_u64 (ir_supersedes_seq r)),
      (''at'', of_u64 (ir_at r))]"

definition invited_signing_bytes :: "deps \<Rightarrow> invited_record \<Rightarrow> string option" where
  "invited_signing_bytes dp r = signed_bytes dp DOMAIN_INVITED (jobj (invited_signed r))"

definition sign_invite ::
  "deps \<Rightarrow> identity \<Rightarrow> string \<Rightarrow> string \<Rightarrow> string \<Rightarrow> nat \<Rightarrow> nat \<Rightarrow> invited_record option" where
  "sign_invite dp idn set_id node_id invited_by supersedes_seq at =
     (let r = \<lparr>ir_set_id = set_id, ir_node_id = node_id, ir_invited_by = invited_by,
               ir_supersedes_seq = supersedes_seq, ir_at = at, ir_sig = []\<rparr>
      in case invited_signing_bytes dp r of
           None \<Rightarrow> None
         | Some msg \<Rightarrow> Some (r\<lparr>ir_sig := sign_hex idn msg\<rparr>))"

definition invited_verify :: "deps \<Rightarrow> string \<Rightarrow> invited_record \<Rightarrow> bool" where
  "invited_verify dp inviter_pub_hex r =
     verify_bytes dp inviter_pub_hex (invited_signing_bytes dp r) (ir_sig r)"

definition invited_beats :: "invited_record \<Rightarrow> invited_record \<Rightarrow> bool" where
  "invited_beats a b \<longleftrightarrow>
     (ir_supersedes_seq b, ir_at b, ir_sig b) < (ir_supersedes_seq a, ir_at a, ir_sig a)"

definition invited_to_value :: "invited_record \<Rightarrow> json" where
  "invited_to_value r = jobj (invited_signed r @ [(''sig'', JStr (ir_sig r))])"

abbreviation invited_fields :: "string list" where
  "invited_fields \<equiv>
     [''set_id'', ''node_id'', ''status'', ''invited_by'', ''supersedes_seq'', ''at'', ''sig'']"

definition invited_from_value :: "json \<Rightarrow> invited_record option" where
  "invited_from_value v = do {
     vs \<leftarrow> exact_fields v invited_fields;
     case vs of
       [set_id, node_id, status, invited_by, supersedes_seq, at, sig] \<Rightarrow> do {
         status \<leftarrow> as_str status;
         if status \<noteq> ''invited'' then None
         else do {
           set_id \<leftarrow> as_str set_id;
           node_id \<leftarrow> as_str node_id;
           invited_by \<leftarrow> as_str invited_by;
           sig \<leftarrow> as_str sig;
           if \<not> valid_set_id set_id \<or> \<not> valid_node_id node_id \<or> \<not> valid_node_id invited_by \<or>
              node_id = invited_by \<or> \<not> valid_sig sig
           then None
           else do {
             supersedes_seq \<leftarrow> seq_field supersedes_seq;
             at \<leftarrow> int_field at;
             Some \<lparr>ir_set_id = set_id, ir_node_id = node_id, ir_invited_by = invited_by,
                   ir_supersedes_seq = supersedes_seq, ir_at = at, ir_sig = sig\<rparr>
           }
         }
       }
     | _ \<Rightarrow> None
   }"

definition invited_ok :: "invited_record \<Rightarrow> bool" where
  "invited_ok r \<longleftrightarrow>
     valid_set_id (ir_set_id r) \<and> valid_node_id (ir_node_id r) \<and> valid_node_id (ir_invited_by r) \<and>
     ir_node_id r \<noteq> ir_invited_by r \<and> valid_sig (ir_sig r) \<and>
     ir_supersedes_seq r \<le> SEQ_MAX \<and> ir_at r < 2 ^ 53"

interpretation invited: strict_codec invited_to_value invited_from_value invited_ok
proof unfold_locales
  fix r assume ok: "invited_ok r"
  show "json_ok (invited_to_value r)"
    unfolding invited_to_value_def using ok
    by (intro json_ok_jobj) (auto simp: invited_signed_def invited_ok_def json_ok_small json_ok_seq)
  have "exact_fields (invited_to_value r) invited_fields =
      Some (map snd (invited_signed r @ [(''sig'', JStr (ir_sig r))]))"
    unfolding invited_to_value_def by (rule exact_fields_jobj) (simp_all add: invited_signed_def)
  with ok show "invited_from_value (invited_to_value r) = Some r"
    by (simp add: invited_from_value_def invited_signed_def invited_ok_def json_simps)
next
  fix v r assume v: "json_ok v" and parse: "invited_from_value v = Some r"
  then obtain vs where ex: "exact_fields v invited_fields = Some vs"
    by (auto simp: invited_from_value_def bind_Some_iff)
  from exact_fieldsD [OF this v] obtain a b c d e f g where vs: "vs = [a, b, c, d, e, f, g]"
    and veq: "v = jobj (zip invited_fields vs)"
    by (auto simp: length_7)
  from parse ex vs veq show "invited_ok r \<and> v = invited_to_value r"
    by (auto simp: invited_from_value_def bind_Some_iff invited_ok_def invited_to_value_def
        invited_signed_def int_field_Some seq_field_Some split: if_splits)
qed

interpretation invited: newest_wins invited_beats
  unfolding invited_beats_def by (rule newest_wins_rank)

section \<open>A wire record, dispatched on its status\<close>

datatype wire_record = Member member_record | Invited invited_record

definition record_from_value :: "json \<Rightarrow> wire_record option" where
  "record_from_value v = do {
     status \<leftarrow> Option.bind (jget v ''status'') as_str;
     if status = ''invited'' then map_option Invited (invited_from_value v)
     else map_option Member (member_from_value v)
   }"

fun record_to_value :: "wire_record \<Rightarrow> json" where
  "record_to_value (Member r) = member_to_value r"
| "record_to_value (Invited r) = invited_to_value r"

fun record_node_id :: "wire_record \<Rightarrow> string" where
  "record_node_id (Member r) = mr_node_id r"
| "record_node_id (Invited r) = ir_node_id r"

fun record_set_id :: "wire_record \<Rightarrow> string" where
  "record_set_id (Member r) = mr_set_id r"
| "record_set_id (Invited r) = ir_set_id r"

fun record_ok :: "wire_record \<Rightarrow> bool" where
  "record_ok (Member r) \<longleftrightarrow> member_ok r"
| "record_ok (Invited r) \<longleftrightarrow> invited_ok r"

lemma member_status_field:
  "jget (member_to_value r) ''status'' = Some (JStr (member_status_as_str (mr_status r)))"
  by (simp add: member_to_value_def member_signed_def jget_jobj)

lemma invited_status_field: "jget (invited_to_value r) ''status'' = Some (JStr ''invited'')"
  by (simp add: invited_to_value_def invited_signed_def jget_jobj)

interpretation wire_record: strict_codec record_to_value record_from_value record_ok
proof unfold_locales
  fix r assume ok: "record_ok r"
  show "json_ok (record_to_value r)"
    using ok member.enc_json invited.enc_json by (cases r) auto
  show "record_from_value (record_to_value r) = Some r"
    using ok member_status_not_invited
    by (cases r) (auto simp: record_from_value_def member_status_field invited_status_field
        member.dec_enc invited.dec_enc)
next
  fix v r assume "json_ok v" and "record_from_value v = Some r"
  then show "record_ok r \<and> v = record_to_value r"
    using member.enc_dec invited.enc_dec
    by (auto simp: record_from_value_def bind_Some_iff split: if_splits)
qed

section \<open>One-hop endorsements\<close>

record endorsement =
  en_node_id :: string
  en_sync_pub :: string
  en_endorsed_by :: string
  en_sig :: string

definition endorsement_signed :: "endorsement \<Rightarrow> (string \<times> json) list" where
  "endorsement_signed e = [(''node_id'', JStr (en_node_id e)), (''sync_pub'', JStr (en_sync_pub e))]"

definition endorsement_signing_bytes :: "deps \<Rightarrow> endorsement \<Rightarrow> string option" where
  "endorsement_signing_bytes dp e = signed_bytes dp DOMAIN_ENDORSEMENT (jobj (endorsement_signed e))"

definition endorsement_issue ::
  "deps \<Rightarrow> identity \<Rightarrow> string \<Rightarrow> string \<Rightarrow> string \<Rightarrow> endorsement option" where
  "endorsement_issue dp idn node_id sync_pub endorsed_by =
     (let e = \<lparr>en_node_id = node_id, en_sync_pub = sync_pub, en_endorsed_by = endorsed_by, en_sig = []\<rparr>
      in case endorsement_signing_bytes dp e of
           None \<Rightarrow> None
         | Some msg \<Rightarrow> Some (e\<lparr>en_sig := sign_hex idn msg\<rparr>))"

definition endorsement_verify :: "deps \<Rightarrow> string \<Rightarrow> endorsement \<Rightarrow> bool" where
  "endorsement_verify dp endorser_pub_hex e =
     verify_bytes dp endorser_pub_hex (endorsement_signing_bytes dp e) (en_sig e)"

definition endorsement_to_value :: "endorsement \<Rightarrow> json" where
  "endorsement_to_value e = jobj
     [(''node_id'', JStr (en_node_id e)),
      (''sync_pub'', JStr (en_sync_pub e)),
      (''endorsed_by'', JStr (en_endorsed_by e)),
      (''sig'', JStr (en_sig e))]"

abbreviation endorsement_fields :: "string list" where
  "endorsement_fields \<equiv> [''node_id'', ''sync_pub'', ''endorsed_by'', ''sig'']"

definition endorsement_from_value :: "json \<Rightarrow> endorsement option" where
  "endorsement_from_value v = do {
     vs \<leftarrow> exact_fields v endorsement_fields;
     case vs of
       [node_id, sync_pub, endorsed_by, sig] \<Rightarrow> do {
         node_id \<leftarrow> as_str node_id;
         sync_pub \<leftarrow> as_str sync_pub;
         endorsed_by \<leftarrow> as_str endorsed_by;
         sig \<leftarrow> as_str sig;
         if \<not> valid_node_id node_id \<or> \<not> valid_key sync_pub \<or> \<not> valid_node_id endorsed_by \<or>
            node_id = endorsed_by \<or> \<not> valid_sig sig
         then None
         else Some \<lparr>en_node_id = node_id, en_sync_pub = sync_pub, en_endorsed_by = endorsed_by,
                    en_sig = sig\<rparr>
       }
     | _ \<Rightarrow> None
   }"

definition endorsement_ok :: "endorsement \<Rightarrow> bool" where
  "endorsement_ok e \<longleftrightarrow>
     valid_node_id (en_node_id e) \<and> valid_key (en_sync_pub e) \<and> valid_node_id (en_endorsed_by e) \<and>
     en_node_id e \<noteq> en_endorsed_by e \<and> valid_sig (en_sig e)"

interpretation endorsement: strict_codec endorsement_to_value endorsement_from_value endorsement_ok
proof unfold_locales
  fix e assume ok: "endorsement_ok e"
  show "json_ok (endorsement_to_value e)"
    unfolding endorsement_to_value_def by (intro json_ok_jobj) auto
  have "exact_fields (endorsement_to_value e) endorsement_fields =
      Some [JStr (en_node_id e), JStr (en_sync_pub e), JStr (en_endorsed_by e), JStr (en_sig e)]"
    unfolding endorsement_to_value_def by (subst exact_fields_jobj) simp_all
  with ok show "endorsement_from_value (endorsement_to_value e) = Some e"
    by (simp add: endorsement_from_value_def endorsement_ok_def)
next
  fix v e assume v: "json_ok v" and parse: "endorsement_from_value v = Some e"
  then obtain vs where ex: "exact_fields v endorsement_fields = Some vs"
    by (auto simp: endorsement_from_value_def bind_Some_iff)
  from exact_fieldsD [OF this v] obtain a b c d where vs: "vs = [a, b, c, d]"
    and veq: "v = jobj (zip endorsement_fields vs)"
    by (auto simp: length_4)
  from parse ex vs veq show "endorsement_ok e \<and> v = endorsement_to_value e"
    by (auto simp: endorsement_from_value_def bind_Some_iff endorsement_ok_def
        endorsement_to_value_def split: if_splits)
qed

section \<open>Conflict records\<close>

record conflict_record =
  cr_set_id :: string
  cr_path :: string
  cr_conflict_id :: string
  cr_path_on_disk :: string
  cr_resolved :: bool
  cr_resolved_by :: "string option"
  cr_signed_by :: string
  cr_sig :: string

definition opt_str :: "string option \<Rightarrow> json" where
  "opt_str s = (case s of None \<Rightarrow> JNull | Some x \<Rightarrow> JStr x)"

definition conflict_signed :: "conflict_record \<Rightarrow> (string \<times> json) list" where
  "conflict_signed r =
     [(''set_id'', JStr (cr_set_id r)),
      (''path'', JStr (cr_path r)),
      (''conflict_id'', JStr (cr_conflict_id r)),
      (''path_on_disk'', JStr (cr_path_on_disk r)),
      (''resolved'', JBool (cr_resolved r)),
      (''resolved_by'', opt_str (cr_resolved_by r)),
      (''signed_by'', JStr (cr_signed_by r))]"

definition conflict_signing_bytes :: "deps \<Rightarrow> conflict_record \<Rightarrow> string option" where
  "conflict_signing_bytes dp r = signed_bytes dp DOMAIN_CONFLICT (jobj (conflict_signed r))"

definition conflict_sign ::
  "deps \<Rightarrow> identity \<Rightarrow> string \<Rightarrow> string \<Rightarrow> string \<Rightarrow> string \<Rightarrow> string option \<Rightarrow> string \<Rightarrow> conflict_record option" where
  "conflict_sign dp idn set_id path conflict_id path_on_disk resolved signed_by =
     (let r = \<lparr>cr_set_id = set_id, cr_path = path, cr_conflict_id = conflict_id,
               cr_path_on_disk = path_on_disk, cr_resolved = (resolved \<noteq> None),
               cr_resolved_by = resolved, cr_signed_by = signed_by, cr_sig = []\<rparr>
      in case conflict_signing_bytes dp r of
           None \<Rightarrow> None
         | Some msg \<Rightarrow> Some (r\<lparr>cr_sig := sign_hex idn msg\<rparr>))"

definition conflict_verify :: "deps \<Rightarrow> string \<Rightarrow> conflict_record \<Rightarrow> bool" where
  "conflict_verify dp signer_pub_hex r =
     verify_bytes dp signer_pub_hex (conflict_signing_bytes dp r) (cr_sig r)"

definition conflict_beats :: "conflict_record \<Rightarrow> conflict_record \<Rightarrow> bool" where
  "conflict_beats a b \<longleftrightarrow>
     cr_resolved b < cr_resolved a \<or>
     (cr_resolved a = cr_resolved b \<and>
      (cr_signed_by a < cr_signed_by b \<or> (cr_signed_by a = cr_signed_by b \<and> cr_sig a < cr_sig b)))"

definition conflict_to_value :: "conflict_record \<Rightarrow> json" where
  "conflict_to_value r = jobj (conflict_signed r @ [(''sig'', JStr (cr_sig r))])"

abbreviation conflict_fields :: "string list" where
  "conflict_fields \<equiv>
     [''set_id'', ''path'', ''conflict_id'', ''path_on_disk'', ''resolved'', ''resolved_by'',
      ''signed_by'', ''sig'']"

definition conflict_from_value :: "(string \<Rightarrow> bool) \<Rightarrow> json \<Rightarrow> conflict_record option" where
  "conflict_from_value is_nfc v = do {
     vs \<leftarrow> exact_fields v conflict_fields;
     case vs of
       [set_id, path, conflict_id, path_on_disk, resolved, resolved_by, signed_by, sig] \<Rightarrow> do {
         set_id \<leftarrow> as_str set_id;
         path \<leftarrow> as_str path;
         conflict_id \<leftarrow> as_str conflict_id;
         path_on_disk \<leftarrow> as_str path_on_disk;
         signed_by \<leftarrow> as_str signed_by;
         sig \<leftarrow> as_str sig;
         resolved \<leftarrow> as_bool resolved;
         resolved_by \<leftarrow> (if resolved_by = JNull then Some None else map_option Some (as_str resolved_by));
         if \<not> valid_set_id set_id \<or> check_wire_path is_nfc path \<noteq> Inr () \<or>
            check_wire_path is_nfc path_on_disk \<noteq> Inr () \<or> \<not> lower_hex conflict_id 64 \<or>
            \<not> valid_node_id signed_by \<or> \<not> valid_sig sig \<or> (resolved_by \<noteq> None) \<noteq> resolved \<or>
            (case resolved_by of None \<Rightarrow> False | Some r \<Rightarrow> \<not> valid_node_id r)
         then None
         else Some \<lparr>cr_set_id = set_id, cr_path = path, cr_conflict_id = conflict_id,
                    cr_path_on_disk = path_on_disk, cr_resolved = resolved,
                    cr_resolved_by = resolved_by, cr_signed_by = signed_by, cr_sig = sig\<rparr>
       }
     | _ \<Rightarrow> None
   }"

definition conflict_ok :: "(string \<Rightarrow> bool) \<Rightarrow> conflict_record \<Rightarrow> bool" where
  "conflict_ok is_nfc r \<longleftrightarrow>
     valid_set_id (cr_set_id r) \<and> path_ok is_nfc (cr_path r) \<and> path_ok is_nfc (cr_path_on_disk r) \<and>
     lower_hex (cr_conflict_id r) 64 \<and> valid_node_id (cr_signed_by r) \<and> valid_sig (cr_sig r) \<and>
     ((cr_resolved_by r \<noteq> None) = cr_resolved r) \<and>
     (\<forall>n. cr_resolved_by r = Some n \<longrightarrow> valid_node_id n)"

lemma opt_str_round [json_simps]:
  "(if opt_str s = JNull then Some None else map_option Some (as_str (opt_str s))) = Some s"
  by (auto simp: opt_str_def split: option.splits)

lemma opt_str_strict:
  "(if v = JNull then Some None else map_option Some (as_str v)) = Some s \<Longrightarrow> v = opt_str s"
  by (auto simp: opt_str_def split: if_splits)

lemma json_ok_opt_str: "json_ok (opt_str s)"
  by (simp add: opt_str_def split: option.splits)

interpretation conflict: strict_codec conflict_to_value "conflict_from_value is_nfc" "conflict_ok is_nfc"
  for is_nfc
proof unfold_locales
  fix r assume ok: "conflict_ok is_nfc r"
  show "json_ok (conflict_to_value r)"
    unfolding conflict_to_value_def
    by (intro json_ok_jobj) (auto simp: conflict_signed_def json_ok_opt_str)
  have "exact_fields (conflict_to_value r) conflict_fields =
      Some (map snd (conflict_signed r @ [(''sig'', JStr (cr_sig r))]))"
    unfolding conflict_to_value_def by (rule exact_fields_jobj) (simp_all add: conflict_signed_def)
  with ok show "conflict_from_value is_nfc (conflict_to_value r) = Some r"
    by (auto simp: conflict_from_value_def conflict_signed_def conflict_ok_def path_ok_def
        opt_str_round split: option.splits)
next
  fix v r assume v: "json_ok v" and parse: "conflict_from_value is_nfc v = Some r"
  then obtain vs where ex: "exact_fields v conflict_fields = Some vs"
    by (auto simp: conflict_from_value_def bind_Some_iff)
  from exact_fieldsD [OF this v] obtain a b c d e f g h where vs: "vs = [a, b, c, d, e, f, g, h]"
    and veq: "v = jobj (zip conflict_fields vs)"
    by (auto simp: length_8)
  from parse ex vs have f: "f = opt_str (cr_resolved_by r)"
    by (intro opt_str_strict) (auto simp: conflict_from_value_def bind_Some_iff split: if_splits)
  from parse ex vs veq f show "conflict_ok is_nfc r \<and> v = conflict_to_value r"
    by (auto simp: conflict_from_value_def bind_Some_iff conflict_ok_def conflict_to_value_def
        conflict_signed_def path_ok_def split: if_splits option.splits)
qed

interpretation conflict: newest_wins conflict_beats
  by unfold_locales (auto simp: conflict_beats_def)

section \<open>What a signature covers\<close>

lemma integer_profile_jobj:
  assumes "distinct (map fst kvs)" and "\<forall>p \<in> set kvs. integer_profile (snd p)"
  shows "integer_profile (jobj kvs)"
proof -
  have "integer_profile (snd p)" if "p \<in> set (bt_of_list kvs)" for p
  proof -
    have "map_of (bt_of_list kvs) (fst p) = Some (snd p)"
      using that by (simp add: bt_ok_distinct)
    then have "map_of kvs (fst p) = Some (snd p)"
      using assms(1) by (simp add: map_of_bt_of_list_distinct)
    then have "(fst p, snd p) \<in> set kvs" by (rule map_of_SomeD)
    with assms(2) show ?thesis by force
  qed
  then show ?thesis by (simp add: jobj_def)
qed

lemma integer_profile_of_u64 [simp]: "integer_profile (of_u64 n) \<longleftrightarrow> n < 2 ^ 53"
  by (auto simp: of_u64_def max_safe_integer_def)

lemma integer_profile_opt_str [simp]: "integer_profile (opt_str s)"
  by (simp add: opt_str_def split: option.splits)

lemma signed_bytes_Some:
  "(\<exists>b. signed_bytes dp domain body = Some b) \<longleftrightarrow> integer_profile body"
  using write_value_total [of "str_json dp" body]
  by (auto simp: signed_bytes_def to_canonical_json_def split: sum.splits)

lemma SEQ_MAX_small: "n \<le> SEQ_MAX \<Longrightarrow> n < 9007199254740992"
  by (simp add: SEQ_MAX_def)

lemma domains_differ:
  "d \<in> {DOMAIN_DESCRIPTOR, DOMAIN_MEMBER, DOMAIN_INVITED, DOMAIN_ENDORSEMENT, DOMAIN_CONFLICT} \<Longrightarrow>
   e \<in> {DOMAIN_DESCRIPTOR, DOMAIN_MEMBER, DOMAIN_INVITED, DOMAIN_ENDORSEMENT, DOMAIN_CONFLICT} \<Longrightarrow>
   d @ s = e @ t \<Longrightarrow> d = e \<and> s = t"
  by (elim insertE emptyE) (simp_all add: domain_defs)

lemma signed_bytes_domain:
  assumes "signed_bytes dp d f = Some b" and "signed_bytes dp e g = Some b"
    and "d \<in> {DOMAIN_DESCRIPTOR, DOMAIN_MEMBER, DOMAIN_INVITED, DOMAIN_ENDORSEMENT, DOMAIN_CONFLICT}"
    and "e \<in> {DOMAIN_DESCRIPTOR, DOMAIN_MEMBER, DOMAIN_INVITED, DOMAIN_ENDORSEMENT, DOMAIN_CONFLICT}"
  shows "d = e \<and> (\<exists>s. to_canonical_json (str_json dp) f = Inr s \<and> to_canonical_json (str_json dp) g = Inr s)"
proof -
  from assms(1,2) obtain s t where st: "to_canonical_json (str_json dp) f = Inr s" "b = d @ s"
    "to_canonical_json (str_json dp) g = Inr t" "b = e @ t"
    by (auto simp: signed_bytes_def split: sum.splits)
  then have "d @ s = e @ t" by metis
  then have "d = e \<and> s = t" by (rule domains_differ [OF assms(3,4)])
  with st show ?thesis by simp
qed

lemma json_ok_member_signed: "member_ok r \<Longrightarrow> json_ok (jobj (member_signed r))"
  by (intro json_ok_jobj) (auto simp: member_signed_def member_ok_def json_ok_small json_ok_seq)

lemma member_signed_inj:
  assumes "jobj (member_signed r) = jobj (member_signed s)"
  shows "s = r\<lparr>mr_sig := mr_sig s\<rparr>"
proof -
  have distinct: "distinct (map fst (member_signed t))" for t
    by (simp add: member_signed_def)
  have get: "map_of (member_signed r) k = map_of (member_signed s) k" for k
    using assms jget_jobj [OF distinct [of r], of k] jget_jobj [OF distinct [of s], of k] by simp
  have fields: "mr_set_id r = mr_set_id s" "mr_node_id r = mr_node_id s" "mr_seq r = mr_seq s"
    "mr_generation r = mr_generation s" "mr_sync_pub r = mr_sync_pub s" "mr_at r = mr_at s"
    "member_status_as_str (mr_status r) = member_status_as_str (mr_status s)"
    using get [of "''set_id''"] get [of "''node_id''"] get [of "''status''"] get [of "''seq''"]
      get [of "''gen''"] get [of "''sync_pub''"] get [of "''at''"]
    by (simp_all add: member_signed_def of_u64_def)
  moreover from fields(7) have "mr_status r = mr_status s"
    by (cases "mr_status r"; cases "mr_status s") simp_all
  ultimately show ?thesis by (cases r; cases s) simp
qed

section \<open>Properties\<close>

text \<open>
  C8. Parsing is strict: a value parses to a membership record or an invitation exactly when it is
  what that record writes and the record is within every format and integer bound; an extra, a
  missing or a mistyped field, a wrong-case key or an out-of-range integer parses to nothing.
\<close>

theorem record_parse_is_strict:
  assumes "json_ok v"
  shows "record_from_value v = Some r \<longleftrightarrow> record_ok r \<and> v = record_to_value r"
  using assms wire_record.dec_enc wire_record.enc_dec by blast

definition sample_member :: member_record where
  "sample_member = \<lparr>mr_set_id = replicate 22 CHR ''A'', mr_node_id = replicate 64 CHR ''a'',
     mr_status = Active, mr_seq = 3, mr_generation = 1, mr_sync_pub = replicate 64 CHR ''0'',
     mr_at = 1000, mr_sig = replicate 128 CHR ''f''\<rparr>"

lemma sample_member_ok: "member_ok sample_member"
  by (simp add: member_ok_def sample_member_def valid_set_id_def valid_node_id_def valid_key_def
      valid_sig_def lower_hex_def list_all_iff is_alnum_def is_lower_hex_def is_digit_def SEQ_MAX_def)

lemma record_parse_is_strict_witness:
  "record_from_value (member_to_value sample_member) = Some (Member sample_member)"
  using record_parse_is_strict [of "member_to_value sample_member" "Member sample_member"]
    sample_member_ok member.enc_json by simp

text \<open>
  A signature is about one object of one kind: the bytes signed for a membership record are
  those of no other membership record (the carried signature apart), and of no descriptor, no
  invitation, no endorsement and no conflict record at all.
\<close>

theorem signature_covers_one_record:
  assumes "string_escaping (str_json dp)" and "member_ok r" and "member_signing_bytes dp r = Some b"
  shows "(\<forall>s. member_ok s \<and> member_signing_bytes dp s = Some b \<longrightarrow> s = r\<lparr>mr_sig := mr_sig s\<rparr>) \<and>
    (\<forall>d. descriptor_signing_bytes dp d \<noteq> Some b) \<and> (\<forall>i. invited_signing_bytes dp i \<noteq> Some b) \<and>
    (\<forall>e. endorsement_signing_bytes dp e \<noteq> Some b) \<and> (\<forall>c. conflict_signing_bytes dp c \<noteq> Some b)"
proof -
  have own: "signed_bytes dp DOMAIN_MEMBER (jobj (member_signed r)) = Some b"
    using assms(3) by (simp add: member_signing_bytes_def)
  have other: "signed_bytes dp e f \<noteq> Some b"
    if "e \<in> {DOMAIN_DESCRIPTOR, DOMAIN_INVITED, DOMAIN_ENDORSEMENT, DOMAIN_CONFLICT}" for e f
  proof
    assume "signed_bytes dp e f = Some b"
    from signed_bytes_domain [OF own this] that have "e = DOMAIN_MEMBER" by auto
    with that show False by (elim insertE emptyE) (simp_all add: domain_defs)
  qed
  have "s = r\<lparr>mr_sig := mr_sig s\<rparr>" if "member_ok s" "member_signing_bytes dp s = Some b" for s
  proof -
    have "signed_bytes dp DOMAIN_MEMBER (jobj (member_signed s)) = Some b"
      using that(2) by (simp add: member_signing_bytes_def)
    from signed_bytes_domain [OF own this] obtain c where
      "to_canonical_json (str_json dp) (jobj (member_signed r)) = Inr c"
      "to_canonical_json (str_json dp) (jobj (member_signed s)) = Inr c" by auto
    from write_value_unique [OF assms(1) json_ok_member_signed [OF assms(2)]
        json_ok_member_signed [OF that(1)], of c c "[]" "[]"] this
    show ?thesis by (intro member_signed_inj) (simp add: to_canonical_json_def stops_def)
  qed
  then show ?thesis
    using other
    by (auto simp: descriptor_signing_bytes_def invited_signing_bytes_def
        endorsement_signing_bytes_def conflict_signing_bytes_def)
qed

definition sample_deps :: deps where
  "sample_deps = \<lparr>hex_decode = (\<lambda>s. Some (take (length s div 2) s)), key_from_bytes_ok = (\<lambda>_. True),
     verify_strict = (\<lambda>_ _ _. True), str_json = json_escape\<rparr>"

lemma sample_escaping: "string_escaping (str_json sample_deps)"
  by (simp add: sample_deps_def json_escape_ok)

lemma member_signing_total: "member_ok r \<Longrightarrow> \<exists>b. member_signing_bytes dp r = Some b"
  unfolding member_signing_bytes_def signed_bytes_Some
  by (intro integer_profile_jobj) (auto simp: member_signed_def member_ok_def SEQ_MAX_small)

lemma signature_covers_one_record_witness:
  "\<exists>b. member_signing_bytes sample_deps sample_member = Some b \<and>
       (\<forall>i. invited_signing_bytes sample_deps i \<noteq> Some b)"
proof -
  obtain b where b: "member_signing_bytes sample_deps sample_member = Some b"
    using member_signing_total [OF sample_member_ok] by blast
  with signature_covers_one_record [OF sample_escaping sample_member_ok b] show ?thesis by blast
qed

text \<open>
  Signing and verifying never reach the panic of \<open>signed_bytes\<close> on a record within the parsed
  bounds: every kind of object has its signing bytes, and one just past the integer bound has none.
\<close>

theorem signing_bytes_total:
  "(member_ok r \<longrightarrow> member_signing_bytes dp r \<noteq> None) \<and>
   (invited_ok i \<longrightarrow> invited_signing_bytes dp i \<noteq> None) \<and>
   (descriptor_ok d \<longrightarrow> descriptor_signing_bytes dp d \<noteq> None) \<and>
   endorsement_signing_bytes dp e \<noteq> None \<and> conflict_signing_bytes dp c \<noteq> None \<and>
   member_signing_bytes dp (r\<lparr>mr_at := 2 ^ 53\<rparr>) = None"
proof -
  have none: "x \<noteq> None \<longleftrightarrow> (\<exists>b. x = Some b)" for x :: "string option" by auto
  have "\<not> integer_profile (jobj (member_signed (r\<lparr>mr_at := 2 ^ 53\<rparr>)))"
  proof
    assume prof: "integer_profile (jobj (member_signed (r\<lparr>mr_at := 2 ^ 53\<rparr>)))"
    have "map_of (bt_of_list (member_signed (r\<lparr>mr_at := 2 ^ 53\<rparr>))) ''at'' = Some (of_u64 (2 ^ 53))"
      by (simp add: map_of_bt_of_list_distinct member_signed_def)
    then have "(''at'', of_u64 (2 ^ 53)) \<in> set (bt_of_list (member_signed (r\<lparr>mr_at := 2 ^ 53\<rparr>)))"
      by (rule map_of_SomeD)
    with prof show False unfolding jobj_def by fastforce
  qed
  then have "member_signing_bytes dp (r\<lparr>mr_at := 2 ^ 53\<rparr>) = None"
    unfolding member_signing_bytes_def using signed_bytes_Some by (metis not_None_eq)
  then show ?thesis
    unfolding none member_signing_bytes_def invited_signing_bytes_def descriptor_signing_bytes_def
      endorsement_signing_bytes_def conflict_signing_bytes_def signed_bytes_Some
    by (auto intro!: integer_profile_jobj simp: member_signed_def member_ok_def invited_signed_def
        invited_ok_def descriptor_signed_def descriptor_ok_def endorsement_signed_def
        conflict_signed_def SEQ_MAX_small)
qed

lemma signing_bytes_total_witness:
  "member_signing_bytes sample_deps sample_member \<noteq> None \<and>
   member_signing_bytes sample_deps (sample_member\<lparr>mr_at := 2 ^ 53\<rparr>) = None"
  using signing_bytes_total [of sample_member sample_deps] sample_member_ok by blast

text \<open>The sample signature scheme accepts every record of the right lengths.\<close>

lemma sample_verify_bytes:
  "length key = 64 \<Longrightarrow> length sig = 128 \<Longrightarrow> bytes \<noteq> None \<Longrightarrow> verify_bytes sample_deps key bytes sig"
  by (auto simp: verify_bytes_def verify_detached_def sample_deps_def)

lemma sample_member_verifies: "member_ok r \<Longrightarrow> member_verify sample_deps r"
  using member_signing_total [of r sample_deps] unfolding member_verify_def
  by (intro sample_verify_bytes) (auto simp: member_ok_def valid_key_def valid_sig_def lower_hex_def)

end
