(* ===== verification/Membership.thy ===== *)
theory Membership
  imports Records
begin

text \<open>
  One set's membership state, \<open>sync/src/membership.rs\<close>: the pin table, the verified facts held per
  device, the parked records, the derivation of a device's effective status with the door rule,
  and the fixpoint loop that re-examines parked records.

  The two \<open>unreachable!\<close> arms of \<open>effective\<close> are the status \<open>EUnreachable\<close>; the slot invariant
  shows that no sequence of operations reaches them.
\<close>

definition UNVERIFIED_CAP :: nat where "UNVERIFIED_CAP = 8"

definition DEVICE_CAP :: nat where "DEVICE_CAP = 64"

datatype pin_source = Direct | Endorsed string

record pin =
  pin_key :: string
  pin_source :: pin_source

datatype absorb = Absorbed | Unverified | Dropped string

datatype effective_status = EActive | EPaused | EInvited | EDeclined | ELeft | EUnknown | EUnreachable

record device_state =
  ds_live :: "member_record option"
  ds_terminal :: "member_record option"
  ds_invited :: "invited_record option"
  ds_floor :: nat
  ds_max_seq :: nat
  ds_unverified :: "json list"

definition device_default :: device_state where
  "device_default = \<lparr>ds_live = None, ds_terminal = None, ds_invited = None, ds_floor = 0,
     ds_max_seq = 0, ds_unverified = []\<rparr>"

definition ds_is_empty :: "device_state \<Rightarrow> bool" where
  "ds_is_empty dev \<longleftrightarrow>
     ds_live dev = None \<and> ds_terminal dev = None \<and> ds_invited dev = None \<and>
     ds_unverified dev = [] \<and> ds_floor dev = 0"

record membership =
  sm_descriptor :: set_descriptor
  sm_devices :: "(string, device_state) btree"
  sm_pins :: "(string, pin) btree"
  sm_endorsements :: "(string, endorsement) btree"

definition membership_new :: "set_descriptor \<Rightarrow> membership" where
  "membership_new d = \<lparr>sm_descriptor = d, sm_devices = [], sm_pins = [], sm_endorsements = []\<rparr>"

abbreviation device_of :: "membership \<Rightarrow> string \<Rightarrow> device_state option" where
  "device_of m \<equiv> map_of (sm_devices m)"

abbreviation pin_of :: "membership \<Rightarrow> string \<Rightarrow> pin option" where
  "pin_of m \<equiv> map_of (sm_pins m)"

definition key_for :: "membership \<Rightarrow> string \<Rightarrow> string option" where
  "key_for m node_id = map_option pin_key (pin_of m node_id)"

section \<open>The effective status: the door rule\<close>

definition slot_seq :: "member_record option \<Rightarrow> nat" where
  "slot_seq r = (case r of None \<Rightarrow> 0 | Some r \<Rightarrow> mr_seq r)"

definition door_seq :: "device_state \<Rightarrow> nat" where
  "door_seq dev = max (ds_floor dev) (slot_seq (ds_terminal dev))"

definition reopened :: "device_state \<Rightarrow> bool" where
  "reopened dev \<longleftrightarrow>
     (case ds_invited dev of None \<Rightarrow> False | Some i \<Rightarrow> door_seq dev \<le> ir_supersedes_seq i)"

definition door_open :: "string \<Rightarrow> string \<Rightarrow> device_state \<Rightarrow> bool" where
  "door_open created_by node_id dev \<longleftrightarrow>
     (node_id = created_by \<and> door_seq dev = 0) \<or> reopened dev"

definition live_current :: "device_state \<Rightarrow> bool" where
  "live_current dev \<longleftrightarrow>
     (case ds_live dev of
        None \<Rightarrow> False
      | Some live \<Rightarrow>
          (case ds_terminal dev of None \<Rightarrow> True | Some terminal \<Rightarrow> member_beats live terminal))"

definition device_effective :: "string \<Rightarrow> string \<Rightarrow> device_state \<Rightarrow> effective_status" where
  "device_effective created_by node_id dev =
     (if live_current dev \<and> door_open created_by node_id dev then
        (case map_option mr_status (ds_live dev) of
           Some Active \<Rightarrow> EActive
         | Some Paused \<Rightarrow> EPaused
         | _ \<Rightarrow> EUnreachable)
      else
        (case ds_terminal dev of
           Some terminal \<Rightarrow>
             if reopened dev then EInvited
             else (case mr_status terminal of
                     Declined \<Rightarrow> EDeclined
                   | Left \<Rightarrow> ELeft
                   | _ \<Rightarrow> EUnreachable)
         | None \<Rightarrow> if ds_invited dev \<noteq> None then EInvited else EUnknown))"

definition effective :: "membership \<Rightarrow> string \<Rightarrow> effective_status" where
  "effective m node_id =
     (case device_of m node_id of
        None \<Rightarrow> EUnknown
      | Some dev \<Rightarrow> device_effective (sd_created_by (sm_descriptor m)) node_id dev)"

definition is_admitted :: "membership \<Rightarrow> string \<Rightarrow> bool" where
  "is_admitted m node_id \<longleftrightarrow> effective m node_id = EActive \<or> effective m node_id = EPaused"

section \<open>Absorbing one record\<close>

definition hold_member :: "member_record \<Rightarrow> device_state \<Rightarrow> device_state" where
  "hold_member r dev =
     (let dev' = dev\<lparr>ds_max_seq := max (ds_max_seq dev) (mr_seq r)\<rparr>
      in if is_terminal (mr_status r)
         then dev'\<lparr>ds_terminal := keep_newest member_beats (ds_terminal dev') r\<rparr>
         else dev'\<lparr>ds_live := keep_newest member_beats (ds_live dev') r\<rparr>)"

definition absorb_member_verified :: "member_record \<Rightarrow> membership \<Rightarrow> membership" where
  "absorb_member_verified r m =
     m\<lparr>sm_devices := bt_entry (mr_node_id r) device_default (hold_member r) (sm_devices m)\<rparr>"

definition hold_invited :: "invited_record \<Rightarrow> device_state \<Rightarrow> device_state" where
  "hold_invited r dev =
     (let dev' = dev\<lparr>ds_max_seq := max (ds_max_seq dev) (ir_supersedes_seq r)\<rparr>
      in dev'\<lparr>ds_invited := keep_newest invited_beats (ds_invited dev') r\<rparr>)"

definition absorb_invited_verified :: "invited_record \<Rightarrow> membership \<Rightarrow> membership" where
  "absorb_invited_verified r m =
     m\<lparr>sm_devices := bt_entry (ir_node_id r) device_default (hold_invited r) (sm_devices m)\<rparr>"

definition park :: "json \<Rightarrow> device_state \<Rightarrow> device_state" where
  "park v dev =
     (if v \<in> set (ds_unverified dev) then dev
      else if UNVERIFIED_CAP \<le> length (ds_unverified dev)
        then dev\<lparr>ds_unverified := tl (ds_unverified dev) @ [v]\<rparr>
      else dev\<lparr>ds_unverified := ds_unverified dev @ [v]\<rparr>)"

definition stash_unverified :: "wire_record \<Rightarrow> membership \<Rightarrow> absorb \<times> membership" where
  "stash_unverified r m =
     (let node = record_node_id r
      in if device_of m node = None \<and> DEVICE_CAP \<le> length (sm_devices m)
         then (Dropped ''device cap'', m)
         else (Unverified,
               m\<lparr>sm_devices := bt_entry node device_default (park (record_to_value r)) (sm_devices m)\<rparr>))"

definition absorb_inner :: "deps \<Rightarrow> wire_record \<Rightarrow> membership \<Rightarrow> absorb \<times> membership" where
  "absorb_inner dp r m =
     (if record_set_id r \<noteq> sd_set_id (sm_descriptor m) then (Dropped ''foreign set'', m)
      else
        (case r of
           Member member \<Rightarrow>
             if \<not> member_verify dp member then (Dropped ''bad signature'', m)
             else (case pin_of m (mr_node_id member) of
                     Some pin \<Rightarrow>
                       if pin_key pin = mr_sync_pub member
                       then (Absorbed, absorb_member_verified member m)
                       else stash_unverified r m
                   | None \<Rightarrow> stash_unverified r m)
         | Invited invited \<Rightarrow>
             (case key_for m (ir_invited_by invited) of
                None \<Rightarrow> stash_unverified r m
              | Some inviter_key \<Rightarrow>
                  if \<not> invited_verify dp inviter_key invited then (Dropped ''bad signature'', m)
                  else if \<not> is_admitted m (ir_invited_by invited) then stash_unverified r m
                  else (Absorbed, absorb_invited_verified invited m))))"

section \<open>The fixpoint over parked records\<close>

definition parked :: "membership \<Rightarrow> (string \<times> json list) list" where
  "parked m =
     map (\<lambda>p. (fst p, ds_unverified (snd p)))
       (filter (\<lambda>p. ds_unverified (snd p) \<noteq> []) (sm_devices m))"

definition take_parked :: "membership \<Rightarrow> membership" where
  "take_parked m =
     m\<lparr>sm_devices := map (\<lambda>p. (fst p, (snd p)\<lparr>ds_unverified := []\<rparr>)) (sm_devices m)\<rparr>"

definition reverify_blob :: "deps \<Rightarrow> bool \<times> membership \<Rightarrow> json \<Rightarrow> bool \<times> membership" where
  "reverify_blob dp st blob =
     (case record_from_value blob of
        None \<Rightarrow> st
      | Some r \<Rightarrow>
          (case absorb_inner dp r (snd st) of
             (outcome, m) \<Rightarrow> (fst st \<or> outcome = Absorbed, m)))"

definition drop_empty :: "string \<Rightarrow> membership \<Rightarrow> membership" where
  "drop_empty node m =
     (case device_of m node of
        None \<Rightarrow> m
      | Some dev \<Rightarrow> if ds_is_empty dev then m\<lparr>sm_devices := bt_remove node (sm_devices m)\<rparr> else m)"

definition reverify_device ::
  "deps \<Rightarrow> bool \<times> membership \<Rightarrow> string \<times> json list \<Rightarrow> bool \<times> membership" where
  "reverify_device dp st p =
     (case foldl (reverify_blob dp) st (snd p) of (progress, m) \<Rightarrow> (progress, drop_empty (fst p) m))"

definition reverify_pass :: "deps \<Rightarrow> membership \<Rightarrow> bool \<times> membership" where
  "reverify_pass dp m = foldl (reverify_device dp) (False, take_parked m) (parked m)"

text \<open>The number of parked records: it falls in every pass that makes progress.\<close>

definition devices_parked :: "(string, device_state) btree \<Rightarrow> nat" where
  "devices_parked ds = (\<Sum>p\<leftarrow>ds. length (ds_unverified (snd p)))"

definition parked_count :: "membership \<Rightarrow> nat" where
  "parked_count m = devices_parked (sm_devices m)"

lemma devices_parked_simps [simp]:
  "devices_parked [] = 0"
  "devices_parked (p # ds) = length (ds_unverified (snd p)) + devices_parked ds"
  by (simp_all add: devices_parked_def)

lemma devices_parked_entry:
  assumes "\<And>dev. length (ds_unverified (f dev)) \<le> length (ds_unverified dev) + n"
    and "ds_unverified d = []"
  shows "devices_parked (bt_entry k d f ds) \<le> devices_parked ds + n"
  using assms(1) [of d] assms(2) by (induction ds) (auto intro: le_trans [OF assms(1)])

lemma devices_parked_remove: "devices_parked (bt_remove k ds) \<le> devices_parked ds"
  by (induction ds) (auto simp: bt_remove_def)

lemma hold_unverified [simp]:
  "ds_unverified (hold_member r dev) = ds_unverified dev"
  "ds_unverified (hold_invited i dev) = ds_unverified dev"
  by (simp_all add: hold_member_def hold_invited_def Let_def)

lemma park_length: "length (ds_unverified (park v dev)) \<le> length (ds_unverified dev) + 1"
  by (simp add: park_def UNVERIFIED_CAP_def)

lemma device_default_unverified [simp]: "ds_unverified device_default = []"
  by (simp add: device_default_def)

lemma stash_count: "parked_count (snd (stash_unverified r m)) \<le> parked_count m + 1"
  using devices_parked_entry [of "park (record_to_value r)" 1 device_default "record_node_id r"
      "sm_devices m", OF park_length]
  by (simp add: stash_unverified_def Let_def parked_count_def)

lemma stash_outcome: "fst (stash_unverified r m) \<noteq> Absorbed"
  by (simp add: stash_unverified_def Let_def)

lemma verified_count [simp]:
  "parked_count (absorb_member_verified r m) \<le> parked_count m"
  "parked_count (absorb_invited_verified i m) \<le> parked_count m"
  using devices_parked_entry [of "hold_member r" 0 device_default]
    devices_parked_entry [of "hold_invited i" 0 device_default]
  by (simp_all add: parked_count_def absorb_member_verified_def absorb_invited_verified_def)

lemma absorb_inner_count:
  "parked_count (snd (absorb_inner dp r m)) + (if fst (absorb_inner dp r m) = Absorbed then 1 else 0)
     \<le> parked_count m + 1"
  using stash_count [of r m] stash_outcome [of r m]
  by (auto simp: absorb_inner_def split: wire_record.splits option.splits)

lemma reverify_blob_count:
  "parked_count (snd (reverify_blob dp st b)) \<le> parked_count (snd st) + 1 \<and>
   (fst (reverify_blob dp st b) \<longrightarrow>
      fst st \<or> parked_count (snd (reverify_blob dp st b)) < parked_count (snd st) + 1)"
proof (cases "record_from_value b")
  case None
  then show ?thesis by (simp add: reverify_blob_def)
next
  case (Some r)
  then show ?thesis
    using absorb_inner_count [of dp r "snd st"]
    by (auto simp: reverify_blob_def split: prod.splits if_splits)
qed

lemma reverify_blobs_count:
  "parked_count (snd (foldl (reverify_blob dp) st bs)) \<le> parked_count (snd st) + length bs \<and>
   (fst (foldl (reverify_blob dp) st bs) \<longrightarrow>
      fst st \<or> parked_count (snd (foldl (reverify_blob dp) st bs)) < parked_count (snd st) + length bs)"
proof (induction bs arbitrary: st)
  case Nil
  then show ?case by simp
next
  case (Cons b bs)
  from Cons.IH [of "reverify_blob dp st b"] reverify_blob_count [of dp st b]
  show ?case by (auto; linarith)
qed

lemma drop_empty_count: "parked_count (drop_empty node m) \<le> parked_count m"
  using devices_parked_remove by (auto simp: drop_empty_def parked_count_def split: option.splits)

lemma reverify_devices_count:
  "parked_count (snd (foldl (reverify_device dp) st ps))
     \<le> parked_count (snd st) + (\<Sum>p\<leftarrow>ps. length (snd p)) \<and>
   (fst (foldl (reverify_device dp) st ps) \<longrightarrow>
      fst st \<or> parked_count (snd (foldl (reverify_device dp) st ps))
                 < parked_count (snd st) + (\<Sum>p\<leftarrow>ps. length (snd p)))"
proof (induction ps arbitrary: st)
  case Nil
  then show ?case by simp
next
  case (Cons p ps)
  have "parked_count (snd (reverify_device dp st p)) \<le> parked_count (snd st) + length (snd p) \<and>
    (fst (reverify_device dp st p) \<longrightarrow>
       fst st \<or> parked_count (snd (reverify_device dp st p)) < parked_count (snd st) + length (snd p))"
    using reverify_blobs_count [of dp st "snd p"]
      drop_empty_count [of "fst p" "snd (foldl (reverify_blob dp) st (snd p))"]
    by (auto simp: reverify_device_def case_prod_unfold)
  with Cons.IH [of "reverify_device dp st p"] show ?case by (auto; linarith)
qed

lemma parked_total: "(\<Sum>p\<leftarrow>parked m. length (snd p)) = parked_count m"
proof -
  have "(\<Sum>p\<leftarrow>map (\<lambda>p. (fst p, ds_unverified (snd p))) (filter (\<lambda>p. ds_unverified (snd p) \<noteq> []) ds).
      length (snd p)) = devices_parked ds" for ds
    by (induction ds) auto
  then show ?thesis by (simp add: parked_def parked_count_def)
qed

lemma take_parked_count [simp]: "parked_count (take_parked m) = 0"
proof -
  have "devices_parked (map (\<lambda>p. (fst p, (snd p)\<lparr>ds_unverified := []\<rparr>)) ds) = 0" for ds
    by (induction ds) auto
  then show ?thesis by (simp add: parked_count_def take_parked_def)
qed

lemma reverify_pass_count:
  "reverify_pass dp m = (True, m') \<Longrightarrow> parked_count m' < parked_count m"
  using reverify_devices_count [of dp "(False, take_parked m)" "parked m"]
  by (simp add: reverify_pass_def parked_total)

function reverify :: "deps \<Rightarrow> membership \<Rightarrow> membership" where
  "reverify dp m =
     (if parked m = [] then m
      else (case reverify_pass dp m of
              (progress, m') \<Rightarrow> if progress then reverify dp m' else m'))"
  by auto

termination
  by (relation "measure (\<lambda>p. parked_count (snd p))") (auto simp: reverify_pass_count)

declare reverify.simps [simp del]

section \<open>The operations\<close>

definition absorb_record :: "deps \<Rightarrow> wire_record \<Rightarrow> membership \<Rightarrow> absorb \<times> membership" where
  "absorb_record dp r m =
     (case absorb_inner dp r m of
        (outcome, m') \<Rightarrow> (outcome, if outcome = Absorbed then reverify dp m' else m'))"

definition retire_old_key :: "device_state \<Rightarrow> device_state" where
  "retire_old_key dev =
     dev\<lparr>ds_floor := max (ds_floor dev) (slot_seq (ds_terminal dev)),
         ds_live := None, ds_terminal := None\<rparr>"

definition pin_direct :: "deps \<Rightarrow> string \<Rightarrow> string \<Rightarrow> membership \<Rightarrow> membership" where
  "pin_direct dp node_id key m =
     (let m1 = m\<lparr>sm_endorsements := bt_remove node_id (sm_endorsements m)\<rparr>;
          pinned = (\<lambda>m. m\<lparr>sm_pins :=
                         bt_insert node_id \<lparr>pin_key = key, pin_source = Direct\<rparr> (sm_pins m)\<rparr>)
      in case pin_of m1 node_id of
           Some pin \<Rightarrow>
             if pin_key pin = key then pinned m1
             else reverify dp
               (pinned (m1\<lparr>sm_devices := bt_adjust node_id retire_old_key (sm_devices m1)\<rparr>))
         | None \<Rightarrow> reverify dp (pinned m1))"

definition unpinned_devices :: "membership \<Rightarrow> string list" where
  "unpinned_devices m =
     map fst (filter (\<lambda>p. ds_unverified (snd p) \<noteq> [] \<and> pin_of m (fst p) = None) (sm_devices m))"

definition absorb_endorsement :: "deps \<Rightarrow> endorsement \<Rightarrow> membership \<Rightarrow> absorb \<times> membership" where
  "absorb_endorsement dp e m =
     (case pin_of m (en_endorsed_by e) of
        None \<Rightarrow> (Dropped ''unpinned endorser'', m)
      | Some endorser \<Rightarrow>
          if pin_source endorser \<noteq> Direct then (Dropped ''endorsement is one hop only'', m)
          else if effective m (en_endorsed_by e) \<noteq> EActive then (Dropped ''endorser not active'', m)
          else if \<not> endorsement_verify dp (pin_key endorser) e then (Dropped ''bad signature'', m)
          else if device_of m (en_node_id e) = None then (Dropped ''device unknown to the set'', m)
          else if pin_of m (en_node_id e) \<noteq> None then (Absorbed, m)
          else
            (Absorbed,
             reverify dp
               (m\<lparr>sm_pins := bt_insert (en_node_id e)
                    \<lparr>pin_key = en_sync_pub e, pin_source = Endorsed (en_endorsed_by e)\<rparr> (sm_pins m),
                  sm_endorsements := bt_insert (en_node_id e) e (sm_endorsements m)\<rparr>)))"

definition endorsable :: "membership \<Rightarrow> (string \<times> string) list" where
  "endorsable m =
     map (\<lambda>p. (fst p, pin_key (snd p))) (filter (\<lambda>p. pin_source (snd p) = Direct) (sm_pins m))"

definition held_endorsements :: "membership \<Rightarrow> endorsement list" where
  "held_endorsements m = map snd (sm_endorsements m)"

definition terminal_seq_of :: "membership \<Rightarrow> string \<Rightarrow> nat" where
  "terminal_seq_of m node_id =
     (case device_of m node_id of
        None \<Rightarrow> 0
      | Some dev \<Rightarrow> door_seq dev)"

definition next_seq :: "membership \<Rightarrow> string \<Rightarrow> nat" where
  "next_seq m node_id =
     min (1 + (case device_of m node_id of None \<Rightarrow> 0 | Some dev \<Rightarrow> ds_max_seq dev)) SEQ_MAX"

definition records_about :: "membership \<Rightarrow> string \<Rightarrow> json list" where
  "records_about m node_id =
     (case device_of m node_id of
        None \<Rightarrow> []
      | Some dev \<Rightarrow>
          (case ds_live dev of None \<Rightarrow> [] | Some r \<Rightarrow> [member_to_value r]) @
          (case ds_terminal dev of None \<Rightarrow> [] | Some r \<Rightarrow> [member_to_value r]) @
          (case ds_invited dev of None \<Rightarrow> [] | Some r \<Rightarrow> [invited_to_value r]))"

definition device_ids :: "membership \<Rightarrow> string list" where
  "device_ids m = map fst (sm_devices m)"

definition all_records :: "membership \<Rightarrow> json list" where
  "all_records m = concat (map (records_about m) (map fst (sm_devices m)))"

definition drop_stranger :: "string \<Rightarrow> membership \<Rightarrow> membership" where
  "drop_stranger node_id m =
     (case device_of m node_id of
        None \<Rightarrow> m
      | Some dev \<Rightarrow>
          if ds_live dev = None \<and> ds_terminal dev = None \<and> ds_invited dev = None
          then m\<lparr>sm_devices := bt_remove node_id (sm_devices m)\<rparr> else m)"

text \<open>The operations as labels of a run.\<close>

datatype membership_op =
  PinDirect string string
| AbsorbRecord wire_record
| AbsorbEndorsement endorsement
| DropStranger string

fun apply_op :: "deps \<Rightarrow> membership \<Rightarrow> membership_op \<Rightarrow> membership" where
  "apply_op dp m (PinDirect node key) = pin_direct dp node key m"
| "apply_op dp m (AbsorbRecord r) = snd (absorb_record dp r m)"
| "apply_op dp m (AbsorbEndorsement e) = snd (absorb_endorsement dp e m)"
| "apply_op dp m (DropStranger node) = drop_stranger node m"

fun op_parsed :: "membership_op \<Rightarrow> bool" where
  "op_parsed (AbsorbRecord r) \<longleftrightarrow> record_ok r"
| "op_parsed (AbsorbEndorsement e) \<longleftrightarrow> endorsement_ok e"
| "op_parsed (PinDirect node key) \<longleftrightarrow> valid_node_id node"
| "op_parsed (DropStranger node) \<longleftrightarrow> True"

section \<open>The state invariant\<close>

definition held_ok :: "string \<Rightarrow> string \<Rightarrow> nat \<Rightarrow> member_record \<Rightarrow> bool" where
  "held_ok sid node high r \<longleftrightarrow>
     member_ok r \<and> mr_set_id r = sid \<and> mr_node_id r = node \<and> mr_seq r \<le> high"

definition device_ok :: "string \<Rightarrow> string \<Rightarrow> device_state \<Rightarrow> bool" where
  "device_ok sid node dev \<longleftrightarrow>
     valid_node_id node \<and>
     pred_option (\<lambda>r. held_ok sid node (ds_max_seq dev) r \<and> \<not> is_terminal (mr_status r)) (ds_live dev) \<and>
     pred_option (\<lambda>r. held_ok sid node (ds_max_seq dev) r \<and> is_terminal (mr_status r)) (ds_terminal dev) \<and>
     pred_option (\<lambda>i. invited_ok i \<and> ir_set_id i = sid \<and> ir_node_id i = node \<and>
                      ir_supersedes_seq i \<le> ds_max_seq dev) (ds_invited dev) \<and>
     ds_floor dev \<le> ds_max_seq dev \<and> ds_max_seq dev \<le> SEQ_MAX \<and>
     length (ds_unverified dev) \<le> UNVERIFIED_CAP"

definition membership_ok :: "membership \<Rightarrow> bool" where
  "membership_ok m \<longleftrightarrow>
     bt_ok (sm_devices m) \<and> bt_ok (sm_pins m) \<and> bt_ok (sm_endorsements m) \<and>
     descriptor_ok (sm_descriptor m) \<and>
     (\<forall>p \<in> set (sm_devices m). device_ok (sd_set_id (sm_descriptor m)) (fst p) (snd p)) \<and>
     (\<forall>p \<in> set (sm_pins m). valid_node_id (fst p)) \<and>
     (\<forall>p \<in> set (sm_endorsements m). endorsement_ok (snd p) \<and> en_node_id (snd p) = fst p)"

lemma device_ok_default: "valid_node_id node \<Longrightarrow> device_ok sid node device_default"
  by (simp add: device_ok_def device_default_def)

lemma held_ok_mono: "held_ok sid node h r \<Longrightarrow> h \<le> h' \<Longrightarrow> held_ok sid node h' r"
  by (simp add: held_ok_def)

lemma slot_ok_mono:
  "pred_option (\<lambda>r. held_ok sid node h r \<and> P r) slot \<Longrightarrow> h \<le> h' \<Longrightarrow>
   pred_option (\<lambda>r. held_ok sid node h' r \<and> P r) slot"
  by (auto simp: pred_option_def intro: held_ok_mono)

lemma slot_ok_keep:
  "pred_option (\<lambda>r. held_ok sid node h r \<and> P r) slot \<Longrightarrow> h \<le> h' \<Longrightarrow> held_ok sid node h' r \<Longrightarrow> P r \<Longrightarrow>
   pred_option (\<lambda>r. held_ok sid node h' r \<and> P r) (keep_newest member_beats slot r)"
  using keep_newest_pred [OF slot_ok_mono [of sid node h P slot h']] by simp

lemma device_ok_slots:
  assumes "device_ok sid node dev"
  shows "pred_option (\<lambda>r. held_ok sid node (ds_max_seq dev) r \<and> \<not> is_terminal (mr_status r)) (ds_live dev)"
    and "pred_option (\<lambda>r. held_ok sid node (ds_max_seq dev) r \<and> is_terminal (mr_status r)) (ds_terminal dev)"
  using assms by (simp_all add: device_ok_def)

lemma device_ok_hold_member:
  assumes dev: "device_ok sid (mr_node_id r) dev" and r: "member_ok r" "mr_set_id r = sid"
  shows "device_ok sid (mr_node_id r) (hold_member r dev)"
proof -
  let ?h = "max (ds_max_seq dev) (mr_seq r)"
  have held: "held_ok sid (mr_node_id r) ?h r" using r by (simp add: held_ok_def)
  have wider: "ds_max_seq dev \<le> ?h" by simp
  have inv: "pred_option (\<lambda>i. invited_ok i \<and> ir_set_id i = sid \<and> ir_node_id i = mr_node_id r \<and>
      ir_supersedes_seq i \<le> ?h) (ds_invited dev)"
    using dev by (auto simp: device_ok_def pred_option_def)
  have seq: "mr_seq r \<le> SEQ_MAX" using r(1) by (simp add: member_ok_def)
  note slots = device_ok_slots [OF dev]
  from dev inv seq slot_ok_mono [OF slots(1) wider] slot_ok_mono [OF slots(2) wider]
    slot_ok_keep [OF slots(1) wider held] slot_ok_keep [OF slots(2) wider held]
  show ?thesis by (simp add: hold_member_def Let_def device_ok_def max.coboundedI1)
qed

lemma device_ok_hold_invited:
  assumes dev: "device_ok sid (ir_node_id i) dev" and i: "invited_ok i" "ir_set_id i = sid"
  shows "device_ok sid (ir_node_id i) (hold_invited i dev)"
proof -
  let ?h = "max (ds_max_seq dev) (ir_supersedes_seq i)"
  have wider: "ds_max_seq dev \<le> ?h" by simp
  have inv: "pred_option (\<lambda>j. invited_ok j \<and> ir_set_id j = sid \<and> ir_node_id j = ir_node_id i \<and>
      ir_supersedes_seq j \<le> ?h) (keep_newest invited_beats (ds_invited dev) i)"
  proof (rule keep_newest_pred)
    show "pred_option (\<lambda>j. invited_ok j \<and> ir_set_id j = sid \<and> ir_node_id j = ir_node_id i \<and>
        ir_supersedes_seq j \<le> ?h) (ds_invited dev)"
      using dev by (auto simp: device_ok_def pred_option_def)
  qed (use i in simp)
  have seq: "ir_supersedes_seq i \<le> SEQ_MAX" using i(1) by (simp add: invited_ok_def)
  note slots = device_ok_slots [OF dev]
  from dev inv seq slot_ok_mono [OF slots(1) wider] slot_ok_mono [OF slots(2) wider]
  show ?thesis by (simp add: hold_invited_def Let_def device_ok_def max.coboundedI1)
qed

lemma device_ok_park: "device_ok sid node dev \<Longrightarrow> device_ok sid node (park v dev)"
  by (auto simp: device_ok_def park_def UNVERIFIED_CAP_def)

lemma device_ok_clear: "device_ok sid node dev \<Longrightarrow> device_ok sid node (dev\<lparr>ds_unverified := []\<rparr>)"
  by (simp add: device_ok_def)

lemma device_ok_retire: "device_ok sid node dev \<Longrightarrow> device_ok sid node (retire_old_key dev)"
  by (auto simp: device_ok_def retire_old_key_def slot_seq_def held_ok_def pred_option_def
      split: option.splits)

lemma membership_ok_entry:
  assumes m: "membership_ok m" and node: "valid_node_id node"
    and f: "\<And>dev. device_ok (sd_set_id (sm_descriptor m)) node dev \<Longrightarrow>
                   device_ok (sd_set_id (sm_descriptor m)) node (f dev)"
  shows "membership_ok (m\<lparr>sm_devices := bt_entry node device_default f (sm_devices m)\<rparr>)"
proof -
  have bt: "bt_ok (sm_devices m)" using m by (simp add: membership_ok_def)
  have "device_ok (sd_set_id (sm_descriptor m)) (fst p) (snd p)"
    if "p \<in> set (bt_entry node device_default f (sm_devices m))" for p
  proof -
    have "map_of (bt_entry node device_default f (sm_devices m)) (fst p) = Some (snd p)"
      using that bt by (simp add: bt_ok_distinct)
    moreover have "device_ok (sd_set_id (sm_descriptor m)) n dev" if "device_of m n = Some dev" for n dev
      using m map_of_SomeD [OF that] by (fastforce simp: membership_ok_def)
    ultimately show ?thesis
      using f [OF device_ok_default [OF node]] f
      by (auto simp: map_of_bt_entry [OF bt] split: if_splits option.splits) metis
  qed
  with m bt show ?thesis by (simp add: membership_ok_def)
qed

lemma membership_ok_member:
  "membership_ok m \<Longrightarrow> member_ok r \<Longrightarrow> mr_set_id r = sd_set_id (sm_descriptor m) \<Longrightarrow>
   membership_ok (absorb_member_verified r m)"
  unfolding absorb_member_verified_def
  by (rule membership_ok_entry) (auto simp: member_ok_def intro: device_ok_hold_member)

lemma membership_ok_invited:
  "membership_ok m \<Longrightarrow> invited_ok i \<Longrightarrow> ir_set_id i = sd_set_id (sm_descriptor m) \<Longrightarrow>
   membership_ok (absorb_invited_verified i m)"
  unfolding absorb_invited_verified_def
  by (rule membership_ok_entry) (auto simp: invited_ok_def intro: device_ok_hold_invited)

lemma record_ok_node: "record_ok r \<Longrightarrow> valid_node_id (record_node_id r)"
  by (cases r) (auto simp: member_ok_def invited_ok_def)

lemma membership_ok_stash:
  "membership_ok m \<Longrightarrow> record_ok r \<Longrightarrow> membership_ok (snd (stash_unverified r m))"
  by (auto simp: stash_unverified_def Let_def
      intro!: membership_ok_entry record_ok_node device_ok_park)

lemma membership_ok_absorb_inner:
  "membership_ok m \<Longrightarrow> record_ok r \<Longrightarrow> membership_ok (snd (absorb_inner dp r m))"
  using membership_ok_stash [of m r]
  by (auto simp: absorb_inner_def membership_ok_member membership_ok_invited
      split: wire_record.splits option.splits)

lemma membership_ok_take: "membership_ok m \<Longrightarrow> membership_ok (take_parked m)"
  using device_ok_clear by (auto simp: membership_ok_def take_parked_def bt_ok_def comp_def)

lemma membership_ok_drop_device:
  "membership_ok m \<Longrightarrow> membership_ok (m\<lparr>sm_devices := bt_remove node (sm_devices m)\<rparr>)"
  by (auto simp: membership_ok_def bt_remove_def [of node "sm_devices m"]
      bt_ok_remove [unfolded bt_remove_def])

end
