(* ===== verification/Admission.thy ===== *)
theory Admission
  imports Membership
begin

text \<open>
  What the membership operations of \<^theory_text>\<open>Membership\<close> keep, over any run of them: the state
  invariant, the fixpoint of the parked records, the well-founded chain of invitations behind every
  admission, the pins only direct contact may replace, and the door a terminal record closes.
\<close>

section \<open>Reasoning about the fixpoint loop\<close>

lemma foldl_keeps: "P s \<Longrightarrow> (\<And>s x. P s \<Longrightarrow> P (f s x)) \<Longrightarrow> P (foldl f s xs)"
  by (induction xs arbitrary: s) auto

lemma exact_fields_length: "exact_fields v fs = Some vs \<Longrightarrow> length vs = length fs"
  by (auto simp: exact_fields_def bind_Some_iff those_Some_iff split: if_splits dest!: map_eq_imp_length_eq)

lemma member_parse_ok:
  assumes "member_from_value v = Some r"
  shows "member_ok r"
proof -
  from assms obtain vs where ex: "exact_fields v member_fields = Some vs"
    by (auto simp: member_from_value_def bind_Some_iff)
  from exact_fields_length [OF this] obtain a b c d e f g h where "vs = [a, b, c, d, e, f, g, h]"
    by (auto simp: length_8)
  with assms ex show ?thesis
    by (auto simp: member_from_value_def bind_Some_iff member_ok_def int_field_Some seq_field_Some
        split: if_splits)
qed

lemma invited_parse_ok:
  assumes "invited_from_value v = Some r"
  shows "invited_ok r"
proof -
  from assms obtain vs where ex: "exact_fields v invited_fields = Some vs"
    by (auto simp: invited_from_value_def bind_Some_iff)
  from exact_fields_length [OF this] obtain a b c d e f g where "vs = [a, b, c, d, e, f, g]"
    by (auto simp: length_7)
  with assms ex show ?thesis
    by (auto simp: invited_from_value_def bind_Some_iff invited_ok_def int_field_Some seq_field_Some
        split: if_splits)
qed

lemma parsed_record_ok: "record_from_value v = Some r \<Longrightarrow> record_ok r"
  by (auto simp: record_from_value_def bind_Some_iff member_parse_ok invited_parse_ok split: if_splits)

text \<open>A predicate the three steps of a pass keep survives the whole loop.\<close>

lemma reverify_keeps:
  assumes take: "\<And>m. P m \<Longrightarrow> P (take_parked m)"
    and absorb: "\<And>m r. P m \<Longrightarrow> record_ok r \<Longrightarrow> P (snd (absorb_inner dp r m))"
    and drop: "\<And>m node. P m \<Longrightarrow> P (drop_empty node m)"
    and start: "P m"
  shows "P (reverify dp m)"
  using start
proof (induction dp\<equiv>dp m rule: reverify.induct)
  case (1 m)
  have blob: "P (snd (reverify_blob dp st b))" if "P (snd st)" for st b
    using that absorb [OF that] parsed_record_ok [of b]
    by (auto simp: reverify_blob_def case_prod_unfold split: option.splits)
  have device: "P (snd (reverify_device dp st p))" if "P (snd st)" for st p
    using foldl_keeps [of "\<lambda>st. P (snd st)" st "reverify_blob dp" "snd p", OF that blob] drop
    by (simp add: reverify_device_def case_prod_unfold)
  have pass: "P (snd (reverify_pass dp m))"
    using foldl_keeps [of "\<lambda>st. P (snd st)" "(False, take_parked m)" "reverify_device dp", OF _ device]
      take [OF 1(2)] by (simp add: reverify_pass_def)
  show ?case
    using 1 pass by (subst reverify.simps) (auto split: prod.splits)
qed

text \<open>The same for the facts the loop never touches.\<close>

lemma absorb_inner_frame [simp]:
  "sm_descriptor (snd (absorb_inner dp r m)) = sm_descriptor m"
  "sm_pins (snd (absorb_inner dp r m)) = sm_pins m"
  "sm_endorsements (snd (absorb_inner dp r m)) = sm_endorsements m"
  by (auto simp: absorb_inner_def stash_unverified_def absorb_member_verified_def
      absorb_invited_verified_def Let_def split: wire_record.splits option.splits)

lemma drop_empty_frame [simp]:
  "sm_descriptor (drop_empty node m) = sm_descriptor m"
  "sm_pins (drop_empty node m) = sm_pins m"
  "sm_endorsements (drop_empty node m) = sm_endorsements m"
  by (auto simp: drop_empty_def split: option.splits)

lemma take_parked_frame [simp]:
  "sm_descriptor (take_parked m) = sm_descriptor m"
  "sm_pins (take_parked m) = sm_pins m"
  "sm_endorsements (take_parked m) = sm_endorsements m"
  by (simp_all add: take_parked_def)

lemma reverify_frame [simp]:
  "sm_descriptor (reverify dp m) = sm_descriptor m"
  "sm_pins (reverify dp m) = sm_pins m"
  "sm_endorsements (reverify dp m) = sm_endorsements m"
proof -
  have "sm_descriptor (reverify dp m) = sm_descriptor m \<and> sm_pins (reverify dp m) = sm_pins m \<and>
      sm_endorsements (reverify dp m) = sm_endorsements m"
    by (rule reverify_keeps) auto
  then show "sm_descriptor (reverify dp m) = sm_descriptor m" "sm_pins (reverify dp m) = sm_pins m"
    "sm_endorsements (reverify dp m) = sm_endorsements m" by auto
qed

lemma membership_ok_drop_empty: "membership_ok m \<Longrightarrow> membership_ok (drop_empty node m)"
  by (auto simp: drop_empty_def membership_ok_drop_device split: option.splits)

lemma membership_ok_reverify: "membership_ok m \<Longrightarrow> membership_ok (reverify dp m)"
  by (rule reverify_keeps)
    (auto intro: membership_ok_take membership_ok_absorb_inner membership_ok_drop_empty)

section \<open>What a parked record waits for\<close>

definition accepts :: "deps \<Rightarrow> membership \<Rightarrow> wire_record \<Rightarrow> bool" where
  "accepts dp m r \<longleftrightarrow>
     record_set_id r = sd_set_id (sm_descriptor m) \<and>
     (case r of
        Member x \<Rightarrow> member_verify dp x \<and> key_for m (mr_node_id x) = Some (mr_sync_pub x)
      | Invited i \<Rightarrow>
          (case key_for m (ir_invited_by i) of
             None \<Rightarrow> False
           | Some k \<Rightarrow> invited_verify dp k i \<and> is_admitted m (ir_invited_by i)))"

lemma absorbed_iff: "fst (absorb_inner dp r m) = Absorbed \<longleftrightarrow> accepts dp m r"
  using stash_outcome [of r m]
  by (auto simp: absorb_inner_def accepts_def key_for_def split: wire_record.splits option.splits)

definition blobs :: "membership \<Rightarrow> json set" where
  "blobs m = (\<Union>p \<in> set (sm_devices m). set (ds_unverified (snd p)))"

definition settled :: "deps \<Rightarrow> membership \<Rightarrow> bool" where
  "settled dp m \<longleftrightarrow> (\<forall>b \<in> blobs m. \<forall>r. record_from_value b = Some r \<longrightarrow> \<not> accepts dp m r)"

definition same_view :: "membership \<Rightarrow> membership \<Rightarrow> bool" where
  "same_view m m' \<longleftrightarrow>
     sm_descriptor m = sm_descriptor m' \<and> key_for m = key_for m' \<and> effective m = effective m'"

lemma accepts_view: "same_view m m' \<Longrightarrow> accepts dp m' r = accepts dp m r"
  by (auto simp: accepts_def same_view_def is_admitted_def split: wire_record.splits option.splits)

lemma settled_grow:
  assumes "settled dp m" and "same_view m m'"
    and "\<And>b. b \<in> blobs m' \<Longrightarrow> b \<in> blobs m \<or> (\<forall>r. record_from_value b = Some r \<longrightarrow> \<not> accepts dp m r)"
  shows "settled dp m'"
  using assms by (fastforce simp: settled_def accepts_view)

lemma effective_cong:
  assumes "sm_descriptor m' = sm_descriptor m"
    and "\<And>n. map_option (\<lambda>d. (ds_live d, ds_terminal d, ds_invited d, ds_floor d)) (device_of m' n) =
              map_option (\<lambda>d. (ds_live d, ds_terminal d, ds_invited d, ds_floor d)) (device_of m n) \<or>
          (case device_of m' n of None \<Rightarrow> True | Some d \<Rightarrow> ds_live d = None \<and> ds_terminal d = None \<and> ds_invited d = None) \<and>
          (case device_of m n of None \<Rightarrow> True | Some d \<Rightarrow> ds_live d = None \<and> ds_terminal d = None \<and> ds_invited d = None)"
  shows "effective m' = effective m"
proof
  fix n
  have same: "device_effective c n d = device_effective c n e"
    if "ds_live d = ds_live e" "ds_terminal d = ds_terminal e" "ds_invited d = ds_invited e"
      "ds_floor d = ds_floor e" for c d e
  proof -
    have seq: "door_seq d = door_seq e" using that by (simp add: door_seq_def)
    then have "reopened d = reopened e" "live_current d = live_current e"
      using that by (simp_all add: reopened_def live_current_def cong: option.case_cong)
    note eqs = seq that this
    show ?thesis unfolding device_effective_def door_open_def eqs ..
  qed
  have unknown: "device_effective c n d = EUnknown"
    if "ds_live d = None" "ds_terminal d = None" "ds_invited d = None" for c d
    using that by (simp add: device_effective_def live_current_def)
  let ?blank = "\<lambda>x. case x of None \<Rightarrow> True
    | Some d \<Rightarrow> ds_live d = None \<and> ds_terminal d = None \<and> ds_invited d = None"
  have unknowns: "effective k n = EUnknown" if "?blank (device_of k n)" for k
    using that unknown by (simp add: effective_def split: option.splits)
  consider (blank) "?blank (device_of m' n)" "?blank (device_of m n)"
    | (none) "device_of m' n = None" "device_of m n = None"
    | (some) d e where "device_of m' n = Some d" "device_of m n = Some e" "ds_live d = ds_live e"
        "ds_terminal d = ds_terminal e" "ds_invited d = ds_invited e" "ds_floor d = ds_floor e"
    using assms(2) [of n] by (cases "device_of m' n"; cases "device_of m n") auto
  then show "effective m' n = effective m n"
  proof cases
    case blank
    then show ?thesis by (simp only: unknowns)
  next
    case none
    then show ?thesis by (simp add: effective_def)
  next
    case (some d e)
    have "device_effective c n d = device_effective c n e" for c
      by (rule same [OF some(3-6)])
    with some(1,2) assms(1) show ?thesis by (simp add: effective_def)
  qed
qed

lemma effective_devices:
  "sm_descriptor m' = sm_descriptor m \<Longrightarrow> sm_devices m' = sm_devices m \<Longrightarrow> effective m' = effective m"
  by (intro ext) (simp add: effective_def cong: option.case_cong)

lemma key_for_devices [simp]: "key_for (m\<lparr>sm_devices := ds\<rparr>) = key_for m"
  by (simp add: key_for_def fun_eq_iff)

text \<open>Parking, emptying and dropping leave the view alone.\<close>

lemma park_frame [simp]:
  "ds_live (park v dev) = ds_live dev" "ds_terminal (park v dev) = ds_terminal dev"
  "ds_invited (park v dev) = ds_invited dev" "ds_floor (park v dev) = ds_floor dev"
  by (simp_all add: park_def)

lemma device_default_sel [simp]:
  "ds_live device_default = None" "ds_terminal device_default = None"
  "ds_invited device_default = None" "ds_floor device_default = 0"
  by (simp_all add: device_default_def)

lemma view_stash:
  assumes "bt_ok (sm_devices m)"
  shows "same_view m (snd (stash_unverified r m))"
proof -
  have "effective (snd (stash_unverified r m)) = effective m"
    by (rule effective_cong)
      (auto simp: stash_unverified_def Let_def map_of_bt_entry [OF assms] split: option.splits)
  then show ?thesis
    by (simp add: same_view_def stash_unverified_def Let_def)
qed

lemma view_remove:
  assumes "case device_of m node of None \<Rightarrow> True
    | Some dev \<Rightarrow> ds_live dev = None \<and> ds_terminal dev = None \<and> ds_invited dev = None"
  shows "same_view m (m\<lparr>sm_devices := bt_remove node (sm_devices m)\<rparr>)"
proof -
  have "effective (m\<lparr>sm_devices := bt_remove node (sm_devices m)\<rparr>) = effective m"
    by (rule effective_cong) (use assms in \<open>auto split: option.splits\<close>)
  then show ?thesis by (simp add: same_view_def)
qed

lemma blobs_stash:
  assumes "bt_ok (sm_devices m)" and "b \<in> blobs (snd (stash_unverified r m))"
  shows "b \<in> blobs m \<or> b = record_to_value r"
proof (cases "fst (stash_unverified r m) = Unverified")
  case False
  then have "snd (stash_unverified r m) = m" by (auto simp: stash_unverified_def Let_def)
  with assms(2) show ?thesis by simp
next
  case True
  then have m': "sm_devices (snd (stash_unverified r m)) =
      bt_entry (record_node_id r) device_default (park (record_to_value r)) (sm_devices m)"
    by (auto simp: stash_unverified_def Let_def)
  from assms(2) obtain p where p: "p \<in> set (sm_devices (snd (stash_unverified r m)))"
    and b: "b \<in> set (ds_unverified (snd p))" by (auto simp: blobs_def)
  from p have "map_of (sm_devices (snd (stash_unverified r m))) (fst p) = Some (snd p)"
    using assms(1) by (simp add: m' bt_ok_distinct)
  then consider "device_of m (fst p) = Some (snd p)"
    | dev where "device_of m (fst p) = Some dev" "snd p = park (record_to_value r) dev"
    | "snd p = park (record_to_value r) device_default"
    by (auto simp: m' map_of_bt_entry [OF assms(1)] split: if_splits option.splits)
  then show ?thesis
  proof cases
    case 1
    then show ?thesis using b by (force simp: blobs_def dest: map_of_SomeD)
  next
    case 2
    then have "b \<in> set (ds_unverified dev) \<or> b = record_to_value r"
      using b by (auto simp: park_def split: if_splits dest: list.set_sel(2))
        (metis list.set_sel(2) tl_Nil)
    then show ?thesis using 2(1) by (force simp: blobs_def dest: map_of_SomeD)
  next
    case 3
    then show ?thesis using b by (auto simp: park_def UNVERIFIED_CAP_def)
  qed
qed

lemma blobs_remove: "blobs (m\<lparr>sm_devices := bt_remove node (sm_devices m)\<rparr>) \<subseteq> blobs m"
  by (auto simp: blobs_def bt_remove_def)

lemma settled_stash:
  assumes "bt_ok (sm_devices m)" and "settled dp m" and "record_ok r" and "\<not> accepts dp m r"
  shows "settled dp (snd (stash_unverified r m))"
proof (rule settled_grow [OF assms(2) view_stash [OF assms(1)]])
  fix b assume "b \<in> blobs (snd (stash_unverified r m))"
  with blobs_stash [OF assms(1) this] wire_record.dec_enc [OF assms(3)] assms(4)
  show "b \<in> blobs m \<or> (\<forall>r. record_from_value b = Some r \<longrightarrow> \<not> accepts dp m r)" by auto
qed

lemma settled_remove:
  assumes "settled dp m" and "case device_of m node of None \<Rightarrow> True
    | Some dev \<Rightarrow> ds_live dev = None \<and> ds_terminal dev = None \<and> ds_invited dev = None"
  shows "settled dp (m\<lparr>sm_devices := bt_remove node (sm_devices m)\<rparr>)"
  using settled_grow [OF assms(1) view_remove [OF assms(2)]] blobs_remove by blast

lemma settled_absorb_inner:
  assumes "bt_ok (sm_devices m)" and "settled dp m" and "record_ok r"
    and "fst (absorb_inner dp r m) \<noteq> Absorbed"
  shows "settled dp (snd (absorb_inner dp r m))"
proof -
  have no: "\<not> accepts dp m r" using assms(4) absorbed_iff by blast
  have "snd (absorb_inner dp r m) = m \<or> snd (absorb_inner dp r m) = snd (stash_unverified r m)"
    using assms(4) by (auto simp: absorb_inner_def split: wire_record.splits option.splits if_splits)
  then show ?thesis using assms(2) settled_stash [OF assms(1,2,3) no] by auto
qed

lemma settled_drop_empty: "settled dp m \<Longrightarrow> settled dp (drop_empty node m)"
  using settled_remove [of dp m node]
  by (auto simp: drop_empty_def ds_is_empty_def split: option.splits)

lemma bt_ok_absorb_inner [simp]: "bt_ok (sm_devices m) \<Longrightarrow> bt_ok (sm_devices (snd (absorb_inner dp r m)))"
  by (auto simp: absorb_inner_def stash_unverified_def absorb_member_verified_def
      absorb_invited_verified_def Let_def split: wire_record.splits option.splits)

lemma bt_ok_drop_empty [simp]: "bt_ok (sm_devices m) \<Longrightarrow> bt_ok (sm_devices (drop_empty node m))"
  by (auto simp: drop_empty_def split: option.splits)

lemma bt_ok_take_parked [simp]: "bt_ok (sm_devices m) \<Longrightarrow> bt_ok (sm_devices (take_parked m))"
  by (simp add: take_parked_def bt_ok_def comp_def)

text \<open>A pass that makes no progress leaves nothing acceptable parked, so neither does the loop.\<close>

abbreviation quiet :: "deps \<Rightarrow> bool \<times> membership \<Rightarrow> bool" where
  "quiet dp st \<equiv> bt_ok (sm_devices (snd st)) \<and> (\<not> fst st \<longrightarrow> settled dp (snd st))"

lemma quiet_blob: "quiet dp st \<Longrightarrow> quiet dp (reverify_blob dp st b)"
  using settled_absorb_inner [of "snd st" dp] parsed_record_ok [of b]
  by (auto simp: reverify_blob_def case_prod_unfold split: option.splits)

lemma quiet_device: "quiet dp st \<Longrightarrow> quiet dp (reverify_device dp st p)"
  using foldl_keeps [of "quiet dp" st "reverify_blob dp" "snd p", OF _ quiet_blob]
  by (auto simp: reverify_device_def case_prod_unfold settled_drop_empty)

lemma blobs_take_parked [simp]: "blobs (take_parked m) = {}"
  by (auto simp: blobs_def take_parked_def)

lemma quiet_pass: "bt_ok (sm_devices m) \<Longrightarrow> quiet dp (reverify_pass dp m)"
  unfolding reverify_pass_def
  by (rule foldl_keeps [of "quiet dp", OF _ quiet_device]) (auto simp: settled_def)

lemma settled_reverify: "bt_ok (sm_devices m) \<Longrightarrow> settled dp (reverify dp m)"
proof (induction dp\<equiv>dp m rule: reverify.induct)
  case (1 m)
  have empty: "blobs m = {}" if "parked m = []"
    using that by (auto simp: parked_def blobs_def filter_empty_conv)
  from quiet_pass [OF 1(2), of dp] 1 empty show ?case
    by (subst reverify.simps) (auto simp: settled_def split: prod.splits)
qed

section \<open>Every operation keeps the invariant and the fixpoint\<close>

abbreviation direct_pin :: "string \<Rightarrow> pin" where
  "direct_pin key \<equiv> \<lparr>pin_key = key, pin_source = Direct\<rparr>"

lemma pin_direct_cases:
  obtains (same) p where "pin_of m node = Some p" "pin_key p = key"
      "pin_direct dp node key m =
         m\<lparr>sm_endorsements := bt_remove node (sm_endorsements m),
           sm_pins := bt_insert node (direct_pin key) (sm_pins m)\<rparr>"
  | (rotated) p where "pin_of m node = Some p" "pin_key p \<noteq> key"
      "pin_direct dp node key m = reverify dp
         (m\<lparr>sm_endorsements := bt_remove node (sm_endorsements m),
            sm_devices := bt_adjust node retire_old_key (sm_devices m),
            sm_pins := bt_insert node (direct_pin key) (sm_pins m)\<rparr>)"
  | (fresh) "pin_of m node = None"
      "pin_direct dp node key m = reverify dp
         (m\<lparr>sm_endorsements := bt_remove node (sm_endorsements m),
            sm_pins := bt_insert node (direct_pin key) (sm_pins m)\<rparr>)"
  by (cases "pin_of m node"; cases "\<exists>p. pin_of m node = Some p \<and> pin_key p = key")
    (auto simp: pin_direct_def Let_def)

definition endorsed_state :: "endorsement \<Rightarrow> membership \<Rightarrow> membership" where
  "endorsed_state e m =
     m\<lparr>sm_pins := bt_insert (en_node_id e)
          \<lparr>pin_key = en_sync_pub e, pin_source = Endorsed (en_endorsed_by e)\<rparr> (sm_pins m),
       sm_endorsements := bt_insert (en_node_id e) e (sm_endorsements m)\<rparr>"

lemma absorb_endorsement_cases:
  obtains (refused) "snd (absorb_endorsement dp e m) = m"
  | (filled) p where "pin_of m (en_endorsed_by e) = Some p" "pin_source p = Direct"
      "effective m (en_endorsed_by e) = EActive" "endorsement_verify dp (pin_key p) e"
      "pin_of m (en_node_id e) = None" "device_of m (en_node_id e) \<noteq> None"
      "snd (absorb_endorsement dp e m) = reverify dp (endorsed_state e m)"
proof (cases "\<exists>p. pin_of m (en_endorsed_by e) = Some p \<and> pin_source p = Direct \<and>
    effective m (en_endorsed_by e) = EActive \<and> endorsement_verify dp (pin_key p) e \<and>
    pin_of m (en_node_id e) = None \<and> device_of m (en_node_id e) \<noteq> None")
  case True
  then obtain p where p: "pin_of m (en_endorsed_by e) = Some p" "pin_source p = Direct"
    "effective m (en_endorsed_by e) = EActive" "endorsement_verify dp (pin_key p) e"
    "pin_of m (en_node_id e) = None" "device_of m (en_node_id e) \<noteq> None" by blast
  then have "snd (absorb_endorsement dp e m) = reverify dp (endorsed_state e m)"
    by (auto simp: absorb_endorsement_def endorsed_state_def)
  with p show ?thesis by (rule filled)
next
  case False
  then have "snd (absorb_endorsement dp e m) = m"
    by (auto simp: absorb_endorsement_def split: option.splits)
  then show ?thesis by (rule refused)
qed

lemma absorb_record_state:
  "snd (absorb_record dp r m) =
     (if accepts dp m r then reverify dp (snd (absorb_inner dp r m)) else snd (absorb_inner dp r m))"
  by (auto simp: absorb_record_def case_prod_unfold absorbed_iff)

lemma membership_ok_pins:
  assumes "membership_ok m" and "valid_node_id node"
  shows "membership_ok (m\<lparr>sm_endorsements := bt_remove node (sm_endorsements m),
    sm_pins := bt_insert node p (sm_pins m)\<rparr>)"
  using assms set_bt_insert [of node p "sm_pins m"]
  by (fastforce simp: membership_ok_def bt_remove_def bt_ok_remove [unfolded bt_remove_def])

lemma membership_ok_adjust:
  assumes "membership_ok m"
  shows "membership_ok (m\<lparr>sm_devices := bt_adjust node retire_old_key (sm_devices m)\<rparr>)"
  using assms device_ok_retire by (fastforce simp: membership_ok_def bt_adjust_def [of node _ "sm_devices m"]
      simp flip: bt_ok_adjust [of node retire_old_key "sm_devices m"])

lemma membership_ok_endorsed:
  assumes "membership_ok m" and "endorsement_ok e"
  shows "membership_ok (endorsed_state e m)"
proof -
  have node: "valid_node_id (en_node_id e)" using assms(2) by (simp add: endorsement_ok_def)
  show ?thesis
    using assms node set_bt_insert [of "en_node_id e" _ "sm_pins m"]
      set_bt_insert [of "en_node_id e" e "sm_endorsements m"]
    by (fastforce simp: membership_ok_def endorsed_state_def)
qed

lemma membership_ok_op:
  assumes "membership_ok m" and "op_parsed op"
  shows "membership_ok (apply_op dp m op)"
proof (cases op)
  case (PinDirect node key)
  then have node: "valid_node_id node" using assms(2) by simp
  have "membership_ok (pin_direct dp node key m)"
  proof (cases rule: pin_direct_cases [of m node key dp])
    case (same p)
    then show ?thesis using membership_ok_pins [OF assms(1) node] by simp
  next
    case (rotated p)
    have commute: "m\<lparr>sm_endorsements := es, sm_devices := ds, sm_pins := ps\<rparr> =
        m\<lparr>sm_devices := ds, sm_endorsements := es, sm_pins := ps\<rparr>" for ds es ps
      by (cases m) simp
    have "membership_ok (reverify dp
        (m\<lparr>sm_devices := bt_adjust node retire_old_key (sm_devices m),
           sm_endorsements := bt_remove node (sm_endorsements m),
           sm_pins := bt_insert node (direct_pin key) (sm_pins m)\<rparr>))"
      using membership_ok_reverify [OF membership_ok_pins [OF membership_ok_adjust [OF assms(1)] node]]
      by simp
    then show ?thesis unfolding rotated(3) commute .
  next
    case fresh
    then show ?thesis using membership_ok_reverify [OF membership_ok_pins [OF assms(1) node]] by simp
  qed
  with PinDirect show ?thesis by simp
next
  case (AbsorbRecord r)
  then have "membership_ok (snd (absorb_inner dp r m))"
    using assms membership_ok_absorb_inner by simp
  with AbsorbRecord show ?thesis by (simp add: absorb_record_state membership_ok_reverify)
next
  case (AbsorbEndorsement e)
  have "membership_ok (snd (absorb_endorsement dp e m))"
    by (cases rule: absorb_endorsement_cases [of dp e m])
      (use assms AbsorbEndorsement in \<open>auto simp: membership_ok_reverify membership_ok_endorsed\<close>)
  with AbsorbEndorsement show ?thesis by simp
next
  case (DropStranger node)
  with assms show ?thesis
    by (auto simp: drop_stranger_def membership_ok_drop_device split: option.splits)
qed

lemma settled_op:
  assumes m: "membership_ok m" and "settled dp m" and "op_parsed op"
  shows "settled dp (apply_op dp m op)"
proof (cases op)
  case (PinDirect node key)
  have bt: "bt_ok (sm_devices m)" using m by (simp add: membership_ok_def)
  have "settled dp (pin_direct dp node key m)"
  proof (cases rule: pin_direct_cases [of m node key dp])
    case (same p)
    have "same_view m (pin_direct dp node key m)"
      using same(1,2) unfolding same(3) same_view_def
      by (auto simp: key_for_def fun_eq_iff intro!: fun_cong [OF effective_devices])
    then show ?thesis
      using settled_grow [OF assms(2), of "pin_direct dp node key m"] by (simp add: same(3) blobs_def)
  qed (use bt in \<open>auto intro!: settled_reverify\<close>)
  with PinDirect show ?thesis by simp
next
  case (AbsorbRecord r)
  then show ?thesis
    using m assms(2,3) settled_absorb_inner [of m dp r] settled_reverify [OF bt_ok_absorb_inner]
    by (auto simp: absorb_record_state absorbed_iff membership_ok_def)
next
  case (AbsorbEndorsement e)
  have "settled dp (snd (absorb_endorsement dp e m))"
    by (cases rule: absorb_endorsement_cases [of dp e m])
      (use m assms(2) in \<open>auto simp: endorsed_state_def membership_ok_def intro!: settled_reverify\<close>)
  with AbsorbEndorsement show ?thesis by simp
next
  case (DropStranger node)
  with assms show ?thesis
    using settled_remove [of dp m node] by (auto simp: drop_stranger_def split: option.splits)
qed

interpretation membership_run: op_invariant "apply_op dp" op_parsed "\<lambda>m. membership_ok m \<and> settled dp m" for dp
  by unfold_locales (auto intro: membership_ok_op settled_op)

lemma membership_ok_new: "descriptor_ok d \<Longrightarrow> membership_ok (membership_new d) \<and> settled dp (membership_new d)"
  by (simp add: membership_ok_def membership_new_def settled_def blobs_def)

lemma slots_reachable:
  assumes "device_ok sid node dev"
  shows "device_effective c node dev \<noteq> EUnreachable"
  using device_ok_slots [OF assms]
  by (auto simp: device_effective_def live_current_def is_terminal_def pred_option_def
      split: option.splits member_status.splits)

section \<open>The door over a run\<close>

lemma slot_seq_keep: "slot_seq h \<le> slot_seq (keep_newest member_beats h r)"
  by (auto simp: keep_newest_def slot_seq_def member_beats_def split: option.splits)

lemma door_seq_hold [simp]:
  "door_seq dev \<le> door_seq (hold_member r dev)" "door_seq (hold_invited i dev) = door_seq dev"
  "door_seq (park v dev) = door_seq dev" "door_seq (retire_old_key dev) = door_seq dev"
  "door_seq (dev\<lparr>ds_unverified := us\<rparr>) = door_seq dev"
  using slot_seq_keep [of "ds_terminal dev" r]
  by (auto simp: door_seq_def hold_member_def hold_invited_def retire_old_key_def Let_def slot_seq_def
      [of None])

lemma door_seq_default [simp]: "door_seq device_default = 0"
  by (simp add: door_seq_def slot_seq_def)

definition door_at_least :: "string \<Rightarrow> nat \<Rightarrow> membership \<Rightarrow> bool" where
  "door_at_least n s m \<longleftrightarrow> bt_ok (sm_devices m) \<and> s \<le> terminal_seq_of m n"

lemma absorb_inner_cases:
  obtains (kept) "snd (absorb_inner dp r m) = m"
  | (stashed) "snd (absorb_inner dp r m) = snd (stash_unverified r m)"
  | (member) x where "r = Member x" "member_verify dp x"
      "mr_set_id x = sd_set_id (sm_descriptor m)" "key_for m (mr_node_id x) = Some (mr_sync_pub x)"
      "snd (absorb_inner dp r m) = absorb_member_verified x m"
  | (invited) i k where "r = Invited i" "key_for m (ir_invited_by i) = Some k"
      "ir_set_id i = sd_set_id (sm_descriptor m)" "invited_verify dp k i"
      "is_admitted m (ir_invited_by i)" "snd (absorb_inner dp r m) = absorb_invited_verified i m"
proof (cases "accepts dp m r")
  case False
  then have "snd (absorb_inner dp r m) = m \<or> snd (absorb_inner dp r m) = snd (stash_unverified r m)"
    by (auto simp: absorb_inner_def accepts_def key_for_def split: wire_record.splits option.splits)
  with kept stashed show ?thesis by blast
next
  case True
  then show ?thesis
    using member invited
    by (auto simp: absorb_inner_def accepts_def key_for_def split: wire_record.splits option.splits)
qed

lemma door_entry:
  assumes "door_at_least n s m" and "\<And>dev. door_seq dev \<le> door_seq (f dev)"
  shows "door_at_least n s (m\<lparr>sm_devices := bt_entry node device_default f (sm_devices m)\<rparr>)"
  using assms(1) le_trans [OF _ assms(2)] le_trans [OF _ assms(2) [of device_default]]
  by (auto simp: door_at_least_def terminal_seq_of_def map_of_bt_entry split: option.splits)

lemma door_absorb_inner:
  assumes "door_at_least n s m"
  shows "door_at_least n s (snd (absorb_inner dp r m))"
proof -
  have stash: "door_at_least n s (snd (stash_unverified r m))"
    using door_entry [OF assms, of "park (record_to_value r)" "record_node_id r"] assms
    by (simp add: stash_unverified_def Let_def)
  have member: "door_at_least n s (absorb_member_verified x m)" for x
    using door_entry [OF assms, of "hold_member x" "mr_node_id x"] by (simp add: absorb_member_verified_def)
  have invited: "door_at_least n s (absorb_invited_verified i m)" for i
    using door_entry [OF assms, of "hold_invited i" "ir_node_id i"] by (simp add: absorb_invited_verified_def)
  show ?thesis
    by (cases rule: absorb_inner_cases [of dp r m]) (use assms stash member invited in simp_all)
qed

lemma map_of_take: "device_of (take_parked m) n = map_option (\<lambda>d. d\<lparr>ds_unverified := []\<rparr>) (device_of m n)"
proof -
  have "map_of (map (\<lambda>p. (fst p, snd p\<lparr>ds_unverified := []\<rparr>)) ds) n =
      map_option (\<lambda>d. d\<lparr>ds_unverified := []\<rparr>) (map_of ds n)" for ds :: "(string \<times> device_state) list"
    by (induction ds) auto
  then show ?thesis by (simp add: take_parked_def)
qed

lemma door_take: "door_at_least n s m \<Longrightarrow> door_at_least n s (take_parked m)"
  by (auto simp: door_at_least_def terminal_seq_of_def map_of_take split: option.splits)

lemma door_drop_empty: "door_at_least n s m \<Longrightarrow> door_at_least n s (drop_empty node m)"
  using bt_ok_drop_empty [of m node]
  by (auto simp: door_at_least_def drop_empty_def ds_is_empty_def terminal_seq_of_def door_seq_def
      slot_seq_def split: option.splits)

lemma door_reverify: "door_at_least n s m \<Longrightarrow> door_at_least n s (reverify dp m)"
  by (rule reverify_keeps) (auto intro: door_take door_absorb_inner door_drop_empty)

lemma door_op:
  assumes m: "door_at_least n s m" and op: "op \<noteq> DropStranger n"
  shows "door_at_least n s (apply_op dp m op)"
proof (cases op)
  case (PinDirect node key)
  have pins: "door_at_least n s (m\<lparr>sm_endorsements := es, sm_pins := ps\<rparr>)" for es ps
    using m by (simp add: door_at_least_def terminal_seq_of_def)
  have retired: "door_at_least n s (m\<lparr>sm_endorsements := es,
      sm_devices := bt_adjust node retire_old_key (sm_devices m), sm_pins := ps\<rparr>)" for es ps
    using m by (auto simp: door_at_least_def terminal_seq_of_def map_of_bt_adjust split: option.splits)
  have "door_at_least n s (pin_direct dp node key m)"
    by (cases rule: pin_direct_cases [of m node key dp])
      (use pins retired door_reverify in simp_all)
  with PinDirect show ?thesis by simp
next
  case (AbsorbRecord r)
  then show ?thesis
    using door_absorb_inner [OF m, of dp r] door_reverify by (simp add: absorb_record_state)
next
  case (AbsorbEndorsement e)
  have "door_at_least n s (endorsed_state e m)"
    using m by (simp add: endorsed_state_def door_at_least_def terminal_seq_of_def)
  from door_reverify [OF this] m have "door_at_least n s (snd (absorb_endorsement dp e m))"
    by (cases rule: absorb_endorsement_cases [of dp e m]) simp_all
  with AbsorbEndorsement show ?thesis by simp
next
  case (DropStranger node)
  with op m show ?thesis
    by (auto simp: drop_stranger_def door_at_least_def terminal_seq_of_def split: option.splits)
qed

lemma door_run:
  "door_at_least n s m \<Longrightarrow> DropStranger n \<notin> set ops \<Longrightarrow> door_at_least n s (foldl (apply_op dp) m ops)"
proof (induction ops arbitrary: m)
  case Nil
  then show ?case by simp
next
  case (Cons op ops)
  have "door_at_least n s (apply_op dp m op)" using Cons.prems by (intro door_op) auto
  with Cons.IH [OF this] Cons.prems show ?case by simp
qed

lemma admitted_door:
  assumes "is_admitted m n"
  obtains dev where "device_of m n = Some dev" "live_current dev"
    "door_open (sd_created_by (sm_descriptor m)) n dev"
  using assms
  by (auto simp: is_admitted_def effective_def device_effective_def
      split: option.splits if_splits member_status.splits)

section \<open>Admission is rooted at the creator\<close>

text \<open>
  \<open>vouched\<close> holds of the creator and of every node that a vouched node invited, with an invitation
  for this set that verifies under a key the inviter was bound to at some point.
\<close>

inductive vouched :: "deps \<Rightarrow> string \<Rightarrow> (string \<Rightarrow> string \<Rightarrow> bool) \<Rightarrow> string \<Rightarrow> string \<Rightarrow> bool"
  for dp sid bound creator where
  creator: "vouched dp sid bound creator creator"
| invitee: "vouched dp sid bound creator (ir_invited_by i) \<Longrightarrow> bound (ir_invited_by i) k \<Longrightarrow>
     invited_verify dp k i \<Longrightarrow> ir_set_id i = sid \<Longrightarrow> vouched dp sid bound creator (ir_node_id i)"

definition chained ::
  "string \<Rightarrow> string \<Rightarrow> (string \<Rightarrow> string \<Rightarrow> bool) \<Rightarrow> (string \<Rightarrow> bool) \<Rightarrow> membership \<Rightarrow> bool" where
  "chained sid creator bound ok m \<longleftrightarrow>
     bt_ok (sm_devices m) \<and> sd_set_id (sm_descriptor m) = sid \<and>
     sd_created_by (sm_descriptor m) = creator \<and>
     (\<forall>n k. key_for m n = Some k \<longrightarrow> bound n k) \<and>
     (\<forall>n dev. device_of m n = Some dev \<longrightarrow> ds_invited dev \<noteq> None \<longrightarrow> ok n)"

text \<open>The contract of a set of nodes closed under verified invitations.\<close>

locale invitation_closure =
  fixes dp :: deps and sid :: string and creator :: string
    and bound :: "string \<Rightarrow> string \<Rightarrow> bool" and ok :: "string \<Rightarrow> bool"
  assumes root: "ok creator"
    and invite: "ok (ir_invited_by i) \<Longrightarrow> bound (ir_invited_by i) k \<Longrightarrow> invited_verify dp k i \<Longrightarrow>
                 ir_set_id i = sid \<Longrightarrow> ok (ir_node_id i)"
begin

lemma admitted_ok:
  assumes "chained sid creator bound ok m" and "is_admitted m n"
  shows "ok n"
proof -
  obtain dev where "device_of m n = Some dev" "door_open (sd_created_by (sm_descriptor m)) n dev"
    using admitted_door [OF assms(2)] by blast
  with assms(1) root show ?thesis
    by (auto simp: chained_def door_open_def reopened_def split: option.splits)
qed

lemma chained_entry:
  assumes "chained sid creator bound ok m" and "\<And>dev. ds_invited (f dev) = ds_invited dev \<or> ok node"
  shows "chained sid creator bound ok
    (m\<lparr>sm_devices := bt_entry node device_default f (sm_devices m)\<rparr>)"
  using assms(1) assms(2) [of device_default] assms(2)
  by (auto simp: chained_def map_of_bt_entry split: if_splits option.splits) metis+

lemma chained_absorb_inner:
  assumes m: "chained sid creator bound ok m"
  shows "chained sid creator bound ok (snd (absorb_inner dp r m))"
proof (cases rule: absorb_inner_cases [of dp r m])
  case kept
  with m show ?thesis by simp
next
  case stashed
  then show ?thesis
    using m chained_entry [OF m, of "park (record_to_value r)" "record_node_id r"]
    by (simp add: stash_unverified_def Let_def)
next
  case (member x)
  then show ?thesis
    using chained_entry [OF m, of "hold_member x" "mr_node_id x"]
    by (simp add: absorb_member_verified_def hold_member_def Let_def)
next
  case (invited i k)
  have "ok (ir_node_id i)"
  proof (rule invite)
    show "ok (ir_invited_by i)" using admitted_ok [OF m invited(5)] .
    show "bound (ir_invited_by i) k" using m invited(2) by (simp add: chained_def)
    show "ir_set_id i = sid" using m invited(3) by (simp add: chained_def)
  qed (rule invited(4))
  then show ?thesis
    using chained_entry [OF m, of "hold_invited i" "ir_node_id i"] invited(6)
    by (simp add: absorb_invited_verified_def)
qed

lemma chained_reverify: "chained sid creator bound ok m \<Longrightarrow> chained sid creator bound ok (reverify dp m)"
proof (rule reverify_keeps)
  fix m assume "chained sid creator bound ok m"
  then show "chained sid creator bound ok (take_parked m)"
    using bt_ok_take_parked [of m] by (auto simp: chained_def map_of_take key_for_def)
next
  fix m node assume "chained sid creator bound ok m"
  then show "chained sid creator bound ok (drop_empty node m)"
    by (auto simp: chained_def drop_empty_def split: option.splits)
qed (rule chained_absorb_inner)

lemma chained_op:
  assumes m: "chained sid creator bound ok m"
    and keys: "\<And>n k. key_for (apply_op dp m op) n = Some k \<Longrightarrow> bound n k"
  shows "chained sid creator bound ok (apply_op dp m op)"
proof (cases op)
  case (PinDirect node key)
  note pinned = keys [unfolded PinDirect apply_op.simps]
  show ?thesis unfolding PinDirect apply_op.simps
  proof (cases rule: pin_direct_cases [of m node key dp])
    case (same p)
    then show "chained sid creator bound ok (pin_direct dp node key m)"
      using m pinned by (simp add: chained_def key_for_def)
  next
    case (rotated p)
    show "chained sid creator bound ok (pin_direct dp node key m)"
      unfolding rotated(3)
      using m pinned [unfolded rotated(3)]
      by (intro chained_reverify)
        (auto simp: chained_def key_for_def map_of_bt_adjust retire_old_key_def)
  next
    case fresh
    show "chained sid creator bound ok (pin_direct dp node key m)"
      unfolding fresh(2) using m pinned [unfolded fresh(2)]
      by (intro chained_reverify) (auto simp: chained_def key_for_def)
  qed
next
  case (AbsorbRecord r)
  then show ?thesis
    using chained_absorb_inner [OF m, of r] chained_reverify by (simp add: absorb_record_state)
next
  case (AbsorbEndorsement e)
  note bound = keys [unfolded AbsorbEndorsement apply_op.simps]
  show ?thesis unfolding AbsorbEndorsement apply_op.simps
  proof (cases rule: absorb_endorsement_cases [of dp e m])
    case refused
    with m show "chained sid creator bound ok (snd (absorb_endorsement dp e m))" by simp
  next
    case (filled p)
    show "chained sid creator bound ok (snd (absorb_endorsement dp e m))"
      unfolding filled(7) using m bound [unfolded filled(7)]
      by (intro chained_reverify) (auto simp: chained_def key_for_def endorsed_state_def)
  qed
next
  case (DropStranger node)
  with m show ?thesis by (auto simp: chained_def drop_stranger_def split: option.splits)
qed

end

interpretation vouched: invitation_closure dp sid creator bound "vouched dp sid bound creator"
  for dp sid creator bound
  by unfold_locales (auto intro: vouched.intros)

fun run_states :: "deps \<Rightarrow> membership \<Rightarrow> membership_op list \<Rightarrow> membership list" where
  "run_states dp m [] = [m]"
| "run_states dp m (op # ops) = m # run_states dp (apply_op dp m op) ops"

lemma run_states_start: "m \<in> set (run_states dp m ops)"
  by (cases ops) auto

lemma chained_run:
  assumes "chained sid creator bound (vouched dp sid bound creator) m"
    and "\<And>s n k. s \<in> set (run_states dp m ops) \<Longrightarrow> key_for s n = Some k \<Longrightarrow> bound n k"
  shows "chained sid creator bound (vouched dp sid bound creator) (foldl (apply_op dp) m ops)"
  using assms
proof (induction ops arbitrary: m)
  case Nil
  then show ?case by simp
next
  case (Cons op ops)
  have "chained sid creator bound (vouched dp sid bound creator) (apply_op dp m op)"
    using Cons.prems(2) [of "apply_op dp m op"] run_states_start [of "apply_op dp m op" dp ops]
    by (intro vouched.chained_op [OF Cons.prems(1)]) auto
  with Cons show ?case by auto
qed

section \<open>Sample states\<close>

abbreviation node_a :: string where "node_a \<equiv> replicate 64 CHR ''a''"
abbreviation node_b :: string where "node_b \<equiv> replicate 64 CHR ''b''"

definition sample_set :: set_descriptor where
  "sample_set = \<lparr>sd_set_id = replicate 22 CHR ''A'', sd_kind = SDir, sd_name = ''Projects'',
     sd_created_by = node_a, sd_created_at = 1000, sd_sig = replicate 128 CHR ''f''\<rparr>"

definition sample_pin :: membership_op where
  "sample_pin = PinDirect node_a (mr_sync_pub sample_member)"

definition sample_run :: "membership_op list" where
  "sample_run = [sample_pin, AbsorbRecord (Member sample_member)]"

lemma sample_member_sel [simp]:
  "mr_node_id sample_member = node_a" "mr_set_id sample_member = sd_set_id sample_set"
  "mr_status sample_member = Active" "mr_seq sample_member = 3"
  by (simp_all add: sample_member_def sample_set_def)

lemma sample_created_by [simp]: "sd_created_by sample_set = node_a"
  by (simp add: sample_set_def)

lemma sample_node [simp]: "valid_node_id node_a" "valid_node_id node_b"
  by (simp_all add: valid_node_id_def lower_hex_def list_all_iff is_lower_hex_def is_digit_def)

lemma sample_set_ok: "descriptor_ok sample_set"
  by (simp add: descriptor_ok_def sample_set_def valid_set_id_def valid_sig_def lower_hex_def
      list_all_iff is_alnum_def is_lower_hex_def is_digit_def NAME_MAX_BYTES_def valid_node_id_def)

lemma sample_variant: "member_ok (sample_member\<lparr>mr_status := st, mr_seq := 7\<rparr>)"
  using sample_member_ok by (simp add: member_ok_def SEQ_MAX_def)

lemma reverify_nothing: "parked m = [] \<Longrightarrow> reverify dp m = m"
  by (simp add: reverify.simps)

lemma sample_pinned:
  "apply_op dp (membership_new d) sample_pin =
     (membership_new d)\<lparr>sm_pins := [(node_a, direct_pin (mr_sync_pub sample_member))]\<rparr>"
  by (simp add: sample_pin_def pin_direct_def membership_new_def bt_remove_def reverify_nothing parked_def)

lemma sample_ran:
  "foldl (apply_op sample_deps) (membership_new sample_set) sample_run =
     (membership_new sample_set)\<lparr>
       sm_devices := [(node_a, device_default\<lparr>ds_live := Some sample_member, ds_max_seq := 3\<rparr>)],
       sm_pins := [(node_a, direct_pin (mr_sync_pub sample_member))]\<rparr>"
  using sample_member_verifies [OF sample_member_ok]
  unfolding sample_run_def foldl.simps sample_pinned apply_op.simps
  by (simp add: absorb_record_state accepts_def key_for_def membership_new_def absorb_inner_def
      absorb_member_verified_def reverify_nothing parked_def hold_member_def is_terminal_def
      keep_newest_def device_default_def)

lemma sample_admitted: "is_admitted (foldl (apply_op sample_deps) (membership_new sample_set) sample_run) node_a"
  unfolding sample_ran
  by (simp add: membership_new_def is_admitted_def effective_def device_effective_def live_current_def
      door_open_def door_seq_def slot_seq_def)

section \<open>Properties\<close>

text \<open>
  C9. Every run of membership operations on parsed input keeps the state well formed: live records
  in the live slot, terminal ones in the terminal slot, each filed under its own device and set and
  within the integer bounds, at most eight parked records per device; so \<open>effective\<close> never reaches
  its \<open>unreachable!\<close> arms.
\<close>

theorem runs_stay_well_formed:
  assumes "descriptor_ok d" and "list_all op_parsed ops"
  shows "membership_ok (foldl (apply_op dp) (membership_new d) ops) \<and>
    effective (foldl (apply_op dp) (membership_new d) ops) n \<noteq> EUnreachable"
proof -
  let ?m = "foldl (apply_op dp) (membership_new d) ops"
  have ok: "membership_ok ?m"
    using membership_run.run [OF membership_ok_new [OF assms(1)] assms(2)] by blast
  have "device_ok (sd_set_id (sm_descriptor ?m)) n dev" if "device_of ?m n = Some dev" for dev
    using ok map_of_SomeD [OF that] by (fastforce simp: membership_ok_def)
  then have "effective ?m n \<noteq> EUnreachable"
    using slots_reachable by (auto simp: effective_def split: option.splits)
  with ok show ?thesis by blast
qed

lemma runs_stay_well_formed_witness:
  "membership_ok (foldl (apply_op sample_deps) (membership_new sample_set) sample_run)"
  using runs_stay_well_formed [OF sample_set_ok, of sample_run] sample_member_ok
  by (simp add: sample_run_def sample_pin_def)

text \<open>
  C10. Ordering never loses a legitimate member: after any run, a record still parked is one that
  the bindings and admissions of that moment do not accept, however the pages arrived.
\<close>

theorem parked_only_while_unacceptable:
  assumes "descriptor_ok d" and "list_all op_parsed ops"
    and "m = foldl (apply_op dp) (membership_new d) ops"
    and "device_of m n = Some dev" and "v \<in> set (ds_unverified dev)" and "record_from_value v = Some r"
  shows "fst (absorb_record dp r m) \<noteq> Absorbed"
proof -
  have "settled dp m"
    using membership_run.run [OF membership_ok_new [OF assms(1)] assms(2)] assms(3) by blast
  moreover have "v \<in> blobs m"
    using assms(5) map_of_SomeD [OF assms(4)] by (force simp: blobs_def)
  ultimately have "\<not> accepts dp m r" using assms(6) by (auto simp: settled_def)
  then show ?thesis by (simp add: absorb_record_def case_prod_unfold absorbed_iff)
qed

lemma parked_only_while_unacceptable_witness:
  "fst (absorb_record sample_deps (Member sample_member)
     (foldl (apply_op sample_deps) (membership_new sample_set) [AbsorbRecord (Member sample_member)])) \<noteq> Absorbed"
proof -
  have state: "foldl (apply_op sample_deps) (membership_new sample_set) [AbsorbRecord (Member sample_member)] =
      (membership_new sample_set)\<lparr>sm_devices :=
        [(node_a, device_default\<lparr>ds_unverified := [member_to_value sample_member]\<rparr>)]\<rparr>"
    using sample_member_verifies [OF sample_member_ok]
    by (simp add: absorb_record_state accepts_def key_for_def membership_new_def absorb_inner_def
        stash_unverified_def park_def DEVICE_CAP_def UNVERIFIED_CAP_def device_default_def)
  have parse: "record_from_value (member_to_value sample_member) = Some (Member sample_member)"
    using wire_record.dec_enc [of "Member sample_member"] sample_member_ok by simp
  show ?thesis
    by (rule parked_only_while_unacceptable [OF sample_set_ok _ refl, of _ _ node_a
          "device_default\<lparr>ds_unverified := [member_to_value sample_member]\<rparr>"
          "member_to_value sample_member"])
      (use sample_member_ok parse in \<open>simp_all only: state, simp_all\<close>)
qed

text \<open>
  C11. Admission is rooted at the creator: after any run, an admitted device is the creator or at
  the end of a chain of invitations for this set, each verified under a key its inviter was bound to
  in some state of the run, and each signed by a device that is itself on the chain.
\<close>

theorem admission_is_rooted:
  assumes "is_admitted (foldl (apply_op dp) (membership_new d) ops) n"
  shows "vouched dp (sd_set_id d)
    (\<lambda>n k. \<exists>s \<in> set (run_states dp (membership_new d) ops). key_for s n = Some k) (sd_created_by d) n"
proof (rule vouched.admitted_ok [OF chained_run assms])
  show "chained (sd_set_id d) (sd_created_by d)
     (\<lambda>n k. \<exists>s \<in> set (run_states dp (membership_new d) ops). key_for s n = Some k)
     (vouched dp (sd_set_id d)
       (\<lambda>n k. \<exists>s \<in> set (run_states dp (membership_new d) ops). key_for s n = Some k) (sd_created_by d))
     (membership_new d)"
    by (simp add: chained_def membership_new_def key_for_def)
qed blast

text \<open>
  C12. Only direct contact creates or replaces a binding: when an operation changes the pin of a
  device, either the operation is that device's own direct contact, or the device had no pin and
  the operation is an endorsement of it that verifies under the direct pin of an active member.
\<close>

theorem only_contact_replaces_a_pin:
  assumes "pin_of (apply_op dp m op) n \<noteq> pin_of m n"
  shows "(\<exists>key. op = PinDirect n key \<and> pin_of (apply_op dp m op) n = Some (direct_pin key)) \<or>
    (\<exists>e p. op = AbsorbEndorsement e \<and> en_node_id e = n \<and> pin_of m n = None \<and>
       pin_of m (en_endorsed_by e) = Some p \<and> pin_source p = Direct \<and>
       effective m (en_endorsed_by e) = EActive \<and> endorsement_verify dp (pin_key p) e)"
proof (cases op)
  case (PinDirect node key)
  show ?thesis
    using assms unfolding PinDirect apply_op.simps
    by (cases rule: pin_direct_cases [of m node key dp]) (auto split: if_splits)
next
  case (AbsorbRecord r)
  then show ?thesis using assms by (simp add: absorb_record_state split: if_splits)
next
  case (AbsorbEndorsement e)
  show ?thesis
    using assms unfolding AbsorbEndorsement apply_op.simps
    by (cases rule: absorb_endorsement_cases [of dp e m]) (auto simp: endorsed_state_def split: if_splits)
next
  case (DropStranger node)
  then show ?thesis using assms by (simp add: drop_stranger_def split: option.splits if_splits)
qed

lemma only_contact_replaces_a_pin_witness:
  "pin_of (apply_op sample_deps (membership_new sample_set) sample_pin) node_a =
     Some (direct_pin (mr_sync_pub sample_member))"
  using only_contact_replaces_a_pin [of sample_deps "membership_new sample_set" sample_pin node_a]
  by (simp add: sample_pinned)

lemma admission_is_rooted_witness:
  "vouched sample_deps (sd_set_id sample_set)
    (\<lambda>n k. \<exists>s \<in> set (run_states sample_deps (membership_new sample_set) sample_run). key_for s n = Some k)
    node_a node_a"
  using admission_is_rooted [OF sample_admitted] by simp

text \<open>
  \<open>left\<close> and \<open>declined\<close> are binding: once a terminal record with a positive seq is held about a
  device, then after any further operations other than forgetting that device, key rotations
  included, the device is admitted only behind an invitation that supersedes that seq.
\<close>

theorem terminal_is_binding:
  assumes "membership_ok m" and "device_of m n = Some dev" and "ds_terminal dev = Some t"
    and "0 < mr_seq t" and "DropStranger n \<notin> set ops"
    and "is_admitted (foldl (apply_op dp) m ops) n"
  shows "\<exists>dev' i. device_of (foldl (apply_op dp) m ops) n = Some dev' \<and> ds_invited dev' = Some i \<and>
    mr_seq t \<le> ir_supersedes_seq i"
proof -
  have "door_at_least n (mr_seq t) m"
    using assms(1-3) by (simp add: door_at_least_def membership_ok_def terminal_seq_of_def
        door_seq_def slot_seq_def)
  from door_run [OF this assms(5)]
  have "mr_seq t \<le> terminal_seq_of (foldl (apply_op dp) m ops) n" by (simp add: door_at_least_def)
  with assms(4) admitted_door [OF assms(6)] show ?thesis
    by (fastforce simp: terminal_seq_of_def door_open_def reopened_def split: option.splits)
qed

definition reinvited :: membership where
  "reinvited = (membership_new sample_set)\<lparr>sm_devices :=
     [(node_a, \<lparr>ds_live = Some (sample_member\<lparr>mr_seq := 7\<rparr>),
        ds_terminal = Some (sample_member\<lparr>mr_status := Left\<rparr>),
        ds_invited = Some \<lparr>ir_set_id = sd_set_id sample_set, ir_node_id = node_a, ir_invited_by = node_b,
          ir_supersedes_seq = 3, ir_at = 2000, ir_sig = mr_sig sample_member\<rparr>,
        ds_floor = 0, ds_max_seq = 7, ds_unverified = []\<rparr>)]\<rparr>"

lemma terminal_is_binding_witness:
  "\<exists>dev i. device_of (foldl (apply_op sample_deps) reinvited [DropStranger node_b]) node_a = Some dev \<and>
     ds_invited dev = Some i \<and> 3 \<le> ir_supersedes_seq i"
proof -
  have ok: "membership_ok reinvited"
    using sample_member_ok sample_set_ok
    by (simp add: membership_ok_def reinvited_def membership_new_def device_ok_def held_ok_def member_ok_def
        invited_ok_def is_terminal_def SEQ_MAX_def UNVERIFIED_CAP_def bt_ok_def)
  have admitted: "is_admitted (foldl (apply_op sample_deps) reinvited [DropStranger node_b]) node_a"
    by (simp add: reinvited_def drop_stranger_def membership_new_def is_admitted_def effective_def
        device_effective_def live_current_def door_open_def reopened_def door_seq_def slot_seq_def
        member_beats_def)
  have "\<exists>dev i. device_of (foldl (apply_op sample_deps) reinvited [DropStranger node_b]) node_a = Some dev \<and>
      ds_invited dev = Some i \<and> mr_seq (sample_member\<lparr>mr_status := Left\<rparr>) \<le> ir_supersedes_seq i"
    by (rule terminal_is_binding [OF ok _ _ _ _ admitted]) (simp add: reinvited_def, simp_all)
  then show ?thesis by simp
qed

text \<open>
  Forgetting a stranger reopens the door. The creator signed \<open>left\<close>, then contacted us with a
  new key, which retires the record and keeps its seq as the floor: its new \<open>active\<close> is not admitted.
  When that same contact carries the no-membership marker, \<open>drop_stranger\<close> removes the device state
  with its floor, and the same \<open>active\<close> is admitted through the first-join exception, with no
  invitation at all.
\<close>

theorem marker_reopens_the_door:
  assumes "member_verify dp l" "mr_status l = Left" "mr_node_id l = c" "mr_set_id l = sd_set_id d"
    and "member_verify dp a" "mr_status a = Active" "mr_node_id a = c" "mr_set_id a = sd_set_id d"
    and "sd_created_by d = c" "mr_sync_pub l \<noteq> mr_sync_pub a" "0 < mr_seq l"
    and m: "m = foldl (apply_op dp) (membership_new d)
      [PinDirect c (mr_sync_pub l), AbsorbRecord (Member l), PinDirect c (mr_sync_pub a)]"
  shows "\<not> is_admitted (foldl (apply_op dp) m [AbsorbRecord (Member a)]) c \<and>
    is_admitted (foldl (apply_op dp) m [DropStranger c, AbsorbRecord (Member a)]) c"
proof -
  define held where "held = device_default\<lparr>ds_terminal := Some l, ds_max_seq := mr_seq l\<rparr>"
  define kept where "kept = device_default\<lparr>ds_floor := mr_seq l, ds_max_seq := mr_seq l\<rparr>"
  let ?m = "\<lambda>ds k. (membership_new d)\<lparr>sm_devices := ds, sm_pins := [(c, direct_pin k)]\<rparr>"
  have quiet: "parked (?m [] k) = []" "parked (?m [(c, dev)] k) = []" if "ds_unverified dev = []" for k dev
    using that by (simp_all add: parked_def)
  have m1: "pin_direct dp c k (membership_new d) = ?m [] k" for k
    using quiet(1) by (simp add: pin_direct_def membership_new_def bt_remove_def reverify_nothing parked_def)
  have m2: "snd (absorb_record dp (Member l) (?m [] (mr_sync_pub l))) = ?m [(c, held)] (mr_sync_pub l)"
    using assms(1-4) by (simp add: absorb_record_state accepts_def key_for_def membership_new_def
        absorb_inner_def absorb_member_verified_def hold_member_def is_terminal_def keep_newest_def
        held_def device_default_def reverify_nothing parked_def)
  have m3: "pin_direct dp c (mr_sync_pub a) (?m [(c, held)] (mr_sync_pub l)) =
      ?m [(c, kept)] (mr_sync_pub a)"
    using assms(10) by (simp add: pin_direct_def membership_new_def bt_remove_def bt_adjust_def
        retire_old_key_def held_def kept_def slot_seq_def device_default_def reverify_nothing parked_def)
  have m4: "m = ?m [(c, kept)] (mr_sync_pub a)"
    unfolding m by (simp only: foldl.simps apply_op.simps m1 m2 m3)
  have take: "snd (absorb_record dp (Member a) (?m ds (mr_sync_pub a))) =
      ?m (bt_entry c device_default (hold_member a) ds) (mr_sync_pub a)"
    if "parked (?m (bt_entry c device_default (hold_member a) ds) (mr_sync_pub a)) = []" for ds
    using assms(5-8) that by (simp add: absorb_record_state accepts_def key_for_def membership_new_def
        absorb_inner_def absorb_member_verified_def reverify_nothing)
  have "\<not> is_admitted (?m [(c, hold_member a kept)] (mr_sync_pub a)) c"
    using assms(6,9,11) by (simp add: is_admitted_def effective_def device_effective_def live_current_def
        door_open_def reopened_def door_seq_def slot_seq_def hold_member_def is_terminal_def
        keep_newest_def kept_def device_default_def membership_new_def)
  moreover have "is_admitted (?m [(c, hold_member a device_default)] (mr_sync_pub a)) c"
    using assms(6,9) by (simp add: is_admitted_def effective_def device_effective_def live_current_def
        door_open_def reopened_def door_seq_def slot_seq_def hold_member_def is_terminal_def
        keep_newest_def device_default_def membership_new_def)
  moreover have "drop_stranger c m = ?m [] (mr_sync_pub a)"
    by (simp add: m4 drop_stranger_def kept_def bt_remove_def device_default_def)
  moreover have "ds_unverified kept = []" by (simp add: kept_def)
  ultimately show ?thesis
    using take [of "[(c, kept)]"] take [of "[]"] by (simp add: m4 parked_def)
qed

lemma marker_reopens_the_door_witness:
  "\<exists>ops. \<not> is_admitted (foldl (apply_op sample_deps) (membership_new sample_set) ops) node_a \<and>
     is_admitted (foldl (apply_op sample_deps) (membership_new sample_set)
       (butlast ops @ [DropStranger node_a, last ops])) node_a"
proof -
  let ?l = "sample_member\<lparr>mr_status := Left\<rparr>"
  let ?a = "sample_member\<lparr>mr_seq := 1, mr_sync_pub := replicate 64 CHR ''1''\<rparr>"
  have ok: "member_ok ?l" "member_ok ?a"
    using sample_member_ok by (simp_all add: member_ok_def SEQ_MAX_def valid_key_def lower_hex_def
        list_all_iff is_lower_hex_def is_digit_def)
  from marker_reopens_the_door [of sample_deps ?l node_a sample_set ?a, OF _ _ _ _ _ _ _ _ _ _ _ refl]
    sample_member_verifies [OF ok(1)] sample_member_verifies [OF ok(2)]
  show ?thesis
    by (intro exI [of _ "[PinDirect node_a (mr_sync_pub ?l), AbsorbRecord (Member ?l),
          PinDirect node_a (mr_sync_pub ?a), AbsorbRecord (Member ?a)]"])
      (simp add: sample_member_def sample_set_def)
qed

text \<open>
  Seq seeding wins: below the cap, a record carrying \<open>next_seq\<close> takes its slot against every
  record held about the device, a terminal one ends the live record's currency and a live one
  outranks the terminal record; and the seq is always within what the wire accepts.
\<close>

theorem own_next_record_wins:
  assumes "membership_ok m" and "mr_node_id r = n" and "mr_seq r = next_seq m n"
    and "next_seq m n < SEQ_MAX"
  shows "\<exists>dev. device_of (absorb_member_verified r m) n = Some dev \<and>
    (if is_terminal (mr_status r) then ds_terminal dev = Some r \<and> \<not> live_current dev
     else ds_live dev = Some r \<and> live_current dev) \<and> next_seq (absorb_member_verified r m) n = mr_seq r + 1"
proof -
  have bt: "bt_ok (sm_devices m)" using assms(1) by (simp add: membership_ok_def)
  define old where "old = (case device_of m n of None \<Rightarrow> device_default | Some d \<Rightarrow> d)"
  have dev: "device_of (absorb_member_verified r m) n = Some (hold_member r old)"
    by (simp add: absorb_member_verified_def map_of_bt_entry [OF bt] assms(2) old_def)
  have ok: "\<exists>sid. \<forall>d. device_of m n = Some d \<longrightarrow> device_ok sid n d"
    using assms(1) map_of_SomeD by (fastforce simp: membership_ok_def)
  have seq: "mr_seq r = ds_max_seq old + 1"
    using assms(3,4) by (auto simp: next_seq_def old_def device_default_def split: option.splits)
  have below: "mr_seq x < mr_seq r" if "ds_live old = Some x \<or> ds_terminal old = Some x" for x
    using that ok seq by (auto simp: old_def device_ok_def held_ok_def device_default_def split: option.splits)
  have beats: "member_beats r x \<and> \<not> member_beats x r"
    if "ds_live old = Some x \<or> ds_terminal old = Some x" for x
    using below [OF that] by (auto simp: member_beats_def)
  have "if is_terminal (mr_status r)
      then ds_terminal (hold_member r old) = Some r \<and> \<not> live_current (hold_member r old)
      else ds_live (hold_member r old) = Some r \<and> live_current (hold_member r old)"
    using beats by (auto simp: hold_member_def Let_def keep_newest_def live_current_def split: option.splits)
  moreover have "next_seq (absorb_member_verified r m) n = mr_seq r + 1"
    using assms(3,4) seq dev by (simp add: next_seq_def hold_member_def Let_def)
  ultimately show ?thesis using dev by blast
qed

lemma own_next_record_wins_witness:
  "next_seq (absorb_member_verified (sample_member\<lparr>mr_seq := 1\<rparr>) (membership_new sample_set)) node_a = 2"
proof -
  have first: "next_seq (membership_new sample_set) node_a = 1"
    by (simp add: next_seq_def membership_new_def SEQ_MAX_def)
  have "membership_ok (membership_new sample_set)" using membership_ok_new [OF sample_set_ok] by blast
  from own_next_record_wins [OF this, of "sample_member\<lparr>mr_seq := 1\<rparr>" node_a] first
  show ?thesis by (auto simp: SEQ_MAX_def)
qed

text \<open>
  C8. Gossip order does not change the verdict: verified membership records absorbed in any order
  and any multiplicity give every device the same effective status, as long as no two records tie
  on seq, time and signature.
\<close>

abbreviation live_slot :: "membership \<Rightarrow> string \<Rightarrow> member_record option" where
  "live_slot m n \<equiv> Option.bind (device_of m n) ds_live"

abbreviation terminal_slot :: "membership \<Rightarrow> string \<Rightarrow> member_record option" where
  "terminal_slot m n \<equiv> Option.bind (device_of m n) ds_terminal"

definition absorb_all :: "membership \<Rightarrow> member_record list \<Rightarrow> membership" where
  "absorb_all m rs = foldl (\<lambda>m r. absorb_member_verified r m) m rs"

lemma device_of_absorb_member:
  "bt_ok (sm_devices m) \<Longrightarrow> device_of (absorb_member_verified r m) n =
     (if n = mr_node_id r
      then Some (hold_member r (case device_of m n of None \<Rightarrow> device_default | Some d \<Rightarrow> d))
      else device_of m n)"
  by (simp add: absorb_member_verified_def map_of_bt_entry)

lemma hold_member_frame [simp]:
  "ds_invited (hold_member r d) = ds_invited d" "ds_floor (hold_member r d) = ds_floor d"
  by (simp_all add: hold_member_def Let_def)

lemma bt_ok_absorb_all: "bt_ok (sm_devices m) \<Longrightarrow> bt_ok (sm_devices (absorb_all m rs))"
  unfolding absorb_all_def
  by (rule foldl_keeps [of "\<lambda>m. bt_ok (sm_devices m)"]) (auto simp: absorb_member_verified_def)

lemma slots_absorb_all:
  assumes "bt_ok (sm_devices m)"
  shows "live_slot (absorb_all m rs) n =
      foldl (keep_newest member_beats) (live_slot m n)
        (filter (\<lambda>r. mr_node_id r = n \<and> \<not> is_terminal (mr_status r)) rs) \<and>
    terminal_slot (absorb_all m rs) n =
      foldl (keep_newest member_beats) (terminal_slot m n)
        (filter (\<lambda>r. mr_node_id r = n \<and> is_terminal (mr_status r)) rs)"
  using assms
proof (induction rs arbitrary: m)
  case Nil
  then show ?case by (simp add: absorb_all_def)
next
  case (Cons r rs)
  have bt: "bt_ok (sm_devices (absorb_member_verified r m))"
    using Cons.prems by (simp add: absorb_member_verified_def)
  have "live_slot (absorb_member_verified r m) n =
      (if mr_node_id r = n \<and> \<not> is_terminal (mr_status r)
       then keep_newest member_beats (live_slot m n) r else live_slot m n) \<and>
    terminal_slot (absorb_member_verified r m) n =
      (if mr_node_id r = n \<and> is_terminal (mr_status r)
       then keep_newest member_beats (terminal_slot m n) r else terminal_slot m n)"
    by (auto simp: device_of_absorb_member [OF Cons.prems] hold_member_def Let_def split: option.splits)
  with Cons.IH [OF bt] show ?case by (simp add: absorb_all_def)
qed

lemma absorb_all_other:
  assumes "bt_ok (sm_devices m)" and "sm_devices m = []"
  shows "case device_of (absorb_all m rs) n of None \<Rightarrow> True | Some d \<Rightarrow> ds_invited d = None \<and> ds_floor d = 0"
proof -
  let ?P = "\<lambda>m. bt_ok (sm_devices m) \<and>
    (\<forall>n d. device_of m n = Some d \<longrightarrow> ds_invited d = None \<and> ds_floor d = 0)"
  have step: "?P (absorb_member_verified r m)" if "?P m" for r m
  proof -
    from that have bt: "bt_ok (sm_devices m)" by blast
    then have "bt_ok (sm_devices (absorb_member_verified r m))"
      by (simp add: absorb_member_verified_def)
    with that show ?thesis
      by (simp add: device_of_absorb_member [OF bt] split: option.split)
  qed
  have "?P (absorb_all m rs)"
    unfolding absorb_all_def by (rule foldl_keeps [of ?P, OF _ step]) (simp add: assms(2))
  then show ?thesis by (simp split: option.split)
qed

lemma keep_newest_set:
  assumes "set rs = set ss" and "inj_on (\<lambda>r. (mr_seq r, mr_at r, mr_sig r)) (set rs)"
  shows "foldl (keep_newest member_beats) None rs = foldl (keep_newest member_beats) None ss"
proof (cases "rs = []")
  case True
  then show ?thesis using assms(1) by simp
next
  case False
  then have "ss \<noteq> []" using assms(1) by auto
  with False obtain k l where k: "foldl (keep_newest member_beats) None rs = Some k"
    and l: "foldl (keep_newest member_beats) None ss = Some l"
    using member.foldl_keep_some by (metis not_None_eq)
  from member.order_irrelevant [OF assms(1) k l]
  have "(mr_seq k, mr_at k, mr_sig k) = (mr_seq l, mr_at l, mr_sig l)"
    unfolding member_beats_def by (metis linorder_less_linear)
  moreover have "k \<in> set rs" "l \<in> set rs"
    using member.foldl_keep [OF k] member.foldl_keep [OF l] assms(1) by auto
  ultimately have "k = l" using assms(2) by (auto dest: inj_onD)
  with k l show ?thesis by simp
qed

theorem gossip_order_is_irrelevant:
  assumes "set rs = set ss" and "inj_on (\<lambda>r. (mr_seq r, mr_at r, mr_sig r)) (set rs)"
  shows "effective (absorb_all (membership_new d) rs) = effective (absorb_all (membership_new d) ss)"
proof (rule effective_cong)
  have desc: "sm_descriptor (absorb_all m rs) = sm_descriptor m" for m rs
    unfolding absorb_all_def
    by (rule foldl_keeps [of "\<lambda>m'. sm_descriptor m' = sm_descriptor m"]) (auto simp: absorb_member_verified_def)
  then show "sm_descriptor (absorb_all (membership_new d) rs) = sm_descriptor (absorb_all (membership_new d) ss)"
    by simp
  fix n
  let ?m = "membership_new d"
  have bt: "bt_ok (sm_devices ?m)" and none: "sm_devices ?m = []" by (simp_all add: membership_new_def)
  have "live_slot (absorb_all ?m rs) n = live_slot (absorb_all ?m ss) n"
    "terminal_slot (absorb_all ?m rs) n = terminal_slot (absorb_all ?m ss) n"
    using slots_absorb_all [OF bt, of rs n] slots_absorb_all [OF bt, of ss n] none assms
    by (auto intro!: keep_newest_set elim: inj_on_subset)
  moreover note absorb_all_other [OF bt none, of rs n] absorb_all_other [OF bt none, of ss n]
  ultimately show "map_option (\<lambda>d. (ds_live d, ds_terminal d, ds_invited d, ds_floor d))
        (device_of (absorb_all ?m rs) n) =
      map_option (\<lambda>d. (ds_live d, ds_terminal d, ds_invited d, ds_floor d))
        (device_of (absorb_all ?m ss) n) \<or>
    (case device_of (absorb_all ?m rs) n of None \<Rightarrow> True
     | Some d \<Rightarrow> ds_live d = None \<and> ds_terminal d = None \<and> ds_invited d = None) \<and>
    (case device_of (absorb_all ?m ss) n of None \<Rightarrow> True
     | Some d \<Rightarrow> ds_live d = None \<and> ds_terminal d = None \<and> ds_invited d = None)"
    by (auto split: option.splits)
qed

lemma gossip_order_is_irrelevant_witness:
  "effective (absorb_all (membership_new sample_set) [sample_member, sample_member\<lparr>mr_seq := 7\<rparr>]) =
   effective (absorb_all (membership_new sample_set) [sample_member\<lparr>mr_seq := 7\<rparr>, sample_member])"
  by (rule gossip_order_is_irrelevant) (auto simp: inj_on_def)

end
