(* ===== verification/MembershipStore.thy ===== *)
theory MembershipStore
  imports Admission
begin

text \<open>
  The persisted form of a membership state: \<open>SetMembership::to_value\<close> and \<open>from_value\<close> of
  \<open>sync/src/membership.rs\<close>, nested in the set's \<open>meta.json\<close>. Loading what was written gives the
  state back for every well-formed state, so by the run invariant of
  \<^theory_text>\<open>Admission\<close> for every state the operations reach.
\<close>

definition opt_value :: "('r \<Rightarrow> json) \<Rightarrow> 'r option \<Rightarrow> json" where
  "opt_value enc r = (case r of None \<Rightarrow> JNull | Some r \<Rightarrow> enc r)"

definition device_to_value :: "device_state \<Rightarrow> json" where
  "device_to_value dev = jobj
     [(''live'', opt_value member_to_value (ds_live dev)),
      (''terminal'', opt_value member_to_value (ds_terminal dev)),
      (''invited'', opt_value invited_to_value (ds_invited dev)),
      (''terminal_seq_floor'', of_u64 (ds_floor dev)),
      (''max_seq_seen'', of_u64 (ds_max_seq dev)),
      (''unverified'', JArr (ds_unverified dev))]"

definition pin_to_value :: "pin \<Rightarrow> json" where
  "pin_to_value p = jobj
     [(''key'', JStr (pin_key p)),
      (''source'', case pin_source p of
                     Direct \<Rightarrow> JStr ''direct''
                   | Endorsed by_node \<Rightarrow> jobj [(''endorsed_by'', JStr by_node)])]"

definition membership_to_value :: "membership \<Rightarrow> json" where
  "membership_to_value m = jobj
     [(''descriptor'', descriptor_to_value (sm_descriptor m)),
      (''devices'', jobj (map (\<lambda>p. (fst p, device_to_value (snd p))) (sm_devices m))),
      (''pins'', jobj (map (\<lambda>p. (fst p, pin_to_value (snd p))) (sm_pins m))),
      (''endorsements'', JArr (map (\<lambda>p. endorsement_to_value (snd p)) (sm_endorsements m)))]"

definition slot_from_value :: "(json \<Rightarrow> 'r option) \<Rightarrow> json \<Rightarrow> 'r option option" where
  "slot_from_value dec v = (if v = JNull then Some None else map_option Some (dec v))"

definition device_from_value :: "json \<Rightarrow> device_state option" where
  "device_from_value v = do {
     floor \<leftarrow> Option.bind (jget v ''terminal_seq_floor'') as_u64;
     max_seq \<leftarrow> Option.bind (jget v ''max_seq_seen'') as_u64;
     live \<leftarrow> Option.bind (jget v ''live'') (slot_from_value member_from_value);
     terminal \<leftarrow> Option.bind (jget v ''terminal'') (slot_from_value member_from_value);
     invited \<leftarrow> Option.bind (jget v ''invited'') (slot_from_value invited_from_value);
     unverified \<leftarrow> Option.bind (jget v ''unverified'') as_array;
     Some \<lparr>ds_live = live, ds_terminal = terminal, ds_invited = invited, ds_floor = floor,
           ds_max_seq = max_seq, ds_unverified = unverified\<rparr>
   }"

definition pin_from_value :: "json \<Rightarrow> pin option" where
  "pin_from_value v = do {
     key \<leftarrow> Option.bind (jget v ''key'') as_str;
     source \<leftarrow> jget v ''source'';
     source \<leftarrow> (if source = JStr ''direct'' then Some Direct
                else map_option Endorsed (Option.bind (jget source ''endorsed_by'') as_str));
     Some \<lparr>pin_key = key, pin_source = source\<rparr>
   }"

fun load_nodes :: "(json \<Rightarrow> 'v option) \<Rightarrow> (string, 'v) btree \<Rightarrow> (string \<times> json) list \<Rightarrow> (string, 'v) btree option" where
  "load_nodes dec acc [] = Some acc"
| "load_nodes dec acc ((node, v) # rest) =
     (if \<not> valid_node_id node then None
      else Option.bind (dec v) (\<lambda>x. load_nodes dec (bt_insert node x acc) rest))"

fun load_endorsements :: "(string, endorsement) btree \<Rightarrow> json list \<Rightarrow> (string, endorsement) btree option" where
  "load_endorsements acc [] = Some acc"
| "load_endorsements acc (v # rest) =
     Option.bind (endorsement_from_value v) (\<lambda>e. load_endorsements (bt_insert (en_node_id e) e acc) rest)"

definition membership_from_value :: "json \<Rightarrow> membership option" where
  "membership_from_value v = do {
     descriptor \<leftarrow> Option.bind (jget v ''descriptor'') descriptor_from_value;
     pins \<leftarrow> Option.bind (jget v ''pins'') as_object;
     pins \<leftarrow> load_nodes pin_from_value [] pins;
     endorsements \<leftarrow> Option.bind (jget v ''endorsements'') as_array;
     endorsements \<leftarrow> load_endorsements [] endorsements;
     devices \<leftarrow> Option.bind (jget v ''devices'') as_object;
     devices \<leftarrow> load_nodes device_from_value [] devices;
     Some \<lparr>sm_descriptor = descriptor, sm_devices = devices, sm_pins = pins,
           sm_endorsements = endorsements\<rparr>
   }"

section \<open>Round trips of the parts\<close>

lemma jobj_not_null [simp]: "jobj kvs \<noteq> JNull" "jobj kvs \<noteq> JStr s"
  by (simp_all add: jobj_def)

lemma slot_round:
  "pred_option (\<lambda>r. dec (enc r) = Some r \<and> enc r \<noteq> JNull) slot \<Longrightarrow>
   slot_from_value dec (opt_value enc slot) = Some slot"
  by (cases slot) (simp_all add: slot_from_value_def opt_value_def)

lemma device_round:
  assumes "device_ok sid node dev"
  shows "device_from_value (device_to_value dev) = Some dev"
proof -
  have member: "member_from_value (member_to_value r) = Some r \<and> member_to_value r \<noteq> JNull"
    if "member_ok r" for r using that member.dec_enc by (simp add: member_to_value_def)
  have invited: "invited_from_value (invited_to_value r) = Some r \<and> invited_to_value r \<noteq> JNull"
    if "invited_ok r" for r using that invited.dec_enc by (simp add: invited_to_value_def)
  have "slot_from_value member_from_value (opt_value member_to_value (ds_live dev)) = Some (ds_live dev)"
    "slot_from_value member_from_value (opt_value member_to_value (ds_terminal dev)) = Some (ds_terminal dev)"
    "slot_from_value invited_from_value (opt_value invited_to_value (ds_invited dev)) = Some (ds_invited dev)"
    using assms member invited
    by (auto intro!: slot_round simp: device_ok_def held_ok_def pred_option_def)
  then show ?thesis
    by (simp add: device_from_value_def device_to_value_def jget_jobj of_u64_def)
qed

lemma pin_round: "pin_from_value (pin_to_value p) = Some p"
  by (cases "pin_source p") (simp_all add: pin_from_value_def pin_to_value_def jget_jobj)

lemma load_nodes_written:
  assumes "\<forall>p \<in> set kvs. valid_node_id (fst p) \<and> dec (enc (snd p)) = Some (snd p)"
  shows "load_nodes dec acc (map (\<lambda>p. (fst p, enc (snd p))) kvs) =
    Some (foldl (\<lambda>m p. bt_insert (fst p) (snd p) m) acc kvs)"
  using assms by (induction kvs arbitrary: acc) auto

lemma load_endorsements_written:
  assumes "\<forall>p \<in> set kvs. endorsement_ok (snd p) \<and> en_node_id (snd p) = fst p"
  shows "load_endorsements acc (map (\<lambda>p. endorsement_to_value (snd p)) kvs) =
    Some (foldl (\<lambda>m p. bt_insert (fst p) (snd p) m) acc kvs)"
  using assms by (induction kvs arbitrary: acc) (auto simp: endorsement.dec_enc)

lemma as_object_jobj: "bt_ok kvs \<Longrightarrow> as_object (jobj kvs) = Some kvs"
  by (simp add: jobj_def bt_of_list_id)

section \<open>Properties\<close>

text \<open>
  C13. The persisted membership loads back exactly: for every well-formed state, which every run of
  operations reaches, the value written to \<open>meta.json\<close> parses to the same state.
\<close>

theorem membership_round_trip:
  assumes "membership_ok m"
  shows "membership_from_value (membership_to_value m) = Some m"
proof -
  have bt: "bt_ok (sm_devices m)" "bt_ok (sm_pins m)" "bt_ok (sm_endorsements m)"
    using assms by (simp_all add: membership_ok_def)
  have devices: "load_nodes device_from_value [] (map (\<lambda>p. (fst p, device_to_value (snd p))) (sm_devices m)) =
      Some (sm_devices m)"
    using assms device_round bt(1)
    by (subst load_nodes_written)
      (auto simp: membership_ok_def device_ok_def bt_of_list_def [symmetric] bt_of_list_id)
  have pins: "load_nodes pin_from_value [] (map (\<lambda>p. (fst p, pin_to_value (snd p))) (sm_pins m)) =
      Some (sm_pins m)"
    using assms pin_round bt(2)
    by (subst load_nodes_written)
      (auto simp: membership_ok_def bt_of_list_def [symmetric] bt_of_list_id)
  have endorsements: "load_endorsements [] (map (\<lambda>p. endorsement_to_value (snd p)) (sm_endorsements m)) =
      Some (sm_endorsements m)"
    using assms bt(3)
    by (subst load_endorsements_written)
      (auto simp: membership_ok_def bt_of_list_def [symmetric] bt_of_list_id)
  have objects: "as_object (jobj (map (\<lambda>p. (fst p, f (snd p))) kvs)) = Some (map (\<lambda>p. (fst p, f (snd p))) kvs)"
    if "bt_ok kvs" for f :: "'a \<Rightarrow> json" and kvs
    using that by (simp add: as_object_jobj bt_ok_map_snd)
  have descriptor: "descriptor_from_value (descriptor_to_value (sm_descriptor m)) = Some (sm_descriptor m)"
    using assms descriptor.dec_enc by (simp add: membership_ok_def)
  show ?thesis
    using bt devices pins endorsements descriptor
    by (simp add: membership_from_value_def membership_to_value_def jget_jobj as_object_jobj bt_ok_map_snd)
qed

lemma membership_round_trip_witness: "membership_from_value (membership_to_value reinvited) = Some reinvited"
proof (rule membership_round_trip)
  show "membership_ok reinvited"
    using sample_member_ok sample_set_ok
    by (simp add: membership_ok_def reinvited_def membership_new_def device_ok_def held_ok_def member_ok_def
        invited_ok_def is_terminal_def SEQ_MAX_def UNVERIFIED_CAP_def bt_ok_def)
qed

text \<open>
  Loading does not check the slots: a persisted state whose live slot holds a \<open>left\<close> record
  parses, and asking for that device's status then reaches the \<open>unreachable!\<close> arm, a panic,
  instead of failing the set as corrupt.
\<close>

theorem loading_skips_the_slot_check:
  "\<exists>v m. membership_from_value v = Some m \<and> effective m node_a = EUnreachable"
proof -
  let ?r = "sample_member\<lparr>mr_status := Left\<rparr>"
  let ?dev = "device_default\<lparr>ds_live := Some ?r\<rparr>"
  let ?m = "(membership_new sample_set)\<lparr>sm_devices := [(node_a, ?dev)]\<rparr>"
  have r: "member_ok ?r" using sample_member_ok by (simp add: member_ok_def)
  have "device_from_value (device_to_value ?dev) = Some ?dev"
    using member.dec_enc [OF r]
    by (simp add: device_from_value_def device_to_value_def jget_jobj of_u64_def device_default_def
        slot_from_value_def opt_value_def member_to_value_def)
  moreover have "descriptor_from_value (descriptor_to_value sample_set) = Some sample_set"
    by (rule descriptor.dec_enc [OF sample_set_ok])
  ultimately have "membership_from_value (membership_to_value ?m) = Some ?m"
    by (simp add: membership_from_value_def membership_to_value_def membership_new_def jget_jobj
        as_object_jobj bt_ok_Cons)
  moreover have "effective ?m node_a = EUnreachable"
    by (simp add: membership_new_def effective_def device_effective_def live_current_def door_open_def
        door_seq_def slot_seq_def)
  ultimately show ?thesis by blast
qed

end
