(* ===== verification/Protocol.thy ===== *)
theory Protocol
  imports Index MembershipStore
begin

text \<open>
  The wire dialect, \<open>sync/src/protocol.rs\<close>: the messages, their wire form, the strict parse at the
  gate, and the byte-budgeted pagination; and the pages of an answering leg as the engine builds
  them (\<open>answer_head\<close>, \<open>paginate_gossip\<close> of \<open>sync/src/engine.rs\<close>).

  The size of an item's serialization is the JSON crate's and enters as the parameter \<open>bytes_of\<close>.
\<close>

definition DIALECT :: string where "DIALECT = ''1device-sync/1''"

definition PAGE_BUDGET_BYTES :: nat where "PAGE_BUDGET_BYTES = 48 * 1024"

definition ROUND_PAGES_MAX :: nat where "ROUND_PAGES_MAX = 256"

record head_position =
  hp_descriptor_hash :: string
  hp_set_vv :: vv
  hp_records_pages :: nat
  hp_entries_pages :: nat
  hp_entries_complete :: bool

datatype message =
  MsgHead string nat "nat option" "head_position option" string
| MsgRecords string nat nat "wire_record list" "endorsement list" "conflict_record list"
| MsgEntries string nat nat "entry list"
| MsgInvite string set_descriptor "wire_record list" "endorsement list" nat nat string
| MsgInviteAck string
| MsgNeed string nat "string list"
| MsgOffer string nat string "(string \<times> string) list"
| MsgDone string nat string
| MsgCannot string nat

fun message_set_id :: "message \<Rightarrow> string" where
  "message_set_id (MsgHead set_id _ _ _ _) = set_id"
| "message_set_id (MsgRecords set_id _ _ _ _ _) = set_id"
| "message_set_id (MsgEntries set_id _ _ _) = set_id"
| "message_set_id (MsgInvite set_id _ _ _ _ _ _) = set_id"
| "message_set_id (MsgInviteAck set_id) = set_id"
| "message_set_id (MsgNeed set_id _ _) = set_id"
| "message_set_id (MsgOffer set_id _ _ _) = set_id"
| "message_set_id (MsgDone set_id _ _) = set_id"
| "message_set_id (MsgCannot set_id _) = set_id"

section \<open>The wire form\<close>

definition envelope :: "string \<Rightarrow> string \<Rightarrow> (string \<times> json) list \<Rightarrow> json" where
  "envelope kind set_id fs =
     jobj ([(''dialect'', JStr DIALECT), (''type'', JStr kind), (''set_id'', JStr set_id)] @ fs)"

definition position_fields :: "head_position option \<Rightarrow> (string \<times> json) list" where
  "position_fields position =
     (case position of
        Some p \<Rightarrow>
          [(''descriptor_hash'', JStr (hp_descriptor_hash p)),
           (''set_vv'', vv_to_value (hp_set_vv p)),
           (''records_pages'', of_u64 (hp_records_pages p)),
           (''entries_pages'', of_u64 (hp_entries_pages p)),
           (''entries_complete'', JBool (hp_entries_complete p))]
      | None \<Rightarrow> [(''membership'', JStr ''none'')])"

definition file_to_value :: "string \<times> string \<Rightarrow> json" where
  "file_to_value f = jobj [(''wire_path'', JStr (fst f)), (''set_path'', JStr (snd f))]"

fun message_to_value :: "message \<Rightarrow> json" where
  "message_to_value (MsgHead set_id round answers position sync_pub) =
     envelope ''head'' set_id
       ([(''round'', of_u64 round), (''sync_pub'', JStr sync_pub)] @
        (case answers of None \<Rightarrow> [] | Some a \<Rightarrow> [(''answers'', of_u64 a)]) @
        position_fields position)"
| "message_to_value (MsgRecords set_id round page records endorsements conflicts) =
     envelope ''records'' set_id
       [(''round'', of_u64 round), (''page'', of_u64 page),
        (''records'', JArr (map record_to_value records)),
        (''endorsements'', JArr (map endorsement_to_value endorsements)),
        (''conflicts'', JArr (map conflict_to_value conflicts))]"
| "message_to_value (MsgEntries set_id round page entries) =
     envelope ''entries'' set_id
       [(''round'', of_u64 round), (''page'', of_u64 page),
        (''entries'', JArr (map entry_to_value entries))]"
| "message_to_value (MsgInvite set_id descriptor records endorsements n_entries total_size sync_pub) =
     envelope ''invite'' set_id
       [(''descriptor'', descriptor_to_value descriptor),
        (''records'', JArr (map record_to_value records)),
        (''endorsements'', JArr (map endorsement_to_value endorsements)),
        (''stats'', jobj [(''entries'', of_u64 n_entries), (''total_size'', of_u64 total_size)]),
        (''sync_pub'', JStr sync_pub)]"
| "message_to_value (MsgInviteAck set_id) = envelope ''invite_ack'' set_id []"
| "message_to_value (MsgNeed set_id need_id paths) =
     envelope ''need'' set_id [(''need_id'', of_u64 need_id), (''paths'', JArr (map JStr paths))]"
| "message_to_value (MsgOffer set_id need_id tx_id files) =
     envelope ''offer'' set_id
       [(''need_id'', of_u64 need_id), (''tx_id'', JStr tx_id), (''files'', JArr (map file_to_value files))]"
| "message_to_value (MsgDone set_id need_id tx_id) =
     envelope ''done'' set_id [(''need_id'', of_u64 need_id), (''tx_id'', JStr tx_id)]"
| "message_to_value (MsgCannot set_id need_id) =
     envelope ''cannot'' set_id [(''need_id'', of_u64 need_id)]"

section \<open>The gate\<close>

definition parse_all :: "(json \<Rightarrow> 'a option) \<Rightarrow> json \<Rightarrow> 'a list option" where
  "parse_all parse v = do {
     items \<leftarrow> as_array v;
     if 4096 < length items then None else those (map parse items)
   }"

definition str_field :: "json \<Rightarrow> string \<Rightarrow> string option" where
  "str_field v k = Option.bind (jget v k) as_str"

definition u64_field :: "json \<Rightarrow> string \<Rightarrow> nat option" where
  "u64_field v k = Option.bind (jget v k) as_u64"

definition list_field :: "(json \<Rightarrow> 'a option) \<Rightarrow> json \<Rightarrow> string \<Rightarrow> 'a list option" where
  "list_field parse v k = Option.bind (jget v k) (parse_all parse)"

definition position_from_value :: "json \<Rightarrow> head_position option option" where
  "position_from_value v =
     (if str_field v ''membership'' = Some ''none'' then Some None
      else do {
        hash \<leftarrow> str_field v ''descriptor_hash'';
        if length hash \<noteq> 64 then None else do {
          records_pages \<leftarrow> u64_field v ''records_pages'';
          entries_pages \<leftarrow> u64_field v ''entries_pages'';
          if ROUND_PAGES_MAX < records_pages \<or> ROUND_PAGES_MAX < entries_pages then None else do {
            set_vv \<leftarrow> Option.bind (jget v ''set_vv'') vv_from_value;
            entries_complete \<leftarrow> Option.bind (jget v ''entries_complete'') as_bool;
            Some (Some \<lparr>hp_descriptor_hash = hash, hp_set_vv = set_vv,
                        hp_records_pages = records_pages, hp_entries_pages = entries_pages,
                        hp_entries_complete = entries_complete\<rparr>)
          }
        }
      })"

definition head_from_value :: "string \<Rightarrow> json \<Rightarrow> message option" where
  "head_from_value set_id v = do {
     sync_pub \<leftarrow> str_field v ''sync_pub'';
     if \<not> valid_key sync_pub then None else do {
       position \<leftarrow> position_from_value v;
       round \<leftarrow> u64_field v ''round'';
       answers \<leftarrow> (case jget v ''answers'' of None \<Rightarrow> Some None | Some a \<Rightarrow> map_option Some (as_u64 a));
       Some (MsgHead set_id round answers position sync_pub)
     }
   }"

definition invite_from_value :: "string \<Rightarrow> json \<Rightarrow> message option" where
  "invite_from_value set_id v = do {
     stats \<leftarrow> jget v ''stats'';
     sync_pub \<leftarrow> str_field v ''sync_pub'';
     if \<not> valid_key sync_pub then None else do {
       descriptor \<leftarrow> Option.bind (jget v ''descriptor'') descriptor_from_value;
       if sd_set_id descriptor \<noteq> set_id then None else do {
         records \<leftarrow> list_field record_from_value v ''records'';
         endorsements \<leftarrow> list_field endorsement_from_value v ''endorsements'';
         n_entries \<leftarrow> u64_field stats ''entries'';
         total_size \<leftarrow> u64_field stats ''total_size'';
         Some (MsgInvite set_id descriptor records endorsements n_entries total_size sync_pub)
       }
     }
   }"

definition need_path :: "(string \<Rightarrow> bool) \<Rightarrow> json \<Rightarrow> string option" where
  "need_path is_nfc v = do {
     path \<leftarrow> as_str v;
     if check_wire_path is_nfc path = Inr () then Some path else None
   }"

definition file_from_value :: "(string \<Rightarrow> bool) \<Rightarrow> json \<Rightarrow> (string \<times> string) option" where
  "file_from_value is_nfc v = do {
     wire \<leftarrow> str_field v ''wire_path'';
     set_path \<leftarrow> str_field v ''set_path'';
     if check_wire_path is_nfc wire \<noteq> Inr () \<or> check_wire_path is_nfc set_path \<noteq> Inr () then None
     else Some (wire, set_path)
   }"

definition tx_field :: "json \<Rightarrow> string option" where
  "tx_field v = do {
     tx_id \<leftarrow> str_field v ''tx_id'';
     if tx_id = [] \<or> 128 < length tx_id then None else Some tx_id
   }"

definition message_from_value :: "(string \<Rightarrow> bool) \<Rightarrow> json \<Rightarrow> message option" where
  "message_from_value is_nfc v =
     (if str_field v ''dialect'' \<noteq> Some DIALECT then None
      else do {
        set_id \<leftarrow> str_field v ''set_id'';
        if \<not> valid_set_id set_id then None else do {
          kind \<leftarrow> str_field v ''type'';
          if kind = ''head'' then head_from_value set_id v
          else if kind = ''records'' then do {
            round \<leftarrow> u64_field v ''round'';
            page \<leftarrow> u64_field v ''page'';
            records \<leftarrow> list_field record_from_value v ''records'';
            endorsements \<leftarrow> list_field endorsement_from_value v ''endorsements'';
            conflicts \<leftarrow> list_field (conflict_from_value is_nfc) v ''conflicts'';
            Some (MsgRecords set_id round page records endorsements conflicts)
          }
          else if kind = ''entries'' then do {
            round \<leftarrow> u64_field v ''round'';
            page \<leftarrow> u64_field v ''page'';
            entries \<leftarrow> list_field (entry_from_value is_nfc) v ''entries'';
            Some (MsgEntries set_id round page entries)
          }
          else if kind = ''invite'' then invite_from_value set_id v
          else if kind = ''invite_ack'' then Some (MsgInviteAck set_id)
          else if kind = ''need'' then do {
            paths \<leftarrow> list_field (need_path is_nfc) v ''paths'';
            if \<not> distinct (map basename paths) then None else do {
              need_id \<leftarrow> u64_field v ''need_id'';
              Some (MsgNeed set_id need_id paths)
            }
          }
          else if kind = ''offer'' then do {
            tx_id \<leftarrow> tx_field v;
            need_id \<leftarrow> u64_field v ''need_id'';
            files \<leftarrow> list_field (file_from_value is_nfc) v ''files'';
            Some (MsgOffer set_id need_id tx_id files)
          }
          else if kind = ''done'' then do {
            tx_id \<leftarrow> tx_field v;
            need_id \<leftarrow> u64_field v ''need_id'';
            Some (MsgDone set_id need_id tx_id)
          }
          else if kind = ''cannot'' then do {
            need_id \<leftarrow> u64_field v ''need_id'';
            Some (MsgCannot set_id need_id)
          }
          else None
        }
      })"

text \<open>What a message that passes the gate satisfies.\<close>

definition position_ok :: "head_position \<Rightarrow> bool" where
  "position_ok p \<longleftrightarrow>
     length (hp_descriptor_hash p) = 64 \<and> vv_ok (hp_set_vv p) \<and>
     hp_records_pages p \<le> ROUND_PAGES_MAX \<and> hp_entries_pages p \<le> ROUND_PAGES_MAX"

definition tx_ok :: "string \<Rightarrow> bool" where
  "tx_ok tx \<longleftrightarrow> tx \<noteq> [] \<and> length tx \<le> 128"

definition page_of :: "('a \<Rightarrow> bool) \<Rightarrow> 'a list \<Rightarrow> bool" where
  "page_of ok xs \<longleftrightarrow> length xs \<le> 4096 \<and> list_all ok xs"

fun body_ok :: "(string \<Rightarrow> bool) \<Rightarrow> message \<Rightarrow> bool" where
  "body_ok is_nfc (MsgHead _ _ _ position sync_pub) \<longleftrightarrow>
     valid_key sync_pub \<and> pred_option position_ok position"
| "body_ok is_nfc (MsgRecords _ _ _ records endorsements conflicts) \<longleftrightarrow>
     page_of record_ok records \<and> page_of endorsement_ok endorsements \<and>
     page_of (conflict_ok is_nfc) conflicts"
| "body_ok is_nfc (MsgEntries _ _ _ entries) \<longleftrightarrow> page_of (entry_ok is_nfc) entries"
| "body_ok is_nfc (MsgInvite set_id descriptor records endorsements _ _ sync_pub) \<longleftrightarrow>
     descriptor_ok descriptor \<and> sd_set_id descriptor = set_id \<and> page_of record_ok records \<and>
     page_of endorsement_ok endorsements \<and> valid_key sync_pub"
| "body_ok is_nfc (MsgInviteAck _) \<longleftrightarrow> True"
| "body_ok is_nfc (MsgNeed _ _ paths) \<longleftrightarrow> page_of (path_ok is_nfc) paths \<and> distinct (map basename paths)"
| "body_ok is_nfc (MsgOffer _ _ tx_id files) \<longleftrightarrow>
     tx_ok tx_id \<and> page_of (\<lambda>f. path_ok is_nfc (fst f) \<and> path_ok is_nfc (snd f)) files"
| "body_ok is_nfc (MsgDone _ _ tx_id) \<longleftrightarrow> tx_ok tx_id"
| "body_ok is_nfc (MsgCannot _ _) \<longleftrightarrow> True"

definition message_ok :: "(string \<Rightarrow> bool) \<Rightarrow> message \<Rightarrow> bool" where
  "message_ok is_nfc m \<longleftrightarrow> valid_set_id (message_set_id m) \<and> body_ok is_nfc m"

section \<open>Round trip and soundness of the gate\<close>

lemma parse_all_written:
  assumes "page_of ok xs" and "\<And>x. ok x \<Longrightarrow> dec (enc x) = Some x"
  shows "parse_all dec (JArr (map enc xs)) = Some xs"
proof -
  have "those (map dec (map enc xs)) = Some xs"
    using assms by (auto simp: those_Some_iff page_of_def list_all_iff)
  then show ?thesis using assms(1) by (simp add: parse_all_def page_of_def)
qed

lemma parse_all_sound:
  assumes "parse_all dec v = Some xs" and "json_ok v" and "\<And>w x. json_ok w \<Longrightarrow> dec w = Some x \<Longrightarrow> ok x"
  shows "page_of ok xs"
proof -
  from assms(1) obtain vs where vs: "v = JArr vs" "length vs \<le> 4096" "map dec vs = map Some xs"
    by (auto simp: parse_all_def bind_Some_iff those_Some_iff split: if_splits)
  have "ok x" if "x \<in> set xs" for x
  proof -
    from that obtain i where i: "i < length xs" "x = xs ! i" by (auto simp: in_set_conv_nth)
    have len: "length vs = length xs" using vs(3) by (metis length_map)
    have "dec (vs ! i) = Some x" using vs(3) i len by (metis nth_map)
    moreover have "json_ok (vs ! i)" using assms(2) vs(1) i(1) len by (simp add: list_all_iff)
    ultimately show ?thesis by (rule assms(3) [rotated])
  qed
  moreover have "length xs \<le> 4096" using vs(2,3) by (metis length_map)
  ultimately show ?thesis by (simp add: page_of_def list_all_iff)
qed

lemma page_of_mono: "page_of P xs \<Longrightarrow> (\<And>x. P x \<Longrightarrow> Q x) \<Longrightarrow> page_of Q xs"
  by (auto simp: page_of_def list_all_iff)

lemma list_field_sound:
  assumes "list_field dec v k = Some xs" and "json_ok v"
    and "\<And>w x. json_ok w \<Longrightarrow> dec w = Some x \<Longrightarrow> ok x"
  shows "page_of ok xs"
proof -
  from assms(1) obtain w where w: "jget v k = Some w" "parse_all dec w = Some xs"
    by (auto simp: list_field_def bind_Some_iff)
  from parse_all_sound [OF w(2) json_ok_jget [OF assms(2) w(1)] assms(3)] show ?thesis .
qed

lemma str_field_jobj: "distinct (map fst kvs) \<Longrightarrow> str_field (jobj kvs) k = Option.bind (map_of kvs k) as_str"
  and u64_field_jobj: "distinct (map fst kvs) \<Longrightarrow> u64_field (jobj kvs) k = Option.bind (map_of kvs k) as_u64"
  and list_field_jobj: "distinct (map fst kvs) \<Longrightarrow>
    list_field dec (jobj kvs) k = Option.bind (map_of kvs k) (parse_all dec)"
  by (simp_all add: str_field_def u64_field_def list_field_def jget_jobj)

lemmas field_jobj = str_field_jobj u64_field_jobj list_field_jobj jget_jobj

lemma need_path_round: "path_ok is_nfc p \<Longrightarrow> need_path is_nfc (JStr p) = Some p"
  by (simp add: need_path_def path_ok_def)

lemma file_round:
  "path_ok is_nfc (fst f) \<and> path_ok is_nfc (snd f) \<Longrightarrow> file_from_value is_nfc (file_to_value f) = Some f"
  by (simp add: file_from_value_def file_to_value_def field_jobj path_ok_def)

lemma head_round:
  assumes "message_ok is_nfc (MsgHead sid round answers position key)"
  shows "message_from_value is_nfc (message_to_value (MsgHead sid round answers position key)) =
    Some (MsgHead sid round answers position key)"
proof (cases position)
  case None
  then show ?thesis
    using assms
    by (cases answers) (simp_all add: message_ok_def message_from_value_def head_from_value_def
        position_from_value_def envelope_def position_fields_def field_jobj of_u64_def)
next
  case (Some p)
  have "vv_from_value (vv_to_value (hp_set_vv p)) = Some (hp_set_vv p)"
    using assms Some vv.dec_enc by (simp add: message_ok_def position_ok_def)
  then show ?thesis
    using assms Some
    by (cases answers; cases p) (simp_all add: message_ok_def position_ok_def message_from_value_def
        head_from_value_def position_from_value_def envelope_def position_fields_def field_jobj of_u64_def)
qed

lemma head_sound:
  assumes "head_from_value sid v = Some m" and "json_ok v"
  shows "message_set_id m = sid \<and> body_ok is_nfc m"
proof -
  have pos: "pred_option position_ok p" if "position_from_value v = Some p" for p
    using that assms(2) vv.enc_dec json_ok_jget [OF assms(2)]
    by (fastforce simp: position_from_value_def bind_Some_iff position_ok_def split: if_splits)
  from assms(1) pos show ?thesis
    by (auto simp: head_from_value_def bind_Some_iff split: if_splits)
qed

lemma invite_sound:
  assumes "invite_from_value sid v = Some m" and "json_ok v"
  shows "message_set_id m = sid \<and> body_ok is_nfc m"
proof -
  note parts = list_field_sound [OF _ assms(2), where dec = record_from_value and ok = record_ok]
    list_field_sound [OF _ assms(2), where dec = endorsement_from_value and ok = endorsement_ok]
  have d: "descriptor_ok d" if "jget v ''descriptor'' = Some w" "descriptor_from_value w = Some d" for w d
    using descriptor.enc_dec [OF json_ok_jget [OF assms(2) that(1)] that(2)] by blast
  from assms(1) d parts wire_record.enc_dec endorsement.enc_dec show ?thesis
    by (auto simp: invite_from_value_def bind_Some_iff split: if_splits)
qed

lemma need_path_sound: "need_path is_nfc w = Some p \<Longrightarrow> path_ok is_nfc p"
  by (auto simp: need_path_def path_ok_def bind_Some_iff split: if_splits)

lemma file_sound: "file_from_value is_nfc w = Some f \<Longrightarrow> path_ok is_nfc (fst f) \<and> path_ok is_nfc (snd f)"
  by (auto simp: file_from_value_def path_ok_def bind_Some_iff split: if_splits)

lemma tx_sound: "tx_field v = Some tx \<Longrightarrow> tx_ok tx"
  by (auto simp: tx_field_def tx_ok_def bind_Some_iff split: if_splits)

lemma message_round_trip_aux:
  assumes "message_ok is_nfc m"
  shows "message_from_value is_nfc (message_to_value m) = Some m"
proof (cases m)
  case (MsgHead sid round answers position key)
  with assms head_round show ?thesis by simp
next
  case (MsgRecords sid round page rs es cs)
  have "parse_all record_from_value (JArr (map record_to_value rs)) = Some rs"
    "parse_all endorsement_from_value (JArr (map endorsement_to_value es)) = Some es"
    "parse_all (conflict_from_value is_nfc) (JArr (map conflict_to_value cs)) = Some cs"
    using assms MsgRecords wire_record.dec_enc endorsement.dec_enc conflict.dec_enc
    by (auto simp: message_ok_def intro: parse_all_written)
  with assms MsgRecords show ?thesis
    by (simp add: message_ok_def message_from_value_def envelope_def field_jobj of_u64_def)
next
  case (MsgEntries sid round page es)
  have "parse_all (entry_from_value is_nfc) (JArr (map entry_to_value es)) = Some es"
    using assms MsgEntries entry_codec.dec_enc by (auto simp: message_ok_def intro: parse_all_written)
  with assms MsgEntries show ?thesis
    by (simp add: message_ok_def message_from_value_def envelope_def field_jobj of_u64_def)
next
  case (MsgInvite sid d rs es n total key)
  have "parse_all record_from_value (JArr (map record_to_value rs)) = Some rs"
    "parse_all endorsement_from_value (JArr (map endorsement_to_value es)) = Some es"
    "descriptor_from_value (descriptor_to_value d) = Some d"
    using assms MsgInvite wire_record.dec_enc endorsement.dec_enc descriptor.dec_enc
    by (auto simp: message_ok_def intro: parse_all_written)
  with assms MsgInvite show ?thesis
    by (simp add: message_ok_def message_from_value_def invite_from_value_def envelope_def field_jobj of_u64_def)
next
  case (MsgNeed sid n paths)
  have "parse_all (need_path is_nfc) (JArr (map JStr paths)) = Some paths"
    using assms MsgNeed need_path_round by (auto simp: message_ok_def intro: parse_all_written)
  with assms MsgNeed show ?thesis
    by (simp add: message_ok_def message_from_value_def envelope_def field_jobj of_u64_def)
next
  case (MsgOffer sid n tx files)
  have "parse_all (file_from_value is_nfc) (JArr (map file_to_value files)) = Some files"
    using assms MsgOffer
      parse_all_written [of "\<lambda>f. path_ok is_nfc (fst f) \<and> path_ok is_nfc (snd f)" files
        "file_from_value is_nfc" file_to_value, OF _ file_round]
    by (simp add: message_ok_def)
  with assms MsgOffer show ?thesis
    by (simp add: message_ok_def tx_ok_def message_from_value_def tx_field_def envelope_def field_jobj of_u64_def)
qed (use assms in \<open>simp_all add: message_ok_def tx_ok_def message_from_value_def tx_field_def
  envelope_def field_jobj of_u64_def\<close>)

section \<open>Properties of the gate\<close>

text \<open>
  Every message survives the wire: a message within the dialect's bounds parses back from its
  own wire form to itself, for all nine message types.
\<close>

theorem message_round_trip:
  "message_ok is_nfc m \<Longrightarrow> message_from_value is_nfc (message_to_value m) = Some m"
  by (rule message_round_trip_aux)

definition sample_need :: message where
  "sample_need = MsgNeed (replicate 22 CHR ''A'') 5 [''docs/a.txt'', ''b.txt'']"

lemma sample_need_ok: "message_ok (\<lambda>_. True) sample_need"
  by (simp add: sample_need_def message_ok_def page_of_def valid_set_id_def list_all_iff is_alnum_def
      is_digit_def path_ok_def check_wire_path_def PATH_MAX_BYTES_def check_component_def
      COMPONENT_MAX_BYTES_def STAGING_DIR_def STAGING_SUFFIX_def windows_reserved_def starts_with_def
      ends_with_def to_upper_def basename_def Let_def)

lemma message_round_trip_witness:
  "message_from_value (\<lambda>_. True) (message_to_value sample_need) = Some sample_need"
  by (rule message_round_trip [OF sample_need_ok])

text \<open>
  C14. Nothing malformed passes the gate: a message that parses has a well-formed set id, records,
  endorsements, conflicts and entries within their bounds, paths that pass the path gate, at most
  4096 items a list, at most 256 declared pages, and no two needed paths with one basename.
\<close>

theorem gate_admits_only_well_formed:
  assumes "json_ok v" and "message_from_value is_nfc v = Some m"
  shows "message_ok is_nfc m"
proof -
  note page = list_field_sound [OF _ assms(1)]
  from assms(2) obtain sid kind where sid: "valid_set_id sid"
    and kind: "str_field v ''type'' = Some kind" "str_field v ''set_id'' = Some sid"
    by (auto simp: message_from_value_def bind_Some_iff split: if_splits)
  consider "kind = ''head''" | "kind = ''records''" | "kind = ''entries''" | "kind = ''invite''"
    | "kind = ''invite_ack''" | "kind = ''need''" | "kind = ''offer''" | "kind = ''done''" | "kind = ''cannot''"
    using assms(2) kind by (auto simp: message_from_value_def bind_Some_iff split: if_splits)
  then have "message_set_id m = sid \<and> body_ok is_nfc m"
  proof cases
    case 1
    then show ?thesis using assms kind head_sound
      by (auto simp: message_from_value_def bind_Some_iff split: if_splits)
  next
    case 2
    then show ?thesis
      using assms kind page [OF _ conjunct1 [OF wire_record.enc_dec]]
        page [OF _ conjunct1 [OF endorsement.enc_dec]] page [OF _ conjunct1 [OF conflict.enc_dec]]
      by (auto simp: message_from_value_def bind_Some_iff split: if_splits)
  next
    case 3
    then show ?thesis
      using assms kind page [OF _ conjunct1 [OF entry_codec.enc_dec]]
      by (auto simp: message_from_value_def bind_Some_iff split: if_splits)
  next
    case 4
    then show ?thesis using assms kind invite_sound
      by (auto simp: message_from_value_def bind_Some_iff split: if_splits)
  next
    case 6
    then show ?thesis
      using assms kind page [OF _ need_path_sound]
      by (auto simp: message_from_value_def bind_Some_iff split: if_splits)
  next
    case 7
    then show ?thesis
      using assms kind page [OF _ file_sound] tx_sound
      by (auto simp: message_from_value_def bind_Some_iff split: if_splits)
  qed (use assms kind tx_sound in \<open>auto simp: message_from_value_def bind_Some_iff split: if_splits\<close>)
  with sid show ?thesis by (simp add: message_ok_def)
qed

lemma gate_admits_only_well_formed_witness:
  "\<exists>v. message_from_value (\<lambda>_. True) v = Some sample_need \<and> message_ok (\<lambda>_. True) sample_need"
proof -
  have "json_ok (message_to_value sample_need)"
    unfolding sample_need_def message_to_value.simps envelope_def
    by (intro json_ok_jobj) (auto simp: of_u64_def)
  moreover have parse: "message_from_value (\<lambda>_. True) (message_to_value sample_need) = Some sample_need"
    using message_round_trip_aux [OF sample_need_ok] .
  ultimately show ?thesis using gate_admits_only_well_formed by blast
qed

end
