(* ===== verification/Paging.thy ===== *)
theory Paging
  imports Protocol
begin

text \<open>
  Byte-budgeted pages: \<open>paginate\<close> of \<open>sync/src/protocol.rs\<close> and \<open>paginate_gossip\<close> of
  \<open>sync/src/engine.rs\<close>. The parameter \<open>size\<close> is the length of an item's JSON serialization.
\<close>

fun paginate_from ::
  "(json \<Rightarrow> nat) \<Rightarrow> json list list \<Rightarrow> json list \<Rightarrow> nat \<Rightarrow> json list \<Rightarrow> json list list option" where
  "paginate_from sz pages current current_bytes [] =
     Some (if current = [] then pages else pages @ [current])"
| "paginate_from sz pages current current_bytes (item # items) =
     (let bytes = sz item + 1
      in if PAGE_BUDGET_BYTES < bytes then None
         else if PAGE_BUDGET_BYTES < current_bytes + bytes \<and> current \<noteq> []
           then paginate_from sz (pages @ [current]) [item] bytes items
         else paginate_from sz pages (current @ [item]) (current_bytes + bytes) items)"

definition paginate :: "(json \<Rightarrow> nat) \<Rightarrow> json list \<Rightarrow> json list list option" where
  "paginate sz items = paginate_from sz [] [] 0 items"

type_synonym gossip_page = "json list \<times> json list \<times> json list"

definition tagged :: "string \<Rightarrow> json \<Rightarrow> json" where
  "tagged k v = jobj [(''k'', JStr k), (''v'', v)]"

definition index_value :: "json \<Rightarrow> string \<Rightarrow> json" where
  "index_value v k = (case jget v k of None \<Rightarrow> JNull | Some x \<Rightarrow> x)"

definition file_item :: "gossip_page \<Rightarrow> json \<Rightarrow> gossip_page" where
  "file_item page item =
     (case page of (rs, es, cs) \<Rightarrow>
        let v = index_value item ''v''
        in if as_str (index_value item ''k'') = Some ''r'' then (rs @ [v], es, cs)
           else if as_str (index_value item ''k'') = Some ''e'' then (rs, es @ [v], cs)
           else (rs, es, cs @ [v]))"

definition gossip_items :: "json list \<Rightarrow> json list \<Rightarrow> json list \<Rightarrow> json list" where
  "gossip_items records endorsements conflicts =
     map (tagged ''r'') records @ map (tagged ''e'') endorsements @ map (tagged ''c'') conflicts"

definition paginate_gossip ::
  "(json \<Rightarrow> nat) \<Rightarrow> json list \<Rightarrow> json list \<Rightarrow> json list \<Rightarrow> gossip_page list" where
  "paginate_gossip sz records endorsements conflicts =
     (let items = gossip_items records endorsements conflicts;
          chunks = (case paginate sz items of None \<Rightarrow> [] | Some chunks \<Rightarrow> chunks);
          pages = map (foldl file_item ([], [], [])) chunks
      in if pages = [] \<and> items \<noteq> [] then [([], [], [])] else pages)"

section \<open>The loop\<close>

definition page_bytes :: "(json \<Rightarrow> nat) \<Rightarrow> json list \<Rightarrow> nat" where
  "page_bytes sz page = (\<Sum>i\<leftarrow>page. sz i + 1)"

lemma page_bytes_simps [simp]:
  "page_bytes sz [] = 0" "page_bytes sz (i # is) = sz i + 1 + page_bytes sz is"
  "page_bytes sz (as @ bs) = page_bytes sz as + page_bytes sz bs"
  by (simp_all add: page_bytes_def)

definition page_fits :: "(json \<Rightarrow> nat) \<Rightarrow> json list \<Rightarrow> bool" where
  "page_fits sz page \<longleftrightarrow> page \<noteq> [] \<and> page_bytes sz page \<le> PAGE_BUDGET_BYTES"

lemma paginate_from_spec:
  assumes "paginate_from sz pages current n items = Some out"
    and "n = page_bytes sz current" and "n \<le> PAGE_BUDGET_BYTES" and "\<forall>p \<in> set pages. page_fits sz p"
  shows "concat out = concat pages @ current @ items \<and> (\<forall>p \<in> set out. page_fits sz p)"
  using assms
proof (induction sz pages current n items rule: paginate_from.induct)
  case (1 sz pages current n)
  then show ?case by (auto simp: page_fits_def split: if_splits)
next
  case (2 sz pages current n item items)
  let ?b = "sz item + 1"
  from "2.prems"(1) have fit: "\<not> PAGE_BUDGET_BYTES < ?b" by (auto simp: Let_def)
  show ?case
  proof (cases "PAGE_BUDGET_BYTES < n + ?b \<and> current \<noteq> []")
    case True
    with "2.prems"(1) fit have new: "paginate_from sz (pages @ [current]) [item] ?b items = Some out"
      by (simp add: Let_def)
    have finished: "\<forall>p \<in> set (pages @ [current]). page_fits sz p"
      using "2.prems"(2-4) True by (auto simp: page_fits_def)
    have "?b = page_bytes sz [item]" "?b \<le> PAGE_BUDGET_BYTES" using fit by simp_all
    from "2.IH"(1) [OF refl fit True new this finished] show ?thesis by simp
  next
    case False
    have new: "paginate_from sz pages (current @ [item]) (n + ?b) items = Some out"
      using "2.prems"(1) fit False by (auto simp: Let_def split: if_splits)
    have "n + ?b \<le> PAGE_BUDGET_BYTES" using False fit "2.prems"(2) by auto
    from "2.IH"(2) [OF refl fit False new _ this "2.prems"(4)] "2.prems"(2) show ?thesis by simp
  qed
qed

lemma paginate_from_None:
  "paginate_from sz pages current n items = None \<longleftrightarrow> (\<exists>i \<in> set items. PAGE_BUDGET_BYTES < sz i + 1)"
  by (induction sz pages current n items rule: paginate_from.induct) (auto simp: Let_def)

lemma paginate_Some:
  "paginate sz items = Some out \<Longrightarrow> concat out = items \<and> (\<forall>p \<in> set out. page_fits sz p)"
  using paginate_from_spec [of sz "[]" "[]" 0 items out] by (simp add: paginate_def)

lemma pages_bytes_bound:
  "\<forall>p \<in> set out. page_fits sz p \<Longrightarrow> page_bytes sz (concat out) \<le> length out * PAGE_BUDGET_BYTES"
  by (induction out) (auto simp: page_fits_def)

section \<open>Gossip pages\<close>

lemma tagged_get [simp]: "index_value (tagged k v) ''v'' = v" "index_value (tagged k v) ''k'' = JStr k"
  by (simp_all add: index_value_def tagged_def jget_jobj)

definition untag :: "string \<Rightarrow> json list \<Rightarrow> json list" where
  "untag k items = map (\<lambda>i. index_value i ''v'') (filter (\<lambda>i. index_value i ''k'' = JStr k) items)"

lemma file_items:
  assumes "\<forall>i \<in> set items. index_value i ''k'' \<in> {JStr ''r'', JStr ''e'', JStr ''c''}"
  shows "foldl file_item (rs, es, cs) items =
    (rs @ untag ''r'' items, es @ untag ''e'' items, cs @ untag ''c'' items)"
  using assms
proof (induction items arbitrary: rs es cs)
  case Nil
  then show ?case by (simp add: untag_def)
next
  case (Cons i items)
  then show ?case by (auto simp: file_item_def untag_def Let_def)
qed

lemma untag_concat: "untag k (concat chunks) = concat (map (untag k) chunks)"
  by (induction chunks) (simp_all add: untag_def)

lemma untag_gossip:
  "untag ''r'' (gossip_items rs es cs) = rs" "untag ''e'' (gossip_items rs es cs) = es"
  "untag ''c'' (gossip_items rs es cs) = cs"
  by (simp_all add: untag_def gossip_items_def filter_map comp_def)

section \<open>Properties\<close>

text \<open>
  Pages are exact: paginating either refuses, which happens exactly when some item alone
  exceeds the budget, or yields non-empty pages, each within the budget as measured, whose
  concatenation is the list itself.
\<close>

theorem pages_are_exact:
  "case paginate sz items of
     None \<Rightarrow> \<exists>i \<in> set items. PAGE_BUDGET_BYTES < sz i + 1
   | Some pages \<Rightarrow> (\<forall>i \<in> set items. sz i + 1 \<le> PAGE_BUDGET_BYTES) \<and> concat pages = items \<and>
       (\<forall>p \<in> set pages. p \<noteq> [] \<and> page_bytes sz p \<le> PAGE_BUDGET_BYTES)"
  using paginate_Some [of sz items] paginate_from_None [of sz "[]" "[]" 0 items]
  by (auto simp: paginate_def page_fits_def not_less split: option.splits)

lemma pages_are_exact_witness:
  "\<exists>pages. paginate (\<lambda>_. 20000) [JNull, JNull, JNull] = Some pages \<and> concat pages = [JNull, JNull, JNull] \<and>
     length pages = 2"
proof -
  have "paginate (\<lambda>_. 20000) [JNull, JNull, JNull] = Some [[JNull, JNull], [JNull]]"
    by (simp add: paginate_def PAGE_BUDGET_BYTES_def Let_def)
  with pages_are_exact [where sz = "\<lambda>_. 20000" and items = "[JNull, JNull, JNull]"] show ?thesis by simp
qed

text \<open>
  The gossip pages carry all three lists, each in its order and nothing twice, under one budget:
  when no tagged item exceeds it, the pages' records concatenate to the records, likewise the
  endorsements and the conflicts, and no page carries more than the budget's worth of tagged items.
\<close>

theorem gossip_pages_carry_everything:
  assumes "\<forall>i \<in> set (gossip_items rs es cs). sz i + 1 \<le> PAGE_BUDGET_BYTES"
    and "pages = paginate_gossip sz rs es cs"
  shows "concat (map fst pages) = rs \<and> concat (map (fst \<circ> snd) pages) = es \<and>
    concat (map (snd \<circ> snd) pages) = cs \<and>
    (\<forall>p \<in> set pages. page_bytes sz (gossip_items (fst p) (fst (snd p)) (snd (snd p))) \<le> PAGE_BUDGET_BYTES)"
proof -
  let ?items = "gossip_items rs es cs"
  have "paginate sz ?items \<noteq> None"
    using assms(1) paginate_from_None [of sz "[]" "[]" 0 ?items] by (auto simp: paginate_def)
  then obtain chunks where chunks: "paginate sz ?items = Some chunks" by blast
  note spec = paginate_Some [OF chunks]
  have keys: "index_value i ''k'' \<in> {JStr ''r'', JStr ''e'', JStr ''c''}" if "i \<in> set ?items" for i
    using that by (auto simp: gossip_items_def)
  have split: "foldl file_item ([], [], []) c = (untag ''r'' c, untag ''e'' c, untag ''c'' c)"
    if "c \<in> set chunks" for c
  proof -
    have "set c \<subseteq> set ?items" using that spec by (metis UN_upper set_concat)
    with keys file_items [of c "[]" "[]" "[]"] show ?thesis by (simp add: subset_iff)
  qed
  have nonempty: "chunks \<noteq> [] \<or> ?items = []" using spec by auto
  have pages: "pages = map (\<lambda>c. (untag ''r'' c, untag ''e'' c, untag ''c'' c)) chunks"
    using nonempty split by (auto simp: assms(2) paginate_gossip_def chunks Let_def)
  have lists: "concat (map (untag k) chunks) = untag k ?items" for k
    using spec by (simp add: untag_concat [symmetric])
  have item: "\<exists>v. i = tagged ''r'' v \<or> i = tagged ''e'' v \<or> i = tagged ''c'' v" if "i \<in> set ?items" for i
    using that by (auto simp: gossip_items_def)
  have bytes: "page_bytes sz (gossip_items (untag ''r'' c) (untag ''e'' c) (untag ''c'' c)) = page_bytes sz c"
    if "set c \<subseteq> set ?items" for c
    using that
  proof (induction c)
    case Nil
    then show ?case by (simp add: untag_def gossip_items_def)
  next
    case (Cons i c)
    then obtain v where "i = tagged ''r'' v \<or> i = tagged ''e'' v \<or> i = tagged ''c'' v"
      using item by (metis list.set_intros(1) subsetD)
    with Cons show ?case by (auto simp: untag_def gossip_items_def)
  qed
  have "set c \<subseteq> set ?items" if "c \<in> set chunks" for c
    using that spec by (metis UN_upper set_concat)
  then show ?thesis
    using spec lists untag_gossip by (auto simp: pages comp_def page_fits_def bytes)
qed

lemma gossip_pages_carry_everything_witness:
  "\<exists>pages. pages = paginate_gossip (\<lambda>_. 30000) [JBool True] [] [JBool False] \<and>
     concat (map fst pages) = [JBool True] \<and> concat (map (snd \<circ> snd) pages) = [JBool False]"
  using gossip_pages_carry_everything [of "[JBool True]" "[]" "[JBool False]" "\<lambda>_. 30000", OF _ refl]
  by (simp add: PAGE_BUDGET_BYTES_def)

end
