(* ===== verification/SetState.thy ===== *)
theory SetState
  imports Scan Paging
begin

text \<open>
  The state the engine keeps for one set (\<open>SetState\<close> of \<open>sync/src/engine.rs\<close>) and its operations
  that touch no file of the tree: the advertised vector, the parking of absorbed entries, the round
  buffers with their bounds, the throttle on answers, the consent guard and the conflict records.

  The fields are those of the code; the directory of the set's clock is the field \<open>ss_lease\<close>.
\<close>

definition PENDING_PER_PATH :: nat where "PENDING_PER_PATH = 4"

definition PENDING_PATHS_MAX :: nat where "PENDING_PATHS_MAX = 100000"

definition ROUND_TTL_SECS :: nat where "ROUND_TTL_SECS = 60"

definition ROUNDS_IN_FLIGHT_PER_PEER :: nat where "ROUNDS_IN_FLIGHT_PER_PEER = 4"

definition CONFLICTS_MAX :: nat where "CONFLICTS_MAX = 10000"

definition ANSWER_INTERVAL_SECS :: nat where "ANSWER_INTERVAL_SECS = 1"

record invite_claim =
  ic_inviter :: string
  ic_entries :: nat
  ic_total_size :: nat

type_synonym records_page = "wire_record list \<times> endorsement list \<times> conflict_record list"

record round_buffer =
  rb_head :: "(head_position \<times> nat option) option"
  rb_records :: "(nat, records_page) btree"
  rb_entries :: "(nat, entry list) btree"
  rb_born_at :: nat

record parked_entry =
  pk_staged :: string
  pk_entry :: entry
  pk_reason :: string
  pk_attempts :: nat

text \<open>A \<open>BTreeSet\<close> is an ordered map to \<^typ>\<open>unit\<close>.\<close>

type_synonym 'k bset = "('k, unit) btree"

record stub =
  st_remaining :: "string bset"
  st_attempts :: nat

record active_pull =
  ap_tx_id :: string
  ap_staging :: string
  ap_files :: "(string, string) btree"
  ap_transfer :: "string option"

record need_state =
  nd_peer :: string
  nd_paths :: "string bset"
  nd_pull :: "active_pull option"
  nd_born_at :: nat

record set_state =
  ss_membership :: membership
  ss_index :: set_index
  ss_clock :: clock
  ss_lease :: disk
  ss_root :: "string option"
  ss_pending :: "(string, entry list) btree"
  ss_watermarks :: "(string, vv) btree"
  ss_claim :: "invite_claim option"
  ss_inflight :: "(string \<times> nat, round_buffer) btree"
  ss_open_invites :: "(string, nat) btree"
  ss_intro_attempts :: "(string, nat) btree"
  ss_stub :: "stub option"
  ss_announce :: "string bset"
  ss_last_opened :: "(string, nat \<times> vv) btree"
  ss_last_answered :: "(string, nat) btree"
  ss_last_served :: "(string, nat) btree"
  ss_refused :: "(string \<times> string, nat) btree"
  ss_last_round :: "(string, nat) btree"
  ss_needs :: "(nat, need_state) btree"
  ss_need_counter :: nat
  ss_published :: "(string \<times> nat, string) btree"
  ss_publishing :: "(string \<times> nat, (string, string) btree) btree"
  ss_parked :: "(string, parked_entry) btree"
  ss_conflicts :: "(string \<times> string, conflict_record) btree"
  ss_landed_bytes :: nat
  ss_ignored :: "ignored list"
  ss_watch_degraded :: bool
  ss_root_unreadable :: bool
  ss_disk_full :: bool
  ss_early_outcomes :: "(string, bool \<times> string) btree"
  ss_hot :: "(string, nat) btree"

definition fresh :: "membership \<Rightarrow> string option \<Rightarrow> string \<Rightarrow> nat \<Rightarrow> disk \<Rightarrow> (string + set_state) \<times> disk" where
  "fresh m root self_node now d =
     (case clock_open [] self_node now d of
        (Inl e, d) \<Rightarrow> (Inl e, d)
      | (Inr c, d) \<Rightarrow>
          (Inr \<lparr>ss_membership = m, ss_index = [], ss_clock = c, ss_lease = d, ss_root = root,
                ss_pending = [], ss_watermarks = [], ss_claim = None, ss_inflight = [],
                ss_open_invites = [], ss_intro_attempts = [], ss_stub = None, ss_announce = [],
                ss_last_opened = [], ss_last_answered = [], ss_last_served = [], ss_refused = [],
                ss_last_round = [], ss_needs = [], ss_need_counter = 0, ss_published = [],
                ss_publishing = [], ss_parked = [], ss_conflicts = [], ss_landed_bytes = 0,
                ss_ignored = [], ss_watch_degraded = False, ss_root_unreadable = False,
                ss_disk_full = False, ss_early_outcomes = [], ss_hot = []\<rparr>, d))"

section \<open>Operations\<close>

definition advertised :: "string \<Rightarrow> set_state \<Rightarrow> vv" where
  "advertised self st =
     foldl (\<lambda>vv w. merge_max vv (snd w))
       (if c_current (ss_clock st) > 0 then vv_set self (c_current (ss_clock st)) [] else [])
       (ss_watermarks st)"

definition versions_at :: "set_state \<Rightarrow> string \<Rightarrow> entry list" where
  "versions_at st path = (case map_of (ss_pending st) path of None \<Rightarrow> [] | Some vs \<Rightarrow> vs)"

definition index_covers :: "set_state \<Rightarrow> entry \<Rightarrow> bool" where
  "index_covers st e =
     (case index_get (ss_index st) (e_path e) of
        None \<Rightarrow> False
      | Some ours \<Rightarrow> covers (e_vv ours) (e_vv e))"

definition absorb_entry :: "entry \<Rightarrow> set_state \<Rightarrow> bool \<times> set_state" where
  "absorb_entry e st =
     (if index_covers st e then (True, st)
      else if map_of (ss_pending st) (e_path e) = None \<and> length (ss_pending st) \<ge> PENDING_PATHS_MAX
        then (False, st)
      else
        let parked = filter (\<lambda>held. \<not> covers (e_vv e) (e_vv held)) (versions_at st (e_path e));
            retained = st\<lparr>ss_pending := bt_insert (e_path e) parked (ss_pending st)\<rparr>
        in if list_ex (\<lambda>held. covers (e_vv held) (e_vv e)) parked then (True, retained)
           else if length parked \<ge> PENDING_PER_PATH then (False, retained)
           else (True, st\<lparr>ss_pending := bt_insert (e_path e) (parked @ [e]) (ss_pending st)\<rparr>))"

definition drop_covered :: "vv \<Rightarrow> entry list \<Rightarrow> entry list" where
  "drop_covered vv versions = filter (\<lambda>held. \<not> covers vv (e_vv held)) versions"

definition set_versions :: "string \<Rightarrow> entry list \<Rightarrow> set_state \<Rightarrow> set_state" where
  "set_versions path versions st =
     st\<lparr>ss_pending := (if versions = [] then bt_remove path (ss_pending st)
                       else bt_insert path versions (ss_pending st))\<rparr>"

definition settle_pending :: "string \<Rightarrow> vv \<Rightarrow> set_state \<Rightarrow> set_state" where
  "settle_pending path vv st =
     (case map_of (ss_pending st) path of
        None \<Rightarrow> st
      | Some versions \<Rightarrow> set_versions path (drop_covered vv versions) st)"

definition size_guard_tripped :: "set_state \<Rightarrow> bool" where
  "size_guard_tripped st =
     (case ss_claim st of
        None \<Rightarrow> False
      | Some claim \<Rightarrow>
          ss_landed_bytes st >
            min u64_max (min u64_max (ic_total_size claim * 2) + 100 * 1024 * 1024))"

section \<open>Round buffers\<close>

definition prune_buffers :: "nat \<Rightarrow> set_state \<Rightarrow> set_state" where
  "prune_buffers now st =
     st\<lparr>ss_inflight := filter (\<lambda>b. now - rb_born_at (snd b) \<le> ROUND_TTL_SECS) (ss_inflight st)\<rparr>"

text \<open>The first of the oldest, as \<open>min_by_key\<close> picks it.\<close>

fun oldest :: "('k \<times> round_buffer) list \<Rightarrow> 'k option" where
  "oldest [] = None"
| "oldest ((k, b) # bs) =
     (if list_all (\<lambda>c. rb_born_at b \<le> rb_born_at (snd c)) bs then Some k else oldest bs)"

definition buffer_new :: "nat \<Rightarrow> round_buffer" where
  "buffer_new now = \<lparr>rb_head = None, rb_records = [], rb_entries = [], rb_born_at = now\<rparr>"

definition buffers_of :: "string \<Rightarrow> set_state \<Rightarrow> (string \<times> nat, round_buffer) btree" where
  "buffers_of from st = filter (\<lambda>b. fst (fst b) = from) (ss_inflight st)"

definition admit_buffer :: "string \<Rightarrow> nat \<Rightarrow> nat \<Rightarrow> set_state \<Rightarrow> bool \<times> set_state" where
  "admit_buffer from round now st =
     (if map_of (ss_inflight st) (from, round) \<noteq> None then (True, st)
      else
        let mine = buffers_of from st;
            room = (if length mine \<ge> ROUNDS_IN_FLIGHT_PER_PEER
                    then (case oldest mine of None \<Rightarrow> ss_inflight st
                          | Some k \<Rightarrow> bt_remove k (ss_inflight st))
                    else ss_inflight st)
        in (True, st\<lparr>ss_inflight := bt_insert (from, round) (buffer_new now) room\<rparr>))"

definition buffer_page ::
  "string \<Rightarrow> nat \<Rightarrow> nat \<Rightarrow> (round_buffer \<Rightarrow> round_buffer) \<Rightarrow> set_state \<Rightarrow> set_state" where
  "buffer_page from round now fill st =
     (case admit_buffer from round now (prune_buffers now st) of
        (admitted, st) \<Rightarrow>
          if \<not> admitted then st
          else (case map_of (ss_inflight st) (from, round) of
                  None \<Rightarrow> st
                | Some b \<Rightarrow>
                    if length (rb_records b) > ROUND_PAGES_MAX \<or> length (rb_entries b) > ROUND_PAGES_MAX
                    then st
                    else st\<lparr>ss_inflight := bt_insert (from, round) (fill b) (ss_inflight st)\<rparr>))"

definition answer_due_now :: "string \<Rightarrow> nat \<Rightarrow> set_state \<Rightarrow> bool \<times> set_state" where
  "answer_due_now peer now st =
     (case map_of (ss_last_answered st) peer of
        Some at \<Rightarrow>
          if now - at < ANSWER_INTERVAL_SECS then (False, st)
          else (True, st\<lparr>ss_last_answered := bt_insert peer now (ss_last_answered st)\<rparr>)
      | None \<Rightarrow> (True, st\<lparr>ss_last_answered := bt_insert peer now (ss_last_answered st)\<rparr>))"

section \<open>Conflict records\<close>

definition absorb_conflict :: "deps \<Rightarrow> conflict_record \<Rightarrow> set_state \<Rightarrow> set_state" where
  "absorb_conflict dp r st =
     (if cr_set_id r \<noteq> sd_set_id (sm_descriptor (ss_membership st)) then st
      else if \<not> is_admitted (ss_membership st) (cr_signed_by r) then st
      else (case key_for (ss_membership st) (cr_signed_by r) of
              None \<Rightarrow> st
            | Some signer_key \<Rightarrow>
                if \<not> conflict_verify dp signer_key r then st
                else
                  let key = (cr_path r, cr_conflict_id r)
                  in if map_of (ss_conflicts st) key = None \<and> length (ss_conflicts st) \<ge> CONFLICTS_MAX then st
                     else if (case map_of (ss_conflicts st) key of
                                Some held \<Rightarrow> conflict_beats r held
                              | None \<Rightarrow> True)
                     then st\<lparr>ss_conflicts := bt_insert key r (ss_conflicts st)\<rparr>
                     else st))"

end
