(* ===== verification/Landing.thy ===== *)
theory Landing
  imports SetState
begin

text \<open>
  What turns pending versions into files and index entries: the fast apply path of a staged file,
  the tombstones, the directories, the parked renames, and \<open>drain_pending\<close> which runs them
  (\<open>sync/src/engine.rs\<close>).

  Every filesystem call is answered by the record \<open>fs_env\<close>: its fields are the outcomes of one kind
  of call by wire path, so an arbitrary \<open>fs_env\<close> is an arbitrary filesystem. One drain makes each
  kind of call at most once per path.
\<close>

definition PARKED_ATTEMPTS_MAX :: nat where "PARKED_ATTEMPTS_MAX = 16"

datatype disk_node = DirNode | AbsentNode | OtherNode

datatype rename_outcome = RenameOk | RenameCrossDevice | RenameError

datatype remove_outcome = RemoveOk | RemoveAbsent | RemoveError

record occupant =
  oc_len :: nat
  oc_modified :: "mtime option"
  oc_hash :: "string option"

record staged_env =
  ax_hash :: "string option"
  ax_occupant :: "occupant option"
  ax_parent_ok :: bool
  ax_dir_in_the_way :: bool
  ax_remove_dir_ok :: bool
  ax_rename :: rename_outcome
  ax_copy_ok :: bool
  ax_rename_again_ok :: bool
  ax_parked_dir_ok :: bool
  ax_park_ok :: bool
  ax_error :: string
  ax_mtime_back :: "mtime option"
  ax_size_back :: "nat option"

record fs_env =
  fx_node :: "string \<Rightarrow> disk_node"
  fx_lower :: "string \<Rightarrow> string"
  fx_apply :: "string \<Rightarrow> staged_env"
  fx_staged_exists :: "string \<Rightarrow> bool"
  fx_remove_file :: "string \<Rightarrow> remove_outcome"
  fx_remove_dir :: "string \<Rightarrow> remove_outcome"
  fx_blocking_file :: "string \<Rightarrow> bool"
  fx_create_dir :: "string \<Rightarrow> bool"

text \<open>
  \<open>fs_path\<close> answers whether the wire path names a place the engine may touch: below a bound root,
  and through real directories only.
\<close>

fun ancestors_ok :: "fs_env \<Rightarrow> string \<Rightarrow> string list \<Rightarrow> bool" where
  "ancestors_ok fx prefix (c # d # cs) \<longleftrightarrow>
     fx_node fx (prefix @ c) \<noteq> OtherNode \<and> ancestors_ok fx (prefix @ c @ ''/'') (d # cs)"
| "ancestors_ok fx prefix cs \<longleftrightarrow> True"

definition fs_path :: "fs_env \<Rightarrow> string \<Rightarrow> set_state \<Rightarrow> bool" where
  "fs_path fx wire st \<longleftrightarrow>
     ss_root st \<noteq> None \<and>
     (if sd_kind (sm_descriptor (ss_membership st)) = SFile then basename wire = wire
      else ancestors_ok fx [] (split_on CHR ''/'' wire))"

datatype apply_outcome = Landed | Conflict | ApplyFailed

text \<open>\<open>if let Ok(tick) = self.clock.tick() { vv.set(self_component, tick) }\<close>\<close>

definition bump :: "string \<Rightarrow> vv \<Rightarrow> set_state \<Rightarrow> vv \<times> set_state" where
  "bump self vv st =
     (case tick (ss_clock st) (ss_lease st) of
        (Inl e, c, d) \<Rightarrow> (vv, st\<lparr>ss_clock := c, ss_lease := d\<rparr>)
      | (Inr t, c, d) \<Rightarrow> (vv_set self t vv, st\<lparr>ss_clock := c, ss_lease := d\<rparr>))"

definition upsert :: "entry \<Rightarrow> set_state \<Rightarrow> set_state" where
  "upsert e st = st\<lparr>ss_index := index_upsert e (ss_index st)\<rparr>"

section \<open>A staged file\<close>

definition record_landed ::
  "staged_env \<Rightarrow> string \<Rightarrow> string \<Rightarrow> entry \<Rightarrow> string \<Rightarrow> bool \<Rightarrow> set_state \<Rightarrow> set_state" where
  "record_landed ax self set_path e hash resurrects st =
     (let mtime = (case ax_mtime_back ax of None \<Rightarrow> e_mtime e | Some m \<Rightarrow> m);
          size = (case ax_size_back ax of None \<Rightarrow> e_size e | Some n \<Rightarrow> n);
          st1 = (if ss_claim st \<noteq> None
                 then st\<lparr>ss_landed_bytes := min u64_max (ss_landed_bytes st + size)\<rparr> else st);
          (vv, st2) =
            (if resurrects
             then bump self (case index_get (ss_index st1) set_path of
                               None \<Rightarrow> e_vv e
                             | Some ours \<Rightarrow> merge_max (e_vv e) (e_vv ours)) st1
             else (e_vv e, st1))
      in settle_pending set_path (e_vv e)
           (upsert \<lparr>e_path = set_path, e_kind = EFile, e_size = size, e_mtime = mtime,
                    e_exec = e_exec e, e_hash = hash, e_vv = vv, e_deleted = False\<rparr> st2))"

definition parked_home :: "string \<Rightarrow> entry \<Rightarrow> string \<Rightarrow> string" where
  "parked_home root e set_path =
     root @ ''/'' @ STAGING_DIR @ ''/parked/'' @ take 16 (e_hash e) @ ''-'' @ basename set_path"

definition moved_under_the_pull :: "staged_env \<Rightarrow> entry \<Rightarrow> bool" where
  "moved_under_the_pull ax ours \<longleftrightarrow>
     (case ax_occupant ax of
        None \<Rightarrow> False
      | Some oc \<Rightarrow>
          (oc_len oc \<noteq> e_size ours \<or>
           (case oc_modified oc of None \<Rightarrow> False | Some m \<Rightarrow> m \<noteq> e_mtime ours)) \<and>
          oc_hash oc \<noteq> Some (e_hash ours))"

definition park_staged :: "staged_env \<Rightarrow> string \<Rightarrow> entry \<Rightarrow> set_state \<Rightarrow> set_state" where
  "park_staged ax set_path e st =
     (case ss_root st of
        None \<Rightarrow> st
      | Some root \<Rightarrow>
          if ax_parked_dir_ok ax \<and> ax_park_ok ax
          then st\<lparr>ss_parked := bt_insert set_path
                    \<lparr>pk_staged = parked_home root e set_path, pk_entry = e,
                     pk_reason = ''blocked: '' @ ax_error ax, pk_attempts = 0\<rparr> (ss_parked st)\<rparr>
          else st)"

definition move_into_place ::
  "staged_env \<Rightarrow> string \<Rightarrow> string \<Rightarrow> entry \<Rightarrow> string \<Rightarrow> bool \<Rightarrow> set_state \<Rightarrow> apply_outcome \<times> set_state" where
  "move_into_place ax self set_path e hash resurrects st =
     (if ax_rename ax = RenameOk then (Landed, record_landed ax self set_path e hash resurrects st)
      else if ax_rename ax = RenameCrossDevice \<and> \<not> ax_copy_ok ax then (ApplyFailed, st)
      else if \<not> ax_rename_again_ok ax then (ApplyFailed, park_staged ax set_path e st)
      else (Landed, record_landed ax self set_path e hash resurrects st))"

definition pulled_version :: "entry list \<Rightarrow> entry option" where
  "pulled_version versions = find (\<lambda>e. \<not> e_deleted e \<and> e_kind e = EFile) (rev versions)"

datatype standing = Dominates | Resurrects | Keepboth | Behind

definition standing_of :: "entry \<Rightarrow> entry option \<Rightarrow> standing" where
  "standing_of e local =
     (case local of
        None \<Rightarrow> Dominates
      | Some ours \<Rightarrow>
          (case vv_relation (e_vv e) (e_vv ours) of
             Descends \<Rightarrow> Dominates
           | Equal \<Rightarrow> Dominates
           | Concurrent \<Rightarrow> if e_deleted ours then Resurrects else Keepboth
           | Precedes \<Rightarrow> Behind))"

definition apply_staged ::
  "fs_env \<Rightarrow> string \<Rightarrow> string \<Rightarrow> set_state \<Rightarrow> apply_outcome \<times> set_state" where
  "apply_staged fx set_path self st =
     (if ss_root st = None then (ApplyFailed, st)
      else
        case map_of (ss_pending st) set_path of
          None \<Rightarrow> (Landed, st)
        | Some versions \<Rightarrow>
            (case pulled_version versions of
               None \<Rightarrow> (Landed, st)
             | Some e \<Rightarrow>
                 (let ax = fx_apply fx set_path; ours = index_get (ss_index st) set_path;
                      stand = standing_of e ours
                  in if stand = Keepboth then (Conflict, st)
                     else if stand = Behind then (ApplyFailed, st)
                     else if ax_hash ax \<noteq> Some (e_hash e) then (ApplyFailed, st)
                     else if (case ours of
                                None \<Rightarrow> False
                              | Some ours \<Rightarrow>
                                  \<not> e_deleted ours \<and> fs_path fx set_path st \<and> moved_under_the_pull ax ours)
                       then (ApplyFailed, st)
                     else if \<not> fs_path fx set_path st \<or> \<not> ax_parent_ok ax then (ApplyFailed, st)
                     else if ax_dir_in_the_way ax \<and> \<not> ax_remove_dir_ok ax then (ApplyFailed, st)
                     else move_into_place ax self set_path e (e_hash e) (stand = Resurrects) st)))"

definition apply_staged_file :: "fs_env \<Rightarrow> string \<Rightarrow> string \<Rightarrow> set_state \<Rightarrow> bool \<times> set_state" where
  "apply_staged_file fx set_path self st =
     (case apply_staged fx set_path self st of (outcome, st) \<Rightarrow> (outcome = Landed, st))"

section \<open>Parked renames\<close>

definition push_pending :: "string \<Rightarrow> entry \<Rightarrow> set_state \<Rightarrow> set_state" where
  "push_pending path e st = st\<lparr>ss_pending := bt_insert path (versions_at st path @ [e]) (ss_pending st)\<rparr>"

definition retry_one :: "fs_env \<Rightarrow> string \<Rightarrow> string \<Rightarrow> set_state \<Rightarrow> set_state" where
  "retry_one fx self path st =
     (case map_of (ss_parked st) path of
        None \<Rightarrow> st
      | Some pk \<Rightarrow>
          let e = pk_entry pk;
              unpark = (\<lambda>st. st\<lparr>ss_parked := bt_remove path (ss_parked st)\<rparr>)
          in if (case index_get (ss_index st) path of
                   None \<Rightarrow> False
                 | Some ours \<Rightarrow> vv_relation (e_vv ours) (e_vv e) \<in> {Descends, Equal})
             then unpark st
             else if \<not> fx_staged_exists fx (pk_staged pk) then unpark (push_pending path e st)
             else let st1 = push_pending path e st
                  in if pk_attempts pk \<ge> PARKED_ATTEMPTS_MAX then settle_pending path (e_vv e) st1
                     else let st2 = st1\<lparr>ss_parked := bt_insert path
                                     (pk\<lparr>pk_attempts := min (2 ^ 32 - 1) (pk_attempts pk + 1)\<rparr>)
                                     (ss_parked st1)\<rparr>
                          in case apply_staged_file fx path self st2 of
                               (True, st3) \<Rightarrow> unpark st3
                             | (False, st3) \<Rightarrow> settle_pending path (e_vv e) st3)"

definition retry_parked :: "fs_env \<Rightarrow> string \<Rightarrow> set_state \<Rightarrow> set_state" where
  "retry_parked fx self st = foldl (\<lambda>st path. retry_one fx self path st) st (map fst (ss_parked st))"

section \<open>Quiet merges\<close>

text \<open>The passes over the paths pending when the pass begins.\<close>

definition each_pending :: "(string \<Rightarrow> set_state \<Rightarrow> set_state) \<Rightarrow> set_state \<Rightarrow> set_state" where
  "each_pending f st = foldl (\<lambda>st path. f path st) st (map fst (ss_pending st))"

definition same_content :: "entry \<Rightarrow> entry \<Rightarrow> bool" where
  "same_content a b \<longleftrightarrow> e_deleted a = e_deleted b \<and> e_kind a = e_kind b \<and> e_hash a = e_hash b"

fun merge_versions :: "entry \<Rightarrow> bool \<Rightarrow> bool \<Rightarrow> entry list \<Rightarrow> entry list \<times> entry \<times> bool \<times> bool" where
  "merge_versions merged changed beat [] = ([], merged, changed, beat)"
| "merge_versions merged changed beat (incoming # rest) =
     (let merge = merged\<lparr>e_vv := merge_max (e_vv merged) (e_vv incoming)\<rparr>;
          keep = (case merge_versions merged changed beat rest of (kept, out) \<Rightarrow> (incoming # kept, out))
      in if vv_relation (e_vv incoming) (e_vv merged) \<noteq> Concurrent then keep
         else if same_content incoming merged then merge_versions merge True beat rest
         else if e_deleted incoming \<and> \<not> e_deleted merged then merge_versions merge True True rest
         else keep)"

definition news :: "entry \<Rightarrow> entry list \<Rightarrow> entry list" where
  "news ours versions =
     filter (\<lambda>incoming. vv_relation (e_vv incoming) (e_vv ours) \<in> {Descends, Concurrent}) versions"

definition quiet_path :: "string \<Rightarrow> string \<Rightarrow> set_state \<Rightarrow> set_state" where
  "quiet_path self path st =
     (case map_of (ss_pending st) path of
        None \<Rightarrow> st
      | Some versions \<Rightarrow>
          (case index_get (ss_index st) path of
             None \<Rightarrow> set_versions path versions st
           | Some ours \<Rightarrow>
               (case merge_versions ours False False (news ours versions) of
                  (kept, merged, changed, beat) \<Rightarrow>
                    (let st1 = set_versions path kept st
                     in if \<not> changed then st1
                        else (case (if beat then bump self (e_vv merged) st1 else (e_vv merged, st1)) of
                                (vv, st2) \<Rightarrow> upsert (merged\<lparr>e_vv := vv\<rparr>) st2)))))"

section \<open>Tombstones and directories\<close>

definition pending_of :: "bool \<Rightarrow> entry_kind \<Rightarrow> string \<Rightarrow> set_state \<Rightarrow> entry option" where
  "pending_of deleted kind path st =
     (case map_of (ss_pending st) path of
        None \<Rightarrow> None
      | Some versions \<Rightarrow> find (\<lambda>e. e_deleted e = deleted \<and> e_kind e = kind) (rev versions))"

definition dominates :: "entry \<Rightarrow> entry option \<Rightarrow> bool" where
  "dominates e local =
     (case local of
        None \<Rightarrow> True
      | Some ours \<Rightarrow> vv_relation (e_vv e) (e_vv ours) \<in> {Descends, Equal})"

definition folded_live :: "fs_env \<Rightarrow> string \<Rightarrow> set_state \<Rightarrow> bool" where
  "folded_live fx path st =
     list_ex (\<lambda>e. e_path e \<noteq> path \<and> fx_lower fx (e_path e) = fx_lower fx path) (live (ss_index st))"

definition apply_file_tombstone :: "fs_env \<Rightarrow> entry \<Rightarrow> set_state \<Rightarrow> set_state" where
  "apply_file_tombstone fx tomb st =
     (if ss_root st = None \<or> \<not> fs_path fx (e_path tomb) st then st
      else if \<not> folded_live fx (e_path tomb) st \<and> fx_remove_file fx (e_path tomb) = RemoveError then st
      else settle_pending (e_path tomb) (e_vv tomb) (upsert tomb st))"

definition file_tombstone_at :: "fs_env \<Rightarrow> string \<Rightarrow> set_state \<Rightarrow> set_state" where
  "file_tombstone_at fx path st =
     (case pending_of True EFile path st of
        None \<Rightarrow> st
      | Some tomb \<Rightarrow>
          if dominates tomb (index_get (ss_index st) path) then apply_file_tombstone fx tomb st else st)"

definition pending_dir_at :: "fs_env \<Rightarrow> string \<Rightarrow> set_state \<Rightarrow> set_state" where
  "pending_dir_at fx path st =
     (case pending_of False EDir path st of
        None \<Rightarrow> st
      | Some e \<Rightarrow>
          if dominates e (index_get (ss_index st) path) \<and> fs_path fx path st \<and>
             \<not> fx_blocking_file fx path \<and> fx_create_dir fx path
          then settle_pending path (e_vv e) (upsert e st)
          else st)"

definition apply_pending_dirs :: "fs_env \<Rightarrow> set_state \<Rightarrow> set_state" where
  "apply_pending_dirs fx st =
     (if ss_root st = None then st
      else each_pending (pending_dir_at fx) st)"

definition live_descendants :: "string \<Rightarrow> set_state \<Rightarrow> string list" where
  "live_descendants path st =
     map e_path (filter (\<lambda>e. starts_with (e_path e) (path @ ''/'')) (live (ss_index st)))"

definition pending_descendant :: "string \<Rightarrow> set_state \<Rightarrow> bool" where
  "pending_descendant path st =
     list_ex (\<lambda>p. starts_with (fst p) (path @ ''/'') \<and> list_ex (\<lambda>e. \<not> e_deleted e) (snd p)) (ss_pending st)"

definition survive :: "string \<Rightarrow> vv \<Rightarrow> string \<Rightarrow> set_state \<Rightarrow> set_state" where
  "survive self tomb_vv path st =
     (case index_get (ss_index st) path of
        None \<Rightarrow> st
      | Some e \<Rightarrow>
          if e_deleted e then st
          else (case bump self (merge_max (e_vv e) tomb_vv) st of
                  (vv, st) \<Rightarrow> upsert (e\<lparr>e_vv := vv\<rparr>) st))"

definition apply_dir_tombstone :: "fs_env \<Rightarrow> string \<Rightarrow> entry \<Rightarrow> set_state \<Rightarrow> set_state" where
  "apply_dir_tombstone fx self tomb st =
     (if ss_root st = None then st
      else if live_descendants (e_path tomb) st \<noteq> [] \<or> pending_descendant (e_path tomb) st \<or>
              \<not> dominates tomb (index_get (ss_index st) (e_path tomb))
      then settle_pending (e_path tomb) (e_vv tomb)
             (foldl (\<lambda>st path. survive self (e_vv tomb) path st) st
                (live_descendants (e_path tomb) st @ [e_path tomb]))
      else if \<not> fs_path fx (e_path tomb) st then st
      else if fx_remove_dir fx (e_path tomb) = RemoveError then st
      else settle_pending (e_path tomb) (e_vv tomb) (upsert tomb st))"

definition dir_tombstone_at :: "fs_env \<Rightarrow> string \<Rightarrow> string \<Rightarrow> set_state \<Rightarrow> set_state" where
  "dir_tombstone_at fx self path st =
     (case pending_of True EDir path st of None \<Rightarrow> st | Some tomb \<Rightarrow> apply_dir_tombstone fx self tomb st)"

section \<open>The drain\<close>

definition drain_files :: "fs_env \<Rightarrow> string \<Rightarrow> set_state \<Rightarrow> set_state" where
  "drain_files fx self st =
     (let st1 = retry_parked fx self st;
          st2 = each_pending (quiet_path self) st1;
          st3 = each_pending (file_tombstone_at fx) st2
      in apply_pending_dirs fx st3)"

definition drain_pending :: "fs_env \<Rightarrow> string \<Rightarrow> set_state \<Rightarrow> set_state" where
  "drain_pending fx self st = each_pending (dir_tombstone_at fx self) (drain_files fx self st)"

end
