(* ===== verification/Retention.thy ===== *)
theory Retention
  imports Landing
begin

text \<open>
  What the operations of a set keep. A state holds a version of a path when the index or the pending
  set carries it; an operation \<open>keeps\<close> what was held when every version held before is covered by
  one held after at the same path. \<open>evolves\<close> adds the well-formedness of the state, the monotone
  clock, and that no operation makes up a component value of another node.
\<close>

definition vv_le :: "vv \<Rightarrow> vv \<Rightarrow> bool" where
  "vv_le a b \<longleftrightarrow> (\<forall>k. vv_get a k \<le> vv_get b k)"

lemma vv_le_refl [simp]: "vv_le a a"
  by (simp add: vv_le_def)

lemma vv_le_trans: "vv_le a b \<Longrightarrow> vv_le b c \<Longrightarrow> vv_le a c"
  unfolding vv_le_def using order_trans by blast

lemma covers_vv_le: "bt_ok b \<Longrightarrow> covers a b \<longleftrightarrow> vv_le b a"
  by (simp add: covers_iff vv_le_def)

lemma merge_max_le: "bt_ok b \<Longrightarrow> vv_le a (merge_max a b) \<and> vv_le b (merge_max a b)"
  by (simp add: vv_le_def vv_get_merge_max)

lemma merge_max_least: "bt_ok b \<Longrightarrow> vv_le a c \<Longrightarrow> vv_le b c \<Longrightarrow> vv_le (merge_max a b) c"
  by (simp add: vv_le_def vv_get_merge_max)

definition held_at :: "set_state \<Rightarrow> string \<Rightarrow> entry list" where
  "held_at st p = (case index_get (ss_index st) p of None \<Rightarrow> [] | Some e \<Rightarrow> [e]) @ versions_at st p"

definition keeps :: "set_state \<Rightarrow> set_state \<Rightarrow> bool" where
  "keeps st st' \<longleftrightarrow>
     (\<forall>p. \<forall>e \<in> set (held_at st p). \<exists>e' \<in> set (held_at st' p). vv_le (e_vv e) (e_vv e'))"

lemma in_held_at:
  "e \<in> set (held_at st p) \<longleftrightarrow> index_get (ss_index st) p = Some e \<or> e \<in> set (versions_at st p)"
  by (auto simp: held_at_def split: option.splits)

lemma still_held: "e \<in> set xs \<Longrightarrow> \<exists>e' \<in> set xs. vv_le (e_vv e) (e_vv e')"
  by (rule bexI [of _ e]) simp_all

lemma keeps_refl [simp]: "keeps st st"
  unfolding keeps_def using vv_le_refl by blast

lemma keeps_trans: "keeps a b \<Longrightarrow> keeps b c \<Longrightarrow> keeps a c"
  unfolding keeps_def using vv_le_trans by meson

definition pending_ok :: "(string, entry list) btree \<Rightarrow> bool" where
  "pending_ok m \<longleftrightarrow> bt_ok m \<and> (\<forall>p vs. map_of m p = Some vs \<longrightarrow> (\<forall>e \<in> set vs. e_path e = p \<and> bt_ok (e_vv e)))"

definition state_ok :: "string \<Rightarrow> set_state \<Rightarrow> bool" where
  "state_ok self st \<longleftrightarrow>
     index_ok (ss_index st) \<and> pending_ok (ss_pending st) \<and>
     (\<forall>p. \<forall>e \<in> set (held_at st p). vv_get (e_vv e) self \<le> c_current (ss_clock st))"

definition below :: "set_state \<Rightarrow> string \<Rightarrow> nat \<Rightarrow> bool" where
  "below st k b \<longleftrightarrow> (\<forall>p. \<forall>e \<in> set (held_at st p). vv_get (e_vv e) k \<le> b)"

definition from_held :: "string \<Rightarrow> set_state \<Rightarrow> vv \<Rightarrow> bool" where
  "from_held self st v \<longleftrightarrow> (\<forall>k b. k \<noteq> self \<longrightarrow> below st k b \<longrightarrow> vv_get v k \<le> b)"

text \<open>No path has more than \<open>n\<close> versions pending.\<close>

definition slots :: "set_state \<Rightarrow> nat \<Rightarrow> bool" where
  "slots st n \<longleftrightarrow> (\<forall>p. length (versions_at st p) \<le> n)"

definition evolves :: "string \<Rightarrow> set_state \<Rightarrow> set_state \<Rightarrow> bool" where
  "evolves self st st' \<longleftrightarrow>
     state_ok self st' \<and> keeps st st' \<and> c_current (ss_clock st) \<le> c_current (ss_clock st') \<and>
     (\<forall>k b. k \<noteq> self \<longrightarrow> below st k b \<longrightarrow> below st' k b) \<and> ss_watermarks st' = ss_watermarks st \<and>
     (\<forall>n. slots st n \<longrightarrow> slots st' n) \<and>
     c_generation (ss_clock st') = c_generation (ss_clock st)"

lemma evolves_refl [simp]: "evolves self st st \<longleftrightarrow> state_ok self st"
  by (auto simp: evolves_def)

lemma evolves_trans: "evolves self a b \<Longrightarrow> evolves self b c \<Longrightarrow> evolves self a c"
  unfolding evolves_def using keeps_trans by auto

lemma evolves_ok: "evolves self st st' \<Longrightarrow> state_ok self st'"
  by (simp add: evolves_def)

lemma versions_at_ok:
  "pending_ok (ss_pending st) \<Longrightarrow> e \<in> set (versions_at st p) \<Longrightarrow> e_path e = p \<and> bt_ok (e_vv e)"
  by (cases "map_of (ss_pending st) p") (auto simp: versions_at_def pending_ok_def)

lemma held_at_ok:
  assumes ok: "state_ok self st" and e: "e \<in> set (held_at st p)"
  shows "e_path e = p \<and> bt_ok (e_vv e) \<and> vv_get (e_vv e) self \<le> c_current (ss_clock st)"
proof -
  have "index_ok (ss_index st)" "pending_ok (ss_pending st)" using ok by (simp_all add: state_ok_def)
  with e have "e_path e = p \<and> bt_ok (e_vv e)"
    unfolding in_held_at using index_getD versions_at_ok by metis
  with ok e show ?thesis by (auto simp: state_ok_def)
qed

lemma held_at_upsert:
  "held_at (upsert e st) p = (if p = e_path e then e # versions_at st p else held_at st p)"
  by (auto simp: held_at_def upsert_def versions_at_def)

lemma versions_at_set:
  "versions_at (set_versions q vs st) p = (if p = q then vs else versions_at st p)"
  by (auto simp: versions_at_def set_versions_def)

lemma held_at_set:
  "held_at (set_versions q vs st) p =
     (case index_get (ss_index st) p of None \<Rightarrow> [] | Some e \<Rightarrow> [e]) @ (if p = q then vs else versions_at st p)"
  by (simp add: held_at_def versions_at_set) (simp add: set_versions_def)

lemma held_at_index: "index_get (ss_index st) p = Some e \<Longrightarrow> e \<in> set (held_at st p)"
  by (simp add: held_at_def)

lemma held_at_versions: "e \<in> set (versions_at st p) \<Longrightarrow> e \<in> set (held_at st p)"
  by (simp add: held_at_def)

lemma pending_ok_insert:
  "pending_ok m \<Longrightarrow> \<forall>e \<in> set vs. e_path e = p \<and> bt_ok (e_vv e) \<Longrightarrow> pending_ok (bt_insert p vs m)"
  by (auto simp: pending_ok_def)

lemma pending_ok_remove: "pending_ok m \<Longrightarrow> pending_ok (bt_remove p m)"
  by (auto simp: pending_ok_def)

section \<open>The elementary steps\<close>

lemma from_held_le: "from_held self st v \<Longrightarrow> vv_le w v \<Longrightarrow> from_held self st w"
  unfolding from_held_def vv_le_def using order_trans by blast

lemma keeps_below: "keeps st st' \<Longrightarrow> below st' k b \<Longrightarrow> below st k b"
  unfolding keeps_def below_def vv_le_def using order_trans by meson

lemma from_held_mono: "keeps st st' \<Longrightarrow> from_held self st v \<Longrightarrow> from_held self st' v"
  unfolding from_held_def using keeps_below by blast

lemma from_held_here: "e \<in> set (held_at st p) \<Longrightarrow> from_held self st (e_vv e)"
  by (auto simp: from_held_def below_def)

lemma from_held_merge:
  "from_held self st a \<Longrightarrow> from_held self st b \<Longrightarrow> bt_ok b \<Longrightarrow> from_held self st (merge_max a b)"
  by (auto simp: from_held_def vv_get_merge_max)

lemma from_held_set: "from_held self st v \<Longrightarrow> from_held self st (vv_set self t v)"
  by (auto simp: from_held_def)

lemma evolves_upsert:
  assumes ok: "state_ok self st" and e: "bt_ok (e_vv e)" "vv_get (e_vv e) self \<le> c_current (ss_clock st)"
    and ours: "\<And>old. index_get (ss_index st) (e_path e) = Some old \<Longrightarrow> vv_le (e_vv old) (e_vv e)"
    and held: "from_held self st (e_vv e)"
  shows "evolves self st (upsert e st)"
proof -
  have new: "h = e \<or> h \<in> set (held_at st p)" if "h \<in> set (held_at (upsert e st) p)" for h p
    using that by (auto simp: held_at_upsert in_held_at split: if_splits)
  have "\<exists>e' \<in> set (held_at (upsert e st) p). vv_le (e_vv h) (e_vv e')" if "h \<in> set (held_at st p)" for h p
    using that ours still_held [of h "held_at (upsert e st) p"]
    by (cases "p = e_path e") (auto simp: held_at_upsert in_held_at)
  then have "keeps st (upsert e st)" by (simp add: keeps_def)
  moreover have "below (upsert e st) k b" if "k \<noteq> self" "below st k b" for k b
    using that held new unfolding below_def from_held_def by blast
  moreover have "\<forall>h \<in> set (held_at (upsert e st) p). vv_get (e_vv h) self \<le> c_current (ss_clock st)" for p
    using ok e(2) new unfolding state_ok_def by blast
  moreover have "slots (upsert e st) n \<longleftrightarrow> slots st n" for n
    by (simp add: slots_def versions_at_def upsert_def)
  ultimately show ?thesis
    using ok e(1) by (simp add: evolves_def state_ok_def) (simp add: upsert_def index_ok_upsert)
qed

lemma evolves_drop:
  assumes ok: "state_ok self st" and sub: "set vs \<subseteq> set (versions_at st q)"
    and len: "length vs \<le> length (versions_at st q)"
    and ours: "\<And>h. h \<in> set (versions_at st q) \<Longrightarrow> h \<notin> set vs \<Longrightarrow>
      \<exists>e. index_get (ss_index st) q = Some e \<and> vv_le (e_vv h) (e_vv e)"
  shows "evolves self st (set_versions q vs st)"
proof -
  define st' where "st' = set_versions q vs st"
  have frame: "ss_index st' = ss_index st" "ss_clock st' = ss_clock st" "ss_watermarks st' = ss_watermarks st"
    by (simp_all add: st'_def set_versions_def)
  have at: "versions_at st' p = (if p = q then vs else versions_at st p)" for p
    by (simp add: st'_def versions_at_set)
  have less: "h \<in> set (held_at st p)" if "h \<in> set (held_at st' p)" for h p
    using that sub by (auto simp: in_held_at frame at split: if_splits)
  have "\<exists>e' \<in> set (held_at st' p). vv_le (e_vv h) (e_vv e')" if h: "h \<in> set (held_at st p)" for h p
  proof (cases "p = q \<and> h \<in> set (versions_at st q) \<and> h \<notin> set vs")
    case True
    with ours show ?thesis by (metis frame(1) in_held_at)
  next
    case False
    with h have "h \<in> set (held_at st' p)" by (auto simp: in_held_at frame at)
    then show ?thesis by (rule still_held)
  qed
  then have "keeps st st'" by (simp add: keeps_def)
  moreover have "pending_ok (ss_pending st')"
    using ok sub versions_at_ok unfolding state_ok_def st'_def
    by (auto simp: set_versions_def pending_ok_remove subset_eq intro!: pending_ok_insert)
  moreover have "below st' k b" if "below st k b" for k b
    using that less unfolding below_def by blast
  moreover have "\<forall>h \<in> set (held_at st' p). vv_get (e_vv h) self \<le> c_current (ss_clock st)" for p
    using ok less unfolding state_ok_def by blast
  moreover have "slots st' n" if "slots st n" for n
    using that len le_trans unfolding slots_def at by (metis (full_types))
  ultimately show ?thesis
    using ok unfolding evolves_def state_ok_def by (simp add: frame st'_def [symmetric])
qed

lemma evolves_clock:
  assumes "state_ok self st" and "c_current (ss_clock st) \<le> c_current c"
    and "c_generation c = c_generation (ss_clock st)"
  shows "evolves self st (st\<lparr>ss_clock := c, ss_lease := d\<rparr>)"
proof -
  have "held_at (st\<lparr>ss_clock := c, ss_lease := d\<rparr>) p = held_at st p" for p
    by (simp add: held_at_def versions_at_def)
  with assms show ?thesis
    using still_held
    by (fastforce simp: evolves_def state_ok_def keeps_def below_def slots_def versions_at_def intro: order_trans)
qed

lemma tick_current:
  "tick c d = (r, c', d') \<Longrightarrow>
   c_current c' = (case r of Inl e \<Rightarrow> c_current c | Inr n \<Rightarrow> c_current c + 1) \<and>
   (\<forall>n. r = Inr n \<longrightarrow> n = c_current c') \<and> c_generation c' = c_generation c"
  by (auto simp: tick_def reserve_def Let_def split: if_splits prod.splits sum.splits)

lemma bump_evolves:
  assumes "bump self vv st = (vv', st')" and ok: "state_ok self st" and vv: "vv_get vv self \<le> c_current (ss_clock st)"
    and "bt_ok vv"
  shows "evolves self st st' \<and> bt_ok vv' \<and> vv_le vv vv' \<and> vv_get vv' self \<le> c_current (ss_clock st') \<and>
    (\<forall>k. k \<noteq> self \<longrightarrow> vv_get vv' k = vv_get vv k) \<and> ss_index st' = ss_index st \<and> ss_pending st' = ss_pending st"
proof -
  obtain r c d where t: "tick (ss_clock st) (ss_lease st) = (r, c, d)" by (cases "tick (ss_clock st) (ss_lease st)")
  have st': "st' = st\<lparr>ss_clock := c, ss_lease := d\<rparr>" and vv': "vv' = (case r of Inl e \<Rightarrow> vv | Inr n \<Rightarrow> vv_set self n vv)"
    using assms(1) t by (auto simp: bump_def split: sum.splits)
  note cur = tick_current [OF t]
  have "c_current (ss_clock st) \<le> c_current c" "c_generation c = c_generation (ss_clock st)"
    using cur by (auto split: sum.splits)
  from evolves_clock [OF ok this, of d] show ?thesis
    using cur vv assms(4) by (auto simp: st' vv' vv_le_def vv_set_def split: sum.splits)
qed

lemma settle_evolves:
  assumes "state_ok self st" and "\<And>h. h \<in> set (versions_at st p) \<Longrightarrow> covers v (e_vv h) \<Longrightarrow>
      \<exists>e. index_get (ss_index st) p = Some e \<and> vv_le (e_vv h) (e_vv e)"
  shows "evolves self st (settle_pending p v st)"
proof (cases "map_of (ss_pending st) p")
  case None
  with assms(1) show ?thesis by (simp add: settle_pending_def)
next
  case (Some vs)
  then have vs: "versions_at st p = vs" by (simp add: versions_at_def)
  have "evolves self st (set_versions p (drop_covered v vs) st)"
    using assms by (intro evolves_drop) (auto simp: vs drop_covered_def intro: length_filter_le)
  with Some show ?thesis by (simp add: settle_pending_def)
qed

section \<open>The passes\<close>

text \<open>What one pass of silent merges does to the local entry \<open>m\<close> and the waiting versions \<open>vs\<close>.\<close>

definition merges :: "entry \<Rightarrow> entry list \<Rightarrow> entry list \<Rightarrow> entry \<Rightarrow> bool" where
  "merges m vs kept m' \<longleftrightarrow>
     e_path m' = e_path m \<and> e_deleted m' = e_deleted m \<and> bt_ok (e_vv m') \<and> vv_le (e_vv m) (e_vv m') \<and>
     set kept \<subseteq> set vs \<and> length kept \<le> length vs \<and>
     (\<forall>h \<in> set vs. h \<in> set kept \<or> vv_le (e_vv h) (e_vv m')) \<and>
     (\<forall>k b. vv_get (e_vv m) k \<le> b \<longrightarrow> (\<forall>h \<in> set vs. vv_get (e_vv h) k \<le> b) \<longrightarrow> vv_get (e_vv m') k \<le> b)"

lemma merges_keep: "merges m vs kept m' \<Longrightarrow> merges m (h # vs) (h # kept) m'"
  by (auto simp: merges_def)

lemma merges_merge:
  assumes "merges (m\<lparr>e_vv := merge_max (e_vv m) (e_vv h)\<rparr>) vs kept m'" and "bt_ok (e_vv h)"
  shows "merges m (h # vs) kept m'"
  using assms vv_le_trans [of "e_vv m" "merge_max (e_vv m) (e_vv h)" "e_vv m'"]
    vv_le_trans [of "e_vv h" "merge_max (e_vv m) (e_vv h)" "e_vv m'"] merge_max_le [of "e_vv h" "e_vv m"]
  unfolding merges_def by (auto simp: vv_get_merge_max)

lemma merge_versions_spec:
  assumes "merge_versions m changed beat vs = (kept, m', changed', beat')"
    and "bt_ok (e_vv m)" and "\<forall>h \<in> set vs. bt_ok (e_vv h)"
  shows "merges m vs kept m' \<and> (changed \<longrightarrow> changed') \<and> (\<not> changed' \<longrightarrow> set kept = set vs)"
  using assms
proof (induction vs arbitrary: m changed beat kept)
  case Nil
  then show ?case by (auto simp: merges_def)
next
  case (Cons h vs)
  let ?m = "m\<lparr>e_vv := merge_max (e_vv m) (e_vv h)\<rparr>"
  consider (keep) kept' where "merge_versions m changed beat vs = (kept', m', changed', beat')" "kept = h # kept'"
    | (merge) b where "merge_versions ?m True b vs = (kept, m', changed', beat')"
    using Cons.prems(1) by (auto simp: Let_def split: if_splits prod.splits)
  then show ?case
  proof cases
    case keep
    then show ?thesis using Cons.IH [OF keep(1) Cons.prems(2)] Cons.prems(3) by (auto intro: merges_keep)
  next
    case merge
    then show ?thesis using Cons.IH [OF merge] Cons.prems(2,3) by (auto intro: merges_merge)
  qed
qed

lemma commute_set_upsert: "upsert e (set_versions p vs st) = set_versions p vs (upsert e st)"
  by (simp add: upsert_def set_versions_def)

lemma bump_set_versions:
  "bump self v (set_versions p vs st) = (case bump self v st of (v', st') \<Rightarrow> (v', set_versions p vs st'))"
  by (auto simp: bump_def set_versions_def split: prod.splits sum.splits)

lemma versions_at_upsert [simp]: "versions_at (upsert e st) p = versions_at st p"
  by (simp add: versions_at_def upsert_def)

lemma index_upsert_st [simp]: "ss_index (upsert e st) = index_upsert e (ss_index st)"
  by (simp add: upsert_def)

text \<open>
  The common shape of a landing: the index takes an entry that covers the local one, and the pending
  versions it covers are dropped.
\<close>

lemma evolves_replace:
  assumes ok: "state_ok self st" and e: "bt_ok (e_vv e)" "vv_get (e_vv e) self \<le> c_current (ss_clock st)"
    and ours: "\<And>old. index_get (ss_index st) (e_path e) = Some old \<Longrightarrow> vv_le (e_vv old) (e_vv e)"
    and held: "from_held self st (e_vv e)"
    and vs: "set vs \<subseteq> set (versions_at st (e_path e))" "length vs \<le> length (versions_at st (e_path e))"
      "\<And>h. h \<in> set (versions_at st (e_path e)) \<Longrightarrow> h \<notin> set vs \<Longrightarrow> vv_le (e_vv h) (e_vv e)"
  shows "evolves self st (set_versions (e_path e) vs (upsert e st))"
proof (rule evolves_trans)
  show up: "evolves self st (upsert e st)" by (rule evolves_upsert [OF ok e ours held])
  show "evolves self (upsert e st) (set_versions (e_path e) vs (upsert e st))"
    by (rule evolves_drop [OF evolves_ok [OF up]]) (use vs in auto)
qed

lemma evolves_land:
  assumes ok: "state_ok self st" and e: "bt_ok (e_vv e)" "vv_get (e_vv e) self \<le> c_current (ss_clock st)"
    and ours: "\<And>old. index_get (ss_index st) (e_path e) = Some old \<Longrightarrow> vv_le (e_vv old) (e_vv e)"
    and held: "from_held self st (e_vv e)" and v: "vv_le v (e_vv e)"
  shows "evolves self st (settle_pending (e_path e) v (upsert e st))"
proof (rule evolves_trans)
  show up: "evolves self st (upsert e st)" by (rule evolves_upsert [OF ok e ours held])
  have "vv_le (e_vv h) (e_vv e)" if "h \<in> set (versions_at st (e_path e))" "covers v (e_vv h)" for h
    using held_at_ok [OF ok held_at_versions [OF that(1)]] that(2) v
    by (auto simp: covers_vv_le intro: vv_le_trans)
  then show "evolves self (upsert e st) (settle_pending (e_path e) v (upsert e st))"
    by (intro settle_evolves [OF evolves_ok [OF up]]) auto
qed

lemma index_ours:
  "state_ok self st \<Longrightarrow> index_get (ss_index st) p = Some e \<Longrightarrow>
   e_path e = p \<and> bt_ok (e_vv e) \<and> vv_get (e_vv e) self \<le> c_current (ss_clock st) \<and> from_held self st (e_vv e)"
  using held_at_ok held_at_index from_held_here by metis

lemma pending_theirs:
  "state_ok self st \<Longrightarrow> e \<in> set (versions_at st p) \<Longrightarrow>
   e_path e = p \<and> bt_ok (e_vv e) \<and> vv_get (e_vv e) self \<le> c_current (ss_clock st) \<and> from_held self st (e_vv e)"
  using held_at_ok held_at_versions from_held_here by metis

lemma dominates_le:
  assumes "state_ok self st" and "dominates e (index_get (ss_index st) p)" and "index_get (ss_index st) p = Some old"
  shows "vv_le (e_vv old) (e_vv e)"
  using assms index_ours [of self st p old] by (auto simp: dominates_def vv_relation_iff covers_vv_le)

lemma pending_ofD: "pending_of d k p st = Some e \<Longrightarrow> e \<in> set (versions_at st p) \<and> e_deleted e = d \<and> e_kind e = k"
  by (auto simp: pending_of_def versions_at_def find_Some_iff split: option.splits)
    (metis nth_mem set_rev length_rev)+

lemma land_dominating:
  assumes ok: "state_ok self st" and e: "e \<in> set (versions_at st p)" and "dominates e (index_get (ss_index st) p)"
  shows "evolves self st (settle_pending p (e_vv e) (upsert e st))"
  using evolves_land [OF ok, of e "e_vv e"] pending_theirs [OF ok e] dominates_le [OF ok assms(3)] by auto

lemma file_tombstone_evolves: "state_ok self st \<Longrightarrow> evolves self st (file_tombstone_at fx p st)"
  using land_dominating [of self st _ p] pending_theirs [of self st _ p]
  by (auto simp: file_tombstone_at_def apply_file_tombstone_def split: option.splits dest!: pending_ofD)

lemma pending_dir_evolves: "state_ok self st \<Longrightarrow> evolves self st (pending_dir_at fx p st)"
  using land_dominating [of self st _ p]
  by (auto simp: pending_dir_at_def split: option.splits dest!: pending_ofD)

lemma quiet_path_evolves:
  assumes ok: "state_ok self st"
  shows "evolves self st (quiet_path self p st)"
proof (cases "map_of (ss_pending st) p")
  case None
  with ok show ?thesis by (simp add: quiet_path_def)
next
  case (Some versions)
  then have at: "versions_at st p = versions" by (simp add: versions_at_def)
  show ?thesis
  proof (cases "index_get (ss_index st) p")
    case None
    with Some evolves_drop [OF ok, of versions p] show ?thesis by (simp add: quiet_path_def at)
  next
    case ours: (Some ours)
    note o = index_ours [OF ok ours]
    obtain kept m ch beat where run: "merge_versions ours False False (news ours versions) = (kept, m, ch, beat)"
      by (cases "merge_versions ours False False (news ours versions)")
    have news: "set (news ours versions) \<subseteq> set versions" by (auto simp: news_def)
    have theirs: "e_path h = p \<and> bt_ok (e_vv h) \<and> vv_get (e_vv h) self \<le> c_current (ss_clock st) \<and>
        from_held self st (e_vv h)" if "h \<in> set versions" for h
      using pending_theirs [OF ok, of h p] that by (simp add: at)
    have spec: "merges ours (news ours versions) kept m" "\<not> ch \<Longrightarrow> set kept = set (news ours versions)"
      using merge_versions_spec [OF run] o theirs news by blast+
    then have m: "e_path m = p" "bt_ok (e_vv m)" "vv_le (e_vv ours) (e_vv m)" "set kept \<subseteq> set versions"
      using o news by (auto simp: merges_def)
    have len: "length kept \<le> length versions"
      using spec(1) le_trans [of "length kept" "length (news ours versions)" "length versions"]
      by (simp add: merges_def news_def)
    have old: "vv_le (e_vv h) (e_vv ours)" if "h \<in> set versions" "h \<notin> set (news ours versions)" for h
      using that theirs [OF that(1)] by (cases "vv_relation (e_vv h) (e_vv ours)")
        (auto simp: news_def vv_relation_iff covers_vv_le)
    have gone: "vv_le (e_vv h) (e_vv m)" if "h \<in> set versions" "h \<notin> set kept" for h
      using old [OF that(1)] m(3) spec(1) that vv_le_trans unfolding merges_def by blast
    have bound: "vv_get (e_vv m) k \<le> b" if "vv_get (e_vv ours) k \<le> b" "\<forall>h \<in> set versions. vv_get (e_vv h) k \<le> b" for k b
      using spec(1) that news unfolding merges_def by blast
    have own: "vv_get (e_vv m) self \<le> c_current (ss_clock st)" using bound o theirs by blast
    have held: "from_held self st (e_vv m)"
      using bound o theirs unfolding from_held_def by blast
    show ?thesis
    proof (cases ch)
      case False
      have "evolves self st (set_versions p kept st)"
      proof (rule evolves_drop [OF ok])
        show "set kept \<subseteq> set (versions_at st p)" "length kept \<le> length (versions_at st p)"
          using m(4) len at by simp_all
        show "\<exists>e. index_get (ss_index st) p = Some e \<and> vv_le (e_vv h) (e_vv e)"
          if "h \<in> set (versions_at st p)" "h \<notin> set kept" for h
          using that False spec(2) ours old at by auto
      qed
      with False Some ours run show ?thesis by (simp add: quiet_path_def)
    next
      case True
      obtain vv st2 where b: "(if beat then bump self (e_vv m) st else (e_vv m, st)) = (vv, st2)"
        by fastforce
      have facts: "evolves self st st2 \<and> bt_ok vv \<and> vv_le (e_vv m) vv \<and> vv_get vv self \<le> c_current (ss_clock st2) \<and>
          (\<forall>k. k \<noteq> self \<longrightarrow> vv_get vv k = vv_get (e_vv m) k) \<and> ss_index st2 = ss_index st \<and> ss_pending st2 = ss_pending st"
        using b bump_evolves [OF _ ok own m(2)] ok own m(2) by (cases beat) auto
      then have at2: "versions_at st2 p = versions" by (simp add: versions_at_def Some)
      have "held_at st2 q = held_at st q" for q using facts by (simp add: held_at_def versions_at_def)
      then have held2: "from_held self st2 vv"
        using held facts by (simp add: from_held_def below_def)
      have "vv_le (e_vv ours) vv" using facts m(3) vv_le_trans by blast
      moreover have "vv_le (e_vv h) vv" if "h \<in> set versions" "h \<notin> set kept" for h
        using gone [OF that] facts vv_le_trans by blast
      ultimately have "evolves self st2 (set_versions p kept (upsert (m\<lparr>e_vv := vv\<rparr>) st2))"
        using evolves_replace [of self st2 "m\<lparr>e_vv := vv\<rparr>" kept] facts m len ours held2 at2
        by (auto simp: evolves_ok)
      then have "evolves self st (set_versions p kept (upsert (m\<lparr>e_vv := vv\<rparr>) st2))"
        using facts evolves_trans by blast
      moreover have "quiet_path self p st = set_versions p kept (upsert (m\<lparr>e_vv := vv\<rparr>) st2)"
        using Some ours run True b by (auto simp: quiet_path_def bump_set_versions commute_set_upsert split: if_splits)
      ultimately show ?thesis by simp
    qed
  qed
qed

lemma record_landed_evolves:
  assumes ok: "state_ok self st" and e: "e \<in> set (versions_at st p)"
    and stand: "standing_of e (index_get (ss_index st) p) = (if res then Resurrects else Dominates)"
  shows "evolves self st (record_landed ax self p e h res st)"
proof -
  note t = pending_theirs [OF ok e]
  define st1 where "st1 = (if ss_claim st \<noteq> None
      then st\<lparr>ss_landed_bytes := min u64_max (ss_landed_bytes st +
        (case ax_size_back ax of None \<Rightarrow> e_size e | Some n \<Rightarrow> n))\<rparr> else st)"
  have same: "held_at st1 = held_at st" "ss_clock st1 = ss_clock st" "ss_index st1 = ss_index st"
    "ss_pending st1 = ss_pending st" "ss_watermarks st1 = ss_watermarks st"
    by (auto simp: st1_def held_at_def versions_at_def fun_eq_iff)
  have ev1: "evolves self st st1"
    using ok still_held by (auto simp: evolves_def state_ok_def keeps_def below_def slots_def versions_at_def same)
  define vv0 where "vv0 = (case index_get (ss_index st1) p of
      None \<Rightarrow> e_vv e | Some ours \<Rightarrow> if res then merge_max (e_vv e) (e_vv ours) else e_vv e)"
  obtain vv st2 where b: "(if res then bump self vv0 st1 else (vv0, st1)) = (vv, st2)" by fastforce
  have vv0: "bt_ok vv0" "vv_get vv0 self \<le> c_current (ss_clock st1)" "vv_le (e_vv e) vv0" "from_held self st1 vv0"
    using t index_ours [OF ok, of p] from_held_merge merge_max_le
    by (auto simp: vv0_def same from_held_def below_def vv_get_merge_max split: option.splits)
  have old: "vv_le (e_vv o') vv0" if o': "index_get (ss_index st) p = Some o'" for o'
    using stand o' index_ours [OF ok o'] merge_max_le
    by (auto simp: vv0_def same standing_of_def vv_relation_iff covers_vv_le split: relation.splits if_splits)
  have facts: "evolves self st1 st2 \<and> bt_ok vv \<and> vv_le vv0 vv \<and> vv_get vv self \<le> c_current (ss_clock st2) \<and>
      (\<forall>k. k \<noteq> self \<longrightarrow> vv_get vv k = vv_get vv0 k) \<and> ss_index st2 = ss_index st1 \<and> ss_pending st2 = ss_pending st1"
    using b bump_evolves [OF _ evolves_ok [OF ev1] vv0(2,1)] evolves_ok [OF ev1] vv0 by (cases res) auto
  have "held_at st2 = held_at st1" using facts by (simp add: held_at_def versions_at_def fun_eq_iff)
  then have held2: "from_held self st2 vv" using vv0(4) facts by (simp add: from_held_def below_def)
  let ?e = "\<lparr>e_path = p, e_kind = EFile, e_size = (case ax_size_back ax of None \<Rightarrow> e_size e | Some n \<Rightarrow> n),
      e_mtime = (case ax_mtime_back ax of None \<Rightarrow> e_mtime e | Some m \<Rightarrow> m), e_exec = e_exec e, e_hash = h,
      e_vv = vv, e_deleted = False\<rparr>"
  have "vv_le (e_vv o') vv" if "index_get (ss_index st) p = Some o'" for o'
    using old [OF that] facts vv_le_trans by blast
  moreover have "vv_le (e_vv e) vv" using vv0(3) facts vv_le_trans by blast
  ultimately have "evolves self st2 (settle_pending p (e_vv e) (upsert ?e st2))"
    using evolves_land [of self st2 ?e "e_vv e"] facts held2 by (auto simp: evolves_ok same)
  then have "evolves self st (settle_pending p (e_vv e) (upsert ?e st2))"
    using ev1 facts evolves_trans by blast
  moreover have "(if res then bump self (case index_get (ss_index st1) p of
        None \<Rightarrow> e_vv e | Some ours \<Rightarrow> merge_max (e_vv e) (e_vv ours)) st1 else (e_vv e, st1)) = (vv, st2)"
    using b by (cases res; cases "index_get (ss_index st1) p") (simp_all add: vv0_def)
  then have "record_landed ax self p e h res st = settle_pending p (e_vv e) (upsert ?e st2)"
    unfolding record_landed_def Let_def st1_def [symmetric] by simp
  ultimately show ?thesis by simp
qed

lemma park_staged_evolves: "state_ok self st \<Longrightarrow> evolves self st (park_staged ax p e st)"
proof -
  assume ok: "state_ok self st"
  have same: "held_at (park_staged ax p e st) = held_at st" "ss_clock (park_staged ax p e st) = ss_clock st"
    "ss_index (park_staged ax p e st) = ss_index st" "ss_pending (park_staged ax p e st) = ss_pending st"
    "ss_watermarks (park_staged ax p e st) = ss_watermarks st"
    by (auto simp: park_staged_def held_at_def versions_at_def fun_eq_iff split: option.splits)
  from ok show ?thesis
    using still_held by (auto simp: evolves_def state_ok_def keeps_def below_def slots_def versions_at_def same)
qed

lemma apply_staged_evolves:
  assumes ok: "state_ok self st"
  shows "evolves self st (snd (apply_staged fx p self st))"
proof (cases "ss_root st = None \<or> map_of (ss_pending st) p = None")
  case True
  with ok show ?thesis by (auto simp: apply_staged_def)
next
  case False
  then obtain versions where vs: "map_of (ss_pending st) p = Some versions" by blast
  show ?thesis
  proof (cases "pulled_version versions")
    case None
    with ok vs show ?thesis by (simp add: apply_staged_def)
  next
    case (Some e)
    then have "e \<in> set versions" by (auto simp: pulled_version_def find_Some_iff) (metis nth_mem set_rev length_rev)
    then have e: "e \<in> set (versions_at st p)" by (simp add: versions_at_def vs)
    let ?s = "standing_of e (index_get (ss_index st) p)"
    have "evolves self st (snd (move_into_place (fx_apply fx p) self p e (e_hash e) (?s = Resurrects) st))"
      if "?s \<noteq> Keepboth" "?s \<noteq> Behind"
    proof -
      have "?s = (if ?s = Resurrects then Resurrects else Dominates)" using that by (cases ?s) auto
      from record_landed_evolves [OF ok e this] ok show ?thesis
        by (auto simp: move_into_place_def park_staged_evolves)
    qed
    with ok vs Some False show ?thesis by (auto simp: apply_staged_def Let_def)
  qed
qed

subsection \<open>Directory tombstones\<close>

lemma survive_evolves:
  assumes ok: "state_ok self st" and v: "bt_ok v" "vv_get v self \<le> c_current (ss_clock st)" "from_held self st v"
  shows "evolves self st (survive self v q st) \<and>
    (\<forall>p e. index_get (ss_index st) p = Some e \<and> \<not> e_deleted e \<longrightarrow>
      (\<exists>e'. index_get (ss_index (survive self v q st)) p = Some e' \<and> \<not> e_deleted e' \<and> (p = q \<longrightarrow> vv_le v (e_vv e')))) \<and>
    ss_pending (survive self v q st) = ss_pending st"
proof (cases "\<exists>e. index_get (ss_index st) q = Some e \<and> \<not> e_deleted e")
  case False
  with ok show ?thesis by (auto simp: survive_def split: option.splits)
next
  case True
  then obtain e where e: "index_get (ss_index st) q = Some e" "\<not> e_deleted e" by blast
  note o = index_ours [OF ok e(1)]
  let ?m = "merge_max (e_vv e) v"
  obtain vv st2 where b: "bump self ?m st = (vv, st2)" by fastforce
  have m: "bt_ok ?m" "vv_get ?m self \<le> c_current (ss_clock st)" "vv_le (e_vv e) ?m" "vv_le v ?m"
    using o v merge_max_le by (auto simp: vv_get_merge_max)
  note facts = bump_evolves [OF b ok m(2,1)]
  have "held_at st2 = held_at st" using facts by (simp add: held_at_def versions_at_def fun_eq_iff)
  moreover have "from_held self st ?m" using o v by (intro from_held_merge) auto
  ultimately have held2: "from_held self st2 vv" using facts by (simp add: from_held_def below_def)
  have le: "vv_le (e_vv e) vv" "vv_le v vv" using m facts vv_le_trans by blast+
  then have "evolves self st2 (upsert (e\<lparr>e_vv := vv\<rparr>) st2)"
    using evolves_upsert [of self st2 "e\<lparr>e_vv := vv\<rparr>"] facts held2 o e(1) by (auto simp: evolves_ok)
  then have "evolves self st (upsert (e\<lparr>e_vv := vv\<rparr>) st2)" using facts evolves_trans by blast
  moreover have "survive self v q st = upsert (e\<lparr>e_vv := vv\<rparr>) st2" using e b by (simp add: survive_def)
  ultimately show ?thesis using e o le facts by (auto simp: upsert_def)
qed

definition survives :: "set_state \<Rightarrow> set_state \<Rightarrow> bool" where
  "survives st st' \<longleftrightarrow>
     (\<forall>p e. index_get (ss_index st) p = Some e \<and> \<not> e_deleted e \<longrightarrow>
        (\<exists>e'. index_get (ss_index st') p = Some e' \<and> \<not> e_deleted e')) \<and>
     ss_pending st' = ss_pending st"

lemma survives_trans: "survives a b \<Longrightarrow> survives b c \<Longrightarrow> survives a c"
  unfolding survives_def by metis

lemma survivors_evolve:
  assumes "state_ok self st" and "bt_ok v" and "vv_get v self \<le> c_current (ss_clock st)" and "from_held self st v"
  shows "evolves self st (foldl (\<lambda>st p. survive self v p st) st ps) \<and>
    survives st (foldl (\<lambda>st p. survive self v p st) st ps)"
  using assms
proof (induction ps arbitrary: st)
  case Nil
  then show ?case by (simp add: survives_def)
next
  case (Cons q ps)
  let ?st = "survive self v q st" and ?out = "foldl (\<lambda>st p. survive self v p st) (survive self v q st) ps"
  have S: "evolves self st ?st" "survives st ?st"
    using survive_evolves [OF Cons.prems, of q] by (simp, simp only: survives_def) meson
  have "from_held self ?st v"
    using from_held_mono S(1) Cons.prems(4) unfolding evolves_def by blast
  moreover have "vv_get v self \<le> c_current (ss_clock ?st)"
    using S(1) Cons.prems(3) unfolding evolves_def by linarith
  ultimately have E: "evolves self ?st ?out" "survives ?st ?out"
    using Cons.IH [of ?st] evolves_ok [OF S(1)] Cons.prems(2) by simp_all
  from evolves_trans [OF S(1) E(1)] survives_trans [OF S(2) E(2)] show ?case by simp
qed

definition live_at :: "string \<Rightarrow> set_state \<Rightarrow> bool" where
  "live_at p st \<longleftrightarrow> (\<exists>e. index_get (ss_index st) p = Some e \<and> \<not> e_deleted e)"

text \<open>A pending directory tombstone stands at a path that is live here.\<close>

definition dir_tomb_known :: "string \<Rightarrow> set_state \<Rightarrow> bool" where
  "dir_tomb_known p st \<longleftrightarrow> pending_of True EDir p st \<noteq> None \<longrightarrow> live_at p st"

lemma survives_live: "survives st st' \<Longrightarrow> live_at p st \<Longrightarrow> live_at p st'"
  by (auto simp: survives_def live_at_def)

lemma settle_other:
  "q \<noteq> p \<Longrightarrow> map_of (ss_pending (settle_pending p v st)) q = map_of (ss_pending st) q"
  "ss_index (settle_pending p v st) = ss_index st"
  by (auto simp: settle_pending_def set_versions_def split: option.splits)

lemma pending_of_cong: "map_of (ss_pending st) q = map_of (ss_pending st') q \<Longrightarrow> pending_of d k q st = pending_of d k q st'"
  by (simp add: pending_of_def)

lemma dir_tombstone_evolves:
  assumes ok: "state_ok self st" and known: "dir_tomb_known p st"
  shows "evolves self st (dir_tombstone_at fx self p st) \<and>
    (\<forall>q. q \<noteq> p \<longrightarrow> dir_tomb_known q st \<longrightarrow> dir_tomb_known q (dir_tombstone_at fx self p st))"
proof (cases "pending_of True EDir p st")
  case None
  with ok show ?thesis by (simp add: dir_tombstone_at_def)
next
  case (Some tomb)
  then have t: "tomb \<in> set (versions_at st p)" by (simp add: pending_ofD)
  note T = pending_theirs [OF ok t]
  then have path: "e_path tomb = p" by blast
  from known Some have live: "live_at p st" by (simp add: dir_tomb_known_def)
  let ?ds = "live_descendants p st" and ?f = "\<lambda>st p. survive self (e_vv tomb) p st"
  define dissent where "dissent \<longleftrightarrow>
      ?ds \<noteq> [] \<or> pending_descendant p st \<or> \<not> dominates tomb (index_get (ss_index st) p)"
  have run: "dir_tombstone_at fx self p st =
      (if ss_root st = None then st
       else if dissent then settle_pending p (e_vv tomb) (foldl ?f st (?ds @ [p]))
       else if \<not> fs_path fx p st \<or> fx_remove_dir fx p = RemoveError then st
       else settle_pending p (e_vv tomb) (upsert tomb st))"
    using Some by (simp add: dir_tombstone_at_def apply_dir_tombstone_def path dissent_def)
  consider (survivors) "dissent" "ss_root st \<noteq> None"
    | (landed) "dominates tomb (index_get (ss_index st) p)"
        "dir_tombstone_at fx self p st = settle_pending p (e_vv tomb) (upsert tomb st)"
    | (nothing) "dir_tombstone_at fx self p st = st"
    unfolding run using dissent_def by (cases dissent; cases "ss_root st") (simp, simp, simp, metis)
  then show ?thesis
  proof cases
    case survivors
    define st1 where "st1 = foldl ?f st ?ds"
    define st2 where "st2 = survive self (e_vv tomb) p st1"
    have A: "evolves self st st1" "survives st st1"
      using survivors_evolve [OF ok, of "e_vv tomb"] T by (auto simp: st1_def)
    have B: "evolves self st1 st2" "survives st1 st2"
      and at_p: "\<exists>e. index_get (ss_index st2) p = Some e \<and> vv_le (e_vv tomb) (e_vv e)"
    proof -
      have le: "vv_get (e_vv tomb) self \<le> c_current (ss_clock st1)"
        using T A(1) unfolding evolves_def by linarith
      have fh: "from_held self st1 (e_vv tomb)" using T A(1) from_held_mono unfolding evolves_def by blast
      note S = survive_evolves [OF evolves_ok [OF A(1)] conjunct1 [OF conjunct2 [OF T]] le fh, of p, folded st2_def]
      then show "evolves self st1 st2" by blast
      from S show "survives st1 st2" unfolding survives_def by meson
      obtain e where e: "index_get (ss_index st1) p = Some e" "\<not> e_deleted e"
        using survives_live [OF A(2) live] by (auto simp: live_at_def)
      from S have "\<exists>e'. index_get (ss_index st2) p = Some e' \<and> \<not> e_deleted e' \<and> (p = p \<longrightarrow> vv_le (e_vv tomb) (e_vv e'))"
        using e by (elim conjE allE impE) blast+
      then show "\<exists>e. index_get (ss_index st2) p = Some e \<and> vv_le (e_vv tomb) (e_vv e)" by blast
    qed
    have C: "survives st st2" using survives_trans [OF A(2) B(2)] .
    have D: "evolves self st st2" using evolves_trans [OF A(1) B(1)] .
    have run: "dir_tombstone_at fx self p st = settle_pending p (e_vv tomb) st2"
      using survivors by (auto simp: run st1_def st2_def)
    have "evolves self st2 (settle_pending p (e_vv tomb) st2)"
    proof (rule settle_evolves [OF evolves_ok [OF D]])
      fix h assume h: "h \<in> set (versions_at st2 p)" "covers (e_vv tomb) (e_vv h)"
      then have "vv_le (e_vv h) (e_vv tomb)"
        using pending_theirs [OF evolves_ok [OF D] h(1)] by (simp add: covers_vv_le)
      with at_p show "\<exists>e. index_get (ss_index st2) p = Some e \<and> vv_le (e_vv h) (e_vv e)"
        using vv_le_trans by blast
    qed
    then have "evolves self st (dir_tombstone_at fx self p st)" using D evolves_trans by (simp add: run)
    moreover have "dir_tomb_known q (dir_tombstone_at fx self p st)" if "q \<noteq> p" "dir_tomb_known q st" for q
    proof -
      have "pending_of True EDir q (dir_tombstone_at fx self p st) = pending_of True EDir q st"
        by (rule pending_of_cong) (use that(1) C in \<open>simp add: run settle_other survives_def\<close>)
      moreover have "live_at q (dir_tombstone_at fx self p st)" if "live_at q st"
        using survives_live [OF C that] by (simp add: run live_at_def settle_other)
      ultimately show ?thesis using that(2) by (auto simp: dir_tomb_known_def)
    qed
    ultimately show ?thesis by blast
  next
    case landed
    have "dir_tomb_known q (settle_pending p (e_vv tomb) (upsert tomb st))" if "q \<noteq> p" "dir_tomb_known q st" for q
    proof -
      have "pending_of True EDir q (settle_pending p (e_vv tomb) (upsert tomb st)) = pending_of True EDir q st"
        by (rule pending_of_cong) (use that(1) in \<open>simp add: settle_other upsert_def\<close>)
      with that show ?thesis by (auto simp: dir_tomb_known_def live_at_def settle_other path)
    qed
    with land_dominating [OF ok t landed(1)] show ?thesis by (simp add: landed(2))
  next
    case nothing
    with ok show ?thesis by simp
  qed
qed

section \<open>The drain\<close>

text \<open>An operation on a path that evolves the state can be run over any list of paths.\<close>

locale retaining =
  fixes self :: string and f :: "string \<Rightarrow> set_state \<Rightarrow> set_state"
  assumes step: "state_ok self st \<Longrightarrow> evolves self st (f p st)"
begin

lemma over: "state_ok self st \<Longrightarrow> evolves self st (foldl (\<lambda>st p. f p st) st ps)"
proof (induction ps arbitrary: st)
  case (Cons p ps)
  have "evolves self st (f p st)" by (rule step [OF Cons.prems])
  with Cons.IH [OF evolves_ok [OF this]] show ?case using evolves_trans by simp
qed simp

lemma pass: "state_ok self st \<Longrightarrow> evolves self st (each_pending f st)"
  by (simp add: each_pending_def over)

end

interpretation quiet: retaining self "quiet_path self" for self
  by unfold_locales (rule quiet_path_evolves)

interpretation file_tombs: retaining self "file_tombstone_at fx" for self fx
  by unfold_locales (rule file_tombstone_evolves)

interpretation pending_dirs: retaining self "pending_dir_at fx" for self fx
  by unfold_locales (rule pending_dir_evolves)

lemma retry_none [simp]: "ss_parked st = [] \<Longrightarrow> retry_parked fx self st = st"
  by (simp add: retry_parked_def)

lemma drain_files_evolves:
  assumes "state_ok self st" and "ss_parked st = []"
  shows "evolves self st (drain_files fx self st)"
proof -
  define st1 where "st1 = each_pending (quiet_path self) st"
  define st2 where "st2 = each_pending (file_tombstone_at fx) st1"
  have e1: "evolves self st st1" unfolding st1_def by (rule quiet.pass [OF assms(1)])
  have e2: "evolves self st1 st2" unfolding st2_def by (rule file_tombs.pass [OF evolves_ok [OF e1]])
  have e3: "evolves self st2 (apply_pending_dirs fx st2)"
    using pending_dirs.pass [OF evolves_ok [OF e2]] evolves_ok [OF e2] by (simp add: apply_pending_dirs_def)
  have "drain_files fx self st = apply_pending_dirs fx st2"
    using assms(2) by (simp add: drain_files_def Let_def st1_def st2_def)
  with evolves_trans [OF evolves_trans [OF e1 e2] e3] show ?thesis by simp
qed

lemma dir_pass_evolves:
  assumes "state_ok self st" and "distinct ps" and "\<forall>p \<in> set ps. dir_tomb_known p st"
  shows "evolves self st (foldl (\<lambda>st p. dir_tombstone_at fx self p st) st ps)"
  using assms
proof (induction ps arbitrary: st)
  case (Cons p ps)
  have S: "evolves self st (dir_tombstone_at fx self p st)"
    and K: "\<And>q. q \<noteq> p \<Longrightarrow> dir_tomb_known q st \<Longrightarrow> dir_tomb_known q (dir_tombstone_at fx self p st)"
    using dir_tombstone_evolves [OF Cons.prems(1), of p fx] Cons.prems(3) by auto
  have "\<forall>q \<in> set ps. dir_tomb_known q (dir_tombstone_at fx self p st)"
    using K Cons.prems(2,3) by (metis distinct.simps(2) list.set_intros(2))
  with Cons.IH [OF evolves_ok [OF S]] Cons.prems(2) evolves_trans [OF S] show ?case by simp
qed simp

lemma drain_evolves:
  assumes ok: "state_ok self st" and "ss_parked st = []" and "\<And>p. dir_tomb_known p (drain_files fx self st)"
  shows "evolves self st (drain_pending fx self st)"
proof -
  let ?st = "drain_files fx self st"
  have e: "evolves self st ?st" by (rule drain_files_evolves [OF assms(1,2)])
  then have "bt_ok (ss_pending ?st)" by (simp add: evolves_def state_ok_def pending_ok_def)
  then have "distinct (map fst (ss_pending ?st))" by (simp add: bt_ok_distinct)
  then have "evolves self ?st (drain_pending fx self st)"
    unfolding drain_pending_def each_pending_def
    by (rule dir_pass_evolves [OF evolves_ok [OF e]]) (simp add: assms(3))
  then show ?thesis using e evolves_trans by blast
qed

section \<open>Folding a walk\<close>

abbreviation (input) refold :: "set_state \<Rightarrow> set_index \<Rightarrow> clock \<Rightarrow> disk \<Rightarrow> set_state" where
  "refold st i c d \<equiv> st\<lparr>ss_index := i, ss_clock := c, ss_lease := d\<rparr>"

lemma refold_id [simp]: "refold st (ss_index st) (ss_clock st) (ss_lease st) = st"
  by simp

lemma refold_upsert: "refold st (index_upsert e (ss_index st)) c d = upsert e (st\<lparr>ss_clock := c, ss_lease := d\<rparr>)"
  by (simp add: upsert_def)

text \<open>One tick: the clock moves, and the entry takes the new value on top of the local vector.\<close>

lemma tick_evolves:
  assumes ok: "state_ok self st" and "tick (ss_clock st) (ss_lease st) = (Inl e, c, d)" and "i = ss_index st"
  shows "evolves self st (refold st i c d)"
proof -
  have "refold st i c d = st\<lparr>ss_clock := c, ss_lease := d\<rparr>" by (cases st) (simp add: assms(3))
  with evolves_clock [OF ok, of c d] tick_current [OF assms(2)] show ?thesis by simp
qed

lemma tick_upsert_evolves:
  assumes ok: "state_ok self st" and t: "tick (ss_clock st) (ss_lease st) = (Inr t, c, d)"
    and e: "e_vv e = vv_set self t (case index_get (ss_index st) (e_path e) of None \<Rightarrow> [] | Some old \<Rightarrow> e_vv old)"
  shows "evolves self st (refold st (index_upsert e (ss_index st)) c d)"
proof -
  define vv where "vv = (case index_get (ss_index st) (e_path e) of None \<Rightarrow> [] | Some old \<Rightarrow> e_vv old)"
  have vv: "bt_ok vv \<and> vv_get vv self \<le> c_current (ss_clock st) \<and> from_held self st vv"
  proof (cases "index_get (ss_index st) (e_path e)")
    case None
    then show ?thesis by (simp add: vv_def bt_ok_def from_held_def)
  next
    case (Some old)
    with index_ours [OF ok Some] show ?thesis by (simp add: vv_def)
  qed
  obtain vv' st1 where b: "bump self vv st = (vv', st1)" by fastforce
  have st1: "st1 = st\<lparr>ss_clock := c, ss_lease := d\<rparr>" "vv' = e_vv e"
    using b t e by (auto simp: bump_def vv_def)
  have B: "evolves self st st1 \<and> bt_ok vv' \<and> vv_le vv vv' \<and> vv_get vv' self \<le> c_current (ss_clock st1) \<and>
    (\<forall>k. k \<noteq> self \<longrightarrow> vv_get vv' k = vv_get vv k) \<and> ss_index st1 = ss_index st"
    using bump_evolves [OF b ok] vv by blast
  have "from_held self st1 vv" using B vv from_held_mono unfolding evolves_def by blast
  then have "from_held self st1 vv'" using B by (simp add: from_held_def)
  moreover have "vv_le (e_vv old) vv'" if "index_get (ss_index st1) (e_path e) = Some old" for old
    using B that by (simp add: vv_def)
  ultimately have "evolves self st1 (upsert e st1)"
    using B st1(2) by (intro evolves_upsert) (auto simp: evolves_ok)
  with B evolves_trans show ?thesis by (simp add: refold_upsert st1(1) [symmetric]) blast
qed

lemma touch_evolves:
  assumes ok: "state_ok self st"
  shows "evolves self st (st\<lparr>ss_index := touch (ss_index st) seen\<rparr>)"
proof (cases "index_get (ss_index st) (ob_path seen)")
  case None
  with ok show ?thesis by (simp add: touch_def)
next
  case (Some e)
  note i = index_ours [OF ok Some]
  have "evolves self st (upsert (e\<lparr>e_size := ob_size seen, e_mtime := ob_mtime seen\<rparr>) st)"
    by (rule evolves_upsert [OF ok]) (use i Some in auto)
  with Some show ?thesis by (simp add: touch_def upsert_def)
qed

lemma touches_evolve:
  "state_ok self st \<Longrightarrow> evolves self st (st\<lparr>ss_index := foldl touch (ss_index st) seens\<rparr>)"
proof (induction seens arbitrary: st)
  case (Cons seen seens)
  have t: "evolves self st (st\<lparr>ss_index := touch (ss_index st) seen\<rparr>)" by (rule touch_evolves [OF Cons.prems])
  from Cons.IH [OF evolves_ok [OF t]] evolves_trans [OF t] show ?case by simp
qed simp

lemma fold_changed_evolves:
  "fold_changed self seens n (ss_index st) (ss_clock st) (ss_lease st) = (r, i, c, d) \<Longrightarrow> state_ok self st \<Longrightarrow>
   evolves self st (refold st i c d)"
proof (induction seens arbitrary: n st)
  case (Cons seen seens)
  obtain r1 c1 d1 where t: "tick (ss_clock st) (ss_lease st) = (r1, c1, d1)" by (cases "tick (ss_clock st) (ss_lease st)")
  show ?case
  proof (cases r1)
    case (Inl e)
    with Cons.prems t tick_evolves [OF Cons.prems(2), of e c1 d1 i] show ?thesis by (auto simp: Let_def)
  next
    case (Inr k)
    let ?vv = "case index_get (ss_index st) (ob_path seen) of None \<Rightarrow> [] | Some e \<Rightarrow> e_vv e"
    let ?e = "\<lparr>e_path = ob_path seen, e_kind = ob_kind seen, e_size = ob_size seen,
      e_mtime = ob_mtime seen, e_exec = ob_exec seen, e_hash = ob_hash seen,
      e_vv = vv_set self k ?vv, e_deleted = False\<rparr>"
    let ?st = "refold st (index_upsert ?e (ss_index st)) c1 d1"
    have s: "evolves self st ?st"
      by (rule tick_upsert_evolves [OF Cons.prems(2)]) (use t Inr in simp_all)
    have "fold_changed self seens (n + 1) (ss_index ?st) (ss_clock ?st) (ss_lease ?st) = (r, i, c, d)"
      using Cons.prems(1) t Inr by (simp add: Let_def)
    from Cons.IH [OF this evolves_ok [OF s]] evolves_trans [OF s] show ?thesis by simp
  qed
qed auto

lemma fold_tombstoned_evolves:
  "fold_tombstoned self ps n (ss_index st) (ss_clock st) (ss_lease st) = (r, i, c, d) \<Longrightarrow> state_ok self st \<Longrightarrow>
   evolves self st (refold st i c d)"
proof (induction ps arbitrary: n st)
  case (Cons p ps)
  show ?case
  proof (cases "\<exists>e. index_get (ss_index st) p = Some e \<and> \<not> e_deleted e")
    case False
    then have "fold_tombstoned self ps n (ss_index st) (ss_clock st) (ss_lease st) = (r, i, c, d)"
      using Cons.prems(1) by (auto split: option.splits if_splits)
    from Cons.IH [OF this Cons.prems(2)] show ?thesis .
  next
    case True
    then obtain e where e: "index_get (ss_index st) p = Some e" "\<not> e_deleted e" by blast
    obtain r1 c1 d1 where t: "tick (ss_clock st) (ss_lease st) = (r1, c1, d1)" by (cases "tick (ss_clock st) (ss_lease st)")
    show ?thesis
    proof (cases r1)
      case (Inl x)
      with Cons.prems t e tick_evolves [OF Cons.prems(2), of x c1 d1 i] show ?thesis by auto
    next
      case (Inr k)
      let ?e = "\<lparr>e_path = p, e_kind = e_kind e, e_size = 0, e_mtime = mtime_default, e_exec = False,
        e_hash = [], e_vv = vv_set self k (e_vv e), e_deleted = True\<rparr>"
      let ?st = "refold st (index_upsert ?e (ss_index st)) c1 d1"
      have s: "evolves self st ?st"
        by (rule tick_upsert_evolves [OF Cons.prems(2)]) (use t Inr e in simp_all)
      have "fold_tombstoned self ps (n + 1) (ss_index ?st) (ss_clock ?st) (ss_lease ?st) = (r, i, c, d)"
        using Cons.prems(1) t Inr e by simp
      from Cons.IH [OF this evolves_ok [OF s]] evolves_trans [OF s] show ?thesis by simp
    qed
  qed
qed auto

lemma fold_observation_evolves:
  assumes "fold_observation self obs (ss_index st) (ss_clock st) (ss_lease st) = (r, i, c, d)" and ok: "state_ok self st"
  shows "evolves self st (refold st i c d)"
proof -
  let ?st0 = "st\<lparr>ss_index := foldl touch (ss_index st) (obs_touched obs)\<rparr>"
  have t: "evolves self st ?st0" by (rule touches_evolve [OF ok])
  obtain r1 i1 c1 d1 where A: "fold_changed self (obs_changed obs) 0 (ss_index ?st0) (ss_clock ?st0) (ss_lease ?st0) = (r1, i1, c1, d1)"
    by (metis prod_cases4)
  note a = evolves_trans [OF t fold_changed_evolves [OF A evolves_ok [OF t]]]
  show ?thesis
  proof (cases r1)
    case (Inl x)
    with assms(1) A a show ?thesis by (simp add: fold_observation_def)
  next
    case (Inr k)
    let ?st1 = "refold ?st0 i1 c1 d1"
    obtain r2 i2 c2 d2 where B: "fold_tombstoned self (obs_tombstoned obs) 0 (ss_index ?st1) (ss_clock ?st1) (ss_lease ?st1) = (r2, i2, c2, d2)"
      by (metis prod_cases4)
    from evolves_trans [OF a fold_tombstoned_evolves [OF B evolves_ok [OF a]]] A B Inr assms(1)
    show ?thesis by (auto simp: fold_observation_def split: sum.splits)
  qed
qed

section \<open>What single updates leave alone\<close>

lemma settle_versions: "versions_at (settle_pending p v st) p = drop_covered v (versions_at st p)"
proof (cases "map_of (ss_pending st) p")
  case None
  then show ?thesis by (simp add: settle_pending_def versions_at_def drop_covered_def)
next
  case (Some vs)
  then show ?thesis by (simp add: settle_pending_def versions_at_set) (simp add: versions_at_def)
qed

lemma settle_index [simp]:
  "ss_index (settle_pending p v st) = ss_index st" "ss_watermarks (settle_pending p v st) = ss_watermarks st"
  "ss_clock (settle_pending p v st) = ss_clock st"
  by (auto simp: settle_pending_def set_versions_def split: option.splits)

lemma upsert_get [simp]: "index_get (ss_index (upsert e st)) p = (if p = e_path e then Some e else index_get (ss_index st) p)"
  by (simp add: upsert_def)

lemma bump_frame: "bump self v st = (v', st') \<Longrightarrow> ss_index st' = ss_index st \<and> ss_pending st' = ss_pending st"
  by (auto simp: bump_def split: prod.splits sum.splits)

lemma bump_conflicts: "bump self v st = (v', st') \<Longrightarrow> ss_conflicts st' = ss_conflicts st"
  by (auto simp: bump_def split: prod.splits sum.splits)

lemma set_versions_frame [simp]:
  "ss_conflicts (set_versions p vs st) = ss_conflicts st" "ss_index (set_versions p vs st) = ss_index st"
  "ss_conflicts (upsert e st) = ss_conflicts st" "ss_conflicts (settle_pending p v st) = ss_conflicts st"
  by (auto simp: set_versions_def upsert_def settle_pending_def split: option.splits)

end
