(* ===== verification/Rounds.thy ===== *)
theory Rounds
  imports Landing
begin

text \<open>
  The exchange of rounds (\<open>sync/src/engine.rs\<close>): the answering leg toward a peer, the reception of a
  head, and the absorption of a round once all its pages are there. \<open>persist\<close> is two writes, the meta
  document and then the index, each of which may fail.

  The descriptor hash and the size of a serialized value are third-party and enter as the parameters
  \<open>dh\<close> and \<open>sz\<close>; round numbers come from the engine's counter.
\<close>

section \<open>The store\<close>

record set_store =
  sv_meta :: "json option"
  sv_index :: "json option"
  sv_faults :: "bool list"

definition next_write :: "set_store \<Rightarrow> bool \<times> set_store" where
  "next_write sv = (case sv_faults sv of [] \<Rightarrow> (True, sv) | b # bs \<Rightarrow> (\<not> b, sv\<lparr>sv_faults := bs\<rparr>))"

definition jmap :: "('v \<Rightarrow> json) \<Rightarrow> (string \<times> 'v) list \<Rightarrow> json" where
  "jmap f m = jobj (map (\<lambda>p. (fst p, f (snd p))) m)"

definition claim_to_value :: "invite_claim \<Rightarrow> json" where
  "claim_to_value c = jobj
     [(''inviter'', JStr (ic_inviter c)), (''entries'', of_u64 (ic_entries c)),
      (''total_size'', of_u64 (ic_total_size c))]"

definition stub_to_value :: "stub \<Rightarrow> json" where
  "stub_to_value s = jobj
     [(''remaining'', JArr (map (\<lambda>p. JStr (fst p)) (st_remaining s))), (''attempts'', of_u64 (st_attempts s))]"

definition parked_to_value :: "parked_entry \<Rightarrow> json" where
  "parked_to_value p = jobj
     [(''staged'', JStr (pk_staged p)), (''entry'', entry_to_value (pk_entry p)),
      (''reason'', JStr (pk_reason p)), (''attempts'', of_u64 (pk_attempts p))]"

definition opt_value :: "('v \<Rightarrow> json) \<Rightarrow> 'v option \<Rightarrow> json" where
  "opt_value f x = (case x of None \<Rightarrow> JNull | Some v \<Rightarrow> f v)"

definition meta_to_value :: "set_state \<Rightarrow> json" where
  "meta_to_value st = jobj
     [(''membership'', membership_to_value (ss_membership st)),
      (''root'', opt_value JStr (ss_root st)),
      (''pending'', jmap (\<lambda>es. JArr (map entry_to_value es)) (ss_pending st)),
      (''watermarks'', jmap vv_to_value (ss_watermarks st)),
      (''invite_claim'', opt_value claim_to_value (ss_claim st)),
      (''stub'', opt_value stub_to_value (ss_stub st)),
      (''open_invites'', jmap of_u64 (ss_open_invites st)),
      (''need_counter'', of_u64 (ss_need_counter st)),
      (''landed_bytes'', of_u64 (ss_landed_bytes st)),
      (''disk_full'', JBool (ss_disk_full st)),
      (''conflicts'', JArr (map (\<lambda>p. conflict_to_value (snd p)) (ss_conflicts st))),
      (''parked'', jmap parked_to_value (ss_parked st))]"

definition persist :: "set_state \<Rightarrow> set_store \<Rightarrow> bool \<times> set_store" where
  "persist st sv =
     (case next_write sv of
        (False, sv) \<Rightarrow> (False, sv)
      | (True, sv) \<Rightarrow>
          (case next_write (sv\<lparr>sv_meta := Some (meta_to_value st)\<rparr>) of
             (False, sv) \<Rightarrow> (False, sv)
           | (True, sv) \<Rightarrow> (True, sv\<lparr>sv_index := Some (index_to_value (ss_index st))\<rparr>)))"

section \<open>The answering leg\<close>

definition leg_delta :: "vv \<Rightarrow> set_state \<Rightarrow> entry list" where
  "leg_delta their_vv st =
     not_covered_by (ss_index st) their_vv @
     filter (\<lambda>e. \<not> covers their_vv (e_vv e)) (concat (map snd (ss_pending st)))"

definition serving :: "string \<Rightarrow> string \<Rightarrow> bool \<Rightarrow> set_state \<Rightarrow> bool" where
  "serving self_node from with_delta st \<longleftrightarrow>
     with_delta \<and> ss_root st \<noteq> None \<and> effective (ss_membership st) self_node = EActive \<and>
     effective (ss_membership st) from = EActive"

definition entry_pages ::
  "(json \<Rightarrow> nat) \<Rightarrow> string \<Rightarrow> string \<Rightarrow> bool \<Rightarrow> vv \<Rightarrow> set_state \<Rightarrow> json list list \<times> bool" where
  "entry_pages sz self_node from with_delta their_vv st =
     (if serving self_node from with_delta st
      then (case paginate sz (map entry_to_value (leg_delta their_vv st)) of
              None \<Rightarrow> ([], True)
            | Some pages \<Rightarrow> (pages, True))
      else ([], False))"

definition records_payload :: "string \<Rightarrow> nat \<Rightarrow> nat \<times> gossip_page \<Rightarrow> json" where
  "records_payload set_id round p =
     (case snd p of (records, endorsements, conflicts) \<Rightarrow>
        envelope ''records'' set_id
          [(''round'', of_u64 round), (''page'', of_u64 (fst p)), (''records'', JArr records),
           (''endorsements'', JArr endorsements), (''conflicts'', JArr conflicts)])"

definition entries_payload :: "string \<Rightarrow> nat \<Rightarrow> nat \<times> json list \<Rightarrow> json" where
  "entries_payload set_id round p =
     envelope ''entries'' set_id
       [(''round'', of_u64 round), (''page'', of_u64 (fst p)), (''entries'', JArr (snd p))]"

definition answer_position ::
  "(set_descriptor \<Rightarrow> string) \<Rightarrow> string \<Rightarrow> nat \<Rightarrow> nat \<Rightarrow> bool \<Rightarrow> set_state \<Rightarrow> head_position" where
  "answer_position dh self_node records_pages entries_pages complete st =
     \<lparr>hp_descriptor_hash = dh (sm_descriptor (ss_membership st)),
      hp_set_vv = advertised (self_component (ss_clock st) self_node) st,
      hp_records_pages = records_pages, hp_entries_pages = entries_pages,
      hp_entries_complete = complete\<rparr>"

definition answer_head ::
  "(set_descriptor \<Rightarrow> string) \<Rightarrow> (json \<Rightarrow> nat) \<Rightarrow> string \<Rightarrow> string \<Rightarrow> nat \<Rightarrow> string \<Rightarrow> string \<Rightarrow> nat \<Rightarrow> vv \<Rightarrow> bool \<Rightarrow>
   set_state \<Rightarrow> (string \<times> json) list" where
  "answer_head dh sz self_node sync_pub round from set_id answered their_vv with_delta st =
     (let record_pages = paginate_gossip sz (all_records (ss_membership st))
                           (map endorsement_to_value (held_endorsements (ss_membership st)))
                           (map (\<lambda>p. conflict_to_value (snd p)) (ss_conflicts st));
          (pages, complete) = entry_pages sz self_node from with_delta their_vv st;
          head = MsgHead set_id round (Some answered)
                   (Some (answer_position dh self_node (length record_pages) (length pages) complete st))
                   sync_pub
      in map (Pair from)
           (message_to_value head # map (records_payload set_id round) (enumerate 0 record_pages) @
            map (entries_payload set_id round) (enumerate 0 pages)))"

definition opener ::
  "(set_descriptor \<Rightarrow> string) \<Rightarrow> (json \<Rightarrow> nat) \<Rightarrow> string \<Rightarrow> string \<Rightarrow> nat \<Rightarrow> string \<Rightarrow> string \<Rightarrow> set_state \<Rightarrow>
   (string \<times> json) list" where
  "opener dh sz self_node sync_pub round set_id peer st =
     (let pages = paginate_gossip sz (all_records (ss_membership st))
                    (map endorsement_to_value (held_endorsements (ss_membership st)))
                    (map (\<lambda>p. conflict_to_value (snd p)) (ss_conflicts st));
          head = MsgHead set_id round None
                   (Some (answer_position dh self_node (length pages) 0 False st)) sync_pub
      in map (Pair peer) (message_to_value head # map (records_payload set_id round) (enumerate 0 pages)))"

section \<open>Folding a walk\<close>

definition rearm :: "set_state \<Rightarrow> set_state" where
  "rearm st = st\<lparr>ss_parked := map (\<lambda>p. (fst p, (snd p)\<lparr>pk_attempts := 0\<rparr>)) (ss_parked st)\<rparr>"

definition scan_folded :: "string \<Rightarrow> observation \<Rightarrow> set_state \<Rightarrow> (string + scan_report) \<times> set_state" where
  "scan_folded key obs st =
     (case fold_observation key obs (ss_index st) (ss_clock st) (ss_lease st) of
        (r, i, c, d) \<Rightarrow> (r, st\<lparr>ss_index := i, ss_clock := c, ss_lease := d\<rparr>))"

definition fold_scan ::
  "fs_env \<Rightarrow> string \<Rightarrow> observation \<Rightarrow> set_state \<Rightarrow> set_store \<Rightarrow> (string + scan_report) \<times> set_state \<times> set_store" where
  "fold_scan fx self_node obs st sv =
     (let key = self_component (ss_clock st) self_node
      in case scan_folded key obs (rearm st) of
           (Inl e, st1) \<Rightarrow> (Inl e, st1, sv)
         | (Inr report, st1) \<Rightarrow>
             let st2 = (drain_pending fx key st1)\<lparr>ss_ignored := sr_ignored report\<rparr>
             in case persist st2 sv of
                  (True, sv) \<Rightarrow> (Inr report, st2, sv)
                | (False, sv) \<Rightarrow> (Inl ''write failed'', st2, sv))"

section \<open>Absorbing a round\<close>

definition echoes :: "string \<Rightarrow> nat \<Rightarrow> wire_record \<Rightarrow> bool" where
  "echoes self_node our_seq r =
     (case r of
        Member m \<Rightarrow> mr_node_id m = self_node \<and> is_terminal (mr_status m) \<and> our_seq \<le> mr_seq m
      | _ \<Rightarrow> False)"

definition absorb_page ::
  "deps \<Rightarrow> string \<Rightarrow> nat \<Rightarrow> bool \<times> set_state \<Rightarrow> records_page \<Rightarrow> bool \<times> set_state" where
  "absorb_page dp self_node our_seq es page =
     (case page of (records, endorsements, conflicts) \<Rightarrow>
        let m = foldl (\<lambda>m r. snd (absorb_record dp r m)) (ss_membership (snd es)) records;
            m = foldl (\<lambda>m e. snd (absorb_endorsement dp e m)) m endorsements;
            st = foldl (\<lambda>st c. absorb_conflict dp c st) ((snd es)\<lparr>ss_membership := m\<rparr>) conflicts
        in (fst es \<or> list_ex (echoes self_node our_seq) records, st))"

definition page_entries :: "round_buffer \<Rightarrow> entry list" where
  "page_entries b = concat (map snd (rb_entries b))"

definition own_claim :: "string \<Rightarrow> head_position \<Rightarrow> entry list \<Rightarrow> nat" where
  "own_claim self p es = fold (\<lambda>e n. max n (vv_get (e_vv e) self)) es (vv_get (hp_set_vv p) self)"

definition guard_clock :: "nat \<Rightarrow> set_state \<Rightarrow> set_state" where
  "guard_clock claim st =
     (if c_current (ss_clock st) < claim
      then (case jump_above claim (ss_clock st) (ss_lease st) of
              (r, c, d) \<Rightarrow> st\<lparr>ss_clock := c, ss_lease := d\<rparr>)
      else st)"

definition absorb_entries :: "entry list \<Rightarrow> set_state \<Rightarrow> bool \<times> set_state" where
  "absorb_entries es st =
     foldl (\<lambda>(all, st) e. case absorb_entry e st of (ok, st) \<Rightarrow> (all \<and> ok, st)) (True, st) es"

definition settle_stub :: "string \<Rightarrow> set_state \<Rightarrow> set_state" where
  "settle_stub from st =
     (case ss_stub st of
        None \<Rightarrow> st
      | Some s \<Rightarrow>
          let left = bt_remove from (st_remaining s)
          in st\<lparr>ss_stub := (if left = [] then None else Some (s\<lparr>st_remaining := left\<rparr>))\<rparr>)"

definition pages_there :: "head_position \<Rightarrow> round_buffer \<Rightarrow> bool" where
  "pages_there p b \<longleftrightarrow>
     list_all (\<lambda>i. map_of (rb_records b) i \<noteq> None) [0..<hp_records_pages p] \<and>
     list_all (\<lambda>i. map_of (rb_entries b) i \<noteq> None) [0..<hp_entries_pages p]"

definition merge_watermark :: "string \<Rightarrow> vv \<Rightarrow> set_state \<Rightarrow> set_state" where
  "merge_watermark from vv st =
     st\<lparr>ss_watermarks := bt_entry from [] (\<lambda>w. merge_max w vv) (ss_watermarks st)\<rparr>"

definition restore_watermark :: "string \<Rightarrow> vv option \<Rightarrow> set_state \<Rightarrow> set_state" where
  "restore_watermark from previous st =
     st\<lparr>ss_watermarks := (case previous of
          Some vv \<Rightarrow> bt_insert from vv (ss_watermarks st)
        | None \<Rightarrow> bt_remove from (ss_watermarks st))\<rparr>"

definition commit_leg ::
  "string \<Rightarrow> vv \<Rightarrow> bool \<Rightarrow> set_state \<Rightarrow> set_store \<Rightarrow> set_state \<times> set_store" where
  "commit_leg from vv advance st sv =
     (if advance then
        let previous = map_of (ss_watermarks st) from; st1 = merge_watermark from vv st
        in case persist st1 sv of
             (True, sv) \<Rightarrow> (st1, sv)
           | (False, sv) \<Rightarrow> (restore_watermark from previous st1, sv)
      else (st, snd (persist st sv)))"

text \<open>The round up to the drain: whether the watermark may advance, and the state.\<close>

definition round_absorbed ::
  "deps \<Rightarrow> string \<Rightarrow> string \<Rightarrow> nat \<Rightarrow> head_position \<Rightarrow> round_buffer \<Rightarrow> set_state \<Rightarrow> bool \<times> set_state" where
  "round_absorbed dp self_node from now p b st =
     (let our_seq = terminal_seq_of (ss_membership st) self_node;
          (echoed, st1) = foldl (absorb_page dp self_node our_seq) (False, st) (map snd (rb_records b));
          st2 = guard_clock (own_claim (self_component (ss_clock st1) self_node) p (page_entries b)) st1;
          active = effective (ss_membership st2) from = EActive;
          (all_absorbed, st3) = (if active then absorb_entries (page_entries b) st2 else (True, st2));
          st4 = (if echoed then settle_stub from st3 else st3)
      in (hp_entries_complete p \<and> active \<and> all_absorbed,
          st4\<lparr>ss_last_round := bt_insert from now (ss_last_round st4)\<rparr>))"

definition absorb_round ::
  "deps \<Rightarrow> fs_env \<Rightarrow> string \<Rightarrow> string \<Rightarrow> nat \<Rightarrow> head_position \<Rightarrow> round_buffer \<Rightarrow> set_state \<Rightarrow> set_store \<Rightarrow>
   set_state \<times> set_store" where
  "absorb_round dp fx self_node from now p b st sv =
     (case round_absorbed dp self_node from now p b st of
        (advance, st) \<Rightarrow>
          commit_leg from (hp_set_vv p) advance
            (drain_pending fx (self_component (ss_clock st) self_node) st) sv)"

definition try_complete ::
  "deps \<Rightarrow> fs_env \<Rightarrow> string \<Rightarrow> string \<Rightarrow> nat \<Rightarrow> nat \<Rightarrow> set_state \<Rightarrow> set_store \<Rightarrow> set_state \<times> set_store" where
  "try_complete dp fx self_node from round now st sv =
     (let st = prune_buffers now st
      in case map_of (ss_inflight st) (from, round) of
           None \<Rightarrow> (st, sv)
         | Some b \<Rightarrow>
             (case rb_head b of
                None \<Rightarrow> (st, sv)
              | Some (p, answers) \<Rightarrow>
                  if \<not> pages_there p b then (st, sv)
                  else absorb_round dp fx self_node from now p b
                         (st\<lparr>ss_inflight := bt_remove (from, round) (ss_inflight st)\<rparr>) sv))"

section \<open>Receiving\<close>

definition receive_records ::
  "deps \<Rightarrow> fs_env \<Rightarrow> string \<Rightarrow> string \<Rightarrow> nat \<Rightarrow> nat \<Rightarrow> nat \<Rightarrow> records_page \<Rightarrow> set_state \<Rightarrow> set_store \<Rightarrow>
   set_state \<times> set_store" where
  "receive_records dp fx self_node from round page now rs st sv =
     try_complete dp fx self_node from round now
       (buffer_page from round now (\<lambda>b. b\<lparr>rb_records := bt_insert page rs (rb_records b)\<rparr>) st) sv"

definition receive_entries ::
  "deps \<Rightarrow> fs_env \<Rightarrow> string \<Rightarrow> string \<Rightarrow> nat \<Rightarrow> nat \<Rightarrow> nat \<Rightarrow> entry list \<Rightarrow> set_state \<Rightarrow> set_store \<Rightarrow>
   set_state \<times> set_store" where
  "receive_entries dp fx self_node from round page now es st sv =
     try_complete dp fx self_node from round now
       (buffer_page from round now (\<lambda>b. b\<lparr>rb_entries := bt_insert page es (rb_entries b)\<rparr>) st) sv"

definition no_membership_marker :: "string \<Rightarrow> nat \<Rightarrow> nat \<Rightarrow> string \<Rightarrow> json" where
  "no_membership_marker set_id round answered sync_pub =
     message_to_value (MsgHead set_id round (Some answered) None sync_pub)"

text \<open>
  \<open>on_head\<close> on a set we hold; \<open>closes\<close> says that the head answers a round of ours that was itself an
  answer or that we no longer know, and \<open>round'\<close> is the next round number.
\<close>

definition on_head ::
  "deps \<Rightarrow> fs_env \<Rightarrow> (set_descriptor \<Rightarrow> string) \<Rightarrow> (json \<Rightarrow> nat) \<Rightarrow> string \<Rightarrow> string \<Rightarrow> nat \<Rightarrow> bool \<Rightarrow>
   string \<Rightarrow> string \<Rightarrow> nat \<Rightarrow> nat option \<Rightarrow> head_position option \<Rightarrow> string \<Rightarrow> nat \<Rightarrow>
   set_state \<Rightarrow> set_store \<Rightarrow> (string \<times> json) list \<times> set_state \<times> set_store" where
  "on_head dp fx dh sz self_node our_pub round' closes from set_id round answers position their_pub now st sv =
     (let st1 = st\<lparr>ss_membership := pin_direct dp from their_pub (ss_membership st)\<rparr>
      in case position of
           None \<Rightarrow>
             let st2 = st1\<lparr>ss_membership := drop_stranger from (ss_membership st1),
                           ss_intro_attempts := bt_remove from (ss_intro_attempts st1)\<rparr>
             in ([], st2, snd (persist st2 sv))
         | Some p \<Rightarrow>
             if hp_descriptor_hash p \<noteq> dh (sm_descriptor (ss_membership st1)) then ([], st1, sv)
             else
               (case admit_buffer from round now (prune_buffers now st1) of
                  (admitted, st2) \<Rightarrow>
                    if \<not> admitted then ([], st2, sv)
                    else
                      let st3 = st2\<lparr>ss_inflight :=
                                  bt_adjust (from, round) (\<lambda>b. b\<lparr>rb_head := Some (p, answers)\<rparr>) (ss_inflight st2)\<rparr>;
                          (st4, sv) = try_complete dp fx self_node from round now st3 sv
                      in if answers \<noteq> None \<and> closes then ([], st4, sv)
                         else (case answer_due_now from now st4 of
                                 (with_delta, st5) \<Rightarrow>
                                   (answer_head dh sz self_node our_pub round' from set_id round
                                      (hp_set_vv p) with_delta st5, st5, sv))))"

end
