(* ===== verification/RoundFacts.thy ===== *)
theory RoundFacts
  imports Retention Rounds
begin

text \<open>
  What absorbing a round does to what a set holds and to its watermarks.
\<close>

section \<open>Parking an entry\<close>

definition takes :: "set_state \<Rightarrow> entry \<Rightarrow> bool" where
  "takes st e \<longleftrightarrow> (\<exists>h \<in> set (held_at st (e_path e)). vv_le (e_vv e) (e_vv h))"

lemma takes_mono: "keeps st st' \<Longrightarrow> takes st e \<Longrightarrow> takes st' e"
  unfolding takes_def keeps_def using vv_le_trans by meson

text \<open>Everything but the pending set, the membership and the conflict records.\<close>

definition same_rest :: "set_state \<Rightarrow> set_state \<Rightarrow> bool" where
  "same_rest st st' \<longleftrightarrow>
     ss_index st' = ss_index st \<and> ss_clock st' = ss_clock st \<and> ss_lease st' = ss_lease st \<and>
     ss_watermarks st' = ss_watermarks st \<and> ss_parked st' = ss_parked st \<and> ss_root st' = ss_root st"

lemma same_rest_refl [simp]: "same_rest st st"
  by (simp add: same_rest_def)

lemma same_rest_trans: "same_rest a b \<Longrightarrow> same_rest b c \<Longrightarrow> same_rest a c"
  by (simp add: same_rest_def)

definition parks :: "string \<Rightarrow> entry list \<Rightarrow> set_state \<Rightarrow> set_state \<Rightarrow> bool" where
  "parks self es st st' \<longleftrightarrow>
     state_ok self st' \<and> keeps st st' \<and> slots st' PENDING_PER_PATH \<and> same_rest st st' \<and>
     (\<forall>k b. below st k b \<longrightarrow> (\<forall>e \<in> set es. vv_get (e_vv e) k \<le> b) \<longrightarrow> below st' k b)"

lemma parks_refl: "state_ok self st \<Longrightarrow> slots st PENDING_PER_PATH \<Longrightarrow> parks self es st st"
  by (simp add: parks_def)

lemma parks_append:
  assumes ab: "parks self es a b" and bc: "parks self fs b c"
  shows "parks self (es @ fs) a c"
proof -
  have "keeps a c" using ab bc keeps_trans unfolding parks_def by blast
  moreover have "same_rest a c" using ab bc same_rest_trans unfolding parks_def by blast
  moreover have "below c k n" if "below a k n" "\<forall>e \<in> set (es @ fs). vv_get (e_vv e) k \<le> n" for k n
  proof -
    have "below b k n" using ab that unfolding parks_def by simp
    with bc that(2) show ?thesis unfolding parks_def by simp
  qed
  ultimately show ?thesis using bc by (simp add: parks_def)
qed

lemma parks_trans: "parks self [e] a b \<Longrightarrow> parks self es b c \<Longrightarrow> parks self (e # es) a c"
  using parks_append [of self "[e]"] by simp

lemma pending_insert_parks:
  assumes ok: "state_ok self st" and slots: "slots st PENDING_PER_PATH"
    and vs: "\<forall>h \<in> set vs. h = e \<or> h \<in> set (versions_at st (e_path e))" "length vs \<le> PENDING_PER_PATH"
      "\<forall>h \<in> set (versions_at st (e_path e)). \<exists>h' \<in> set vs. vv_le (e_vv h) (e_vv h')"
    and e: "bt_ok (e_vv e)" "vv_get (e_vv e) self \<le> c_current (ss_clock st)"
  shows "parks self [e] st (st\<lparr>ss_pending := bt_insert (e_path e) vs (ss_pending st)\<rparr>)"
proof -
  define st' where "st' = st\<lparr>ss_pending := bt_insert (e_path e) vs (ss_pending st)\<rparr>"
  have frame: "same_rest st st'" "ss_index st' = ss_index st" "ss_clock st' = ss_clock st"
    by (simp_all add: st'_def same_rest_def)
  have at: "versions_at st' p = (if p = e_path e then vs else versions_at st p)" for p
    by (simp add: st'_def versions_at_def)
  have new: "h = e \<or> h \<in> set (held_at st p)" if "h \<in> set (held_at st' p)" for h p
    using that vs(1) by (auto simp: in_held_at frame at split: if_splits)
  have "\<exists>h' \<in> set (held_at st' p). vv_le (e_vv h) (e_vv h')" if "h \<in> set (held_at st p)" for h p
  proof (cases "p = e_path e \<and> h \<in> set (versions_at st p)")
    case True
    with vs(3) show ?thesis by (metis at held_at_versions)
  next
    case False
    with that have "h \<in> set (held_at st' p)" by (auto simp: in_held_at frame at)
    then show ?thesis by (rule still_held)
  qed
  then have "keeps st st'" by (simp add: keeps_def)
  moreover have "\<forall>h \<in> set vs. e_path h = e_path e \<and> bt_ok (e_vv h)"
  proof
    fix h assume "h \<in> set vs"
    with vs(1) consider "h = e" | "h \<in> set (versions_at st (e_path e))" by blast
    then show "e_path h = e_path e \<and> bt_ok (e_vv h)"
      using e(1) pending_theirs [OF ok, of h "e_path e"] by cases auto
  qed
  then have "pending_ok (ss_pending st')"
    using ok unfolding st'_def state_ok_def by (auto intro: pending_ok_insert)
  moreover have "\<forall>h \<in> set (held_at st' p). vv_get (e_vv h) self \<le> c_current (ss_clock st)" for p
    using new ok e(2) unfolding state_ok_def by blast
  moreover have "below st' k b" if "below st k b" "vv_get (e_vv e) k \<le> b" for k b
    using new that unfolding below_def by blast
  moreover have "slots st' PENDING_PER_PATH" using slots vs(2) by (simp add: slots_def at)
  ultimately show ?thesis
    using ok frame unfolding st'_def [symmetric] by (simp add: parks_def state_ok_def)
qed

lemma absorb_entry_parks:
  assumes run: "absorb_entry e st = (r, st')" and ok: "state_ok self st" and slots: "slots st PENDING_PER_PATH"
    and e: "bt_ok (e_vv e)" "vv_get (e_vv e) self \<le> c_current (ss_clock st)"
  shows "parks self [e] st st' \<and> (r \<longrightarrow> takes st' e)"
proof -
  let ?old = "versions_at st (e_path e)" and ?p = "e_path e"
  define vs where "vs = filter (\<lambda>held. \<not> covers (e_vv e) (e_vv held)) ?old"
  have dropped: "vv_le (e_vv h) (e_vv e)" if "h \<in> set ?old" "h \<notin> set vs" for h
    using that pending_theirs [OF ok that(1)] by (simp add: vs_def covers_vv_le)
  have len: "length ?old \<le> PENDING_PER_PATH" using slots by (simp add: slots_def)
  let ?ins = "\<lambda>vs. st\<lparr>ss_pending := bt_insert ?p vs (ss_pending st)\<rparr>"
  have held: "h \<in> set (held_at (?ins ws) ?p)" if "h \<in> set ws" for h ws
    using that by (simp add: held_at_def versions_at_def)
  consider (index) "index_covers st e" "st' = st"
    | (full) "\<not> r" "st' = st"
    | (old) h where "h \<in> set vs" "covers (e_vv h) (e_vv e)" "st' = ?ins vs"
    | (refused) "\<not> r" "PENDING_PER_PATH \<le> length vs" "st' = ?ins vs"
    | (new) "length vs < PENDING_PER_PATH" "st' = ?ins (vs @ [e])"
    using run by (auto simp: absorb_entry_def Let_def vs_def [symmetric] list_ex_iff split: if_splits)
  then show ?thesis
  proof cases
    case index
    then obtain ours where ours: "index_get (ss_index st) ?p = Some ours" "covers (e_vv ours) (e_vv e)"
      by (auto simp: index_covers_def split: option.splits)
    then have "takes st e"
      using held_at_index e(1) by (auto simp: takes_def covers_vv_le)
    with index parks_refl [OF ok slots] show ?thesis by simp
  next
    case full
    with parks_refl [OF ok slots] show ?thesis by simp
  next
    case old
    then have le: "vv_le (e_vv e) (e_vv h)" using e(1) by (simp add: covers_vv_le)
    have "parks self [e] st (?ins vs)"
    proof (rule pending_insert_parks [OF ok slots _ _ _ e])
      show "\<forall>h \<in> set vs. h = e \<or> h \<in> set ?old" by (simp add: vs_def)
      show "length vs \<le> PENDING_PER_PATH" using len le_trans [OF length_filter_le len] by (simp add: vs_def)
      show "\<forall>g \<in> set ?old. \<exists>h' \<in> set vs. vv_le (e_vv g) (e_vv h')"
        using dropped old(1) le still_held vv_le_trans by blast
    qed
    moreover have "takes (?ins vs) e" using held [OF old(1)] le by (auto simp: takes_def)
    ultimately show ?thesis by (simp add: old(3))
  next
    case refused
    have "length vs \<le> length ?old" by (simp add: vs_def)
    then have "length vs = length ?old" using refused(2) len by simp
    then have "vs = ?old" unfolding vs_def by (metis length_filter_less filter_True less_irrefl)
    then have "parks self [e] st (?ins vs)"
      using len still_held by (intro pending_insert_parks [OF ok slots _ _ _ e]) auto
    with refused show ?thesis by simp
  next
    case new
    have "parks self [e] st (?ins (vs @ [e]))"
    proof (rule pending_insert_parks [OF ok slots _ _ _ e])
      show "\<forall>h \<in> set (vs @ [e]). h = e \<or> h \<in> set ?old" by (auto simp: vs_def)
      show "length (vs @ [e]) \<le> PENDING_PER_PATH" using new(1) by simp
      show "\<forall>g \<in> set ?old. \<exists>h' \<in> set (vs @ [e]). vv_le (e_vv g) (e_vv h')"
        using dropped vv_le_refl by (metis Un_iff list.set_intros(1) set_append)
    qed
    moreover have "takes (?ins (vs @ [e])) e"
      unfolding takes_def by (rule still_held) (simp add: held_at_def versions_at_def)
    ultimately show ?thesis by (simp add: new(2))
  qed
qed

lemma absorb_entries_parks:
  assumes "foldl (\<lambda>(all, st) e. case absorb_entry e st of (ok, st) \<Rightarrow> (all \<and> ok, st)) (r0, st) es = (r, st')"
    and "state_ok self st" and "slots st PENDING_PER_PATH"
    and "\<forall>e \<in> set es. bt_ok (e_vv e) \<and> vv_get (e_vv e) self \<le> c_current (ss_clock st)"
  shows "parks self es st st' \<and> (r \<longrightarrow> r0 \<and> (\<forall>e \<in> set es. takes st' e))"
  using assms
proof (induction es arbitrary: r0 st)
  case Nil
  then show ?case by (auto intro: parks_refl)
next
  case (Cons e es)
  obtain r1 st1 where one: "absorb_entry e st = (r1, st1)" by fastforce
  note A = absorb_entry_parks [OF one Cons.prems(2,3)]
  then have p: "parks self [e] st st1" "r1 \<longrightarrow> takes st1 e" using Cons.prems(4) by auto
  have rest: "foldl (\<lambda>(all, st) e. case absorb_entry e st of (ok, st) \<Rightarrow> (all \<and> ok, st)) (r0 \<and> r1, st1) es = (r, st')"
    using Cons.prems(1) one by simp
  have "ss_clock st1 = ss_clock st" "state_ok self st1" "slots st1 PENDING_PER_PATH"
    using p(1) by (simp_all add: parks_def same_rest_def)
  with Cons.IH [OF rest] Cons.prems(4)
  have B: "parks self es st1 st'" "r \<longrightarrow> (r0 \<and> r1) \<and> (\<forall>e \<in> set es. takes st' e)" by auto
  then have "keeps st1 st'" by (simp add: parks_def)
  with B(2) p(2) have "r \<longrightarrow> r0 \<and> (\<forall>e \<in> set (e # es). takes st' e)" using takes_mono by auto
  with parks_trans [OF p(1) B(1)] show ?case by blast
qed

section \<open>The rest of a round\<close>

text \<open>Records, endorsements and conflicts leave the files alone.\<close>

definition same_files :: "set_state \<Rightarrow> set_state \<Rightarrow> bool" where
  "same_files st st' \<longleftrightarrow> same_rest st st' \<and> ss_pending st' = ss_pending st"

lemma same_files_refl [simp]: "same_files st st"
  by (simp add: same_files_def)

lemma same_files_trans: "same_files a b \<Longrightarrow> same_files b c \<Longrightarrow> same_files a c"
  using same_rest_trans [of a b c] by (simp add: same_files_def)

lemma same_files_held: "same_files st st' \<Longrightarrow> held_at st' = held_at st"
  by (simp add: same_files_def same_rest_def held_at_def versions_at_def fun_eq_iff)

lemma same_files_parks: "same_files st st' \<Longrightarrow> state_ok self st \<Longrightarrow> slots st PENDING_PER_PATH \<Longrightarrow> parks self es st st'"
  using still_held unfolding parks_def
  by (auto simp: same_files_held state_ok_def keeps_def below_def slots_def)
    (auto simp: same_files_def same_rest_def versions_at_def)

lemma absorb_conflict_files: "same_files st (absorb_conflict dp r st)"
  by (auto simp: absorb_conflict_def Let_def same_files_def same_rest_def split: option.splits)

lemma absorb_conflicts_files: "same_files st (foldl (\<lambda>st c. absorb_conflict dp c st) st cs)"
  by (induction cs arbitrary: st) (auto intro: same_files_trans absorb_conflict_files)

lemma absorb_page_files: "same_files st (snd (absorb_page dp self n (b, st) page))"
proof -
  have "same_files st (st\<lparr>ss_membership := m\<rparr>)" for m by (simp add: same_files_def same_rest_def)
  then show ?thesis
    using absorb_conflicts_files same_files_trans by (cases page) (simp add: absorb_page_def Let_def, blast)
qed

lemma absorb_pages_files: "same_files st (snd (foldl (absorb_page dp self n) (b, st) pages))"
proof (induction pages arbitrary: b st)
  case (Cons p ps)
  obtain b1 st1 where "absorb_page dp self n (b, st) p = (b1, st1)" by fastforce
  with absorb_page_files [of st dp self n b p] Cons.IH [of st1 b1] same_files_trans show ?case by auto
qed simp

lemma settle_stub_files: "same_files st (settle_stub from st)"
  by (auto simp: settle_stub_def Let_def same_files_def same_rest_def split: option.splits)

lemma last_round_files: "same_files st (st\<lparr>ss_last_round := m\<rparr>)"
  by (simp add: same_files_def same_rest_def)

section \<open>What a set advertises\<close>

definition watermarks_ok :: "set_state \<Rightarrow> bool" where
  "watermarks_ok st \<longleftrightarrow> bt_ok (ss_watermarks st) \<and> (\<forall>f w. map_of (ss_watermarks st) f = Some w \<longrightarrow> bt_ok w)"

lemma foldl_merge:
  "\<forall>w \<in> set ws. bt_ok (snd w) \<Longrightarrow> bt_ok v \<Longrightarrow>
   bt_ok (foldl (\<lambda>vv w. merge_max vv (snd w)) v ws) \<and>
   (n \<le> vv_get (foldl (\<lambda>vv w. merge_max vv (snd w)) v ws) k \<longleftrightarrow>
     n \<le> vv_get v k \<or> (\<exists>w \<in> set ws. n \<le> vv_get (snd w) k))"
  by (induction ws arbitrary: v) (auto simp: vv_get_merge_max)

lemma advertised_iff:
  assumes "watermarks_ok st"
  shows "n \<le> vv_get (advertised self st) k \<longleftrightarrow>
    n = 0 \<or> k = self \<and> n \<le> c_current (ss_clock st) \<or>
    (\<exists>f w. map_of (ss_watermarks st) f = Some w \<and> n \<le> vv_get w k)"
proof -
  let ?v = "if c_current (ss_clock st) > 0 then vv_set self (c_current (ss_clock st)) [] else []"
  have ok: "bt_ok (ss_watermarks st)" using assms by (simp add: watermarks_ok_def)
  have "\<forall>w \<in> set (ss_watermarks st). bt_ok (snd w)"
    using assms bt_ok_distinct [OF ok] by (auto simp: watermarks_ok_def)
  moreover have "bt_ok ?v" by (simp add: vv_set_def bt_ok_def)
  ultimately have "n \<le> vv_get (advertised self st) k \<longleftrightarrow>
      n \<le> vv_get ?v k \<or> (\<exists>w \<in> set (ss_watermarks st). n \<le> vv_get (snd w) k)"
    unfolding advertised_def using foldl_merge by blast
  also have "n \<le> vv_get ?v k \<longleftrightarrow> n = 0 \<or> k = self \<and> n \<le> c_current (ss_clock st)" by auto
  also have "(\<exists>w \<in> set (ss_watermarks st). n \<le> vv_get (snd w) k) \<longleftrightarrow>
      (\<exists>f w. map_of (ss_watermarks st) f = Some w \<and> n \<le> vv_get w k)"
    using bt_ok_distinct [OF ok] by (force simp: map_of_in_set [OF ok, symmetric])
  finally show ?thesis by blast
qed

lemma advertised_ok: "watermarks_ok st \<Longrightarrow> bt_ok (advertised self st)"
proof -
  assume w: "watermarks_ok st"
  have ok: "bt_ok (ss_watermarks st)" using w by (simp add: watermarks_ok_def)
  have "\<forall>w \<in> set (ss_watermarks st). bt_ok (snd w)"
    using w bt_ok_distinct [OF ok] by (auto simp: watermarks_ok_def)
  moreover have "bt_ok (if c_current (ss_clock st) > 0 then vv_set self (c_current (ss_clock st)) [] else [])"
    by (simp add: vv_set_def bt_ok_def)
  ultimately show ?thesis unfolding advertised_def using foldl_merge by blast
qed

text \<open>The watermarks after a leg: as before, or merged with the declared vector when it is complete.\<close>

definition wm_step :: "string \<Rightarrow> vv \<Rightarrow> bool \<Rightarrow> set_state \<Rightarrow> set_state \<Rightarrow> bool" where
  "wm_step from vv adv st st' \<longleftrightarrow>
     watermarks_ok st' \<and>
     (map_of (ss_watermarks st') = map_of (ss_watermarks st) \<or>
      adv \<and> map_of (ss_watermarks st') = (map_of (ss_watermarks st))(from \<mapsto>
        merge_max (case map_of (ss_watermarks st) from of None \<Rightarrow> [] | Some w \<Rightarrow> w) vv))"

lemma commit_leg_step:
  assumes "watermarks_ok st" and "bt_ok vv"
  shows "wm_step from vv adv st (fst (commit_leg from vv adv st sv)) \<and>
    (\<exists>m. fst (commit_leg from vv adv st sv) = st\<lparr>ss_watermarks := m\<rparr>)"
proof (cases adv)
  case False
  with assms show ?thesis by (auto simp: commit_leg_def wm_step_def intro: exI [of _ "ss_watermarks st"])
next
  case True
  let ?st1 = "merge_watermark from vv st"
  have ok: "bt_ok (ss_watermarks st)" using assms(1) by (simp add: watermarks_ok_def)
  have m: "map_of (ss_watermarks ?st1) = (map_of (ss_watermarks st))(from \<mapsto>
      merge_max (case map_of (ss_watermarks st) from of None \<Rightarrow> [] | Some w \<Rightarrow> w) vv)"
    by (simp add: merge_watermark_def map_of_bt_entry [OF ok])
  have "bt_ok (merge_max (case map_of (ss_watermarks st) from of None \<Rightarrow> [] | Some w \<Rightarrow> w) vv)"
    using assms(1) by (auto simp: watermarks_ok_def bt_ok_def [of "[]"] split: option.splits)
  then have ok1: "watermarks_ok ?st1"
    using assms(1) by (simp add: watermarks_ok_def m) (simp add: merge_watermark_def)
  have undone: "map_of (ss_watermarks (restore_watermark from (map_of (ss_watermarks st) from) ?st1)) = map_of (ss_watermarks st)"
    by (auto simp: restore_watermark_def m fun_eq_iff split: option.splits)
  have "bt_ok (ss_watermarks (restore_watermark from p ?st1))" for p
    using ok1 by (auto simp: restore_watermark_def watermarks_ok_def split: option.splits)
  then have ok2: "watermarks_ok (restore_watermark from (map_of (ss_watermarks st) from) ?st1)"
    using assms(1) by (simp add: watermarks_ok_def undone)
  show ?thesis
    using True ok1 ok2 undone m
    by (auto simp: commit_leg_def Let_def wm_step_def restore_watermark_def merge_watermark_def split: prod.splits bool.splits)
qed

section \<open>A whole round\<close>

lemma own_claim_le:
  "own_claim self p es \<le> n \<longleftrightarrow> vv_get (hp_set_vv p) self \<le> n \<and> (\<forall>e \<in> set es. vv_get (e_vv e) self \<le> n)"
proof -
  have "fold (\<lambda>e m. max m (vv_get (e_vv e) self)) es m \<le> n \<longleftrightarrow>
      m \<le> n \<and> (\<forall>e \<in> set es. vv_get (e_vv e) self \<le> n)" for m
    by (induction es arbitrary: m) auto
  then show ?thesis by (simp add: own_claim_def)
qed

lemma guard_idle: "own_claim self p es \<le> c_current (ss_clock st) \<Longrightarrow> guard_clock (own_claim self p es) st = st"
  by (simp add: guard_clock_def)

text \<open>What the honest part of a round asks of its pages: no claim about our clock it has not issued.\<close>

definition honest :: "string \<Rightarrow> head_position \<Rightarrow> entry list \<Rightarrow> set_state \<Rightarrow> bool" where
  "honest self p es st \<longleftrightarrow>
     bt_ok (hp_set_vv p) \<and> vv_get (hp_set_vv p) self \<le> c_current (ss_clock st) \<and>
     (\<forall>e \<in> set es. bt_ok (e_vv e) \<and> vv_get (e_vv e) self \<le> c_current (ss_clock st))"

lemma round_absorbed_parks:
  assumes run: "round_absorbed dp a from now p b st = (adv, st')"
    and self: "self = self_component (ss_clock st) a"
    and ok: "state_ok self st" "slots st PENDING_PER_PATH" and honest: "honest self p (page_entries b) st"
  shows "parks self (page_entries b) st st' \<and>
    (adv \<longrightarrow> hp_entries_complete p \<and> (\<forall>e \<in> set (page_entries b). takes st' e))"
proof -
  let ?es = "page_entries b"
  obtain echoed st1 where pages:
    "foldl (absorb_page dp a (terminal_seq_of (ss_membership st) a)) (False, st) (map snd (rb_records b)) = (echoed, st1)"
    by fastforce
  then have files: "same_files st st1" using absorb_pages_files by (metis snd_conv)
  note p1 = same_files_parks [OF files ok]
  have clock: "ss_clock st1 = ss_clock st" using files by (simp add: same_files_def same_rest_def)
  then have "own_claim (self_component (ss_clock st1) a) p ?es \<le> c_current (ss_clock st1)"
    using honest by (simp add: honest_def own_claim_le self)
  note idle = guard_idle [OF this]
  define active where "active \<longleftrightarrow> effective (ss_membership st1) from = EActive"
  obtain all st3 where es: "(if active then absorb_entries ?es st1 else (True, st1)) = (all, st3)" by fastforce
  have ok1: "state_ok self st1" "slots st1 PENDING_PER_PATH" using p1 by (auto simp: parks_def)
  have p3: "parks self ?es st1 st3 \<and> (active \<longrightarrow> all \<longrightarrow> (\<forall>e \<in> set ?es. takes st3 e))"
  proof (cases active)
    case True
    with es have "foldl (\<lambda>(all, st) e. case absorb_entry e st of (ok, st) \<Rightarrow> (all \<and> ok, st)) (True, st1) ?es = (all, st3)"
      by (simp add: absorb_entries_def)
    from absorb_entries_parks [OF this ok1] show ?thesis using honest by (simp add: honest_def clock)
  next
    case False
    with es ok1 show ?thesis by (auto intro: parks_refl)
  qed
  define st4 where "st4 = (if echoed then settle_stub from st3 else st3)"
  have "round_absorbed dp a from now p b st =
      (hp_entries_complete p \<and> active \<and> all, st4\<lparr>ss_last_round := bt_insert from now (ss_last_round st4)\<rparr>)"
    by (simp only: round_absorbed_def Let_def pages prod.case idle active_def [symmetric] es st4_def [symmetric])
  then have st': "st' = st4\<lparr>ss_last_round := bt_insert from now (ss_last_round st4)\<rparr>"
    and adv: "adv \<longleftrightarrow> hp_entries_complete p \<and> active \<and> all"
    using run by simp_all
  have "same_files st3 st4" by (simp add: st4_def settle_stub_files)
  then have "same_files st3 st'" unfolding st' by (rule same_files_trans [OF _ last_round_files])
  moreover have "state_ok self st3" "slots st3 PENDING_PER_PATH" using p3 by (auto simp: parks_def)
  ultimately have p4: "parks self [] st3 st'" by (rule same_files_parks)
  have "parks self ?es st st'"
    using parks_append [OF parks_append [OF p1 [of "[]"] conjunct1 [OF p3]] p4] by simp
  moreover have "keeps st3 st'" using p4 by (simp add: parks_def)
  ultimately show ?thesis using p3 adv takes_mono by blast
qed

lemma commit_held:
  assumes "st' = st\<lparr>ss_watermarks := m\<rparr>"
  shows "held_at st' = held_at st \<and> ss_clock st' = ss_clock st \<and> ss_index st' = ss_index st \<and>
    ss_pending st' = ss_pending st \<and> versions_at st' = versions_at st"
  using assms by (simp add: held_at_def versions_at_def fun_eq_iff)

lemma absorb_round_spec:
  assumes run: "absorb_round dp fx a from now p b st sv = (st', sv')"
    and self: "self = self_component (ss_clock st) a"
    and ok: "state_ok self st" "slots st PENDING_PER_PATH" "watermarks_ok st"
    and honest: "honest self p (page_entries b) st"
    and mid: "round_absorbed dp a from now p b st = (adv, mid)"
    and quiet: "ss_parked st = []" "\<And>q. dir_tomb_known q (drain_files fx self mid)"
  shows "state_ok self st' \<and> keeps st st' \<and> slots st' PENDING_PER_PATH \<and>
    c_current (ss_clock st) \<le> c_current (ss_clock st') \<and>
    c_generation (ss_clock st') = c_generation (ss_clock st) \<and>
    (\<forall>k n. k \<noteq> self \<longrightarrow> below st k n \<longrightarrow> (\<forall>e \<in> set (page_entries b). vv_get (e_vv e) k \<le> n) \<longrightarrow> below st' k n) \<and>
    wm_step from (hp_set_vv p) adv st st' \<and>
    (adv \<longrightarrow> hp_entries_complete p \<and> (\<forall>e \<in> set (page_entries b). takes st' e))"
proof -
  let ?es = "page_entries b"
  have P: "parks self ?es st mid" "adv \<longrightarrow> hp_entries_complete p \<and> (\<forall>e \<in> set ?es. takes mid e)"
    using round_absorbed_parks [OF mid self ok(1,2) honest] by blast+
  have frame: "ss_clock mid = ss_clock st" "ss_watermarks mid = ss_watermarks st" "ss_parked mid = []"
    "state_ok self mid" "keeps st mid" "slots mid PENDING_PER_PATH"
    using P(1) quiet(1) by (simp_all add: parks_def same_rest_def)
  define dr where "dr = drain_pending fx self mid"
  have D: "evolves self mid dr" unfolding dr_def by (rule drain_evolves [OF frame(4,3) quiet(2)])
  have wm: "watermarks_ok dr" "ss_watermarks dr = ss_watermarks st"
    using D ok(3) frame(2) by (simp_all add: evolves_def watermarks_ok_def)
  have fin: "commit_leg from (hp_set_vv p) adv dr sv = (st', sv')"
    using run mid frame(1) by (simp add: absorb_round_def dr_def self)
  have "bt_ok (hp_set_vv p)" using honest by (simp add: honest_def)
  note C = commit_leg_step [OF wm(1) this, of "from" adv sv, unfolded fin fst_conv]
  then obtain m where m: "st' = dr\<lparr>ss_watermarks := m\<rparr>" by blast
  note H = commit_held [OF m]
  have "state_ok self st'" "keeps st st'" "slots st' PENDING_PER_PATH"
    using D H frame(4-6) keeps_trans [of st mid dr]
    by (auto simp: evolves_def state_ok_def keeps_def slots_def)
  moreover have "c_current (ss_clock st) \<le> c_current (ss_clock st')"
    "c_generation (ss_clock st') = c_generation (ss_clock st)"
    using D H frame(1) by (simp_all add: evolves_def)
  moreover have "below st' k n" if "k \<noteq> self" "below st k n" "\<forall>e \<in> set ?es. vv_get (e_vv e) k \<le> n" for k n
  proof -
    have "below mid k n" using that P(1) unfolding parks_def by blast
    then have "below dr k n" using D that(1) unfolding evolves_def by blast
    then show ?thesis using H by (simp add: below_def)
  qed
  moreover have "wm_step from (hp_set_vv p) adv st st'"
    using C by (simp add: wm_step_def wm(2))
  moreover have "takes st' e" if "takes mid e" for e
  proof -
    have "takes dr e" using takes_mono D that by (auto simp: evolves_def)
    then show ?thesis using H by (simp add: takes_def)
  qed
  ultimately show ?thesis using P(2) by blast
qed

end
