(* ===== verification/Samples.thy ===== *)
theory Samples
  imports Retention Admission
begin

text \<open>
  Concrete states for the witnesses: a filesystem whose calls all succeed, a set just created, and a
  folder bound at \<open>/r\<close> with two active members.
\<close>

definition still_fs :: fs_env where
  "still_fs = \<lparr>fx_node = (\<lambda>_. AbsentNode), fx_lower = (\<lambda>s. s),
     fx_apply = (\<lambda>_. \<lparr>ax_hash = None, ax_occupant = None, ax_parent_ok = True, ax_dir_in_the_way = False,
       ax_remove_dir_ok = True, ax_rename = RenameOk, ax_copy_ok = True, ax_rename_again_ok = True,
       ax_parked_dir_ok = True, ax_park_ok = True, ax_error = [], ax_mtime_back = None, ax_size_back = None\<rparr>),
     fx_staged_exists = (\<lambda>_. True), fx_remove_file = (\<lambda>_. RemoveOk), fx_remove_dir = (\<lambda>_. RemoveOk),
     fx_blocking_file = (\<lambda>_. False), fx_create_dir = (\<lambda>_. True)\<rparr>"

definition sample_state :: set_state where
  "sample_state =
     (case fresh (membership_new \<lparr>sd_set_id = replicate 22 CHR ''A'', sd_kind = SDir, sd_name = ''s'',
              sd_created_by = replicate 64 CHR ''a'', sd_created_at = 0, sd_sig = replicate 128 CHR ''0''\<rparr>)
            None (replicate 64 CHR ''a'') 7 \<lparr>d_lease = Absent, d_faults = []\<rparr> of
        (Inr st, d) \<Rightarrow> st | (Inl e, d) \<Rightarrow> undefined)"

lemma sample_state_simps [simp]:
  "ss_index sample_state = []" "ss_pending sample_state = []" "ss_watermarks sample_state = []"
  "ss_parked sample_state = []" "ss_clock sample_state = opened_clock" "ss_lease sample_state = leased_disk []"
  by (simp_all add: sample_state_def fresh_def clock_open_def reserve_def write_lease_def Let_def
      opened_clock_def leased_disk_def CLOCK_CEILING_def RESERVE_BLOCK_def)

text \<open>
  A bound folder of two active members; \<open>file_at\<close> is a file's entry at a path with a vector.
\<close>

definition file_at :: "string \<Rightarrow> vv \<Rightarrow> entry" where
  "file_at p v = sample_entry\<lparr>e_path := p, e_vv := v, e_deleted := False\<rparr>"

definition two_members :: membership where
  "two_members = (membership_new sample_set)\<lparr>sm_devices :=
     [(node_a, device_default\<lparr>ds_live := Some sample_member, ds_max_seq := 3\<rparr>),
      (node_b, device_default\<lparr>ds_live := Some (sample_member\<lparr>mr_node_id := node_b\<rparr>), ds_max_seq := 3,
         ds_invited := Some \<lparr>ir_set_id = sd_set_id sample_set, ir_node_id = node_b, ir_invited_by = node_a,
           ir_supersedes_seq = 0, ir_at = 1, ir_sig = []\<rparr>\<rparr>)]\<rparr>"

definition bound_state :: set_state where
  "bound_state = sample_state\<lparr>ss_membership := two_members, ss_root := Some ''/r''\<rparr>"

lemma file_at_simps [simp]:
  "e_path (file_at p v) = p" "e_vv (file_at p v) = v" "\<not> e_deleted (file_at p v)" "e_kind (file_at p v) = EFile"
  by (simp_all add: file_at_def sample_entry_def)

lemma bound_state_simps [simp]:
  "ss_index bound_state = []" "ss_pending bound_state = []" "ss_root bound_state = Some ''/r''"
  "ss_clock bound_state = opened_clock" "ss_membership bound_state = two_members"
  by (simp_all add: bound_state_def)

lemma two_members_active: "effective two_members node_a = EActive" "effective two_members node_b = EActive"
  by (simp_all add: two_members_def membership_new_def effective_def device_effective_def live_current_def
      door_open_def reopened_def door_seq_def slot_seq_def device_default_def)

end
