(* ===== verification/Network.thy ===== *)
theory Network
  imports RoundFacts Samples
begin

text \<open>
  The exchange among the members of a set, as a step relation: walks folded in, staged files landing,
  heads, answering legs and rounds absorbed, in any order and with any message lost, delayed or
  repeated. Heads and legs stay in flight once sent.

  \<open>nw_events\<close> and \<open>lg_basis\<close> are ghost state: the clock values nodes have put on the paths of their
  index, and the vector of the head a leg answers. The rules for walks and rounds ask that the drain
  starts with no parked rename and meets no directory tombstone at a path that is not live; the two
  losses those conditions exclude are theorems of \<open>Losses\<close>.
\<close>

record leg =
  lg_from :: string
  lg_to :: string
  lg_position :: head_position
  lg_entries :: "entry list"
  lg_basis :: vv

record network =
  nw_state :: "string \<Rightarrow> set_state"
  nw_store :: "string \<Rightarrow> set_store"
  nw_heads :: "(string \<times> vv) set"
  nw_legs :: "leg set"
  nw_events :: "(string \<times> string \<times> nat) set"

definition key :: "network \<Rightarrow> string \<Rightarrow> string" where
  "key N a = self_component (ss_clock (nw_state N a)) a"

definition adv :: "network \<Rightarrow> string \<Rightarrow> vv" where
  "adv N a = advertised (key N a) (nw_state N a)"

definition clk :: "network \<Rightarrow> string \<Rightarrow> nat" where
  "clk N a = c_current (ss_clock (nw_state N a))"

definition new_events :: "string \<Rightarrow> set_state \<Rightarrow> set_state \<Rightarrow> (string \<times> string \<times> nat) set" where
  "new_events self st st' =
     {(p, k, n). k = self \<and> c_current (ss_clock st) < n \<and>
        (\<exists>e. index_get (ss_index st') p = Some e \<and> vv_get (e_vv e) self = n)}"

definition moved :: "string \<Rightarrow> set_state \<Rightarrow> set_store \<Rightarrow> network \<Rightarrow> network" where
  "moved a st sv N =
     N\<lparr>nw_state := (nw_state N)(a := st), nw_store := (nw_store N)(a := sv),
       nw_events := nw_events N \<union> new_events (key N a) (nw_state N a) st\<rparr>"

definition quiet_drain :: "fs_env \<Rightarrow> string \<Rightarrow> set_state \<Rightarrow> bool" where
  "quiet_drain fx self st \<longleftrightarrow> ss_parked st = [] \<and> (\<forall>p. dir_tomb_known p (drain_files fx self st))"

definition network_init :: "string set \<Rightarrow> network \<Rightarrow> bool" where
  "network_init nodes N \<longleftrightarrow>
     (\<forall>a \<in> nodes. valid_node_id a \<and> ss_index (nw_state N a) = [] \<and> ss_pending (nw_state N a) = [] \<and>
        ss_watermarks (nw_state N a) = []) \<and>
     nw_heads N = {} \<and> nw_legs N = {} \<and> nw_events N = {}"

inductive network_step ::
  "string set \<Rightarrow> deps \<Rightarrow> (set_descriptor \<Rightarrow> string) \<Rightarrow> (json \<Rightarrow> nat) \<Rightarrow> network \<Rightarrow> network \<Rightarrow> bool"
  for nodes dp dh sz
where
  walk: "a \<in> nodes \<Longrightarrow> fold_scan fx a obs (nw_state N a) (nw_store N a) = (r, st, sv) \<Longrightarrow>
    quiet_drain fx (key N a) (snd (scan_folded (key N a) obs (rearm (nw_state N a)))) \<Longrightarrow>
    network_step nodes dp dh sz N (moved a st sv N)"
| land: "a \<in> nodes \<Longrightarrow> apply_staged_file fx p (key N a) (nw_state N a) = (landed, st) \<Longrightarrow>
    network_step nodes dp dh sz N (moved a st (nw_store N a) N)"
| gesture: "a \<in> nodes \<Longrightarrow> same_files (nw_state N a) (st\<lparr>ss_root := ss_root (nw_state N a)\<rparr>) \<Longrightarrow>
    network_step nodes dp dh sz N (moved a st sv N)"
| ask: "a \<in> nodes \<Longrightarrow> network_step nodes dp dh sz N (N\<lparr>nw_heads := insert (a, adv N a) (nw_heads N)\<rparr>)"
| answer: "(a, v) \<in> nw_heads N \<Longrightarrow> b \<in> nodes \<Longrightarrow>
    entry_pages sz b a with_delta v (nw_state N b) = (pages, complete) \<Longrightarrow>
    paginate sz (map entry_to_value (leg_delta v (nw_state N b))) \<noteq> None \<Longrightarrow>
    position = answer_position dh b records_pages (length pages) complete (nw_state N b) \<Longrightarrow>
    es = (if complete then leg_delta v (nw_state N b) else []) \<Longrightarrow>
    network_step nodes dp dh sz N
      (N\<lparr>nw_legs := insert \<lparr>lg_from = b, lg_to = a, lg_position = position, lg_entries = es, lg_basis = v\<rparr>
          (nw_legs N)\<rparr>)"
| absorb: "l \<in> nw_legs N \<Longrightarrow> page_entries b = lg_entries l \<Longrightarrow>
    absorb_round dp fx (lg_to l) (lg_from l) now (lg_position l) b (nw_state N (lg_to l)) (nw_store N (lg_to l)) = (st, sv) \<Longrightarrow>
    quiet_drain fx (key N (lg_to l))
      (snd (round_absorbed dp (lg_to l) (lg_from l) now (lg_position l) b (nw_state N (lg_to l)))) \<Longrightarrow>
    network_step nodes dp dh sz N (moved (lg_to l) st sv N)"

inductive network_reachable ::
  "string set \<Rightarrow> deps \<Rightarrow> (set_descriptor \<Rightarrow> string) \<Rightarrow> (json \<Rightarrow> nat) \<Rightarrow> network \<Rightarrow> bool"
  for nodes dp dh sz
where
  start: "network_init nodes N \<Longrightarrow> network_reachable nodes dp dh sz N"
| step: "network_reachable nodes dp dh sz N \<Longrightarrow> network_step nodes dp dh sz N N' \<Longrightarrow>
    network_reachable nodes dp dh sz N'"

section \<open>The invariant\<close>

definition knows :: "set_state \<Rightarrow> string \<Rightarrow> string \<Rightarrow> nat \<Rightarrow> bool" where
  "knows st p k n \<longleftrightarrow> (\<exists>e \<in> set (held_at st p). n \<le> vv_get (e_vv e) k)"

lemma knows_mono: "keeps st st' \<Longrightarrow> knows st p k n \<Longrightarrow> knows st' p k n"
  unfolding keeps_def knows_def vv_le_def using order_trans by meson

text \<open>No clock value of node \<open>c\<close> above its clock is anywhere.\<close>

definition own_only :: "string set \<Rightarrow> network \<Rightarrow> string \<Rightarrow> bool" where
  "own_only nodes N c \<longleftrightarrow>
     (\<forall>a \<in> nodes. below (nw_state N a) (key N c) (clk N c) \<and> vv_get (adv N a) (key N c) \<le> clk N c) \<and>
     (\<forall>h \<in> nw_heads N. vv_get (snd h) (key N c) \<le> clk N c) \<and>
     (\<forall>l \<in> nw_legs N. vv_get (hp_set_vv (lg_position l)) (key N c) \<le> clk N c \<and>
        (\<forall>e \<in> set (lg_entries l). vv_get (e_vv e) (key N c) \<le> clk N c))"

definition node_ok :: "network \<Rightarrow> string \<Rightarrow> bool" where
  "node_ok N a \<longleftrightarrow>
     state_ok (key N a) (nw_state N a) \<and> slots (nw_state N a) PENDING_PER_PATH \<and> watermarks_ok (nw_state N a)"

definition head_ok :: "string set \<Rightarrow> network \<Rightarrow> string \<times> vv \<Rightarrow> bool" where
  "head_ok nodes N h \<longleftrightarrow> fst h \<in> nodes \<and> bt_ok (snd h) \<and> vv_le (snd h) (adv N (fst h))"

definition leg_ok :: "string set \<Rightarrow> network \<Rightarrow> leg \<Rightarrow> bool" where
  "leg_ok nodes N l \<longleftrightarrow>
     lg_to l \<in> nodes \<and> bt_ok (hp_set_vv (lg_position l)) \<and> (\<forall>e \<in> set (lg_entries l). bt_ok (e_vv e)) \<and>
     (hp_entries_complete (lg_position l) \<longrightarrow>
        (\<forall>(p, k, n) \<in> nw_events N. n \<le> vv_get (hp_set_vv (lg_position l)) k \<longrightarrow>
           (\<exists>e \<in> set (lg_entries l). e_path e = p \<and> n \<le> vv_get (e_vv e) k) \<or> n \<le> vv_get (adv N (lg_to l)) k))"

definition covered_held :: "network \<Rightarrow> string \<Rightarrow> bool" where
  "covered_held N a \<longleftrightarrow>
     (\<forall>(p, k, n) \<in> nw_events N. n \<le> vv_get (adv N a) k \<longrightarrow> knows (nw_state N a) p k n)"

definition issued_by :: "string set \<Rightarrow> network \<Rightarrow> string \<times> string \<times> nat \<Rightarrow> bool" where
  "issued_by nodes N ev \<longleftrightarrow>
     (\<exists>c \<in> nodes. fst (snd ev) = key N c \<and> 0 < snd (snd ev) \<and> snd (snd ev) \<le> clk N c)"

definition net_ok :: "string set \<Rightarrow> network \<Rightarrow> bool" where
  "net_ok nodes N \<longleftrightarrow>
     (\<forall>a \<in> nodes. valid_node_id a \<and> node_ok N a \<and> own_only nodes N a \<and> covered_held N a) \<and>
     (\<forall>ev \<in> nw_events N. issued_by nodes N ev) \<and>
     (\<forall>h \<in> nw_heads N. head_ok nodes N h) \<and> (\<forall>l \<in> nw_legs N. leg_ok nodes N l)"

lemma key_inj:
  assumes "net_ok nodes N" and "a \<in> nodes" and "b \<in> nodes" and "key N a = key N b"
  shows "a = b"
proof -
  have "valid_node_id a" "valid_node_id b" using assms(1-3) by (simp_all add: net_ok_def)
  from component_inj [OF this] assms(4) show ?thesis by (simp add: key_def self_component_def)
qed

lemma below_mono: "below st k m \<Longrightarrow> m \<le> n \<Longrightarrow> below st k n"
  unfolding below_def using order_trans by blast

text \<open>What a node's step owes the network.\<close>

definition good_move :: "string set \<Rightarrow> network \<Rightarrow> string \<Rightarrow> set_state \<Rightarrow> bool" where
  "good_move nodes N a st \<longleftrightarrow>
     state_ok (key N a) st \<and> slots st PENDING_PER_PATH \<and> watermarks_ok st \<and> keeps (nw_state N a) st \<and>
     clk N a \<le> c_current (ss_clock st) \<and> c_generation (ss_clock st) = c_generation (ss_clock (nw_state N a)) \<and>
     vv_le (adv N a) (advertised (key N a) st) \<and>
     vv_get (advertised (key N a) st) (key N a) \<le> c_current (ss_clock st) \<and>
     (\<forall>c \<in> nodes. c \<noteq> a \<longrightarrow> below st (key N c) (clk N c) \<and> vv_get (advertised (key N a) st) (key N c) \<le> clk N c) \<and>
     (\<forall>(p, k, n) \<in> nw_events N. n \<le> vv_get (advertised (key N a) st) k \<longrightarrow> knows st p k n)"

lemma moved_simps:
  assumes "c_generation (ss_clock st) = c_generation (ss_clock (nw_state N a))"
  shows "key (moved a st sv N) = key N" "clk (moved a st sv N) = (clk N)(a := c_current (ss_clock st))"
    "adv (moved a st sv N) = (adv N)(a := advertised (key N a) st)"
    "nw_state (moved a st sv N) = (nw_state N)(a := st)" "nw_heads (moved a st sv N) = nw_heads N"
    "nw_legs (moved a st sv N) = nw_legs N"
    "nw_events (moved a st sv N) = nw_events N \<union> new_events (key N a) (nw_state N a) st"
  using assms by (auto simp: moved_def key_def clk_def adv_def self_component_def fun_eq_iff)

lemma move_ok:
  assumes inv: "net_ok nodes N" and a: "a \<in> nodes" and good: "good_move nodes N a st"
  shows "net_ok nodes (moved a st sv N)"
proof -
  let ?N = "moved a st sv N"
  have gen: "c_generation (ss_clock st) = c_generation (ss_clock (nw_state N a))"
    using good by (simp add: good_move_def)
  note M = moved_simps [OF gen, of sv]
  have mono: "clk N c \<le> clk ?N c" "vv_le (adv N c) (adv ?N c)" for c
    using good by (simp_all add: M good_move_def)
  have own: "own_only nodes N c" if "c \<in> nodes" for c using inv that by (simp add: net_ok_def)
  have fresh: "k = key N a \<and> clk N a < n \<and> n \<le> c_current (ss_clock st) \<and> knows st p k n"
    if "(p, k, n) \<in> new_events (key N a) (nw_state N a) st" for p k n
  proof -
    from that obtain e where e: "index_get (ss_index st) p = Some e" "vv_get (e_vv e) (key N a) = n"
      "k = key N a" "clk N a < n" by (auto simp: new_events_def clk_def)
    with index_ours [of "key N a" st p e] good have "n \<le> c_current (ss_clock st)" by (simp add: good_move_def)
    moreover have "knows st p k n" using held_at_index [OF e(1)] e by (auto simp: knows_def)
    ultimately show ?thesis using e by simp
  qed
  have "node_ok ?N b" if "b \<in> nodes" for b
    using inv that good by (auto simp: net_ok_def node_ok_def M good_move_def)
  moreover have "own_only nodes ?N c" if c: "c \<in> nodes" for c
  proof -
    have "below (nw_state ?N b) (key N c) (clk ?N c) \<and> vv_get (adv ?N b) (key N c) \<le> clk ?N c" if b: "b \<in> nodes" for b
    proof (cases "b = a")
      case False
      then have "below (nw_state N b) (key N c) (clk N c)" "vv_get (adv N b) (key N c) \<le> clk N c"
        using own [OF c] b by (simp_all add: own_only_def)
      with False mono(1) [of c] below_mono [of "nw_state N b" "key N c" "clk N c" "clk ?N c"] show ?thesis
        by (simp add: M)
    next
      case True
      show ?thesis
      proof (cases "c = a")
        case True
        with \<open>b = a\<close> good show ?thesis by (auto simp: M good_move_def state_ok_def below_def)
      next
        case False
        with \<open>b = a\<close> c good show ?thesis by (auto simp: M good_move_def)
      qed
    qed
    then show ?thesis
      using own [OF c] mono(1) [of c] unfolding own_only_def by (simp add: M(1,5,6)) (meson le_trans)
  qed
  moreover have "covered_held ?N b" if b: "b \<in> nodes" for b
  proof -
    have "knows (nw_state ?N b) p k n" if ev: "(p, k, n) \<in> nw_events ?N" and le: "n \<le> vv_get (adv ?N b) k" for p k n
    proof (cases "b = a")
      case True
      with ev le good fresh [of p k n] show ?thesis by (auto simp: M good_move_def)
    next
      case False
      have "vv_get (adv N b) (key N a) \<le> clk N a" using own [OF a] b by (simp add: own_only_def)
      with ev le False fresh [of p k n] have "(p, k, n) \<in> nw_events N" by (auto simp: M)
      with inv b le False show ?thesis by (auto simp: net_ok_def covered_held_def M)
    qed
    then show ?thesis by (auto simp: covered_held_def)
  qed
  moreover have "issued_by nodes ?N ev" if "ev \<in> nw_events ?N" for ev
  proof (cases "ev \<in> nw_events N")
    case True
    then obtain c where "c \<in> nodes" "fst (snd ev) = key N c" "0 < snd (snd ev)" "snd (snd ev) \<le> clk N c"
      using inv by (auto simp: net_ok_def issued_by_def)
    with mono(1) [of c] show ?thesis unfolding issued_by_def M(1) using order_trans by blast
  next
    case False
    with that have "ev \<in> new_events (key N a) (nw_state N a) st" by (simp add: M)
    with fresh [of "fst ev" "fst (snd ev)" "snd (snd ev)"] a show ?thesis
      by (auto simp: issued_by_def M intro!: bexI [of _ a])
  qed
  moreover have "head_ok nodes ?N h" if "h \<in> nw_heads ?N" for h
    using inv that mono(2) vv_le_trans by (auto simp: net_ok_def head_ok_def M(5))
  moreover have "leg_ok nodes ?N l" if "l \<in> nw_legs ?N" for l
  proof -
    have l: "leg_ok nodes N l" "vv_get (hp_set_vv (lg_position l)) (key N a) \<le> clk N a"
      using inv that own [OF a] by (simp_all add: net_ok_def M(6) own_only_def)
    have "(\<exists>e \<in> set (lg_entries l). e_path e = p \<and> n \<le> vv_get (e_vv e) k) \<or> n \<le> vv_get (adv ?N (lg_to l)) k"
      if "hp_entries_complete (lg_position l)" "(p, k, n) \<in> nw_events ?N" "n \<le> vv_get (hp_set_vv (lg_position l)) k" for p k n
    proof -
      have "(p, k, n) \<in> nw_events N" using that(2,3) l(2) fresh [of p k n] by (auto simp: M)
      with l(1) that(1,3) have "(\<exists>e \<in> set (lg_entries l). e_path e = p \<and> n \<le> vv_get (e_vv e) k) \<or>
          n \<le> vv_get (adv N (lg_to l)) k" by (auto simp: leg_ok_def)
      then show ?thesis using mono(2) [of "lg_to l"] le_trans unfolding vv_le_def by blast
    qed
    then show ?thesis using l(1) by (auto simp: leg_ok_def)
  qed
  ultimately show ?thesis using inv by (simp add: net_ok_def)
qed

section \<open>The steps\<close>

lemma net_node:
  assumes "net_ok nodes N" and "a \<in> nodes"
  shows "state_ok (key N a) (nw_state N a)" "slots (nw_state N a) PENDING_PER_PATH" "watermarks_ok (nw_state N a)"
    "own_only nodes N a" "covered_held N a"
  using assms by (simp_all add: net_ok_def node_ok_def)

lemma old_event:
  assumes inv: "net_ok nodes N" and a: "a \<in> nodes" and ev: "(p, key N a, n) \<in> nw_events N"
  shows "n \<le> clk N a"
proof -
  obtain c where "c \<in> nodes" "key N a = key N c" "n \<le> clk N c"
    using inv ev by (fastforce simp: net_ok_def issued_by_def)
  with key_inj [OF inv a] show ?thesis by metis
qed

text \<open>A step that leaves the watermarks alone.\<close>

lemma evolve_good:
  assumes inv: "net_ok nodes N" and a: "a \<in> nodes" and ev: "evolves (key N a) (nw_state N a) st"
  shows "good_move nodes N a st"
proof -
  note node = net_node [OF inv a]
  have E: "state_ok (key N a) st" "keeps (nw_state N a) st" "clk N a \<le> c_current (ss_clock st)"
    "c_generation (ss_clock st) = c_generation (ss_clock (nw_state N a))"
    "slots st PENDING_PER_PATH" "ss_watermarks st = ss_watermarks (nw_state N a)"
    using ev node(2) by (simp_all add: evolves_def clk_def)
  then have wm: "watermarks_ok st" using node(3) by (simp add: watermarks_ok_def)
  note iff = advertised_iff [OF wm] and iff0 = advertised_iff [OF node(3)]
  have grow: "n \<le> vv_get (advertised (key N a) st) k \<longleftrightarrow>
      k = key N a \<and> n \<le> c_current (ss_clock st) \<or> n \<le> vv_get (adv N a) k" for n k
    using E(3) by (auto simp: iff iff0 adv_def E(6) clk_def)
  have own: "vv_get (adv N a) (key N c) \<le> clk N c \<and> below (nw_state N a) (key N c) (clk N c)" if "c \<in> nodes" for c
    using net_node(4) [OF inv that] a by (simp add: own_only_def)
  have "vv_le (adv N a) (advertised (key N a) st)" using grow by (simp add: vv_le_def)
  moreover have "vv_get (advertised (key N a) st) (key N a) \<le> c_current (ss_clock st)"
    using grow [of "vv_get (advertised (key N a) st) (key N a)" "key N a"] own [OF a] E(3) by auto
  moreover have "below st (key N c) (clk N c) \<and> vv_get (advertised (key N a) st) (key N c) \<le> clk N c"
    if c: "c \<in> nodes" "c \<noteq> a" for c
  proof -
    have "key N c \<noteq> key N a" using key_inj [OF inv c(1) a] c(2) by blast
    then show ?thesis
      using grow [of "vv_get (advertised (key N a) st) (key N c)" "key N c"] own [OF c(1)] ev
      by (auto simp: evolves_def)
  qed
  moreover have "knows st p k n" if "(p, k, n) \<in> nw_events N" "n \<le> vv_get (advertised (key N a) st) k" for p k n
  proof -
    have "n \<le> vv_get (adv N a) k"
      using that(2) grow old_event [OF inv a, of p n] that(1) iff0 by (auto simp: adv_def clk_def)
    then have "knows (nw_state N a) p k n" using node(5) that(1) by (auto simp: covered_held_def)
    with E(2) show ?thesis by (rule knows_mono)
  qed
  ultimately show ?thesis using E wm by (auto simp: good_move_def)
qed

lemma rearm_files: "ss_parked st = [] \<Longrightarrow> rearm st = st"
  by (simp add: rearm_def)

lemma ignored_evolves: "evolves self st (st\<lparr>ss_ignored := xs\<rparr>) \<longleftrightarrow> state_ok self st"
proof -
  have "held_at (st\<lparr>ss_ignored := xs\<rparr>) = held_at st" by (simp add: held_at_def versions_at_def fun_eq_iff)
  then show ?thesis
    using still_held by (auto simp: evolves_def state_ok_def keeps_def below_def slots_def versions_at_def)
qed

lemma rearm_evolves: "state_ok self st \<Longrightarrow> evolves self st (rearm st)"
proof -
  assume ok: "state_ok self st"
  have "held_at (rearm st) = held_at st" by (simp add: rearm_def held_at_def versions_at_def fun_eq_iff)
  with ok show ?thesis
    using still_held by (auto simp: evolves_def state_ok_def keeps_def below_def slots_def versions_at_def rearm_def)
qed

lemma scan_folded_evolves:
  "state_ok self st \<Longrightarrow> evolves self st (snd (scan_folded self obs st))"
  using fold_observation_evolves [of self obs st]
  by (auto simp: scan_folded_def split: prod.splits)

lemma fold_scan_evolves:
  assumes "fold_scan fx a obs st sv = (r, st', sv')" and self: "self = self_component (ss_clock st) a"
    and ok: "state_ok self st" and quiet: "quiet_drain fx self (snd (scan_folded self obs (rearm st)))"
  shows "evolves self st st'"
proof -
  obtain r1 st1 where f: "scan_folded self obs (rearm st) = (r1, st1)" by fastforce
  have e1: "evolves self st st1"
    using evolves_trans [OF rearm_evolves [OF ok] scan_folded_evolves [OF evolves_ok [OF rearm_evolves [OF ok]], of obs]]
    by (simp add: f)
  have e2: "evolves self st1 (drain_pending fx self st1)"
    by (rule drain_evolves [OF evolves_ok [OF e1]]) (use quiet f in \<open>auto simp: quiet_drain_def\<close>)
  note e = evolves_trans [OF e1 e2]
  have "st' = st1 \<or> (\<exists>xs. st' = (drain_pending fx self st1)\<lparr>ss_ignored := xs\<rparr>)"
    using assms(1) f by (auto simp: fold_scan_def self Let_def split: sum.splits prod.splits bool.splits)
  then show ?thesis
    using e1 evolves_trans [OF e] ignored_evolves evolves_ok [OF e] by auto
qed

lemma land_evolves:
  "apply_staged_file fx p self st = (landed, st') \<Longrightarrow> state_ok self st \<Longrightarrow> evolves self st st'"
  using apply_staged_evolves [of self st fx p] by (auto simp: apply_staged_file_def split: prod.splits)

lemma gesture_evolves:
  assumes same: "same_files st (st'\<lparr>ss_root := r\<rparr>)" and ok: "state_ok self st"
  shows "evolves self st st'"
proof -
  have "evolves self st (st'\<lparr>ss_root := r\<rparr>)"
    using same ok still_held unfolding evolves_def
    by (auto simp: same_files_held state_ok_def keeps_def below_def slots_def)
      (auto simp: same_files_def same_rest_def versions_at_def)
  then show ?thesis
    by (simp add: evolves_def state_ok_def keeps_def below_def slots_def held_at_def versions_at_def)
qed

lemma absorb_good:
  assumes inv: "net_ok nodes N" and l: "l \<in> nw_legs N" and es: "page_entries b = lg_entries l"
    and run: "absorb_round dp fx (lg_to l) (lg_from l) now (lg_position l) b (nw_state N (lg_to l)) sv = (st, sv')"
    and quiet: "quiet_drain fx (key N (lg_to l))
      (snd (round_absorbed dp (lg_to l) (lg_from l) now (lg_position l) b (nw_state N (lg_to l))))"
  shows "good_move nodes N (lg_to l) st"
proof -
  let ?a = "lg_to l" and ?p = "lg_position l"
  let ?st = "nw_state N ?a" and ?self = "key N ?a" and ?vv = "hp_set_vv ?p"
  have leg: "leg_ok nodes N l" using inv l by (simp add: net_ok_def)
  then have a: "?a \<in> nodes" by (simp add: leg_ok_def)
  note node = net_node [OF inv a]
  have claims: "vv_get ?vv (key N c) \<le> clk N c \<and> (\<forall>e \<in> set (lg_entries l). vv_get (e_vv e) (key N c) \<le> clk N c)"
    if "c \<in> nodes" for c
    using net_node(4) [OF inv that] l by (simp add: own_only_def)
  have honest: "honest ?self ?p (page_entries b) ?st"
    using leg claims [OF a] by (auto simp: honest_def leg_ok_def es clk_def)
  obtain ad mid where mid: "round_absorbed dp ?a (lg_from l) now ?p b ?st = (ad, mid)" by fastforce
  have "ss_parked ?st = []" "\<And>q. dir_tomb_known q (drain_files fx ?self mid)"
    using quiet mid round_absorbed_parks [OF mid _ node(1,2) honest]
    by (auto simp: quiet_drain_def parks_def same_rest_def key_def)
  note S = absorb_round_spec [OF run key_def node(1-3) honest mid this]
  then have S1: "state_ok ?self st" "keeps ?st st" "slots st PENDING_PER_PATH" "clk N ?a \<le> c_current (ss_clock st)"
    "c_generation (ss_clock st) = c_generation (ss_clock ?st)" "wm_step (lg_from l) ?vv ad ?st st"
    by (auto simp: clk_def)
  have S2: "below st k n" if "k \<noteq> ?self" "below ?st k n" "\<forall>e \<in> set (lg_entries l). vv_get (e_vv e) k \<le> n" for k n
    using S that by (simp add: es)
  have S3: "hp_entries_complete ?p \<and> (\<forall>e \<in> set (lg_entries l). takes st e)" if ad
    using S that by (simp add: es)
  have wm: "watermarks_ok st" using S1(6) by (simp add: wm_step_def)
  note iff = advertised_iff [OF wm] and iff0 = advertised_iff [OF node(3)]
  have vv: "bt_ok ?vv" using leg by (simp add: leg_ok_def)
  have step: "map_of (ss_watermarks st) = map_of (ss_watermarks ?st) \<or>
      ad \<and> map_of (ss_watermarks st) = (map_of (ss_watermarks ?st))(lg_from l \<mapsto>
        merge_max (case map_of (ss_watermarks ?st) (lg_from l) of None \<Rightarrow> [] | Some w \<Rightarrow> w) ?vv)"
    using S1(6) by (simp add: wm_step_def)
  have upper: "(\<exists>f w. map_of (ss_watermarks ?st) f = Some w \<and> n \<le> vv_get w k) \<or> n = 0 \<or> ad \<and> n \<le> vv_get ?vv k"
    if "map_of (ss_watermarks st) f = Some w" "n \<le> vv_get w k" for f w n k
    using step that by (auto simp: vv_get_merge_max [OF vv] split: if_splits option.splits) (force+)?
  have lower: "\<exists>f w. map_of (ss_watermarks st) f = Some w \<and> n \<le> vv_get w k"
    if "map_of (ss_watermarks ?st) f = Some w" "n \<le> vv_get w k" for f w n k
  proof (cases "f = lg_from l")
    case True
    show ?thesis
    proof (cases "map_of (ss_watermarks st) = map_of (ss_watermarks ?st)")
      case True
      with that show ?thesis by auto
    next
      case False
      with step that(1) \<open>f = lg_from l\<close>
      have "map_of (ss_watermarks st) (lg_from l) = Some (merge_max w ?vv)" by auto
      moreover have "n \<le> vv_get (merge_max w ?vv) k" using that(2) by (simp add: vv_get_merge_max [OF vv])
      ultimately show ?thesis by blast
    qed
  next
    case False
    with step that show ?thesis by (metis fun_upd_other)
  qed
  have grow: "n \<le> vv_get (adv N ?a) k \<or> k = ?self \<and> n \<le> c_current (ss_clock st) \<or> ad \<and> n \<le> vv_get ?vv k"
    if "n \<le> vv_get (advertised ?self st) k" for n k
    using that upper unfolding iff iff0 adv_def by blast
  have "vv_le (adv N ?a) (advertised ?self st)"
  proof -
    have "n \<le> vv_get (advertised ?self st) k" if "n \<le> vv_get (adv N ?a) k" for n k
      using that lower S1(4) unfolding iff iff0 adv_def clk_def by (meson le_trans)
    then show ?thesis by (simp add: vv_le_def)
  qed
  moreover have own: "vv_get (adv N ?a) (key N c) \<le> clk N c \<and> below ?st (key N c) (clk N c)" if "c \<in> nodes" for c
    using net_node(4) [OF inv that] a by (simp add: own_only_def)
  have "vv_get (advertised ?self st) ?self \<le> c_current (ss_clock st)"
    using grow [of "vv_get (advertised ?self st) ?self" ?self] own [OF a] claims [OF a] S1(4) by auto
  moreover have "below st (key N c) (clk N c) \<and> vv_get (advertised ?self st) (key N c) \<le> clk N c"
    if c: "c \<in> nodes" "c \<noteq> ?a" for c
  proof -
    have ne: "key N c \<noteq> ?self" using key_inj [OF inv c(1) a] c(2) by blast
    then have "vv_get (advertised ?self st) (key N c) \<le> clk N c"
      using grow [of "vv_get (advertised ?self st) (key N c)" "key N c"] own [OF c(1)] claims [OF c(1)] by auto
    with S2 [OF ne] own [OF c(1)] claims [OF c(1)] show ?thesis by blast
  qed
  moreover have "knows st p k n" if ev: "(p, k, n) \<in> nw_events N" and le: "n \<le> vv_get (advertised ?self st) k" for p k n
  proof -
    have old: "knows st p k n" if "n \<le> vv_get (adv N ?a) k"
      using node(5) ev that knows_mono [OF S1(2)] by (auto simp: covered_held_def)
    from grow [OF le] consider "n \<le> vv_get (adv N ?a) k" | "k = ?self" | "ad" "n \<le> vv_get ?vv k" by blast
    then show ?thesis
    proof cases
      case 1
      then show ?thesis by (rule old)
    next
      case 2
      with old_event [OF inv a] ev have "n \<le> vv_get (adv N ?a) k" unfolding adv_def iff0 by (auto simp: clk_def)
      then show ?thesis by (rule old)
    next
      case 3
      with leg ev S3 have "(\<exists>e \<in> set (lg_entries l). e_path e = p \<and> n \<le> vv_get (e_vv e) k) \<or> n \<le> vv_get (adv N ?a) k"
        by (fastforce simp: leg_ok_def)
      moreover have "knows st p k n" if "e \<in> set (lg_entries l)" "e_path e = p" "n \<le> vv_get (e_vv e) k" for e
        using S3 [OF 3(1)] that le_trans unfolding takes_def knows_def vv_le_def by blast
      ultimately show ?thesis using old by blast
    qed
  qed
  ultimately show ?thesis using S1 wm by (auto simp: good_move_def)
qed

lemma ask_ok:
  assumes inv: "net_ok nodes N" and a: "a \<in> nodes"
  shows "net_ok nodes (N\<lparr>nw_heads := insert (a, adv N a) (nw_heads N)\<rparr>)"
proof -
  let ?N = "N\<lparr>nw_heads := insert (a, adv N a) (nw_heads N)\<rparr>"
  have same: "key ?N = key N" "clk ?N = clk N" "adv ?N = adv N"
    by (simp_all add: key_def clk_def adv_def fun_eq_iff)
  have "vv_get (adv N a) (key N c) \<le> clk N c" if "c \<in> nodes" for c
    using net_node(4) [OF inv that] a by (simp add: own_only_def)
  moreover have "bt_ok (adv N a)" unfolding adv_def by (rule advertised_ok [OF net_node(3) [OF inv a]])
  ultimately show ?thesis
    using inv a unfolding net_ok_def node_ok_def own_only_def head_ok_def leg_ok_def covered_held_def issued_by_def same
    by simp
qed

lemma leg_delta_iff:
  assumes "state_ok self st"
  shows "e \<in> set (leg_delta v st) \<longleftrightarrow> (\<exists>p. e \<in> set (held_at st p)) \<and> \<not> covers v (e_vv e)"
proof -
  have i: "index_ok (ss_index st)" and p: "bt_ok (ss_pending st)"
    using assms by (simp_all add: state_ok_def pending_ok_def)
  have "e \<in> set (concat (map snd (ss_pending st))) \<longleftrightarrow> (\<exists>q. e \<in> set (versions_at st q))"
  proof -
    have "e \<in> set (concat (map snd (ss_pending st))) \<longleftrightarrow> (\<exists>q vs. (q, vs) \<in> set (ss_pending st) \<and> e \<in> set vs)"
      by force
    then show ?thesis by (auto simp: map_of_in_set [OF p] versions_at_def split: option.splits) (metis option.simps(5))
  qed
  moreover have "e \<in> set (index_entries (ss_index st)) \<longleftrightarrow> (\<exists>q. index_get (ss_index st) q = Some e)"
    using index_entries_iff [OF i] index_getD [OF i] by metis
  ultimately show ?thesis by (auto simp: leg_delta_def not_covered_by_def in_held_at)
qed

lemma answer_ok:
  assumes inv: "net_ok nodes N" and h: "(a, v) \<in> nw_heads N" and b: "b \<in> nodes"
    and pages: "entry_pages sz b a wd v (nw_state N b) = (pages, complete)"
    and l: "l = \<lparr>lg_from = b, lg_to = a,
      lg_position = answer_position dh b rp (length pages) complete (nw_state N b),
      lg_entries = (if complete then leg_delta v (nw_state N b) else []), lg_basis = v\<rparr>"
  shows "net_ok nodes (N\<lparr>nw_legs := insert l (nw_legs N)\<rparr>)"
proof -
  let ?N = "N\<lparr>nw_legs := insert l (nw_legs N)\<rparr>" and ?st = "nw_state N b"
  have same: "key ?N = key N" "clk ?N = clk N" "adv ?N = adv N"
    by (simp_all add: key_def clk_def adv_def fun_eq_iff)
  note node = net_node [OF inv b]
  have head: "a \<in> nodes" "bt_ok v" "vv_le v (adv N a)" using inv h by (auto simp: net_ok_def head_ok_def)
  have vv: "hp_set_vv (lg_position l) = adv N b"
    by (simp add: l answer_position_def adv_def key_def)
  have own: "vv_get (adv N b) (key N c) \<le> clk N c \<and> below ?st (key N c) (clk N c)" if "c \<in> nodes" for c
    using net_node(4) [OF inv that] b by (simp add: own_only_def)
  have held: "\<exists>p. e \<in> set (held_at ?st p)" if "e \<in> set (lg_entries l)" for e
    using that leg_delta_iff [OF node(1)] by (auto simp: l split: if_splits)
  have "leg_ok nodes N l"
  proof -
    have "(\<exists>e \<in> set (lg_entries l). e_path e = p \<and> n \<le> vv_get (e_vv e) k) \<or> n \<le> vv_get (adv N a) k"
      if complete and ev: "(p, k, n) \<in> nw_events N" and le: "n \<le> vv_get (adv N b) k" for p k n
    proof -
      obtain e where e: "e \<in> set (held_at ?st p)" "n \<le> vv_get (e_vv e) k"
        using node(5) ev le by (auto simp: covered_held_def knows_def)
      note eok = held_at_ok [OF node(1) e(1)]
      show ?thesis
      proof (cases "covers v (e_vv e)")
        case True
        then have "vv_le (e_vv e) (adv N a)" using head(3) eok vv_le_trans by (auto simp: covers_vv_le)
        with e(2) show ?thesis unfolding vv_le_def using le_trans by blast
      next
        case False
        with e(1) have "e \<in> set (lg_entries l)" using leg_delta_iff [OF node(1)] that(1) by (auto simp: l)
        with e(2) eok show ?thesis by blast
      qed
    qed
    moreover have "bt_ok (e_vv e)" if "e \<in> set (lg_entries l)" for e
      using held [OF that] held_at_ok [OF node(1)] by blast
    moreover have "bt_ok (adv N b)" unfolding adv_def by (rule advertised_ok [OF node(3)])
    moreover have "hp_entries_complete (lg_position l) \<longleftrightarrow> complete" "lg_to l = a"
      by (simp_all add: l answer_position_def)
    ultimately show ?thesis using head(1) unfolding leg_ok_def vv by auto
  qed
  moreover have "vv_get (e_vv e) (key N c) \<le> clk N c" if "c \<in> nodes" "e \<in> set (lg_entries l)" for c e
    using own [OF that(1)] held [OF that(2)] by (auto simp: below_def)
  ultimately show ?thesis
    using inv own unfolding net_ok_def node_ok_def own_only_def head_ok_def leg_ok_def covered_held_def issued_by_def same
    by (simp add: vv)
qed

lemma step_ok:
  assumes "network_step nodes dp dh sz N N'" and inv: "net_ok nodes N"
  shows "net_ok nodes N'"
  using assms(1)
proof cases
  case (walk a fx obs r st sv)
  have "evolves (key N a) (nw_state N a) st"
    by (rule fold_scan_evolves [OF walk(3) key_def net_node(1) [OF inv walk(2)] walk(4)])
  with move_ok [OF inv walk(2) evolve_good [OF inv walk(2)]] show ?thesis by (simp add: walk(1))
next
  case (land a fx p landed st)
  have "evolves (key N a) (nw_state N a) st" by (rule land_evolves [OF land(3) net_node(1) [OF inv land(2)]])
  with move_ok [OF inv land(2) evolve_good [OF inv land(2)]] show ?thesis by (simp add: land(1))
next
  case (gesture a st sv)
  have "evolves (key N a) (nw_state N a) st" by (rule gesture_evolves [OF gesture(3) net_node(1) [OF inv gesture(2)]])
  with move_ok [OF inv gesture(2) evolve_good [OF inv gesture(2)]] show ?thesis by (simp add: gesture(1))
next
  case (ask a)
  with ask_ok [OF inv] show ?thesis by simp
next
  case (answer a v b with_delta pages complete position records_pages es)
  with answer_ok [OF inv answer(2,3,4) refl] show ?thesis by simp
next
  case (absorb l b fx now st sv)
  have "lg_to l \<in> nodes" using inv absorb(2) by (simp add: net_ok_def leg_ok_def)
  with move_ok [OF inv _ absorb_good [OF inv absorb(2-5)]] show ?thesis by (simp add: absorb(1))
qed

lemma init_ok: "network_init nodes N \<Longrightarrow> net_ok nodes N"
proof -
  assume i: "network_init nodes N"
  then have held: "held_at (nw_state N a) p = []" "versions_at (nw_state N a) p = []" if "a \<in> nodes" for a p
    using that by (auto simp: network_init_def held_at_def versions_at_def index_get_def)
  have adv: "adv N a = (if clk N a > 0 then vv_set (key N a) (clk N a) [] else [])" if "a \<in> nodes" for a
    using i that by (simp add: adv_def advertised_def network_init_def clk_def)
  have inj: "a = c" if "a \<in> nodes" "c \<in> nodes" "key N a = key N c" for a c
    using i that component_inj [of a c] by (simp add: network_init_def key_def self_component_def)
  have "vv_get (adv N a) (key N c) \<le> clk N c" if "a \<in> nodes" "c \<in> nodes" for a c
    using inj [OF that] by (auto simp: adv [OF that(1)])
  then have "node_ok N a \<and> own_only nodes N a \<and> covered_held N a" if a: "a \<in> nodes" for a
    using i a held
    by (auto simp: node_ok_def own_only_def covered_held_def network_init_def state_ok_def slots_def watermarks_ok_def
        pending_ok_def bt_ok_def below_def)
  with i show ?thesis by (auto simp: net_ok_def network_init_def)
qed

lemma reachable_ok: "network_reachable nodes dp dh sz N \<Longrightarrow> net_ok nodes N"
  by (induction rule: network_reachable.induct) (auto intro: init_ok step_ok)

section \<open>A sample network\<close>

lemma drain_idle:
  "ss_pending st = [] \<Longrightarrow> ss_parked st = [] \<Longrightarrow> drain_pending fx self st = st"
  by (simp add: drain_pending_def drain_files_def each_pending_def apply_pending_dirs_def)

lemma quiet_idle: "ss_pending st = [] \<Longrightarrow> ss_parked st = [] \<Longrightarrow> quiet_drain fx self st"
  by (simp add: quiet_drain_def drain_files_def each_pending_def apply_pending_dirs_def dir_tomb_known_def pending_of_def)

definition sample_network :: network where
  "sample_network = \<lparr>nw_state = (\<lambda>_. sample_state), nw_store = (\<lambda>_. \<lparr>sv_meta = None, sv_index = None, sv_faults = []\<rparr>),
     nw_heads = {}, nw_legs = {}, nw_events = {}\<rparr>"

definition one_file :: observation where
  "one_file = observation_default\<lparr>obs_changed := [\<lparr>ob_path = ''f'', ob_kind = EFile, ob_size = 0,
     ob_mtime = mtime_default, ob_exec = False, ob_hash = []\<rparr>]\<rparr>"

section \<open>Properties\<close>

text \<open>
  C1. What a node advertises it holds: in every history of walks, landings, rounds and changes of the
  sets' records, with messages lost, delayed or repeated, whenever a node's advertised vector covers a
  clock value some member put on a path, the node holds a version of that path, in its index or
  pending, that covers the value. So a relay can serve everything it claims to have seen.

  The histories are those of \<open>network_step\<close>, from empty sets on: a walk or an absorbed round drains
  with no parked rename waiting and with no directory tombstone for a path that is not live here
  (\<open>quiet_drain\<close>), an answered delta has no entry above the page budget, and a gesture may bind a folder
  and change the records of a set but leaves index, pending versions, parked renames, watermarks and
  clock alone (\<open>same_files\<close>): inviting, accepting, pausing and resuming are such gestures
  (\<open>quiet_gestures\<close> of \<open>GestureFacts\<close>), leaving and resolving are not. Without these the
  property fails: a parked rename whose retry fails is forgotten (\<open>a_blocked_rename_is_forgotten\<close>), and
  leaving drops the pending versions and keeps the watermarks.
\<close>

theorem advertised_is_held:
  assumes "network_reachable nodes dp dh sz N" and "a \<in> nodes" and "(p, k, n) \<in> nw_events N"
    and "n \<le> vv_get (advertised (self_component (ss_clock (nw_state N a)) a) (nw_state N a)) k"
  shows "\<exists>e \<in> set (held_at (nw_state N a) p). n \<le> vv_get (e_vv e) k"
  using net_node(5) [OF reachable_ok [OF assms(1)] assms(2)] assms(3,4)
  by (auto simp: covered_held_def knows_def adv_def key_def)

lemma advertised_is_held_witness:
  "\<exists>N. network_reachable {replicate 64 CHR ''a''} sample_deps (\<lambda>d. []) (\<lambda>v. 0) N \<and>
     (\<exists>k. (''f'', k, 1) \<in> nw_events N \<and>
       (\<exists>e \<in> set (held_at (nw_state N (replicate 64 CHR ''a'')) ''f''). 1 \<le> vv_get (e_vv e) k))"
proof -
  let ?a = "replicate 64 CHR ''a''" and ?init = sample_network
  let ?k = "key ?init ?a" and ?now = "nw_state ?init ?a"
  have node: "valid_node_id ?a" by (simp add: valid_node_id_def lower_hex_def list_all_iff is_lower_hex_def is_digit_def)
  have r0: "network_reachable {?a} sample_deps (\<lambda>d. []) (\<lambda>v. 0) ?init"
    by (rule network_reachable.start) (simp add: network_init_def node sample_network_def del: replicate.simps)
  obtain r st1 where sf: "scan_folded ?k one_file ?now = (Inr r, st1)"
    and st1: "ss_pending st1 = []" "ss_parked st1 = []" "c_current (ss_clock st1) = 1"
      "c_generation (ss_clock st1) = 7"
      "\<exists>e. index_get (ss_index st1) ''f'' = Some e \<and> vv_get (e_vv e) ?k = 1"
    by (simp add: scan_folded_def sample_network_def fold_observation_def one_file_def observation_default_def
        tick_def opened_clock_def index_get_def index_upsert_def)
  have re: "rearm ?now = ?now" by (rule rearm_files) (simp add: sample_network_def)
  have k: "self_component (ss_clock ?now) ?a = ?k" by (simp only: key_def)
  have "sv_faults (nw_store ?init ?a) = []" by (simp add: sample_network_def)
  then obtain sv where "persist (st1\<lparr>ss_ignored := sr_ignored r\<rparr>) (nw_store ?init ?a) = (True, sv)"
    by (simp add: persist_def next_write_def)
  then have run: "fold_scan still_fs ?a one_file ?now (nw_store ?init ?a) = (Inr r, st1\<lparr>ss_ignored := sr_ignored r\<rparr>, sv)"
    by (simp only: fold_scan_def Let_def k re sf sum.case prod.case drain_idle [OF st1(1,2)] bool.case)
  let ?st = "st1\<lparr>ss_ignored := sr_ignored r\<rparr>"
  let ?N = "moved ?a ?st sv ?init"
  have r1: "network_reachable {?a} sample_deps (\<lambda>d. []) (\<lambda>v. 0) ?N"
    by (rule network_reachable.step [OF r0 network_step.walk [OF _ run]]) (use sf st1 re in \<open>auto intro: quiet_idle\<close>)
  have gen: "c_generation (ss_clock ?st) = c_generation (ss_clock (nw_state ?init ?a))"
    using st1(4) by (simp add: sample_network_def opened_clock_def)
  note M = moved_simps [of ?st ?init ?a sv, OF gen]
  have ev: "(''f'', ?k, 1) \<in> nw_events ?N"
    using st1(5) by (simp add: M new_events_def) (simp add: sample_network_def opened_clock_def)
  have "1 \<le> vv_get (advertised (self_component (ss_clock (nw_state ?N ?a)) ?a) (nw_state ?N ?a)) ?k"
    using net_node(3) [OF reachable_ok [OF r1], of ?a] st1(3) M(1)
    using gen by (simp add: advertised_iff M key_def self_component_def del: replicate.simps)
  from advertised_is_held [OF r1 _ ev this] r1 ev show ?thesis by blast
qed

end
