(* ===== verification/Losses.thy ===== *)
theory Losses
  imports Network
begin

text \<open>
  What the exchange loses: a parked rename whose retry fails, a concurrent edit below a directory
  tombstone, a delta with an oversized entry, a delta of too many pages.
\<close>

section \<open>A parked rename\<close>

lemma pulled_last: "\<not> e_deleted e \<Longrightarrow> e_kind e = EFile \<Longrightarrow> pulled_version (vs @ [e]) = Some e"
  by (simp add: pulled_version_def)

lemma blocked_apply:
  assumes "map_of (ss_pending st) p = Some (vs @ [e])" and "\<not> e_deleted e" and "e_kind e = EFile"
    and "index_get (ss_index st) p = None"
    and "ax_rename (fx_apply fx p) = RenameError" and "\<not> ax_rename_again_ok (fx_apply fx p)"
  shows "\<exists>st'. apply_staged_file fx p self st = (False, st') \<and> ss_index st' = ss_index st \<and>
    ss_watermarks st' = ss_watermarks st \<and> ss_clock st' = ss_clock st"
  using assms
  by (auto simp: apply_staged_file_def apply_staged_def pulled_last standing_of_def Let_def move_into_place_def
      park_staged_def split: option.splits)

section \<open>A directory tombstone\<close>

text \<open>What surviving does to an entry: its vector grows, and takes the tombstone's in when it is the survivor.\<close>

definition grown :: "entry \<Rightarrow> entry \<Rightarrow> bool" where
  "grown e e' \<longleftrightarrow> e_hash e' = e_hash e \<and> e_deleted e' = e_deleted e \<and> e_kind e' = e_kind e \<and> vv_le (e_vv e) (e_vv e')"

lemma grown_trans: "grown a b \<Longrightarrow> grown b c \<Longrightarrow> grown a c"
  using vv_le_trans by (auto simp: grown_def)

lemma survive_grows:
  assumes ok: "state_ok self st" and v: "bt_ok v" "vv_get v self \<le> c_current (ss_clock st)"
    and e: "index_get (ss_index st) p = Some e"
  shows "\<exists>e'. index_get (ss_index (survive self v q st)) p = Some e' \<and> grown e e' \<and>
    (p = q \<longrightarrow> \<not> e_deleted e \<longrightarrow> vv_le v (e_vv e'))"
proof (cases "\<exists>d. index_get (ss_index st) q = Some d \<and> \<not> e_deleted d")
  case False
  with e show ?thesis by (auto simp: survive_def grown_def split: option.splits)
next
  case True
  then obtain d where d: "index_get (ss_index st) q = Some d" "\<not> e_deleted d" by blast
  note i = index_ours [OF ok d(1)]
  let ?m = "merge_max (e_vv d) v"
  obtain vv st1 where b: "bump self ?m st = (vv, st1)" by fastforce
  have m: "bt_ok ?m" "vv_get ?m self \<le> c_current (ss_clock st)" using i v by (simp_all add: vv_get_merge_max)
  note B = bump_evolves [OF b ok m(2,1)]
  then have le: "vv_le (e_vv d) vv" "vv_le v vv" using merge_max_le [OF v(1)] vv_le_trans by blast+
  have "survive self v q st = upsert (d\<lparr>e_vv := vv\<rparr>) st1" using d b by (simp add: survive_def)
  then show ?thesis using e d i B le by (auto simp: grown_def)
qed

lemma survivors_grow:
  assumes "state_ok self st" and "bt_ok v" and "vv_get v self \<le> c_current (ss_clock st)" and "from_held self st v"
    and "index_get (ss_index st) p = Some e"
  shows "\<exists>e'. index_get (ss_index (foldl (\<lambda>st q. survive self v q st) st ps)) p = Some e' \<and> grown e e' \<and>
    (p \<in> set ps \<longrightarrow> \<not> e_deleted e \<longrightarrow> vv_le v (e_vv e'))"
  using assms
proof (induction ps arbitrary: st e)
  case Nil
  then show ?case by (simp add: grown_def)
next
  case (Cons q ps)
  let ?st = "survive self v q st"
  have S: "evolves self st ?st" using survive_evolves [OF Cons.prems(1-4), of q] by blast
  obtain e1 where e1: "index_get (ss_index ?st) p = Some e1" "grown e e1" "p = q \<longrightarrow> \<not> e_deleted e \<longrightarrow> vv_le v (e_vv e1)"
    using survive_grows [OF Cons.prems(1-3,5), of q] by blast
  have "from_held self ?st v" using S Cons.prems(4) from_held_mono unfolding evolves_def by blast
  moreover have "vv_get v self \<le> c_current (ss_clock ?st)"
    using S Cons.prems(3) unfolding evolves_def by linarith
  ultimately obtain e2 where e2:
    "index_get (ss_index (foldl (\<lambda>st q. survive self v q st) ?st ps)) p = Some e2" "grown e1 e2"
    "p \<in> set ps \<longrightarrow> \<not> e_deleted e1 \<longrightarrow> vv_le v (e_vv e2)"
    using Cons.IH [OF evolves_ok [OF S] Cons.prems(2) _ _ e1(1)] by blast
  have "vv_le v (e_vv e2)" if "p \<in> set (q # ps)" "\<not> e_deleted e"
  proof (cases "p \<in> set ps")
    case True
    then show ?thesis using e2(3) e1(2) that(2) by (simp add: grown_def)
  next
    case False
    then have "vv_le v (e_vv e1)" using e1(3) that by simp
    then show ?thesis using e2(2) vv_le_trans by (auto simp: grown_def)
  qed
  with e2 grown_trans [OF e1(2) e2(2)] show ?case by auto
qed

lemma survivors_pending:
  "ss_pending (foldl (\<lambda>st q. survive self v q st) st ps) = ss_pending st"
proof (induction ps arbitrary: st)
  case (Cons q ps)
  have "ss_pending (survive self v q st) = ss_pending st"
    using bump_frame by (auto simp: survive_def upsert_def split: option.splits prod.splits)
  with Cons show ?case by simp
qed simp

lemma survivors_conflicts:
  "ss_conflicts (foldl (\<lambda>st q. survive self v q st) st ps) = ss_conflicts st"
proof (induction ps arbitrary: st)
  case (Cons q ps)
  have "ss_conflicts (survive self v q st) = ss_conflicts st"
    using bump_conflicts by (auto simp: survive_def split: option.splits prod.splits)
  with Cons show ?case by simp
qed simp

lemma merge_versions_frame:
  "merge_versions m changed beat vs = (kept, m', changed', beat') \<Longrightarrow>
   set kept \<subseteq> set vs \<and> e_hash m' = e_hash m \<and> e_deleted m' = e_deleted m \<and> e_path m' = e_path m"
proof (induction vs arbitrary: m changed beat kept)
  case (Cons h vs)
  let ?m = "m\<lparr>e_vv := merge_max (e_vv m) (e_vv h)\<rparr>"
  consider (keep) kept' where "merge_versions m changed beat vs = (kept', m', changed', beat')" "kept = h # kept'"
    | (merge) b where "merge_versions ?m True b vs = (kept, m', changed', beat')"
    using Cons.prems by (auto simp: Let_def split: if_splits prod.splits)
  then show ?case
  proof cases
    case keep
    then show ?thesis using Cons.IH [OF keep(1)] by auto
  next
    case merge
    then show ?thesis using Cons.IH [OF merge] by auto
  qed
qed simp

lemma set_versions_ok:
  assumes ok: "state_ok self st" and sub: "set vs \<subseteq> set (versions_at st q)"
  shows "state_ok self (set_versions q vs st)"
proof -
  have frame: "ss_index (set_versions q vs st) = ss_index st" "ss_clock (set_versions q vs st) = ss_clock st"
    by (simp_all add: set_versions_def)
  have "h \<in> set (held_at st p)" if "h \<in> set (held_at (set_versions q vs st) p)" for h p
    using that sub by (auto simp: in_held_at frame versions_at_set split: if_splits)
  moreover have "pending_ok (ss_pending (set_versions q vs st))"
    using ok sub versions_at_ok unfolding state_ok_def
    by (auto simp: set_versions_def pending_ok_remove subset_eq intro!: pending_ok_insert)
  ultimately show ?thesis using ok unfolding state_ok_def frame by blast
qed

lemma settle_ok: "state_ok self st \<Longrightarrow> state_ok self (settle_pending p v st)"
  by (auto simp: settle_pending_def versions_at_def drop_covered_def split: option.splits intro!: set_versions_ok)

lemma quiet_path_result:
  assumes ok: "state_ok self st" and pend: "map_of (ss_pending st) p = Some versions"
    and ours: "index_get (ss_index st) p = Some ours"
    and run: "merge_versions ours False False (news ours versions) = (kept, m, ch, beat)"
  shows "\<exists>e'. index_get (ss_index (quiet_path self p st)) p = Some e' \<and> e_hash e' = e_hash ours \<and>
    e_deleted e' = e_deleted ours \<and> vv_le (e_vv ours) (e_vv e') \<and> versions_at (quiet_path self p st) p = kept \<and>
    ss_conflicts (quiet_path self p st) = ss_conflicts st"
proof (cases ch)
  case False
  then show ?thesis using pend ours run by (simp add: quiet_path_def versions_at_set)
next
  case True
  note o = index_ours [OF ok ours]
  have theirs: "bt_ok (e_vv h) \<and> vv_get (e_vv h) self \<le> c_current (ss_clock st)" if "h \<in> set (news ours versions)" for h
    using pending_theirs [OF ok, of h p] that pend by (auto simp: versions_at_def news_def)
  have M: "merges ours (news ours versions) kept m" using merge_versions_spec [OF run] o theirs by blast
  then have m: "e_hash m = e_hash ours" "e_deleted m = e_deleted ours" "e_path m = p" "bt_ok (e_vv m)" "vv_le (e_vv ours) (e_vv m)"
      "vv_get (e_vv m) self \<le> c_current (ss_clock st)"
    using merge_versions_frame [OF run] o theirs unfolding merges_def by blast+
  obtain vv st1 where b: "(if beat then bump self (e_vv m) st else (e_vv m, st)) = (vv, st1)" by fastforce
  have "vv_le (e_vv ours) vv"
    using b bump_evolves [OF _ ok m(6,4)] m(5) vv_le_trans by (auto split: if_splits)
  moreover have "ss_conflicts st1 = ss_conflicts st" using b bump_conflicts by (auto split: if_splits)
  moreover have "quiet_path self p st = set_versions p kept (upsert (m\<lparr>e_vv := vv\<rparr>) st1)"
    using pend ours run True b by (auto simp: quiet_path_def bump_set_versions commute_set_upsert split: if_splits)
  ultimately show ?thesis using m by (simp add: versions_at_set)
qed

lemma bound_serving: "serving node_a node_b True (bound_state\<lparr>ss_index := i\<rparr>)"
  using two_members_active by (simp add: serving_def del: replicate.simps)

section \<open>Properties\<close>

text \<open>
  A parked rename whose retry fails, or that is past its attempts, is forgotten by the exchange:
  the retry puts the version back into the pending set and takes it out again on failure, so what the
  drain leaves held at the path, in the index and pending, no longer includes the parked version,
  although the watermarks that cover it stay. The next answering leg then declares itself complete
  without it.
\<close>

theorem a_blocked_rename_is_forgotten:
  assumes "map_of (ss_parked st) p = Some pk" and "index_get (ss_index st) p = None"
    and "fx_staged_exists fx (pk_staged pk)" and "\<not> e_deleted (pk_entry pk)" and "e_kind (pk_entry pk) = EFile"
    and "ax_rename (fx_apply fx p) = RenameError" and "\<not> ax_rename_again_ok (fx_apply fx p)"
  shows "(\<forall>h \<in> set (held_at (retry_one fx self p st) p). \<not> covers (e_vv (pk_entry pk)) (e_vv h)) \<and>
    ss_watermarks (retry_one fx self p st) = ss_watermarks st"
proof -
  let ?e = "pk_entry pk" and ?st1 = "push_pending p (pk_entry pk) st"
  have gone: "\<forall>h \<in> set (held_at (settle_pending p (e_vv ?e) s) p). \<not> covers (e_vv ?e) (e_vv h)"
    if "index_get (ss_index s) p = None" for s
    using that by (auto simp: in_held_at settle_versions drop_covered_def)
  have frame: "ss_index ?st1 = ss_index st" "ss_watermarks ?st1 = ss_watermarks st"
    "map_of (ss_pending ?st1) p = Some (versions_at st p @ [?e])"
    by (simp_all add: push_pending_def)
  show ?thesis
  proof (cases "PARKED_ATTEMPTS_MAX \<le> pk_attempts pk")
    case True
    then have "retry_one fx self p st = settle_pending p (e_vv ?e) ?st1"
      using assms by (simp add: retry_one_def Let_def)
    with gone [of ?st1] assms(2) frame show ?thesis by simp
  next
    case False
    let ?st2 = "?st1\<lparr>ss_parked := bt_insert p (pk\<lparr>pk_attempts := min (2 ^ 32 - 1) (pk_attempts pk + 1)\<rparr>) (ss_parked ?st1)\<rparr>"
    obtain st3 where st3: "apply_staged_file fx p self ?st2 = (False, st3)" "ss_index st3 = ss_index ?st2"
      "ss_watermarks st3 = ss_watermarks ?st2"
      using blocked_apply [of ?st2 p "versions_at st p" ?e fx self] assms frame by auto
    have "retry_one fx self p st = settle_pending p (e_vv ?e) st3"
      using assms False st3(1) by (simp add: retry_one_def Let_def)
    with gone [of st3] assms(2) frame st3 show ?thesis by simp
  qed
qed

definition blocked_fs :: fs_env where
  "blocked_fs = still_fs\<lparr>fx_apply := (\<lambda>p. (fx_apply still_fs p)\<lparr>ax_rename := RenameError, ax_rename_again_ok := False\<rparr>)\<rparr>"

definition parked_state :: set_state where
  "parked_state = bound_state\<lparr>ss_parked :=
     [(''f'', \<lparr>pk_staged = ''/r/.stage'', pk_entry = file_at ''f'' [(''x'', 4)], pk_reason = [], pk_attempts = 1\<rparr>)]\<rparr>"

lemma a_blocked_rename_is_forgotten_witness:
  "filter (\<lambda>h. covers [(''x'', 4)] (e_vv h)) (held_at (retry_one blocked_fs node_a ''f'' parked_state) ''f'') = []"
  using a_blocked_rename_is_forgotten [of parked_state "''f''" _ blocked_fs node_a]
  by (simp add: parked_state_def blocked_fs_def still_fs_def index_get_def filter_empty_conv)

text \<open>
  C15. A concurrent edit below a directory tombstone can vanish: a child of the directory that survives
  the tombstone takes the tombstone's vector into its own, although that vector belongs to another
  path, so a version of the child that waits in the pending set, concurrent with ours and covered by
  the tombstone's vector, is old news to the next quiet pass and is dropped. The child keeps our
  content, under a vector above its own and the tombstone's, and no conflict is recorded.
\<close>

theorem a_concurrent_edit_below_a_tombstone_vanishes:
  assumes ok: "state_ok self st" and root: "ss_root st \<noteq> None"
    and tomb: "pending_of True EDir p st = Some tomb"
    and ours: "index_get (ss_index st) child = Some ours" "\<not> e_deleted ours" "starts_with child (p @ ''/'')"
    and edit: "e \<in> set (versions_at st child)" "covers (e_vv tomb) (e_vv e)"
    and later: "st2 = quiet_path self child (dir_tombstone_at fx self p st)"
  shows "(\<exists>e'. index_get (ss_index st2) child = Some e' \<and> e_hash e' = e_hash ours \<and> \<not> e_deleted e' \<and>
      vv_le (e_vv tomb) (e_vv e') \<and> vv_le (e_vv ours) (e_vv e')) \<and>
    e \<notin> set (versions_at st2 child) \<and> ss_conflicts st2 = ss_conflicts st"
proof -
  let ?f = "\<lambda>st q. survive self (e_vv tomb) q st" and ?ds = "live_descendants p st"
  define s1 where "s1 = foldl ?f st (?ds @ [p])"
  note t = pending_ofD [OF tomb]
  note T = pending_theirs [OF ok conjunct1 [OF t]]
  note E = pending_theirs [OF ok edit(1)]
  have ne: "child \<noteq> p" using ours(3) by (auto simp: starts_with_iff)
  have idx: "index_ok (ss_index st)" using ok by (simp add: state_ok_def)
  have "child \<in> set ?ds"
    using ours index_entries_iff [OF idx, of ours] index_getD [OF idx ours(1)]
    by (auto simp: live_descendants_def live_def intro!: image_eqI [of _ _ ours])
  then obtain e1 where e1: "index_get (ss_index s1) child = Some e1" "grown ours e1" "vv_le (e_vv tomb) (e_vv e1)"
    using survivors_grow [OF ok _ _ _ ours(1), of "e_vv tomb" "?ds @ [p]"] T ours(2) by (auto simp: s1_def)
  have "?ds \<noteq> []" using \<open>child \<in> set ?ds\<close> by auto
  then have d: "dir_tombstone_at fx self p st = settle_pending p (e_vv tomb) s1"
    using tomb root T by (auto simp: dir_tombstone_at_def apply_dir_tombstone_def s1_def)
  define s2 where "s2 = settle_pending p (e_vv tomb) s1"
  have vs: "map_of (ss_pending s2) child = map_of (ss_pending st) child"
    unfolding s2_def settle_other(1) [OF ne] s1_def survivors_pending by simp
  obtain versions where versions: "map_of (ss_pending s2) child = Some versions" "e \<in> set versions"
    using edit(1) by (cases "map_of (ss_pending st) child") (simp_all add: vs versions_at_def)
  have at: "index_get (ss_index s2) child = Some e1" using e1(1) by (simp add: s2_def)
  have "vv_le (e_vv e) (e_vv e1)" using edit(2) E e1(3) vv_le_trans by (auto simp: covers_vv_le)
  then have "covers (e_vv e1) (e_vv e)" using E by (simp add: covers_vv_le)
  then have old: "e \<notin> set (news e1 versions)"
    by (cases "covers (e_vv e) (e_vv e1)") (auto simp: news_def vv_relation_def)
  have conf: "ss_conflicts s2 = ss_conflicts st" by (simp only: s2_def s1_def survivors_conflicts set_versions_frame)
  obtain kept m ch beat where run: "merge_versions e1 False False (news e1 versions) = (kept, m, ch, beat)"
    by (cases "merge_versions e1 False False (news e1 versions)")
  have ok2: "state_ok self s2"
  proof -
    have "evolves self st s1" unfolding s1_def using survivors_evolve [OF ok, of "e_vv tomb" "?ds @ [p]"] T by blast
    then show ?thesis by (simp add: s2_def evolves_ok settle_ok)
  qed
  have "e \<notin> set kept" using old merge_versions_frame [OF run] by blast
  from quiet_path_result [OF ok2 versions(1) at run] obtain e2 where
    e2: "index_get (ss_index st2) child = Some e2" "e_hash e2 = e_hash e1" "e_deleted e2 = e_deleted e1"
      "vv_le (e_vv e1) (e_vv e2)" "versions_at st2 child = kept" "ss_conflicts st2 = ss_conflicts s2"
    unfolding later d s2_def by blast
  moreover have "vv_le (e_vv tomb) (e_vv e2)" "vv_le (e_vv ours) (e_vv e2)"
    using e1(2,3) e2(4) vv_le_trans unfolding grown_def by blast+
  ultimately show ?thesis using e1(2) ours(2) conf \<open>e \<notin> set kept\<close> by (simp add: grown_def)
qed

definition torn_state :: set_state where
  "torn_state = bound_state\<lparr>
     ss_index := [(''d/f'', file_at ''d/f'' [(''y'', 1)])],
     ss_pending := [(''d'', [(file_at ''d'' [(''x'', 3)])\<lparr>e_kind := EDir, e_deleted := True\<rparr>]),
                    (''d/f'', [file_at ''d/f'' [(''x'', 2)]])]\<rparr>"

lemma torn_ok: "state_ok ''n'' torn_state"
  by (auto simp: state_ok_def torn_state_def index_ok_def pending_ok_def bt_ok_def held_at_def versions_at_def
      index_get_def vv_get_def opened_clock_def split: if_splits)

lemma a_concurrent_edit_below_a_tombstone_vanishes_witness:
  "file_at ''d/f'' [(''x'', 2)] \<notin> set (versions_at (quiet_path ''n'' ''d/f'' (dir_tombstone_at still_fs ''n'' ''d'' torn_state)) ''d/f'')"
  using a_concurrent_edit_below_a_tombstone_vanishes
    [OF torn_ok, of "''d''" _ "''d/f''" "file_at ''d/f'' [(''y'', 1)]" "file_at ''d/f'' [(''x'', 2)]" _ still_fs, OF _ _ _ _ _ _ _ refl]
  by (simp add: torn_state_def pending_of_def index_get_def starts_with_def versions_at_def covers_def vv_get_def)

text \<open>
  An oversized entry empties the delta and the leg still says it is complete: when one entry the
  peer lacks serializes past the page budget, an answering leg that serves the peer carries no entry
  page at all and declares its entries complete, so the peer advances its watermark over entries it
  never received.
\<close>

theorem an_oversized_entry_is_declared_sent:
  assumes "serving self_node peer with_delta st" and "e \<in> set (leg_delta their_vv st)"
    and "PAGE_BUDGET_BYTES < sz (entry_to_value e) + 1"
  shows "entry_pages sz self_node peer with_delta their_vv st = ([], True)"
proof -
  have "\<exists>i \<in> set (map entry_to_value (leg_delta their_vv st)). PAGE_BUDGET_BYTES < sz i + 1"
    using assms(2,3) by auto
  then have "paginate sz (map entry_to_value (leg_delta their_vv st)) = None"
    unfolding paginate_def paginate_from_None .
  with assms(1) show ?thesis by (simp add: entry_pages_def)
qed

lemma an_oversized_entry_is_declared_sent_witness:
  "entry_pages (\<lambda>_. 60000) node_a node_b True [] (bound_state\<lparr>ss_index := [(''f'', file_at ''f'' [(''x'', 1)])]\<rparr>) = ([], True)"
  using an_oversized_entry_is_declared_sent [OF bound_serving, of "file_at ''f'' [(''x'', 1)]" "[]" "[(''f'', file_at ''f'' [(''x'', 1)])]" "\<lambda>_. 60000"]
  by (simp add: leg_delta_def not_covered_by_def index_entries_def covers_def vv_get_def PAGE_BUDGET_BYTES_def del: replicate.simps)

lemma page_bytes_concat: "\<forall>p \<in> set out. page_fits sz p \<Longrightarrow> page_bytes sz (concat out) \<le> length out * PAGE_BUDGET_BYTES"
  by (rule pages_bytes_bound)

lemma head_pages_refused:
  assumes "ROUND_PAGES_MAX < hp_entries_pages p"
  shows "message_from_value is_nfc (message_to_value (MsgHead sid round answers (Some p) pub)) = None"
proof -
  define fs where "fs = [(''dialect'', JStr DIALECT), (''type'', JStr ''head''), (''set_id'', JStr sid),
      (''round'', of_u64 round), (''sync_pub'', JStr pub)] @
      (case answers of None \<Rightarrow> [] | Some a \<Rightarrow> [(''answers'', of_u64 a)]) @ position_fields (Some p)"
  define v where "v = jobj fs"
  have v: "message_to_value (MsgHead sid round answers (Some p) pub) = v" by (simp add: v_def fs_def envelope_def)
  have d: "distinct (map fst fs)" by (cases answers) (simp_all add: fs_def position_fields_def)
  have f: "map_of fs ''membership'' = None" "map_of fs ''type'' = Some (JStr ''head'')"
    "map_of fs ''entries_pages'' = Some (of_u64 (hp_entries_pages p))"
    by (cases answers; simp add: fs_def position_fields_def)+
  have g: "str_field v ''membership'' = None" "str_field v ''type'' = Some ''head''"
    "u64_field v ''entries_pages'' = Some (hp_entries_pages p)"
    by (simp_all add: v_def str_field_jobj [OF d] u64_field_jobj [OF d] f)
  have "position_from_value v = None"
    unfolding position_from_value_def g by (auto simp: g bind_eq_None_conv assms)
  then have "head_from_value s v = None" for s
    unfolding head_from_value_def by (auto simp: bind_eq_None_conv)
  then show ?thesis
    unfolding v message_from_value_def g by (auto simp: bind_eq_None_conv)
qed

text \<open>
  A delta of more than 256 pages is never heard: when the entries a peer lacks add up to more than
  256 page budgets (12 MiB), the head of the answering leg declares more pages than a head may, the
  peer's gate refuses the whole head, and no round for that delta can complete, however often it is
  asked; the sender never splits it.
\<close>

theorem a_large_delta_is_never_heard:
  assumes "serving self_node peer with_delta st"
    and "\<forall>e \<in> set (leg_delta their_vv st). sz (entry_to_value e) + 1 \<le> PAGE_BUDGET_BYTES"
    and "ROUND_PAGES_MAX * PAGE_BUDGET_BYTES < page_bytes sz (map entry_to_value (leg_delta their_vv st))"
  shows "message_from_value is_nfc
    (snd (hd (answer_head dh sz self_node pub round peer sid answered their_vv with_delta st))) = None"
proof -
  let ?items = "map entry_to_value (leg_delta their_vv st)"
  have "\<not> (\<exists>i \<in> set ?items. PAGE_BUDGET_BYTES < sz i + 1)" using assms(2) by (auto simp: not_less)
  then have "paginate sz ?items \<noteq> None" unfolding paginate_def paginate_from_None .
  then obtain pages where pages: "paginate sz ?items = Some pages" by blast
  note P = paginate_Some [OF pages]
  have "page_bytes sz ?items \<le> length pages * PAGE_BUDGET_BYTES" using P page_bytes_concat by metis
  with assms(3) have "ROUND_PAGES_MAX * PAGE_BUDGET_BYTES < length pages * PAGE_BUDGET_BYTES" by linarith
  then have many: "ROUND_PAGES_MAX < length pages" by simp
  have "entry_pages sz self_node peer with_delta their_vv st = (pages, True)"
    using assms(1) pages by (simp add: entry_pages_def)
  then show ?thesis
    unfolding answer_head_def Let_def
    by (simp del: message_to_value.simps) (rule head_pages_refused, simp add: answer_position_def many)
qed

definition many_files :: set_index where
  "many_files = map (\<lambda>n. (replicate n CHR ''f'', file_at (replicate n CHR ''f'') [(''x'', 1)])) [1..<258]"

lemma many_delta: "leg_delta [] (bound_state\<lparr>ss_index := many_files\<rparr>) = map snd many_files"
proof -
  have "\<forall>p \<in> set many_files. \<not> covers [] (e_vv (snd p))"
    by (auto simp: many_files_def covers_def vv_get_def)
  then show ?thesis
    by (simp add: leg_delta_def not_covered_by_def index_entries_def filter_id_conv)
qed

lemma page_bytes_const: "page_bytes (\<lambda>_. c) xs = length xs * (c + 1)"
  by (induction xs) simp_all

lemma a_large_delta_is_never_heard_witness:
  "message_from_value (\<lambda>_. True)
    (snd (hd (answer_head (\<lambda>_. []) (\<lambda>_. 49151) node_a [] 1 node_b [] 1 [] True (bound_state\<lparr>ss_index := many_files\<rparr>)))) = None"
  by (rule a_large_delta_is_never_heard [OF bound_serving], unfold many_delta)
    (simp_all add: page_bytes_const PAGE_BUDGET_BYTES_def ROUND_PAGES_MAX_def many_files_def del: upt_Suc)

end
