(* ===== verification/CopyName.thy ===== *)
theory CopyName
  imports SetState
begin

text \<open>
  The name of a conflict copy (\<open>conflict_copy_name\<close>, \<open>sanitize_device_name\<close>, \<open>author_of\<close> and
  \<open>utc_stamp\<close> of \<open>sync/src/engine.rs\<close>): the calendar date from unix seconds, the device's name made
  fit for a file name, and the stem shortened until the gate accepts the whole.

  Strings are their UTF-8 bytes; \<open>utf8_chars\<close> cuts them into characters.
\<close>

section \<open>The calendar\<close>

definition civil_from_days :: "int \<Rightarrow> int \<times> int \<times> int" where
  "civil_from_days days =
     (let z = days + 719468;
          era = z div 146097;
          doe = z mod 146097;
          yoe = (doe - doe div 1460 + doe div 36524 - doe div 146096) div 365;
          y = yoe + era * 400;
          doy = doe - (365 * yoe + yoe div 4 - yoe div 100);
          mp = (5 * doy + 2) div 153;
          d = doy - (153 * mp + 2) div 5 + 1;
          m = (if mp < 10 then mp + 3 else mp - 9)
      in (if m \<le> 2 then y + 1 else y, m, d))"

definition padded :: "nat \<Rightarrow> int \<Rightarrow> string" where
  "padded width n =
     (let digits = show_nat (nat \<bar>n\<bar>); sign = (if n < 0 then ''-'' else [])
      in sign @ replicate (width - length sign - length digits) CHR ''0'' @ digits)"

definition utc_stamp :: "int \<Rightarrow> string" where
  "utc_stamp secs =
     (let rem = secs mod 86400
      in case civil_from_days (secs div 86400) of
           (y, m, d) \<Rightarrow>
             padded 4 y @ ''-'' @ padded 2 m @ ''-'' @ padded 2 d @ '' '' @
             padded 2 (rem div 3600) @ ''h'' @ padded 2 (rem mod 3600 div 60) @ '' UTC'')"

section \<open>The device\<close>

function utf8_chars :: "string \<Rightarrow> string list" where
  "utf8_chars [] = []"
| "utf8_chars (b # bs) = (b # takeWhile is_continuation bs) # utf8_chars (dropWhile is_continuation bs)"
  by pat_completeness auto
termination
  by (relation "measure length") (auto simp: le_imp_less_Suc length_dropWhile_le)

text \<open>The control characters: U+0000 to U+001F, U+007F, and U+0080 to U+009F, which take two bytes.\<close>

definition is_control :: "string \<Rightarrow> bool" where
  "is_control c =
     (case map byte_of c of
        [b] \<Rightarrow> b < 32 \<or> b = 127
      | [a, b] \<Rightarrow> a = 194 \<and> 128 \<le> b \<and> b < 160
      | _ \<Rightarrow> False)"

definition trim_end :: "(char \<Rightarrow> bool) \<Rightarrow> string \<Rightarrow> string" where
  "trim_end P s = rev (dropWhile P (rev s))"

definition sanitize_device_name :: "(string \<Rightarrow> string) \<Rightarrow> string \<Rightarrow> string" where
  "sanitize_device_name nfc name =
     (let cleaned = concat (filter (\<lambda>c. c \<noteq> ''/'' \<and> c \<noteq> [CHR 0x5C] \<and> c \<noteq> '':'' \<and> \<not> is_control c)
                             (utf8_chars (nfc name)));
          capped = concat (take 32 (utf8_chars (dropWhile (\<lambda>b. b = CHR ''.'') cleaned)))
      in trim_end (\<lambda>b. b = CHR '' '' \<or> b = CHR ''.'') capped)"

text \<open>The component with the greatest value, then the greatest key.\<close>

fun last_touch :: "vv \<Rightarrow> (string \<times> nat) option" where
  "last_touch [] = None"
| "last_touch ((k, n) # m) =
     (case last_touch m of
        None \<Rightarrow> Some (k, n)
      | Some (k', n') \<Rightarrow> if (n', k') < (n, k) then Some (k, n) else Some (k', n'))"

definition author_of :: "vv \<Rightarrow> string option" where
  "author_of vv = map_option (\<lambda>p. hd (split_on CHR ''@'' (fst p))) (last_touch vv)"

section \<open>The name\<close>

definition split_ext :: "string \<Rightarrow> string \<times> string" where
  "split_ext base =
     (let ext = takeWhile (\<lambda>c. c \<noteq> CHR ''.'') (rev base); i = length base - length ext - 1
      in if CHR ''.'' \<in> set base \<and> i > 0 then (take i base, drop i base) else (base, []))"

definition trim :: "string \<Rightarrow> string" where
  "trim s = (let blank = (\<lambda>c. c \<in> {CHR '' '', CHR 0x09, CHR 0x0A, CHR 0x0B, CHR 0x0C, CHR 0x0D})
             in trim_end blank (dropWhile blank s))"

function shorten :: "(string \<Rightarrow> bool) \<Rightarrow> string \<Rightarrow> string \<Rightarrow> string \<Rightarrow> string" where
  "shorten is_nfc stem tag ext =
     (if check_component is_nfc (stem @ tag @ ext) = Inr () then stem @ tag @ ext
      else if stem = [] then trim (''conflict'' @ tag)
      else shorten is_nfc (pop_char stem) tag ext)"
  by pat_completeness auto
termination
  by (relation "measure (\<lambda>(is_nfc, stem, tag, ext). length stem)") (auto intro: pop_char_length)

declare shorten.simps [simp del]

definition conflict_copy_name ::
  "(string \<Rightarrow> bool) \<Rightarrow> string \<Rightarrow> string \<Rightarrow> mtime \<Rightarrow> string option \<Rightarrow> string" where
  "conflict_copy_name is_nfc base device mtime discriminator =
     (let (stem, ext) = split_ext base;
          stamp = '' ('' @ device @ '', '' @ utc_stamp (m_secs mtime) @ '')'';
          tag = (case discriminator of None \<Rightarrow> stamp | Some d \<Rightarrow> stamp @ '' '' @ d)
      in shorten is_nfc stem tag ext)"

section \<open>The calendar is the Gregorian calendar\<close>

definition leap_year :: "int \<Rightarrow> bool" where
  "leap_year y \<longleftrightarrow> y mod 4 = 0 \<and> (y mod 100 \<noteq> 0 \<or> y mod 400 = 0)"

definition month_length :: "int \<Rightarrow> int \<Rightarrow> int" where
  "month_length y m =
     (if m = 2 then (if leap_year y then 29 else 28) else if m \<in> {4, 6, 9, 11} then 30 else 31)"

text \<open>Days from 1970-01-01 to a date, by adding up whole years and whole months.\<close>

definition month_start :: "int \<Rightarrow> int \<Rightarrow> int" where
  "month_start y m = (\<Sum>k\<leftarrow>[1..m - 1]. month_length y k)"

definition year_start :: "int \<Rightarrow> int" where
  "year_start y = 365 * (y - 1970) + ((y - 1) div 4 - (y - 1) div 100 + (y - 1) div 400) - 477"

definition days_from_civil :: "int \<Rightarrow> int \<Rightarrow> int \<Rightarrow> int" where
  "days_from_civil y m d = year_start y + month_start y m + (d - 1)"

lemma year_start_1970: "year_start 1970 = 0"
  by (simp add: year_start_def)

lemma div_step: "(y::int) div k - (y - 1) div k = (if y mod k = 0 then 1 else 0)" if "k > 1"
proof -
  have y: "y = k * (y div k) + y mod k" by simp
  show ?thesis
  proof (cases "y mod k = 0")
    case True
    with y have "k * (y div k) = y" by simp
    then have "y - 1 = k * (y div k - 1) + (k - 1)" by (simp add: right_diff_distrib)
    from int_div_pos_eq [OF this] have "(y - 1) div k = y div k - 1" using that by simp
    with True show ?thesis by simp
  next
    case False
    with that have "0 \<le> y mod k - 1" "y mod k - 1 < k"
      using pos_mod_sign [of k y] pos_mod_bound [of k y] by linarith+
    moreover from y have "y - 1 = k * (y div k) + (y mod k - 1)" by simp
    ultimately have "(y - 1) div k = y div k" by (intro int_div_pos_eq) auto
    with False show ?thesis by simp
  qed
qed

definition leaps :: "int \<Rightarrow> int" where
  "leaps y = y div 4 - y div 100 + y div 400"

lemma leaps_step: "leaps y - leaps (y - 1) = (if leap_year y then 1 else 0)"
proof -
  have "y mod 100 = 0 \<Longrightarrow> y mod 4 = 0" "y mod 400 = 0 \<Longrightarrow> y mod 100 = 0"
    using dvd_trans [of 4 100 y] dvd_trans [of 100 400 y] by (simp_all add: mod_eq_0_iff_dvd)
  then have "(if leap_year y then 1 else 0) =
      (if y mod 4 = 0 then 1 else 0) - (if y mod 100 = 0 then 1 else 0) + (if y mod 400 = 0 then 1 else (0::int))"
    unfolding leap_year_def by (cases "y mod 4 = 0"; cases "y mod 100 = 0"; cases "y mod 400 = 0") simp_all
  moreover have "leaps y - leaps (y - 1) =
      (y div 4 - (y - 1) div 4) - (y div 100 - (y - 1) div 100) + (y div 400 - (y - 1) div 400)"
    by (simp only: leaps_def diff_diff_eq2 diff_conv_add_uminus minus_add_distrib minus_minus ac_simps)
  moreover have "(1::int) < 4" "(1::int) < 100" "(1::int) < 400" by simp_all
  note div_step [OF this(1), of y] div_step [OF this(2), of y] div_step [OF this(3), of y]
  ultimately show ?thesis by (simp only:)
qed

definition march_first :: "int \<Rightarrow> int" where
  "march_first y = 365 * y + leaps y"

definition year_number :: "int \<Rightarrow> int" where
  "year_number doe = (doe - doe div 1460 + doe div 36524 - doe div 146096) div 365"

lemma year_number_mono:
  assumes "0 \<le> a" "a \<le> b" "b \<le> 146096"
  shows "year_number a \<le> year_number b"
proof -
  have "b div 1460 \<le> (a + 1460 * (b - a)) div 1460" using assms by (intro zdiv_mono1) auto
  then have "b div 1460 \<le> a div 1460 + (b - a)" by simp
  moreover have "a div 36524 \<le> b div 36524" using assms by (intro zdiv_mono1) auto
  moreover have "a div 36524 \<le> 3" if "a < 146096" using that zdiv_mono1 [of a 146095 36524] by simp
  moreover have "b div 146096 = (if b = 146096 then 1 else 0)" "a div 146096 = (if a = 146096 then 1 else 0)"
    using assms by (auto simp: div_pos_pos_trivial)
  ultimately have "a - a div 1460 + a div 36524 - a div 146096 \<le> b - b div 1460 + b div 36524 - b div 146096"
    using assms by (cases "b = 146096"; cases "a = 146096") auto
  then show ?thesis unfolding year_number_def by (intro zdiv_mono1) auto
qed

lemma year_bounds_checked:
  "list_all (\<lambda>y. year_number (march_first y) = y \<and> year_number (march_first (y + 1) - 1) = y) [0..399]"
  by code_simp

lemma march_first_mono: "march_first y < march_first (y + 1)"
  using leaps_step [of "y + 1"] by (simp add: march_first_def split: if_splits)

lemma year_found:
  "0 \<le> doe \<Longrightarrow> doe < march_first (int n) \<Longrightarrow>
   \<exists>y. 0 \<le> y \<and> y < int n \<and> march_first y \<le> doe \<and> doe < march_first (y + 1)"
proof (induction n)
  case 0
  then show ?case by (simp add: march_first_def leaps_def)
next
  case (Suc n)
  show ?case
  proof (cases "doe < march_first (int n)")
    case True
    with Suc show ?thesis by fastforce
  next
    case False
    with Suc.prems show ?thesis by (intro exI [of _ "int n"]) (simp add: add.commute)
  qed
qed

lemma year_number_spec:
  assumes "0 \<le> doe" "doe < 146097"
  shows "0 \<le> year_number doe \<and> year_number doe \<le> 399 \<and>
    march_first (year_number doe) \<le> doe \<and> doe < march_first (year_number doe + 1)"
proof -
  have "march_first (int 400) = 146097" by (simp add: march_first_def leaps_def)
  with assms obtain y where y: "0 \<le> y" "y < 400" "march_first y \<le> doe" "doe < march_first (y + 1)"
    using year_found [of doe 400] by auto
  then have c: "year_number (march_first y) = y" "year_number (march_first (y + 1) - 1) = y"
    using year_bounds_checked by (auto simp: list_all_iff)
  have "0 \<le> march_first y" using y by (simp add: march_first_def leaps_def)
  then have "y \<le> year_number doe" using year_number_mono [of "march_first y" doe] y assms c by simp
  moreover have "march_first (y + 1) \<le> 146097"
  proof -
    have "leaps (y + 1) \<le> leaps 400" using y by (simp add: leaps_def)
    then show ?thesis using y by (simp add: march_first_def leaps_def)
  qed
  then have "year_number doe \<le> y" using year_number_mono [of doe "march_first (y + 1) - 1"] y assms c by simp
  ultimately have "year_number doe = y" by (rule order_antisym [rotated])
  then show ?thesis using y by simp
qed

text \<open>The date of a day of the year that begins in March.\<close>

definition march_date :: "int \<Rightarrow> int \<times> int" where
  "march_date doy =
     (let mp = (5 * doy + 2) div 153
      in (if mp < 10 then mp + 3 else mp - 9, doy - (153 * mp + 2) div 5 + 1))"

definition plain_length :: "int \<Rightarrow> int" where
  "plain_length m = (if m = 2 then 28 else if m \<in> {4, 6, 9, 11} then 30 else 31)"

definition plain_start :: "int \<Rightarrow> int" where
  "plain_start m = (\<Sum>k\<leftarrow>[1..m - 1]. plain_length k)"

lemma march_dates_checked:
  "list_all (\<lambda>doy. case march_date doy of (m, d) \<Rightarrow>
     1 \<le> m \<and> m \<le> 12 \<and> 1 \<le> d \<and> d \<le> plain_length m + (if m = 2 \<and> doy = 365 then 1 else 0) \<and>
     (if m \<le> 2 then 306 else -59) + plain_start m + d - 1 = doy) [0..365]"
  by code_simp

lemma march_date_spec:
  assumes "march_date doy = (m, d)" and "0 \<le> doy" and "doy \<le> 365"
  shows "1 \<le> m" "m \<le> 12" "1 \<le> d" "d \<le> plain_length m + (if m = 2 \<and> doy = 365 then 1 else 0)"
    "(if m \<le> 2 then 306 else -59) + plain_start m + d - 1 = doy"
proof -
  have "doy \<in> set [0..365]" using assms by simp
  note bspec [OF march_dates_checked [unfolded list_all_iff] this]
  then show "1 \<le> m" "m \<le> 12" "1 \<le> d" "d \<le> plain_length m + (if m = 2 \<and> doy = 365 then 1 else 0)"
    "(if m \<le> 2 then 306 else -59) + plain_start m + d - 1 = doy"
    by (simp_all only: assms(1) prod.case)
qed

lemma month_start_plain: "month_start y m = plain_start m + (if m > 2 \<and> leap_year y then 1 else 0)"
proof -
  have eq: "month_length y k = plain_length k + (if k = 2 then if leap_year y then 1 else 0 else 0)" for k
    by (simp add: month_length_def plain_length_def)
  have sums: "(\<Sum>k\<leftarrow>ks. plain_length k + (if k = 2 then c else 0)) =
      (\<Sum>k\<leftarrow>ks. plain_length k) + (\<Sum>k\<leftarrow>ks. if k = 2 then c else 0)" for ks and c :: int
    by (induction ks) simp_all
  have two: "(\<Sum>k\<leftarrow>ks. if k = 2 then c else 0) = (if 2 \<in> set ks then c else 0)" if "distinct ks"
    for ks :: "int list" and c :: int
    using that by (induction ks) auto
  have "distinct [1..m - 1]" by simp
  note two [OF this]
  then show ?thesis by (simp add: month_start_def plain_start_def eq sums)
qed

lemma year_start_leaps: "year_start y = march_first y - 365 * 1970 - 477 - (if leap_year y then 1 else 0)"
  using leaps_step [of y] by (simp add: year_start_def march_first_def leaps_def)

lemma march_first_era: "march_first (y + era * 400) = march_first y + era * 146097"
proof -
  have "(y + era * 400) div 4 = y div 4 + era * 100" "(y + era * 400) div 100 = y div 100 + era * 4"
    using div_mult_self1 [of 4 y "era * 100"] div_mult_self1 [of 100 y "era * 4"] by simp_all
  then show ?thesis by (simp add: march_first_def leaps_def)
qed

lemma leap_year_era: "leap_year (y + era * 400) = leap_year y"
  using mod_mult_self1 [of y "era * 100" 4] mod_mult_self1 [of y "era * 4" 100] mod_mult_self1 [of y era 400]
  by (simp add: leap_year_def mult.commute)

text \<open>
  The date on a conflict copy is the Gregorian date: for every number of days since 1970-01-01,
  negative ones included, the year, month and day \<open>civil_from_days\<close> gives form an existing date, and
  counting whole years and months up to that date gives the days back.
\<close>

theorem civil_is_gregorian:
  "case civil_from_days days of (y, m, d) \<Rightarrow>
     1 \<le> m \<and> m \<le> 12 \<and> 1 \<le> d \<and> d \<le> month_length y m \<and> days_from_civil y m d = days"
proof -
  define z where "z = days + 719468"
  define era doe where "era = z div 146097" and "doe = z mod 146097"
  define yoe where "yoe = year_number doe"
  define doy where "doy = doe - march_first yoe"
  have z: "z = era * 146097 + doe" by (simp add: era_def doe_def)
  then have days: "days = era * 146097 + doe - 719468" by (simp add: z_def)
  have "0 \<le> doe" "doe < 146097" by (simp_all add: doe_def)
  note Y = year_number_spec [OF this, folded yoe_def]
  then have first: "march_first yoe = 365 * yoe + yoe div 4 - yoe div 100" by (simp add: march_first_def leaps_def)
  have step: "march_first (yoe + 1) = march_first yoe + 365 + (if leap_year (yoe + 1) then 1 else 0)"
    using leaps_step [of "yoe + 1"] by (simp add: march_first_def)
  have doy: "0 \<le> doy" "doy < 365 + (if leap_year (yoe + 1) then 1 else 0)" using Y step by (simp_all add: doy_def)
  obtain m d where md: "march_date doy = (m, d)" by fastforce
  have "doy \<le> 365" using doy(2) by (simp split: if_splits)
  note c = march_date_spec [OF md doy(1) this]
  define y where "y = (if m \<le> 2 then yoe + 1 else yoe) + era * 400"
  have eqs: "(days + 719468) div 146097 = era" "(days + 719468) mod 146097 = doe"
    by (simp_all only: era_def doe_def z_def)
  have yoe: "(doe - doe div 1460 + doe div 36524 - doe div 146096) div 365 = yoe"
    by (simp only: yoe_def year_number_def)
  have doy_eq: "doe - (365 * yoe + yoe div 4 - yoe div 100) = doy" by (simp only: doy_def first)
  have "(if (5 * doy + 2) div 153 < 10 then (5 * doy + 2) div 153 + 3 else (5 * doy + 2) div 153 - 9) = m"
    "doy - (153 * ((5 * doy + 2) div 153) + 2) div 5 + 1 = d"
    using md by (simp_all only: march_date_def Let_def prod.inject)
  then have "civil_from_days days = (y, m, d)"
    by (simp only: civil_from_days_def Let_def eqs yoe doy_eq y_def) (cases "m \<le> 2"; simp)
  moreover have leap: "leap_year (yoe + 1) = leap_year (yoe + 1 + era * 400)" by (rule leap_year_era [symmetric])
  then have "d \<le> month_length y m" using c(4) doy by (auto simp: month_length_def plain_length_def y_def split: if_splits)
  moreover have "days_from_civil y m d = days"
  proof (cases "m \<le> 2")
    case True
    then have "march_first y = march_first yoe + 365 + (if leap_year y then 1 else 0) + era * 146097"
      using step leap by (simp add: y_def march_first_era)
    with True c(5) show ?thesis
      using days doy_def unfolding days_from_civil_def year_start_leaps month_start_plain by simp
  next
    case False
    then have "march_first y = march_first yoe + era * 146097" by (simp add: y_def march_first_era)
    with False c(5) show ?thesis
      using days doy_def unfolding days_from_civil_def year_start_leaps month_start_plain by simp
  qed
  ultimately show ?thesis using c by simp
qed

end
