(* ===== verification/Conflicts.thy ===== *)
theory Conflicts
  imports Samples CopyName
begin

text \<open>
  Keeping both versions of a file changed in two places (\<open>materialize_conflict\<close>, \<open>version_id\<close> and
  \<open>conflict_id_of\<close> of \<open>sync/src/engine.rs\<close>): the version with the lower id takes the plain path, the
  other is put beside it under a name every device computes alike, and a signed record says so.

  The digest (BLAKE3), normalization, the device names of the directory and the outcomes of the
  filesystem calls are the record \<open>conflict_env\<close>; the outcomes are read off an arbitrary one.
\<close>

record conflict_env =
  cx_digest :: "string \<Rightarrow> string"
  cx_is_nfc :: "string \<Rightarrow> bool"
  cx_nfc :: "string \<Rightarrow> string"
  cx_names :: "(string, string) btree"
  cx_staged_hash :: "string option"
  cx_aside_ok :: bool
  cx_install :: "(mtime \<times> nat) option"

text \<open>\<open>None\<close> is the panic of \<open>expect\<close>.\<close>

definition version_id :: "deps \<Rightarrow> conflict_env \<Rightarrow> entry \<Rightarrow> string option" where
  "version_id dp cx e =
     (case to_canonical_json (str_json dp) (vv_to_value (e_vv e)) of
        Inl err \<Rightarrow> None
      | Inr canonical \<Rightarrow> Some (cx_digest cx (canonical @ ''|'' @ e_hash e)))"

definition conflict_id_of :: "conflict_env \<Rightarrow> string \<Rightarrow> string \<Rightarrow> string" where
  "conflict_id_of cx a b = (if a \<le> b then cx_digest cx (a @ b) else cx_digest cx (b @ a))"

definition copy_device :: "conflict_env \<Rightarrow> string \<Rightarrow> entry \<Rightarrow> string" where
  "copy_device cx self_node loser =
     (let author = (case author_of (e_vv loser) of None \<Rightarrow> self_node | Some a \<Rightarrow> a);
          device = (case map_of (cx_names cx) author of
                      None \<Rightarrow> [] | Some n \<Rightarrow> sanitize_device_name (cx_nfc cx) n)
      in if device = [] then concat (take 8 (utf8_chars author)) else device)"

text \<open>The copy's path when the plain candidate is free or taken.\<close>

definition copy_path :: "conflict_env \<Rightarrow> string \<Rightarrow> string \<Rightarrow> entry \<Rightarrow> string option \<Rightarrow> string" where
  "copy_path cx self_node set_path loser discriminator =
     (let base = basename set_path; dir_prefix = take (length set_path - length base) set_path
      in dir_prefix @ conflict_copy_name (cx_is_nfc cx) base (copy_device cx self_node loser) (e_mtime loser) discriminator)"

definition loser_path :: "conflict_env \<Rightarrow> string \<Rightarrow> string \<Rightarrow> entry \<Rightarrow> string \<Rightarrow> set_index \<Rightarrow> string option" where
  "loser_path cx self_node set_path loser loser_vid index =
     (let plain = copy_path cx self_node set_path loser None;
          taken = (case index_get index plain of None \<Rightarrow> False | Some e \<Rightarrow> \<not> e_deleted e \<and> e_hash e \<noteq> e_hash loser);
          candidate = (if taken then copy_path cx self_node set_path loser (Some (take 8 loser_vid)) else plain)
      in if check_wire_path (cx_is_nfc cx) candidate = Inr () then Some candidate else None)"

definition occupied_same :: "set_index \<Rightarrow> string \<Rightarrow> entry \<Rightarrow> bool" where
  "occupied_same index path loser =
     (case index_get index path of None \<Rightarrow> False | Some e \<Rightarrow> \<not> e_deleted e \<and> e_hash e = e_hash loser)"

text \<open>The copy's own entry: a new path, a vector of our own.\<close>

definition file_copy :: "string \<Rightarrow> string \<Rightarrow> nat \<Rightarrow> mtime \<Rightarrow> entry \<Rightarrow> set_state \<Rightarrow> set_state" where
  "file_copy self path len mtime e st =
     (case bump self [] st of
        (vv, st) \<Rightarrow>
          upsert \<lparr>e_path = path, e_kind = EFile, e_size = len, e_mtime = mtime, e_exec = e_exec e,
                  e_hash = e_hash e, e_vv = vv, e_deleted = False\<rparr> st)"

definition local_stays ::
  "conflict_env \<Rightarrow> string \<Rightarrow> string \<Rightarrow> entry \<Rightarrow> entry \<Rightarrow> set_state \<Rightarrow> set_state option" where
  "local_stays cx self copy ours incoming st =
     (let placed = (if occupied_same (ss_index st) copy incoming then Some st
                    else (case cx_install cx of
                            None \<Rightarrow> None
                          | Some (mtime, len) \<Rightarrow> Some (file_copy self copy len mtime incoming st)))
      in case placed of
           None \<Rightarrow> None
         | Some st \<Rightarrow>
             (case bump self (merge_max (e_vv ours) (e_vv incoming)) st of
                (vv, st) \<Rightarrow> Some (upsert (ours\<lparr>e_vv := vv\<rparr>) st)))"

definition local_moves_aside ::
  "conflict_env \<Rightarrow> string \<Rightarrow> string \<Rightarrow> string \<Rightarrow> entry \<Rightarrow> entry \<Rightarrow> set_state \<Rightarrow> bool \<times> set_state" where
  "local_moves_aside cx self set_path copy ours incoming st =
     (if \<not> occupied_same (ss_index st) copy ours \<and> \<not> cx_aside_ok cx then (False, st)
      else
        let st = (if occupied_same (ss_index st) copy ours then st
                  else file_copy self copy (e_size ours) (e_mtime ours) ours st)
        in case cx_install cx of
             None \<Rightarrow> (False, st)
           | Some (mtime, len) \<Rightarrow>
               (case bump self (merge_max (merge_max (e_vv incoming) (e_vv incoming)) (e_vv ours)) st of
                  (vv, st) \<Rightarrow>
                    (True, upsert \<lparr>e_path = set_path, e_kind = EFile, e_size = len, e_mtime = mtime,
                                   e_exec = e_exec incoming, e_hash = e_hash incoming, e_vv = vv,
                                   e_deleted = False\<rparr> st)))"

definition record_conflict ::
  "deps \<Rightarrow> identity \<Rightarrow> string \<Rightarrow> string \<Rightarrow> string \<Rightarrow> string \<Rightarrow> set_state \<Rightarrow> set_state" where
  "record_conflict dp idn self_node set_path conflict_id copy st =
     (case conflict_sign dp idn (sd_set_id (sm_descriptor (ss_membership st))) set_path conflict_id copy None self_node of
        None \<Rightarrow> st
      | Some r \<Rightarrow> absorb_conflict dp r st)"

definition keep_both ::
  "deps \<Rightarrow> conflict_env \<Rightarrow> fs_env \<Rightarrow> identity \<Rightarrow> string \<Rightarrow> string \<Rightarrow> string \<Rightarrow> entry \<Rightarrow> entry \<Rightarrow> string \<Rightarrow> string \<Rightarrow>
   set_state \<Rightarrow> bool \<times> set_state" where
  "keep_both dp cx fx idn self_node self set_path ours incoming lvid rvid st =
     (let local_wins = lvid < rvid; loser = (if local_wins then incoming else ours)
      in case loser_path cx self_node set_path loser (if local_wins then rvid else lvid) (ss_index st) of
           None \<Rightarrow> (False, st)
         | Some copy \<Rightarrow>
             if \<not> fs_path fx set_path st \<or> \<not> fs_path fx copy st then (False, st)
             else
               (case (if local_wins
                      then (case local_stays cx self copy ours incoming st of None \<Rightarrow> (False, st) | Some st \<Rightarrow> (True, st))
                      else local_moves_aside cx self set_path copy ours incoming st) of
                  (False, st) \<Rightarrow> (False, st)
                | (True, st) \<Rightarrow>
                    (True, record_conflict dp idn self_node set_path (conflict_id_of cx lvid rvid) copy
                             (settle_pending set_path (e_vv incoming) st))))"

definition materialize_conflict ::
  "deps \<Rightarrow> conflict_env \<Rightarrow> fs_env \<Rightarrow> identity \<Rightarrow> string \<Rightarrow> string \<Rightarrow> string \<Rightarrow> set_state \<Rightarrow> bool \<times> set_state" where
  "materialize_conflict dp cx fx idn self_node self set_path st =
     (if ss_root st = None then (False, st)
      else
        case (index_get (ss_index st) set_path, pulled_version (versions_at st set_path)) of
          (Some ours, Some incoming) \<Rightarrow>
            if cx_staged_hash cx \<noteq> Some (e_hash incoming) then (False, st)
            else
              (case (version_id dp cx ours, version_id dp cx incoming) of
                 (Some lvid, Some rvid) \<Rightarrow>
                   keep_both dp cx fx idn self_node self set_path ours incoming lvid rvid st
               | _ \<Rightarrow> (False, st))
        | _ \<Rightarrow> (False, st))"

section \<open>What the steps do\<close>

lemma bump_grows:
  assumes "bump self v st = (v', st')" and "bt_ok v" and "vv_get v self \<le> c_current (ss_clock st)"
  shows "vv_le v v'" "c_current (ss_clock st) \<le> c_current (ss_clock st')"
proof -
  obtain r c d where t: "tick (ss_clock st) (ss_lease st) = (r, c, d)" by (cases "tick (ss_clock st) (ss_lease st)")
  from assms(1) t have "v' = (case r of Inl e \<Rightarrow> v | Inr n \<Rightarrow> vv_set self n v)" "ss_clock st' = c"
    by (auto simp: bump_def split: sum.splits)
  with tick_current [OF t] assms(2,3) show "vv_le v v'" "c_current (ss_clock st) \<le> c_current (ss_clock st')"
    by (auto simp: vv_le_def vv_set_def split: sum.splits)
qed

lemma file_copy_spec:
  "index_get (ss_index (file_copy self c len mtime e st)) c =
     Some \<lparr>e_path = c, e_kind = EFile, e_size = len, e_mtime = mtime, e_exec = e_exec e, e_hash = e_hash e,
           e_vv = fst (bump self [] st), e_deleted = False\<rparr>"
  "q \<noteq> c \<Longrightarrow> index_get (ss_index (file_copy self c len mtime e st)) q = index_get (ss_index st) q"
  "ss_pending (file_copy self c len mtime e st) = ss_pending st"
  "c_current (ss_clock st) \<le> c_current (ss_clock (file_copy self c len mtime e st))"
  using bump_frame [of self "[]" st] bump_grows(2) [of self "[]" st]
  by (auto simp: file_copy_def upsert_def vv_get_def split: prod.splits)

text \<open>A live file with a content at a path.\<close>

definition content_at :: "set_state \<Rightarrow> string \<Rightarrow> string option" where
  "content_at st p =
     (case index_get (ss_index st) p of None \<Rightarrow> None | Some e \<Rightarrow> if e_deleted e then None else Some (e_hash e))"

lemma content_same: "ss_index st' = ss_index st \<Longrightarrow> content_at st' p = content_at st p"
  by (simp add: content_at_def)

lemma content_occupied: "occupied_same (ss_index st) c e \<longleftrightarrow> content_at st c = Some (e_hash e)"
  by (auto simp: occupied_same_def content_at_def split: option.splits)

lemma content_upsert [simp]:
  "content_at (upsert e st) p = (if p = e_path e then if e_deleted e then None else Some (e_hash e) else content_at st p)"
  by (simp add: content_at_def)

lemma content_copy [simp]:
  "content_at (file_copy self c len mtime e st) p = (if p = c then Some (e_hash e) else content_at st p)"
  by (simp add: content_at_def file_copy_spec)

text \<open>
  What a successful keep-both leaves: both contents, the plain path above both histories, and nothing
  waiting at the plain path that the pulled version covers.
\<close>

definition both_kept :: "string \<Rightarrow> string \<Rightarrow> entry \<Rightarrow> entry \<Rightarrow> bool \<Rightarrow> set_state \<Rightarrow> bool" where
  "both_kept p c ours incoming local_wins st \<longleftrightarrow>
     content_at st p = Some (e_hash (if local_wins then ours else incoming)) \<and>
     content_at st c = Some (e_hash (if local_wins then incoming else ours)) \<and>
     (\<exists>e. index_get (ss_index st) p = Some e \<and> vv_le (e_vv ours) (e_vv e) \<and> vv_le (e_vv incoming) (e_vv e))"

lemma both_kept_index: "ss_index st' = ss_index st \<Longrightarrow> both_kept p c a b w st' = both_kept p c a b w st"
  by (simp add: both_kept_def content_at_def)

text \<open>A live entry of ours beside a pending version of the same path.\<close>

definition meets :: "string \<Rightarrow> set_state \<Rightarrow> string \<Rightarrow> entry \<Rightarrow> entry \<Rightarrow> bool" where
  "meets self st p ours incoming \<longleftrightarrow>
     state_ok self st \<and> index_get (ss_index st) p = Some ours \<and> \<not> e_deleted ours \<and>
     incoming \<in> set (versions_at st p)"

lemma meetsD:
  assumes "meets self st p ours incoming"
  shows "state_ok self st" "index_get (ss_index st) p = Some ours" "\<not> e_deleted ours" "incoming \<in> set (versions_at st p)"
    "e_path ours = p"
  using assms index_ours [of self st p ours] by (simp_all add: meets_def)

lemma merged_vector:
  assumes meets: "meets self st p ours incoming" and "bump self v st1 = (v', st')" and "v = merge_max (e_vv ours) (e_vv incoming) \<or>
      v = merge_max (merge_max (e_vv incoming) (e_vv incoming)) (e_vv ours)"
    and "c_current (ss_clock st) \<le> c_current (ss_clock st1)"
  shows "vv_le (e_vv ours) v'" "vv_le (e_vv incoming) v'"
proof -
  note m = meetsD [OF meets]
  note o = index_ours [OF m(1,2)] and t = pending_theirs [OF m(1,4)]
  have v: "bt_ok v" "vv_get v self \<le> c_current (ss_clock st1)" "vv_le (e_vv ours) v" "vv_le (e_vv incoming) v"
    using assms(3,4) o t by (auto simp: vv_get_merge_max vv_le_def)
  from bump_grows [OF assms(2) v(1,2)] v(3,4) show "vv_le (e_vv ours) v'" "vv_le (e_vv incoming) v'"
    using vv_le_trans by blast+
qed

lemma local_stays_spec:
  assumes meets: "meets self st p ours incoming" and run: "local_stays cx self c ours incoming st = Some st'" and c: "c \<noteq> p"
  shows "both_kept p c ours incoming True st'" "ss_pending st' = ss_pending st"
proof -
  let ?placed = "if occupied_same (ss_index st) c incoming then Some st
    else (case cx_install cx of None \<Rightarrow> None | Some (mtime, len) \<Rightarrow> Some (file_copy self c len mtime incoming st))"
  obtain st1 where placed: "?placed = Some st1" using run by (cases ?placed) (simp_all add: local_stays_def)
  obtain v st2 where b: "bump self (merge_max (e_vv ours) (e_vv incoming)) st1 = (v, st2)" by fastforce
  have st': "st' = upsert (ours\<lparr>e_vv := v\<rparr>) st2"
    using run unfolding local_stays_def Let_def placed by (simp add: b)
  have st1: "st1 = st \<and> content_at st c = Some (e_hash incoming) \<or> (\<exists>m n. st1 = file_copy self c n m incoming st)"
    using placed by (auto simp: content_occupied split: if_splits option.splits)
  have "c_current (ss_clock st) \<le> c_current (ss_clock st1)" using st1 file_copy_spec(4) by auto
  note V = merged_vector [OF meets b _ this]
  have held: "content_at st1 c = Some (e_hash incoming)" "ss_pending st1 = ss_pending st" using st1 file_copy_spec(3) by auto
  note f = bump_frame [OF b]
  have "content_at st2 c = Some (e_hash incoming)" using f held content_same [of st2 st1] by simp
  then show "both_kept p c ours incoming True st'" using V meetsD(3,5) [OF meets] \<open>c \<noteq> p\<close> by (simp add: both_kept_def st')
  show "ss_pending st' = ss_pending st" using f held by (simp add: st' upsert_def)
qed

lemma moves_aside_spec:
  assumes meets: "meets self st p ours incoming" and run: "local_moves_aside cx self p c ours incoming st = (True, st')"
    and c: "c \<noteq> p"
  shows "both_kept p c ours incoming False st'" "ss_pending st' = ss_pending st"
proof -
  let ?same = "occupied_same (ss_index st) c ours"
  define st1 where "st1 = (if ?same then st else file_copy self c (e_size ours) (e_mtime ours) ours st)"
  obtain m n where i: "cx_install cx = Some (m, n)"
    using run by (cases "cx_install cx") (auto simp: local_moves_aside_def Let_def split: if_splits)
  obtain v st2 where b: "bump self (merge_max (merge_max (e_vv incoming) (e_vv incoming)) (e_vv ours)) st1 = (v, st2)"
    by fastforce
  have st': "st' = upsert \<lparr>e_path = p, e_kind = EFile, e_size = n, e_mtime = m, e_exec = e_exec incoming,
      e_hash = e_hash incoming, e_vv = v, e_deleted = False\<rparr> st2"
    using run unfolding local_moves_aside_def Let_def st1_def [symmetric] by (simp add: i b split: if_splits)
  have st1: "st1 = st \<and> content_at st c = Some (e_hash ours) \<or> st1 = file_copy self c (e_size ours) (e_mtime ours) ours st"
    by (simp add: st1_def content_occupied)
  have "c_current (ss_clock st) \<le> c_current (ss_clock st1)" using st1 file_copy_spec(4) by auto
  note V = merged_vector [OF meets b _ this]
  have held: "content_at st1 c = Some (e_hash ours)" "ss_pending st1 = ss_pending st" using st1 file_copy_spec(3) by auto
  note f = bump_frame [OF b]
  have "content_at st2 c = Some (e_hash ours)" using f held content_same [of st2 st1] by simp
  then show "both_kept p c ours incoming False st'" using V c by (simp add: both_kept_def st')
  show "ss_pending st' = ss_pending st" using f held by (simp add: st' upsert_def)
qed

lemma record_conflict_frame [simp]:
  "ss_index (record_conflict dp idn n p k c st) = ss_index st"
  "ss_pending (record_conflict dp idn n p k c st) = ss_pending st"
  by (auto simp: record_conflict_def absorb_conflict_def Let_def split: option.splits)

lemma pulled_in: "pulled_version vs = Some e \<Longrightarrow> e \<in> set vs"
  by (auto simp: pulled_version_def find_Some_iff) (metis nth_mem set_rev length_rev)

text \<open>The copy's path: the name of the version that loses, by the ids.\<close>

definition copy_of :: "conflict_env \<Rightarrow> string \<Rightarrow> string \<Rightarrow> entry \<Rightarrow> entry \<Rightarrow> string \<Rightarrow> string \<Rightarrow> set_state \<Rightarrow> string option" where
  "copy_of cx self_node p ours incoming lvid rvid st =
     loser_path cx self_node p (if lvid < rvid then incoming else ours) (if lvid < rvid then rvid else lvid) (ss_index st)"

lemma keep_both_named:
  assumes "keep_both dp cx fx idn self_node self p ours incoming lvid rvid st = (True, st')"
  shows "\<exists>c. copy_of cx self_node p ours incoming lvid rvid st = Some c"
  using assms by (auto simp: keep_both_def copy_of_def Let_def split: option.splits)

lemma keep_both_spec:
  assumes meets: "meets self st p ours incoming"
    and run: "keep_both dp cx fx idn self_node self p ours incoming lvid rvid st = (True, st')"
    and c: "copy_of cx self_node p ours incoming lvid rvid st = Some c" and ne: "c \<noteq> p"
  shows "both_kept p c ours incoming (lvid < rvid) st' \<and> versions_at st' p = drop_covered (e_vv incoming) (versions_at st p)"
proof -
  define out where "out = (if lvid < rvid
    then (case local_stays cx self c ours incoming st of None \<Rightarrow> (False, st) | Some st \<Rightarrow> (True, st))
    else local_moves_aside cx self p c ours incoming st)"
  obtain st1 where st1: "out = (True, st1)"
    and st': "st' = record_conflict dp idn self_node p (conflict_id_of cx lvid rvid) c (settle_pending p (e_vv incoming) st1)"
    using run unfolding keep_both_def Let_def c [unfolded copy_of_def] option.case out_def [symmetric]
    by (auto split: if_splits prod.splits bool.splits)
  have "both_kept p c ours incoming (lvid < rvid) st1 \<and> ss_pending st1 = ss_pending st"
  proof (cases "lvid < rvid")
    case True
    with st1 show ?thesis using local_stays_spec [OF meets _ ne, of cx st1] by (auto simp: out_def split: option.splits)
  next
    case False
    with st1 show ?thesis using moves_aside_spec [OF meets _ ne, of cx st1] by (auto simp: out_def)
  qed
  then have "both_kept p c ours incoming (lvid < rvid) st'"
    "versions_at st' p = drop_covered (e_vv incoming) (versions_at st p)"
    using both_kept_index [of st' st1] settle_versions [of p "e_vv incoming" st1] by (simp_all add: st' versions_at_def)
  then show ?thesis by blast
qed

lemma materialize_unfold:
  assumes run: "materialize_conflict dp cx fx idn self_node self p st = (True, st')"
  shows "\<exists>ours incoming lvid rvid. index_get (ss_index st) p = Some ours \<and>
    pulled_version (versions_at st p) = Some incoming \<and>
    version_id dp cx ours = Some lvid \<and> version_id dp cx incoming = Some rvid \<and>
    keep_both dp cx fx idn self_node self p ours incoming lvid rvid st = (True, st')"
  using run by (auto simp: materialize_conflict_def split: if_splits option.splits)

text \<open>
  A directory of ours that loses to a file of the same path is moved aside like a file: the entry made
  for it is a file's, with the directory's empty digest, and what is below it keeps its old paths.
\<close>

lemma a_directory_moves_aside_as_a_file:
  assumes run: "local_moves_aside cx self p c ours incoming st = (True, st')" and "e_kind ours = EDir"
    and "c \<noteq> p" and "content_at st c \<noteq> Some (e_hash ours)"
  shows "\<exists>e. index_get (ss_index st') c = Some e \<and> e_kind e = EFile \<and> e_hash e = e_hash ours"
proof -
  let ?st = "file_copy self c (e_size ours) (e_mtime ours) ours st"
  obtain m n where i: "cx_install cx = Some (m, n)"
    using run by (cases "cx_install cx") (auto simp: local_moves_aside_def Let_def split: if_splits)
  obtain v st2 where b: "bump self (merge_max (merge_max (e_vv incoming) (e_vv incoming)) (e_vv ours)) ?st = (v, st2)"
    by fastforce
  have "st' = upsert \<lparr>e_path = p, e_kind = EFile, e_size = n, e_mtime = m, e_exec = e_exec incoming,
      e_hash = e_hash incoming, e_vv = v, e_deleted = False\<rparr> st2"
    using run assms(4) by (simp add: local_moves_aside_def Let_def i b content_occupied split: if_splits)
  then show ?thesis using bump_frame [OF b] assms(3) by (simp add: file_copy_spec(1))
qed

text \<open>
  A copy named like its own path is lost: when our version loses and the name computed for its copy
  is the plain path itself, the occupant of that name is our own content, so the file is removed as
  already copied and the pulled version takes its place; no path gets our content. A name of 200
  bytes that already ends in the tag of the same device and minute is such a name
  (\<open>a_full_name_is_its_own_copy\<close>).
\<close>

lemma a_copy_named_like_its_path_is_lost:
  assumes meets: "meets self st p ours incoming"
    and run: "keep_both dp cx fx idn self_node self p ours incoming lvid rvid st = (True, st')"
    and c: "copy_of cx self_node p ours incoming lvid rvid st = Some p" and loses: "\<not> lvid < rvid"
  shows "content_at st' q = (if q = p then Some (e_hash incoming) else content_at st q)"
proof -
  have same: "occupied_same (ss_index st) p ours" using meetsD [OF meets] by (simp add: occupied_same_def)
  obtain m n where i: "cx_install cx = Some (m, n)"
    using run c [unfolded copy_of_def] loses
    by (cases "cx_install cx") (auto simp: keep_both_def local_moves_aside_def Let_def same split: if_splits)
  obtain v st2 where b: "bump self (merge_max (merge_max (e_vv incoming) (e_vv incoming)) (e_vv ours)) st = (v, st2)"
    by fastforce
  define e where "e = \<lparr>e_path = p, e_kind = EFile, e_size = n, e_mtime = m, e_exec = e_exec incoming,
      e_hash = e_hash incoming, e_vv = v, e_deleted = False\<rparr>"
  have "ss_index st' = ss_index (upsert e st2)"
    using run c [unfolded copy_of_def] loses
    by (auto simp: keep_both_def local_moves_aside_def Let_def same i b e_def split: if_splits)
  then have "content_at st' q = content_at (upsert e st2) q" by (rule content_same)
  then show ?thesis using content_same [of st2 st q] bump_frame [OF b] by (simp add: e_def)
qed

lemma shorten_back:
  assumes ok: "check_component is_nfc (s @ tag @ ext) = Inr ()" and full: "length (s @ tag @ ext) = COMPONENT_MAX_BYTES"
    and plain: "\<forall>b \<in> set tag. \<not> is_continuation b"
  shows "k \<le> length tag \<Longrightarrow> shorten is_nfc (s @ take k tag) tag ext = s @ tag @ ext"
proof (induction k)
  case 0
  with ok show ?case by (simp add: shorten.simps)
next
  case (Suc k)
  then have stem: "s @ take (Suc k) tag = (s @ take k tag) @ [tag ! k]" by (simp add: take_Suc_conv_app_nth)
  have "check_component is_nfc ((s @ take (Suc k) tag) @ tag @ ext) \<noteq> Inr ()"
    using full Suc.prems by (auto simp: check_component_def)
  moreover have "pop_char (s @ take (Suc k) tag) = s @ take k tag"
    using plain Suc.prems by (simp add: stem pop_char_def)
  ultimately show ?case using Suc by (subst shorten.simps) (auto simp: stem)
qed

lemma a_full_name_is_its_own_copy:
  assumes base: "split_ext base = (s @ tag, ext)" "base = s @ tag @ ext"
    and tag: "tag = '' ('' @ device @ '', '' @ utc_stamp (m_secs mtime) @ '')''" "\<forall>b \<in> set tag. \<not> is_continuation b"
    and full: "length base = COMPONENT_MAX_BYTES" "check_component is_nfc base = Inr ()"
  shows "conflict_copy_name is_nfc base device mtime None = base"
  using shorten_back [of is_nfc s tag ext "length tag"] assms
  by (simp add: conflict_copy_name_def Let_def)

section \<open>Samples\<close>

definition plain_conflict_env :: "string \<Rightarrow> conflict_env" where
  "plain_conflict_env h = \<lparr>cx_digest = (\<lambda>s. [last s]), cx_is_nfc = (\<lambda>_. True), cx_nfc = (\<lambda>s. s), cx_names = [],
     cx_staged_hash = Some h, cx_aside_ok = True, cx_install = Some (mtime_default, 3)\<rparr>"

definition edit_x :: entry where "edit_x = (file_at ''f'' [(''x'', 1)])\<lparr>e_mtime := \<lparr>m_secs = 0, m_nanos = 0\<rparr>\<rparr>"
definition edit_y :: entry where "edit_y = (file_at ''f'' [(''y'', 1)])\<lparr>e_mtime := \<lparr>m_secs = 0, m_nanos = 0\<rparr>, e_hash := ''h''\<rparr>"

definition met_state :: "entry \<Rightarrow> entry \<Rightarrow> set_state" where
  "met_state ours theirs = bound_state\<lparr>ss_index := [(''f'', ours)], ss_pending := [(''f'', [theirs])]\<rparr>"

lemma edit_simps [simp]:
  "e_vv edit_x = [(''x'', 1)]" "e_vv edit_y = [(''y'', 1)]" "e_hash edit_x = []" "e_hash edit_y = ''h''"
  "\<not> e_deleted edit_x" "\<not> e_deleted edit_y" "e_kind edit_x = EFile" "e_kind edit_y = EFile"
  "e_path edit_x = ''f''" "e_path edit_y = ''f''" "m_secs (e_mtime edit_x) = 0" "m_secs (e_mtime edit_y) = 0"
  by (simp_all add: edit_x_def edit_y_def file_at_def sample_entry_def)

lemma plain_env_simps [simp]:
  "cx_digest (plain_conflict_env h) = (\<lambda>s. [last s])" "cx_is_nfc (plain_conflict_env h) = (\<lambda>_. True)"
  "cx_names (plain_conflict_env h) = []" "cx_aside_ok (plain_conflict_env h)"
  "cx_install (plain_conflict_env h) = Some (mtime_default, 3)" "cx_staged_hash (plain_conflict_env h) = Some h"
  by (auto simp: plain_conflict_env_def)

lemma stamp_zero: "utc_stamp 0 = ''1970-01-01 00h00 UTC''"
proof -
  have "civil_from_days 0 = (1970, 1, 1)" by code_simp
  moreover have "show_nat 0 = ''0''" "show_nat 1 = ''1''" by code_simp+
  moreover have "show_nat 1970 = ''1970''" by code_simp
  ultimately show ?thesis by (simp add: utc_stamp_def padded_def numeral_2_eq_2)
qed

definition sample_identity :: identity where
  "sample_identity = \<lparr>id_public_hex = [], sign_hex = (\<lambda>_. [])\<rparr>"

lemma edit_ids:
  "version_id sample_deps (plain_conflict_env h) edit_x = Some ''|''"
  "version_id sample_deps (plain_conflict_env h) edit_y = Some ''h''"
proof -
  have "integer_profile (vv_to_value (e_vv edit_x))" "integer_profile (vv_to_value (e_vv edit_y))"
    by (simp_all add: vv_to_value_def jobj_def bt_of_list_def of_u64_def max_safe_integer_def)
  then obtain s t where "write_value (str_json sample_deps) (vv_to_value (e_vv edit_x)) = Inr s"
    "write_value (str_json sample_deps) (vv_to_value (e_vv edit_y)) = Inr t"
    using write_value_total [of "str_json sample_deps"] by blast
  then show "version_id sample_deps (plain_conflict_env h) edit_x = Some ''|''"
    "version_id sample_deps (plain_conflict_env h) edit_y = Some ''h''"
    by (simp_all add: version_id_def to_canonical_json_def)
qed

lemma edit_names: "copy_device (plain_conflict_env h) n edit_x = ''x''" "copy_device (plain_conflict_env h) n edit_y = ''y''"
  by (simp_all add: copy_device_def author_of_def Let_def is_continuation_def)

lemma edit_copy:
  "copy_path (plain_conflict_env h) n ''f'' edit_x None = ''f (x, 1970-01-01 00h00 UTC)''"
  "copy_path (plain_conflict_env h) n ''f'' edit_y None = ''f (y, 1970-01-01 00h00 UTC)''"
proof -
  have "split_ext ''f'' = (''f'', [])" "basename ''f'' = ''f''" by code_simp+
  moreover have "check_component (\<lambda>_. True) ''f (x, 1970-01-01 00h00 UTC)'' = Inr ()"
    "check_component (\<lambda>_. True) ''f (y, 1970-01-01 00h00 UTC)'' = Inr ()" by code_simp+
  ultimately show "copy_path (plain_conflict_env h) n ''f'' edit_x None = ''f (x, 1970-01-01 00h00 UTC)''"
    "copy_path (plain_conflict_env h) n ''f'' edit_y None = ''f (y, 1970-01-01 00h00 UTC)''"
    by (simp_all add: copy_path_def edit_names conflict_copy_name_def shorten.simps stamp_zero Let_def)
qed

lemma edit_gate: "check_wire_path (\<lambda>_. True) ''f (x, 1970-01-01 00h00 UTC)'' = Inr ()"
  by code_simp

lemma met_simps [simp]:
  "ss_index (met_state a b) = [(''f'', a)]" "ss_pending (met_state a b) = [(''f'', [b])]" "ss_root (met_state a b) = Some ''/r''"
  "ss_clock (met_state a b) = opened_clock" "ss_membership (met_state a b) = two_members"
  by (simp_all add: met_state_def)

lemma met_ok: "state_ok ''n'' (met_state edit_x edit_y)" "state_ok ''n'' (met_state edit_y edit_x)"
  by (auto simp: state_ok_def index_ok_def pending_ok_def bt_ok_def held_at_def versions_at_def
      index_get_def vv_get_def split: if_splits)

lemma met_fs: "fs_path still_fs ''f'' (met_state a b)" "fs_path still_fs ''f (x, 1970-01-01 00h00 UTC)'' (met_state a b)"
  by (simp_all add: fs_path_def two_members_def membership_new_def sample_set_def still_fs_def)

lemma met_runs:
  "fst (materialize_conflict sample_deps (plain_conflict_env ''h'') still_fs sample_identity ''n'' ''n'' ''f'' (met_state edit_x edit_y))"
  "fst (materialize_conflict sample_deps (plain_conflict_env []) still_fs sample_identity ''n'' ''n'' ''f'' (met_state edit_y edit_x))"
  using met_fs edit_gate
  by (simp_all add: materialize_conflict_def versions_at_def pulled_version_def index_get_def edit_ids keep_both_def
      loser_path_def edit_copy local_moves_aside_def local_stays_def occupied_same_def Let_def split: prod.splits)

section \<open>Properties\<close>

text \<open>
  C16. Keeping both keeps both: when a conflict is materialized over a live entry of ours, the plain
  path holds the content of the version with the lower id, with a vector above both histories, the
  path that the source computes for the copy holds the content of the other, and no version the
  pulled one covers is left pending at the plain path. The copy's path must not be the plain path
  itself; \<open>a_copy_named_like_its_path_is_lost\<close> says what happens when it is.
\<close>

theorem keep_both_keeps_both:
  assumes "state_ok self st" and "materialize_conflict dp cx fx idn self_node self p st = (True, st')"
    and "index_get (ss_index st) p = Some ours" and "\<not> e_deleted ours"
    and "pulled_version (versions_at st p) = Some incoming"
    and "version_id dp cx ours = Some lvid" and "version_id dp cx incoming = Some rvid"
    and "loser_path cx self_node p (if lvid < rvid then incoming else ours)
      (if lvid < rvid then rvid else lvid) (ss_index st) = Some c" and "c \<noteq> p"
  shows "both_kept p c ours incoming (lvid < rvid) st' \<and>
    versions_at st' p = drop_covered (e_vv incoming) (versions_at st p)"
proof -
  from materialize_unfold [OF assms(2)] assms(3,5-7)
  have run: "keep_both dp cx fx idn self_node self p ours incoming lvid rvid st = (True, st')" by auto
  have "meets self st p ours incoming" using assms pulled_in [OF assms(5)] by (simp add: meets_def)
  then show ?thesis by (rule keep_both_spec [OF _ run]) (use assms in \<open>simp_all add: copy_of_def\<close>)
qed

lemma keep_both_keeps_both_witness:
  "\<exists>st'. materialize_conflict sample_deps (plain_conflict_env ''h'') still_fs sample_identity ''n'' ''n'' ''f''
     (met_state edit_x edit_y) = (True, st') \<and>
     both_kept ''f'' ''f (x, 1970-01-01 00h00 UTC)'' edit_x edit_y False st'"
proof -
  obtain st' where run: "materialize_conflict sample_deps (plain_conflict_env ''h'') still_fs sample_identity ''n'' ''n'' ''f''
      (met_state edit_x edit_y) = (True, st')" using met_runs(1) by (metis prod.collapse)
  have "both_kept ''f'' ''f (x, 1970-01-01 00h00 UTC)'' edit_x edit_y (''|'' < ''h'') st' \<and>
      versions_at st' ''f'' = drop_covered (e_vv edit_y) (versions_at (met_state edit_x edit_y) ''f'')"
    by (rule keep_both_keeps_both [OF met_ok(1) run])
      (use edit_gate in \<open>simp_all add: index_get_def versions_at_def pulled_version_def edit_ids loser_path_def edit_copy Let_def\<close>)
  with run show ?thesis by simp
qed

text \<open>
  C17. Keeping both needs no negotiation: two devices that hold the two versions the other way round, and
  agree on the device names, end with the same content at the plain path and the same content at the
  same copy path, the two contents being those of the two versions. Both versions are live, their ids
  differ and their vectors are not empty; the copy's plain name is not indexed at either device and
  is not the plain path itself.
\<close>

theorem both_devices_keep_the_same:
  assumes ok: "state_ok selfa sa" "state_ok selfb sb"
    and runa: "materialize_conflict dp cxa fxa ida na selfa p sa = (True, sa')"
    and runb: "materialize_conflict dp cxb fxb idb nb selfb p sb = (True, sb')"
    and agree: "cx_digest cxa = cx_digest cxb" "cx_is_nfc cxa = cx_is_nfc cxb" "cx_nfc cxa = cx_nfc cxb" "cx_names cxa = cx_names cxb"
    and ours: "index_get (ss_index sa) p = Some a" "index_get (ss_index sb) p = Some b" "\<not> e_deleted a" "\<not> e_deleted b"
    and theirs: "pulled_version (versions_at sa p) = Some b" "pulled_version (versions_at sb p) = Some a"
    and ids: "version_id dp cxa a \<noteq> version_id dp cxa b" and touched: "e_vv a \<noteq> []" "e_vv b \<noteq> []"
    and free: "\<And>e n. e \<in> {a, b} \<Longrightarrow> copy_path cxa n p e None \<noteq> p \<and>
      index_get (ss_index sa) (copy_path cxa n p e None) = None \<and> index_get (ss_index sb) (copy_path cxa n p e None) = None"
  shows "\<exists>c. c \<noteq> p \<and> content_at sa' p = content_at sb' p \<and> content_at sa' c = content_at sb' c \<and>
    {content_at sa' p, content_at sa' c} = {Some (e_hash a), Some (e_hash b)}"
proof -
  have vid: "version_id dp cxb e = version_id dp cxa e" for e unfolding version_id_def agree ..
  obtain va vb where v: "version_id dp cxa a = Some va" "version_id dp cxa b = Some vb"
    and ra: "keep_both dp cxa fxa ida na selfa p a b va vb sa = (True, sa')"
    using materialize_unfold [OF runa] ours theirs by auto
  have rb: "keep_both dp cxb fxb idb nb selfb p b a vb va sb = (True, sb')"
    using materialize_unfold [OF runb] ours theirs v by (auto simp: vid)
  have ne: "va \<noteq> vb" using ids v by auto
  have ma: "meets selfa sa p a b" and mb: "meets selfb sb p b a"
    using ok ours pulled_in [OF theirs(1)] pulled_in [OF theirs(2)] by (simp_all add: meets_def)
  define loser where "loser = (if va < vb then b else a)"
  have touch: "last_touch vv \<noteq> None" if "vv \<noteq> []" for vv
    using that by (cases vv) (auto split: option.splits)
  have same: "copy_path cxb n' p loser None = copy_path cxa n p loser None" for n n'
    using touch [of "e_vv loser"] touched
    unfolding copy_path_def copy_device_def author_of_def agree by (auto simp: loser_def)
  have path: "loser_path cxa n p loser x (ss_index sa) = Some c \<Longrightarrow> c = copy_path cxa na p loser None"
    "loser_path cxb n p loser x (ss_index sb) = Some c \<Longrightarrow> c = copy_path cxa na p loser None" for n x c
    using free [of loser n] free [of loser na] same [of n na] same [of na n] same [of n n]
    unfolding loser_path_def agree by (auto simp: Let_def loser_def split: if_splits)
  have "vb < va \<longleftrightarrow> \<not> va < vb" using ne by auto
  define c where "c = copy_path cxa na p loser None"
  have "c \<noteq> p" using free [of loser na] by (auto simp: c_def loser_def)
  have "copy_of cxa na p a b va vb sa = Some c" "copy_of cxb nb p b a vb va sb = Some c"
    using keep_both_named [OF ra] keep_both_named [OF rb] path ne \<open>vb < va \<longleftrightarrow> \<not> va < vb\<close>
    unfolding copy_of_def c_def by (auto simp: loser_def split: if_splits)
  then have A: "both_kept p c a b (va < vb) sa'" and B: "both_kept p c b a (\<not> va < vb) sb'"
    using keep_both_spec [OF ma ra] keep_both_spec [OF mb rb] \<open>c \<noteq> p\<close> \<open>vb < va \<longleftrightarrow> \<not> va < vb\<close> by auto
  with A B \<open>c \<noteq> p\<close> have "c \<noteq> p \<and> content_at sa' p = content_at sb' p \<and> content_at sa' c = content_at sb' c \<and>
    {content_at sa' p, content_at sa' c} = {Some (e_hash a), Some (e_hash b)}"
    by (cases "va < vb") (simp_all add: both_kept_def insert_commute)
  then show ?thesis by blast
qed

lemma both_devices_keep_the_same_witness:
  "\<exists>sa sb c. materialize_conflict sample_deps (plain_conflict_env ''h'') still_fs sample_identity ''n'' ''n'' ''f''
       (met_state edit_x edit_y) = (True, sa) \<and>
     materialize_conflict sample_deps (plain_conflict_env []) still_fs sample_identity ''n'' ''n'' ''f''
       (met_state edit_y edit_x) = (True, sb) \<and>
     content_at sa ''f'' = content_at sb ''f'' \<and> content_at sa c = content_at sb c \<and>
     {content_at sa ''f'', content_at sa c} = {Some [], Some ''h''}"
proof -
  obtain sa sb where
    a: "materialize_conflict sample_deps (plain_conflict_env ''h'') still_fs sample_identity ''n'' ''n'' ''f''
      (met_state edit_x edit_y) = (True, sa)"
    and b: "materialize_conflict sample_deps (plain_conflict_env []) still_fs sample_identity ''n'' ''n'' ''f''
      (met_state edit_y edit_x) = (True, sb)" using met_runs by (metis prod.collapse)
  have names: "cx_nfc (plain_conflict_env ''h'') = cx_nfc (plain_conflict_env [])" by (simp add: plain_conflict_env_def)
  have "\<exists>c. c \<noteq> ''f'' \<and> content_at sa ''f'' = content_at sb ''f'' \<and> content_at sa c = content_at sb c \<and>
      {content_at sa ''f'', content_at sa c} = {Some (e_hash edit_x), Some (e_hash edit_y)}"
    by (rule both_devices_keep_the_same [OF met_ok a b])
      (auto simp: names index_get_def versions_at_def pulled_version_def edit_ids edit_copy)
  with a b show ?thesis by auto
qed

end
