(* ===== verification/Transfers.thy ===== *)
theory Transfers
  imports Conflicts Rounds
begin

text \<open>
  The transfer of file bytes between members (\<open>sync/src/engine.rs\<close>): a needer asks a peer for the
  pending files its watermark covers (\<open>pump_needs\<close>), the source publishes them (\<open>on_need\<close>,
  \<open>on_published\<close>, \<open>on_done\<close>), the needer pulls what the offer names and lands it (\<open>on_offer\<close>,
  \<open>on_pull_started\<close>, \<open>finish_pull\<close>).

  The engine performs no transfer itself: it returns the effects below, and the outcomes come back as
  further calls. A path of the host is written as the root and the wire path.
\<close>

definition PUBLISHED_PER_PEER :: nat where "PUBLISHED_PER_PEER = 2"

definition NEEDS_PER_PEER :: nat where "NEEDS_PER_PEER = 2"

definition NEED_CHUNK_FILES :: nat where "NEED_CHUNK_FILES = 256"

definition NEED_CHUNK_BYTES :: nat where "NEED_CHUNK_BYTES = 4 * 1024 * 1024 * 1024"

definition REFUSALS_MAX :: nat where "REFUSALS_MAX = 4096"

definition REFUSAL_TTL_SECS :: nat where "REFUSAL_TTL_SECS = 300"

definition EARLY_OUTCOMES_MAX :: nat where "EARLY_OUTCOMES_MAX = 16"

definition NEED_TTL_SECS :: nat where "NEED_TTL_SECS = 600"

definition SERVE_INTERVAL_SECS :: nat where "SERVE_INTERVAL_SECS = 1"

datatype effect =
  Send string json
| Publish string string nat "string list"
| Revoke string
| AdoptFill string string nat string "(string, string) btree" string

definition host_path :: "set_state \<Rightarrow> string \<Rightarrow> string" where
  "host_path st wire =
     (case ss_root st of
        None \<Rightarrow> []
      | Some root \<Rightarrow> if sd_kind (sm_descriptor (ss_membership st)) = SFile then root else root @ ''/'' @ wire)"

section \<open>The source\<close>

definition live_file :: "set_state \<Rightarrow> string \<Rightarrow> bool" where
  "live_file st path =
     (case index_get (ss_index st) path of None \<Rightarrow> False | Some e \<Rightarrow> \<not> e_deleted e \<and> e_kind e = EFile)"

definition cannot :: "string \<Rightarrow> string \<Rightarrow> nat \<Rightarrow> effect" where
  "cannot to set_id need_id = Send to (message_to_value (MsgCannot set_id need_id))"

definition slots_of :: "string \<Rightarrow> (string \<times> nat, 'v) btree \<Rightarrow> (string \<times> nat, 'v) btree" where
  "slots_of from m = filter (\<lambda>p. fst (fst p) = from) m"

text \<open>The slots of one peer are in the order of their need ids, so the oldest is the first.\<close>

definition take_slot ::
  "string \<Rightarrow> string \<Rightarrow> nat \<Rightarrow> string list \<Rightarrow> (string, string) btree \<Rightarrow> set_state \<Rightarrow> effect list \<times> set_state" where
  "take_slot from set_id need_id fs_paths files st =
     (let mine = slots_of from (ss_published st);
          publish = (\<lambda>out st. (out @ [Publish from set_id need_id fs_paths],
                               st\<lparr>ss_publishing := bt_insert (from, need_id) files (ss_publishing st)\<rparr>))
      in if length mine + length (slots_of from (ss_publishing st)) < PUBLISHED_PER_PEER then publish [] st
         else (case mine of
                 [] \<Rightarrow> ([], st)
               | (slot, tx_id) # _ \<Rightarrow>
                   publish [Revoke tx_id] (st\<lparr>ss_published := bt_remove slot (ss_published st)\<rparr>)))"

definition on_need ::
  "fs_env \<Rightarrow> string \<Rightarrow> string \<Rightarrow> string \<Rightarrow> nat \<Rightarrow> string list \<Rightarrow> nat \<Rightarrow> set_state \<Rightarrow> effect list \<times> set_state" where
  "on_need fx self_node from set_id need_id paths now st =
     (if effective (ss_membership st) from \<noteq> EActive \<or> effective (ss_membership st) self_node \<noteq> EActive \<or>
         ss_root st = None then ([], st)
      else if (case map_of (ss_last_served st) from of
                 None \<Rightarrow> False | Some at \<Rightarrow> now - at < SERVE_INTERVAL_SECS) then ([], st)
      else
        let st = st\<lparr>ss_last_served := bt_insert from now (ss_last_served st)\<rparr>
        in if map_of (ss_published st) (from, need_id) \<noteq> None \<or> map_of (ss_publishing st) (from, need_id) \<noteq> None
           then ([], st)
           else if \<not> list_all (\<lambda>path. live_file st path \<and> fs_path fx path st) paths
           then ([cannot from set_id need_id], st)
           else
             let files = bt_of_list (map (\<lambda>path. (basename path, path)) paths)
             in if files = [] then ([], st)
                else take_slot from set_id need_id (map (host_path st) paths) files st)"

definition on_published ::
  "string \<Rightarrow> string \<Rightarrow> nat \<Rightarrow> string \<Rightarrow> set_state \<Rightarrow> effect list \<times> set_state" where
  "on_published to set_id need_id tx_id st =
     (case map_of (ss_publishing st) (to, need_id) of
        None \<Rightarrow> ([Revoke tx_id], st)
      | Some files \<Rightarrow>
          ([Send to (message_to_value (MsgOffer set_id need_id tx_id files))],
           st\<lparr>ss_publishing := bt_remove (to, need_id) (ss_publishing st),
              ss_published := bt_insert (to, need_id) tx_id (ss_published st)\<rparr>))"

definition on_publish_failed :: "string \<Rightarrow> string \<Rightarrow> nat \<Rightarrow> set_state \<Rightarrow> effect list \<times> set_state" where
  "on_publish_failed to set_id need_id st =
     ([cannot to set_id need_id], st\<lparr>ss_publishing := bt_remove (to, need_id) (ss_publishing st)\<rparr>)"

definition on_done :: "string \<Rightarrow> nat \<Rightarrow> string \<Rightarrow> set_state \<Rightarrow> effect list \<times> set_state" where
  "on_done from need_id tx_id st =
     (if map_of (ss_published st) (from, need_id) = Some tx_id
      then ([Revoke tx_id], st\<lparr>ss_published := bt_remove (from, need_id) (ss_published st)\<rparr>)
      else ([], st))"

section \<open>The needer\<close>

fun offer_map ::
  "string bset \<Rightarrow> (string \<times> string) list \<Rightarrow> (string, string) btree \<Rightarrow> (string, string) btree option" where
  "offer_map asked [] acc = Some acc"
| "offer_map asked ((wire, set_path) # files) acc =
     (if basename set_path \<noteq> wire \<or> map_of asked set_path = None \<or> map_of acc wire \<noteq> None then None
      else offer_map asked files (bt_insert wire set_path acc))"

definition staging_of :: "string \<Rightarrow> nat \<Rightarrow> string" where
  "staging_of root need_id = root @ ''/'' @ STAGING_DIR @ ''/pull-'' @ show_nat need_id"

definition on_offer ::
  "string \<Rightarrow> string \<Rightarrow> nat \<Rightarrow> string \<Rightarrow> (string \<times> string) list \<Rightarrow> set_state \<Rightarrow> effect list \<times> set_state" where
  "on_offer from set_id need_id tx_id files st =
     (case (ss_root st, map_of (ss_needs st) need_id) of
        (Some root, Some need) \<Rightarrow>
          if nd_peer need \<noteq> from \<or> nd_pull need \<noteq> None then ([], st)
          else (case offer_map (nd_paths need) files [] of
                  None \<Rightarrow> ([], st)
                | Some names \<Rightarrow>
                    if names = [] then ([], st)
                    else
                      let staging = staging_of root need_id;
                          pull = \<lparr>ap_tx_id = tx_id, ap_staging = staging, ap_files = names, ap_transfer = None\<rparr>
                      in ([AdoptFill from set_id need_id tx_id names staging],
                          st\<lparr>ss_needs := bt_insert need_id (need\<lparr>nd_pull := Some pull\<rparr>) (ss_needs st)\<rparr>))
      | _ \<Rightarrow> ([], st))"

definition start_pull :: "nat \<Rightarrow> string \<Rightarrow> nat \<Rightarrow> set_state \<Rightarrow> (bool \<times> string) option \<times> set_state" where
  "start_pull need_id transfer_id now st =
     (case map_of (ss_needs st) need_id of
        None \<Rightarrow> (None, st)
      | Some need \<Rightarrow>
          (map_of (ss_early_outcomes st) transfer_id,
           st\<lparr>ss_needs := bt_insert need_id
                 (need\<lparr>nd_born_at := now,
                       nd_pull := map_option (\<lambda>pull. pull\<lparr>ap_transfer := Some transfer_id\<rparr>) (nd_pull need)\<rparr>)
                 (ss_needs st),
              ss_early_outcomes := bt_remove transfer_id (ss_early_outcomes st)\<rparr>))"

definition on_pull_failed :: "nat \<Rightarrow> set_state \<Rightarrow> set_state" where
  "on_pull_failed need_id st = st\<lparr>ss_needs := bt_remove need_id (ss_needs st)\<rparr>"

definition to_lower_ascii :: "char \<Rightarrow> char" where
  "to_lower_ascii c = (if 65 \<le> byte_of c \<and> byte_of c \<le> 90 then char_of (byte_of c + 32) else c)"

fun contains :: "string \<Rightarrow> string \<Rightarrow> bool" where
  "contains [] p \<longleftrightarrow> p = []"
| "contains (c # s) p \<longleftrightarrow> starts_with (c # s) p \<or> contains s p"

definition out_of_space :: "string \<Rightarrow> bool" where
  "out_of_space error =
     (let error = map to_lower_ascii error
      in contains error ''no space left'' \<or> contains error ''not enough space'' \<or>
         contains error ''disk full'' \<or> contains error ''insufficient'' \<or> contains error ''enospc'')"

definition strike :: "string \<Rightarrow> set_state \<Rightarrow> set_state" where
  "strike path st = st\<lparr>ss_hot := bt_entry path 0 (\<lambda>n. min (2 ^ 32 - 1) (n + 1)) (ss_hot st)\<rparr>"

text \<open>
  One pulled file: a missing one, a failed one and a conflict that could not be kept get a strike.
  The outcomes of the conflict of each path come with it.
\<close>

definition land_file ::
  "deps \<Rightarrow> (string \<Rightarrow> conflict_env) \<Rightarrow> fs_env \<Rightarrow> identity \<Rightarrow> string \<Rightarrow> string \<Rightarrow> string \<Rightarrow>
   nat \<times> set_state \<Rightarrow> string \<times> string \<Rightarrow> nat \<times> set_state" where
  "land_file dp cxs fx idn self_node self staging acc file =
     (case (acc, file) of
        ((landed, st), (wire, set_path)) \<Rightarrow>
          if \<not> fx_staged_exists fx (staging @ ''/'' @ wire) then (landed, strike set_path st)
          else
            (case apply_staged fx set_path self (st\<lparr>ss_hot := bt_remove set_path (ss_hot st)\<rparr>) of
               (Landed, st) \<Rightarrow> (landed + 1, st)
             | (ApplyFailed, st) \<Rightarrow> (landed, strike set_path st)
             | (Conflict, st) \<Rightarrow>
                 (case materialize_conflict dp (cxs set_path) fx idn self_node self set_path st of
                    (True, st) \<Rightarrow> (landed + 1, st)
                  | (False, st) \<Rightarrow> (landed, strike set_path st))))"

definition finish_pull ::
  "deps \<Rightarrow> (string \<Rightarrow> conflict_env) \<Rightarrow> fs_env \<Rightarrow> identity \<Rightarrow> string \<Rightarrow> string \<Rightarrow> nat \<Rightarrow> bool \<Rightarrow> string \<Rightarrow>
   set_state \<Rightarrow> set_store \<Rightarrow> effect list \<times> set_state \<times> set_store" where
  "finish_pull dp cxs fx idn self_node set_id need_id ok error st sv =
     (case map_of (ss_needs st) need_id of
        None \<Rightarrow> ([], st, sv)
      | Some need \<Rightarrow>
          let st1 = st\<lparr>ss_needs := bt_remove need_id (ss_needs st)\<rparr>
          in case nd_pull need of
               None \<Rightarrow> ([], st1, sv)
             | Some pull \<Rightarrow>
                 let self = self_component (ss_clock st1) self_node;
                     st2 = (if \<not> ok \<and> out_of_space error then st1\<lparr>ss_disk_full := True\<rparr> else st1);
                     (landed, st3) = foldl (land_file dp cxs fx idn self_node self (ap_staging pull)) (0, st2) (ap_files pull);
                     st4 = drain_pending fx self st3;
                     st5 = (if ss_pending st4 = [] \<and> ss_needs st4 = [] then st4\<lparr>ss_claim := None\<rparr> else st4);
                     sv = snd (persist st5 sv)
                 in (if landed = length (ap_files pull)
                     then [Send (nd_peer need) (message_to_value (MsgDone set_id need_id (ap_tx_id pull)))] else [],
                     st5, sv))"

definition on_pull_started ::
  "deps \<Rightarrow> (string \<Rightarrow> conflict_env) \<Rightarrow> fs_env \<Rightarrow> identity \<Rightarrow> string \<Rightarrow> string \<Rightarrow> nat \<Rightarrow> string \<Rightarrow> nat \<Rightarrow>
   set_state \<Rightarrow> set_store \<Rightarrow> effect list \<times> set_state \<times> set_store" where
  "on_pull_started dp cxs fx idn self_node set_id need_id transfer_id now st sv =
     (case start_pull need_id transfer_id now st of
        (None, st) \<Rightarrow> ([], st, sv)
      | (Some (ok, error), st) \<Rightarrow> finish_pull dp cxs fx idn self_node set_id need_id ok error st sv)"

text \<open>The need whose pull runs under a transfer id, and an outcome that came before its id.\<close>

definition pulling :: "string \<Rightarrow> set_state \<Rightarrow> nat option" where
  "pulling transfer_id st =
     map_option fst (find (\<lambda>p. case nd_pull (snd p) of None \<Rightarrow> False | Some pull \<Rightarrow> ap_transfer pull = Some transfer_id)
       (ss_needs st))"

definition remember_outcome :: "string \<Rightarrow> bool \<Rightarrow> string \<Rightarrow> set_state \<Rightarrow> set_state" where
  "remember_outcome transfer_id ok error st =
     (if list_ex (\<lambda>p. nd_pull (snd p) \<noteq> None) (ss_needs st)
      then st\<lparr>ss_early_outcomes := bt_insert transfer_id (ok, error)
                (drop (length (ss_early_outcomes st) - (EARLY_OUTCOMES_MAX - 1)) (ss_early_outcomes st))\<rparr>
      else st)"

text \<open>The map makes room by dropping its first keys.\<close>

definition refuse :: "string \<Rightarrow> nat \<Rightarrow> (string \<times> string, nat) btree \<Rightarrow> string \<Rightarrow> (string \<times> string, nat) btree" where
  "refuse from now m path = bt_insert (from, path) now (drop (length m - (REFUSALS_MAX - 1)) m)"

definition on_cannot :: "string \<Rightarrow> nat \<Rightarrow> nat \<Rightarrow> set_state \<Rightarrow> set_state" where
  "on_cannot from need_id now st =
     (case map_of (ss_needs st) need_id of
        None \<Rightarrow> st
      | Some need \<Rightarrow>
          if nd_peer need \<noteq> from then st
          else st\<lparr>ss_needs := bt_remove need_id (ss_needs st),
                  ss_refused := foldl (refuse from now) (ss_refused st) (map fst (nd_paths need))\<rparr>)"

section \<open>Asking\<close>

record chunk_rule =
  ck_claimed :: "string list"
  ck_refused :: "string \<Rightarrow> bool"
  ck_hot :: "string \<Rightarrow> bool"
  ck_others :: bool
  ck_watermark :: vv

fun fill_chunk ::
  "chunk_rule \<Rightarrow> string list \<Rightarrow> string list \<Rightarrow> nat \<Rightarrow> (string, entry list) btree \<Rightarrow> string list" where
  "fill_chunk ck chunk basenames bytes [] = chunk"
| "fill_chunk ck chunk basenames bytes ((path, versions) # rest) =
     (if path \<in> set (ck_claimed ck) \<or> ck_refused ck path \<or>
         (ck_hot ck path \<and> (ck_others ck \<or> chunk \<noteq> [])) then fill_chunk ck chunk basenames bytes rest
      else
        case pulled_version versions of
          None \<Rightarrow> fill_chunk ck chunk basenames bytes rest
        | Some e \<Rightarrow>
            if \<not> covers (ck_watermark ck) (e_vv e) \<or> basename path \<in> set basenames
            then fill_chunk ck chunk basenames bytes rest
            else
              let chunk = chunk @ [path]; bytes = min u64_max (bytes + e_size e)
              in if ck_hot ck path \<or> NEED_CHUNK_FILES \<le> length chunk \<or> NEED_CHUNK_BYTES \<le> bytes then chunk
                 else fill_chunk ck chunk (basename path # basenames) bytes rest)"

definition is_hot :: "set_state \<Rightarrow> string \<Rightarrow> bool" where
  "is_hot st path = (case map_of (ss_hot st) path of None \<Rightarrow> False | Some strikes \<Rightarrow> strikes > 1)"

definition chunk_rule_for :: "set_state \<Rightarrow> nat \<Rightarrow> string list \<Rightarrow> string \<Rightarrow> vv \<Rightarrow> chunk_rule" where
  "chunk_rule_for st now claimed peer watermark =
     \<lparr>ck_claimed = claimed,
      ck_refused = (\<lambda>path. case map_of (ss_refused st) (peer, path) of
                             None \<Rightarrow> False | Some at \<Rightarrow> now - at < REFUSAL_TTL_SECS),
      ck_hot = is_hot st,
      ck_others = list_ex (\<lambda>p. \<not> is_hot st (fst p) \<and> fst p \<notin> set claimed) (ss_pending st),
      ck_watermark = watermark\<rparr>"

definition needs_of :: "string \<Rightarrow> set_state \<Rightarrow> (nat, need_state) btree" where
  "needs_of peer st = filter (\<lambda>p. nd_peer (snd p) = peer) (ss_needs st)"

definition need_of_peer ::
  "string \<Rightarrow> nat \<Rightarrow> effect list \<times> string list \<times> set_state \<Rightarrow> string \<Rightarrow> effect list \<times> string list \<times> set_state" where
  "need_of_peer set_id now acc peer =
     (case acc of
        (out, claimed, st) \<Rightarrow>
          if NEEDS_PER_PEER \<le> length (needs_of peer st) then acc
          else (case map_of (ss_watermarks st) peer of
                  None \<Rightarrow> acc
                | Some watermark \<Rightarrow>
                    let chunk = fill_chunk (chunk_rule_for st now claimed peer watermark) [] [] 0 (ss_pending st)
                    in if chunk = [] then acc
                       else
                         let need_id = ss_need_counter st + 1;
                             need = \<lparr>nd_peer = peer, nd_paths = bt_of_list (map (\<lambda>p. (p, ())) chunk),
                                     nd_pull = None, nd_born_at = now\<rparr>
                         in (out @ [Send peer (message_to_value (MsgNeed set_id need_id chunk))], claimed @ chunk,
                             st\<lparr>ss_need_counter := need_id, ss_needs := bt_insert need_id need (ss_needs st)\<rparr>)))"

definition reclaim_needs :: "nat \<Rightarrow> set_state \<Rightarrow> set_state" where
  "reclaim_needs now st =
     st\<lparr>ss_needs := filter (\<lambda>p. now - nd_born_at (snd p) \<le> NEED_TTL_SECS) (ss_needs st)\<rparr>"

definition claimed_paths :: "set_state \<Rightarrow> string list" where
  "claimed_paths st = concat (map (\<lambda>p. map fst (nd_paths (snd p))) (ss_needs st))"

definition pump_needs ::
  "string \<Rightarrow> string \<Rightarrow> string list \<Rightarrow> nat \<Rightarrow> set_state \<Rightarrow> set_store \<Rightarrow> effect list \<times> set_state \<times> set_store" where
  "pump_needs self_node set_id reachable now st sv =
     (let st = reclaim_needs now st
      in if ss_root st = None \<or> effective (ss_membership st) self_node \<noteq> EActive \<or> size_guard_tripped st \<or>
            ss_disk_full st then ([], st, sv)
         else
           let peers = filter (\<lambda>n. n \<noteq> self_node \<and> effective (ss_membership st) n = EActive) reachable
           in case foldl (need_of_peer set_id now) ([], claimed_paths st, st) peers of
                (out, claimed, st) \<Rightarrow> (out, st, if out = [] then sv else snd (persist st sv)))"

end
