(* ===== verification/TransferFacts.thy ===== *)
theory TransferFacts
  imports Transfers "HOL-Library.Multiset"
begin

text \<open>
  The transfer machine of one set as a step relation, and what every history of it keeps: the bounds on
  slots, needs and memories, needs over disjoint paths, pulls inside their needs.
\<close>

section \<open>Landing leaves the transfers alone\<close>

definition transfers :: "set_state \<Rightarrow> (nat, need_state) btree \<times> nat \<times> (string \<times> nat, string) btree \<times>
    (string \<times> nat, (string, string) btree) btree \<times> (string \<times> string, nat) btree \<times> (string, bool \<times> string) btree" where
  "transfers st = (ss_needs st, ss_need_counter st, ss_published st, ss_publishing st, ss_refused st, ss_early_outcomes st)"

lemma transfers_updates [simp]:
  "transfers (st\<lparr>ss_hot := h\<rparr>) = transfers st" "transfers (st\<lparr>ss_disk_full := b\<rparr>) = transfers st"
  "transfers (st\<lparr>ss_claim := c\<rparr>) = transfers st" "transfers (st\<lparr>ss_parked := q\<rparr>) = transfers st"
  "transfers (upsert e st) = transfers st" "transfers (set_versions p vs st) = transfers st"
  "transfers (st\<lparr>ss_landed_bytes := n\<rparr>) = transfers st" "transfers (st\<lparr>ss_pending := m\<rparr>) = transfers st"
  "transfers (st\<lparr>ss_conflicts := k\<rparr>) = transfers st"
  by (simp_all add: transfers_def upsert_def set_versions_def)

lemma transfers_bump: "bump self v st = (v', st') \<Longrightarrow> transfers st' = transfers st"
  by (auto simp: transfers_def bump_def split: prod.splits sum.splits)

lemma transfers_settle [simp]: "transfers (settle_pending p v st) = transfers st"
  by (simp add: settle_pending_def split: option.splits)

lemma transfers_record_landed [simp]: "transfers (record_landed ax self p e h r st) = transfers st"
  by (auto simp: record_landed_def Let_def dest!: transfers_bump split: prod.splits if_splits)

lemma transfers_apply_staged: "apply_staged fx p self st = (o', st') \<Longrightarrow> transfers st' = transfers st"
  by (auto simp: apply_staged_def move_into_place_def park_staged_def Let_def split: option.splits if_splits)

lemma transfers_retry_one [simp]: "transfers (retry_one fx self p st) = transfers st"
  by (auto simp: retry_one_def Let_def push_pending_def apply_staged_file_def dest!: transfers_apply_staged
      split: option.splits if_splits prod.splits bool.splits)

lemma transfers_foldl: "(\<And>st x. transfers (f st x) = transfers st) \<Longrightarrow> transfers (foldl f st xs) = transfers st"
  by (induction xs arbitrary: st) auto

lemma transfers_quiet_path [simp]: "transfers (quiet_path self p st) = transfers st"
  by (auto simp: quiet_path_def Let_def dest!: transfers_bump split: option.splits prod.splits if_splits)

lemma transfers_file_tombstone [simp]: "transfers (file_tombstone_at fx p st) = transfers st"
  by (auto simp: file_tombstone_at_def apply_file_tombstone_def split: option.splits)

lemma transfers_pending_dir [simp]: "transfers (pending_dir_at fx p st) = transfers st"
  by (auto simp: pending_dir_at_def split: option.splits)

lemma transfers_survive [simp]: "transfers (survive self v p st) = transfers st"
  by (auto simp: survive_def dest!: transfers_bump split: option.splits prod.splits)

lemma transfers_dir_tombstone [simp]: "transfers (dir_tombstone_at fx self p st) = transfers st"
  by (auto simp: dir_tombstone_at_def apply_dir_tombstone_def Let_def transfers_foldl split: option.splits remove_outcome.splits)

lemma transfers_drain [simp]: "transfers (drain_pending fx self st) = transfers st"
  by (simp add: drain_pending_def drain_files_def each_pending_def retry_parked_def apply_pending_dirs_def Let_def transfers_foldl)

lemma transfers_file_copy [simp]: "transfers (file_copy self c n m e st) = transfers st"
  by (auto simp: file_copy_def dest!: transfers_bump split: prod.splits)

lemma transfers_record_conflict [simp]: "transfers (record_conflict dp idn s p k c st) = transfers st"
  by (auto simp: record_conflict_def absorb_conflict_def Let_def split: option.splits)

lemma transfers_materialize: "materialize_conflict dp cx fx idn sn self p st = (b, st') \<Longrightarrow> transfers st' = transfers st"
  by (auto simp: materialize_conflict_def keep_both_def local_stays_def local_moves_aside_def Let_def
      dest!: transfers_bump split: option.splits if_splits prod.splits bool.splits)

lemma transfers_land_file: "land_file dp cxs fx idn sn self stg acc f = (n, st') \<Longrightarrow> transfers st' = transfers (snd acc)"
  by (auto simp: land_file_def strike_def dest!: transfers_apply_staged transfers_materialize
      split: prod.splits if_splits apply_outcome.splits bool.splits)

lemma transfers_land_files:
  "foldl (land_file dp cxs fx idn sn self stg) acc fs = (n, st') \<Longrightarrow> transfers st' = transfers (snd acc)"
proof (induction fs arbitrary: acc)
  case (Cons f fs)
  obtain m st1 where "land_file dp cxs fx idn sn self stg acc f = (m, st1)" by fastforce
  with Cons transfers_land_file [OF this] show ?case by auto
qed simp

section \<open>The invariant\<close>

definition pull_inside :: "need_state \<Rightarrow> bool" where
  "pull_inside need \<longleftrightarrow>
     (case nd_pull need of
        None \<Rightarrow> True
      | Some pull \<Rightarrow> \<forall>p \<in> set (ap_files pull). basename (snd p) = fst p \<and> map_of (nd_paths need) (snd p) \<noteq> None)"

definition needs_ok :: "(nat, need_state) btree \<Rightarrow> nat \<Rightarrow> bool" where
  "needs_ok needs counter \<longleftrightarrow>
     bt_ok needs \<and> (\<forall>p \<in> set needs. fst p \<le> counter \<and> pull_inside (snd p)) \<and>
     (\<forall>peer. length (filter (\<lambda>p. nd_peer (snd p) = peer) needs) \<le> NEEDS_PER_PEER) \<and>
     distinct (concat (map (\<lambda>p. map fst (nd_paths (snd p))) needs))"

definition slots_ok :: "(string \<times> nat, string) btree \<Rightarrow> (string \<times> nat, (string, string) btree) btree \<Rightarrow> bool" where
  "slots_ok published publishing \<longleftrightarrow>
     bt_ok published \<and> bt_ok publishing \<and>
     (\<forall>peer. length (slots_of peer published) + length (slots_of peer publishing) \<le> PUBLISHED_PER_PEER)"

definition transfers_ok :: "set_state \<Rightarrow> bool" where
  "transfers_ok st \<longleftrightarrow>
     needs_ok (ss_needs st) (ss_need_counter st) \<and> slots_ok (ss_published st) (ss_publishing st) \<and>
     length (ss_refused st) \<le> REFUSALS_MAX \<and> length (ss_early_outcomes st) \<le> EARLY_OUTCOMES_MAX"

lemma transfers_ok_cong: "transfers st' = transfers st \<Longrightarrow> transfers_ok st' = transfers_ok st"
  by (simp add: transfers_def transfers_ok_def)

subsection \<open>Slots\<close>

lemma length_insert: "length (bt_insert k v m) \<le> Suc (length m)"
  by (induction k v m rule: bt_insert.induct) auto

lemma slots_insert: "length (slots_of q (bt_insert (r, i) v m)) \<le> length (slots_of q m) + (if q = r then 1 else 0)"
  by (induction "(r, i)" v m rule: bt_insert.induct) (auto simp: slots_of_def)

lemma slots_remove: "length (slots_of q (bt_remove k m)) \<le> length (slots_of q m)"
  by (induction m) (auto simp: slots_of_def bt_remove_def)

lemma slots_remove_hit:
  "map_of m (r, i) \<noteq> None \<Longrightarrow> length (slots_of r (bt_remove (r, i) m)) < length (slots_of r m)"
proof (induction m)
  case (Cons a m)
  show ?case
  proof (cases "fst a = (r, i)")
    case True
    then have "slots_of r (a # m) = a # slots_of r m" "bt_remove (r, i) (a # m) = bt_remove (r, i) m"
      by (cases a; simp add: slots_of_def bt_remove_def)+
    then show ?thesis using slots_remove [of r "(r, i)" m] by simp
  next
    case False
    then have "map_of m (r, i) \<noteq> None" using Cons.prems by (cases a) (auto split: if_splits)
    from Cons.IH [OF this] False show ?thesis by (cases a) (auto simp: slots_of_def bt_remove_def)
  qed
qed simp

lemma slots_ok_drop_published: "slots_ok a b \<Longrightarrow> slots_ok (bt_remove k a) b"
  using slots_remove [of _ k a] unfolding slots_ok_def by (meson add_le_mono1 bt_ok_remove le_trans)

lemma slots_ok_drop_publishing: "slots_ok a b \<Longrightarrow> slots_ok a (bt_remove k b)"
  using slots_remove [of _ k b] unfolding slots_ok_def by (meson add_le_mono le_refl bt_ok_remove le_trans)

lemma slots_ok_take:
  assumes "slots_ok a b" and "length (slots_of r a) + length (slots_of r b) < PUBLISHED_PER_PEER"
  shows "slots_ok a (bt_insert (r, i) v b)"
proof -
  have "length (slots_of q a) + length (slots_of q (bt_insert (r, i) v b)) \<le> PUBLISHED_PER_PEER" for q
    using assms slots_insert [of q r i v b] unfolding slots_ok_def by (cases "q = r") (fastforce dest: spec [of _ q])+
  with assms(1) show ?thesis by (auto simp: slots_ok_def)
qed

lemma slots_ok_publish:
  assumes "slots_ok a b" and "map_of b (r, i) \<noteq> None"
  shows "slots_ok (bt_insert (r, i) tx a) (bt_remove (r, i) b)"
proof -
  have "length (slots_of q (bt_insert (r, i) tx a)) + length (slots_of q (bt_remove (r, i) b)) \<le> PUBLISHED_PER_PEER" for q
    using assms slots_insert [of q r i tx a] slots_remove_hit [OF assms(2)] slots_remove [of q "(r, i)" b]
    unfolding slots_ok_def by (cases "q = r") (fastforce dest: spec [of _ q])+
  with assms(1) show ?thesis by (auto simp: slots_ok_def)
qed

lemma slots_first:
  assumes "bt_ok a" and "slots_of r a = (k, tx) # rest"
  shows "map_of a k = Some tx \<and> fst k = r"
proof -
  have "(k, tx) \<in> set (slots_of r a)" using assms(2) by simp
  then show ?thesis using map_of_in_set [OF assms(1)] by (auto simp: slots_of_def)
qed

lemma take_slot_ok: "transfers_ok st \<Longrightarrow> transfers_ok (snd (take_slot r sid i ps files st))"
proof -
  assume ok: "transfers_ok st"
  show "transfers_ok (snd (take_slot r sid i ps files st))"
  proof (cases "length (slots_of r (ss_published st)) + length (slots_of r (ss_publishing st)) < PUBLISHED_PER_PEER")
    case True
    with ok show ?thesis by (auto simp: take_slot_def transfers_ok_def Let_def intro: slots_ok_take)
  next
    case False
    show ?thesis
    proof (cases "slots_of r (ss_published st)")
      case Nil
      with False ok show ?thesis by (simp add: take_slot_def)
    next
      case (Cons a rest)
      obtain k tx where a: "a = (k, tx)" by fastforce
      have so: "slots_ok (ss_published st) (ss_publishing st)" using ok by (simp add: transfers_ok_def)
      from slots_first [of "ss_published st" r k tx rest] so Cons a obtain j where
        k: "k = (r, j)" "map_of (ss_published st) (r, j) \<noteq> None" by (cases k) (auto simp: slots_ok_def)
      have "length (slots_of r (bt_remove k (ss_published st))) + length (slots_of r (ss_publishing st)) < PUBLISHED_PER_PEER"
        using slots_remove_hit [OF k(2)] so unfolding slots_ok_def k(1) by (metis add_less_mono1 order_less_le_trans)
      from slots_ok_take [OF slots_ok_drop_published [OF so] this] ok False Cons a show ?thesis
        by (simp add: take_slot_def transfers_ok_def)
    qed
  qed
qed

lemma on_need_ok: "transfers_ok st \<Longrightarrow> transfers_ok (snd (on_need fx sn r sid i ps now st))"
proof -
  assume "transfers_ok st"
  then have "transfers_ok (st\<lparr>ss_last_served := m\<rparr>)" for m by (simp add: transfers_ok_def)
  with \<open>transfers_ok st\<close> show ?thesis by (simp add: on_need_def Let_def take_slot_ok)
qed

lemma on_published_ok: "transfers_ok st \<Longrightarrow> transfers_ok (snd (on_published r sid i tx st))"
  by (auto simp: on_published_def transfers_ok_def split: option.splits intro: slots_ok_publish)

lemma on_publish_failed_ok: "transfers_ok st \<Longrightarrow> transfers_ok (snd (on_publish_failed r sid i st))"
  by (simp add: on_publish_failed_def transfers_ok_def slots_ok_drop_publishing)

lemma on_done_ok: "transfers_ok st \<Longrightarrow> transfers_ok (snd (on_done r i tx st))"
  by (simp add: on_done_def transfers_ok_def slots_ok_drop_published)

subsection \<open>Needs\<close>

lemma needs_ok_filter: "needs_ok needs n \<Longrightarrow> needs_ok (filter P needs) n"
proof -
  assume ok: "needs_ok needs n"
  have "length (filter Q (filter P needs)) \<le> length (filter Q needs)" for Q
    by (induction needs) auto
  then have few: "length (filter Q (filter P needs)) \<le> m" if "length (filter Q needs) \<le> m" for Q m
    using that le_trans by blast
  have "distinct (concat (map f (filter P xs)))" if "distinct (concat (map f xs))" for f :: "nat \<times> need_state \<Rightarrow> string list" and xs
    using that by (induction xs) auto
  with ok few show ?thesis
    by (auto simp: needs_ok_def bt_ok_def sorted_wrt_map intro: sorted_wrt_filter)
qed

lemma needs_ok_remove: "needs_ok needs n \<Longrightarrow> needs_ok (bt_remove k needs) n"
  unfolding bt_remove_def by (rule needs_ok_filter)

text \<open>Replacing a need by one of the same peer and paths.\<close>

lemma bt_insert_replace:
  "bt_ok m \<Longrightarrow> map_of m k = Some b \<Longrightarrow> bt_insert k v m = map (\<lambda>p. if fst p = k then (k, v) else p) m"
proof (induction k v m rule: bt_insert.induct)
  case (2 k v a b' m)
  have "k \<notin> fst ` set m" if "k = a" using that 2(2) by (auto simp: bt_ok_def)
  moreover have "\<not> k < a"
  proof
    assume "k < a"
    then have "map_of ((a, b') # m) k = None" using 2(2) by (force simp: bt_ok_def map_of_eq_None_iff)
    with 2(3) show False by simp
  qed
  moreover have "bt_ok m" using 2(2) by (simp add: bt_ok_def)
  ultimately show ?case using 2(1,3) by (auto intro!: map_idI [symmetric] simp: rev_image_eqI split: if_splits)
qed simp

lemma needs_ok_replace:
  assumes ok: "needs_ok needs n" and at: "map_of needs k = Some need"
    and same: "nd_peer need' = nd_peer need" "nd_paths need' = nd_paths need" "pull_inside need'"
  shows "needs_ok (bt_insert k need' needs) n"
proof -
  let ?f = "\<lambda>p. if fst p = k then (k, need') else p"
  have bt: "bt_ok needs" using ok by (simp add: needs_ok_def)
  have eq: "bt_insert k need' needs = map ?f needs" by (rule bt_insert_replace [OF bt at])
  have here: "snd p = need" if "p \<in> set needs" "fst p = k" for p
    using map_of_in_set [OF bt, of k need] bt that at by (metis bt_ok_distinct map_of_is_SomeI option.inject prod.collapse)
  have paths: "map (\<lambda>p. map fst (nd_paths (snd p))) (map ?f needs) = map (\<lambda>p. map fst (nd_paths (snd p))) needs"
    using here same by auto
  have peers: "length (filter (\<lambda>p. nd_peer (snd p) = q) (map ?f needs)) = length (filter (\<lambda>p. nd_peer (snd p) = q) needs)" for q
    using here same by (auto simp: filter_map comp_def intro!: arg_cong [where f = length] filter_cong)
  have "fst p \<le> n \<and> pull_inside (snd p)" if "p \<in> set (map ?f needs)" for p
    using that ok same by (auto simp: needs_ok_def split: if_splits)
  with ok bt paths peers show ?thesis unfolding needs_ok_def eq by (metis bt_ok_insert eq)
qed

lemma keys_bt_of_list: "fst ` set (bt_of_list ps) = fst ` set ps"
  by (metis dom_map_of_conv_image_fst map_of_bt_of_list set_rev)

lemma needs_ok_new:
  assumes ok: "needs_ok needs n" and few: "length (filter (\<lambda>p. nd_peer (snd p) = peer) needs) < NEEDS_PER_PEER"
    and fresh: "distinct chunk" "set chunk \<inter> set (concat (map (\<lambda>p. map fst (nd_paths (snd p))) needs)) = {}"
  shows "needs_ok (bt_insert (n + 1) \<lparr>nd_peer = peer, nd_paths = bt_of_list (map (\<lambda>p. (p, ())) chunk),
    nd_pull = None, nd_born_at = now\<rparr> needs) (n + 1)"
proof -
  let ?need = "\<lparr>nd_peer = peer, nd_paths = bt_of_list (map (\<lambda>p. (p, ())) chunk), nd_pull = None, nd_born_at = now\<rparr>"
  have last: "bt_insert k v m = m @ [(k, v)]" if "\<forall>p \<in> set m. fst p < k" for k :: nat and v and m :: "(nat, need_state) btree"
    using that by (induction m) auto
  have less: "\<forall>p \<in> set needs. fst p < n + 1" using ok by (auto simp: needs_ok_def)
  have paths: "fst ` set (bt_of_list (map (\<lambda>p. (p, ())) chunk)) = set chunk"
    by (force simp: keys_bt_of_list)
  have "distinct (map fst (bt_of_list (map (\<lambda>p. (p, ())) chunk)))" using bt_ok_distinct bt_ok_of_list by blast
  then have concat: "distinct (concat (map (\<lambda>p. map fst (nd_paths (snd p))) (needs @ [(n + 1, ?need)])))"
    using ok fresh paths by (auto simp: needs_ok_def)
  have "length (filter (\<lambda>p. nd_peer (snd p) = q) (needs @ [(n + 1, ?need)])) \<le> NEEDS_PER_PEER" for q
    using ok few by (auto simp: needs_ok_def)
  moreover have "fst p \<le> n + 1 \<and> pull_inside (snd p)" if "p \<in> set (needs @ [(n + 1, ?need)])" for p
    using that ok less by (auto simp: needs_ok_def pull_inside_def split: option.splits)
  moreover have "bt_ok (needs @ [(n + 1, ?need)])"
    using ok bt_ok_insert [of needs "n + 1" ?need] by (simp only: needs_ok_def last [OF less])
  ultimately show ?thesis using concat unfolding needs_ok_def last [OF less] by blast
qed

subsection \<open>A chunk\<close>

definition askable :: "chunk_rule \<Rightarrow> (string, entry list) btree \<Rightarrow> string \<Rightarrow> bool" where
  "askable ck pending path \<longleftrightarrow>
     path \<notin> set (ck_claimed ck) \<and> \<not> ck_refused ck path \<and>
     (\<exists>versions e. (path, versions) \<in> set pending \<and> pulled_version versions = Some e \<and> covers (ck_watermark ck) (e_vv e))"

lemma fill_chunk_spec:
  assumes "list_all (askable ck all) chunk" and "distinct (map basename chunk)" and "basename ` set chunk \<subseteq> set names"
    and "length chunk < NEED_CHUNK_FILES" and "\<forall>p \<in> set chunk. \<not> ck_hot ck p" and "set rest \<subseteq> set all"
  shows "list_all (askable ck all) (fill_chunk ck chunk names bytes rest) \<and>
    distinct (map basename (fill_chunk ck chunk names bytes rest)) \<and>
    length (fill_chunk ck chunk names bytes rest) \<le> NEED_CHUNK_FILES \<and>
    (\<forall>p \<in> set (fill_chunk ck chunk names bytes rest). ck_hot ck p \<longrightarrow>
       \<not> ck_others ck \<and> fill_chunk ck chunk names bytes rest = [p])"
  using assms
proof (induction ck chunk names bytes rest rule: fill_chunk.induct)
  case (2 ck chunk names bytes path versions rest)
  let ?skip = "fill_chunk ck chunk names bytes rest"
  show ?case
  proof (cases "path \<in> set (ck_claimed ck) \<or> ck_refused ck path \<or> (ck_hot ck path \<and> (ck_others ck \<or> chunk \<noteq> []))")
    case True
    then have r: "fill_chunk ck chunk names bytes ((path, versions) # rest) = ?skip" by simp
    show ?thesis unfolding r using 2(1) [OF True] 2(5-) by simp
  next
    case out: False
    show ?thesis
    proof (cases "pulled_version versions")
      case None
      then have r: "fill_chunk ck chunk names bytes ((path, versions) # rest) = ?skip" using out by simp
      show ?thesis unfolding r using 2(2) [OF out None] 2(5-) by simp
    next
      case (Some e)
      show ?thesis
      proof (cases "\<not> covers (ck_watermark ck) (e_vv e) \<or> basename path \<in> set names")
        case True
        then have r: "fill_chunk ck chunk names bytes ((path, versions) # rest) = ?skip" using out Some by simp
        show ?thesis unfolding r using 2(3) [OF out Some True] 2(5-) by simp
      next
        case fits: False
        let ?stop = "ck_hot ck path \<or> NEED_CHUNK_FILES \<le> length (chunk @ [path]) \<or>
            NEED_CHUNK_BYTES \<le> min u64_max (bytes + e_size e)"
        have "askable ck all path" using 2(10) out Some fits unfolding askable_def by auto
        then have new: "list_all (askable ck all) (chunk @ [path])" using 2(5) by simp
        have dist: "distinct (map basename (chunk @ [path]))" using 2(5-) fits by auto
        show ?thesis
        proof (cases ?stop)
          case True
          then have r: "fill_chunk ck chunk names bytes ((path, versions) # rest) = chunk @ [path]"
            by (simp only: fill_chunk.simps out Some fits option.case Let_def True if_True if_False)
          show ?thesis unfolding r using new dist 2(5-) out by auto
        next
          case False
          then have r: "fill_chunk ck chunk names bytes ((path, versions) # rest) =
              fill_chunk ck (chunk @ [path]) (basename path # names) (min u64_max (bytes + e_size e)) rest"
            by (simp only: fill_chunk.simps out Some fits option.case Let_def False if_False)
          show ?thesis unfolding r using 2(4) [OF out Some fits refl refl False] new dist 2(5-) False by auto
        qed
      qed
    qed
  qed
qed auto

lemma fresh_chunk:
  fixes ck pending defines "chunk \<equiv> fill_chunk ck [] [] 0 pending"
  shows "list_all (askable ck pending) chunk" "distinct (map basename chunk)" "length chunk \<le> NEED_CHUNK_FILES"
    "ck_hot ck p \<Longrightarrow> p \<in> set chunk \<Longrightarrow> \<not> ck_others ck \<and> chunk = [p]"
  using fill_chunk_spec [where ck = ck and all = pending and chunk = "[]" and names = "[]" and rest = pending and bytes = 0]
  by (auto simp: chunk_def NEED_CHUNK_FILES_def)

text \<open>What one peer's turn adds: nothing, or one need over paths nobody else was asked for.\<close>

lemma need_of_peer_cases:
  assumes "need_of_peer sid now (out, claimed, st) peer = (out', claimed', st')"
  obtains (none) "out' = out" "claimed' = claimed" "st' = st"
  | (minted) watermark chunk where "map_of (ss_watermarks st) peer = Some watermark"
      "chunk = fill_chunk (chunk_rule_for st now claimed peer watermark) [] [] 0 (ss_pending st)" "chunk \<noteq> []"
      "length (needs_of peer st) < NEEDS_PER_PEER" "claimed' = claimed @ chunk"
      "out' = out @ [Send peer (message_to_value (MsgNeed sid (ss_need_counter st + 1) chunk))]"
      "st' = st\<lparr>ss_need_counter := ss_need_counter st + 1, ss_needs := bt_insert (ss_need_counter st + 1)
         \<lparr>nd_peer = peer, nd_paths = bt_of_list (map (\<lambda>p. (p, ())) chunk), nd_pull = None, nd_born_at = now\<rparr> (ss_needs st)\<rparr>"
proof (cases "NEEDS_PER_PEER \<le> length (needs_of peer st) \<or> map_of (ss_watermarks st) peer = None")
  case True
  then show thesis using assms by (intro none) (auto simp: need_of_peer_def split: if_splits)
next
  case False
  then obtain watermark where w: "map_of (ss_watermarks st) peer = Some watermark" "length (needs_of peer st) < NEEDS_PER_PEER"
    by auto
  define chunk where "chunk = fill_chunk (chunk_rule_for st now claimed peer watermark) [] [] 0 (ss_pending st)"
  show thesis
  proof (cases "chunk = []")
    case True
    then show thesis using assms w by (intro none) (simp_all add: need_of_peer_def chunk_def [symmetric])
  next
    case False
    then show thesis using assms w by (intro minted [OF w(1) chunk_def]) (auto simp: need_of_peer_def chunk_def [symmetric] Let_def)
  qed
qed

text \<open>The claimed paths are those of the needs, and more when a need was reclaimed in between.\<close>

lemma need_of_peer_ok:
  assumes "need_of_peer sid now (out, claimed, st) peer = (out', claimed', st')"
    and "transfers_ok st" and "set (claimed_paths st) \<subseteq> set claimed"
  shows "transfers_ok st' \<and> set (claimed_paths st') \<subseteq> set claimed'"
  using assms(1)
proof (cases rule: need_of_peer_cases)
  case none
  with assms show ?thesis by simp
next
  case (minted watermark chunk)
  note c = fresh_chunk [where ck = "chunk_rule_for st now claimed peer watermark" and pending = "ss_pending st", folded minted(2)]
  have "set chunk \<inter> set claimed = {}"
    using c(1) by (auto simp: list_all_iff askable_def chunk_rule_for_def)
  then have disj: "set chunk \<inter> set (concat (map (\<lambda>p. map fst (nd_paths (snd p))) (ss_needs st))) = {}"
    using assms(3) unfolding claimed_paths_def by blast
  have "distinct chunk" using c(2) by (simp add: distinct_map)
  from needs_ok_new [OF _ _ this disj, of "ss_need_counter st" peer now] assms(2) minted(4)
  have "transfers_ok st'" by (simp add: transfers_ok_def minted(7) needs_of_def)
  moreover have "set (map fst (nd_paths v)) \<subseteq> set claimed'" if "(k, v) \<in> set (ss_needs st')" for k v
  proof -
    let ?need = "\<lparr>nd_peer = peer, nd_paths = bt_of_list (map (\<lambda>p. (p, ())) chunk), nd_pull = None, nd_born_at = now\<rparr>"
    have "fst ` set (bt_of_list (map (\<lambda>p. (p, ())) chunk)) = set chunk" by (force simp: keys_bt_of_list)
    moreover have "(k, v) = (ss_need_counter st + 1, ?need) \<or> (k, v) \<in> set (ss_needs st)"
      using that set_bt_insert [of "ss_need_counter st + 1" ?need "ss_needs st"] by (auto simp: minted(7))
    ultimately consider "set (map fst (nd_paths v)) = set chunk" | "(k, v) \<in> set (ss_needs st)" by auto
    then show ?thesis
    proof cases
      case 1
      then show ?thesis by (simp only: minted(5) set_append Un_upper2)
    next
      case 2
      then have "set (map fst (nd_paths v)) \<subseteq> set (claimed_paths st)" by (force simp: claimed_paths_def)
      with assms(3) show ?thesis by (auto simp: minted(5))
    qed
  qed
  then have "set (claimed_paths st') \<subseteq> set claimed'" by (fastforce simp: claimed_paths_def)
  ultimately show ?thesis by blast
qed

definition turn_ok :: "effect list \<times> string list \<times> set_state \<Rightarrow> bool" where
  "turn_ok acc \<longleftrightarrow> transfers_ok (snd (snd acc)) \<and> set (claimed_paths (snd (snd acc))) \<subseteq> set (fst (snd acc))"

lemma turns_ok: "turn_ok acc \<Longrightarrow> turn_ok (foldl (need_of_peer sid now) acc peers)"
proof (rule foldl_keeps)
  fix acc peer
  assume "turn_ok acc"
  moreover obtain out claimed st where "acc = (out, claimed, st)" by (cases acc)
  moreover obtain out' claimed' st' where "need_of_peer sid now acc peer = (out', claimed', st')"
    by (cases "need_of_peer sid now acc peer")
  ultimately show "turn_ok (need_of_peer sid now acc peer)"
    using need_of_peer_ok [of sid now out claimed st peer out' claimed' st'] by (simp add: turn_ok_def)
qed

lemma pump_needs_ok: "transfers_ok st \<Longrightarrow> transfers_ok (fst (snd (pump_needs sn sid reachable now st sv)))"
proof -
  assume "transfers_ok st"
  then have ok: "transfers_ok (reclaim_needs now st)"
    by (simp add: transfers_ok_def reclaim_needs_def needs_ok_filter)
  let ?st = "reclaim_needs now st"
  define acc where "acc = foldl (need_of_peer sid now) ([], claimed_paths ?st, ?st)
    (filter (\<lambda>n. n \<noteq> sn \<and> effective (ss_membership ?st) n = EActive) reachable)"
  have "turn_ok acc" unfolding acc_def using ok by (intro turns_ok) (simp add: turn_ok_def)
  with ok show ?thesis
    by (cases acc) (simp add: pump_needs_def Let_def acc_def [symmetric] turn_ok_def)
qed

subsection \<open>Offers and pulls\<close>

lemma offer_map_spec:
  "offer_map asked files acc = Some names \<Longrightarrow>
   \<forall>p \<in> set acc. basename (snd p) = fst p \<and> map_of asked (snd p) \<noteq> None \<Longrightarrow>
   \<forall>p \<in> set names. basename (snd p) = fst p \<and> map_of asked (snd p) \<noteq> None"
proof (induction asked files acc rule: offer_map.induct)
  case (2 asked wire set_path files acc)
  have step: "\<not> (basename set_path \<noteq> wire \<or> map_of asked set_path = None \<or> map_of acc wire \<noteq> None)"
    using 2(2) by (metis offer_map.simps(2) option.distinct(1))
  then have rest: "offer_map asked files (bt_insert wire set_path acc) = Some names"
    using 2(2) by (simp only: offer_map.simps if_False)
  have "\<forall>p \<in> set (bt_insert wire set_path acc). basename (snd p) = fst p \<and> map_of asked (snd p) \<noteq> None"
    using step 2(3) set_bt_insert [of wire set_path acc] by auto
  then show ?case using 2(1) [OF step rest] by blast
qed simp

lemma transfers_ok_needs:
  "transfers_ok st \<Longrightarrow> needs_ok needs (ss_need_counter st) \<Longrightarrow> transfers_ok (st\<lparr>ss_needs := needs\<rparr>)"
  by (simp add: transfers_ok_def)

lemma on_offer_ok: "transfers_ok st \<Longrightarrow> transfers_ok (snd (on_offer from sid i tx files st))"
proof -
  assume ok: "transfers_ok st"
  show ?thesis
  proof (cases "snd (on_offer from sid i tx files st) = st")
    case True
    with ok show ?thesis by simp
  next
    case False
    then obtain root need where r: "ss_root st = Some root" and at: "map_of (ss_needs st) i = Some need"
      by (auto simp: on_offer_def split: option.splits)
    with False obtain names where names: "offer_map (nd_paths need) files [] = Some names"
      and go: "nd_peer need = from" "nd_pull need = None" "names \<noteq> []"
      by (auto simp: on_offer_def split: if_splits option.splits)
    define pull where "pull = \<lparr>ap_tx_id = tx, ap_staging = staging_of root i, ap_files = names, ap_transfer = None\<rparr>"
    have st': "snd (on_offer from sid i tx files st) = st\<lparr>ss_needs := bt_insert i (need\<lparr>nd_pull := Some pull\<rparr>) (ss_needs st)\<rparr>"
      by (simp add: on_offer_def r at names go pull_def Let_def)
    have "pull_inside (need\<lparr>nd_pull := Some pull\<rparr>)"
      using offer_map_spec [OF names] by (simp add: pull_inside_def pull_def)
    then show ?thesis unfolding st'
      using ok at by (intro transfers_ok_needs needs_ok_replace) (auto simp: transfers_ok_def)
  qed
qed

lemma start_pull_ok: "transfers_ok st \<Longrightarrow> transfers_ok (snd (start_pull i tid now st))"
proof (cases "map_of (ss_needs st) i")
  case (Some need)
  assume ok: "transfers_ok st"
  let ?need = "need\<lparr>nd_born_at := now, nd_pull := map_option (\<lambda>pull. pull\<lparr>ap_transfer := Some tid\<rparr>) (nd_pull need)\<rparr>"
  have "needs_ok (ss_needs st) (ss_need_counter st)" using ok by (simp add: transfers_ok_def)
  moreover from this have "pull_inside need"
    using map_of_SomeD [OF Some] by (auto simp: needs_ok_def)
  then have "pull_inside ?need" by (auto simp: pull_inside_def split: option.splits)
  ultimately have "needs_ok (bt_insert i ?need (ss_needs st)) (ss_need_counter st)"
    using Some by (intro needs_ok_replace) auto
  moreover have "length (bt_remove tid (ss_early_outcomes st)) \<le> EARLY_OUTCOMES_MAX"
    using ok by (auto simp: transfers_ok_def bt_remove_def intro: le_trans [OF length_filter_le])
  ultimately show ?thesis using ok Some by (simp add: start_pull_def transfers_ok_def)
qed (simp add: start_pull_def)

lemma on_pull_failed_ok: "transfers_ok st \<Longrightarrow> transfers_ok (on_pull_failed i st)"
  by (simp add: on_pull_failed_def transfers_ok_needs transfers_ok_def needs_ok_remove)

lemma finish_pull_ok:
  assumes "transfers_ok st"
  shows "transfers_ok (fst (snd (finish_pull dp cxs fx idn sn sid i ok error st sv)))"
proof (cases "map_of (ss_needs st) i")
  case (Some need)
  let ?st1 = "st\<lparr>ss_needs := bt_remove i (ss_needs st)\<rparr>"
  have one: "transfers_ok ?st1" using assms by (simp add: transfers_ok_def needs_ok_remove)
  show ?thesis
  proof (cases "nd_pull need")
    case None
    with Some one show ?thesis by (simp add: finish_pull_def)
  next
    case pull: (Some pull)
    let ?st2 = "if \<not> ok \<and> out_of_space error then ?st1\<lparr>ss_disk_full := True\<rparr> else ?st1"
    let ?self = "self_component (ss_clock ?st1) sn"
    obtain n st3 where land: "foldl (land_file dp cxs fx idn sn ?self (ap_staging pull)) (0, ?st2) (ap_files pull) = (n, st3)"
      by fastforce
    let ?st4 = "drain_pending fx ?self st3"
    let ?st5 = "if ss_pending ?st4 = [] \<and> ss_needs ?st4 = [] then ?st4\<lparr>ss_claim := None\<rparr> else ?st4"
    have "transfers st3 = transfers ?st1" using transfers_land_files [OF land] by auto
    then have "transfers ?st5 = transfers ?st1" by simp
    then have "transfers_ok ?st5" using transfers_ok_cong one by blast
    moreover have "fst (snd (finish_pull dp cxs fx idn sn sid i ok error st sv)) = ?st5"
      by (simp only: finish_pull_def Some pull option.case Let_def land prod.case fst_conv snd_conv)
    ultimately show ?thesis by (simp only:)
  qed
qed (simp add: finish_pull_def assms)

lemma length_refuse: "length (refuse r now m p) \<le> REFUSALS_MAX"
  using length_insert [of "(r, p)" now "drop (length m - (REFUSALS_MAX - 1)) m"]
  by (simp add: refuse_def REFUSALS_MAX_def)

lemma on_cannot_ok: "transfers_ok st \<Longrightarrow> transfers_ok (on_cannot r i now st)"
proof -
  assume ok: "transfers_ok st"
  have "length (foldl (refuse r now) m ps) \<le> REFUSALS_MAX" if "length m \<le> REFUSALS_MAX" for m ps
    using that by (induction ps arbitrary: m) (simp_all add: length_refuse)
  with ok show ?thesis by (auto simp: on_cannot_def transfers_ok_def needs_ok_remove split: option.splits)
qed

lemma remember_outcome_ok: "transfers_ok st \<Longrightarrow> transfers_ok (remember_outcome tid ok error st)"
proof -
  assume tok: "transfers_ok st"
  let ?kept = "drop (length (ss_early_outcomes st) - (EARLY_OUTCOMES_MAX - 1)) (ss_early_outcomes st)"
  have "length ?kept \<le> EARLY_OUTCOMES_MAX - 1" by simp
  then have "length (bt_insert tid (ok, error) ?kept) \<le> EARLY_OUTCOMES_MAX"
    using length_insert [of tid "(ok, error)" ?kept] by (simp add: EARLY_OUTCOMES_MAX_def)
  with tok show ?thesis by (simp add: remember_outcome_def transfers_ok_def)
qed

section \<open>A history of one set\<close>

text \<open>
  Every call that reaches the transfers of one set, in any order and with any arguments; \<open>Otherwise\<close> is
  whatever else the engine does to the set meanwhile: it may replace the rest of the state, and leaving
  the set empties the needs and the slots.
\<close>

datatype transfer_op =
  Need fs_env string nat "string list" nat
| Published string nat string
| PublishFailed string nat
| DoneFrom string nat string
| Offer string nat string "(string \<times> string) list"
| PullStarted "string \<Rightarrow> conflict_env" fs_env nat string nat
| PullFailed nat
| Outcome "string \<Rightarrow> conflict_env" fs_env nat bool string
| EarlyOutcome string bool string
| CannotFrom string nat nat
| Pump "string list" nat
| Emptied
| Otherwise set_state

definition rest_of :: "set_state \<Rightarrow> set_state \<Rightarrow> set_state" where
  "rest_of st' st = st'\<lparr>ss_needs := ss_needs st, ss_need_counter := ss_need_counter st, ss_published := ss_published st,
     ss_publishing := ss_publishing st, ss_refused := ss_refused st, ss_early_outcomes := ss_early_outcomes st\<rparr>"

fun apply_transfer :: "deps \<Rightarrow> identity \<Rightarrow> string \<Rightarrow> string \<Rightarrow> set_store \<Rightarrow> set_state \<Rightarrow> transfer_op \<Rightarrow> set_state" where
  "apply_transfer dp idn sn sid sv st (Need fx r i paths now) = snd (on_need fx sn r sid i paths now st)"
| "apply_transfer dp idn sn sid sv st (Published r i tx) = snd (on_published r sid i tx st)"
| "apply_transfer dp idn sn sid sv st (PublishFailed r i) = snd (on_publish_failed r sid i st)"
| "apply_transfer dp idn sn sid sv st (DoneFrom r i tx) = snd (on_done r i tx st)"
| "apply_transfer dp idn sn sid sv st (Offer r i tx files) = snd (on_offer r sid i tx files st)"
| "apply_transfer dp idn sn sid sv st (PullStarted cxs fx i tid now) =
     fst (snd (on_pull_started dp cxs fx idn sn sid i tid now st sv))"
| "apply_transfer dp idn sn sid sv st (PullFailed i) = on_pull_failed i st"
| "apply_transfer dp idn sn sid sv st (Outcome cxs fx i ok error) =
     fst (snd (finish_pull dp cxs fx idn sn sid i ok error st sv))"
| "apply_transfer dp idn sn sid sv st (EarlyOutcome tid ok error) = remember_outcome tid ok error st"
| "apply_transfer dp idn sn sid sv st (CannotFrom r i now) = on_cannot r i now st"
| "apply_transfer dp idn sn sid sv st (Pump reachable now) = fst (snd (pump_needs sn sid reachable now st sv))"
| "apply_transfer dp idn sn sid sv st Emptied = st\<lparr>ss_needs := [], ss_published := [], ss_publishing := []\<rparr>"
| "apply_transfer dp idn sn sid sv st (Otherwise st') = rest_of st' st"

lemma on_pull_started_ok: "transfers_ok st \<Longrightarrow> transfers_ok (fst (snd (on_pull_started dp cxs fx idn sn sid i tid now st sv)))"
  using start_pull_ok [of st i tid now]
  by (auto simp: on_pull_started_def finish_pull_ok split: prod.splits option.splits)

lemmas transfer_steps_ok = on_need_ok on_published_ok on_publish_failed_ok on_done_ok on_offer_ok on_pull_started_ok
  on_pull_failed_ok finish_pull_ok remember_outcome_ok on_cannot_ok pump_needs_ok

lemma emptied_ok: "transfers_ok st \<Longrightarrow> transfers_ok (st\<lparr>ss_needs := [], ss_published := [], ss_publishing := []\<rparr>)"
  by (simp add: transfers_ok_def needs_ok_def slots_ok_def slots_of_def)

lemma rest_of_ok: "transfers_ok st \<Longrightarrow> transfers_ok (rest_of st' st)"
  using transfers_ok_cong [of "rest_of st' st" st] by (simp add: rest_of_def transfers_def)

interpretation transfer_run: op_invariant "apply_transfer dp idn sn sid sv" "\<lambda>op. True" transfers_ok for dp idn sn sid sv
proof
  fix st op
  assume "transfers_ok st"
  then show "transfers_ok (apply_transfer dp idn sn sid sv st op)"
    by (cases op) (simp_all only: apply_transfer.simps transfer_steps_ok emptied_ok rest_of_ok)
qed

lemma transfers_run: "transfers_ok st \<Longrightarrow> transfers_ok (foldl (apply_transfer dp idn sn sid sv) st ops)"
  by (rule transfer_run.run) (simp_all add: list_all_iff)

lemma fresh_transfers_ok: "fresh m root sn now d = (Inr st, d') \<Longrightarrow> transfers_ok st"
  by (auto simp: fresh_def transfers_ok_def needs_ok_def slots_ok_def slots_of_def split: prod.splits sum.splits)

section \<open>From a need to its pull\<close>

lemma offer_map_accepts:
  "\<forall>f \<in> set files. basename (snd f) = fst f \<and> map_of asked (snd f) \<noteq> None \<Longrightarrow> distinct (map fst files) \<Longrightarrow>
   fst ` set files \<inter> fst ` set acc = {} \<Longrightarrow>
   offer_map asked files acc = Some (foldl (\<lambda>m f. bt_insert (fst f) (snd f) m) acc files)"
proof (induction asked files acc rule: offer_map.induct)
  case (2 asked wire set_path files acc)
  have "map_of acc wire = None" using 2(4) by (auto simp: map_of_eq_None_iff)
  then have go: "\<not> (basename set_path \<noteq> wire \<or> map_of asked set_path = None \<or> map_of acc wire \<noteq> None)" using 2(2) by auto
  moreover have "fst ` set files \<inter> fst ` set (bt_insert wire set_path acc) = {}" using 2(3,4) by auto
  ultimately show ?case using 2(1) [OF go] 2(2,3) by (simp only: offer_map.simps) auto
qed simp

lemma basename_gated: "path_ok is_nfc p \<Longrightarrow> path_ok is_nfc (basename p)"
proof -
  assume p: "path_ok is_nfc p"
  have "basename p \<in> set (split_on CHR ''/'' p)" by (simp add: basename_def)
  then have c: "check_component is_nfc (basename p) = Inr ()" and no: "CHR ''/'' \<notin> set (basename p)"
    using path_ok_components [OF p] split_on_no_sep by blast+
  have "\<not> starts_with (basename p) ''/''" "\<not> ends_with (basename p) ''/''"
    using no by (auto simp: starts_with_def ends_with_def) (metis in_set_takeD in_set_dropD list.set_intros(1))+
  then show ?thesis
    using c check_component_safe(1,4) [OF c] split_on_single [OF no]
    by (simp add: path_ok_def check_wire_path_def PATH_MAX_BYTES_def)
qed

lemma askable_pending: "askable ck pending p \<Longrightarrow> p \<in> fst ` set pending"
  by (force simp: askable_def)

text \<open>The chunk of a minted need makes a need message the gate admits.\<close>

lemma minted_need_ok:
  assumes "valid_set_id sid" and "list_all (path_ok is_nfc) (map fst pending)"
  shows "message_ok is_nfc (MsgNeed sid i (fill_chunk ck [] [] 0 pending))"
proof -
  have "list_all (path_ok is_nfc) (fill_chunk ck [] [] 0 pending)"
    using fresh_chunk(1) [of ck pending] assms(2) askable_pending by (fastforce simp: list_all_iff)
  then show ?thesis
    using assms(1) fresh_chunk(2,3) [of ck pending] by (simp add: message_ok_def page_of_def NEED_CHUNK_FILES_def)
qed

lemma published_files:
  assumes "on_need fx sn r sid i paths now st = (out, st')" and "Publish to sid' i' fs_paths \<in> set out"
  shows "to = r \<and> sid' = sid \<and> i' = i \<and> fs_paths = map (host_path st) paths \<and>
    map_of (ss_publishing st') (r, i) = Some (bt_of_list (map (\<lambda>p. (basename p, p)) paths)) \<and>
    effective (ss_membership st) r = EActive \<and> effective (ss_membership st) sn = EActive \<and> ss_root st \<noteq> None \<and>
    list_all (live_file st) paths"
  using assms
  by (auto simp: on_need_def take_slot_def Let_def host_path_def live_file_def list_all_iff cannot_def split: if_splits list.splits prod.splits)

lemma minted_by:
  assumes "need_of_peer sid now ([], claimed, st) peer = ([Send to payload], claimed', st')"
  obtains chunk watermark i where "to = peer" "payload = message_to_value (MsgNeed sid i chunk)" "chunk \<noteq> []"
    "chunk = fill_chunk (chunk_rule_for st now claimed peer watermark) [] [] 0 (ss_pending st)"
    "map_of (ss_watermarks st) peer = Some watermark" "ss_root st' = ss_root st" "i = ss_need_counter st + 1"
    "map_of (ss_needs st') i = Some \<lparr>nd_peer = peer, nd_paths = bt_of_list (map (\<lambda>p. (p, ())) chunk), nd_pull = None, nd_born_at = now\<rparr>"
  using assms
proof (cases rule: need_of_peer_cases)
  case (minted watermark chunk)
  then show thesis using that [of "ss_need_counter st + 1" chunk watermark] by simp
qed simp

lemma asked_paths: "map_of (bt_of_list (map (\<lambda>p. (p, ())) chunk)) p \<noteq> None \<longleftrightarrow> p \<in> set chunk"
  using keys_bt_of_list [of "map (\<lambda>p. (p, ())) chunk"] by (force simp: map_of_eq_None_iff)

lemma served_files:
  assumes "distinct (map basename paths)"
  defines "files \<equiv> bt_of_list (map (\<lambda>p. (basename p, p)) paths)"
  shows "bt_ok files" "length files = length paths" "snd ` set files = set paths" "\<forall>f \<in> set files. fst f = basename (snd f)"
proof -
  let ?ps = "map (\<lambda>p. (basename p, p)) paths"
  have d: "distinct (map fst ?ps)" using assms(1) by (simp add: comp_def)
  then have "set files = set ?ps"
    unfolding files_def using map_of_in_set [OF bt_ok_of_list, of _ _ ?ps] map_of_bt_of_list_distinct [OF d] map_of_eq_Some_iff [OF d]
    by auto
  then show "snd ` set files = set paths" "\<forall>f \<in> set files. fst f = basename (snd f)" by (auto simp: image_iff)
  show "length files = length paths" unfolding files_def using length_bt_of_list [OF d] by simp
qed (simp add: files_def)

lemma bt_of_list_sorted: "bt_ok m \<Longrightarrow> foldl (\<lambda>m p. bt_insert (fst p) (snd p) m) [] m = m"
  using bt_of_list_id [of m] by (simp add: bt_of_list_def)

section \<open>Properties\<close>

text \<open>A needer with one pending file that a peer's watermark covers, and that peer.\<close>

definition asking_state :: set_state where
  "asking_state = bound_state\<lparr>ss_pending := [(''d/f'', [file_at ''d/f'' [(''p'', 3)]])], ss_watermarks := [(node_b, [(''p'', 3)])]\<rparr>"

definition source_state :: set_state where
  "source_state = bound_state\<lparr>ss_index := [(''d/f'', file_at ''d/f'' [(''p'', 3)])]\<rparr>"

definition empty_store :: set_store where
  "empty_store = \<lparr>sv_meta = None, sv_index = None, sv_faults = []\<rparr>"

lemma bound_fresh:
  "fresh two_members (Some ''/r'') node_a 7 \<lparr>d_lease = Absent, d_faults = []\<rparr> = (Inr bound_state, leased_disk [])"
  by (simp add: bound_state_def sample_state_def fresh_def clock_open_def reserve_def write_lease_def Let_def
      opened_clock_def leased_disk_def CLOCK_CEILING_def RESERVE_BLOCK_def)

lemma asking_simps [simp]:
  "ss_needs asking_state = []" "ss_need_counter asking_state = 0" "ss_hot asking_state = []" "ss_refused asking_state = []"
  "ss_root asking_state = Some ''/r''" "ss_pending asking_state = [(''d/f'', [file_at ''d/f'' [(''p'', 3)]])]"
  "ss_watermarks asking_state = [(node_b, [(''p'', 3)])]" "ss_claim asking_state = None" "\<not> ss_disk_full asking_state"
  "ss_membership asking_state = two_members"
  by (simp_all add: asking_state_def bound_state_def sample_state_def fresh_def clock_open_def reserve_def write_lease_def Let_def
      opened_clock_def leased_disk_def CLOCK_CEILING_def RESERVE_BLOCK_def)

lemma source_simps [simp]:
  "ss_last_served source_state = []" "ss_published source_state = []" "ss_publishing source_state = []"
  "ss_root source_state = Some ''/r''" "ss_index source_state = [(''d/f'', file_at ''d/f'' [(''p'', 3)])]"
  "ss_membership source_state = two_members"
  by (simp_all add: source_state_def bound_state_def sample_state_def fresh_def clock_open_def reserve_def write_lease_def Let_def
      opened_clock_def leased_disk_def CLOCK_CEILING_def RESERVE_BLOCK_def)

lemma asking_turn:
  "\<exists>st'. need_of_peer (replicate 22 CHR ''A'') 5 ([], [], asking_state) node_b =
    ([Send node_b (message_to_value (MsgNeed (replicate 22 CHR ''A'') 1 [''d/f'']))], [''d/f''], st') \<and> length (ss_needs st') = 1"
  by (simp add: need_of_peer_def needs_of_def NEEDS_PER_PEER_def chunk_rule_for_def is_hot_def pulled_version_def
      covers_def vv_get_def Let_def NEED_CHUNK_FILES_def NEED_CHUNK_BYTES_def)

definition asking_run :: "transfer_op list" where
  "asking_run = [Otherwise asking_state, Pump [node_b] 5]"

lemma two_members_dir [simp]: "sd_kind (sm_descriptor two_members) = SDir"
  by (simp add: two_members_def membership_new_def sample_set_def)

lemmas asking_steps = pump_needs_def reclaim_needs_def claimed_paths_def two_members_active size_guard_tripped_def
  need_of_peer_def needs_of_def NEEDS_PER_PEER_def chunk_rule_for_def is_hot_def pulled_version_def
  covers_def vv_get_def Let_def NEED_CHUNK_FILES_def NEED_CHUNK_BYTES_def

lemma asked_once:
  defines "st' \<equiv> foldl (apply_transfer sample_deps sample_identity node_a (replicate 22 CHR ''A'') empty_store) bound_state asking_run"
  shows "length (ss_needs st') = 1" "claimed_paths st' = [''d/f'']"
proof -
  have "rest_of asking_state bound_state = asking_state" by (simp add: rest_of_def asking_state_def)
  moreover have "bt_of_list [(''d/f'', ())] = [(''d/f'', ())]" by (simp add: bt_of_list_def)
  ultimately show "length (ss_needs st') = 1" "claimed_paths st' = [''d/f'']"
    by (simp_all add: st'_def asking_run_def asking_steps)
qed

lemma sample_path: "path_ok (\<lambda>_. True) ''d/f''"
  by (simp add: path_ok_def check_wire_path_def PATH_MAX_BYTES_def check_component_def
      COMPONENT_MAX_BYTES_def STAGING_DIR_def STAGING_SUFFIX_def windows_reserved_def starts_with_def
      ends_with_def to_upper_def Let_def)

lemma sample_serve:
  "\<exists>src. on_need still_fs node_b node_a (replicate 22 CHR ''A'') 1 [''d/f''] 9 source_state =
      ([Publish node_a (replicate 22 CHR ''A'') 1 [''/r/d/f'']], src)"
proof -
  have p: "split_on CHR ''/'' ''d/f'' = [''d'', ''f'']" by simp
  show ?thesis
    by (simp add: on_need_def two_members_active live_file_def index_get_def fs_path_def still_fs_def p basename_def bt_of_list_def
        take_slot_def slots_of_def PUBLISHED_PER_PEER_def host_path_def Let_def del: split_on.simps)
qed

definition struck_state :: set_state where
  "struck_state = asking_state\<lparr>ss_hot := [(''d/f'', 2)],
     ss_pending := ss_pending asking_state @ [(''g'', [(file_at ''g'' [(''p'', 2)])\<lparr>e_deleted := True\<rparr>])]\<rparr>"

text \<open>
  C18. The transfers of a set stay bounded for ever: from the set's creation on, through every order of
  needs, publishes, offers, pulls, outcomes, refusals and pumps, a peer never holds more than two
  publish slots (in flight or handed out) nor more than two outstanding needs, and the memories of
  refusals and of early outcomes keep to their caps.
\<close>

theorem transfers_stay_bounded:
  assumes "fresh m root sn now d = (Inr st, d')"
    and "st' = foldl (apply_transfer dp idn sn sid sv) st ops"
  shows "length (slots_of peer (ss_published st')) + length (slots_of peer (ss_publishing st')) \<le> 2 \<and>
    length (needs_of peer st') \<le> 2 \<and> length (ss_refused st') \<le> 4096 \<and> length (ss_early_outcomes st') \<le> 16"
  using transfers_run [OF fresh_transfers_ok [OF assms(1)], of dp idn sn sid sv ops]
  by (simp add: assms(2) transfers_ok_def needs_ok_def slots_ok_def needs_of_def PUBLISHED_PER_PEER_def
      NEEDS_PER_PEER_def REFUSALS_MAX_def EARLY_OUTCOMES_MAX_def)

lemma transfers_stay_bounded_witness:
  "let st' = foldl (apply_transfer sample_deps sample_identity node_a (replicate 22 CHR ''A'') empty_store) bound_state asking_run
   in length (ss_needs st') = 1 \<and>
      length (slots_of node_b (ss_published st')) + length (slots_of node_b (ss_publishing st')) \<le> 2 \<and>
      length (needs_of node_b st') \<le> 2 \<and> length (ss_refused st') \<le> 4096 \<and> length (ss_early_outcomes st') \<le> 16"
  unfolding Let_def using asked_once(1) transfers_stay_bounded [OF bound_fresh refl] by blast

text \<open>
  No file is asked for twice at once: in every history of a set the paths of its outstanding needs
  are all different, the need ids never exceed the counter, and a pull only names files of its own need,
  each under its basename.
\<close>

theorem no_file_is_asked_twice:
  assumes "fresh m root sn now d = (Inr st, d')"
    and "st' = foldl (apply_transfer dp idn sn sid sv) st ops"
  shows "distinct (claimed_paths st') \<and>
    list_all (\<lambda>p. fst p \<le> ss_need_counter st' \<and> pull_inside (snd p)) (ss_needs st')"
  using transfers_run [OF fresh_transfers_ok [OF assms(1)], of dp idn sn sid sv ops]
  by (simp add: assms(2) transfers_ok_def needs_ok_def claimed_paths_def list_all_iff)

lemma no_file_is_asked_twice_witness:
  "let st' = foldl (apply_transfer sample_deps sample_identity node_a (replicate 22 CHR ''A'') empty_store) bound_state asking_run
   in claimed_paths st' = [''d/f''] \<and> distinct (claimed_paths st') \<and>
      list_all (\<lambda>p. fst p \<le> ss_need_counter st' \<and> pull_inside (snd p)) (ss_needs st')"
  unfolding Let_def using asked_once(2) no_file_is_asked_twice [OF bound_fresh refl] by blast

text \<open>
  A source only publishes live files of its own index, to an active member, while it is active itself
  and has a root, and exactly the files of the need, each at the host path of its wire path.
\<close>

theorem only_live_files_are_published:
  assumes "on_need fx sn r sid i paths now st = (out, st')" and "Publish to sid' i' fs_paths \<in> set out"
  shows "to = r \<and> effective (ss_membership st) r = EActive \<and> effective (ss_membership st) sn = EActive \<and>
    ss_root st \<noteq> None \<and> list_all (live_file st) paths \<and> fs_paths = map (host_path st) paths"
  using published_files [OF assms] by simp

lemma only_live_files_are_published_witness:
  "\<exists>out. fst (on_need still_fs node_b node_a (replicate 22 CHR ''A'') 1 [''d/f''] 9 source_state) = out \<and>
     Publish node_a (replicate 22 CHR ''A'') 1 [''/r/d/f''] \<in> set out \<and> list_all (live_file source_state) [''d/f''] \<and>
     [''/r/d/f''] = map (host_path source_state) [''d/f'']"
proof -
  obtain src where "on_need still_fs node_b node_a (replicate 22 CHR ''A'') 1 [''d/f''] 9 source_state =
      ([Publish node_a (replicate 22 CHR ''A'') 1 [''/r/d/f'']], src)"
    using sample_serve by blast
  with only_live_files_are_published [OF this] show ?thesis by simp
qed

text \<open>
  C19. A need comes back as its pull: the message a pump mints passes the receiver's gate as a need of
  the same set that asks for at least one path; whenever the source publishes for it, the offer it
  sends passes the needer's gate, and the needer adopts it whole: every asked path comes back once,
  under its basename.
\<close>

theorem a_need_comes_back_as_its_pull:
  assumes asked: "need_of_peer sid now ([], claimed, st) peer = ([Send peer payload], claimed', st')"
    and gates: "valid_set_id sid" "list_all (path_ok is_nfc) (map fst (ss_pending st))" "ss_root st = Some root" "tx_ok tx"
  shows "\<exists>i paths. message_from_value is_nfc payload = Some (MsgNeed sid i paths) \<and> paths \<noteq> [] \<and>
    (\<forall>fx now' src out src' fs_paths.
       on_need fx peer me sid i paths now' src = (out, src') \<longrightarrow> Publish me sid i fs_paths \<in> set out \<longrightarrow>
       (\<exists>files src'' st''.
          on_published me sid i tx src' = ([Send me (message_to_value (MsgOffer sid i tx files))], src'') \<and>
          message_from_value is_nfc (message_to_value (MsgOffer sid i tx files)) = Some (MsgOffer sid i tx files) \<and>
          on_offer peer sid i tx files st' = ([AdoptFill peer sid i tx files (staging_of root i)], st'') \<and>
          map fst files = map basename (map snd files) \<and> mset (map snd files) = mset paths))"
proof -
  from asked obtain paths watermark i where sent: "payload = message_to_value (MsgNeed sid i paths)" "paths \<noteq> []"
    and chunk: "paths = fill_chunk (chunk_rule_for st now claimed peer watermark) [] [] 0 (ss_pending st)"
    and root: "ss_root st' = ss_root st"
    and need: "map_of (ss_needs st') i = Some \<lparr>nd_peer = peer, nd_paths = bt_of_list (map (\<lambda>p. (p, ())) paths), nd_pull = None, nd_born_at = now\<rparr>"
    by (rule minted_by)
  have ok: "message_ok is_nfc (MsgNeed sid i paths)" unfolding chunk by (rule minted_need_ok [OF gates(1,2)])
  have read: "message_from_value is_nfc payload = Some (MsgNeed sid i paths)"
    unfolding sent(1) by (rule message_round_trip_aux [OF ok])
  define files where "files = bt_of_list (map (\<lambda>p. (basename p, p)) paths)"
  have paths: "list_all (path_ok is_nfc) paths" "distinct (map basename paths)" "length paths \<le> 4096"
    using ok by (simp_all add: message_ok_def page_of_def)
  note f = served_files [OF paths(2), folded files_def]
  have "path_ok is_nfc (fst g) \<and> path_ok is_nfc (snd g)" if "g \<in> set files" for g
  proof -
    from that f(3) have "path_ok is_nfc (snd g)" using paths(1) by (force simp: list_all_iff)
    with f(4) that show ?thesis using basename_gated by auto
  qed
  then have wire: "message_ok is_nfc (MsgOffer sid i tx files)"
    using gates(1,4) f(2) paths(3) by (simp add: message_ok_def page_of_def list_all_iff)
  have dist: "distinct (map fst files)" using f(1) bt_ok_distinct by blast
  have "\<forall>g \<in> set files. basename (snd g) = fst g \<and> map_of (bt_of_list (map (\<lambda>p. (p, ())) paths)) (snd g) \<noteq> None"
    using f(3,4) asked_paths [of paths] by (metis image_eqI)
  from offer_map_accepts [OF this dist, of "[]"]
  have names: "offer_map (bt_of_list (map (\<lambda>p. (p, ())) paths)) files [] = Some files" by (simp add: bt_of_list_sorted f(1))
  have "files \<noteq> []" using f(2) sent(2) by auto
  then obtain st'' where adopt: "on_offer peer sid i tx files st' = ([AdoptFill peer sid i tx files (staging_of root i)], st'')"
    using need root gates(3) names by (simp add: on_offer_def Let_def)
  have same: "mset (map snd files) = mset paths"
  proof -
    have "distinct (map snd files)"
      using f(2,3) paths(2) by (metis card_distinct distinct_card distinct_map length_map set_map)
    moreover have "distinct paths" using paths(2) by (simp add: distinct_map)
    ultimately show ?thesis using f(3) set_eq_iff_mset_eq_distinct [of "map snd files" paths] by simp
  qed
  have "\<exists>src''. on_published me sid i tx src' = ([Send me (message_to_value (MsgOffer sid i tx files))], src'')"
    if "on_need fx peer me sid i paths now' src = (out, src')" "Publish me sid i fs_paths \<in> set out"
    for fx now' src out src' fs_paths
    using published_files [OF that] by (simp add: on_published_def files_def)
  then show ?thesis using read sent(2) adopt same f(4) message_round_trip_aux [OF wire] by fastforce
qed

lemma a_need_comes_back_as_its_pull_witness:
  "\<exists>st' src' files src'' st''.
     need_of_peer (replicate 22 CHR ''A'') 5 ([], [], asking_state) node_b =
       ([Send node_b (message_to_value (MsgNeed (replicate 22 CHR ''A'') 1 [''d/f'']))], [''d/f''], st') \<and>
     on_need still_fs node_b node_a (replicate 22 CHR ''A'') 1 [''d/f''] 9 source_state =
       ([Publish node_a (replicate 22 CHR ''A'') 1 [''/r/d/f'']], src') \<and>
     on_published node_a (replicate 22 CHR ''A'') 1 ''tx'' src' =
       ([Send node_a (message_to_value (MsgOffer (replicate 22 CHR ''A'') 1 ''tx'' files))], src'') \<and>
     on_offer node_b (replicate 22 CHR ''A'') 1 ''tx'' files st' =
       ([AdoptFill node_b (replicate 22 CHR ''A'') 1 ''tx'' files (staging_of ''/r'' 1)], st'') \<and>
     mset (map snd files) = {#''d/f''#}"
proof -
  let ?sid = "replicate 22 CHR ''A''"
  obtain st' where ask: "need_of_peer ?sid 5 ([], [], asking_state) node_b =
      ([Send node_b (message_to_value (MsgNeed ?sid 1 [''d/f'']))], [''d/f''], st')" using asking_turn by blast
  obtain src' where serve: "on_need still_fs node_b node_a ?sid 1 [''d/f''] 9 source_state =
      ([Publish node_a ?sid 1 [''/r/d/f'']], src')" using sample_serve by blast
  have gates: "valid_set_id ?sid" "list_all (path_ok (\<lambda>_. True)) (map fst (ss_pending asking_state))"
      "ss_root asking_state = Some ''/r''" "tx_ok ''tx''"
    and wire: "message_ok (\<lambda>_. True) (MsgNeed ?sid 1 [''d/f''])"
    using sample_path by (simp_all add: valid_set_id_def is_alnum_def is_digit_def tx_ok_def message_ok_def page_of_def list_all_iff)
  from a_need_comes_back_as_its_pull [OF ask gates] message_round_trip_aux [OF wire]
  have "\<forall>fx now' src out src' fs_paths.
      on_need fx node_b node_a ?sid 1 [''d/f''] now' src = (out, src') \<longrightarrow> Publish node_a ?sid 1 fs_paths \<in> set out \<longrightarrow>
      (\<exists>files src'' st''.
         on_published node_a ?sid 1 ''tx'' src' = ([Send node_a (message_to_value (MsgOffer ?sid 1 ''tx'' files))], src'') \<and>
         on_offer node_b ?sid 1 ''tx'' files st' = ([AdoptFill node_b ?sid 1 ''tx'' files (staging_of ''/r'' 1)], st'') \<and>
         mset (map snd files) = mset [''d/f''])"
    by fastforce
  from this [rule_format, OF serve] ask serve show ?thesis by fastforce
qed

text \<open>
  A file with two strikes waits behind paths nobody is ever asked for: while any unstruck path is
  pending, even a tombstone or a directory that waits for a user to move, and no unstruck path has a file
  to pull, a pump asks no peer for anything, although every struck file may be there for the asking.
\<close>

theorem a_struck_path_starves:
  assumes "map_of (ss_pending st) q = Some vs" and "\<not> is_hot st q" and "q \<notin> set (claimed_paths (reclaim_needs now st))"
    and "list_all (\<lambda>p. is_hot st (fst p) \<or> pulled_version (snd p) = None) (ss_pending st)"
  shows "fst (pump_needs sn sid reachable now st sv) = []"
proof -
  let ?st = "reclaim_needs now st"
  let ?acc = "([], claimed_paths ?st, ?st) :: effect list \<times> string list \<times> set_state"
  have "need_of_peer sid now ?acc peer = ?acc" for peer
  proof (cases "need_of_peer sid now ?acc peer")
    case (fields out claimed st')
    from fields show ?thesis
    proof (cases rule: need_of_peer_cases)
      case (minted watermark chunk)
      let ?ck = "chunk_rule_for ?st now (claimed_paths ?st) peer watermark"
      note c = fresh_chunk [where ck = ?ck and pending = "ss_pending ?st", folded minted(2)]
      have same: "ss_pending ?st = ss_pending st" "is_hot ?st p = is_hot st p" for p
        by (simp_all add: reclaim_needs_def is_hot_def)
      obtain p where p: "p \<in> set chunk" using minted(3) by (cases chunk) auto
      have "ck_others ?ck"
        using assms(1-3) map_of_SomeD [OF assms(1)] by (force simp: chunk_rule_for_def same list_ex_iff)
      with c(4) [OF _ p] have cold: "\<not> is_hot st p" by (auto simp: chunk_rule_for_def same)
      have "askable ?ck (ss_pending ?st) p" using c(1) p by (auto simp: list_all_iff)
      then obtain ws e where "(p, ws) \<in> set (ss_pending st)" "pulled_version ws = Some e"
        by (auto simp: askable_def same)
      with assms(4) cold show ?thesis by (force simp: list_all_iff)
    qed (simp add: fields)
  qed
  then have "foldl (need_of_peer sid now) ?acc peers = ?acc" for peers by (induction peers) simp_all
  then show ?thesis by (simp add: pump_needs_def Let_def)
qed


lemma a_struck_path_starves_witness:
  "fst (pump_needs node_a (replicate 22 CHR ''A'') [node_b] 5 struck_state empty_store) = [] \<and>
   fst (pump_needs node_a (replicate 22 CHR ''A'') [node_b] 5 (struck_state\<lparr>ss_pending := ss_pending asking_state\<rparr>) empty_store) \<noteq> []"
proof
  show "fst (pump_needs node_a (replicate 22 CHR ''A'') [node_b] 5 struck_state empty_store) = []"
    by (rule a_struck_path_starves [of _ "''g''" "[(file_at ''g'' [(''p'', 2)])\<lparr>e_deleted := True\<rparr>]"])
      (simp_all add: struck_state_def is_hot_def reclaim_needs_def claimed_paths_def pulled_version_def)
  show "fst (pump_needs node_a (replicate 22 CHR ''A'') [node_b] 5 (struck_state\<lparr>ss_pending := ss_pending asking_state\<rparr>) empty_store) \<noteq> []"
    by (simp add: struck_state_def asking_steps)
qed

end
