(* ===== verification/Gestures.thy ===== *)
theory Gestures
  imports Transfers
begin

text \<open>
  The engine over its sets (\<open>Engine\<close> of \<open>sync/src/engine.rs\<close>) and the gestures of its user: creating a
  set, inviting, accepting, pausing, resuming, declining and leaving, resolving a conflict, and the
  reception of an invitation.

  The store is a function from set ids to the two documents of a set; the durable clock of a new set is
  opened on the disk given to the operation. A signature over a record out of the canonical bounds
  panics in the code: that is the error \<open>Panic\<close>.
\<close>

definition RETRY_BUDGET :: nat where "RETRY_BUDGET = 64"

definition OPEN_INTERVAL_SECS :: nat where "OPEN_INTERVAL_SECS = 5"

definition SETS_MAX :: nat where "SETS_MAX = 64"

record directory_view =
  dv_device_of :: "(string, string) btree"
  dv_names :: "(string, string) btree"
  dv_reachable :: "string bset"
  dv_platforms :: "(string, string) btree"
  dv_last_seen :: "(string, json) btree"

record engine =
  en_self :: string
  en_identity :: identity
  en_sets :: "(string, set_state) btree"
  en_store :: "string \<Rightarrow> set_store"
  en_round_counter :: nat
  en_sent_rounds :: "(nat, bool) btree"
  en_directory :: directory_view

datatype gesture_error = Panic | Refused string | Io

definition put_set :: "string \<Rightarrow> set_state \<Rightarrow> engine \<Rightarrow> engine" where
  "put_set set_id st en = en\<lparr>en_sets := bt_insert set_id st (en_sets en)\<rparr>"

definition remove_set :: "string \<Rightarrow> engine \<Rightarrow> engine" where
  "remove_set set_id en = en\<lparr>en_sets := bt_remove set_id (en_sets en)\<rparr>"

definition persist_set :: "string \<Rightarrow> set_state \<Rightarrow> engine \<Rightarrow> bool \<times> engine" where
  "persist_set set_id st en =
     (case persist st (en_store en set_id) of
        (ok, sv) \<Rightarrow> (ok, en\<lparr>en_store := (en_store en)(set_id := sv)\<rparr>))"

definition next_round :: "bool \<Rightarrow> engine \<Rightarrow> nat \<times> engine" where
  "next_round answer en =
     (let n = en_round_counter en + 1; sent = bt_insert n answer (en_sent_rounds en)
      in (n, en\<lparr>en_round_counter := n, en_sent_rounds := drop (length sent - 512) sent\<rparr>))"

section \<open>Own records\<close>

text \<open>The outcome of absorbing our own record is only asserted in debug builds.\<close>

definition sign_own_status ::
  "deps \<Rightarrow> identity \<Rightarrow> string \<Rightarrow> member_status \<Rightarrow> nat \<Rightarrow> set_state \<Rightarrow> (absorb \<times> set_state) option" where
  "sign_own_status dp idn self_node status now st =
     (let m = pin_direct dp self_node (id_public_hex idn) (ss_membership st)
      in case sign_own dp idn (sd_set_id (sm_descriptor m)) self_node status (next_seq m self_node)
                (c_generation (ss_clock st)) now of
           None \<Rightarrow> None
         | Some r \<Rightarrow> (case absorb_record dp (Member r) m of (a, m) \<Rightarrow> Some (a, st\<lparr>ss_membership := m\<rparr>)))"

definition announce_to_members :: "string \<Rightarrow> set_state \<Rightarrow> set_state" where
  "announce_to_members self_node st =
     (let members = filter (\<lambda>n. n \<noteq> self_node \<and> is_admitted (ss_membership st) n) (device_ids (ss_membership st))
      in st\<lparr>ss_announce := foldl (\<lambda>s n. bt_insert n () s) (ss_announce st) members\<rparr>)"

section \<open>Gestures\<close>

definition create_set ::
  "deps \<Rightarrow> string \<Rightarrow> disk \<Rightarrow> string \<Rightarrow> set_kind \<Rightarrow> string \<Rightarrow> nat \<Rightarrow> engine \<Rightarrow> (gesture_error + string) \<times> engine" where
  "create_set dp set_id d root kind name now en =
     (case descriptor_create dp (en_identity en) set_id kind name (en_self en) now of
        None \<Rightarrow> (Inl Panic, en)
      | Some descriptor \<Rightarrow>
          let m = pin_direct dp (en_self en) (id_public_hex (en_identity en)) (membership_new descriptor)
          in case fresh m (Some root) (en_self en) now d of
               (Inl e, d) \<Rightarrow> (Inl Io, en)
             | (Inr st, d) \<Rightarrow>
                 (case sign_own_status dp (en_identity en) (en_self en) Active now st of
                    None \<Rightarrow> (Inl Panic, en)
                  | Some (a, st) \<Rightarrow>
                      (case persist_set set_id st en of
                         (False, en) \<Rightarrow> (Inl Io, en)
                       | (True, en) \<Rightarrow> (Inr set_id, put_set set_id st en))))"

text \<open>A failed write leaves the invitation in memory: the state was changed in place.\<close>

definition invite ::
  "deps \<Rightarrow> string \<Rightarrow> string \<Rightarrow> nat \<Rightarrow> engine \<Rightarrow> (gesture_error + unit) \<times> engine" where
  "invite dp set_id invitee now en =
     (if \<not> valid_node_id invitee \<or> invitee = en_self en then (Inl (Refused ''not an invitable device''), en)
      else case map_of (en_sets en) set_id of
        None \<Rightarrow> (Inl (Refused ''unknown set''), en)
      | Some st \<Rightarrow>
          if effective (ss_membership st) (en_self en) \<noteq> EActive
          then (Inl (Refused ''only an active member invites''), en)
          else
            (case sign_invite dp (en_identity en) set_id invitee (en_self en)
                    (next_seq (ss_membership st) invitee - 1) now of
               None \<Rightarrow> (Inl Panic, en)
             | Some invited \<Rightarrow>
                 let m = snd (absorb_record dp (Invited invited) (ss_membership st));
                     st = announce_to_members (en_self en)
                            (st\<lparr>ss_membership := m, ss_open_invites := bt_insert invitee RETRY_BUDGET (ss_open_invites st)\<rparr>)
                 in case persist_set set_id st en of
                      (ok, en) \<Rightarrow> (if ok then Inr () else Inl Io, put_set set_id st en)))"

text \<open>
  \<open>accept\<close> and \<open>sign_status\<close> take the set out of the map, and a failed write returns before it is put
  back.
\<close>

definition accept ::
  "deps \<Rightarrow> string \<Rightarrow> string \<Rightarrow> nat \<Rightarrow> engine \<Rightarrow> (gesture_error + unit) \<times> engine" where
  "accept dp set_id root now en =
     (case map_of (en_sets en) set_id of
        None \<Rightarrow> (Inl (Refused ''unknown set''), en)
      | Some st \<Rightarrow>
          if effective (ss_membership st) (en_self en) \<noteq> EInvited then (Inl (Refused ''not invited''), en)
          else
            (case sign_own_status dp (en_identity en) (en_self en) Active now (st\<lparr>ss_root := Some root\<rparr>) of
               None \<Rightarrow> (Inl Panic, en)
             | Some (a, st) \<Rightarrow>
                 let st = announce_to_members (en_self en) st
                 in case persist_set set_id st (remove_set set_id en) of
                      (False, en) \<Rightarrow> (Inl Io, en)
                    | (True, en) \<Rightarrow> (Inr (), put_set set_id st en)))"

definition gesture_allowed :: "member_status \<Rightarrow> effective_status \<Rightarrow> bool" where
  "gesture_allowed status standing \<longleftrightarrow>
     (case status of
        Declined \<Rightarrow> standing = EInvited
      | _ \<Rightarrow> standing = EActive \<or> standing = EPaused)"

text \<open>What a terminal gesture does to the state, and the transactions it revokes.\<close>

definition leave_set :: "string \<Rightarrow> set_state \<Rightarrow> effect list \<times> set_state" where
  "leave_set self_node st =
     (let owed = filter (\<lambda>n. n \<noteq> self_node \<and>
                   (is_admitted (ss_membership st) n \<or> effective (ss_membership st) n = EInvited))
                 (device_ids (ss_membership st));
          st = (if owed = [] then st
                else st\<lparr>ss_stub := Some \<lparr>st_remaining = bt_of_list (map (\<lambda>n. (n, ())) owed),
                                          st_attempts = RETRY_BUDGET\<rparr>\<rparr>)
      in (map (\<lambda>p. Revoke (snd p)) (ss_published st),
          st\<lparr>ss_published := [], ss_publishing := [], ss_root := None, ss_pending := [], ss_needs := [],
             ss_parked := []\<rparr>))"

definition sign_status ::
  "deps \<Rightarrow> string \<Rightarrow> member_status \<Rightarrow> nat \<Rightarrow> engine \<Rightarrow> (gesture_error + effect list) \<times> engine" where
  "sign_status dp set_id status now en =
     (case map_of (en_sets en) set_id of
        None \<Rightarrow> (Inl (Refused ''unknown set''), en)
      | Some st \<Rightarrow>
          if \<not> gesture_allowed status (effective (ss_membership st) (en_self en))
          then (Inl (Refused ''gesture not available in this state''), en)
          else
            let st = (if status = Active then st\<lparr>ss_claim := None, ss_disk_full := False\<rparr> else st)
            in case sign_own_status dp (en_identity en) (en_self en) status now st of
                 None \<Rightarrow> (Inl Panic, en)
               | Some (a, st) \<Rightarrow>
                   (case (if is_terminal status then leave_set (en_self en) st else ([], st)) of
                      (out, st) \<Rightarrow>
                        let st = announce_to_members (en_self en) st
                        in case persist_set set_id st (remove_set set_id en) of
                             (False, en) \<Rightarrow> (Inl Io, en)
                           | (True, en) \<Rightarrow> (Inr out, put_set set_id st en)))"

definition already_in :: "string \<Rightarrow> string \<Rightarrow> engine \<Rightarrow> bool" where
  "already_in set_id node en =
     (case map_of (en_sets en) set_id of
        None \<Rightarrow> False
      | Some st \<Rightarrow> effective (ss_membership st) node \<in> {EActive, EPaused, EInvited})"

definition is_invited :: "string \<Rightarrow> engine \<Rightarrow> bool" where
  "is_invited set_id en =
     (case map_of (en_sets en) set_id of
        None \<Rightarrow> False | Some st \<Rightarrow> effective (ss_membership st) (en_self en) = EInvited)"

definition invite_eligible :: "string \<Rightarrow> engine \<Rightarrow> string + unit" where
  "invite_eligible node en =
     (if node = en_self en then Inl ''oneself''
      else if map_of (dv_device_of (en_directory en)) node = None then Inl ''unknown device''
      else if map_of (dv_platforms (en_directory en)) node = Some ''android'' then Inl ''mobile''
      else Inr ())"

section \<open>Resolving a conflict\<close>

text \<open>The outcome of the rename that puts the kept copy at the plain path is \<open>moved\<close>.\<close>

definition bury :: "string \<Rightarrow> entry \<Rightarrow> set_state \<Rightarrow> set_state" where
  "bury key e st =
     (case bump key (e_vv e) st of
        (vv, st) \<Rightarrow> upsert (e\<lparr>e_deleted := True, e_hash := [], e_size := 0, e_vv := vv\<rparr>) st)"

definition live_vid :: "deps \<Rightarrow> conflict_env \<Rightarrow> entry option \<Rightarrow> string option" where
  "live_vid dp cx e =
     (case e of None \<Rightarrow> None | Some e \<Rightarrow> if e_deleted e then None else version_id dp cx e)"

definition keep_one ::
  "deps \<Rightarrow> conflict_env \<Rightarrow> fs_env \<Rightarrow> bool \<Rightarrow> string \<Rightarrow> string \<Rightarrow> string \<Rightarrow> string \<Rightarrow> set_state \<Rightarrow>
   (string + unit) \<times> set_state" where
  "keep_one dp cx fx moved key path copy_at keep st =
     (let plain = index_get (ss_index st) path; copy = index_get (ss_index st) copy_at
      in if ss_root st = None then (Inl ''SYNC_INTERNAL'', st)
         else if live_vid dp cx plain = Some keep
         then (Inr (), (case copy of None \<Rightarrow> st | Some copy \<Rightarrow> bury key copy st))
         else
           (case copy of
              None \<Rightarrow> (Inl ''SYNC_NOT_READY'', st)
            | Some copy \<Rightarrow>
                if e_deleted copy then (Inl ''SYNC_NOT_READY'', st)
                else if live_vid dp cx (Some copy) \<noteq> Some keep then (Inl ''SYNC_NO_VERSION'', st)
                else
                  (case plain of
                     None \<Rightarrow> (Inl ''SYNC_NO_VERSION'', st)
                   | Some plain \<Rightarrow>
                       if \<not> fs_path fx path st \<or> \<not> fs_path fx (e_path copy) st \<or> \<not> moved
                       then (Inl ''SYNC_INTERNAL'', st)
                       else
                         (case bump key (merge_max (e_vv plain) (e_vv copy)) st of
                            (vv, st) \<Rightarrow>
                              (Inr (), bury key copy (upsert (copy\<lparr>e_path := path, e_vv := vv\<rparr>) st))))))"

definition resolve ::
  "deps \<Rightarrow> conflict_env \<Rightarrow> fs_env \<Rightarrow> bool \<Rightarrow> string \<Rightarrow> string \<Rightarrow> string \<Rightarrow> engine \<Rightarrow> (string + unit) \<times> engine" where
  "resolve dp cx fx moved set_id path keep en =
     (case map_of (en_sets en) set_id of
        None \<Rightarrow> (Inl ''SYNC_UNKNOWN_SET'', en)
      | Some st \<Rightarrow>
          (case find (\<lambda>p. \<not> cr_resolved (snd p) \<and> cr_path (snd p) = path) (ss_conflicts st) of
             None \<Rightarrow> (Inl ''SYNC_NO_CONFLICT'', en)
           | Some (_, r) \<Rightarrow>
               (case (if keep = ''all'' then (Inr (), st)
                      else keep_one dp cx fx moved (self_component (ss_clock st) (en_self en)) path
                             (cr_path_on_disk r) keep st) of
                  (Inl e, st) \<Rightarrow> (Inl e, put_set set_id st en)
                | (Inr _, st) \<Rightarrow>
                    (case conflict_sign dp (en_identity en) (cr_set_id r) (cr_path r) (cr_conflict_id r)
                            (cr_path_on_disk r) (Some (en_self en)) (en_self en) of
                       None \<Rightarrow> (Inl ''panic'', put_set set_id st en)
                     | Some resolved \<Rightarrow>
                         let st = announce_to_members (en_self en) (absorb_conflict dp resolved st)
                         in case persist_set set_id st en of
                              (ok, en) \<Rightarrow> (if ok then Inr () else Inl ''SYNC_INTERNAL'', put_set set_id st en)))))"

section \<open>Invitations\<close>

definition absorb_gossip :: "deps \<Rightarrow> wire_record list \<Rightarrow> endorsement list \<Rightarrow> membership \<Rightarrow> membership" where
  "absorb_gossip dp records endorsements m =
     foldl (\<lambda>m e. snd (absorb_endorsement dp e m)) (foldl (\<lambda>m r. snd (absorb_record dp r m)) m records) endorsements"

text \<open>The state a first invitation plants, when the sender is active by the records it carries.\<close>

definition invited_state ::
  "deps \<Rightarrow> disk \<Rightarrow> string \<Rightarrow> string \<Rightarrow> set_descriptor \<Rightarrow> wire_record list \<Rightarrow> endorsement list \<Rightarrow> string \<Rightarrow> nat \<Rightarrow>
   set_state option" where
  "invited_state dp d self_node from descriptor records endorsements sync_pub now =
     (let m = absorb_gossip dp records endorsements (pin_direct dp from sync_pub (membership_new descriptor))
      in if effective m from \<noteq> EActive then None
         else if (case key_for m (sd_created_by descriptor) of
                    None \<Rightarrow> False | Some key \<Rightarrow> \<not> descriptor_verify dp key descriptor) then None
         else (case fresh m None self_node now d of (Inl e, d) \<Rightarrow> None | (Inr st, d) \<Rightarrow> Some st))"

definition refresh_invited ::
  "deps \<Rightarrow> string \<Rightarrow> string \<Rightarrow> wire_record list \<Rightarrow> endorsement list \<Rightarrow> nat \<times> nat \<Rightarrow> string \<Rightarrow> set_state \<Rightarrow>
   bool \<times> set_state" where
  "refresh_invited dp self_node from records endorsements stats sync_pub st =
     (let m = absorb_gossip dp records endorsements (pin_direct dp from sync_pub (ss_membership st));
          st = st\<lparr>ss_membership := m\<rparr>
      in if effective m from \<noteq> EActive then (False, st)
         else (True,
               if effective m self_node = EInvited
               then st\<lparr>ss_claim := Some \<lparr>ic_inviter = from, ic_entries = fst stats, ic_total_size = snd stats\<rparr>\<rparr>
               else st))"

definition on_invite ::
  "deps \<Rightarrow> disk \<Rightarrow> string \<Rightarrow> string \<Rightarrow> set_descriptor \<Rightarrow> wire_record list \<Rightarrow> endorsement list \<Rightarrow> nat \<times> nat \<Rightarrow>
   string \<Rightarrow> nat \<Rightarrow> engine \<Rightarrow> effect list \<times> engine" where
  "on_invite dp d from set_id descriptor records endorsements stats sync_pub now en =
     (case (case map_of (en_sets en) set_id of
              Some st \<Rightarrow> Some st
            | None \<Rightarrow>
                if SETS_MAX \<le> length (en_sets en) then None
                else invited_state dp d (en_self en) from descriptor records endorsements sync_pub now) of
        None \<Rightarrow> ([], en)
      | Some st \<Rightarrow>
          (case refresh_invited dp (en_self en) from records endorsements stats sync_pub st of
             (False, st) \<Rightarrow> ([], put_set set_id st en)
           | (True, st) \<Rightarrow>
               (case persist_set set_id st en of
                  (ok, en) \<Rightarrow>
                    (if ok then [Send from (message_to_value (MsgInviteAck set_id))] else [], put_set set_id st en))))"

definition on_invite_ack :: "string \<Rightarrow> string \<Rightarrow> engine \<Rightarrow> engine" where
  "on_invite_ack from set_id en =
     (case map_of (en_sets en) set_id of
        None \<Rightarrow> en
      | Some st \<Rightarrow>
          if map_of (ss_open_invites st) from = None then en
          else
            let st = st\<lparr>ss_open_invites := bt_remove from (ss_open_invites st)\<rparr>
            in case persist_set set_id st en of
                 (True, en) \<Rightarrow> put_set set_id st en
               | (False, en) \<Rightarrow>
                   put_set set_id (st\<lparr>ss_open_invites := bt_insert from RETRY_BUDGET (ss_open_invites st)\<rparr>) en)"

text \<open>\<open>None\<close> when the set is unknown; the sum wraps at 64 bits in a release build.\<close>

definition build_invite :: "string \<Rightarrow> engine \<Rightarrow> json option" where
  "build_invite set_id en =
     (case map_of (en_sets en) set_id of
        None \<Rightarrow> None
      | Some st \<Rightarrow>
          Some (message_to_value
            (MsgInvite set_id (sm_descriptor (ss_membership st))
               (List.map_filter record_from_value (all_records (ss_membership st)))
               (held_endorsements (ss_membership st))
               (length (live (ss_index st)))
               (sum_list (map e_size (live (ss_index st))) mod 2 ^ 64)
               (id_public_hex (en_identity en)))))"

end
