(* ===== verification/Engine.thy ===== *)
theory Engine
  imports Gestures
begin

text \<open>
  The engine's two drivers (\<open>sync/src/engine.rs\<close>): \<open>on_message\<close>, which dispatches a peer's message to
  its handler, and \<open>pump\<close>, which opens rounds, retries invitations, introduces devices, asks for files
  and keeps the proofs of a departure going. The callbacks of the transfers are lifted to the engine.

  What the engine reads from outside is the record \<open>world\<close>: cryptography, the descriptor hash, the
  serialized size, normalization, and the outcomes of filesystem calls per set.
\<close>

record world =
  wd_deps :: deps
  wd_hash :: "set_descriptor \<Rightarrow> string"
  wd_size :: "json \<Rightarrow> nat"
  wd_is_nfc :: "string \<Rightarrow> bool"
  wd_fs :: "string \<Rightarrow> fs_env"
  wd_conflict :: "string \<Rightarrow> string \<Rightarrow> conflict_env"
  wd_disk :: "string \<Rightarrow> disk"

definition sends :: "(string \<times> json) list \<Rightarrow> effect list" where
  "sends = map (\<lambda>p. Send (fst p) (snd p))"

definition on_set :: "string \<Rightarrow> (set_state \<Rightarrow> effect list \<times> set_state) \<Rightarrow> engine \<Rightarrow> effect list \<times> engine" where
  "on_set set_id f en =
     (case map_of (en_sets en) set_id of
        None \<Rightarrow> ([], en)
      | Some st \<Rightarrow> (case f st of (out, st) \<Rightarrow> (out, put_set set_id st en)))"

definition on_stored ::
  "string \<Rightarrow> (set_state \<Rightarrow> set_store \<Rightarrow> effect list \<times> set_state \<times> set_store) \<Rightarrow> engine \<Rightarrow> effect list \<times> engine" where
  "on_stored set_id f en =
     (case map_of (en_sets en) set_id of
        None \<Rightarrow> ([], en)
      | Some st \<Rightarrow>
          (case f st (en_store en set_id) of
             (out, st, sv) \<Rightarrow> (out, (put_set set_id st en)\<lparr>en_store := (en_store en)(set_id := sv)\<rparr>)))"

definition silently :: "(set_state \<Rightarrow> set_state) \<Rightarrow> set_state \<Rightarrow> effect list \<times> set_state" where
  "silently f st = ([], f st)"

text \<open>The directory's device names are those of the engine.\<close>

definition conflict_world :: "world \<Rightarrow> engine \<Rightarrow> string \<Rightarrow> string \<Rightarrow> conflict_env" where
  "conflict_world w en set_id path = (wd_conflict w set_id path)\<lparr>cx_names := dv_names (en_directory en)\<rparr>"

section \<open>Receiving\<close>

text \<open>An answer has a head, so the round number is taken exactly when something is sent.\<close>

definition receive_head ::
  "world \<Rightarrow> string \<Rightarrow> string \<Rightarrow> nat \<Rightarrow> nat option \<Rightarrow> head_position option \<Rightarrow> string \<Rightarrow> nat \<Rightarrow> engine \<Rightarrow>
   effect list \<times> engine" where
  "receive_head w from set_id round answers position sync_pub now en =
     (let pub = id_public_hex (en_identity en); (n, numbered) = next_round True en
      in case map_of (en_sets en) set_id of
           None \<Rightarrow> ([Send from (no_membership_marker set_id n round pub)], numbered)
         | Some st \<Rightarrow>
             let closes = (case answers of None \<Rightarrow> False
                           | Some theirs \<Rightarrow> map_of (en_sent_rounds en) theirs \<noteq> Some False)
             in case on_head (wd_deps w) (wd_fs w set_id) (wd_hash w) (wd_size w) (en_self en) pub n closes
                       from set_id round answers position sync_pub now st (en_store en set_id) of
                  (out, st, sv) \<Rightarrow>
                    (sends out, (put_set set_id st (if out = [] then en else numbered))
                                  \<lparr>en_store := (en_store en)(set_id := sv)\<rparr>))"

definition receive :: "world \<Rightarrow> string \<Rightarrow> message \<Rightarrow> nat \<Rightarrow> engine \<Rightarrow> effect list \<times> engine" where
  "receive w from m now en =
     (let dp = wd_deps w; me = en_self en
      in case m of
           MsgInvite set_id descriptor records endorsements entries total_size sync_pub \<Rightarrow>
             on_invite dp (wd_disk w set_id) from set_id descriptor records endorsements (entries, total_size) sync_pub now en
         | MsgInviteAck set_id \<Rightarrow> ([], on_invite_ack from set_id en)
         | MsgHead set_id round answers position sync_pub \<Rightarrow>
             receive_head w from set_id round answers position sync_pub now en
         | MsgRecords set_id round page records endorsements conflicts \<Rightarrow>
             on_stored set_id (\<lambda>st sv. ([], receive_records dp (wd_fs w set_id) me from round page now
                                             (records, endorsements, conflicts) st sv)) en
         | MsgEntries set_id round page entries \<Rightarrow>
             on_stored set_id (\<lambda>st sv. ([], receive_entries dp (wd_fs w set_id) me from round page now entries st sv)) en
         | MsgNeed set_id need_id paths \<Rightarrow> on_set set_id (on_need (wd_fs w set_id) me from set_id need_id paths now) en
         | MsgOffer set_id need_id tx_id files \<Rightarrow> on_set set_id (on_offer from set_id need_id tx_id files) en
         | MsgDone set_id need_id tx_id \<Rightarrow> on_set set_id (on_done from need_id tx_id) en
         | MsgCannot set_id need_id \<Rightarrow> on_set set_id (silently (on_cannot from need_id now)) en)"

definition on_message :: "world \<Rightarrow> string \<Rightarrow> json \<Rightarrow> nat \<Rightarrow> engine \<Rightarrow> effect list \<times> engine" where
  "on_message w from payload now en =
     (if from = en_self en \<or> \<not> valid_node_id from then ([], en)
      else (case message_from_value (wd_is_nfc w) payload of
              None \<Rightarrow> ([], en)
            | Some m \<Rightarrow> receive w from m now en))"

section \<open>Transfer outcomes\<close>

definition published :: "string \<Rightarrow> string \<Rightarrow> nat \<Rightarrow> string \<Rightarrow> engine \<Rightarrow> effect list \<times> engine" where
  "published to set_id need_id tx_id en =
     (if map_of (en_sets en) set_id = None then ([Revoke tx_id], en)
      else on_set set_id (on_published to set_id need_id tx_id) en)"

definition publish_failed :: "string \<Rightarrow> string \<Rightarrow> nat \<Rightarrow> engine \<Rightarrow> effect list \<times> engine" where
  "publish_failed to set_id need_id en =
     (if map_of (en_sets en) set_id = None then ([cannot to set_id need_id], en)
      else on_set set_id (on_publish_failed to set_id need_id) en)"

definition pull_started :: "world \<Rightarrow> string \<Rightarrow> nat \<Rightarrow> string \<Rightarrow> nat \<Rightarrow> engine \<Rightarrow> effect list \<times> engine" where
  "pull_started w set_id need_id transfer_id now en =
     on_stored set_id
       (on_pull_started (wd_deps w) (conflict_world w en set_id) (wd_fs w set_id) (en_identity en) (en_self en)
          set_id need_id transfer_id now) en"

definition pull_finished :: "world \<Rightarrow> string \<Rightarrow> nat \<Rightarrow> bool \<Rightarrow> string \<Rightarrow> engine \<Rightarrow> effect list \<times> engine" where
  "pull_finished w set_id need_id ok error en =
     on_stored set_id
       (finish_pull (wd_deps w) (conflict_world w en set_id) (wd_fs w set_id) (en_identity en) (en_self en)
          set_id need_id ok error) en"

definition on_transfer_outcome :: "world \<Rightarrow> string \<Rightarrow> bool \<Rightarrow> string \<Rightarrow> engine \<Rightarrow> effect list \<times> engine" where
  "on_transfer_outcome w transfer_id ok error en =
     (case find (\<lambda>p. pulling transfer_id (snd p) \<noteq> None) (en_sets en) of
        Some (set_id, st) \<Rightarrow>
          (case pulling transfer_id st of
             None \<Rightarrow> ([], en)
           | Some need_id \<Rightarrow> pull_finished w set_id need_id ok error en)
      | None \<Rightarrow>
          ([], en\<lparr>en_sets := map (\<lambda>p. (fst p, remember_outcome transfer_id ok error (snd p))) (en_sets en)\<rparr>))"

definition pull_failed :: "string \<Rightarrow> nat \<Rightarrow> engine \<Rightarrow> effect list \<times> engine" where
  "pull_failed set_id need_id en = on_set set_id (silently (on_pull_failed need_id)) en"

section \<open>What the orchestrator tells\<close>

definition renew_directory :: "directory_view \<Rightarrow> engine \<Rightarrow> engine" where
  "renew_directory directory en = en\<lparr>en_directory := directory\<rparr>"

definition set_watch_degraded :: "string \<Rightarrow> bool \<Rightarrow> engine \<Rightarrow> engine" where
  "set_watch_degraded set_id degraded en =
     snd (on_set set_id (silently (\<lambda>st. st\<lparr>ss_watch_degraded := degraded\<rparr>)) en)"

definition set_root_unreadable :: "string \<Rightarrow> bool \<Rightarrow> engine \<Rightarrow> engine" where
  "set_root_unreadable set_id unreadable en =
     snd (on_set set_id (silently (\<lambda>st. st\<lparr>ss_root_unreadable := unreadable\<rparr>)) en)"

section \<open>Walks\<close>

text \<open>The walk made elsewhere and folded in, and the walk made inline.\<close>

definition fold_walk :: "world \<Rightarrow> string \<Rightarrow> observation \<Rightarrow> engine \<Rightarrow> (string + scan_report) \<times> engine" where
  "fold_walk w set_id observation en =
     (case map_of (en_sets en) set_id of
        None \<Rightarrow> (Inl ''unknown set'', en)
      | Some st \<Rightarrow>
          (case fold_scan (wd_fs w set_id) (en_self en) observation st (en_store en set_id) of
             (report, st, sv) \<Rightarrow> (report, (put_set set_id st en)\<lparr>en_store := (en_store en)(set_id := sv)\<rparr>)))"

definition rescan_set ::
  "world \<Rightarrow> scan_env \<Rightarrow> scan_root \<Rightarrow> string \<Rightarrow> engine \<Rightarrow> (string + scan_report) \<times> engine" where
  "rescan_set w env tree set_id en =
     (case map_of (en_sets en) set_id of
        None \<Rightarrow> (Inl ''unknown set'', en)
      | Some st \<Rightarrow>
          if ss_root st = None then (Inl ''no root accepted'', en)
          else
            let key = self_component (ss_clock st) (en_self en)
            in case rescan env tree (map fst (ss_pending st)) key (ss_index st) (ss_clock st) (ss_lease st) of
                 (Inl e, i, c, d) \<Rightarrow> (Inl e, put_set set_id (st\<lparr>ss_index := i, ss_clock := c, ss_lease := d\<rparr>) en)
               | (Inr report, i, c, d) \<Rightarrow>
                   let st1 = st\<lparr>ss_index := i, ss_clock := c, ss_lease := d\<rparr>;
                       st2 = (drain_pending (wd_fs w set_id) key st1)\<lparr>ss_ignored := sr_ignored report\<rparr>
                   in (case persist st2 (en_store en set_id) of
                         (ok, sv) \<Rightarrow> (if ok then Inr report else Inl ''write failed'',
                                       (put_set set_id st2 en)\<lparr>en_store := (en_store en)(set_id := sv)\<rparr>)))"

section \<open>The pump\<close>

definition each :: "('a \<Rightarrow> engine \<Rightarrow> effect list \<times> engine) \<Rightarrow> 'a list \<Rightarrow> engine \<Rightarrow> effect list \<times> engine" where
  "each f xs en = foldl (\<lambda>(out, en) x. case f x en of (o', en) \<Rightarrow> (out @ o', en)) ([], en) xs"

definition open_round :: "world \<Rightarrow> string \<Rightarrow> string \<Rightarrow> engine \<Rightarrow> effect list \<times> engine" where
  "open_round w set_id peer en =
     (case next_round False en of
        (n, en) \<Rightarrow>
          (case map_of (en_sets en) set_id of
             None \<Rightarrow> ([], en)
           | Some st \<Rightarrow>
               (sends (opener (wd_hash w) (wd_size w) (en_self en) (id_public_hex (en_identity en)) n set_id peer st), en)))"

definition set_of :: "string \<Rightarrow> engine \<Rightarrow> (set_state \<Rightarrow> 'a) \<Rightarrow> 'a option" where
  "set_of set_id en f = map_option f (map_of (en_sets en) set_id)"

definition change_set :: "string \<Rightarrow> (set_state \<Rightarrow> set_state) \<Rightarrow> engine \<Rightarrow> engine" where
  "change_set set_id f en = en\<lparr>en_sets := bt_adjust set_id f (en_sets en)\<rparr>"

text \<open>The open invitations before a pump sends: those already answered go, spent budgets are renewed.\<close>

definition settle_invites :: "string list \<Rightarrow> set_state \<Rightarrow> set_state" where
  "settle_invites reachable st =
     (let unheard = filter (\<lambda>p. effective (ss_membership st) (fst p) \<in> {EInvited, EUnknown}) (ss_open_invites st)
      in st\<lparr>ss_open_invites :=
             map (\<lambda>p. (fst p, if fst p \<in> set reachable \<and> snd p = 0 then RETRY_BUDGET else snd p)) unheard\<rparr>)"

definition invite_targets :: "string list \<Rightarrow> set_state \<Rightarrow> string list" where
  "invite_targets reachable st = map fst (filter (\<lambda>p. fst p \<in> set reachable \<and> snd p > 0) (ss_open_invites st))"

definition send_invite :: "string \<Rightarrow> string \<Rightarrow> engine \<Rightarrow> effect list \<times> engine" where
  "send_invite set_id invitee en =
     (case build_invite set_id en of
        None \<Rightarrow> ([], en)
      | Some payload \<Rightarrow>
          ([Send invitee payload],
           change_set set_id (\<lambda>st. st\<lparr>ss_open_invites := bt_adjust invitee (\<lambda>n. n - 1) (ss_open_invites st)\<rparr>) en))"

definition pump_invites :: "string list \<Rightarrow> string \<Rightarrow> engine \<Rightarrow> effect list \<times> engine" where
  "pump_invites reachable set_id en =
     (let en = change_set set_id (settle_invites reachable) en
      in case set_of set_id en (invite_targets reachable) of
           None \<Rightarrow> ([], en) | Some targets \<Rightarrow> each (send_invite set_id) targets en)"

definition pump_announce :: "world \<Rightarrow> string list \<Rightarrow> string \<Rightarrow> engine \<Rightarrow> effect list \<times> engine" where
  "pump_announce w reachable set_id en =
     (case set_of set_id en (\<lambda>st. filter (\<lambda>n. n \<in> set reachable) (map fst (ss_announce st))) of
        None \<Rightarrow> ([], en)
      | Some targets \<Rightarrow>
          each (open_round w set_id) targets
            (change_set set_id (\<lambda>st. st\<lparr>ss_announce := filter (\<lambda>p. fst p \<notin> set reachable) (ss_announce st)\<rparr>) en))"

definition round_due :: "bool \<Rightarrow> nat \<Rightarrow> vv \<Rightarrow> string \<Rightarrow> set_state \<Rightarrow> bool" where
  "round_due force now adv peer st \<longleftrightarrow>
     force \<or> (case map_of (ss_last_opened st) peer of
                None \<Rightarrow> True
              | Some (at, vv) \<Rightarrow> vv \<noteq> adv \<and> OPEN_INTERVAL_SECS \<le> now - at)"

definition round_peers :: "string \<Rightarrow> string list \<Rightarrow> set_state \<Rightarrow> string list" where
  "round_peers self_node reachable st =
     filter (\<lambda>n. n \<noteq> self_node \<and> n \<in> set reachable \<and> effective (ss_membership st) n = EActive)
       (device_ids (ss_membership st))"

definition open_due_round ::
  "world \<Rightarrow> bool \<Rightarrow> nat \<Rightarrow> vv \<Rightarrow> string \<Rightarrow> string \<Rightarrow> engine \<Rightarrow> effect list \<times> engine" where
  "open_due_round w force now adv set_id peer en =
     (if set_of set_id en (round_due force now adv peer) = Some True
      then open_round w set_id peer
             (change_set set_id (\<lambda>st. st\<lparr>ss_last_opened := bt_insert peer (now, adv) (ss_last_opened st)\<rparr>) en)
      else ([], en))"

definition pump_rounds :: "world \<Rightarrow> string list \<Rightarrow> nat \<Rightarrow> bool \<Rightarrow> string \<Rightarrow> engine \<Rightarrow> effect list \<times> engine" where
  "pump_rounds w reachable now force set_id en =
     (case map_of (en_sets en) set_id of
        None \<Rightarrow> ([], en)
      | Some st \<Rightarrow>
          if effective (ss_membership st) (en_self en) = EActive \<and> ss_root st \<noteq> None
          then each (open_due_round w force now (advertised (self_component (ss_clock st) (en_self en)) st) set_id)
                 (round_peers (en_self en) reachable st) en
          else ([], en))"

definition introduce :: "world \<Rightarrow> string \<Rightarrow> string \<Rightarrow> engine \<Rightarrow> effect list \<times> engine" where
  "introduce w set_id peer en =
     (let en = change_set set_id
                 (\<lambda>st. st\<lparr>ss_intro_attempts := bt_entry peer RETRY_BUDGET (\<lambda>n. n) (ss_intro_attempts st)\<rparr>) en
      in if set_of set_id en (\<lambda>st. map_of (ss_intro_attempts st) peer) = Some (Some 0) then ([], en)
         else open_round w set_id peer
                (change_set set_id (\<lambda>st. st\<lparr>ss_intro_attempts := bt_adjust peer (\<lambda>n. n - 1) (ss_intro_attempts st)\<rparr>) en))"

definition pump_intros :: "world \<Rightarrow> string list \<Rightarrow> string \<Rightarrow> engine \<Rightarrow> effect list \<times> engine" where
  "pump_intros w reachable set_id en =
     (case set_of set_id en (\<lambda>st. filter (\<lambda>n. n \<in> set reachable) (unpinned_devices (ss_membership st))) of
        None \<Rightarrow> ([], en) | Some targets \<Rightarrow> each (introduce w set_id) targets en)"

definition stub_step :: "string list \<Rightarrow> set_state \<Rightarrow> string list \<times> set_state" where
  "stub_step reachable st =
     (case ss_stub st of
        None \<Rightarrow> ([], st)
      | Some s \<Rightarrow>
          if st_attempts s > 0
          then (filter (\<lambda>n. n \<in> set reachable) (map fst (st_remaining s)),
                st\<lparr>ss_stub := Some (s\<lparr>st_attempts := st_attempts s - 1\<rparr>)\<rparr>)
          else ([], st\<lparr>ss_stub := None\<rparr>))"

definition pump_stub :: "world \<Rightarrow> string list \<Rightarrow> string \<Rightarrow> engine \<Rightarrow> effect list \<times> engine" where
  "pump_stub w reachable set_id en =
     (case set_of set_id en (stub_step reachable) of
        None \<Rightarrow> ([], en)
      | Some (targets, st) \<Rightarrow> each (open_round w set_id) targets (put_set set_id st en))"

definition pump_set :: "world \<Rightarrow> string list \<Rightarrow> nat \<Rightarrow> bool \<Rightarrow> string \<Rightarrow> engine \<Rightarrow> effect list \<times> engine" where
  "pump_set w reachable now force set_id en =
     each (\<lambda>step. step)
       [pump_invites reachable set_id,
        pump_announce w reachable set_id,
        pump_rounds w reachable now force set_id,
        (\<lambda>en. on_stored set_id (pump_needs (en_self en) set_id reachable now) en),
        pump_intros w reachable set_id,
        pump_stub w reachable set_id] en"

definition pump :: "world \<Rightarrow> string list \<Rightarrow> nat \<Rightarrow> bool \<Rightarrow> engine \<Rightarrow> effect list \<times> engine" where
  "pump w reachable now force en = each (pump_set w reachable now force) (map fst (en_sets en)) en"

end
