(* ===== verification/ScanFacts.thy ===== *)
theory ScanFacts
  imports Scan
begin

text \<open>
  What a rescan guarantees, \<open>sync/src/scan.rs\<close>: what it tombstones and in which order, and what the
  fold does to the index and the clock.
\<close>

section \<open>What is on the disk\<close>

definition accepted :: "scan_env \<Rightarrow> string \<Rightarrow> string option" where
  "accepted env disk_name = fst (accepted_name_at env disk_name [] observation_default)"

lemma accepted_fst: "fst (accepted_name_at env disk_name prefix r) = accepted env disk_name"
  by (simp add: accepted_def accepted_name_at_def Let_def split: option.split sum.split)

lemma accepted_name_cases:
  "accepted_name_at env disk_name prefix r = (accepted env disk_name, snd (accepted_name_at env disk_name prefix r))"
  by (metis accepted_fst prod.collapse)

text \<open>A path below a directory that leads to a file or a directory through accepted names only.\<close>

inductive present :: "scan_env \<Rightarrow> string \<Rightarrow> (os_name \<times> fs_node) list \<Rightarrow> string \<Rightarrow> bool" for env where
  here: "(Utf8 disk, node) \<in> set es \<Longrightarrow> is_dir_or_file node \<Longrightarrow> accepted env disk = Some name \<Longrightarrow>
     present env prefix es (wire_path prefix name)"
| below: "(Utf8 disk, FsDir (Some sub)) \<in> set es \<Longrightarrow> accepted env disk = Some name \<Longrightarrow>
     present env (wire_path prefix name @ ''/'') sub p \<Longrightarrow> present env prefix es p"

lemma present_prefix: "present env prefix es p \<Longrightarrow> \<exists>q. p = prefix @ q"
  by (induction rule: present.induct) (auto simp: wire_path_def)

lemma gather_step:
  "\<exists>r'. fst (gather env prefix ((Utf8 d, n) # rest) r) =
     (case accepted env d of None \<Rightarrow> [] | Some w \<Rightarrow> if is_dir_or_file n then [(d, w, n)] else []) @
     fst (gather env prefix rest r')"
proof (cases "n = FsLink")
  case True
  then show ?thesis by (auto split: option.splits)
next
  case False
  obtain r' where acc: "accepted_name_at env d prefix r = (accepted env d, r')"
    using accepted_name_cases by blast
  with False show ?thesis
    by (cases "accepted env d") (auto split: prod.splits intro: exI [of _ r'])
qed

lemma gather_candidates:
  "(Utf8 disk, node) \<in> set es \<Longrightarrow> is_dir_or_file node \<Longrightarrow> accepted env disk = Some name \<Longrightarrow>
   (disk, name, node) \<in> set (fst (gather env prefix es r))"
proof (induction es arbitrary: r)
  case Nil
  then show ?case by simp
next
  case (Cons e es)
  show ?case
  proof (cases "fst e")
    case (Utf8 d)
    obtain r' where "fst (gather env prefix (e # es) r) =
        (case accepted env d of None \<Rightarrow> [] | Some w \<Rightarrow> if is_dir_or_file (snd e) then [(d, w, snd e)] else []) @
        fst (gather env prefix es r')"
      using gather_step [of env prefix d "snd e" es r] Utf8 by (metis prod.collapse)
    with Cons Utf8 show ?thesis by (auto simp: prod_eq_iff)
  next
    case (NotUtf8 lossy)
    with Cons show ?thesis by (cases e) auto
  qed
qed

definition live_path :: "set_index \<Rightarrow> string \<Rightarrow> bool" where
  "live_path index p \<longleftrightarrow> p \<in> e_path ` set (live index)"

lemma freeze_subtree_set:
  "set (freeze_subtree wire index seen) =
     {p. live_path index p \<and> starts_with p (wire @ ''/'')} \<union> {wire} \<union> set seen"
  by (auto simp: freeze_subtree_def live_path_def)

definition level_seen ::
  "scan_env \<Rightarrow> set_index \<Rightarrow> string \<Rightarrow> string set \<Rightarrow> (os_name \<times> fs_node) list \<Rightarrow> bool" where
  "level_seen env index prefix seen es \<longleftrightarrow>
     (\<forall>p. present env prefix es p \<longrightarrow> live_path index p \<longrightarrow> p \<in> seen)"

definition node_seen :: "scan_env \<Rightarrow> set_index \<Rightarrow> string \<Rightarrow> string set \<Rightarrow> candidate \<Rightarrow> bool" where
  "node_seen env index prefix seen c \<longleftrightarrow>
     (is_dir_or_file (snd (snd c)) \<longrightarrow> wire_path prefix (fst (snd c)) \<in> seen) \<and>
     (\<forall>sub. snd (snd c) = FsDir (Some sub) \<longrightarrow>
        level_seen env index (wire_path prefix (fst (snd c)) @ ''/'') seen sub)"

lemma node_seen_mono: "node_seen env index prefix seen c \<Longrightarrow> seen \<subseteq> seen' \<Longrightarrow> node_seen env index prefix seen' c"
  by (auto simp: node_seen_def level_seen_def)

lemma level_from_candidates:
  assumes "\<forall>c \<in> set (fst (gather env prefix es r)). node_seen env index prefix seen c"
  shows "level_seen env index prefix seen es"
  unfolding level_seen_def
proof (intro allI impI)
  fix p assume "present env prefix es p" and live: "live_path index p"
  then show "p \<in> seen"
  proof (cases rule: present.cases)
    case (here disk node name)
    with assms gather_candidates [OF here(2,3,4)] have "node_seen env index prefix seen (disk, name, node)" by blast
    with here show ?thesis by (simp add: node_seen_def)
  next
    case (below disk sub name)
    have "(disk, name, FsDir (Some sub)) \<in> set (fst (gather env prefix es r))"
      using gather_candidates [OF below(1) _ below(2)] by simp
    with assms have "node_seen env index prefix seen (disk, name, FsDir (Some sub))" by blast
    with below(3) live show ?thesis by (auto simp: node_seen_def level_seen_def)
  qed
qed

lemma frozen_node_seen:
  "node_seen env index prefix (set (freeze_subtree (wire_path prefix name) index seen)) (disk, name, node)"
  unfolding node_seen_def level_seen_def
  by (auto simp: freeze_subtree_set starts_with_iff dest!: present_prefix)

lemma walk_sees:
  "walk_dir env index prefix es st = Inr st' \<Longrightarrow>
     set (snd st) \<subseteq> set (snd st') \<and>
     (\<forall>sub. es = Some sub \<longrightarrow> level_seen env index prefix (set (snd st')) sub)"
  "walk_candidates env index cnt prefix cs st = Inr st' \<Longrightarrow>
     set (snd st) \<subseteq> set (snd st') \<and> (\<forall>c \<in> set cs. node_seen env index prefix (set (snd st')) c)"
proof (induction env index prefix es st and env index cnt prefix cs st arbitrary: st' and st'
    rule: walk_dir_walk_candidates.induct)
  case (1 env index prefix st)
  then show ?case by simp
next
  case (2 env index prefix es st)
  from 2(2) have walk: "walk_candidates env index (fold_count env (fst (gather env prefix es (fst st)))) prefix
      (fst (gather env prefix es (fst st))) (snd (gather env prefix es (fst st)), snd st) = Inr st'" by simp
  from 2(1) [OF walk] level_from_candidates [of env prefix es "fst st" index "set (snd st')"]
  show ?case by simp
next
  case (3 env index cnt prefix st)
  then show ?case by simp
next
  case (4 env index cnt prefix disk name node cs st)
  let ?here = "wire_path prefix name"
  show ?case
  proof (cases "cnt name > 1")
    case True
    with "4.prems" have walk: "walk_candidates env index cnt prefix cs
        (push_ignored (prefix @ disk) ''collides under folding'' (fst st),
         freeze_subtree ?here index (snd st)) = Inr st'" by simp
    from "4.IH"(1) [OF True walk] node_seen_mono [OF frozen_node_seen]
    show ?thesis by (auto simp: freeze_subtree_set)
  next
    case False
    show ?thesis
    proof (cases node)
      case (FsFile meta content)
      with False "4.prems" obtain r where r: "reconcile_file env content ?here meta index (fst st) = Inr r"
        and walk: "walk_candidates env index cnt prefix cs (r, ?here # snd st) = Inr st'"
        by (auto split: sum.splits)
      from "4.IH"(2) [OF False FsFile r walk] FsFile show ?thesis by (auto simp: node_seen_def)
    next
      case (FsDir es)
      with False "4.prems" obtain st1 where sub: "walk_dir env index (?here @ ''/'') es
          (reconcile_dir ?here index (fst st), ?here # snd st) = Inr st1"
        and walk: "walk_candidates env index cnt prefix cs st1 = Inr st'"
        by (auto split: sum.splits)
      note inner = "4.IH"(3) [OF False FsDir sub]
      note outer = "4.IH"(4) [OF False FsDir sub walk]
      from inner outer FsDir show ?thesis by (auto simp: node_seen_def level_seen_def)
    next
      case FsLink
      with False "4.prems" have walk: "walk_candidates env index cnt prefix cs st = Inr st'" by simp
      from "4.IH"(5) [OF False FsLink walk] FsLink show ?thesis by (auto simp: node_seen_def)
    next
      case FsOther
      with False "4.prems" have walk: "walk_candidates env index cnt prefix cs st = Inr st'" by simp
      from "4.IH"(6) [OF False FsOther walk] FsOther show ?thesis by (auto simp: node_seen_def)
    qed
  qed
qed

section \<open>The tombstone order\<close>

lemma set_tomb_insert [simp]: "set (tomb_insert p ps) = insert p (set ps)"
  by (induction p ps rule: tomb_insert.induct) auto

lemma set_tomb_sort [simp]: "set (tomb_sort ps) = set ps"
  by (induction ps) (simp_all add: tomb_sort_def)

lemma tomb_before_total: "tomb_before a b \<or> tomb_before b a"
  by (auto simp: tomb_before_def)

lemma tomb_before_trans: "tomb_before a b \<Longrightarrow> tomb_before b c \<Longrightarrow> tomb_before a c"
  by (auto simp: tomb_before_def)

lemma tomb_insert_sorted: "sorted_wrt tomb_before ps \<Longrightarrow> sorted_wrt tomb_before (tomb_insert p ps)"
proof (induction p ps rule: tomb_insert.induct)
  case (2 p q qs)
  then show ?case
    using tomb_before_total [of p q] tomb_before_trans [of p q] by auto
qed simp

lemma tomb_sort_sorted: "sorted_wrt tomb_before (tomb_sort ps)"
  by (induction ps) (simp_all add: tomb_sort_def tomb_insert_sorted)

section \<open>What a fold does\<close>

definition own_bounded :: "string \<Rightarrow> set_index \<Rightarrow> clock \<Rightarrow> bool" where
  "own_bounded self index c \<longleftrightarrow> (\<forall>p e. index_get index p = Some e \<longrightarrow> vv_get (e_vv e) self \<le> c_current c)"

definition bumped :: "string \<Rightarrow> nat \<Rightarrow> set_index \<Rightarrow> string \<Rightarrow> bool" where
  "bumped self n index p \<longleftrightarrow> (\<exists>e. index_get index p = Some e \<and> n < vv_get (e_vv e) self)"

definition descends :: "set_index \<Rightarrow> set_index \<Rightarrow> string \<Rightarrow> bool" where
  "descends index index' p \<longleftrightarrow>
     (\<forall>e. index_get index p = Some e \<longrightarrow>
        (\<exists>e'. index_get index' p = Some e' \<and> (\<forall>k. vv_get (e_vv e) k \<le> vv_get (e_vv e') k)))"

definition fold_inv :: "string \<Rightarrow> set_index \<Rightarrow> clock \<Rightarrow> disk \<Rightarrow> bool" where
  "fold_inv self index c d \<longleftrightarrow> index_ok index \<and> durable c d \<and> own_bounded self index c"

lemma descends_refl [simp]: "descends index index p"
  by (auto simp: descends_def)

lemma descends_trans: "descends a b p \<Longrightarrow> descends b c p \<Longrightarrow> descends a c p"
  unfolding descends_def by (metis order_trans)

text \<open>
  An advance past clock value \<open>n\<close> on a set of paths: those carry an own component above \<open>n\<close>, the
  others keep their entry, and no entry is lost or moved back.
\<close>

definition advance :: "string \<Rightarrow> string set \<Rightarrow> nat \<Rightarrow> set_index \<Rightarrow> set_index \<Rightarrow> bool" where
  "advance self ps n index index' \<longleftrightarrow>
     (\<forall>p. descends index index' p) \<and> (\<forall>p \<in> ps. bumped self n index' p) \<and>
     (\<forall>p. p \<notin> ps \<longrightarrow> index_get index' p = index_get index p)"

lemma advance_refl [simp]: "advance self {} n index index"
  by (simp add: advance_def)

lemma bumped_mono: "bumped self m index p \<Longrightarrow> n \<le> m \<Longrightarrow> bumped self n index p"
  by (auto simp: bumped_def)

lemma advance_trans:
  assumes ab: "advance self ps n a b" and bc: "advance self qs m b c" and "n \<le> m"
  shows "advance self (ps \<union> qs) n a c"
proof -
  have "bumped self n c p" if "p \<in> ps \<union> qs" for p
  proof (cases "p \<in> qs")
    case True
    with bc assms(3) show ?thesis by (auto simp: advance_def intro: bumped_mono)
  next
    case False
    with that ab bc show ?thesis by (auto simp: advance_def bumped_def)
  qed
  with ab bc show ?thesis by (auto simp: advance_def intro: descends_trans)
qed

text \<open>One bump: the entry at a path is replaced by one whose own component is the fresh tick.\<close>

lemma bump_step:
  assumes inv: "fold_inv self index c d" and tick: "tick c d = (Inr t, c', d')"
    and e: "e_vv e = vv_set self t vv" "bt_ok vv"
    and vv: "\<And>old. index_get index (e_path e) = Some old \<Longrightarrow> vv = e_vv old"
  shows "fold_inv self (index_upsert e index) c' d' \<and> c_current c' = c_current c + 1 \<and>
    advance self {e_path e} (c_current c) index (index_upsert e index)"
proof -
  have dur: "durable c d" and idx: "index_ok index" and own: "own_bounded self index c"
    using inv by (simp_all add: fold_inv_def)
  note t = tick_Inr [OF dur tick]
  have le: "vv_get (e_vv old) self \<le> t" if "index_get index p = Some old" for p old
    using own that t by (auto simp: own_bounded_def intro: le_SucI)
  have "descends index (index_upsert e index) p" for p
    using vv le by (auto simp: descends_def e)
  moreover have "own_bounded self (index_upsert e index) c'"
    using le t by (auto simp: own_bounded_def e)
  moreover have "index_ok (index_upsert e index)"
    using idx e by (intro index_ok_upsert) (auto simp: vv_set_def)
  ultimately show ?thesis using t by (simp add: fold_inv_def bumped_def e advance_def)
qed

lemma fold_changed_spec:
  assumes "fold_changed self obs k index c d = (Inr k', index', c', d')" and "fold_inv self index c d"
  shows "k' = k + length obs \<and> c_current c' = c_current c + length obs \<and> fold_inv self index' c' d' \<and>
    advance self (ob_path ` set obs) (c_current c) index index'"
  using assms
proof (induction self obs k index c d rule: fold_changed.induct)
  case (1 self n index c d)
  then show ?case by simp
next
  case (2 self seen rest n index c d)
  let ?vv = "case index_get index (ob_path seen) of None \<Rightarrow> [] | Some e \<Rightarrow> e_vv e"
  from 2(2) obtain t c1 d1 where tick: "tick c d = (Inr t, c1, d1)"
    by (auto simp: Let_def split: prod.splits sum.splits)
  define e where "e = \<lparr>e_path = ob_path seen, e_kind = ob_kind seen, e_size = ob_size seen,
      e_mtime = ob_mtime seen, e_exec = ob_exec seen, e_hash = ob_hash seen,
      e_vv = vv_set self t ?vv, e_deleted = False\<rparr>"
  have ok: "bt_ok ?vv" using 2(3) by (auto simp: fold_inv_def dest: index_getD split: option.splits)
  from 2(2) tick have rest: "fold_changed self rest (n + 1) (index_upsert e index) c1 d1 = (Inr k', index', c', d')"
    by (simp add: Let_def e_def)
  have e: "e_path e = ob_path seen" "e_vv e = vv_set self t ?vv" by (simp_all add: e_def)
  have step: "fold_inv self (index_upsert e index) c1 d1 \<and> c_current c1 = c_current c + 1 \<and>
    advance self {ob_path seen} (c_current c) index (index_upsert e index)"
    using bump_step [OF 2(3) tick e(2) ok] e(1) by simp
  then have inv1: "fold_inv self (index_upsert e index) c1 d1" by blast
  note IH = 2(1) [OF refl tick [symmetric] refl refl, folded e_def, OF rest inv1]
  have "advance self ({ob_path seen} \<union> ob_path ` set rest) (c_current c) index index'"
    using step IH by (intro advance_trans [of _ _ _ _ "index_upsert e index" _ "c_current c1"]) auto
  with IH step show ?case by simp
qed

abbreviation live_among :: "set_index \<Rightarrow> string list \<Rightarrow> string list" where
  "live_among index paths \<equiv>
     filter (\<lambda>p. case index_get index p of None \<Rightarrow> False | Some e \<Rightarrow> \<not> e_deleted e) paths"

lemma fold_tombstoned_spec:
  assumes "fold_tombstoned self paths k index c d = (Inr k', index', c', d')" and "fold_inv self index c d"
    and "distinct paths"
  shows "k' = k + length (live_among index paths) \<and>
    c_current c' = c_current c + length (live_among index paths) \<and> fold_inv self index' c' d' \<and>
    advance self (set (live_among index paths)) (c_current c) index index' \<and>
    (\<forall>p \<in> set (live_among index paths). \<exists>e. index_get index' p = Some e \<and> e_deleted e)"
  using assms
proof (induction self paths k index c d rule: fold_tombstoned.induct)
  case (1 self n index c d)
  then show ?case by simp
next
  case (2 self path rest n index c d)
  show ?case
  proof (cases "\<exists>e. index_get index path = Some e \<and> \<not> e_deleted e")
    case False
    then have "fold_tombstoned self rest n index c d = (Inr k', index', c', d')"
      using "2.prems"(1) by (auto split: option.splits)
    with False "2.IH"(1,2) "2.prems" show ?thesis by (auto split: option.splits)
  next
    case True
    then obtain old where old: "index_get index path = Some old" "\<not> e_deleted old" by blast
    from "2.prems"(1) old obtain t c1 d1 where tick: "tick c d = (Inr t, c1, d1)"
      by (auto split: prod.splits sum.splits)
    define e where "e = \<lparr>e_path = path, e_kind = e_kind old, e_size = 0, e_mtime = mtime_default,
        e_exec = False, e_hash = [], e_vv = vv_set self t (e_vv old), e_deleted = True\<rparr>"
    have e: "e_path e = path" "e_vv e = vv_set self t (e_vv old)" "e_deleted e" by (simp_all add: e_def)
    from "2.prems"(1) old tick
    have rest: "fold_tombstoned self rest (n + 1) (index_upsert e index) c1 d1 = (Inr k', index', c', d')"
      by (simp add: e_def)
    have ok: "bt_ok (e_vv old)" using "2.prems"(2) old by (auto simp: fold_inv_def dest: index_getD)
    have step: "fold_inv self (index_upsert e index) c1 d1 \<and> c_current c1 = c_current c + 1 \<and>
      advance self {path} (c_current c) index (index_upsert e index)"
      using bump_step [OF "2.prems"(2) tick e(2) ok] e(1) old by simp
    then have inv1: "fold_inv self (index_upsert e index) c1 d1" by blast
    have dist: "distinct rest" "path \<notin> set rest" using "2.prems"(3) by simp_all
    have same: "live_among (index_upsert e index) rest = live_among index rest"
      using dist(2) e(1) by (intro filter_cong) auto
    from "2.IH"(3) [OF old(1) old(2) tick [symmetric] refl refl, folded e_def, OF rest inv1 dist(1)]
    have IH: "k' = n + 1 + length (live_among index rest) \<and>
      c_current c' = c_current c1 + length (live_among index rest) \<and> fold_inv self index' c' d' \<and>
      advance self (set (live_among index rest)) (c_current c1) (index_upsert e index) index' \<and>
      (\<forall>p \<in> set (live_among index rest). \<exists>e. index_get index' p = Some e \<and> e_deleted e)"
      unfolding same .
    have "path \<notin> set (live_among index rest)" using dist(2) by simp
    then have "index_get index' path = Some e" using IH e(1) by (simp add: advance_def)
    moreover have "advance self ({path} \<union> set (live_among index rest)) (c_current c) index index'"
      using step IH by (intro advance_trans [of _ _ _ _ "index_upsert e index" _ "c_current c1"]) auto
    ultimately show ?thesis using IH step old e(3) by auto
  qed
qed

lemma touch_spec:
  assumes "fold_inv self index c d"
  shows "fold_inv self (touch index ob) c d \<and> (\<forall>p. map_option (\<lambda>e. (e_vv e, e_deleted e, e_kind e, e_hash e))
      (index_get (touch index ob) p) = map_option (\<lambda>e. (e_vv e, e_deleted e, e_kind e, e_hash e)) (index_get index p))"
proof (cases "index_get index (ob_path ob)")
  case None
  with assms show ?thesis by (simp add: touch_def)
next
  case (Some k)
  have ok: "e_path k = ob_path ob" "bt_ok (e_vv k)"
    using index_getD [OF _ Some] assms by (simp_all add: fold_inv_def)
  have "index_ok (touch index ob)"
    using assms Some ok by (auto simp: touch_def fold_inv_def intro: index_ok_upsert)
  moreover have "own_bounded self (touch index ob) c"
    using assms Some ok by (auto simp: touch_def fold_inv_def own_bounded_def)
  ultimately show ?thesis using assms Some ok by (simp add: fold_inv_def touch_def)
qed

lemma touches_spec:
  assumes "fold_inv self index c d"
  shows "fold_inv self (foldl touch index obs) c d \<and>
    (\<forall>p. map_option (\<lambda>e. (e_vv e, e_deleted e, e_kind e, e_hash e)) (index_get (foldl touch index obs) p) =
         map_option (\<lambda>e. (e_vv e, e_deleted e, e_kind e, e_hash e)) (index_get index p))"
  using assms
proof (induction obs arbitrary: index)
  case Nil
  then show ?case by simp
next
  case (Cons ob obs)
  then show ?case using touch_spec [OF Cons.prems, of ob] Cons.IH [of "touch index ob"] by simp
qed

lemma distinct_live: "index_ok index \<Longrightarrow> distinct (map e_path (live index))"
proof -
  assume ok: "index_ok index"
  then have "map e_path (index_entries index) = map fst index"
    by (auto simp: index_ok_def index_entries_def)
  then have "distinct (map e_path (index_entries index))"
    using ok bt_ok_distinct by (auto simp: index_ok_def)
  then show ?thesis by (simp add: live_def distinct_map_filter)
qed

lemma live_path_iff: "index_ok index \<Longrightarrow> live_path index p \<longleftrightarrow> (\<exists>e. index_get index p = Some e \<and> \<not> e_deleted e)"
  by (auto simp: live_path_def live_def index_entries_iff dest: index_getD)

lemma distinct_tomb_insert: "distinct (tomb_insert p ps) \<longleftrightarrow> distinct (p # ps)"
  by (induction p ps rule: tomb_insert.induct) auto

lemma distinct_tomb_sort: "distinct ps \<Longrightarrow> distinct (tomb_sort ps)"
proof (induction ps)
  case (Cons p ps)
  have "tomb_sort (p # ps) = tomb_insert p (tomb_sort ps)" by (simp add: tomb_sort_def)
  with Cons show ?case by (simp add: distinct_tomb_insert)
qed (simp add: tomb_sort_def)

lemma observe_tombstones:
  assumes "observe env root index pending = Inr obs"
  shows "\<exists>seen. obs_tombstoned obs = tomb_sort (missing_paths index seen pending)"
  using assms by (auto simp: observe_def split: sum.splits prod.splits)

lemma depth_append: "depth (a @ b) = depth a + depth b"
  by (simp add: depth_def)

section \<open>A sample tree\<close>

definition plain_env :: scan_env where
  "plain_env = \<lparr>se_is_nfc = (\<lambda>_. True), se_nfc = (\<lambda>s. s), se_lower = (\<lambda>s. s), se_digest = (\<lambda>s. s),
                se_macos = False, se_unix = True\<rparr>"

definition scanned :: "string \<Rightarrow> entry_kind \<Rightarrow> entry" where
  "scanned p k = \<lparr>e_path = p, e_kind = k, e_size = 0, e_mtime = mtime_default, e_exec = False,
                  e_hash = [], e_vv = [], e_deleted = False\<rparr>"

definition scanned_index :: set_index where
  "scanned_index = [(''d'', scanned ''d'' EDir), (''d/f'', scanned ''d/f'' EFile)]"

lemma emptied_root:
  "observe plain_env (RootDir (Some [])) scanned_index [] =
     Inr (observation_default\<lparr>obs_tombstoned := [''d/f'', ''d'']\<rparr>)"
  by (simp add: observe_def missing_paths_def live_def index_entries_def scanned_index_def scanned_def
      tomb_sort_def tomb_before_def depth_def)

text \<open>What the walk of a root can reach: its tree through accepted names, or the one file it is.\<close>

fun on_disk :: "scan_env \<Rightarrow> scan_root \<Rightarrow> string \<Rightarrow> bool" where
  "on_disk env (RootDir es) p = (\<exists>entries. es = Some entries \<and> present env [] entries p)"
| "on_disk env (RootFile display name node) p =
     (\<exists>disk meta content. name = Utf8 disk \<and> node = Some (FsFile meta content) \<and> accepted env disk = Some p)"

lemma single_file_seen:
  assumes "scan_single_file env index display name node (r, seen) = Inr (r', seen')" and "on_disk env (RootFile display name node) p"
  shows "p \<in> set seen'"
proof -
  obtain disk meta content where n: "name = Utf8 disk" "node = Some (FsFile meta content)" "accepted env disk = Some p"
    using assms(2) by auto
  obtain r1 where "accepted_name_at env disk [] r = (Some p, r1)" using accepted_name_cases [of env disk "[]" r] n(3) by auto
  with assms(1) n show ?thesis by (auto simp: scan_single_file_def split: sum.splits)
qed

lemma observe_sees:
  assumes "observe env root index pending = Inr obs"
  obtains seen where "obs_tombstoned obs = tomb_sort (missing_paths index seen pending)"
    and "\<And>p. on_disk env root p \<Longrightarrow> live_path index p \<Longrightarrow> p \<in> set seen"
proof (cases root)
  case (RootFile display name node)
  with assms obtain r seen where run: "scan_single_file env index display name node (observation_default, []) = Inr (r, seen)"
    and "obs_tombstoned obs = tomb_sort (missing_paths index seen pending)"
    by (auto simp: observe_def split: sum.splits prod.splits)
  with that single_file_seen [OF run] show ?thesis by (simp add: RootFile)
next
  case (RootDir es)
  with assms obtain r seen where run: "walk_dir env index [] es (observation_default, []) = Inr (r, seen)"
    and obs: "obs_tombstoned obs = tomb_sort (missing_paths index seen pending)"
    by (auto simp: observe_def split: sum.splits prod.splits simp del: walk_dir.simps)
  then obtain entries where es: "es = Some entries" by (cases es) auto
  show ?thesis
    using that [OF obs] walk_sees(1) [OF run [unfolded es]] by (auto simp: RootDir es level_seen_def)
qed

section \<open>Properties\<close>

text \<open>
  C2. Only the vanished are tombstoned: a path that a walk of the set's root tombstones, be the root a
  directory or a single file, was live in the index, is not one the pending set expects absent, and
  leads to no regular file and no directory on the disk through names the walk accepts (links, other
  kinds of file and refused names count as absent); so a name that merely collides with another under
  folding is frozen together with everything below it.
\<close>

theorem only_the_vanished_are_tombstoned:
  assumes "observe env root index pending = Inr obs" and "p \<in> set (obs_tombstoned obs)"
  shows "live_path index p \<and> p \<notin> set pending \<and> \<not> on_disk env root p"
proof -
  obtain seen where obs: "obs_tombstoned obs = tomb_sort (missing_paths index seen pending)"
    and seen: "\<And>q. on_disk env root q \<Longrightarrow> live_path index q \<Longrightarrow> q \<in> set seen"
    by (rule observe_sees [OF assms(1)]) blast
  have "p \<in> set (missing_paths index seen pending)" using assms(2) obs by simp
  then show ?thesis using seen by (auto simp: missing_paths_def live_path_def)
qed

lemma only_the_vanished_are_tombstoned_witness:
  "\<exists>obs. observe plain_env (RootDir (Some [])) scanned_index [] = Inr obs \<and>
     obs_tombstoned obs = [''d/f'', ''d''] \<and> live_path scanned_index ''d''"
proof -
  let ?obs = "observation_default\<lparr>obs_tombstoned := [''d/f'', ''d'']\<rparr>"
  have run: "observe plain_env (RootDir (Some [])) scanned_index [] = Inr ?obs"
    by (rule emptied_root)
  have "live_path scanned_index ''d''"
    using only_the_vanished_are_tombstoned [OF run, of "''d''"] by simp
  with run show ?thesis by auto
qed

text \<open>
  A symbolic link is not frozen: when an indexed name has become a link, the walk reports it as
  ignored and tombstones the name and everything indexed below it all the same. Here the root holds
  the link alone, and every live path the pending set does not expect absent is tombstoned.
\<close>

theorem a_link_is_ignored_and_tombstoned:
  "\<exists>obs. observe env (RootDir (Some [(Utf8 name, FsLink)])) index pending = Inr obs \<and>
     obs_ignored obs = [\<lparr>ig_name = name, ig_reason = ''symlink''\<rparr>] \<and>
     set (obs_tombstoned obs) = {p. live_path index p \<and> p \<notin> set pending}"
  by (auto simp: observe_def push_ignored_def observation_default_def missing_paths_def live_path_def)

text \<open>
  Folders are tombstoned after their contents: in the order of the walk's tombstones, no path
  comes before a path that lies below it, so a folder carries a higher clock than its contents.
\<close>

theorem contents_are_tombstoned_first:
  assumes "observe env root index pending = Inr obs" and "i < j" and "j < length (obs_tombstoned obs)"
  shows "\<not> starts_with (obs_tombstoned obs ! j) (obs_tombstoned obs ! i @ ''/'')"
proof
  assume "starts_with (obs_tombstoned obs ! j) (obs_tombstoned obs ! i @ ''/'')"
  then obtain q where "obs_tombstoned obs ! j = (obs_tombstoned obs ! i @ ''/'') @ q"
    by (auto simp: starts_with_iff)
  then have "depth (obs_tombstoned obs ! i) < depth (obs_tombstoned obs ! j)"
    by (simp add: depth_append) (simp add: depth_def)
  moreover obtain seen where "obs_tombstoned obs = tomb_sort (missing_paths index seen pending)"
    using observe_tombstones [OF assms(1)] by blast
  then have "tomb_before (obs_tombstoned obs ! i) (obs_tombstoned obs ! j)"
    using tomb_sort_sorted assms(2,3) by (metis sorted_wrt_nth_less)
  ultimately show False by (simp add: tomb_before_def)
qed

lemma contents_are_tombstoned_first_witness:
  "\<exists>obs. observe plain_env (RootDir (Some [])) scanned_index [] = Inr obs \<and>
     obs_tombstoned obs ! 0 = ''d/f'' \<and> \<not> starts_with (obs_tombstoned obs ! 1) (obs_tombstoned obs ! 0 @ ''/'')"
  using contents_are_tombstoned_first [OF emptied_root, of 0 1] emptied_root by auto

text \<open>
  C3. A rescan spends one clock value per difference and nothing else: every path seen changed or
  tombstoned ends with an own component above the clock before the scan, in a vector that covers its
  former one; every other path keeps its vector, its content and its tombstone flag; the clock moves
  by the number of differences and still bounds every own component in the index.
\<close>

theorem rescan_bumps_exactly_the_differences:
  assumes "rescan env root pending self index c d = (Inr report, index', c', d')"
    and inv: "fold_inv self index c d" and obs: "observe env root index pending = Inr obs"
  shows "fold_inv self index' c' d' \<and>
    c_current c' = c_current c + sr_changed report + sr_tombstoned report \<and>
    sr_changed report = length (obs_changed obs) \<and> (\<forall>p. descends index index' p) \<and>
    (\<forall>p \<in> ob_path ` set (obs_changed obs) \<union> set (obs_tombstoned obs). bumped self (c_current c) index' p) \<and>
    (\<forall>p. p \<notin> ob_path ` set (obs_changed obs) \<union> set (obs_tombstoned obs) \<longrightarrow>
       map_option (\<lambda>e. (e_vv e, e_deleted e, e_kind e, e_hash e)) (index_get index' p) =
       map_option (\<lambda>e. (e_vv e, e_deleted e, e_kind e, e_hash e)) (index_get index p))"
proof -
  let ?i0 = "foldl touch index (obs_touched obs)"
  let ?key = "\<lambda>e. (e_vv e, e_deleted e, e_kind e, e_hash e)"
  have touched: "fold_inv self ?i0 c d" "map_option ?key (index_get ?i0 p) = map_option ?key (index_get index p)" for p
    using touches_spec [OF inv, of "obs_touched obs"] by simp_all
  from assms(1) obs obtain k1 i1 c1 d1 k2 where
    changed: "fold_changed self (obs_changed obs) 0 ?i0 c d = (Inr k1, i1, c1, d1)"
    and tombs: "fold_tombstoned self (obs_tombstoned obs) 0 i1 c1 d1 = (Inr k2, index', c', d')"
    and report: "sr_changed report = k1" "sr_tombstoned report = k2"
    by (auto simp: rescan_def fold_observation_def split: prod.splits sum.splits)
  note A = fold_changed_spec [OF changed touched(1)]
  then have inv1: "fold_inv self i1 c1 d1" by blast
  obtain seen where seen: "obs_tombstoned obs = tomb_sort (missing_paths index seen pending)"
    using observe_tombstones [OF obs] by blast
  have ok: "index_ok index" using inv by (simp add: fold_inv_def)
  have dist: "distinct (obs_tombstoned obs)"
    unfolding seen using distinct_live [OF ok] by (simp add: distinct_tomb_sort missing_paths_def)
  note B = fold_tombstoned_spec [OF tombs inv1 dist]
  let ?C = "ob_path ` set (obs_changed obs)" and ?T = "set (live_among i1 (obs_tombstoned obs))"
  have both: "advance self (?C \<union> ?T) (c_current c) ?i0 index'"
    using A B by (intro advance_trans [of _ _ _ _ i1 _ "c_current c1"]) auto
  have "p \<in> ?C \<union> ?T" if "p \<in> set (obs_tombstoned obs)" for p
  proof (cases "p \<in> ?C")
    case False
    have "live_path index p" using that by (auto simp: seen missing_paths_def live_path_def)
    then obtain e where "index_get index p = Some e" "\<not> e_deleted e" using live_path_iff [OF ok] by blast
    with touched(2) [of p] obtain e' where "index_get ?i0 p = Some e'" "\<not> e_deleted e'" by auto
    then have "index_get i1 p = Some e'" using A False by (simp add: advance_def)
    with that \<open>\<not> e_deleted e'\<close> show ?thesis by simp
  qed simp
  then have bump: "\<forall>p \<in> ?C \<union> set (obs_tombstoned obs). bumped self (c_current c) index' p"
    using both by (auto simp: advance_def)
  have kept: "index_get index' p = index_get ?i0 p" if "p \<notin> ?C \<union> set (obs_tombstoned obs)" for p
    using both that by (auto simp: advance_def)
  have "descends index ?i0 p" for p
    using touched(2) [of p] by (auto simp: descends_def)
  then have "descends index index' p" for p
    using both descends_trans by (fastforce simp: advance_def)
  with A B report bump kept touched(2) show ?thesis by auto
qed

lemma rescan_bumps_exactly_the_differences_witness:
  "\<exists>report index c d. rescan plain_env (RootDir (Some [])) [] ''n'' scanned_index opened_clock (leased_disk []) =
     (Inr report, index, c, d) \<and> sr_tombstoned report = 2 \<and> c_current c = 2 \<and>
     bumped ''n'' 0 index ''d'' \<and> bumped ''n'' 0 index ''d/f''"
proof -
  obtain report index c d where run:
    "rescan plain_env (RootDir (Some [])) [] ''n'' scanned_index opened_clock (leased_disk []) =
       (Inr report, index, c, d)" and two: "sr_tombstoned report = 2" "sr_changed report = 0"
    using emptied_root
    by (auto simp: rescan_def fold_observation_def observation_default_def scanned_index_def scanned_def
        index_get_def index_upsert_def tick_def opened_clock_def)
  have "fold_inv ''n'' scanned_index opened_clock (leased_disk [])"
    by (auto simp: fold_inv_def index_ok_def scanned_index_def scanned_def bt_ok_def own_bounded_def durable_def
        opened_clock_def leased_disk_def CLOCK_MAX_def index_get_def vv_get_def)
  note facts = rescan_bumps_exactly_the_differences [OF run this emptied_root]
  have zero: "c_current opened_clock = 0" by (simp add: opened_clock_def)
  from facts zero two have "c_current c = 2" by simp
  moreover from facts zero have "bumped ''n'' 0 index ''d''" "bumped ''n'' 0 index ''d/f''" by simp_all
  ultimately show ?thesis using run two by blast
qed

end
