(* ===== verification/GestureFacts.thy ===== *)
theory GestureFacts
  imports Engine Network ScanFacts
begin

text \<open>
  What the gestures do to a set: accepting makes a member, leaving stops everything the set serves,
  a failed write drops the set from memory, and a device that leaves and joins again deletes the
  files of the set everywhere.
\<close>

lemma put_set_sets [simp]: "map_of (en_sets (put_set i st en)) j = (if j = i then Some st else map_of (en_sets en) j)"
  by (simp add: put_set_def)

lemma put_set_fields [simp]:
  "en_self (put_set i st en) = en_self en" "en_identity (put_set i st en) = en_identity en"
  "en_store (put_set i st en) = en_store en" "en_round_counter (put_set i st en) = en_round_counter en"
  "en_sent_rounds (put_set i st en) = en_sent_rounds en" "en_directory (put_set i st en) = en_directory en"
  by (simp_all add: put_set_def)

lemma remove_set_fields [simp]:
  "en_self (remove_set i en) = en_self en" "en_identity (remove_set i en) = en_identity en"
  "en_store (remove_set i en) = en_store en" "en_round_counter (remove_set i en) = en_round_counter en"
  "en_sent_rounds (remove_set i en) = en_sent_rounds en"
  "map_of (en_sets (remove_set i en)) i = None"
  by (simp_all add: remove_set_def)

lemma persist_set_fields:
  assumes "persist_set i st en = (ok, en')"
  shows "en_self en' = en_self en" "en_identity en' = en_identity en" "en_sets en' = en_sets en"
    "en_round_counter en' = en_round_counter en" "en_sent_rounds en' = en_sent_rounds en"
  using assms by (auto simp: persist_set_def split: prod.splits)

section \<open>Frames\<close>

text \<open>What gestures and invitations leave alone: the index, the clock and the transfers' files.\<close>

definition tree :: "set_state \<Rightarrow> set_index \<times> clock \<times> disk" where
  "tree st = (ss_index st, ss_clock st, ss_lease st)"

lemma sign_own_frame:
  assumes "sign_own_status dp idn me status now st = Some (a, st')"
  obtains m where "st' = st\<lparr>ss_membership := m\<rparr>"
  using assms by (auto simp: sign_own_status_def Let_def split: option.splits prod.splits)

lemma sign_own_rest:
  assumes "sign_own_status dp idn me status now st = Some (a, st')"
  shows "tree st' = tree st" "ss_pending st' = ss_pending st" "ss_parked st' = ss_parked st" "ss_root st' = ss_root st"
    "ss_published st' = ss_published st" "ss_watermarks st' = ss_watermarks st"
  by (rule sign_own_frame [OF assms], simp add: tree_def)+

lemma announce_frame [simp]:
  "ss_membership (announce_to_members me st) = ss_membership st" "ss_root (announce_to_members me st) = ss_root st"
  "ss_pending (announce_to_members me st) = ss_pending st" "ss_parked (announce_to_members me st) = ss_parked st"
  "ss_needs (announce_to_members me st) = ss_needs st" "ss_published (announce_to_members me st) = ss_published st"
  "ss_publishing (announce_to_members me st) = ss_publishing st" "ss_index (announce_to_members me st) = ss_index st"
  "ss_clock (announce_to_members me st) = ss_clock st" "ss_lease (announce_to_members me st) = ss_lease st"
  "tree (announce_to_members me st) = tree st" "ss_watermarks (announce_to_members me st) = ss_watermarks st"
  by (simp_all add: announce_to_members_def tree_def Let_def)

lemma leave_set_spec:
  assumes "leave_set me st = (out, st')"
  shows "out = map (\<lambda>p. Revoke (snd p)) (ss_published st)" "ss_root st' = None" "ss_pending st' = []" "ss_parked st' = []"
    "ss_needs st' = []" "ss_published st' = []" "ss_publishing st' = []" "tree st' = tree st"
    "ss_membership st' = ss_membership st" "ss_watermarks st' = ss_watermarks st"
  using assms by (auto simp: leave_set_def Let_def tree_def split: if_splits)

lemma sign_status_cases:
  assumes "sign_status dp i status now en = (Inr out, en')"
  obtains st a st1 st2 where "map_of (en_sets en) i = Some st"
    "gesture_allowed status (effective (ss_membership st) (en_self en))"
    "sign_own_status dp (en_identity en) (en_self en) status now
       (if status = Active then st\<lparr>ss_claim := None, ss_disk_full := False\<rparr> else st) = Some (a, st1)"
    "(if is_terminal status then leave_set (en_self en) st1 else ([], st1)) = (out, st2)"
    "map_of (en_sets en') i = Some (announce_to_members (en_self en) st2)" "en_self en' = en_self en"
    "en_identity en' = en_identity en"
proof -
  from assms obtain st where st: "map_of (en_sets en) i = Some st" by (auto simp: sign_status_def split: option.splits)
  let ?st = "if status = Active then st\<lparr>ss_claim := None, ss_disk_full := False\<rparr> else st"
  from assms st have allowed: "gesture_allowed status (effective (ss_membership st) (en_self en))"
    by (auto simp: sign_status_def split: if_splits)
  from assms st allowed obtain a st1 where own: "sign_own_status dp (en_identity en) (en_self en) status now ?st = Some (a, st1)"
    by (cases "sign_own_status dp (en_identity en) (en_self en) status now ?st") (auto simp: sign_status_def Let_def)
  obtain out' st2 where left: "(if is_terminal status then leave_set (en_self en) st1 else ([], st1)) = (out', st2)" by fastforce
  obtain ok en1 where p: "persist_set i (announce_to_members (en_self en) st2) (remove_set i en) = (ok, en1)" by fastforce
  have r: "sign_status dp i status now en =
      (if ok then (Inr out', put_set i (announce_to_members (en_self en) st2) en1) else (Inl Io, en1))"
    using allowed by (simp add: sign_status_def st own left p Let_def split: bool.splits)
  with assms have ok: "ok" "out' = out" "en' = put_set i (announce_to_members (en_self en) st2) en1"
    by (auto split: if_splits)
  with persist_set_fields [OF p] show thesis
    by (intro that [OF st allowed own]) (simp_all add: left)
qed

lemma accept_cases:
  assumes "accept dp i root now en = (Inr u, en')"
  obtains st a st1 where "map_of (en_sets en) i = Some st" "effective (ss_membership st) (en_self en) = EInvited"
    "sign_own_status dp (en_identity en) (en_self en) Active now (st\<lparr>ss_root := Some root\<rparr>) = Some (a, st1)"
    "map_of (en_sets en') i = Some (announce_to_members (en_self en) st1)" "en_self en' = en_self en"
proof -
  from assms obtain st where st: "map_of (en_sets en) i = Some st" by (auto simp: accept_def split: option.splits)
  from assms st have inv: "effective (ss_membership st) (en_self en) = EInvited"
    by (auto simp: accept_def split: if_splits)
  let ?own = "sign_own_status dp (en_identity en) (en_self en) Active now (st\<lparr>ss_root := Some root\<rparr>)"
  from assms st inv obtain a st1 where own: "?own = Some (a, st1)" by (cases ?own) (auto simp: accept_def)
  obtain ok en1 where p: "persist_set i (announce_to_members (en_self en) st1) (remove_set i en) = (ok, en1)" by fastforce
  have r: "accept dp i root now en =
      (if ok then (Inr (), put_set i (announce_to_members (en_self en) st1) en1) else (Inl Io, en1))"
    by (simp add: accept_def st inv own p Let_def split: bool.splits)
  with assms have "en' = put_set i (announce_to_members (en_self en) st1) en1" by (auto split: if_splits)
  with persist_set_fields [OF p] show thesis by (intro that [OF st inv own]) simp_all
qed

text \<open>Inviting, accepting, pausing and resuming are gestures of the network of \<open>Network\<close>.\<close>

lemma quiet_gestures:
  "map_of (en_sets en) i = Some st \<Longrightarrow> invite dp i n now en = (r, en') \<Longrightarrow> map_of (en_sets en') i = Some st' \<Longrightarrow>
     same_files st (st'\<lparr>ss_root := ss_root st\<rparr>)"
  "map_of (en_sets en) i = Some st \<Longrightarrow> accept dp i root now en = (Inr u, en') \<Longrightarrow> map_of (en_sets en') i = Some st' \<Longrightarrow>
     same_files st (st'\<lparr>ss_root := ss_root st\<rparr>)"
  "map_of (en_sets en) i = Some st \<Longrightarrow> sign_status dp i status now en = (Inr out, en') \<Longrightarrow> \<not> is_terminal status \<Longrightarrow>
     map_of (en_sets en') i = Some st' \<Longrightarrow> same_files st (st'\<lparr>ss_root := ss_root st\<rparr>)"
proof goal_cases
  case 1
  then show ?case
    by (auto simp: invite_def Let_def same_files_def same_rest_def split: if_splits option.splits prod.splits
        dest!: persist_set_fields)
next
  case 2
  from 2(2) show ?case
  proof (cases rule: accept_cases)
    case (1 st0 a st1)
    with 2 sign_own_rest [OF 1(3)] show ?thesis by (auto simp: same_files_def same_rest_def tree_def)
  qed
next
  case 3
  from 3(2) show ?case
  proof (cases rule: sign_status_cases)
    case (1 st0 a st1 st2)
    with 3 sign_own_rest [OF 1(3)] show ?thesis by (auto simp: same_files_def same_rest_def tree_def split: if_splits)
  qed
qed

lemma refresh_frame:
  assumes "refresh_invited dp me r rs es stats kp st = (b, st')"
  shows "tree st' = tree st" "ss_pending st' = ss_pending st" "ss_parked st' = ss_parked st" "ss_root st' = ss_root st"
  using assms by (auto simp: refresh_invited_def Let_def tree_def split: if_splits)

lemma on_invite_frame:
  assumes "on_invite dp d r i desc rs es stats kp now en = (out, en')" and "map_of (en_sets en) i = Some st"
  obtains st' where "map_of (en_sets en') i = Some st'" "tree st' = tree st" "ss_pending st' = ss_pending st"
    "ss_parked st' = ss_parked st" "en_self en' = en_self en"
proof -
  obtain b st' where f: "refresh_invited dp (en_self en) r rs es stats kp st = (b, st')" by fastforce
  obtain ok en1 where p: "persist_set i st' en = (ok, en1)" by fastforce
  have "en' = put_set i st' (if b then en1 else en)"
    using assms by (cases b) (auto simp: on_invite_def f p)
  then show thesis using refresh_frame [OF f] persist_set_fields [OF p] by (intro that [of st']) auto
qed

section \<open>Own records take effect\<close>

fun standing_after :: "member_status \<Rightarrow> effective_status" where
  "standing_after Active = EActive"
| "standing_after Paused = EPaused"
| "standing_after Declined = EDeclined"
| "standing_after Left = ELeft"

text \<open>Our key signs what verifies under it, and it is the one we are pinned under.\<close>

definition own_keys :: "deps \<Rightarrow> identity \<Rightarrow> string \<Rightarrow> membership \<Rightarrow> bool" where
  "own_keys dp idn n m \<longleftrightarrow>
     (\<forall>msg. verify_detached dp (id_public_hex idn) msg (sign_hex idn msg)) \<and>
     pred_option (\<lambda>p. pin_key p = id_public_hex idn) (pin_of m n) \<and>
     parked m = [] \<and> valid_node_id n"

lemma sign_own_verifies:
  assumes "\<forall>msg. verify_detached dp (id_public_hex idn) msg (sign_hex idn msg)"
    and "sign_own dp idn sid n status seq gen at = Some r"
  shows "member_verify dp r" "mr_set_id r = sid" "mr_node_id r = n" "mr_status r = status" "mr_seq r = seq"
    "mr_sync_pub r = id_public_hex idn"
  using assms by (auto simp: sign_own_def member_verify_def verify_bytes_def member_signing_bytes_def member_signed_def Let_def
      split: option.splits)

lemma parked_iff:
  assumes "bt_ok (sm_devices m)"
  shows "parked m = [] \<longleftrightarrow> (\<forall>n dev. device_of m n = Some dev \<longrightarrow> ds_unverified dev = [])"
proof -
  have "parked m = [] \<longleftrightarrow> (\<forall>p \<in> set (sm_devices m). ds_unverified (snd p) = [])"
    by (auto simp: parked_def filter_empty_conv)
  also have "\<dots> \<longleftrightarrow> (\<forall>n dev. device_of m n = Some dev \<longrightarrow> ds_unverified dev = [])"
    using bt_ok_distinct [OF assms] by (metis map_of_SomeD map_of_is_SomeI prod.collapse snd_conv)
  finally show ?thesis .
qed

lemma hold_member_unparked:
  assumes "bt_ok (sm_devices m)" and "parked m = []"
  shows "parked (absorb_member_verified r m) = []"
proof -
  have "bt_ok (sm_devices (absorb_member_verified r m))" using assms(1) by (simp add: absorb_member_verified_def)
  moreover have "ds_unverified dev = []" if "device_of (absorb_member_verified r m) n = Some dev" for n dev
    using that assms parked_iff [OF assms(1)] by (auto simp: device_of_absorb_member split: if_splits option.splits)
  ultimately show ?thesis using parked_iff by blast
qed

lemma pin_own:
  assumes "own_keys dp idn n m" and "membership_ok m"
  shows "sm_devices (pin_direct dp n (id_public_hex idn) m) = sm_devices m"
    "sm_descriptor (pin_direct dp n (id_public_hex idn) m) = sm_descriptor m"
    "pin_of (pin_direct dp n (id_public_hex idn) m) n = Some \<lparr>pin_key = id_public_hex idn, pin_source = Direct\<rparr>"
    "parked (pin_direct dp n (id_public_hex idn) m) = []" "membership_ok (pin_direct dp n (id_public_hex idn) m)"
proof -
  let ?m1 = "m\<lparr>sm_endorsements := bt_remove n (sm_endorsements m),
      sm_pins := bt_insert n \<lparr>pin_key = id_public_hex idn, pin_source = Direct\<rparr> (sm_pins m)\<rparr>"
  have "parked ?m1 = []" using assms(1) by (simp add: own_keys_def parked_def)
  then have eq: "pin_direct dp n (id_public_hex idn) m = ?m1"
    using assms(1) by (auto simp: pin_direct_def own_keys_def Let_def reverify_nothing split: option.splits)
  show "sm_devices (pin_direct dp n (id_public_hex idn) m) = sm_devices m"
    "sm_descriptor (pin_direct dp n (id_public_hex idn) m) = sm_descriptor m"
    "pin_of (pin_direct dp n (id_public_hex idn) m) n = Some \<lparr>pin_key = id_public_hex idn, pin_source = Direct\<rparr>"
    "parked (pin_direct dp n (id_public_hex idn) m) = []"
    unfolding eq using \<open>parked ?m1 = []\<close> by simp_all
  show "membership_ok (pin_direct dp n (id_public_hex idn) m)"
    using membership_ok_op [OF assms(2), of "PinDirect n (id_public_hex idn)" dp] assms(1) by (simp add: own_keys_def)
qed

lemma own_record_takes_effect:
  assumes own: "sign_own_status dp idn n status now st = Some (a, st')"
    and keys: "own_keys dp idn n (ss_membership st)" and ok: "membership_ok (ss_membership st)"
    and room: "next_seq (ss_membership st) n < SEQ_MAX"
    and door: "is_terminal status \<or> (\<exists>dev. device_of (ss_membership st) n = Some dev \<and>
        door_open (sd_created_by (sm_descriptor (ss_membership st))) n dev)"
  shows "a = Absorbed \<and> effective (ss_membership st') n = standing_after status"
proof -
  let ?m = "pin_direct dp n (id_public_hex idn) (ss_membership st)"
  note pin = pin_own [OF keys ok]
  obtain r where r: "sign_own dp idn (sd_set_id (sm_descriptor ?m)) n status (next_seq ?m n) (c_generation (ss_clock st)) now = Some r"
    and absorbed: "absorb_record dp (Member r) ?m = (a, ss_membership st')"
    using own by (auto simp: sign_own_status_def Let_def split: option.splits prod.splits)
  note v = sign_own_verifies [OF _ r] keys [unfolded own_keys_def]
  have bt: "bt_ok (sm_devices ?m)" using pin(5) by (simp add: membership_ok_def)
  have inner: "absorb_inner dp (Member r) ?m = (Absorbed, absorb_member_verified r ?m)"
    using v pin(3) by (simp add: absorb_inner_def)
  have after: "a = Absorbed" "ss_membership st' = absorb_member_verified r ?m"
    using absorbed hold_member_unparked [OF bt pin(4), of r] by (simp_all add: absorb_record_def inner reverify_nothing)
  have seq: "next_seq ?m n = next_seq (ss_membership st) n" using pin(1) by (simp add: next_seq_def)
  obtain dev where dev: "device_of (ss_membership st') n = Some dev"
    and slot: "if is_terminal status then ds_terminal dev = Some r \<and> \<not> live_current dev else ds_live dev = Some r \<and> live_current dev"
    using own_next_record_wins [OF pin(5), of r n] v seq room after(2) by auto
  define old where "old = (case device_of (ss_membership st) n of None \<Rightarrow> device_default | Some d \<Rightarrow> d)"
  have held: "dev = hold_member r old"
    using dev device_of_absorb_member [OF bt, of r n] v(3) keys pin(1) unfolding after(2) own_keys_def by (simp add: old_def)
  have created: "sd_created_by (sm_descriptor (ss_membership st')) = sd_created_by (sm_descriptor (ss_membership st))"
    using pin(2) by (simp add: after(2) absorb_member_verified_def)
  have dev_ok: "\<exists>sid. device_ok sid n old"
    using ok keys map_of_SomeD device_ok_default
    unfolding old_def membership_ok_def own_keys_def by (fastforce split: option.splits)
  have above: "mr_seq r = ds_max_seq old + 1"
    using v(5) seq room keys by (auto simp: next_seq_def old_def own_keys_def device_default_def split: option.splits)
  have status: "mr_status r = status" using v(4) keys by (simp add: own_keys_def)
  show ?thesis
  proof (cases "is_terminal status")
    case True
    with slot have ended: "ds_terminal dev = Some r" "\<not> live_current dev" by simp_all
    have "ir_supersedes_seq i \<le> ds_max_seq old" if "ds_invited dev = Some i" for i
      using that dev_ok by (auto simp: held device_ok_def)
    then have "\<not> reopened dev"
      using ended(1) above by (fastforce simp: reopened_def door_seq_def slot_seq_def split: option.splits)
    then show ?thesis
      using ended dev after(1) True status by (auto simp: effective_def device_effective_def is_terminal_def)
  next
    case False
    with door obtain dev0 where "device_of (ss_membership st) n = Some dev0"
        "door_open (sd_created_by (sm_descriptor (ss_membership st))) n dev0" by blast
    moreover from this have "old = dev0" by (simp add: old_def)
    moreover have "door_seq dev = door_seq old" "ds_invited dev = ds_invited old"
      using False status by (simp_all add: held hold_member_def Let_def door_seq_def)
    ultimately have "door_open (sd_created_by (sm_descriptor (ss_membership st))) n dev"
      by (auto simp: door_open_def reopened_def split: option.splits)
    then show ?thesis
      using slot dev after(1) False status created
      by (cases status) (simp_all add: effective_def device_effective_def is_terminal_def)
  qed
qed

section \<open>Walking an empty folder\<close>

lemma observe_empty:
  "observe env (RootDir (Some [])) index pending =
     Inr (observation_default\<lparr>obs_tombstoned := tomb_sort (missing_paths index [] pending)\<rparr>)"
  by (simp add: observe_def)

lemma fold_scan_empty:
  assumes inv: "fold_inv self (ss_index st) (ss_clock st) (ss_lease st)"
    and self: "self = self_component (ss_clock st) me"
    and idle: "ss_pending st = []" "ss_parked st = []"
    and walk: "observe env (RootDir (Some [])) (ss_index st) (map fst (ss_pending st)) = Inr obs"
    and run: "fold_scan fx me obs st sv = (Inr report, st', sv')"
    and e: "index_get (ss_index st) p = Some e" "\<not> e_deleted e"
  obtains e' where "index_get (ss_index st') p = Some e'" "e_deleted e'" "\<forall>k. vv_get (e_vv e) k \<le> vv_get (e_vv e') k"
    "c_current (ss_clock st) < vv_get (e_vv e') self" "index_ok (ss_index st')"
proof -
  let ?ps = "tomb_sort (missing_paths (ss_index st) [] [])"
  have obs: "obs = observation_default\<lparr>obs_tombstoned := ?ps\<rparr>" using walk by (simp add: observe_empty idle)
  have "rearm st = st" by (simp add: rearm_def idle)
  then obtain k index c d where f: "fold_tombstoned self ?ps 0 (ss_index st) (ss_clock st) (ss_lease st) = (Inr k, index, c, d)"
    and st': "st' = (drain_pending fx self (st\<lparr>ss_index := index, ss_clock := c, ss_lease := d\<rparr>))\<lparr>ss_ignored := sr_ignored report\<rparr>"
    using run by (auto simp: fold_scan_def scan_folded_def fold_observation_def obs observation_default_def self Let_def
        split: prod.splits sum.splits bool.splits)
  have index: "ss_index st' = index" by (simp add: st' drain_idle idle)
  have ok: "index_ok (ss_index st)" using inv by (simp add: fold_inv_def)
  have "distinct ?ps" using distinct_live [OF ok] by (simp add: distinct_tomb_sort missing_paths_def)
  note t = fold_tombstoned_spec [OF f inv this]
  have "p \<in> set ?ps"
    using e live_path_iff [OF ok] by (auto simp: missing_paths_def live_path_def)
  then have p: "p \<in> set (live_among (ss_index st) ?ps)" using e by simp
  obtain e' where e': "index_get index p = Some e'" "e_deleted e'" using t p by blast
  moreover have "descends (ss_index st) index p" using t by (simp add: advance_def)
  then have "\<forall>k. vv_get (e_vv e) k \<le> vv_get (e_vv e') k" using e(1) e'(1) by (auto simp: descends_def)
  moreover have "c_current (ss_clock st) < vv_get (e_vv e') self" using t p e'(1) by (fastforce simp: advance_def bumped_def)
  ultimately show thesis using t by (intro that [of e']) (simp_all add: index fold_inv_def)
qed

lemma strictly_above:
  assumes "bt_ok v" "bt_ok w" "\<forall>k. vv_get v k \<le> vv_get w k" "vv_get v self < vv_get w self"
  shows "vv_relation w v = Descends"
proof -
  have "covers w v" "\<not> covers v w" using covers_iff [OF assms(1)] covers_iff [OF assms(2)] assms(3,4) by (auto simp: not_le)
  then show ?thesis by (simp add: vv_relation_def)
qed

section \<open>A sample engine\<close>

text \<open>
  A device invited into a set of one member, with a bound folder holding one file; its key is pinned and
  the sample scheme accepts every signature.
\<close>

definition sample_invite :: invited_record where
  "sample_invite = \<lparr>ir_set_id = sd_set_id sample_set, ir_node_id = node_b, ir_invited_by = node_a,
     ir_supersedes_seq = 5, ir_at = 1, ir_sig = replicate 128 CHR ''f''\<rparr>"

definition own_identity :: identity where
  "own_identity = \<lparr>id_public_hex = mr_sync_pub sample_member, sign_hex = (\<lambda>_. replicate 128 CHR ''f'')\<rparr>"

definition invited_device :: device_state where
  "invited_device = device_default\<lparr>ds_invited := Some sample_invite, ds_max_seq := 5\<rparr>"

definition joined_device :: device_state where
  "joined_device = invited_device\<lparr>ds_live := Some (sample_member\<lparr>mr_node_id := node_b, mr_seq := 6\<rparr>), ds_max_seq := 6\<rparr>"

definition member_with :: "device_state \<Rightarrow> membership" where
  "member_with dev = (membership_new sample_set)\<lparr>
     sm_devices := [(node_a, device_default\<lparr>ds_live := Some sample_member, ds_max_seq := 3\<rparr>), (node_b, dev)],
     sm_pins := [(node_a, \<lparr>pin_key = mr_sync_pub sample_member, pin_source = Direct\<rparr>),
       (node_b, \<lparr>pin_key = mr_sync_pub sample_member, pin_source = Direct\<rparr>)]\<rparr>"

definition state_with :: "device_state \<Rightarrow> set_state" where
  "state_with dev = sample_state\<lparr>ss_membership := member_with dev, ss_index := [(''f'', file_at ''f'' [(''p'', 3)])]\<rparr>"

definition engine_with :: "device_state \<Rightarrow> bool list \<Rightarrow> engine" where
  "engine_with dev faults = \<lparr>en_self = node_b, en_identity = own_identity,
     en_sets = [(sd_set_id sample_set, state_with dev)],
     en_store = (\<lambda>_. \<lparr>sv_meta = None, sv_index = None, sv_faults = faults\<rparr>), en_round_counter = 0, en_sent_rounds = [],
     en_directory = \<lparr>dv_device_of = [], dv_names = [], dv_reachable = [], dv_platforms = [], dv_last_seen = []\<rparr>\<rparr>"

abbreviation sample_sid :: string where "sample_sid \<equiv> sd_set_id sample_set"

lemma sample_invite_ok: "invited_ok sample_invite"
  by (simp add: invited_ok_def sample_invite_def sample_set_def valid_set_id_def valid_sig_def lower_hex_def list_all_iff
      is_alnum_def is_lower_hex_def is_digit_def SEQ_MAX_def)

lemma node_order [simp]: "node_a < node_b" "node_a \<noteq> node_b" "node_b \<noteq> node_a" "\<not> node_b < node_a"
proof -
  have a: "node_a = CHR ''a'' # replicate 63 CHR ''a''" and b: "node_b = CHR ''b'' # replicate 63 CHR ''b''"
    by (simp_all add: numeral_eq_Suc)
  show "node_a < node_b" unfolding a b by (simp only: list_less_def lexordp_simps) (simp add: less_char_def)
  then show "node_a \<noteq> node_b" "node_b \<noteq> node_a" "\<not> node_b < node_a" by auto
qed

lemma member_with_ok:
  assumes "device_ok sample_sid node_b dev"
  shows "membership_ok (member_with dev)"
  using assms sample_member_ok sample_set_ok
  by (simp add: membership_ok_def member_with_def membership_new_def device_ok_def held_ok_def member_ok_def
      is_terminal_def SEQ_MAX_def UNVERIFIED_CAP_def bt_ok_def device_default_def)

lemma devices_ok: "device_ok sample_sid node_b invited_device" "device_ok sample_sid node_b joined_device"
  using sample_member_ok sample_invite_ok
  by (simp_all add: device_ok_def joined_device_def invited_device_def held_ok_def member_ok_def device_default_def
      is_terminal_def SEQ_MAX_def UNVERIFIED_CAP_def sample_invite_def)

lemma member_with_keys:
  assumes "ds_unverified dev = []"
  shows "own_keys sample_deps own_identity node_b (member_with dev)"
  using assms
  by (simp add: own_keys_def member_with_def membership_new_def parked_def own_identity_def device_default_def
      verify_detached_def sample_deps_def sample_member_def)

lemma sample_sign:
  assumes "now \<le> 1000" "gen \<le> 1000" "seq \<le> 1000"
  shows "sign_own sample_deps own_identity sample_sid node_b status seq gen now =
    Some \<lparr>mr_set_id = sample_sid, mr_node_id = node_b, mr_status = status, mr_seq = seq, mr_generation = gen,
      mr_sync_pub = mr_sync_pub sample_member, mr_at = now, mr_sig = replicate 128 CHR ''f''\<rparr>"
proof -
  let ?r = "\<lambda>sig. \<lparr>mr_set_id = sample_sid, mr_node_id = node_b, mr_status = status, mr_seq = seq, mr_generation = gen,
      mr_sync_pub = mr_sync_pub sample_member, mr_at = now, mr_sig = sig\<rparr>"
  have "member_ok (?r (replicate 128 CHR ''f''))"
    using sample_member_ok sample_set_ok assms sample_invite_ok
    by (simp add: member_ok_def SEQ_MAX_def invited_ok_def sample_invite_def)
  then obtain b where "member_signing_bytes sample_deps (?r (replicate 128 CHR ''f'')) = Some b"
    using member_signing_total by blast
  then have "member_signing_bytes sample_deps (?r []) = Some b"
    by (simp add: member_signing_bytes_def member_signed_def)
  then show ?thesis by (simp add: sign_own_def own_identity_def)
qed

lemma engine_with_simps [simp]:
  "map_of (en_sets (engine_with dev fs)) sample_sid =
     Some (state_with dev)"
  "en_self (engine_with dev fs) = node_b" "en_identity (engine_with dev fs) = own_identity"
  "sv_faults (en_store (engine_with dev fs) x) = fs"
  by (simp_all add: engine_with_def)

lemma state_with_simps [simp]:
  "ss_membership (state_with dev) = member_with dev" "ss_clock (state_with dev) = opened_clock"
  "ss_published (state_with dev) = ss_published sample_state" "ss_pending (state_with dev) = []"
  "ss_parked (state_with dev) = []" "ss_index (state_with dev) = [(''f'', file_at ''f'' [(''p'', 3)])]"
  "ss_lease (state_with dev) = leased_disk []"
  by (simp_all add: state_with_def)

lemma member_with_simps [simp]:
  "device_of (member_with dev) node_b = Some dev" "sm_descriptor (member_with dev) = sample_set"
  "device_of (member_with dev) node_a = Some (device_default\<lparr>ds_live := Some sample_member, ds_max_seq := 3\<rparr>)"
  by (simp_all add: member_with_def membership_new_def)

lemma sample_own_status:
  assumes "ss_membership st = member_with dev" "ds_unverified dev = []" "device_ok sample_sid node_b dev" "now \<le> 1000"
    "ds_max_seq dev < 1000" "c_generation (ss_clock st) \<le> 1000"
  shows "sign_own_status sample_deps own_identity node_b status now st \<noteq> None"
proof -
  note pin = pin_own [OF member_with_keys [OF assms(2)] member_with_ok [OF assms(3)]]
  have "next_seq (pin_direct sample_deps node_b (id_public_hex own_identity) (member_with dev)) node_b = ds_max_seq dev + 1"
    using pin(1) assms(5) by (simp add: next_seq_def SEQ_MAX_def)
  moreover have "sd_set_id (sm_descriptor (pin_direct sample_deps node_b (id_public_hex own_identity) (member_with dev))) = sample_sid"
    using pin(2) by simp
  ultimately show ?thesis
    using assms sample_sign [of now "c_generation (ss_clock st)" "ds_max_seq dev + 1" status]
    by (simp add: sign_own_status_def Let_def split: prod.splits)
qed

lemma opened_generation [simp]: "c_generation opened_clock \<le> 1000"
  by (simp add: opened_clock_def)

lemma persist_set_still:
  assumes "sv_faults (en_store en i) = []"
  obtains en' where "persist_set i st en = (True, en')" "sv_faults (en_store en' i) = []"
  using assms by (simp add: persist_set_def persist_def next_write_def split: prod.splits)

lemma sign_status_succeeds:
  assumes "map_of (en_sets en) i = Some st" "gesture_allowed status (effective (ss_membership st) (en_self en))"
    and "sign_own_status dp (en_identity en) (en_self en) status now
       (if status = Active then st\<lparr>ss_claim := None, ss_disk_full := False\<rparr> else st) \<noteq> None"
    and "sv_faults (en_store en i) = []"
  obtains out en' where "sign_status dp i status now en = (Inr out, en')" "sv_faults (en_store en' i) = []"
proof -
  from assms(3) obtain a st1 where own: "sign_own_status dp (en_identity en) (en_self en) status now
       (if status = Active then st\<lparr>ss_claim := None, ss_disk_full := False\<rparr> else st) = Some (a, st1)" by auto
  obtain out st2 where left: "(if is_terminal status then leave_set (en_self en) st1 else ([], st1)) = (out, st2)" by fastforce
  obtain en1 where p: "persist_set i (announce_to_members (en_self en) st2) (remove_set i en) = (True, en1)"
    "sv_faults (en_store en1 i) = []"
    by (rule persist_set_still [of "remove_set i en" i]) (use assms(4) in simp_all)
  have "sign_status dp i status now en = (Inr out, put_set i (announce_to_members (en_self en) st2) en1)"
    using assms(2) by (simp add: sign_status_def assms(1) own left p(1) Let_def)
  then show thesis by (rule that) (use p(2) in simp)
qed

lemma accept_succeeds:
  assumes "map_of (en_sets en) i = Some st" "effective (ss_membership st) (en_self en) = EInvited"
    and "sign_own_status dp (en_identity en) (en_self en) Active now (st\<lparr>ss_root := Some root\<rparr>) \<noteq> None"
    and "sv_faults (en_store en i) = []"
  obtains en' where "accept dp i root now en = (Inr (), en')" "sv_faults (en_store en' i) = []"
proof -
  from assms(3) obtain a st1 where own: "sign_own_status dp (en_identity en) (en_self en) Active now
       (st\<lparr>ss_root := Some root\<rparr>) = Some (a, st1)" by auto
  obtain en1 where p: "persist_set i (announce_to_members (en_self en) st1) (remove_set i en) = (True, en1)"
    "sv_faults (en_store en1 i) = []"
    by (rule persist_set_still [of "remove_set i en" i]) (use assms(4) in simp_all)
  have "accept dp i root now en = (Inr (), put_set i (announce_to_members (en_self en) st1) en1)"
    by (simp add: accept_def assms(1,2) own p(1) Let_def)
  then show thesis by (rule that) (use p(2) in simp)
qed

lemma invited_simps: "ds_unverified invited_device = []" "ds_max_seq invited_device = 5" "reopened invited_device"
  by (simp_all add: invited_device_def device_default_def reopened_def door_seq_def slot_seq_def sample_invite_def)

lemma invited_effective: "effective (member_with invited_device) node_b = EInvited"
  by (simp add: effective_def device_effective_def live_current_def door_open_def reopened_def door_seq_def slot_seq_def
        invited_device_def device_default_def sample_invite_def)

text \<open>The joined device leaves, and is invited again by the creator.\<close>

definition left_device :: device_state where
  "left_device = joined_device\<lparr>ds_max_seq := 7, ds_terminal := Some
     \<lparr>mr_set_id = sample_sid, mr_node_id = node_b, mr_status = Left, mr_seq = 7, mr_generation = c_generation opened_clock,
       mr_sync_pub = mr_sync_pub sample_member, mr_at = 9, mr_sig = replicate 128 CHR ''f''\<rparr>\<rparr>"

definition back_device :: device_state where
  "back_device = left_device\<lparr>ds_invited := Some (sample_invite\<lparr>ir_supersedes_seq := 7\<rparr>)\<rparr>"

lemma devices_unparked [simp]:
  "ds_unverified joined_device = []" "ds_unverified left_device = []" "ds_unverified back_device = []"
  "ds_max_seq joined_device = 6" "ds_max_seq back_device = 7"
  by (simp_all add: joined_device_def left_device_def back_device_def invited_device_def device_default_def)

lemma member_with_parked [simp]: "parked (member_with dev) = (if ds_unverified dev = [] then [] else [(node_b, ds_unverified dev)])"
  by (simp add: parked_def member_with_def device_default_def)

lemma pin_again:
  "ds_unverified dev = [] \<Longrightarrow> n = node_a \<or> n = node_b \<Longrightarrow>
     pin_direct sample_deps n (mr_sync_pub sample_member) (member_with dev) = member_with dev"
  by (auto simp: pin_direct_def reverify_nothing bt_remove_def Let_def) (auto simp: member_with_def membership_new_def)

lemma signed_left: "sign_own_status sample_deps own_identity node_b Left 9 (state_with joined_device) =
    Some (Absorbed, state_with left_device)"
proof -
  let ?r = "the (ds_terminal left_device)"
  have r: "?r = \<lparr>mr_set_id = sample_sid, mr_node_id = node_b, mr_status = Left, mr_seq = 7, mr_generation = c_generation opened_clock,
       mr_sync_pub = mr_sync_pub sample_member, mr_at = 9, mr_sig = replicate 128 CHR ''f''\<rparr>"
    by (simp add: left_device_def)
  have "member_ok ?r" using sample_member_ok sample_set_ok sample_invite_ok
    by (simp add: r member_ok_def SEQ_MAX_def invited_ok_def sample_invite_def opened_clock_def)
  then have verified: "member_verify sample_deps ?r" by (rule sample_member_verifies)
  have pin: "pin_of (member_with joined_device) node_b = Some \<lparr>pin_key = mr_sync_pub sample_member, pin_source = Direct\<rparr>"
    by (simp add: member_with_def)
  have held: "absorb_member_verified ?r (member_with joined_device) = member_with left_device"
    by (simp add: r absorb_member_verified_def member_with_def membership_new_def hold_member_def is_terminal_def Let_def
        keep_newest_def left_device_def joined_device_def invited_device_def device_default_def)
  have "absorb_inner sample_deps (Member ?r) (member_with joined_device) = (Absorbed, member_with left_device)"
    using verified pin held by (simp add: absorb_inner_def r)
  then have "absorb_record sample_deps (Member ?r) (member_with joined_device) = (Absorbed, member_with left_device)"
    by (simp add: absorb_record_def reverify_nothing)
  moreover have "next_seq (member_with joined_device) node_b = 7" by (simp add: next_seq_def SEQ_MAX_def)
  ultimately show ?thesis
    using sample_sign [of 9 "c_generation opened_clock" 7 Left]
    by (simp add: sign_own_status_def pin_again own_identity_def r Let_def state_with_def)
qed

lemma invited_back:
  "absorb_record sample_deps (Invited (sample_invite\<lparr>ir_supersedes_seq := 7\<rparr>)) (member_with left_device) =
     (Absorbed, member_with back_device)"
proof -
  let ?i = "sample_invite\<lparr>ir_supersedes_seq := 7\<rparr>"
  have "invited_ok ?i" using sample_invite_ok by (simp add: invited_ok_def SEQ_MAX_def)
  then obtain b where "invited_signing_bytes sample_deps ?i = Some b"
    using signing_bytes_total [where i = ?i and dp = sample_deps] by blast
  then have verified: "invited_verify sample_deps (mr_sync_pub sample_member) ?i"
    by (simp add: invited_verify_def verify_bytes_def verify_detached_def sample_deps_def sample_member_def sample_invite_def)
  have "key_for (member_with left_device) node_a = Some (mr_sync_pub sample_member)"
    by (simp add: key_for_def member_with_def membership_new_def)
  moreover have "is_admitted (member_with left_device) node_a"
    by (simp add: is_admitted_def effective_def device_effective_def live_current_def door_open_def reopened_def
        door_seq_def slot_seq_def device_default_def)
  moreover have "absorb_invited_verified ?i (member_with left_device) = member_with back_device"
    by (simp add: absorb_invited_verified_def member_with_def membership_new_def hold_invited_def keep_newest_def
        sample_invite_def back_device_def left_device_def joined_device_def invited_device_def device_default_def
        invited_beats_def)
  moreover have "ir_invited_by ?i = node_a" "record_set_id (Invited ?i) = sample_sid" by (simp_all add: sample_invite_def)
  ultimately have "absorb_inner sample_deps (Invited ?i) (member_with left_device) = (Absorbed, member_with back_device)"
    using verified by (simp add: absorb_inner_def)
  then show ?thesis by (simp add: absorb_record_def reverify_nothing)
qed

lemma back_effective: "effective (member_with back_device) node_b = EInvited" "effective (member_with back_device) node_a = EActive"
  by (simp_all add: effective_def device_effective_def live_current_def door_open_def reopened_def door_seq_def slot_seq_def
      back_device_def left_device_def joined_device_def invited_device_def device_default_def sample_invite_def member_beats_def)

lemma back_ok: "device_ok sample_sid node_b back_device"
  using devices_ok(2) sample_member_ok sample_invite_ok sample_set_ok
  by (simp add: device_ok_def back_device_def left_device_def joined_device_def invited_device_def held_ok_def member_ok_def
      is_terminal_def SEQ_MAX_def invited_ok_def device_default_def sample_invite_def opened_clock_def)

lemma self_not_p: "''p'' \<noteq> self_component opened_clock node_b" "self_component opened_clock node_b \<noteq> ''p''"
  by (auto simp: self_component_def component_def dest: arg_cong [of _ _ length])

lemma sample_rejoin_inv:
  "fold_inv (self_component opened_clock node_b) [(''f'', file_at ''f'' [(''p'', 3)])] opened_clock (leased_disk [])"
  using self_not_p
  by (auto simp: fold_inv_def index_ok_def bt_ok_def own_bounded_def durable_def opened_clock_def leased_disk_def
      index_get_def vv_get_def CLOCK_MAX_def split: if_splits)

lemma sample_unpublished [simp]: "ss_published sample_state = []"
  by (simp add: sample_state_def fresh_def clock_open_def reserve_def write_lease_def Let_def CLOCK_CEILING_def RESERVE_BLOCK_def)

lemma sample_leaving:
  obtains en1 st1 where "sign_status sample_deps sample_sid Left 9 (engine_with joined_device []) = (Inr [], en1)"
    "sv_faults (en_store en1 sample_sid) = []" "map_of (en_sets en1) sample_sid = Some st1"
    "ss_membership st1 = member_with left_device" "tree st1 = tree (state_with joined_device)" "ss_pending st1 = []"
    "ss_parked st1 = []" "en_self en1 = node_b" "en_identity en1 = own_identity"
proof -
  have "effective (member_with joined_device) node_b = EActive"
    by (simp add: effective_def device_effective_def live_current_def door_open_def reopened_def door_seq_def slot_seq_def
        joined_device_def invited_device_def device_default_def sample_invite_def)
  then obtain out en1 where run: "sign_status sample_deps sample_sid Left 9 (engine_with joined_device []) = (Inr out, en1)"
      "sv_faults (en_store en1 sample_sid) = []"
    using sign_status_succeeds [of "engine_with joined_device []" sample_sid "state_with joined_device" Left sample_deps 9]
      signed_left by (auto simp: gesture_allowed_def)
  from run(1) show thesis
  proof (cases rule: sign_status_cases)
    case (1 st a st1 st2)
    then have "st1 = state_with left_device" using signed_left by simp
    moreover have "leave_set node_b st1 = (out, st2)" using 1(4) by (simp add: is_terminal_def)
    note l = leave_set_spec [OF this]
    ultimately show thesis using 1(5-7) run l
      by (intro that [of en1 "announce_to_members node_b st2"]) (simp_all add: tree_def state_with_def)
  qed
qed

lemma sample_reinvited:
  assumes "sv_faults (en_store en sample_sid) = []" "map_of (en_sets en) sample_sid = Some st"
    "ss_membership st = member_with left_device" "en_self en = node_b"
  obtains en' st' where "on_invite sample_deps (leased_disk []) node_a sample_sid sample_set
       [Invited (sample_invite\<lparr>ir_supersedes_seq := 7\<rparr>)] [] (1, 1) (mr_sync_pub sample_member) 10 en =
       ([Send node_a (message_to_value (MsgInviteAck sample_sid))], en')" "sv_faults (en_store en' sample_sid) = []"
    "map_of (en_sets en') sample_sid = Some st'" "ss_membership st' = member_with back_device" "tree st' = tree st"
    "ss_pending st' = ss_pending st" "ss_parked st' = ss_parked st" "en_self en' = node_b" "en_identity en' = en_identity en"
proof -
  let ?r = "refresh_invited sample_deps node_b node_a [Invited (sample_invite\<lparr>ir_supersedes_seq := 7\<rparr>)] [] (1, 1)
      (mr_sync_pub sample_member) st"
  obtain st' where r: "?r = (True, st')" and m: "ss_membership st' = member_with back_device"
    using assms(3) by (simp add: refresh_invited_def absorb_gossip_def pin_again invited_back back_effective Let_def)
  obtain en1 where p: "persist_set sample_sid st' en = (True, en1)" "sv_faults (en_store en1 sample_sid) = []"
    by (rule persist_set_still [OF assms(1)])
  have "on_invite sample_deps (leased_disk []) node_a sample_sid sample_set
       [Invited (sample_invite\<lparr>ir_supersedes_seq := 7\<rparr>)] [] (1, 1) (mr_sync_pub sample_member) 10 en =
       ([Send node_a (message_to_value (MsgInviteAck sample_sid))], put_set sample_sid st' en1)"
    using r p by (simp add: on_invite_def assms(2,4))
  then show thesis
    using m p refresh_frame [OF r] persist_set_fields [OF p(1)] assms(4) by (intro that [of "put_set sample_sid st' en1" st']) simp_all
qed

lemma sample_walk:
  assumes "tree st = tree (state_with joined_device)" "ss_pending st = []" "ss_parked st = []" "sv_faults sv = []"
  obtains obs report st' sv' where "observe plain_env (RootDir (Some [])) (ss_index st) [] = Inr obs"
    "fold_scan still_fs node_b obs st sv = (Inr report, st', sv')"
proof -
  have t: "ss_index st = [(''f'', file_at ''f'' [(''p'', 3)])]" "ss_clock st = opened_clock" "ss_lease st = leased_disk []"
    using assms(1) by (simp_all add: tree_def)
  have obs: "observe plain_env (RootDir (Some [])) (ss_index st) [] = Inr (observation_default\<lparr>obs_tombstoned := [''f'']\<rparr>)"
    by (simp add: t observe_empty missing_paths_def live_def index_entries_def tomb_sort_def)
  obtain report st1 where "scan_folded (self_component opened_clock node_b)
      (observation_default\<lparr>obs_tombstoned := [''f'']\<rparr>) (rearm st) = (Inr report, st1)"
    using t by (simp add: scan_folded_def rearm_def fold_observation_def observation_default_def index_get_def tick_def opened_clock_def)
  then obtain st' sv' where "fold_scan still_fs node_b (observation_default\<lparr>obs_tombstoned := [''f'']\<rparr>) st sv = (Inr report, st', sv')"
    using assms(4) t by (simp add: fold_scan_def persist_def next_write_def Let_def)
  with obs show thesis by (rule that)
qed

section \<open>Properties\<close>

text \<open>
  C20. Leaving a set and joining it again deletes its files everywhere: the index survives the departure,
  accepting binds an empty folder, so the first walk tombstones every file and directory of the set
  under vectors that descend from all the others held, and the next answering leg sends the deletions to
  every peer that has not seen them.
\<close>

theorem rejoining_deletes_the_set:
  assumes held: "map_of (en_sets en) i = Some st"
    and inv: "fold_inv (self_component (ss_clock st) (en_self en)) (ss_index st) (ss_clock st) (ss_lease st)"
    and left: "sign_status dp i Left t1 en = (Inr out1, en1)"
    and invited: "on_invite dp d r i desc rs es stats kp t2 en1 = (out2, en2)"
    and again: "accept dp i root t3 en2 = (Inr u, en3)" "map_of (en_sets en3) i = Some st3"
    and walk: "observe env (RootDir (Some [])) (ss_index st3) (map fst (ss_pending st3)) = Inr obs"
      "fold_scan fx (en_self en3) obs st3 sv = (Inr report, st4, sv')"
    and was: "index_get (ss_index st) p = Some e" "\<not> e_deleted e"
    and peer: "vv_get theirs (self_component (ss_clock st) (en_self en)) \<le> c_current (ss_clock st)"
  shows "\<exists>tomb. index_get (ss_index st4) p = Some tomb \<and> e_deleted tomb \<and>
    vv_relation (e_vv tomb) (e_vv e) = Descends \<and> tomb \<in> set (leg_delta theirs st4)"
proof -
  let ?self = "self_component (ss_clock st) (en_self en)"
  from left held obtain st1 where st1: "map_of (en_sets en1) i = Some st1" "tree st1 = tree st" "ss_pending st1 = []"
      "ss_parked st1 = []" "en_self en1 = en_self en"
  proof (cases rule: sign_status_cases)
    case (1 st0 a st1 st2)
    have "leave_set (en_self en) st1 = (out1, st2)" using 1(4) by (simp add: is_terminal_def)
    note l = leave_set_spec [OF this]
    have "st0 = st" using 1(1) held by simp
    then have "tree st1 = tree st" using sign_own_rest(1) [OF 1(3)] by simp
    then show thesis using 1 l by (intro that [of "announce_to_members (en_self en) st2"]) auto
  qed
  from on_invite_frame [OF invited st1(1)] obtain st2 where st2: "map_of (en_sets en2) i = Some st2"
      "tree st2 = tree st" "ss_pending st2 = []" "ss_parked st2 = []" "en_self en2 = en_self en"
    using st1 by metis
  obtain st0 a sx where acc: "map_of (en_sets en2) i = Some st0" "en_self en3 = en_self en2"
      "sign_own_status dp (en_identity en2) (en_self en2) Active t3 (st0\<lparr>ss_root := Some root\<rparr>) = Some (a, sx)"
      "map_of (en_sets en3) i = Some (announce_to_members (en_self en2) sx)"
    using accept_cases [OF again(1)] by metis
  have "st0 = st2" "st3 = announce_to_members (en_self en2) sx" using acc(1,4) st2(1) again(2) by simp_all
  then have st3: "tree st3 = tree st" "ss_pending st3 = []" "ss_parked st3 = []" "en_self en3 = en_self en"
    using sign_own_rest [OF acc(3)] st2 acc(2) by (simp_all add: tree_def)
  have same: "ss_index st3 = ss_index st" "ss_clock st3 = ss_clock st" "ss_lease st3 = ss_lease st"
    using st3(1) by (simp_all add: tree_def)
  obtain tomb where tomb: "index_get (ss_index st4) p = Some tomb" "e_deleted tomb"
      "\<forall>k. vv_get (e_vv e) k \<le> vv_get (e_vv tomb) k" "c_current (ss_clock st) < vv_get (e_vv tomb) ?self" "index_ok (ss_index st4)"
    by (rule fold_scan_empty [of ?self st3 "en_self en3" env obs fx sv report st4 sv' p e])
      (use inv walk was st3 same in simp_all)
  have bt: "bt_ok (e_vv tomb)" "bt_ok (e_vv e)"
    using index_getD tomb(1,5) was(1) inv by (auto simp: fold_inv_def)
  have "vv_get (e_vv e) ?self \<le> c_current (ss_clock st)" using inv was(1) by (auto simp: fold_inv_def own_bounded_def)
  then have "vv_relation (e_vv tomb) (e_vv e) = Descends"
    using tomb(3,4) by (intro strictly_above [OF bt(2,1), of ?self]) auto
  moreover have "\<not> covers theirs (e_vv tomb)" using covers_iff [OF bt(1)] peer tomb(4) by (metis leD le_trans)
  then have "tomb \<in> set (leg_delta theirs st4)"
    using tomb(1,5) index_getD by (force simp: leg_delta_def not_covered_by_def index_entries_iff)
  ultimately show ?thesis using tomb by blast
qed

lemma rejoining_deletes_the_set_witness:
  "\<exists>en1 en2 en3 st3 obs report st4 sv' tomb.
     sign_status sample_deps sample_sid Left 9 (engine_with joined_device []) = (Inr [], en1) \<and>
     on_invite sample_deps (leased_disk []) node_a sample_sid sample_set
       [Invited (sample_invite\<lparr>ir_supersedes_seq := 7\<rparr>)] [] (1, 1) (mr_sync_pub sample_member) 10 en1 =
       ([Send node_a (message_to_value (MsgInviteAck sample_sid))], en2) \<and>
     accept sample_deps sample_sid ''/empty'' 11 en2 = (Inr (), en3) \<and> map_of (en_sets en3) sample_sid = Some st3 \<and>
     observe plain_env (RootDir (Some [])) (ss_index st3) [] = Inr obs \<and>
     fold_scan still_fs node_b obs st3 (en_store en3 sample_sid) = (Inr report, st4, sv') \<and>
     index_get (ss_index st4) ''f'' = Some tomb \<and> e_deleted tomb \<and> tomb \<in> set (leg_delta [(''p'', 3)] st4)"
proof -
  obtain en1 st1 where 1: "sign_status sample_deps sample_sid Left 9 (engine_with joined_device []) = (Inr [], en1)"
    "sv_faults (en_store en1 sample_sid) = []" "map_of (en_sets en1) sample_sid = Some st1"
    "ss_membership st1 = member_with left_device" "tree st1 = tree (state_with joined_device)" "ss_pending st1 = []"
    "ss_parked st1 = []" "en_self en1 = node_b" "en_identity en1 = own_identity"
    by (rule sample_leaving)
  obtain en2 st2 where 2: "on_invite sample_deps (leased_disk []) node_a sample_sid sample_set
       [Invited (sample_invite\<lparr>ir_supersedes_seq := 7\<rparr>)] [] (1, 1) (mr_sync_pub sample_member) 10 en1 =
       ([Send node_a (message_to_value (MsgInviteAck sample_sid))], en2)" "sv_faults (en_store en2 sample_sid) = []"
    "map_of (en_sets en2) sample_sid = Some st2" "ss_membership st2 = member_with back_device" "tree st2 = tree st1"
    "ss_pending st2 = []" "ss_parked st2 = []" "en_self en2 = node_b" "en_identity en2 = own_identity"
    by (rule sample_reinvited [OF 1(2-4,8)]) (use 1 in simp_all)
  have own: "sign_own_status sample_deps own_identity node_b Active 11 (st2\<lparr>ss_root := Some ''/empty''\<rparr>) \<noteq> None"
    by (rule sample_own_status [of _ back_device]) (use 2 1 back_ok in \<open>simp_all add: tree_def\<close>)
  obtain en3 where 3: "accept sample_deps sample_sid ''/empty'' 11 en2 = (Inr (), en3)" "sv_faults (en_store en3 sample_sid) = []"
    by (rule accept_succeeds [OF 2(3), where dp = sample_deps and root = "''/empty''" and now = 11])
      (use 2 own back_effective in simp_all)
  from 3(1) obtain st3 where 4: "map_of (en_sets en3) sample_sid = Some st3" "tree st3 = tree (state_with joined_device)"
      "ss_pending st3 = []" "ss_parked st3 = []" "en_self en3 = node_b"
  proof (cases rule: accept_cases)
    case (1 st a st')
    with 2 show thesis using sign_own_rest [OF 1(3)] \<open>tree st1 = _\<close>
      by (intro that [of "announce_to_members (en_self en2) st'"]) (simp_all add: tree_def)
  qed
  obtain obs report st4 sv' where 5: "observe plain_env (RootDir (Some [])) (ss_index st3) [] = Inr obs"
    "fold_scan still_fs node_b obs st3 (en_store en3 sample_sid) = (Inr report, st4, sv')"
    by (rule sample_walk [OF 4(2-4) 3(2)])
  have walk: "observe plain_env (RootDir (Some [])) (ss_index st3) (map fst (ss_pending st3)) = Inr obs"
    "fold_scan still_fs (en_self en3) obs st3 (en_store en3 sample_sid) = (Inr report, st4, sv')"
    using 4 5 by simp_all
  have was: "index_get (ss_index (state_with joined_device)) ''f'' = Some (file_at ''f'' [(''p'', 3)])"
    by (simp add: index_get_def)
  have "\<exists>tomb. index_get (ss_index st4) ''f'' = Some tomb \<and> e_deleted tomb \<and>
      vv_relation (e_vv tomb) (e_vv (file_at ''f'' [(''p'', 3)])) = Descends \<and> tomb \<in> set (leg_delta [(''p'', 3)] st4)"
    by (rule rejoining_deletes_the_set [OF engine_with_simps(1) _ 1(1) 2(1) 3(1) 4(1) walk was])
      (use sample_rejoin_inv self_not_p in \<open>simp_all add: vv_get_def\<close>)
  with 1 2 3 4 5 show ?thesis by blast
qed



text \<open>
  Accepting an invitation that supersedes every departure makes an active member: the folder is
  bound, our signed record takes effect, and every other member will be told.
\<close>

theorem accepting_makes_a_member:
  assumes held: "map_of (en_sets en) i = Some st" and run: "accept dp i root now en = (Inr u, en')"
    and ok: "own_keys dp (en_identity en) (en_self en) (ss_membership st)" "membership_ok (ss_membership st)"
      "next_seq (ss_membership st) (en_self en) < SEQ_MAX"
    and dev: "device_of (ss_membership st) (en_self en) = Some dev" "reopened dev"
  shows "\<exists>st'. map_of (en_sets en') i = Some st' \<and> effective (ss_membership st') (en_self en) = EActive \<and>
    ss_root st' = Some root \<and>
    {n \<in> set (device_ids (ss_membership st')). n \<noteq> en_self en \<and> is_admitted (ss_membership st') n} \<subseteq> fst ` set (ss_announce st')"
  using run
proof (cases rule: accept_cases)
  case (1 st0 a st1)
  have "st0 = st" using held 1(1) by simp
  then have own: "sign_own_status dp (en_identity en) (en_self en) Active now (st\<lparr>ss_root := Some root\<rparr>) = Some (a, st1)"
    using 1 by simp
  have "door_open (sd_created_by (sm_descriptor (ss_membership st))) (en_self en) dev" using dev(2) by (simp add: door_open_def)
  with own_record_takes_effect [OF own] ok dev(1) have eff: "effective (ss_membership st1) (en_self en) = EActive" by simp
  have "fst ` set (foldl (\<lambda>s n. bt_insert n () s) s ns) = set ns \<union> fst ` set s" for s :: "string bset" and ns
    by (induction ns arbitrary: s) auto
  then have "{n \<in> set (device_ids (ss_membership st1)). n \<noteq> en_self en \<and> is_admitted (ss_membership st1) n}
      \<subseteq> fst ` set (ss_announce (announce_to_members (en_self en) st1))"
    by (auto simp: announce_to_members_def Let_def)
  with eff 1(4) sign_own_rest(4) [OF own] show ?thesis
    by (intro exI [of _ "announce_to_members (en_self en) st1"]) simp
qed

lemma accepting_makes_a_member_witness:
  "\<exists>en' st'. accept sample_deps sample_sid ''/r'' 9 (engine_with invited_device []) = (Inr (), en') \<and>
     map_of (en_sets en') sample_sid = Some st' \<and> effective (ss_membership st') node_b = EActive \<and> ss_root st' = Some ''/r''"
proof -
  let ?en = "engine_with invited_device []"
  obtain en' where run: "accept sample_deps sample_sid ''/r'' 9 ?en = (Inr (), en')"
    by (rule accept_succeeds [of ?en, OF engine_with_simps(1)])
      (use invited_effective invited_simps devices_ok(1) sample_own_status [of "state_with invited_device\<lparr>ss_root := Some ''/r''\<rparr>" invited_device 9 Active] in simp_all)
  from accepting_makes_a_member [OF engine_with_simps(1) run] member_with_keys [of invited_device] member_with_ok [OF devices_ok(1)] invited_simps
  show ?thesis using run by (auto simp: next_seq_def SEQ_MAX_def)
qed

text \<open>
  C22. A write that fails while accepting loses the set: whichever of the two writes fails, the gesture
  reports an error, the set is no longer in memory although its documents are on disk, and every head
  about it is now answered that we hold nothing. The index document is as it was; the other document
  is as it was when its own write failed, and already says that we accepted when the second one did.
\<close>

theorem a_failed_write_drops_the_set:
  assumes held: "map_of (en_sets en) i = Some st" and invited: "effective (ss_membership st) (en_self en) = EInvited"
    and signed: "sign_own_status dp (en_identity en) (en_self en) Active now (st\<lparr>ss_root := Some root\<rparr>) = Some (a, st1)"
    and fault: "True \<in> set (take 2 (sv_faults (en_store en i)))"
  shows "\<exists>en'. accept dp i root now en = (Inl Io, en') \<and> map_of (en_sets en') i = None \<and>
    sv_index (en_store en' i) = sv_index (en_store en i) \<and>
    sv_meta (en_store en' i) = (if hd (sv_faults (en_store en i)) then sv_meta (en_store en i)
                                else Some (meta_to_value (announce_to_members (en_self en) st1))) \<and>
    fst (receive_head w r i round answers position their_pub t en') =
      [Send r (no_membership_marker i (en_round_counter en + 1) round (id_public_hex (en_identity en)))]"
proof -
  let ?st = "announce_to_members (en_self en) st1"
  from fault consider (first) fs where "sv_faults (en_store en i) = True # fs"
    | (second) fs where "sv_faults (en_store en i) = False # True # fs"
    by (cases "sv_faults (en_store en i)"; cases "tl (sv_faults (en_store en i))") auto
  then obtain sv where sv: "persist ?st (en_store en i) = (False, sv)" "sv_index sv = sv_index (en_store en i)"
    "sv_meta sv = (if hd (sv_faults (en_store en i)) then sv_meta (en_store en i) else Some (meta_to_value ?st))"
    by cases (auto simp: persist_def next_write_def)
  let ?en = "(remove_set i en)\<lparr>en_store := (en_store en)(i := sv)\<rparr>"
  have "persist_set i ?st (remove_set i en) = (False, ?en)" by (simp add: persist_set_def sv(1))
  then have "accept dp i root now en = (Inl Io, ?en)" by (simp add: accept_def held invited signed Let_def)
  moreover have "map_of (en_sets ?en) i = None" by (simp add: remove_set_def)
  ultimately show ?thesis using sv(2,3)
    by (intro exI [of _ ?en]) (simp add: receive_head_def next_round_def Let_def)
qed

lemma a_failed_write_drops_the_set_witness:
  "\<exists>en' st. accept sample_deps sample_sid ''/r'' 9 (engine_with invited_device [False, True]) = (Inl Io, en') \<and>
     map_of (en_sets en') sample_sid = None \<and> sv_meta (en_store en' sample_sid) = Some (meta_to_value st)"
proof -
  have "sign_own_status sample_deps own_identity node_b Active 9 (state_with invited_device\<lparr>ss_root := Some ''/r''\<rparr>) \<noteq> None"
    by (rule sample_own_status [of _ invited_device]) (simp_all add: invited_simps devices_ok)
  then obtain a st1 where own: "sign_own_status sample_deps own_identity node_b Active 9
      (state_with invited_device\<lparr>ss_root := Some ''/r''\<rparr>) = Some (a, st1)" by auto
  from a_failed_write_drops_the_set [of "engine_with invited_device [False, True]" sample_sid "state_with invited_device" sample_deps
      9 "''/r''" a st1] own invited_effective show ?thesis by fastforce
qed

end
