(* ===== verification/EngineFacts.thy ===== *)
theory EngineFacts
  imports GestureFacts
begin

text \<open>
  The engine as a whole: the exchange of heads ends after three of them whatever happens in between,
  except between two engines that do not hold the set; an invitation is sent at every pump for as long
  as its target stays reachable and silent.
\<close>

section \<open>Relations every step of an engine respects\<close>

locale engine_relation =
  fixes R :: "engine \<Rightarrow> engine \<Rightarrow> bool"
  assumes refl: "R en en" and trans: "R a b \<Longrightarrow> R b c \<Longrightarrow> R a c"
begin

lemma each_from:
  assumes "\<And>x en. x \<in> set xs \<Longrightarrow> R en (snd (f x en))"
  shows "R en (snd (foldl (\<lambda>(out, en) x. case f x en of (o', en) \<Rightarrow> (out @ o', en)) (out, en) xs))"
  using assms
proof (induction xs arbitrary: out en)
  case Nil
  then show ?case by (simp add: refl)
next
  case (Cons x xs)
  obtain o' en' where f: "f x en = (o', en')" by fastforce
  have "R en en'" using Cons.prems [of x en] f by simp
  moreover have "R en' (snd (foldl (\<lambda>(out, en) x. case f x en of (o', en) \<Rightarrow> (out @ o', en)) (out @ o', en') xs))"
    using Cons.prems by (intro Cons.IH) simp
  ultimately show ?case by (simp add: f) (rule trans)
qed

lemma each: "(\<And>x en. x \<in> set xs \<Longrightarrow> R en (snd (f x en))) \<Longrightarrow> R en (snd (each f xs en))"
  unfolding each_def by (rule each_from)

text \<open>What a step sends is among what all of them send.\<close>

lemma each_from_out:
  assumes "\<And>x en. x \<in> set xs \<Longrightarrow> R en (snd (f x en))"
  shows "set out \<subseteq> set (fst (foldl (\<lambda>(out, en) x. case f x en of (o', en) \<Rightarrow> (out @ o', en)) (out, en) xs)) \<and>
    (\<forall>x \<in> set xs. \<exists>en'. R en en' \<and>
      set (fst (f x en')) \<subseteq> set (fst (foldl (\<lambda>(out, en) x. case f x en of (o', en) \<Rightarrow> (out @ o', en)) (out, en) xs)))"
  using assms
proof (induction xs arbitrary: out en)
  case (Cons x xs)
  obtain o' en' where f: "f x en = (o', en')" by fastforce
  have r: "R en en'" using Cons.prems [of x en] f by simp
  have ih: "set (out @ o') \<subseteq> set (fst (foldl (\<lambda>(out, en) x. case f x en of (o', en) \<Rightarrow> (out @ o', en)) (out @ o', en') xs)) \<and>
    (\<forall>x \<in> set xs. \<exists>e. R en' e \<and>
      set (fst (f x e)) \<subseteq> set (fst (foldl (\<lambda>(out, en) x. case f x en of (o', en) \<Rightarrow> (out @ o', en)) (out @ o', en') xs)))"
    using Cons.prems by (intro Cons.IH) simp
  then show ?case
    using f r refl [of en] trans [OF r] by (fastforce simp: f)
qed simp

lemma each_out:
  assumes "\<And>x en. x \<in> set xs \<Longrightarrow> R en (snd (f x en))" and "x \<in> set xs"
  obtains en' where "R en en'" "set (fst (f x en')) \<subseteq> set (fst (each f xs en))"
  using each_from_out [of xs f "[]" en] assms unfolding each_def by blast

lemma funpow: "(\<And>en. R en (f en)) \<Longrightarrow> R en ((f ^^ k) en)"
  by (induction k) (auto intro: refl trans)

end

section \<open>Round numbers\<close>

text \<open>
  Later on, the numbers already given keep their nature until they are forgotten, and new ones are
  above them.
\<close>

definition rounds_ok :: "engine \<Rightarrow> bool" where
  "rounds_ok en \<longleftrightarrow> bt_ok (en_sent_rounds en) \<and> (\<forall>p \<in> set (en_sent_rounds en). fst p \<le> en_round_counter en)"

definition later :: "engine \<Rightarrow> engine \<Rightarrow> bool" where
  "later en en' \<longleftrightarrow> (rounds_ok en \<longrightarrow> rounds_ok en' \<and> en_round_counter en \<le> en_round_counter en' \<and>
     (\<forall>n \<le> en_round_counter en. map_of (en_sent_rounds en') n \<in> {None, map_of (en_sent_rounds en) n}))"

interpretation later: engine_relation later
proof unfold_locales
  fix a b c
  assume ab: "later a b" and bc: "later b c"
  show "later a c"
    unfolding later_def
  proof (intro impI conjI allI)
    assume "rounds_ok a"
    with ab have b: "rounds_ok b" "en_round_counter a \<le> en_round_counter b"
        "\<And>n. n \<le> en_round_counter a \<Longrightarrow> map_of (en_sent_rounds b) n \<in> {None, map_of (en_sent_rounds a) n}"
      by (simp_all add: later_def)
    with bc have c: "rounds_ok c" "en_round_counter b \<le> en_round_counter c"
        "\<And>n. n \<le> en_round_counter b \<Longrightarrow> map_of (en_sent_rounds c) n \<in> {None, map_of (en_sent_rounds b) n}"
      by (simp_all add: later_def)
    show "rounds_ok c" "en_round_counter a \<le> en_round_counter c" using b c by simp_all
    fix n
    assume "n \<le> en_round_counter a"
    then show "map_of (en_sent_rounds c) n \<in> {None, map_of (en_sent_rounds a) n}"
      using b(2) b(3) [of n] c(3) [of n] by auto
  qed
qed (simp add: later_def)

lemma later_same:
  "en_round_counter en' = en_round_counter en \<Longrightarrow> en_sent_rounds en' = en_sent_rounds en \<Longrightarrow> later en en'"
  by (simp add: later_def rounds_ok_def)

lemma map_of_drop:
  assumes "bt_ok m"
  shows "map_of (drop k m) x \<in> {None, map_of m x}"
proof (cases "map_of (drop k m) x")
  case (Some v)
  then have "(x, v) \<in> set m" by (meson in_set_dropD map_of_SomeD)
  then have "map_of m x = Some v" using bt_ok_distinct [OF assms] by (rule map_of_is_SomeI [rotated])
  with Some show ?thesis by simp
qed simp

lemma bt_ok_drop: "bt_ok m \<Longrightarrow> bt_ok (drop k m)"
  by (simp add: bt_ok_def drop_map sorted_wrt_drop flip: drop_map)

lemma later_next_round:
  assumes "next_round answer en = (n, en')"
  shows "later en en'" "en_round_counter en' = n" "n = en_round_counter en + 1"
    "rounds_ok en \<Longrightarrow> map_of (en_sent_rounds en') n \<in> {None, Some answer}" "en_sets en' = en_sets en" "en_self en' = en_self en"
    "en_store en' = en_store en" "en_identity en' = en_identity en"
proof -
  define sent where "sent = bt_insert (en_round_counter en + 1) answer (en_sent_rounds en)"
  have n: "n = en_round_counter en + 1" and en': "en' = en\<lparr>en_round_counter := n, en_sent_rounds := drop (length sent - 512) sent\<rparr>"
    using assms by (auto simp: next_round_def Let_def sent_def)
  show "n = en_round_counter en + 1" by (rule n)
  show "en_round_counter en' = n" "en_sets en' = en_sets en" "en_self en' = en_self en"
    "en_store en' = en_store en" "en_identity en' = en_identity en" by (simp_all add: en')
  have m: "map_of sent = (map_of (en_sent_rounds en))(n \<mapsto> answer)" by (simp add: sent_def n)
  show "map_of (en_sent_rounds en') n \<in> {None, Some answer}" if "rounds_ok en"
    using that map_of_drop [of sent "length sent - 512" n] m n by (auto simp: rounds_ok_def sent_def en')
  show "later en en'"
    unfolding later_def
  proof (intro impI conjI allI)
    assume ok: "rounds_ok en"
    then have bt: "bt_ok sent" by (simp add: sent_def rounds_ok_def)
    have "fst ` set sent = insert n (fst ` set (en_sent_rounds en))" by (simp add: sent_def n)
    moreover have "\<forall>k \<in> fst ` set (en_sent_rounds en). k \<le> n" using ok n by (auto simp: rounds_ok_def)
    ultimately have "fst p \<le> n" if "p \<in> set sent" for p
      using that by (metis imageI insertE le_refl)
    then show "rounds_ok en'" using bt_ok_drop [OF bt] by (auto simp: rounds_ok_def en' dest: in_set_dropD)
    show "en_round_counter en \<le> en_round_counter en'" by (simp add: en' n)
    fix k
    assume "k \<le> en_round_counter en"
    then show "map_of (en_sent_rounds en') k \<in> {None, map_of (en_sent_rounds en) k}"
      using map_of_drop [OF bt, of "length sent - 512" k] m n by (simp add: en')
  qed
qed

text \<open>
  Every operation of an open engine that changes it (every \<open>pub fn\<close> with \<open>&mut self\<close>), with what it
  reads of the world; opening starts new round numbers and is not one of them.
\<close>

datatype engine_op =
    Hear world string json nat
  | Publication string string nat string
  | PublicationFailed string string nat
  | PullStart world string nat string nat
  | TransferOutcome world string bool string
  | Pump world "string list" nat bool
  | Create deps string disk string set_kind string nat
  | InviteDevice deps string string nat
  | AcceptInvitation deps string string nat
  | SetStatus deps string member_status nat
  | ResolveConflict deps conflict_env fs_env bool string string string
  | PullRefused string nat
  | FoldWalk world string observation
  | WalkInline world scan_env scan_root string
  | NewDirectory directory_view
  | WatchDegraded string bool
  | RootUnreadable string bool

fun engine_step :: "engine \<Rightarrow> engine_op \<Rightarrow> engine" where
  "engine_step en (Hear w from payload now) = snd (on_message w from payload now en)"
| "engine_step en (Publication to i n tx) = snd (published to i n tx en)"
| "engine_step en (PublicationFailed to i n) = snd (publish_failed to i n en)"
| "engine_step en (PullStart w i n tr now) = snd (pull_started w i n tr now en)"
| "engine_step en (TransferOutcome w tr ok e) = snd (on_transfer_outcome w tr ok e en)"
| "engine_step en (Pump w reachable now force) = snd (pump w reachable now force en)"
| "engine_step en (Create dp i d root kind name now) = snd (create_set dp i d root kind name now en)"
| "engine_step en (InviteDevice dp i n now) = snd (invite dp i n now en)"
| "engine_step en (AcceptInvitation dp i root now) = snd (accept dp i root now en)"
| "engine_step en (SetStatus dp i status now) = snd (sign_status dp i status now en)"
| "engine_step en (ResolveConflict dp cx fx renamed i path keep) = snd (resolve dp cx fx renamed i path keep en)"
| "engine_step en (PullRefused i n) = snd (pull_failed i n en)"
| "engine_step en (FoldWalk w i observation) = snd (fold_walk w i observation en)"
| "engine_step en (WalkInline w env root i) = snd (rescan_set w env root i en)"
| "engine_step en (NewDirectory d) = renew_directory d en"
| "engine_step en (WatchDegraded i b) = set_watch_degraded i b en"
| "engine_step en (RootUnreadable i b) = set_root_unreadable i b en"

text \<open>What only moves sets and documents leaves the round numbers alone.\<close>

definition numbers :: "engine \<Rightarrow> nat \<times> (nat, bool) btree" where
  "numbers en = (en_round_counter en, en_sent_rounds en)"

lemma later_numbers: "numbers en' = numbers en \<Longrightarrow> later en en'"
  by (simp add: numbers_def later_same)

lemma numbers_put [simp]: "numbers (put_set i st en) = numbers en" "numbers (remove_set i en) = numbers en"
  "numbers (change_set i g en) = numbers en" "numbers (en\<lparr>en_store := s\<rparr>) = numbers en"
  by (simp_all add: numbers_def change_set_def)

lemma numbers_persist: "persist_set i st en = (ok, en') \<Longrightarrow> numbers en' = numbers en"
  by (auto simp: numbers_def dest: persist_set_fields)

lemma numbers_on [simp]: "numbers (snd (on_set i f en)) = numbers en" "numbers (snd (on_stored i g en)) = numbers en"
  by (simp_all add: on_set_def on_stored_def split: option.splits prod.splits)

lemma numbers_gestures [simp]:
  "numbers (snd (create_set dp i d root kind name now en)) = numbers en"
  "numbers (snd (invite dp i n now en)) = numbers en"
  "numbers (snd (accept dp i root now en)) = numbers en"
  "numbers (snd (sign_status dp i status now en)) = numbers en"
  "numbers (snd (resolve dp cx fx renamed i path keep en)) = numbers en"
  "numbers (snd (on_invite dp d from i desc rs es stats kp now en)) = numbers en"
  "numbers (on_invite_ack from i en) = numbers en"
  by (auto simp: create_set_def invite_def accept_def sign_status_def resolve_def on_invite_def on_invite_ack_def Let_def
      dest!: numbers_persist split: option.splits sum.splits prod.splits bool.splits)

lemma numbers_outcomes [simp]:
  "numbers (snd (published to i n tx en)) = numbers en" "numbers (snd (publish_failed to i n en)) = numbers en"
  "numbers (snd (pull_started w i n tr now en)) = numbers en" "numbers (snd (on_transfer_outcome w tr ok e en)) = numbers en"
  by (simp_all add: published_def publish_failed_def pull_started_def pull_finished_def on_transfer_outcome_def
      split: option.splits prod.splits) (auto simp: numbers_def)

lemma numbers_told [simp]:
  "numbers (snd (pull_failed i n en)) = numbers en" "numbers (renew_directory d en) = numbers en"
  "numbers (set_watch_degraded i b en) = numbers en" "numbers (set_root_unreadable i b en) = numbers en"
  by (simp_all add: pull_failed_def set_watch_degraded_def set_root_unreadable_def)
    (simp add: renew_directory_def numbers_def)

lemma numbers_walks [simp]:
  "numbers (snd (fold_walk w i obs en)) = numbers en" "numbers (snd (rescan_set w env root i en)) = numbers en"
  by (auto simp: fold_walk_def rescan_set_def Let_def split: option.splits prod.splits sum.splits)

lemma later_open_round: "later en (snd (open_round w i peer en))"
proof (cases "next_round False en")
  case (Pair n en')
  then show ?thesis using later_next_round(1) [OF Pair] by (simp add: open_round_def split: option.splits)
qed

lemma later_receive_head: "later en (snd (receive_head w from i round answers position kp now en))"
proof (cases "next_round True en")
  case (Pair n en')
  have "later en (put_set i st en'\<lparr>en_store := s\<rparr>)" for st s
    using later_next_round(1) [OF Pair] later_numbers [of "put_set i st en'\<lparr>en_store := s\<rparr>" en'] later.trans by simp
  moreover have "later en (put_set i st en\<lparr>en_store := s\<rparr>)" for st s by (rule later_numbers) simp
  ultimately show ?thesis using Pair later_next_round(1) [OF Pair]
    by (auto simp: receive_head_def Let_def split: option.splits prod.splits)
qed

lemma later_on_message: "later en (snd (on_message w from payload now en))"
  by (auto simp: on_message_def receive_def Let_def later.refl later_receive_head intro!: later_numbers
      split: option.splits message.splits)

lemma later_pump: "later en (snd (pump w reachable now force en))"
proof -
  have step: "later en (snd (each (open_round w i) xs en'))" if "numbers en' = numbers en" for i xs en en'
    by (rule later.trans [OF later_numbers [OF that] later.each]) (rule later_open_round)
  have "later en (snd (send_invite i n en))" for i n en
    by (auto simp: send_invite_def later.refl intro: later_numbers split: option.splits)
  then have "later en (snd (each (send_invite i) xs en'))" if "numbers en' = numbers en" for i xs en en'
    by (rule later.trans [OF later_numbers [OF that] later.each])
  then have "later en (snd (pump_invites reachable i en))" for i en
    by (auto simp: pump_invites_def Let_def intro: later_numbers split: option.splits)
  moreover have "later en (snd (pump_announce w reachable i en))" for i en
    by (auto simp: pump_announce_def later.refl intro: step split: option.splits)
  moreover have "later en (snd (open_due_round w force now adv i peer en))" for adv i peer en
    by (auto simp: open_due_round_def later.refl intro: later.trans [OF later_numbers later_open_round])
  then have "later en (snd (pump_rounds w reachable now force i en))" for i en
    by (auto simp: pump_rounds_def later.refl intro: later.each split: option.splits)
  moreover have "later en (snd (introduce w i peer en))" for i peer en
    by (auto simp: introduce_def Let_def intro: later_numbers later.trans [OF later_numbers later_open_round])
  then have "later en (snd (pump_intros w reachable i en))" for i en
    by (auto simp: pump_intros_def later.refl intro: later.each split: option.splits)
  moreover have "later en (snd (pump_stub w reachable i en))" for i en
    by (auto simp: pump_stub_def later.refl intro: step split: option.splits)
  ultimately have "later en (snd (pump_set w reachable now force i en))" for i en
    unfolding pump_set_def by (intro later.each) (auto intro: later_numbers)
  then show ?thesis unfolding pump_def by (rule later.each)
qed

interpretation rounds_run: op_invariant engine_step "\<lambda>op. True" "later en" for en
proof unfold_locales
  fix en s op
  assume "later en s"
  moreover have "later s (engine_step s op)"
    by (cases op) (simp_all add: later_on_message later_pump later_numbers)
  ultimately show "later en (engine_step s op)" by (rule later.trans)
qed

section \<open>Two engines and what is in flight between them\<close>

text \<open>The messages in flight go to the second engine, and the roles are exchanged.\<close>

fun hear :: "world \<Rightarrow> string \<Rightarrow> nat \<Rightarrow> effect \<Rightarrow> engine \<Rightarrow> effect list \<times> engine" where
  "hear w from now (Send to payload) en = (if to = en_self en then on_message w from payload now en else ([], en))"
| "hear w from now other en = ([], en)"

definition deliver :: "world \<Rightarrow> nat \<Rightarrow> engine \<times> engine \<times> effect list \<Rightarrow> engine \<times> engine \<times> effect list" where
  "deliver w now s =
     (case s of (a, b, flight) \<Rightarrow> (case each (hear w (en_self a) now) flight b of (out, b) \<Rightarrow> (b, a, out)))"

definition marker_in_flight :: "string \<Rightarrow> engine \<times> engine \<times> effect list \<Rightarrow> bool" where
  "marker_in_flight i s \<longleftrightarrow>
     (case s of (a, b, flight) \<Rightarrow>
        \<exists>n k. flight = [Send (en_self b) (no_membership_marker i n k (id_public_hex (en_identity a)))])"

text \<open>Neither engine holds the set, and both have numbers left.\<close>

definition both_without :: "string \<Rightarrow> nat \<Rightarrow> engine \<Rightarrow> engine \<Rightarrow> bool" where
  "both_without i room a b \<longleftrightarrow>
     valid_set_id i \<and> (\<forall>x \<in> {a, b}. map_of (en_sets x) i = None \<and> valid_node_id (en_self x) \<and> valid_key (id_public_hex (en_identity x)) \<and>
        en_round_counter x + room < 2 ^ 64) \<and> en_self a \<noteq> en_self b"

lemma next_round_fields:
  "en_sets (snd (next_round b en)) = en_sets en" "en_self (snd (next_round b en)) = en_self en"
  "en_identity (snd (next_round b en)) = en_identity en" "en_round_counter (snd (next_round b en)) = en_round_counter en + 1"
  "fst (next_round b en) = en_round_counter en + 1"
  by (simp_all add: next_round_def Let_def)

lemma on_marker:
  assumes "map_of (en_sets en) i = None" "from \<noteq> en_self en" "valid_node_id from" "valid_set_id i" "valid_key pub"
  shows "on_message w from (no_membership_marker i n k pub) now en =
    ([Send from (no_membership_marker i (en_round_counter en + 1) n (id_public_hex (en_identity en)))], snd (next_round True en))"
proof -
  have "message_from_value (wd_is_nfc w) (no_membership_marker i n k pub) = Some (MsgHead i n (Some k) None pub)"
    unfolding no_membership_marker_def by (rule message_round_trip_aux) (use assms in \<open>simp add: message_ok_def\<close>)
  then show ?thesis
    using assms by (simp add: on_message_def receive_def receive_head_def next_round_fields Let_def split: prod.splits)
      (simp add: next_round_def Let_def)
qed

lemma each_single: "each f [x] en = f x en"
  by (simp add: each_def split: prod.splits)

lemma deliver_marker:
  assumes "both_without i (Suc k) a b" "marker_in_flight i (a, b, flight)"
  obtains b' flight' where "deliver w now (a, b, flight) = (b', a, flight')" "both_without i k b' a"
    "marker_in_flight i (b', a, flight')"
proof -
  obtain n m where f: "flight = [Send (en_self b) (no_membership_marker i n m (id_public_hex (en_identity a)))]"
    using assms(2) by (auto simp: marker_in_flight_def)
  have "deliver w now (a, b, flight) = (snd (next_round True b), a,
      [Send (en_self a) (no_membership_marker i (en_round_counter b + 1) n (id_public_hex (en_identity b)))])"
    using assms(1) by (simp add: deliver_def f each_single on_marker both_without_def)
  then show thesis
    by (rule that) (use assms(1) in \<open>auto simp: both_without_def marker_in_flight_def next_round_fields\<close>)
qed

section \<open>Invitations in waiting\<close>

definition awaiting :: "string \<Rightarrow> set_state \<Rightarrow> bool" where
  "awaiting n st \<longleftrightarrow> effective (ss_membership st) n \<in> {EInvited, EUnknown} \<and> n \<in> fst ` set (ss_open_invites st)"

definition waits :: "string \<Rightarrow> string \<Rightarrow> engine \<Rightarrow> engine \<Rightarrow> bool" where
  "waits i n en en' \<longleftrightarrow>
     (pred_option (awaiting n) (map_of (en_sets en) i) \<and> map_of (en_sets en) i \<noteq> None \<longrightarrow>
      pred_option (awaiting n) (map_of (en_sets en') i) \<and> map_of (en_sets en') i \<noteq> None)"

interpretation waits: engine_relation "waits i n" for i n
  by unfold_locales (auto simp: waits_def)

lemma waits_same: "map_of (en_sets en') i = map_of (en_sets en) i \<Longrightarrow> waits i n en en'"
  by (simp add: waits_def)

lemma waits_put: "(j = i \<Longrightarrow> map_of (en_sets en) i = Some st \<Longrightarrow> awaiting n st \<Longrightarrow> awaiting n st') \<Longrightarrow> map_of (en_sets en) j = Some st \<Longrightarrow> waits i n en (put_set j st' en)"
  by (auto simp: waits_def)

lemma change_set_sets: "map_of (en_sets (change_set j f en)) i = (if i = j then map_option f (map_of (en_sets en) i) else map_of (en_sets en) i)"
  by (simp add: change_set_def map_of_bt_adjust)

lemma waits_change: "(\<And>st. awaiting n st \<Longrightarrow> awaiting n (f st)) \<Longrightarrow> waits i n en (change_set j f en)"
  by (auto simp: waits_def change_set_sets)

lemma keys_adjust: "fst ` set (bt_adjust k f m) = fst ` set m"
  by (metis keys_bt_adjust list.set_map)

lemma awaiting_same:
  "ss_membership st' = ss_membership st \<Longrightarrow> fst ` set (ss_open_invites st') = fst ` set (ss_open_invites st) \<Longrightarrow>
     awaiting n st \<Longrightarrow> awaiting n st'"
  by (simp add: awaiting_def)

lemma open_round_sets: "en_sets (snd (open_round w i peer en)) = en_sets en"
  by (cases "next_round False en") (auto simp: open_round_def dest: later_next_round(5) split: option.splits)

lemma need_of_peer_frame:
  "ss_membership (snd (snd (need_of_peer i now acc peer))) = ss_membership (snd (snd acc)) \<and>
   ss_open_invites (snd (snd (need_of_peer i now acc peer))) = ss_open_invites (snd (snd acc))"
  by (simp add: need_of_peer_def Let_def split: prod.splits option.splits)

lemma pump_needs_frame:
  assumes "pump_needs me i reachable now st sv = (out, st', sv')"
  shows "ss_membership st' = ss_membership st" "ss_open_invites st' = ss_open_invites st"
proof -
  let ?st = "reclaim_needs now st"
  define turns where "turns = foldl (need_of_peer i now) ([], claimed_paths ?st, ?st)"
  have "ss_membership (snd (snd (foldl (need_of_peer i now) acc peers))) = ss_membership (snd (snd acc)) \<and>
      ss_open_invites (snd (snd (foldl (need_of_peer i now) acc peers))) = ss_open_invites (snd (snd acc))" for acc peers
    by (induction peers arbitrary: acc) (simp_all add: need_of_peer_frame)
  then have "ss_membership (snd (snd (turns peers))) = ss_membership st \<and> ss_open_invites (snd (snd (turns peers))) = ss_open_invites st" for peers
    by (simp add: turns_def reclaim_needs_def)
  moreover have "st' = ?st \<or> (\<exists>peers. st' = snd (snd (turns peers)))"
    using assms by (auto simp: pump_needs_def Let_def turns_def case_prod_beta split: if_splits)
  ultimately show "ss_membership st' = ss_membership st" "ss_open_invites st' = ss_open_invites st"
    by (auto simp: reclaim_needs_def)
qed

lemma waits_open: "waits i n en (snd (open_round w j peer en))"
  by (simp add: waits_same open_round_sets)

lemma waits_rounds: "waits i n en (snd (each (open_round w j) xs en))"
  by (rule waits.each) (rule waits_open)

lemma waits_send: "waits i n en (snd (send_invite j m en))"
proof -
  have "waits i n en (change_set j (\<lambda>st. st\<lparr>ss_open_invites := bt_adjust m f (ss_open_invites st)\<rparr>) en)" for f
    by (rule waits_change, erule awaiting_same [rotated 2]) (simp_all add: keys_adjust)
  then show ?thesis by (auto simp: send_invite_def waits.refl split: option.splits)
qed

lemma waits_settled: "waits i n en (change_set j (settle_invites reachable) en)"
  by (rule waits_change) (force simp: awaiting_def settle_invites_def Let_def image_iff)

lemma waits_pump_invites: "waits i n en (snd (pump_invites reachable j en))"
  unfolding pump_invites_def Let_def
  by (auto intro: waits.trans [OF waits_settled waits.each] waits_settled waits_send split: option.splits)

lemma waits_pump_set: "x \<in> set [pump_invites reachable j, pump_announce w reachable j, pump_rounds w reachable now force j,
        (\<lambda>en. on_stored j (pump_needs (en_self en) j reachable now) en), pump_intros w reachable j, pump_stub w reachable j] \<Longrightarrow>
    waits i n en (snd (x en))"
proof -
  have "waits i n en (snd (pump_announce w reachable j en))" for en
    by (auto simp: pump_announce_def waits.refl awaiting_def
        intro!: waits.trans [OF waits_change waits_rounds] split: option.splits)
  moreover have "waits i n en (snd (open_due_round w force now adv j peer en))" for adv peer en
    by (auto simp: open_due_round_def waits.refl awaiting_def intro!: waits.trans [OF waits_change waits_open])
  then have "waits i n en (snd (pump_rounds w reachable now force j en))" for en
    by (auto simp: pump_rounds_def waits.refl intro: waits.each split: option.splits)
  moreover have "waits i n en (snd (on_stored j (pump_needs (en_self en) j reachable now) en))" for en
    by (auto simp: on_stored_def waits_def pump_needs_frame elim!: awaiting_same [rotated 2] split: option.splits prod.splits)
  moreover have "waits i n en (snd (introduce w j peer en))" for peer en
    by (auto simp: introduce_def Let_def awaiting_def intro!: waits_change
        waits.trans [OF waits_change waits.trans [OF waits_change waits_open]])
  then have "waits i n en (snd (pump_intros w reachable j en))" for en
    by (auto simp: pump_intros_def waits.refl intro: waits.each split: option.splits)
  moreover have "awaiting n st \<Longrightarrow> stub_step reachable st = (ts, st') \<Longrightarrow> awaiting n st'" for st ts st'
    by (auto simp: stub_step_def awaiting_def split: option.splits if_splits)
  then have "waits i n en (put_set j st' en)" if "stub_step reachable st = (ts, st')" "map_of (en_sets en) j = Some st" for st ts st' en
    using that by (intro waits_put) auto
  then have "waits i n en (snd (pump_stub w reachable j en))" for en
    by (auto simp: pump_stub_def waits.refl set_of_def intro: waits.trans [OF _ waits_rounds] split: option.splits prod.splits)
  moreover assume "x \<in> set [pump_invites reachable j, pump_announce w reachable j, pump_rounds w reachable now force j,
        (\<lambda>en. on_stored j (pump_needs (en_self en) j reachable now) en), pump_intros w reachable j, pump_stub w reachable j]"
  ultimately show ?thesis using waits_pump_invites by auto
qed

lemma waits_pumped: "waits i n en (snd (pump_set w reachable now force j en))"
  unfolding pump_set_def by (rule waits.each) (rule waits_pump_set)

lemma waits_pump: "waits i n en (snd (pump w reachable now force en))"
  unfolding pump_def by (rule waits.each) (rule waits_pumped)

lemma pump_reaches:
  assumes "map_of (en_sets en) i = Some st"
  obtains en' where "waits i n en en'" "set (fst (pump_invites reachable i en')) \<subseteq> set (fst (pump w reachable now force en))"
proof -
  have "i \<in> set (map fst (en_sets en))" using assms by (force dest: map_of_SomeD)
  then obtain en1 where 1: "waits i n en en1" "set (fst (pump_set w reachable now force i en1)) \<subseteq> set (fst (pump w reachable now force en))"
    unfolding pump_def by (rule waits.each_out [OF waits_pumped])
  obtain en2 where "waits i n en1 en2" "set (fst (pump_invites reachable i en2)) \<subseteq> set (fst (pump_set w reachable now force i en1))"
    unfolding pump_set_def by (rule waits.each_out [OF waits_pump_set [of _ reachable i w now force]]) (assumption, rule list.set_intros(1))
  with 1 waits.trans show thesis by (intro that [of en2]) blast+
qed

lemma invitation_goes_out:
  assumes "map_of (en_sets en) i = Some st" "awaiting n st" "n \<in> set reachable"
  shows "\<exists>payload. Send n payload \<in> set (fst (pump_invites reachable i en))"
proof -
  let ?st = "settle_invites reachable st"
  have settled: "map_of (en_sets (change_set i (settle_invites reachable) en)) i = Some ?st"
    using assms(1) by (simp add: change_set_sets)
  obtain b where "(n, b) \<in> set (ss_open_invites st)" "effective (ss_membership st) n \<in> {EInvited, EUnknown}"
    using assms(2) by (auto simp: awaiting_def)
  then have "(n, if b = 0 then RETRY_BUDGET else b) \<in> set (ss_open_invites ?st)"
    using assms(3) by (auto simp: settle_invites_def Let_def intro!: rev_image_eqI [of "(n, b)"])
  then have "n \<in> set (invite_targets reachable ?st)"
    using assms(3) by (auto simp: invite_targets_def intro!: rev_image_eqI [of "(n, if b = 0 then RETRY_BUDGET else b)"])
      (simp add: RETRY_BUDGET_def)
  then obtain en' where en': "waits i n (change_set i (settle_invites reachable) en) en'"
      "set (fst (send_invite i n en')) \<subseteq> set (fst (each (send_invite i) (invite_targets reachable ?st) (change_set i (settle_invites reachable) en)))"
    by (rule waits.each_out [OF waits_send])
  have "awaiting n ?st"
    using \<open>(n, _) \<in> set (ss_open_invites ?st)\<close> assms(2) by (auto simp: awaiting_def settle_invites_def Let_def intro: rev_image_eqI)
  then obtain st' where "map_of (en_sets en') i = Some st'" using en'(1) settled by (auto simp: waits_def)
  then have "\<exists>payload. Send n payload \<in> set (fst (send_invite i n en'))" by (simp add: send_invite_def build_invite_def)
  with en'(2) settled show ?thesis by (auto simp: pump_invites_def set_of_def Let_def)
qed

section \<open>A sample world\<close>

definition sample_world :: world where
  "sample_world = \<lparr>wd_deps = sample_deps, wd_hash = (\<lambda>_. []), wd_size = (\<lambda>_. 1), wd_is_nfc = (\<lambda>_. True),
     wd_fs = (\<lambda>_. still_fs), wd_conflict = (\<lambda>_ _. plain_conflict_env []), wd_disk = (\<lambda>_. leased_disk [])\<rparr>"

definition sample_position :: head_position where
  "sample_position = \<lparr>hp_descriptor_hash = [], hp_set_vv = [], hp_records_pages = 1, hp_entries_pages = 0,
     hp_entries_complete = False\<rparr>"

abbreviation other_sid :: string where "other_sid \<equiv> replicate 22 CHR ''B''"

lemma sample_rounds_ok: "rounds_ok (engine_with dev fs)"
  by (simp add: rounds_ok_def engine_with_def)

lemma sample_answer:
  obtains payload out en' where
    "receive_head sample_world node_a sample_sid 5 None (Some sample_position) (mr_sync_pub sample_member) 20 (engine_with joined_device []) =
       (Send node_a payload # out, en')" "map_of (en_sets en') sample_sid \<noteq> None"
proof -
  let ?r = "receive_head sample_world node_a sample_sid 5 None (Some sample_position) (mr_sync_pub sample_member) 20
      (engine_with joined_device [])"
  have "fst ?r \<noteq> [] \<and> (\<forall>e \<in> set (fst ?r). \<exists>payload. e = Send node_a payload) \<and> map_of (en_sets (snd ?r)) sample_sid \<noteq> None"
    by (auto simp: receive_head_def on_head_def sample_world_def sample_position_def admit_buffer_def Let_def sends_def
        answer_head_def split: prod.splits)
  then obtain payload out where "fst ?r = Send node_a payload # out" "map_of (en_sets (snd ?r)) sample_sid \<noteq> None"
    by (cases "fst ?r") auto
  then show thesis by (intro that [of payload out "snd ?r"]) (simp_all add: prod_eq_iff)
qed

section \<open>Properties\<close>

text \<open>
  C23. An exchange of heads ends: whatever an engine does after it has answered a head (every message,
  callback, walk, pump and gesture in any order), the answer to that answer is met with silence in
  every set it holds.
\<close>

theorem an_exchange_ends:
  assumes ok: "rounds_ok en"
    and answered: "receive_head w r i round answers position pub now en = (Send to payload # out, en1)"
    and held: "map_of (en_sets (foldl engine_step en1 ops)) j = Some st"
  shows "\<exists>n p. payload = message_to_value (MsgHead i n (Some round) p (id_public_hex (en_identity en))) \<and>
    fst (receive_head w' r' j round' (Some n) position' pub' now' (foldl engine_step en1 ops)) = []"
proof -
  obtain n en0 where numbered: "next_round True en = (n, en0)" by fastforce
  note nr = later_next_round [OF numbered]
  have num: "numbers en1 = numbers en0"
    using answered numbered by (auto simp: receive_head_def Let_def sends_def split: option.splits prod.splits if_splits)
  have head: "\<exists>p. payload = message_to_value (MsgHead i n (Some round) p (id_public_hex (en_identity en)))"
    using answered numbered
    by (auto simp: receive_head_def Let_def sends_def no_membership_marker_def on_head_def answer_head_def
        split: option.splits prod.splits if_splits)
  have "later en1 (foldl engine_step en1 ops)" by (rule rounds_run.run) (simp_all add: later.refl list_all_iff)
  moreover have "rounds_ok en0" using nr(1) ok by (simp add: later_def)
  then have "rounds_ok en1" "en_round_counter en1 = n" "map_of (en_sent_rounds en1) n \<in> {None, Some True}"
    using num nr(2,4) ok by (simp_all add: numbers_def rounds_ok_def)
  ultimately have "map_of (en_sent_rounds (foldl engine_step en1 ops)) n \<noteq> Some False"
    by (auto simp: later_def)
  then have "fst (receive_head w' r' j round' (Some n) position' pub' now' (foldl engine_step en1 ops)) = []" for w' r' round' position' pub' now'
    using held by (auto simp: receive_head_def on_head_def Let_def sends_def split: option.splits prod.splits)
  with head show ?thesis by blast
qed

lemma an_exchange_ends_witness:
  "\<exists>payload out en1 n p. receive_head sample_world node_a sample_sid 5 None (Some sample_position) (mr_sync_pub sample_member) 20
       (engine_with joined_device []) = (Send node_a payload # out, en1) \<and>
     payload = message_to_value (MsgHead sample_sid n (Some 5) p (mr_sync_pub sample_member)) \<and>
     fst (receive_head sample_world node_a sample_sid 6 (Some n) (Some sample_position) (mr_sync_pub sample_member) 30
       (engine_step en1 (Publication node_a other_sid 1 ''tx''))) = []"
proof -
  obtain payload out en1 where a: "receive_head sample_world node_a sample_sid 5 None (Some sample_position)
      (mr_sync_pub sample_member) 20 (engine_with joined_device []) = (Send node_a payload # out, en1)"
      and held: "map_of (en_sets en1) sample_sid \<noteq> None" by (rule sample_answer)
  have "\<exists>st. map_of (en_sets (foldl engine_step en1 [Publication node_a other_sid 1 ''tx''])) sample_sid = Some st"
    using held by (auto simp: published_def on_set_def sample_set_def split: prod.splits option.splits)
  then show ?thesis
    using an_exchange_ends [OF sample_rounds_ok a, of "[Publication node_a other_sid 1 ''tx'']" sample_sid _ sample_world node_a 6
        "Some sample_position" "mr_sync_pub sample_member" 30] a
    by (auto simp: own_identity_def)
qed

text \<open>
  C24. Two engines that do not hold a set answer each other for ever about it: a marker is answered
  by a marker, so after any number of deliveries exactly one is in flight.
\<close>

theorem markers_never_stop:
  assumes "both_without i k a b" and "marker_in_flight i (a, b, flight)"
  shows "marker_in_flight i ((deliver w now ^^ k) (a, b, flight))"
  using assms
proof (induction k arbitrary: a b flight)
  case (Suc k)
  from Suc.prems obtain b' flight' where d: "deliver w now (a, b, flight) = (b', a, flight')" "both_without i k b' a"
      "marker_in_flight i (b', a, flight')" by (rule deliver_marker)
  show ?case unfolding funpow_Suc_right comp_def d(1) by (rule Suc.IH [OF d(2,3)])
qed simp

lemma markers_never_stop_witness:
  "let a = engine_with joined_device []; b = a\<lparr>en_self := node_a\<rparr>
   in marker_in_flight other_sid
        ((deliver sample_world 9 ^^ 5) (a, b, [Send node_a (no_membership_marker other_sid 1 2 (id_public_hex own_identity))]))"
proof -
  let ?a = "engine_with joined_device []"
  have "both_without other_sid 5 ?a (?a\<lparr>en_self := node_a\<rparr>)"
    using sample_member_ok
    by (simp add: both_without_def engine_with_def sample_set_def own_identity_def member_ok_def valid_set_id_def list_all_iff is_alnum_def)
  moreover have "marker_in_flight other_sid
      (?a, ?a\<lparr>en_self := node_a\<rparr>, [Send node_a (no_membership_marker other_sid 1 2 (id_public_hex own_identity))])"
    by (auto simp: marker_in_flight_def)
  ultimately show ?thesis using markers_never_stop by (simp add: Let_def)
qed

text \<open>
  An invitation has no budget in practice: as long as its target stays reachable and has not been
  heard, every pump sends the invitation again, however many pumps went before.
\<close>

theorem an_invitation_is_never_spent:
  assumes "map_of (en_sets en) i = Some st" "awaiting n st" "n \<in> set reachable"
  shows "\<exists>payload. Send n payload \<in> set (fst (pump w reachable now force (((\<lambda>e. snd (pump w reachable now force e)) ^^ k) en)))"
proof -
  let ?pump = "\<lambda>e. snd (pump w reachable now force e)"
  have "waits i n en ((?pump ^^ k) en)" by (rule waits.funpow) (rule waits_pump)
  then obtain st1 where st1: "map_of (en_sets ((?pump ^^ k) en)) i = Some st1" "awaiting n st1"
    using assms(1,2) by (auto simp: waits_def)
  then obtain en1 where en1: "waits i n ((?pump ^^ k) en) en1"
      "set (fst (pump_invites reachable i en1)) \<subseteq> set (fst (pump w reachable now force ((?pump ^^ k) en)))"
    using pump_reaches by blast
  then obtain st2 where "map_of (en_sets en1) i = Some st2" "awaiting n st2" using st1 by (auto simp: waits_def)
  from invitation_goes_out [OF this assms(3)] en1(2) show ?thesis by blast
qed

lemma an_invitation_is_never_spent_witness:
  "\<exists>payload. Send other_sid payload \<in> set (fst (pump sample_world [other_sid] 20 False
     (((\<lambda>e. snd (pump sample_world [other_sid] 20 False e)) ^^ 100)
       (put_set sample_sid (state_with joined_device\<lparr>ss_open_invites := [(other_sid, 1)]\<rparr>) (engine_with joined_device [])))))"
  by (rule an_invitation_is_never_spent [of _ sample_sid "state_with joined_device\<lparr>ss_open_invites := [(other_sid, 1)]\<rparr>"])
    (simp_all add: awaiting_def effective_def member_with_def membership_new_def)

end
