(* ===== verification/InputWire.thy ===== *)
theory InputWire
  imports Json Text
begin

unbundle bit_operations_syntax

text \<open>
  The dialect of input sharing (\<open>input/src/wire.rs\<close>, modifier bits of \<open>input/src/keys.rs\<close>): the frames
  two devices exchange while one drives the other, how they are written and how defensively they are
  read.

  Numbers have the width of the source: \<open>u32\<close> is a 32-bit word read by \<open>unat\<close>, \<open>i32\<close> the same word
  read by \<open>sint\<close>. A frame on the wire is the JSON value of its bytes: serialization and parsing are the
  JSON crate's, and \<open>sz\<close>, the length of a value's serialization, is a parameter.
\<close>

type_synonym u8 = "8 word"
type_synonym u16 = "16 word"
type_synonym u32 = "32 word"
type_synonym i32 = "32 word"
type_synonym u64 = "64 word"

section \<open>Bounds and closed sets\<close>

definition INPUT_DIALECT :: string where "INPUT_DIALECT = ''1device-input/1''"
definition MAX_OUT_FRAME :: nat where "MAX_OUT_FRAME = 512"
definition SYM_MAX :: nat where "SYM_MAX = 32"
definition LAYOUT_MAX :: nat where "LAYOUT_MAX = 64"
definition KEY_NAME_MAX :: nat where "KEY_NAME_MAX = 32"
definition DEVICE_ID_MAX :: nat where "DEVICE_ID_MAX = 64"
definition PLANE_ID_MAX :: nat where "PLANE_ID_MAX = 32"
definition CAPS_MAX :: nat where "CAPS_MAX = 256"
definition WHEEL_MAX :: i32 where "WHEEL_MAX = 4096"
definition BUTTON_MIN :: u8 where "BUTTON_MIN = 1"
definition BUTTON_MAX :: u8 where "BUTTON_MAX = 5"
definition UNKNOWN :: string where "UNKNOWN = ''UNKNOWN''"

definition refused_all :: "string list" where
  "refused_all = [''NOT_ALLOWED'', ''BUSY'', ''PLANE_STALE'', ''NO_BACKEND'', ''LOCKED'']"

definition stopped_all :: "string list" where
  "stopped_all = [''RETURNED'', ''MOVED'', ''GONE'', ''SLOW'']"

definition ended_all :: "string list" where
  "ended_all = [''REVOKED'', ''NO_BACKEND'', ''LOCKED'', ''IDLE'', ''TAKEN'']"

definition oops_all :: "string list" where
  "oops_all = [''ELEVATED_WINDOW'', ''SECURE_INPUT'', ''SCREEN_LOCKED'', ''NO_PERMISSION'', ''UNRESOLVED'']"

definition mods_SHIFT :: u16 where "mods_SHIFT = 1"
definition mods_CTRL :: u16 where "mods_CTRL = 2"
definition mods_ALT :: u16 where "mods_ALT = 4"
definition mods_ALTGR :: u16 where "mods_ALTGR = 8"
definition mods_META :: u16 where "mods_META = 16"
definition mods_CAPS :: u16 where "mods_CAPS = 32"
definition mods_NUM :: u16 where "mods_NUM = 64"
definition mods_SCROLL :: u16 where "mods_SCROLL = 128"

definition mods_HOLDABLE :: u16 where
  "mods_HOLDABLE = mods_SHIFT OR mods_CTRL OR mods_ALT OR mods_ALTGR OR mods_META"

definition mods_DEFINED :: u16 where
  "mods_DEFINED = mods_HOLDABLE OR mods_CAPS OR mods_NUM OR mods_SCROLL"

section \<open>Frames\<close>

datatype mode = FullMode | KeysMode

fun mode_as_str :: "mode \<Rightarrow> string" where
  "mode_as_str FullMode = ''full''"
| "mode_as_str KeysMode = ''keys''"

definition mode_parse :: "string \<Rightarrow> mode option" where
  "mode_parse s = (if s = ''full'' then Some FullMode else if s = ''keys'' then Some KeysMode else None)"

datatype key_mode = Typing | Positional

fun key_mode_as_str :: "key_mode \<Rightarrow> string" where
  "key_mode_as_str Typing = ''typing''"
| "key_mode_as_str Positional = ''positional''"

definition key_mode_parse :: "string \<Rightarrow> key_mode option" where
  "key_mode_parse s =
     (if s = ''typing'' then Some Typing else if s = ''positional'' then Some Positional else None)"

datatype frame =
    FHi u32 json string
  | FStart u32 mode key_mode string u32 i32 i32
  | FAccepted u32
  | FRefused u32 string "string option"
  | FStop u32 string
  | FEnded u32 string
  | FPointer u32 u32 i32 i32
  | FMotion u32 u32 i32 i32
  | FButton u32 u32 u8 bool
  | FWheel u32 u32 i32 i32 bool
  | FKey u32 u32 u32 "string option" "string option" u16 string bool bool
  | FReleaseAll u32
  | FPing u64
  | FPong u64
  | FOops u32 string u32

fun frame_session :: "frame \<Rightarrow> u32 option" where
  "frame_session (FHi _ _ _) = None"
| "frame_session (FPing _) = None"
| "frame_session (FPong _) = None"
| "frame_session (FStart s _ _ _ _ _ _) = Some s"
| "frame_session (FAccepted s) = Some s"
| "frame_session (FRefused s _ _) = Some s"
| "frame_session (FStop s _) = Some s"
| "frame_session (FEnded s _) = Some s"
| "frame_session (FPointer s _ _ _) = Some s"
| "frame_session (FMotion s _ _ _) = Some s"
| "frame_session (FButton s _ _ _) = Some s"
| "frame_session (FWheel s _ _ _ _) = Some s"
| "frame_session (FKey s _ _ _ _ _ _ _ _) = Some s"
| "frame_session (FReleaseAll s) = Some s"
| "frame_session (FOops s _ _) = Some s"

fun frame_flow :: "frame \<Rightarrow> u32 option" where
  "frame_flow (FPointer _ n _ _) = Some n"
| "frame_flow (FMotion _ n _ _) = Some n"
| "frame_flow (FButton _ n _ _) = Some n"
| "frame_flow (FWheel _ n _ _ _) = Some n"
| "frame_flow (FKey _ n _ _ _ _ _ _ _) = Some n"
| "frame_flow _ = None"

fun is_position :: "frame \<Rightarrow> bool" where
  "is_position (FPointer _ _ _ _) \<longleftrightarrow> True"
| "is_position (FMotion _ _ _ _) \<longleftrightarrow> True"
| "is_position _ \<longleftrightarrow> False"

text \<open>Whether something was given up, and the frame after it.\<close>

fun degrade :: "frame \<Rightarrow> bool \<times> frame" where
  "degrade (FKey s n u key sy m l dn lk) = (sy \<noteq> None, FKey s n u key None m l dn lk)"
| "degrade f = (False, f)"

section \<open>Writing\<close>

definition of_u32 :: "u32 \<Rightarrow> json" where "of_u32 w = of_u64 (unat w)"

definition of_i32 :: "i32 \<Rightarrow> json" where "of_i32 w = of_i64 (sint w)"

text \<open>Truncation to at most \<open>limit\<close> bytes, on a character boundary.\<close>

definition is_char_boundary :: "string \<Rightarrow> nat \<Rightarrow> bool" where
  "is_char_boundary s i \<longleftrightarrow> i = 0 \<or> i = length s \<or> (i < length s \<and> \<not> is_continuation (s ! i))"

fun clip_end :: "string \<Rightarrow> nat \<Rightarrow> nat" where
  "clip_end s 0 = 0"
| "clip_end s (Suc n) = (if is_char_boundary s (Suc n) then Suc n else clip_end s n)"

definition clip :: "string \<Rightarrow> nat \<Rightarrow> string" where
  "clip s limit = (if length s \<le> limit then s else take (clip_end s limit) s)"

definition clamp_wheel :: "i32 \<Rightarrow> i32" where
  "clamp_wheel w =
     (if sint w < sint (- WHEEL_MAX) then - WHEEL_MAX else if sint WHEEL_MAX < sint w then WHEEL_MAX else w)"

definition opt_field :: "string \<Rightarrow> json option \<Rightarrow> (string \<times> json) list" where
  "opt_field k v = (case v of None \<Rightarrow> [] | Some j \<Rightarrow> [(k, j)])"

fun encode_value :: "(json \<Rightarrow> nat) \<Rightarrow> frame \<Rightarrow> json" where
  "encode_value sz (FHi v caps plane) =
     jobj [(''t'', JStr ''hi''), (''d'', JStr INPUT_DIALECT), (''v'', of_u32 v),
       (''caps'', if sz caps > CAPS_MAX then JObj [] else caps), (''plane'', JStr plane)]"
| "encode_value sz (FStart s mode keys plane n x y) =
     jobj [(''t'', JStr ''start''), (''s'', of_u32 s), (''mode'', JStr (mode_as_str mode)),
       (''keys'', JStr (key_mode_as_str keys)), (''plane'', JStr plane), (''n'', of_u32 n), (''x'', of_i32 x), (''y'', of_i32 y)]"
| "encode_value sz (FAccepted s) = jobj [(''t'', JStr ''ok''), (''s'', of_u32 s)]"
| "encode_value sz (FRefused s code by) =
     jobj ([(''t'', JStr ''no''), (''s'', of_u32 s), (''c'', JStr code)] @
       opt_field ''by'' (case by of None \<Rightarrow> None | Some b \<Rightarrow> if length b \<le> DEVICE_ID_MAX then Some (JStr b) else None))"
| "encode_value sz (FStop s code) = jobj [(''t'', JStr ''stop''), (''s'', of_u32 s), (''c'', JStr code)]"
| "encode_value sz (FEnded s code) = jobj [(''t'', JStr ''end''), (''s'', of_u32 s), (''c'', JStr code)]"
| "encode_value sz (FPointer s n x y) =
     jobj [(''t'', JStr ''p''), (''s'', of_u32 s), (''n'', of_u32 n), (''x'', of_i32 x), (''y'', of_i32 y)]"
| "encode_value sz (FMotion s n dx dy) =
     jobj [(''t'', JStr ''r''), (''s'', of_u32 s), (''n'', of_u32 n), (''dx'', of_i32 dx), (''dy'', of_i32 dy)]"
| "encode_value sz (FButton s n button down) =
     jobj [(''t'', JStr ''b''), (''s'', of_u32 s), (''n'', of_u32 n), (''i'', of_u64 (unat button)), (''dn'', JBool down)]"
| "encode_value sz (FWheel s n dx dy pixels) =
     jobj [(''t'', JStr ''w''), (''s'', of_u32 s), (''n'', of_u32 n), (''dx'', of_i32 (clamp_wheel dx)),
       (''dy'', of_i32 (clamp_wheel dy)), (''u'', JStr (if pixels then ''px'' else ''line''))]"
| "encode_value sz (FKey s n usage key sy mods layout down lock) =
     jobj ([(''t'', JStr ''k''), (''s'', of_u32 s), (''n'', of_u32 n), (''u'', of_u32 usage), (''m'', of_u64 (unat mods)),
       (''l'', JStr (clip layout LAYOUT_MAX)), (''dn'', JBool down)] @
       opt_field ''key'' (map_option (\<lambda>k. JStr (clip k KEY_NAME_MAX)) key) @
       opt_field ''sym'' (case sy of None \<Rightarrow> None | Some b \<Rightarrow> if length b \<le> SYM_MAX then Some (JStr b) else None) @
       (if lock then [(''lk'', JBool True)] else []))"
| "encode_value sz (FReleaseAll s) = jobj [(''t'', JStr ''rel''), (''s'', of_u32 s)]"
| "encode_value sz (FPing ms) = jobj [(''t'', JStr ''ping''), (''ms'', of_u64 (unat ms))]"
| "encode_value sz (FPong ms) = jobj [(''t'', JStr ''pong''), (''ms'', of_u64 (unat ms))]"
| "encode_value sz (FOops s code count) =
     jobj [(''t'', JStr ''oops''), (''s'', of_u32 s), (''c'', JStr code), (''k'', of_u32 count)]"

datatype encode_error = TooLarge nat

definition encode_frame :: "(json \<Rightarrow> nat) \<Rightarrow> frame \<Rightarrow> encode_error + json" where
  "encode_frame sz f =
     (let v = encode_value sz f in if sz v > MAX_OUT_FRAME then Inl (TooLarge (sz v)) else Inr v)"

section \<open>Reading\<close>

definition u32_of :: "json \<Rightarrow> string \<Rightarrow> u32 option" where
  "u32_of v k = do {
     j \<leftarrow> jget v k;
     n \<leftarrow> as_u64 j;
     if n < 2 ^ 32 then Some (word_of_nat n) else None
   }"

definition i32_of :: "json \<Rightarrow> string \<Rightarrow> i32 option" where
  "i32_of v k = do {
     j \<leftarrow> jget v k;
     i \<leftarrow> as_i64 j;
     if - (2 ^ 31) \<le> i \<and> i < 2 ^ 31 then Some (word_of_int i) else None
   }"

definition u64_of :: "json \<Rightarrow> string \<Rightarrow> u64 option" where
  "u64_of v k = do { j \<leftarrow> jget v k; n \<leftarrow> as_u64 j; Some (word_of_nat n) }"

definition str_of :: "json \<Rightarrow> string \<Rightarrow> string option" where
  "str_of v k = Option.bind (jget v k) as_str"

definition bool_of :: "json \<Rightarrow> string \<Rightarrow> bool option" where
  "bool_of v k = Option.bind (jget v k) as_bool"

definition code_in :: "json \<Rightarrow> string list \<Rightarrow> string option" where
  "code_in v known = do { c \<leftarrow> str_of v ''c''; Some (case find (\<lambda>k. k = c) known of None \<Rightarrow> UNKNOWN | Some k \<Rightarrow> k) }"

definition bounded :: "json option \<Rightarrow> nat \<Rightarrow> string option" where
  "bounded v limit = do { j \<leftarrow> v; s \<leftarrow> as_str j; if length s > limit then None else Some s }"

definition read_caps :: "(json \<Rightarrow> nat) \<Rightarrow> json \<Rightarrow> json" where
  "read_caps sz v =
     (case jget v ''caps'' of
        None \<Rightarrow> JObj []
      | Some caps \<Rightarrow> if as_object caps \<noteq> None \<and> sz caps \<le> CAPS_MAX then caps else JObj [])"

definition read_button :: "json \<Rightarrow> u8 option" where
  "read_button v = do {
     j \<leftarrow> jget v ''i'';
     n \<leftarrow> as_u64 j;
     if n < 2 ^ 8 \<and> BUTTON_MIN \<le> (word_of_nat n :: u8) \<and> (word_of_nat n :: u8) \<le> BUTTON_MAX
     then Some (word_of_nat n) else None
   }"

definition read_mods :: "json \<Rightarrow> u16 option" where
  "read_mods v = do {
     j \<leftarrow> jget v ''m'';
     n \<leftarrow> as_u64 j;
     if n < 2 ^ 16 then Some (word_of_nat n AND mods_DEFINED) else None
   }"

definition decode_hi :: "(json \<Rightarrow> nat) \<Rightarrow> json \<Rightarrow> frame option" where
  "decode_hi sz v = do {
     d \<leftarrow> str_of v ''d'';
     if d \<noteq> INPUT_DIALECT then None else do {
       version \<leftarrow> u32_of v ''v'';
       plane \<leftarrow> bounded (jget v ''plane'') PLANE_ID_MAX;
       Some (FHi version (read_caps sz v) plane)
     }
   }"

definition decode_start :: "json \<Rightarrow> frame option" where
  "decode_start v = do {
     s \<leftarrow> u32_of v ''s'';
     m \<leftarrow> str_of v ''mode'';
     mode \<leftarrow> mode_parse m;
     k \<leftarrow> str_of v ''keys'';
     keys \<leftarrow> key_mode_parse k;
     plane \<leftarrow> bounded (jget v ''plane'') PLANE_ID_MAX;
     n \<leftarrow> u32_of v ''n'';
     x \<leftarrow> i32_of v ''x'';
     y \<leftarrow> i32_of v ''y'';
     Some (FStart s mode keys plane n x y)
   }"

definition decode_refused :: "json \<Rightarrow> frame option" where
  "decode_refused v = do {
     s \<leftarrow> u32_of v ''s'';
     c \<leftarrow> code_in v refused_all;
     Some (FRefused s c (bounded (jget v ''by'') DEVICE_ID_MAX))
   }"

definition decode_pointer :: "json \<Rightarrow> frame option" where
  "decode_pointer v = do {
     s \<leftarrow> u32_of v ''s''; n \<leftarrow> u32_of v ''n''; x \<leftarrow> i32_of v ''x''; y \<leftarrow> i32_of v ''y'';
     Some (FPointer s n x y)
   }"

definition decode_motion :: "json \<Rightarrow> frame option" where
  "decode_motion v = do {
     dx \<leftarrow> i32_of v ''dx'';
     dy \<leftarrow> i32_of v ''dy'';
     if dx = 0 \<and> dy = 0 then None
     else do { s \<leftarrow> u32_of v ''s''; n \<leftarrow> u32_of v ''n''; Some (FMotion s n dx dy) }
   }"

definition decode_button :: "json \<Rightarrow> frame option" where
  "decode_button v = do {
     button \<leftarrow> read_button v;
     s \<leftarrow> u32_of v ''s''; n \<leftarrow> u32_of v ''n'';
     dn \<leftarrow> bool_of v ''dn'';
     Some (FButton s n button dn)
   }"

definition pixels_parse :: "string \<Rightarrow> bool option" where
  "pixels_parse u = (if u = ''px'' then Some True else if u = ''line'' then Some False else None)"

definition decode_wheel :: "json \<Rightarrow> frame option" where
  "decode_wheel v = do {
     s \<leftarrow> u32_of v ''s''; n \<leftarrow> u32_of v ''n'';
     dx \<leftarrow> i32_of v ''dx'';
     dy \<leftarrow> i32_of v ''dy'';
     u \<leftarrow> str_of v ''u'';
     pixels \<leftarrow> pixels_parse u;
     Some (FWheel s n (clamp_wheel dx) (clamp_wheel dy) pixels)
   }"

definition decode_key :: "json \<Rightarrow> frame option" where
  "decode_key v = do {
     s \<leftarrow> u32_of v ''s''; n \<leftarrow> u32_of v ''n'';
     usage \<leftarrow> u32_of v ''u'';
     mods \<leftarrow> read_mods v;
     layout \<leftarrow> bounded (jget v ''l'') LAYOUT_MAX;
     dn \<leftarrow> bool_of v ''dn'';
     Some (FKey s n usage (bounded (jget v ''key'') KEY_NAME_MAX) (bounded (jget v ''sym'') SYM_MAX) mods layout dn
             (bool_of v ''lk'' = Some True))
   }"

definition decode_code :: "(u32 \<Rightarrow> string \<Rightarrow> frame) \<Rightarrow> string list \<Rightarrow> json \<Rightarrow> frame option" where
  "decode_code make known v = do { s \<leftarrow> u32_of v ''s''; c \<leftarrow> code_in v known; Some (make s c) }"

definition decode_oops :: "json \<Rightarrow> frame option" where
  "decode_oops v = do { s \<leftarrow> u32_of v ''s''; c \<leftarrow> code_in v oops_all; k \<leftarrow> u32_of v ''k''; Some (FOops s c k) }"

definition decode_body :: "(json \<Rightarrow> nat) \<Rightarrow> string \<Rightarrow> json \<Rightarrow> frame option" where
  "decode_body sz t v =
     (if t = ''hi'' then decode_hi sz v
      else if t = ''start'' then decode_start v
      else if t = ''ok'' then map_option FAccepted (u32_of v ''s'')
      else if t = ''no'' then decode_refused v
      else if t = ''stop'' then decode_code FStop stopped_all v
      else if t = ''end'' then decode_code FEnded ended_all v
      else if t = ''p'' then decode_pointer v
      else if t = ''r'' then decode_motion v
      else if t = ''b'' then decode_button v
      else if t = ''w'' then decode_wheel v
      else if t = ''k'' then decode_key v
      else if t = ''rel'' then map_option FReleaseAll (u32_of v ''s'')
      else if t = ''ping'' then map_option FPing (u64_of v ''ms'')
      else if t = ''pong'' then map_option FPong (u64_of v ''ms'')
      else if t = ''oops'' then decode_oops v
      else None)"

definition decode_frame :: "(json \<Rightarrow> nat) \<Rightarrow> json \<Rightarrow> frame option" where
  "decode_frame sz v = do { t \<leftarrow> str_of v ''t''; decode_body sz t v }"

section \<open>What a peer reads\<close>

text \<open>The codes as a reader knows them.\<close>

definition known_code :: "string list \<Rightarrow> string \<Rightarrow> string" where
  "known_code known c = (if c \<in> set known then c else UNKNOWN)"

definition keep_short :: "nat \<Rightarrow> string option \<Rightarrow> string option" where
  "keep_short limit s = Option.bind s (\<lambda>s. if length s \<le> limit then Some s else None)"

fun as_read :: "(json \<Rightarrow> nat) \<Rightarrow> frame \<Rightarrow> frame option" where
  "as_read sz (FHi v caps plane) =
     (if length plane \<le> PLANE_ID_MAX
      then Some (FHi v (if as_object caps \<noteq> None \<and> sz caps \<le> CAPS_MAX then caps else JObj []) plane) else None)"
| "as_read sz (FStart s mode keys plane n x y) =
     (if length plane \<le> PLANE_ID_MAX then Some (FStart s mode keys plane n x y) else None)"
| "as_read sz (FRefused s c by) = Some (FRefused s (known_code refused_all c) (keep_short DEVICE_ID_MAX by))"
| "as_read sz (FStop s c) = Some (FStop s (known_code stopped_all c))"
| "as_read sz (FEnded s c) = Some (FEnded s (known_code ended_all c))"
| "as_read sz (FMotion s n dx dy) = (if dx = 0 \<and> dy = 0 then None else Some (FMotion s n dx dy))"
| "as_read sz (FButton s n b dn) = (if BUTTON_MIN \<le> b \<and> b \<le> BUTTON_MAX then Some (FButton s n b dn) else None)"
| "as_read sz (FWheel s n dx dy px) = Some (FWheel s n (clamp_wheel dx) (clamp_wheel dy) px)"
| "as_read sz (FKey s n u key sy m l dn lk) =
     Some (FKey s n u (map_option (\<lambda>k. clip k KEY_NAME_MAX) key) (keep_short SYM_MAX sy) (m AND mods_DEFINED)
       (clip l LAYOUT_MAX) dn lk)"
| "as_read sz (FOops s c k) = Some (FOops s (known_code oops_all c) k)"
| "as_read sz f = Some f"

lemma u32_round: "unat (w :: u32) < 2 ^ 32" "word_of_nat (unat (w :: u32)) = w"
  using unsigned_less [of w] by simp_all

lemma of_u32_read [simp]: "jget v k = Some (of_u32 w) \<Longrightarrow> u32_of v k = Some w"
  using u32_round [of w] by (simp add: u32_of_def of_u32_def)

lemma sint_i32: "- (2 ^ 31) \<le> sint (w :: i32)" "sint (w :: i32) < 2 ^ 31"
  using sint_greater_eq [of w] sint_less [of w] by simp_all

lemma of_i32_read [simp]: "jget v k = Some (of_i32 w) \<Longrightarrow> i32_of v k = Some w"
  using sint_i32 [of w] by (simp add: i32_of_def of_i32_def as_i64_of_i64)

lemma of_u64_read [simp]: "jget v k = Some (of_u64 (unat w)) \<Longrightarrow> u64_of v k = Some w"
  by (simp add: u64_of_def)

lemma str_read [simp]: "jget v k = Some (JStr s) \<Longrightarrow> str_of v k = Some s"
  by (simp add: str_of_def)

lemma bool_read [simp]: "jget v k = Some (JBool b) \<Longrightarrow> bool_of v k = Some b"
  by (simp add: bool_of_def)

lemma bounded_read [simp]: "bounded (Some (JStr s)) limit = (if length s \<le> limit then Some s else None)" "bounded None limit = None"
  by (simp_all add: bounded_def)

lemma code_in_eq: "code_in v known = map_option (known_code known) (str_of v ''c'')"
proof -
  have "(case find (\<lambda>k. k = c) known of None \<Rightarrow> UNKNOWN | Some k \<Rightarrow> k) = known_code known c" for c
    by (auto simp: known_code_def find_None_iff find_Some_iff split: option.splits)
  then show ?thesis by (simp add: code_in_def map_option_case split: option.splits)
qed

lemma code_read [simp]: "jget v ''c'' = Some (JStr c) \<Longrightarrow> code_in v known = Some (known_code known c)"
  by (simp add: code_in_eq)

lemma button_read: "jget v ''i'' = Some (of_u64 (unat (b :: u8))) \<Longrightarrow>
    read_button v = (if BUTTON_MIN \<le> b \<and> b \<le> BUTTON_MAX then Some b else None)"
  using unsigned_less [where ?'a = nat, of b] by (simp add: read_button_def)

lemma mods_read: "jget v ''m'' = Some (of_u64 (unat (m :: u16))) \<Longrightarrow> read_mods v = Some (m AND mods_DEFINED)"
  using unsigned_less [where ?'a = nat, of m] by (simp add: read_mods_def)

lemma clip_end_le: "clip_end s n \<le> n"
  by (induction n) auto

lemma clip_length: "length (clip s limit) \<le> limit"
  using clip_end_le [of s limit] by (simp add: clip_def)

lemma clamp_clamped: "clamp_wheel (clamp_wheel w) = clamp_wheel w"
  by (auto simp: clamp_wheel_def WHEEL_MAX_def)

lemma frames_are_read: "decode_frame sz (encode_value sz f) = as_read sz f"
proof (cases f)
  case (FHi v caps plane)
  then show ?thesis by (auto simp: decode_frame_def decode_body_def jget_jobj decode_hi_def read_caps_def)
next
  case (FStart s mode keys plane n x y)
  then show ?thesis
    by (cases mode; cases keys) (simp_all add: decode_frame_def decode_body_def jget_jobj decode_start_def mode_parse_def key_mode_parse_def)
next
  case (FRefused s c b)
  then show ?thesis by (cases b) (simp_all add: decode_frame_def decode_body_def jget_jobj opt_field_def decode_refused_def keep_short_def)
next
  case (FButton s n b dn)
  then show ?thesis by (simp add: decode_frame_def decode_body_def jget_jobj decode_button_def button_read)
next
  case (FWheel s n dx dy px)
  then show ?thesis by (simp add: decode_frame_def decode_body_def jget_jobj decode_wheel_def pixels_parse_def clamp_clamped)
next
  case (FKey s n u key sy m l dn lk)
  then show ?thesis
    by (cases key; cases sy; cases lk)
      (simp_all add: decode_frame_def decode_body_def jget_jobj opt_field_def decode_key_def mods_read clip_length keep_short_def bool_of_def)
qed (simp_all add: decode_frame_def decode_body_def jget_jobj decode_code_def decode_pointer_def decode_motion_def decode_oops_def)

section \<open>What fits the dialect\<close>

fun within :: "(json \<Rightarrow> nat) \<Rightarrow> frame \<Rightarrow> bool" where
  "within sz (FHi v caps plane) \<longleftrightarrow>
     (caps = JObj [] \<or> as_object caps \<noteq> None \<and> sz caps \<le> 256) \<and> length plane \<le> 32"
| "within sz (FStart s mode keys plane n x y) \<longleftrightarrow> length plane \<le> 32"
| "within sz (FRefused s c b) \<longleftrightarrow> c \<in> set refused_all \<union> {UNKNOWN} \<and> pred_option (\<lambda>b. length b \<le> 64) b"
| "within sz (FStop s c) \<longleftrightarrow> c \<in> set stopped_all \<union> {UNKNOWN}"
| "within sz (FEnded s c) \<longleftrightarrow> c \<in> set ended_all \<union> {UNKNOWN}"
| "within sz (FOops s c k) \<longleftrightarrow> c \<in> set oops_all \<union> {UNKNOWN}"
| "within sz (FMotion s n dx dy) \<longleftrightarrow> dx \<noteq> 0 \<or> dy \<noteq> 0"
| "within sz (FButton s n b dn) \<longleftrightarrow> unat b \<in> {1..5}"
| "within sz (FWheel s n dx dy px) \<longleftrightarrow> \<bar>sint dx\<bar> \<le> 4096 \<and> \<bar>sint dy\<bar> \<le> 4096"
| "within sz (FKey s n u key sy m l dn lk) \<longleftrightarrow>
     pred_option (\<lambda>k. length k \<le> 32) key \<and> pred_option (\<lambda>x. length x \<le> 32) sy \<and> unat m < 256 \<and> length l \<le> 64"
| "within sz f \<longleftrightarrow> True"

lemma known_code_iff: "known_code known c = c \<longleftrightarrow> c \<in> set known \<union> {UNKNOWN}"
  by (auto simp: known_code_def)

lemma known_code_known: "known_code known c \<in> set known \<union> {UNKNOWN}"
  by (simp add: known_code_def)

lemma clip_id: "clip s limit = s \<longleftrightarrow> length s \<le> limit"
  using clip_length [of s limit] by (auto simp: clip_def)

lemma mods_DEFINED_mask: "mods_DEFINED = mask 8"
  by (simp add: mods_DEFINED_def mods_HOLDABLE_def mods_SHIFT_def mods_CTRL_def mods_ALT_def mods_ALTGR_def mods_META_def
      mods_CAPS_def mods_NUM_def mods_SCROLL_def mask_eq_exp_minus_1)

lemma mods_defined_iff: "m AND mods_DEFINED = m \<longleftrightarrow> unat m < 256"
proof -
  have "m AND mods_DEFINED = take_bit 8 m" by (simp add: mods_DEFINED_mask take_bit_eq_mask)
  then have "m AND mods_DEFINED = m \<longleftrightarrow> take_bit 8 (unat m) = unat m"
    by (simp add: word_unat_eq_iff unsigned_take_bit_eq)
  then show ?thesis by (simp add: take_bit_eq_mod mod_eq_self_iff_div_eq_0 div_eq_0_iff)
qed

lemma clamp_iff: "clamp_wheel w = w \<longleftrightarrow> \<bar>sint w\<bar> \<le> 4096"
  by (auto simp: clamp_wheel_def WHEEL_MAX_def)

lemma button_iff: "BUTTON_MIN \<le> b \<and> b \<le> BUTTON_MAX \<longleftrightarrow> unat b \<in> {1..5}"
  by (simp add: BUTTON_MIN_def BUTTON_MAX_def word_le_nat_alt)

lemma within_iff: "as_read sz f = Some f \<longleftrightarrow> within sz f"
  by (cases f)
    (auto simp: known_code_iff button_iff clamp_iff mods_defined_iff clip_id keep_short_def CAPS_MAX_def PLANE_ID_MAX_def
      DEVICE_ID_MAX_def SYM_MAX_def LAYOUT_MAX_def KEY_NAME_MAX_def map_option_case split: option.splits bind_splits)

text \<open>The frames nothing is read from.\<close>

fun unreadable :: "frame \<Rightarrow> bool" where
  "unreadable (FHi v caps plane) \<longleftrightarrow> 32 < length plane"
| "unreadable (FStart s mode keys plane n x y) \<longleftrightarrow> 32 < length plane"
| "unreadable (FMotion s n dx dy) \<longleftrightarrow> dx = 0 \<and> dy = 0"
| "unreadable (FButton s n b dn) \<longleftrightarrow> unat b \<notin> {1..5}"
| "unreadable f \<longleftrightarrow> False"

lemma unreadable_iff: "as_read sz f = None \<longleftrightarrow> unreadable f"
  by (cases f) (simp_all add: PLANE_ID_MAX_def not_le button_iff del: atLeastAtMost_iff)

section \<open>What arrives is within bounds\<close>

lemma code_in_known: "code_in v known = Some c \<Longrightarrow> c \<in> set known \<union> {UNKNOWN}"
  using known_code_known by (auto simp: code_in_eq)

lemma bounded_SomeD: "bounded v limit = Some s \<Longrightarrow> length s \<le> limit"
  by (auto simp: bounded_def bind_eq_Some_conv split: if_splits)

lemma bounded_short: "pred_option (\<lambda>s. length s \<le> limit) (bounded v limit)"
  by (cases "bounded v limit") (simp_all add: bounded_SomeD)

lemma clamp_within: "\<bar>sint (clamp_wheel w)\<bar> \<le> 4096"
  using clamp_iff [of "clamp_wheel w"] by (simp add: clamp_clamped)

lemma read_button_range: "read_button v = Some b \<Longrightarrow> unat b \<in> {1..5}"
  by (auto simp: read_button_def bind_eq_Some_conv button_iff [unfolded atLeastAtMost_iff] split: if_splits)

lemma read_mods_range:
  assumes "read_mods v = Some m"
  shows "unat m < 256"
proof -
  obtain w where "m = w AND mods_DEFINED"
    using assms by (auto simp: read_mods_def bind_eq_Some_conv split: if_splits)
  then have "m AND mods_DEFINED = m" by (simp add: and.assoc)
  then show ?thesis by (simp add: mods_defined_iff)
qed

lemma decoded_within:
  assumes "decode_frame sz v = Some f"
  shows "within sz f"
proof -
  from assms obtain t where body: "decode_body sz t v = Some f" by (auto simp: decode_frame_def bind_eq_Some_conv)
  consider "decode_hi sz v = Some f" | "decode_start v = Some f" | "decode_refused v = Some f"
    | "decode_code FStop stopped_all v = Some f" | "decode_code FEnded ended_all v = Some f" | "decode_oops v = Some f"
    | "decode_motion v = Some f" | "decode_button v = Some f" | "decode_wheel v = Some f" | "decode_key v = Some f"
    | "\<exists>s. f = FAccepted s" | "\<exists>s. f = FReleaseAll s" | "\<exists>ms. f = FPing ms" | "\<exists>ms. f = FPong ms" | "decode_pointer v = Some f"
    using body unfolding decode_body_def by (auto split: if_splits)
  then show ?thesis
  proof cases
    case 1
    then show ?thesis
      by (auto simp: decode_hi_def bind_eq_Some_conv read_caps_def CAPS_MAX_def PLANE_ID_MAX_def dest!: bounded_SomeD
          split: if_splits option.splits)
  next
    case 9
    then show ?thesis using clamp_within by (auto simp: decode_wheel_def bind_eq_Some_conv)
  next
    case 10
    then show ?thesis using bounded_short [of KEY_NAME_MAX] bounded_short [of SYM_MAX]
      by (auto simp: decode_key_def bind_eq_Some_conv KEY_NAME_MAX_def SYM_MAX_def LAYOUT_MAX_def dest!: bounded_SomeD read_mods_range)
  next
    case 3
    then show ?thesis using bounded_short [of DEVICE_ID_MAX]
      by (auto simp: decode_refused_def bind_eq_Some_conv DEVICE_ID_MAX_def dest!: code_in_known)
  qed (auto simp: decode_start_def decode_code_def decode_oops_def decode_motion_def decode_button_def decode_pointer_def
      bind_eq_Some_conv PLANE_ID_MAX_def dest!: bounded_SomeD code_in_known read_button_range split: if_splits)
qed

text \<open>The bytes U+0001 of a value's strings, which the serializer writes in six bytes each.\<close>

fun escaped :: "json \<Rightarrow> nat" where
  "escaped (JStr s) = length (filter (\<lambda>c. byte_of c = 1) s)"
| "escaped (JArr vs) = sum_list (map escaped vs)"
| "escaped (JObj m) = sum_list (map (\<lambda>p. escaped (snd p)) m)"
| "escaped _ = 0"

section \<open>Properties\<close>

text \<open>
  C27. Nothing a peer chooses arrives unbounded or undefined: a frame that is read has codes of the closed
  sets (or \<open>UNKNOWN\<close>), ids, names, symbols and layouts within their lengths, only defined modifier bits,
  one of the five buttons, a wheel within its limit, a motion that moves, and capabilities that are an
  object within their size.
\<close>

theorem nothing_arrives_undefined:
  "decode_frame sz v = Some f \<Longrightarrow> within sz f"
  by (rule decoded_within)

lemma nothing_arrives_undefined_witness:
  "\<exists>f. decode_frame (\<lambda>_. 2) (encode_value (\<lambda>_. 2) (FKey 1 2 4 None (Some ''a'') 257 ''fr'' True False)) = Some f \<and>
     within (\<lambda>_. 2) f"
proof -
  let ?f = "FKey 1 2 4 None (Some ''a'') (257 AND mods_DEFINED) ''fr'' True False"
  have "decode_frame (\<lambda>_. 2) (encode_value (\<lambda>_. 2) (FKey 1 2 4 None (Some ''a'') 257 ''fr'' True False)) = Some ?f"
    unfolding frames_are_read by (simp add: keep_short_def SYM_MAX_def clip_def LAYOUT_MAX_def)
  from this nothing_arrives_undefined [OF this] show ?thesis by blast
qed

text \<open>
  C28. A frame that passes the size check of 512 bytes is read as \<open>as_read\<close> says: with codes outside the
  closed sets as \<open>UNKNOWN\<close>, layout and key names clipped, long symbols and ids dropped, undefined
  modifier bits masked, wheels clamped and capabilities that are too large or no object emptied. It
  arrives as it was sent exactly when it is within the dialect's bounds, and nothing is read exactly
  when its plane id is too long, its motion is none or its button is undefined.
\<close>

theorem what_fits_arrives:
  assumes "encode_frame sz f = Inr v"
  shows "sz v \<le> 512 \<and> decode_frame sz v = as_read sz f \<and>
    (decode_frame sz v = Some f \<longleftrightarrow> within sz f) \<and> (decode_frame sz v = None \<longleftrightarrow> unreadable f)"
  using assms
  by (auto simp: encode_frame_def Let_def frames_are_read within_iff unreadable_iff MAX_OUT_FRAME_def split: if_splits)

lemma what_fits_arrives_witness:
  "\<exists>v. encode_frame (\<lambda>_. 90) (FWheel 1 2 5000 0 True) = Inr v \<and>
     decode_frame (\<lambda>_. 90) v = Some (FWheel 1 2 4096 0 True) \<and> \<not> within (\<lambda>_. 90) (FWheel 1 2 5000 0 True)"
proof -
  let ?f = "FWheel 1 2 5000 0 True"
  have "encode_frame (\<lambda>_. 90) ?f = Inr (encode_value (\<lambda>_. 90) ?f)" by (simp add: encode_frame_def MAX_OUT_FRAME_def)
  from this what_fits_arrives [OF this] show ?thesis by (simp add: clamp_wheel_def WHEEL_MAX_def)
qed

text \<open>
  The size check is reachable within every field bound: the serializer writes a control character in
  six bytes, so a key frame whose layout and key name are made of them is refused as too large, and there
  is nothing in it to give up.
\<close>

theorem a_frame_within_bounds_is_too_large:
  assumes serializer: "\<And>v. 6 * escaped v \<le> sz v"
  shows "\<exists>f n. within sz f \<and> encode_frame sz f = Inl (TooLarge n) \<and> degrade f = (False, f)"
proof -
  let ?soh = "CHR 0x01"
  let ?f = "FKey 0 0 0 (Some (replicate 32 ?soh)) None 0 (replicate 64 ?soh) True False"
  have "escaped (encode_value sz ?f) = 96"
    by (simp add: jobj_def opt_field_def clip_def LAYOUT_MAX_def KEY_NAME_MAX_def bt_of_list_def of_u32_def of_u64_def filter_replicate)
  then have "MAX_OUT_FRAME < sz (encode_value sz ?f)"
    using serializer [of "encode_value sz ?f"] by (simp add: MAX_OUT_FRAME_def)
  then have "encode_frame sz ?f = Inl (TooLarge (sz (encode_value sz ?f)))" by (simp add: encode_frame_def Let_def)
  moreover have "within sz ?f" "degrade ?f = (False, ?f)" by simp_all
  ultimately show ?thesis by blast
qed

lemma a_frame_within_bounds_is_too_large_witness:
  "\<exists>f n. within (\<lambda>v. 6 * escaped v) f \<and> encode_frame (\<lambda>v. 6 * escaped v) f = Inl (TooLarge n) \<and> degrade f = (False, f)"
  by (rule a_frame_within_bounds_is_too_large) simp

end
