(* ===== verification/InputPlane.thy ===== *)
theory InputPlane
  imports InputWire
begin

text \<open>
  The layout document of input sharing (\<open>input/src/plane.rs\<close>): every monitor of every computer of the
  account on one plane, each device's signed word about its own monitors, and the arrangement a human
  dragged, merged by last writer wins.

  \<open>i32\<close> values are integers in range, with the saturating and checked operations written out; \<open>u32\<close>
  sequence numbers are naturals. The signature check \<open>vf\<close> (key, message, signature), the signing
  identity, the serialized length \<open>sz\<close> of a value and the hash of the plane id are parameters. A plane
  whose own name is not known yet has the empty name.
\<close>

definition MAX_DEVICES :: nat where "MAX_DEVICES = 16"
definition MAX_MONITORS :: nat where "MAX_MONITORS = 16"
definition MAX_SPOTS :: nat where "MAX_SPOTS = MAX_DEVICES * MAX_MONITORS"
definition MAX_ID :: nat where "MAX_ID = 256"
definition MAX_NAME :: nat where "MAX_NAME = 128"
definition MAX_SEQ :: nat where "MAX_SEQ = 2 ^ 24"
definition MAX_PLACEMENT_BYTES :: nat where "MAX_PLACEMENT_BYTES = 32 * 1024"
definition MONITORS_BUDGET :: nat where "MONITORS_BUDGET = 24 * 1024"
definition MAX_EXTENT :: int where "MAX_EXTENT = 1000000"

definition I32_MAX :: int where "I32_MAX = 2 ^ 31 - 1"
definition I32_MIN :: int where "I32_MIN = - (2 ^ 31)"

definition sat_i32 :: "int \<Rightarrow> int" where "sat_i32 i = max I32_MIN (min I32_MAX i)"
definition sadd :: "int \<Rightarrow> int \<Rightarrow> int" where "sadd a b = sat_i32 (a + b)"
definition ssub :: "int \<Rightarrow> int \<Rightarrow> int" where "ssub a b = sat_i32 (a - b)"

definition checked_add :: "int \<Rightarrow> int \<Rightarrow> int option" where
  "checked_add a b = (if I32_MIN \<le> a + b \<and> a + b \<le> I32_MAX then Some (a + b) else None)"

record monitor =
  mo_id :: string
  mo_name :: string
  mo_w :: int
  mo_h :: int
  mo_x :: int
  mo_y :: int
  mo_scale :: int
  mo_primary :: bool

record spot =
  sp_x :: int
  sp_y :: int

record monitors_entry =
  me_seq :: nat
  me_list :: "monitor list"
  me_sig :: string
  me_verified :: bool

record placement =
  pl_seq :: nat
  pl_by :: string
  pl_at :: nat
  pl_spots :: "(string, spot) btree"
  pl_sig :: string
  pl_verified :: bool

definition outranks :: "placement \<Rightarrow> placement \<Rightarrow> bool" where
  "outranks a b \<longleftrightarrow> (pl_seq b, pl_by b, pl_sig b) < (pl_seq a, pl_by a, pl_sig a)"

record plane =
  pn_monitors :: "(string, monitors_entry) btree"
  pn_placement :: "placement option"
  pn_pins :: "(string, string) btree"
  pn_own :: string

definition plane_default :: plane where
  "plane_default = \<lparr>pn_monitors = [], pn_placement = None, pn_pins = [], pn_own = []\<rparr>"

record input_identity =
  ii_public_hex :: string
  ii_sign :: "string \<Rightarrow> string"

section \<open>Names and bounds\<close>

definition is_hex64 :: "string \<Rightarrow> bool" where
  "is_hex64 s \<longleftrightarrow> length s = 64 \<and> list_all is_lower_hex s"

definition in_extent :: "int \<Rightarrow> bool" where
  "in_extent v \<longleftrightarrow> - MAX_EXTENT \<le> v \<and> v \<le> MAX_EXTENT"

definition split_spot_key :: "string \<Rightarrow> (string \<times> string) option" where
  "split_spot_key key =
     (case split_once CHR ''/'' key of
        None \<Rightarrow> None
      | Some (node_id, mon) \<Rightarrow>
          if \<not> is_hex64 node_id \<or> mon = [] \<or> MAX_ID < length mon then None
          else if CHR ''/'' \<in> set mon \<or> CHR ''|'' \<in> set mon then None
          else Some (node_id, mon))"

definition spot_key :: "string \<Rightarrow> string \<Rightarrow> string" where
  "spot_key node_id monitor_id = node_id @ CHR ''/'' # monitor_id"

definition is_sane :: "monitor \<Rightarrow> bool" where
  "is_sane m \<longleftrightarrow>
     \<not> (mo_id m = [] \<or> MAX_ID < length (mo_id m) \<or> CHR ''/'' \<in> set (mo_id m) \<or> CHR ''|'' \<in> set (mo_id m)) \<and>
     length (mo_name m) \<le> MAX_NAME \<and>
     \<not> (mo_w m \<le> 0 \<or> mo_h m \<le> 0 \<or> mo_scale m \<le> 0 \<or> 100000 < mo_scale m) \<and>
     in_extent (mo_w m) \<and> in_extent (mo_h m) \<and> in_extent (mo_x m) \<and> in_extent (mo_y m) \<and>
     (case (checked_add (mo_x m) (mo_w m), checked_add (mo_y m) (mo_h m)) of
        (Some right, Some bottom) \<Rightarrow> in_extent right \<and> in_extent bottom
      | _ \<Rightarrow> False)"

definition spots_bytes :: "(string, spot) btree \<Rightarrow> nat" where
  "spots_bytes spots = sum_list (map (\<lambda>p. length (fst p) + 31) spots)"

section \<open>Signed bytes\<close>

definition be16 :: "nat \<Rightarrow> string" where
  "be16 n = map char_of [n div 2 ^ 8 mod 256, n mod 256]"

definition be32 :: "nat \<Rightarrow> string" where
  "be32 n = map char_of [n div 2 ^ 24 mod 256, n div 2 ^ 16 mod 256, n div 2 ^ 8 mod 256, n mod 256]"

definition be_i32 :: "int \<Rightarrow> string" where
  "be_i32 i = be32 (nat (i mod 2 ^ 32))"

definition DOMAIN_MONITORS :: string where "DOMAIN_MONITORS = ''1device-input:monitors:''"
definition DOMAIN_PLACEMENT :: string where "DOMAIN_PLACEMENT = ''1device-input:placement:''"

definition monitor_bytes :: "monitor \<Rightarrow> string" where
  "monitor_bytes m =
     be16 (length (mo_id m)) @ mo_id m @ be16 (length (mo_name m)) @ mo_name m @
     concat (map be_i32 [mo_w m, mo_h m, mo_x m, mo_y m, mo_scale m]) @ [if mo_primary m then CHR 0x01 else CHR 0x00]"

definition monitors_bytes :: "string \<Rightarrow> nat \<Rightarrow> monitor list \<Rightarrow> string" where
  "monitors_bytes node_id seq ms =
     DOMAIN_MONITORS @ node_id @ be32 seq @ be32 (length ms) @ concat (map monitor_bytes ms)"

definition spot_bytes :: "string \<times> spot \<Rightarrow> string" where
  "spot_bytes p = be16 (length (fst p)) @ fst p @ be_i32 (sp_x (snd p)) @ be_i32 (sp_y (snd p))"

definition placement_bytes :: "string \<Rightarrow> nat \<Rightarrow> (string, spot) btree \<Rightarrow> string" where
  "placement_bytes by_node seq spots =
     DOMAIN_PLACEMENT @ by_node @ be32 seq @ be32 (length spots) @ concat (map spot_bytes spots)"

text \<open>The bytes \<open>plane_id\<close> hashes; the id is sixteen bytes of the hash, in hexadecimal.\<close>

definition plane_bytes :: "plane \<Rightarrow> string" where
  "plane_bytes p =
     (case pn_placement p of
        None \<Rightarrow> ''1device-input:no-placement''
      | Some a \<Rightarrow> placement_bytes (pl_by a) (pl_seq a) (pl_spots a)) @
     concat (map (\<lambda>(node_id, e). if me_verified e then monitors_bytes node_id (me_seq e) (me_list e) else [])
              (pn_monitors p))"

definition plane_id :: "(string \<Rightarrow> string) \<Rightarrow> plane \<Rightarrow> string" where
  "plane_id hash_hex p = hash_hex (plane_bytes p)"

section \<open>Pins and our own word\<close>

definition recheck_entry :: "(string \<Rightarrow> string \<Rightarrow> string \<Rightarrow> bool) \<Rightarrow> string \<Rightarrow> string \<Rightarrow> monitors_entry \<Rightarrow> monitors_entry" where
  "recheck_entry vf node_id key e = e\<lparr>me_verified := vf key (monitors_bytes node_id (me_seq e) (me_list e)) (me_sig e)\<rparr>"

definition recheck_placement ::
  "(string \<Rightarrow> string \<Rightarrow> string \<Rightarrow> bool) \<Rightarrow> string \<Rightarrow> string \<Rightarrow> placement option \<Rightarrow> placement option" where
  "recheck_placement vf node_id key held =
     (case held of
        None \<Rightarrow> None
      | Some a \<Rightarrow>
          if pl_by a \<noteq> node_id then Some a
          else if vf key (placement_bytes node_id (pl_seq a) (pl_spots a)) (pl_sig a)
          then Some (a\<lparr>pl_verified := True\<rparr>) else None)"

definition pin_plane ::
  "(string \<Rightarrow> string \<Rightarrow> string \<Rightarrow> bool) \<Rightarrow> string \<Rightarrow> string \<Rightarrow> plane \<Rightarrow> bool \<times> plane" where
  "pin_plane vf node_id key p =
     (if \<not> is_hex64 node_id \<or> \<not> is_hex64 key then (False, p)
      else if map_of (pn_pins p) node_id = Some key then (False, p)
      else (True, p\<lparr>pn_pins := bt_insert node_id key (pn_pins p),
                    pn_monitors := bt_adjust node_id (recheck_entry vf node_id key) (pn_monitors p),
                    pn_placement := recheck_placement vf node_id key (pn_placement p)\<rparr>))"

definition set_own :: "string \<Rightarrow> plane \<Rightarrow> bool \<times> plane" where
  "set_own node_id p =
     (if \<not> is_hex64 node_id then (False, p)
      else
        let named = pn_own p \<noteq> node_id;
            p = p\<lparr>pn_own := node_id\<rparr>
        in case map_of (pn_monitors p) node_id of
             None \<Rightarrow> (named, p)
           | Some e \<Rightarrow>
               if me_verified e then (named, p)
               else (True, p\<lparr>pn_monitors := bt_remove node_id (pn_monitors p)\<rparr>))"

definition truncated :: "string \<Rightarrow> nat \<Rightarrow> string" where
  "truncated s limit = (if length s \<le> limit then s else take (clip_end s limit) s)"

definition publishable :: "monitor list \<Rightarrow> monitor list" where
  "publishable ms =
     take MAX_MONITORS (filter is_sane (map (\<lambda>m. m\<lparr>mo_name := truncated (mo_name m) MAX_NAME\<rparr>) ms))"

definition publish_monitors :: "string \<Rightarrow> input_identity \<Rightarrow> monitor list \<Rightarrow> plane \<Rightarrow> bool \<times> plane" where
  "publish_monitors node_id idn ms p =
     (if \<not> is_hex64 node_id then (False, p)
      else
        let p = snd (set_own node_id p);
            ms = publishable ms;
            held = map_of (pn_monitors p) node_id
        in if (case held of None \<Rightarrow> False | Some e \<Rightarrow> me_list e = ms \<and> me_verified e) then (False, p)
           else
             let seq = (case held of None \<Rightarrow> 1 | Some e \<Rightarrow> min (me_seq e + 1) MAX_SEQ)
             in (True, p\<lparr>pn_pins := bt_insert node_id (ii_public_hex idn) (pn_pins p),
                         pn_monitors := bt_insert node_id
                           \<lparr>me_seq = seq, me_list = ms, me_sig = ii_sign idn (monitors_bytes node_id seq ms),
                            me_verified = True\<rparr> (pn_monitors p)\<rparr>))"

datatype place_error = TooMany | BadKey | OffPlane | TooBig | BadAuthor | Ceiling

fun check_spots :: "(string, spot) btree \<Rightarrow> place_error option" where
  "check_spots [] = None"
| "check_spots ((k, sp) # rest) =
     (if split_spot_key k = None then Some BadKey
      else if \<not> in_extent (sp_x sp) \<or> \<not> in_extent (sp_y sp) then Some OffPlane
      else check_spots rest)"

definition place :: "string \<Rightarrow> input_identity \<Rightarrow> nat \<Rightarrow> (string, spot) btree \<Rightarrow> plane \<Rightarrow> (place_error + unit) \<times> plane" where
  "place node_id idn at spots p =
     (if \<not> is_hex64 node_id then (Inl BadAuthor, p)
      else if MAX_SPOTS < length spots then (Inl TooMany, p)
      else
        (case check_spots spots of
           Some e \<Rightarrow> (Inl e, p)
         | None \<Rightarrow>
             if MAX_PLACEMENT_BYTES < spots_bytes spots then (Inl TooBig, p)
             else
               let p = snd (set_own node_id p);
                   seq = (case pn_placement p of None \<Rightarrow> 1 | Some a \<Rightarrow> min (pl_seq a + 1) MAX_SEQ);
                   candidate = \<lparr>pl_seq = seq, pl_by = node_id, pl_at = at, pl_spots = spots,
                     pl_sig = ii_sign idn (placement_bytes node_id seq spots), pl_verified = True\<rparr>
               in if (case pn_placement p of None \<Rightarrow> False | Some held \<Rightarrow> \<not> outranks candidate held)
                  then (Inl Ceiling, p)
                  else (Inr (), p\<lparr>pn_pins := bt_insert node_id (ii_public_hex idn) (pn_pins p),
                                  pn_placement := Some candidate\<rparr>)))"

section \<open>Documents\<close>

definition monitor_to :: "monitor \<Rightarrow> json" where
  "monitor_to m = jobj
     [(''id'', JStr (mo_id m)), (''name'', JStr (mo_name m)), (''w'', of_i64 (mo_w m)), (''h'', of_i64 (mo_h m)),
      (''x'', of_i64 (mo_x m)), (''y'', of_i64 (mo_y m)), (''scale'', of_i64 (mo_scale m)), (''primary'', JBool (mo_primary m))]"

definition entry_fields :: "monitors_entry \<Rightarrow> (string \<times> json) list" where
  "entry_fields e =
     [(''seq'', of_u64 (me_seq e)), (''list'', JArr (map monitor_to (me_list e))), (''sig'', JStr (me_sig e))]"

definition entry_json :: "monitors_entry \<Rightarrow> json" where
  "entry_json e = jobj (entry_fields e)"

definition spot_json :: "spot \<Rightarrow> json" where
  "spot_json sp = jobj [(''x'', of_i64 (sp_x sp)), (''y'', of_i64 (sp_y sp))]"

definition placement_json :: "placement \<Rightarrow> json" where
  "placement_json a = jobj
     [(''seq'', of_u64 (pl_seq a)), (''by'', JStr (pl_by a)), (''at'', of_u64 (pl_at a)),
      (''spots'', jobj (map (\<lambda>p. (fst p, spot_json (snd p))) (pl_spots a))), (''sig'', JStr (pl_sig a))]"

definition i32_field :: "json \<Rightarrow> string \<Rightarrow> int option" where
  "i32_field v k = do {
     j \<leftarrow> jget v k;
     i \<leftarrow> as_i64 j;
     if I32_MIN \<le> i \<and> i \<le> I32_MAX then Some i else None
   }"

definition monitor_from :: "json \<Rightarrow> monitor option" where
  "monitor_from v = do {
     i \<leftarrow> str_of v ''id'';
     n \<leftarrow> str_of v ''name'';
     w \<leftarrow> i32_field v ''w'';
     h \<leftarrow> i32_field v ''h'';
     x \<leftarrow> i32_field v ''x'';
     y \<leftarrow> i32_field v ''y'';
     scale \<leftarrow> i32_field v ''scale'';
     let m = \<lparr>mo_id = i, mo_name = n, mo_w = w, mo_h = h, mo_x = x, mo_y = y, mo_scale = scale,
               mo_primary = (bool_of v ''primary'' = Some True)\<rparr>
     in if is_sane m then Some m else None
   }"

definition seq_of :: "json \<Rightarrow> nat option" where
  "seq_of v = do {
     j \<leftarrow> jget v ''seq'';
     n \<leftarrow> as_u64 j;
     if n < 2 ^ 32 \<and> n \<le> MAX_SEQ then Some n else None
   }"

definition spot_from :: "string \<times> json \<Rightarrow> (string \<times> spot) option" where
  "spot_from p = do {
     k \<leftarrow> split_spot_key (fst p);
     x \<leftarrow> i32_field (snd p) ''x'';
     y \<leftarrow> i32_field (snd p) ''y'';
     if in_extent x \<and> in_extent y then Some (fst p, \<lparr>sp_x = x, sp_y = y\<rparr>) else None
   }"

definition placement_from :: "json \<Rightarrow> placement option" where
  "placement_from v = do {
     b \<leftarrow> str_of v ''by'';
     if \<not> is_hex64 b then None else do {
       seq \<leftarrow> seq_of v;
       sig \<leftarrow> str_of v ''sig'';
       j \<leftarrow> jget v ''spots'';
       m \<leftarrow> as_object j;
       if MAX_SPOTS < length m then None else do {
         spots \<leftarrow> those (map spot_from m);
         Some \<lparr>pl_seq = seq, pl_by = b, pl_at = (case Option.bind (jget v ''at'') as_u64 of None \<Rightarrow> 0 | Some n \<Rightarrow> n),
               pl_spots = spots, pl_sig = sig, pl_verified = False\<rparr>
       }
     }
   }"

definition read_monitors ::
  "(string \<Rightarrow> string \<Rightarrow> string \<Rightarrow> bool) \<Rightarrow> plane \<Rightarrow> string \<times> json \<Rightarrow> (string \<times> monitors_entry) option" where
  "read_monitors vf p entry =
     (case entry of
        (node_id, v) \<Rightarrow>
          if \<not> is_hex64 node_id then None
          else do {
            seq \<leftarrow> seq_of v;
            sig \<leftarrow> str_of v ''sig'';
            j \<leftarrow> jget v ''list'';
            ms \<leftarrow> as_array j;
            if MAX_MONITORS < length ms then None else do {
              monitors \<leftarrow> those (map monitor_from ms);
              Some (node_id, \<lparr>me_seq = seq, me_list = monitors, me_sig = sig,
                me_verified = (case map_of (pn_pins p) node_id of
                                 None \<Rightarrow> False | Some key \<Rightarrow> vf key (monitors_bytes node_id seq monitors) sig)\<rparr>)
            }
          })"

section \<open>Absorbing statements\<close>

datatype absorbed = Changed | Ignored | Declined

definition claims :: "plane \<Rightarrow> string list" where
  "claims p = map fst (filter (\<lambda>q. \<not> me_verified (snd q)) (pn_monitors p))"

definition absorb_monitors :: "string \<Rightarrow> monitors_entry \<Rightarrow> plane \<Rightarrow> absorbed \<times> plane" where
  "absorb_monitors node_id candidate p =
     (let store = p\<lparr>pn_monitors := bt_insert node_id candidate (pn_monitors p)\<rparr>
      in if pn_own p \<noteq> [] \<and> node_id = pn_own p then (Ignored, p)
         else
           (case map_of (pn_monitors p) node_id of
              Some held \<Rightarrow>
                if me_verified held \<and> \<not> me_verified candidate then (Ignored, p)
                else if \<not> me_verified held \<and> me_verified candidate then (Changed, store)
                else if me_seq candidate \<le> me_seq held then (Ignored, p)
                else (Changed, store)
            | None \<Rightarrow>
                if MAX_DEVICES \<le> length (pn_monitors p)
                then
                  (if claims p = [] then (Declined, p)
                   else
                     let worst = last (claims p)
                     in if me_verified candidate \<or> node_id < worst
                        then (Changed, p\<lparr>pn_monitors := bt_insert node_id candidate (bt_remove worst (pn_monitors p))\<rparr>)
                        else (Declined, p))
                else (Changed, store)))"

definition absorb_placement ::
  "(string \<Rightarrow> string \<Rightarrow> string \<Rightarrow> bool) \<Rightarrow> placement \<Rightarrow> plane \<Rightarrow> absorbed \<times> plane" where
  "absorb_placement vf candidate p =
     (let take_it = (\<lambda>c. if (case pn_placement p of None \<Rightarrow> False | Some held \<Rightarrow> \<not> outranks c held)
                         then (Ignored, p) else (Changed, p\<lparr>pn_placement := Some c\<rparr>))
      in case map_of (pn_pins p) (pl_by candidate) of
           None \<Rightarrow> take_it (candidate\<lparr>pl_verified := False\<rparr>)
         | Some key \<Rightarrow>
             if \<not> vf key (placement_bytes (pl_by candidate) (pl_seq candidate) (pl_spots candidate)) (pl_sig candidate)
             then (Declined, p) else take_it (candidate\<lparr>pl_verified := True\<rparr>))"

record merged =
  mg_changed :: bool
  mg_refused :: bool

definition note_absorbed :: "absorbed \<Rightarrow> merged \<Rightarrow> merged" where
  "note_absorbed a g =
     (case a of Changed \<Rightarrow> g\<lparr>mg_changed := True\<rparr> | Declined \<Rightarrow> g\<lparr>mg_refused := True\<rparr> | Ignored \<Rightarrow> g)"

definition monitors_of :: "(string \<Rightarrow> string \<Rightarrow> string \<Rightarrow> bool) \<Rightarrow> plane \<Rightarrow> json option \<Rightarrow> (string \<times> monitors_entry) list option" where
  "monitors_of vf p v =
     (case v of
        None \<Rightarrow> Some []
      | Some JNull \<Rightarrow> Some []
      | Some (JObj m) \<Rightarrow> if MAX_DEVICES < length m then None else those (map (read_monitors vf p) m)
      | Some _ \<Rightarrow> None)"

text \<open>The inner option is the absence of a placement.\<close>

definition placement_of :: "json option \<Rightarrow> placement option option" where
  "placement_of v =
     (case v of
        None \<Rightarrow> Some None
      | Some JNull \<Rightarrow> Some None
      | Some v \<Rightarrow>
          (case placement_from v of
             None \<Rightarrow> None
           | Some a \<Rightarrow> if spots_bytes (pl_spots a) \<le> MAX_PLACEMENT_BYTES then Some (Some a) else None))"

definition absorb_entry_of :: "merged \<times> plane \<Rightarrow> string \<times> monitors_entry \<Rightarrow> merged \<times> plane" where
  "absorb_entry_of gp e =
     (case absorb_monitors (fst e) (snd e) (snd gp) of (a, p) \<Rightarrow> (note_absorbed a (fst gp), p))"

definition merge_doc ::
  "(string \<Rightarrow> string \<Rightarrow> string \<Rightarrow> bool) \<Rightarrow> string \<Rightarrow> json \<Rightarrow> plane \<Rightarrow> merged \<times> plane" where
  "merge_doc vf from doc p =
     (let g = \<lparr>mg_changed = False, mg_refused = False\<rparr>
      in if str_of doc ''d'' \<noteq> Some INPUT_DIALECT then (g, p)
         else
           (case (case str_of doc ''key'' of None \<Rightarrow> (False, p) | Some key \<Rightarrow> pin_plane vf from key p) of
              (pinned, p) \<Rightarrow>
                let g = g\<lparr>mg_changed := pinned\<rparr>
                in case monitors_of vf p (jget doc ''monitors'') of
                     None \<Rightarrow> (g\<lparr>mg_refused := True\<rparr>, p)
                   | Some entries \<Rightarrow>
                       (case placement_of (jget doc ''placement'') of
                          None \<Rightarrow> (g\<lparr>mg_refused := True\<rparr>, p)
                        | Some a \<Rightarrow>
                            (case foldl absorb_entry_of (g, p) entries of
                               (g, p) \<Rightarrow>
                                 (case a of
                                    None \<Rightarrow> (g, p)
                                  | Some a \<Rightarrow>
                                      (case absorb_placement vf a p of (r, p) \<Rightarrow> (note_absorbed r g, p)))))))"

section \<open>Writing the document\<close>

definition offer_entry ::
  "(json \<Rightarrow> nat) \<Rightarrow> (string, json) btree \<times> nat \<Rightarrow> string \<times> monitors_entry \<Rightarrow> (string, json) btree \<times> nat" where
  "offer_entry sz acc e =
     (let cost = length (fst e) + sz (entry_json (snd e)) + 4
      in if snd acc < cost then acc else (bt_insert (fst e) (entry_json (snd e)) (fst acc), snd acc - cost))"

definition offered_monitors :: "(json \<Rightarrow> nat) \<Rightarrow> plane \<Rightarrow> (string, json) btree" where
  "offered_monitors sz p =
     (let own = (case map_of (pn_monitors p) (pn_own p) of None \<Rightarrow> [] | Some e \<Rightarrow> [(pn_own p, e)]);
          others = filter (\<lambda>e. fst e \<noteq> pn_own p \<and> me_verified (snd e)) (pn_monitors p)
      in fst (foldl (offer_entry sz) ([], MONITORS_BUDGET) (own @ others)))"

definition offer_plane :: "(json \<Rightarrow> nat) \<Rightarrow> string \<Rightarrow> plane \<Rightarrow> json" where
  "offer_plane sz own_key p = jobj
     ([(''d'', JStr INPUT_DIALECT), (''t'', JStr ''layout''), (''key'', JStr own_key),
       (''monitors'', JObj (offered_monitors sz p))] @
      opt_field ''placement'' (map_option placement_json (pn_placement p)))"

definition to_stored :: "plane \<Rightarrow> json" where
  "to_stored p = jobj
     ([(''d'', JStr INPUT_DIALECT), (''t'', JStr ''layout''),
       (''monitors'', jobj (map (\<lambda>e. (fst e, jobj (entry_fields (snd e) @ [(''verified'', JBool (me_verified (snd e)))])))
                            (pn_monitors p))),
       (''pins'', jobj (map (\<lambda>q. (fst q, JStr (snd q))) (pn_pins p)))] @
      opt_field ''placement'' (map_option placement_json (pn_placement p)))"

text \<open>\<open>None\<close> is the panic of indexing a document that is neither an object nor null.\<close>

definition stored_pins :: "(string \<Rightarrow> string \<Rightarrow> string \<Rightarrow> bool) \<Rightarrow> json \<Rightarrow> plane" where
  "stored_pins vf doc =
     (case Option.bind (jget doc ''pins'') as_object of
        None \<Rightarrow> plane_default
      | Some pins \<Rightarrow>
          foldl (\<lambda>p q. case as_str (snd q) of None \<Rightarrow> p | Some key \<Rightarrow> snd (pin_plane vf (fst q) key p)) plane_default pins)"

definition from_stored :: "(string \<Rightarrow> string \<Rightarrow> string \<Rightarrow> bool) \<Rightarrow> json \<Rightarrow> plane option" where
  "from_stored vf doc =
     (case (case doc of JNull \<Rightarrow> Some [] | JObj m \<Rightarrow> Some m | _ \<Rightarrow> None) of
        None \<Rightarrow> None
      | Some m \<Rightarrow>
          Some (snd (merge_doc vf [] (JObj (bt_remove ''key'' (bt_insert ''d'' (JStr INPUT_DIALECT) m))) (stored_pins vf doc))))"

end
