(* ===== verification/PlaneStore.thy ===== *)
theory PlaneStore
  imports InputPlane
begin

text \<open>
  What every plane looks like and what its file brings back. \<open>plane_ok\<close> is the shape all the operations
  keep; a stored plane of at most \<open>MAX_DEVICES\<close> entries comes back whole, and one entry more, which
  publishing our own screens into a full table produces, brings back nothing.
\<close>

section \<open>Well-formed planes\<close>

definition entry_ok :: "string \<times> monitors_entry \<Rightarrow> bool" where
  "entry_ok q \<longleftrightarrow> is_hex64 (fst q) \<and> me_seq (snd q) \<le> MAX_SEQ \<and> length (me_list (snd q)) \<le> MAX_MONITORS \<and>
     list_all is_sane (me_list (snd q))"

definition spots_ok :: "(string, spot) btree \<Rightarrow> bool" where
  "spots_ok s \<longleftrightarrow> bt_ok s \<and> length s \<le> MAX_SPOTS \<and> spots_bytes s \<le> MAX_PLACEMENT_BYTES \<and>
     list_all (\<lambda>q. split_spot_key (fst q) \<noteq> None \<and> in_extent (sp_x (snd q)) \<and> in_extent (sp_y (snd q))) s"

definition placement_ok :: "placement \<Rightarrow> bool" where
  "placement_ok a \<longleftrightarrow> is_hex64 (pl_by a) \<and> pl_seq a \<le> MAX_SEQ \<and> spots_ok (pl_spots a)"

definition pins_ok :: "(string, string) btree \<Rightarrow> bool" where
  "pins_ok m \<longleftrightarrow> bt_ok m \<and> list_all (\<lambda>q. is_hex64 (fst q) \<and> is_hex64 (snd q)) m"

text \<open>\<open>n\<close> is the name of the device that keeps the plane.\<close>

definition plane_ok :: "string \<Rightarrow> plane \<Rightarrow> bool" where
  "plane_ok n p \<longleftrightarrow> (pn_own p = [] \<or> pn_own p = n) \<and> bt_ok (pn_monitors p) \<and> list_all entry_ok (pn_monitors p) \<and>
     length (bt_remove n (pn_monitors p)) \<le> MAX_DEVICES \<and>
     (pn_own p = [] \<longrightarrow> length (pn_monitors p) \<le> MAX_DEVICES) \<and>
     (\<forall>e. pn_own p = n \<longrightarrow> map_of (pn_monitors p) n = Some e \<longrightarrow> me_verified e) \<and> pred_option placement_ok (pn_placement p) \<and> pins_ok (pn_pins p)"

datatype plane_op =
    OpPin string string
  | OpOwn
  | OpPublish "monitor list"
  | OpPlace nat "(string, spot) btree"
  | OpMerge string json

definition plane_step ::
  "(string \<Rightarrow> string \<Rightarrow> string \<Rightarrow> bool) \<Rightarrow> string \<Rightarrow> input_identity \<Rightarrow> plane \<Rightarrow> plane_op \<Rightarrow> plane" where
  "plane_step vf n idn p op =
     (case op of
        OpPin d k \<Rightarrow> snd (pin_plane vf d k p)
      | OpOwn \<Rightarrow> snd (set_own n p)
      | OpPublish ms \<Rightarrow> snd (publish_monitors n idn ms p)
      | OpPlace at spots \<Rightarrow> snd (place n idn at spots p)
      | OpMerge f doc \<Rightarrow> snd (merge_doc vf f doc p))"

text \<open>No peer speaks under our own name.\<close>

fun plane_op_ok :: "string \<Rightarrow> plane_op \<Rightarrow> bool" where
  "plane_op_ok n (OpPin d k) \<longleftrightarrow> d \<noteq> n"
| "plane_op_ok n (OpPlace at spots) \<longleftrightarrow> bt_ok spots"
| "plane_op_ok n (OpMerge f doc) \<longleftrightarrow> json_ok doc \<and> f \<noteq> n"
| "plane_op_ok n _ \<longleftrightarrow> True"

section \<open>Every operation keeps the shape\<close>

lemma list_all_bt_insert: "list_all P m \<Longrightarrow> P (k, v) \<Longrightarrow> list_all P (bt_insert k v m)"
  using set_bt_insert [of k v m] by (auto simp: list_all_iff)

lemma list_all_bt_remove: "list_all P m \<Longrightarrow> list_all P (bt_remove k m)"
  by (auto simp: list_all_iff bt_remove_def)

lemma length_bt_insert: "bt_ok m \<Longrightarrow> length (bt_insert k v m) = (if map_of m k = None then Suc (length m) else length m)"
  by (auto simp: length_keys card_insert_if finite_dom_map_of domIff)

lemma remove_insert: "bt_remove n (bt_insert k v m) = (if k = n then bt_remove n m else bt_insert k v (bt_remove n m))"
  if "bt_ok m"
  using that by (intro bt_ext) (auto simp: fun_eq_iff)

lemma length_remove_insert:
  "bt_ok m \<Longrightarrow> length (bt_remove n (bt_insert k v m)) \<le> length (bt_remove n m) + (if k = n \<or> map_of m k \<noteq> None then 0 else 1)"
  by (auto simp: remove_insert length_bt_insert)

lemma length_remove_le: "length (bt_remove n m) \<le> length m"
  by (simp add: bt_remove_def)

lemma remove_remove [simp]: "bt_remove k (bt_remove k m) = bt_remove k m"
  by (simp add: bt_remove_def)

lemma remove_commute: "bt_remove a (bt_remove b m) = bt_remove b (bt_remove a m)"
  by (simp add: bt_remove_def conj_commute)

lemma length_bt_remove:
  assumes "bt_ok m" "map_of m k \<noteq> None"
  shows "Suc (length (bt_remove k m)) = length m"
proof -
  have "dom (map_of (bt_remove k m)) = dom (map_of m) - {k}" by auto
  moreover have "k \<in> dom (map_of m)" using assms(2) by auto
  ultimately show ?thesis using assms(1) card_Suc_Diff1 [OF finite_dom_map_of] by (metis bt_ok_remove length_keys)
qed

lemma remove_adjust [simp]: "length (bt_remove n (bt_adjust d f m)) = length (bt_remove n m)"
  by (induction m) (auto simp: bt_remove_def bt_adjust_def)

lemma plane_ok_default: "plane_ok n plane_default"
  by (simp add: plane_ok_def plane_default_def pins_ok_def bt_remove_def)

lemma entry_ok_recheck: "entry_ok (d, e) \<Longrightarrow> entry_ok (d, recheck_entry vf d' k e)"
  by (simp add: entry_ok_def recheck_entry_def)

lemma pin_ok:
  assumes ok: "plane_ok n p" and "d \<noteq> n"
  shows "plane_ok n (snd (pin_plane vf d k p))"
proof -
  have "list_all entry_ok (bt_adjust d (recheck_entry vf d k) (pn_monitors p))"
    using ok entry_ok_recheck by (fastforce simp: plane_ok_def bt_adjust_def list_all_iff)
  moreover have "pred_option placement_ok (recheck_placement vf d k (pn_placement p))"
    using ok by (cases "pn_placement p") (auto simp: plane_ok_def recheck_placement_def placement_ok_def)
  moreover have "length (bt_adjust d (recheck_entry vf d k) (pn_monitors p)) = length (pn_monitors p)"
    by (simp add: bt_adjust_def)
  moreover have "map_of (bt_adjust d (recheck_entry vf d k) (pn_monitors p)) n = map_of (pn_monitors p) n"
    using assms(2) by (simp add: map_of_bt_adjust)
  ultimately show ?thesis using ok
    by (simp add: pin_plane_def plane_ok_def pins_ok_def list_all_bt_insert)
qed

lemma hex64_nonempty: "is_hex64 n \<Longrightarrow> n \<noteq> []"
  by (auto simp: is_hex64_def)

lemma own_ok:
  assumes "plane_ok n p"
  shows "plane_ok n (snd (set_own n p))"
proof (cases "is_hex64 n \<and> (\<exists>e. map_of (pn_monitors p) n = Some e \<and> \<not> me_verified e)")
  case True
  then obtain e where "map_of (pn_monitors p) n = Some e" "\<not> me_verified e" by blast
  then show ?thesis using assms True hex64_nonempty
    by (simp add: plane_ok_def set_own_def Let_def list_all_bt_remove)
next
  case False
  then show ?thesis using assms hex64_nonempty
    by (simp add: plane_ok_def set_own_def Let_def split: option.splits)
qed

lemma own_named: "is_hex64 n \<Longrightarrow> pn_own (snd (set_own n p)) = n"
  by (simp add: set_own_def Let_def split: option.splits)

lemma publishable_sane: "list_all is_sane (publishable ms)" "length (publishable ms) \<le> MAX_MONITORS"
  by (auto simp: publishable_def list_all_iff dest: in_set_takeD)

definition own_word :: "string \<Rightarrow> input_identity \<Rightarrow> nat \<Rightarrow> monitor list \<Rightarrow> monitors_entry" where
  "own_word n idn seq ms =
     \<lparr>me_seq = seq, me_list = ms, me_sig = ii_sign idn (monitors_bytes n seq ms), me_verified = True\<rparr>"

definition next_seq :: "nat option \<Rightarrow> nat" where
  "next_seq held = (case held of None \<Rightarrow> 1 | Some s \<Rightarrow> min (s + 1) MAX_SEQ)"

lemma next_seq_le: "next_seq held \<le> MAX_SEQ"
  by (simp add: next_seq_def MAX_SEQ_def split: option.splits)

definition unchanged :: "monitor list \<Rightarrow> monitors_entry option \<Rightarrow> bool" where
  "unchanged ms held \<longleftrightarrow> (\<exists>e. held = Some e \<and> me_list e = ms \<and> me_verified e)"

lemma publish_result:
  "snd (publish_monitors n idn ms p) =
     (let q = snd (set_own n p); held = map_of (pn_monitors q) n
      in if \<not> is_hex64 n then p else if unchanged (publishable ms) held then q
         else q\<lparr>pn_pins := bt_insert n (ii_public_hex idn) (pn_pins q),
                 pn_monitors := bt_insert n (own_word n idn (next_seq (map_option me_seq held)) (publishable ms)) (pn_monitors q)\<rparr>)"
proof (cases "map_of (pn_monitors (snd (set_own n p))) n")
  case None
  then show ?thesis by (simp add: publish_monitors_def Let_def own_word_def next_seq_def unchanged_def)
next
  case (Some e)
  then show ?thesis by (simp add: publish_monitors_def Let_def own_word_def next_seq_def unchanged_def)
qed

lemma insert_own_ok:
  assumes "plane_ok n q" "pn_own q = n" "is_hex64 n" "is_hex64 k" "entry_ok (n, e)" "me_verified e"
  shows "plane_ok n (q\<lparr>pn_pins := bt_insert n k (pn_pins q), pn_monitors := bt_insert n e (pn_monitors q)\<rparr>)"
  using assms hex64_nonempty [OF assms(3)]
  by (simp add: plane_ok_def pins_ok_def list_all_bt_insert remove_insert)

lemma publish_ok:
  assumes "plane_ok n p" "is_hex64 (ii_public_hex idn)"
  shows "plane_ok n (snd (publish_monitors n idn ms p))"
proof (cases "is_hex64 n")
  case True
  let ?q = "snd (set_own n p)"
  have q: "plane_ok n ?q" by (rule own_ok [OF assms(1)])
  have "entry_ok (n, own_word n idn (next_seq h) (publishable ms))" for h
    using True publishable_sane [of ms] next_seq_le by (simp add: entry_ok_def own_word_def)
  then show ?thesis using insert_own_ok [OF q own_named [OF True] True assms(2)] q True
    by (simp add: publish_result Let_def own_word_def)
qed (simp add: publish_result assms)

lemma check_spots_None:
  "check_spots s = None \<longleftrightarrow>
   list_all (\<lambda>q. split_spot_key (fst q) \<noteq> None \<and> in_extent (sp_x (snd q)) \<and> in_extent (sp_y (snd q))) s"
  by (induction s rule: check_spots.induct) auto

definition own_arrangement :: "string \<Rightarrow> input_identity \<Rightarrow> nat \<Rightarrow> nat \<Rightarrow> (string, spot) btree \<Rightarrow> placement" where
  "own_arrangement n idn at seq spots =
     \<lparr>pl_seq = seq, pl_by = n, pl_at = at, pl_spots = spots, pl_sig = ii_sign idn (placement_bytes n seq spots),
      pl_verified = True\<rparr>"

lemma place_result:
  "place n idn at spots p =
     (if \<not> is_hex64 n then (Inl BadAuthor, p)
      else if MAX_SPOTS < length spots then (Inl TooMany, p)
      else if check_spots spots \<noteq> None then (Inl (the (check_spots spots)), p)
      else if MAX_PLACEMENT_BYTES < spots_bytes spots then (Inl TooBig, p)
      else
        let q = snd (set_own n p);
            c = own_arrangement n idn at (next_seq (map_option pl_seq (pn_placement q))) spots
        in if \<exists>held. pn_placement q = Some held \<and> \<not> outranks c held then (Inl Ceiling, q)
           else (Inr (), q\<lparr>pn_pins := bt_insert n (ii_public_hex idn) (pn_pins q), pn_placement := Some c\<rparr>))"
  by (simp add: place_def Let_def own_arrangement_def next_seq_def split: option.splits)

lemma place_arrangement_ok:
  assumes "plane_ok n q" "is_hex64 n" "is_hex64 k" "placement_ok c"
  shows "plane_ok n (q\<lparr>pn_pins := bt_insert n k (pn_pins q), pn_placement := Some c\<rparr>)"
  using assms by (simp add: plane_ok_def pins_ok_def list_all_bt_insert)

lemma place_ok:
  assumes "plane_ok n p" "is_hex64 (ii_public_hex idn)" "bt_ok spots"
  shows "plane_ok n (snd (place n idn at spots p))"
proof (cases "is_hex64 n \<and> length spots \<le> MAX_SPOTS \<and> check_spots spots = None \<and> spots_bytes spots \<le> MAX_PLACEMENT_BYTES")
  case True
  have "placement_ok (own_arrangement n idn at (next_seq h) spots)" for h
    using True assms(3) next_seq_le by (simp add: placement_ok_def own_arrangement_def spots_ok_def check_spots_None)
  then show ?thesis using place_arrangement_ok [OF own_ok [OF assms(1)]] own_ok [OF assms(1)] assms(2) True
    by (auto simp: place_result Let_def)
qed (use assms(1) in \<open>auto simp: place_result\<close>)

lemma absorb_ok:
  assumes ok: "plane_ok n p" and e: "entry_ok (d, c)"
  shows "plane_ok n (snd (absorb_monitors d c p))"
proof (cases "pn_own p \<noteq> [] \<and> d = pn_own p")
  case True
  then show ?thesis using ok by (simp add: absorb_monitors_def Let_def)
next
  case mine: False
  then have own: "pn_own p = [] \<or> pn_own p = n \<and> d \<noteq> n" using ok by (auto simp: plane_ok_def)
  have "d \<noteq> []" using e hex64_nonempty by (simp add: entry_ok_def)
  let ?m = "pn_monitors p"
  have stored: "plane_ok n (p\<lparr>pn_monitors := bt_insert d c m\<rparr>)"
    if "bt_ok m" "list_all entry_ok m" "\<forall>e. pn_own p = n \<longrightarrow> map_of m n = Some e \<longrightarrow> me_verified e"
      "length (bt_remove n (bt_insert d c m)) \<le> MAX_DEVICES" "pn_own p = [] \<longrightarrow> length (bt_insert d c m) \<le> MAX_DEVICES" for m
    using that ok e own \<open>d \<noteq> []\<close> by (auto simp: plane_ok_def list_all_bt_insert)
  have shape: "bt_ok ?m" "list_all entry_ok ?m" "\<forall>e. pn_own p = n \<longrightarrow> map_of ?m n = Some e \<longrightarrow> me_verified e"
    "length (bt_remove n ?m) \<le> MAX_DEVICES" "pn_own p = [] \<longrightarrow> length ?m \<le> MAX_DEVICES"
    using ok by (auto simp: plane_ok_def)
  show ?thesis
  proof (cases "map_of ?m d")
    case (Some held)
    then have "plane_ok n (p\<lparr>pn_monitors := bt_insert d c ?m\<rparr>)"
      using shape length_remove_insert [OF shape(1), of n d c] by (intro stored) (auto simp: length_bt_insert)
    then show ?thesis using Some mine ok by (simp add: absorb_monitors_def Let_def)
  next
    case None
    show ?thesis
    proof (cases "MAX_DEVICES \<le> length ?m")
      case False
      then have "plane_ok n (p\<lparr>pn_monitors := bt_insert d c ?m\<rparr>)"
        using shape None length_remove_le [of n "bt_insert d c ?m"] by (intro stored) (auto simp: length_bt_insert)
      then show ?thesis using None mine ok False by (simp add: absorb_monitors_def Let_def)
    next
      case full: True
      show ?thesis
      proof (cases "claims p = []")
        case True
        then show ?thesis using None mine ok full by (simp add: absorb_monitors_def Let_def)
      next
        case False
        let ?w = "last (claims p)" let ?m' = "bt_remove ?w ?m"
        obtain e where e: "map_of ?m ?w = Some e" "\<not> me_verified e" 
          using last_in_set [OF False] shape(1) by (auto simp: claims_def map_of_in_set)
        have len: "Suc (length ?m') = length ?m" using length_bt_remove [OF shape(1)] e(1) by simp
        have "plane_ok n (p\<lparr>pn_monitors := bt_insert d c ?m'\<rparr>)"
        proof (rule stored)
          show "bt_ok ?m'" "list_all entry_ok ?m'" using shape by (simp_all add: list_all_bt_remove)
          show "\<forall>e. pn_own p = n \<longrightarrow> map_of ?m' n = Some e \<longrightarrow> me_verified e" using shape(3) by simp
          show "pn_own p = [] \<longrightarrow> length (bt_insert d c ?m') \<le> MAX_DEVICES"
            using shape len None by (simp add: length_bt_insert)
          show "length (bt_remove n (bt_insert d c ?m')) \<le> MAX_DEVICES"
          proof (cases "pn_own p = []")
            case True
            moreover have "length (bt_insert d c ?m') = length ?m" using shape(1) len None by (simp add: length_bt_insert)
            ultimately show ?thesis using shape(5) length_remove_le [of n "bt_insert d c ?m'"] by simp
          next
            case False
            then have "?w \<noteq> n" using own shape(3) e by auto
            then have "Suc (length (bt_remove n ?m')) = length (bt_remove n ?m)"
              using length_bt_remove [of "bt_remove n ?m" ?w] shape(1) e(1) by (simp add: remove_commute)
            then show ?thesis using shape length_remove_insert [of ?m' n d c] by (simp split: if_splits)
          qed
        qed
        then show ?thesis using None mine ok full False by (simp add: absorb_monitors_def Let_def)
      qed
    qed
  qed
qed

lemma seq_of_le: "seq_of v = Some n \<Longrightarrow> n \<le> MAX_SEQ"
  by (auto simp: seq_of_def bind_Some_iff split: if_splits)

lemma those_length: "those (map f xs) = Some ys \<Longrightarrow> length ys = length xs"
  by (auto simp: those_Some_iff dest: map_eq_imp_length_eq)

lemma monitor_from_sane: "monitor_from v = Some m \<Longrightarrow> is_sane m"
  by (auto simp: monitor_from_def bind_Some_iff Let_def split: if_splits)

lemma those_all:
  assumes "those (map f xs) = Some ys" "\<And>x y. x \<in> set xs \<Longrightarrow> f x = Some y \<Longrightarrow> P y"
  shows "list_all P ys"
proof -
  have "P y" if "y \<in> set ys" for y
  proof -
    have "Some y \<in> set (map f xs)" using assms(1) that by (simp add: those_Some_iff)
    then show ?thesis using assms(2) by auto
  qed
  then show ?thesis by (simp add: list_all_iff)
qed

lemma read_ok: "read_monitors vf p q = Some e \<Longrightarrow> entry_ok e"
  using those_length those_all [of monitor_from _ _ is_sane] monitor_from_sane seq_of_le
  by (fastforce simp: read_monitors_def entry_ok_def bind_Some_iff split: prod.splits if_splits)

lemma spot_from_key: "spot_from q = Some r \<Longrightarrow> fst r = fst q"
  by (auto simp: spot_from_def bind_Some_iff split: if_splits)

lemma spots_keys: "those (map spot_from m) = Some spots \<Longrightarrow> map fst spots = map fst m"
  by (induction m arbitrary: spots) (auto split: option.splits dest: spot_from_key)

lemma placement_from_ok:
  assumes "json_ok v" "placement_from v = Some a" "spots_bytes (pl_spots a) \<le> MAX_PLACEMENT_BYTES"
  shows "placement_ok a"
proof -
  obtain b seq sig j m where parts: "is_hex64 b" "seq_of v = Some seq" "jget v ''spots'' = Some (JObj m)"
      "\<not> MAX_SPOTS < length m" "those (map spot_from m) = Some (pl_spots a)" "pl_by a = b" "pl_seq a = seq"
    using assms(2) by (auto simp: placement_from_def bind_Some_iff split: if_splits)
  have "bt_ok m" using json_ok_jget [OF assms(1) parts(3)] by simp
  then have "bt_ok (pl_spots a)" using spots_keys [OF parts(5)] by (simp add: bt_ok_def)
  moreover have "list_all (\<lambda>q. split_spot_key (fst q) \<noteq> None \<and> in_extent (sp_x (snd q)) \<and> in_extent (sp_y (snd q))) (pl_spots a)"
    by (rule those_all [OF parts(5)]) (auto simp: spot_from_def bind_Some_iff split: if_splits)
  ultimately show ?thesis using parts assms(3) seq_of_le [OF parts(2)] those_length [OF parts(5)]
    by (simp add: placement_ok_def spots_ok_def)
qed

lemma monitors_of_ok: "monitors_of vf p v = Some es \<Longrightarrow> list_all entry_ok es"
  using those_all [of "read_monitors vf p" _ _ entry_ok] read_ok
  by (fastforce simp: monitors_of_def split: option.splits json.splits if_splits)

lemma placement_of_ok:
  assumes "\<And>w. v = Some w \<Longrightarrow> json_ok w" "placement_of v = Some (Some a)"
  shows "placement_ok a"
proof -
  obtain w where "v = Some w" "placement_from w = Some a" "spots_bytes (pl_spots a) \<le> MAX_PLACEMENT_BYTES"
    using assms(2) by (cases v; cases "the v") (auto simp: placement_of_def split: option.splits if_splits)
  then show ?thesis using placement_from_ok assms(1) by blast
qed

lemma absorb_entries_ok:
  "list_all entry_ok es \<Longrightarrow> plane_ok n (snd gp) \<Longrightarrow> plane_ok n (snd (foldl absorb_entry_of gp es))"
  by (induction es arbitrary: gp) (auto simp: absorb_entry_of_def case_prod_beta absorb_ok)

lemma absorb_placement_ok: "plane_ok n p \<Longrightarrow> placement_ok a \<Longrightarrow> plane_ok n (snd (absorb_placement vf a p))"
  by (auto simp: absorb_placement_def Let_def plane_ok_def placement_ok_def split: option.splits)

lemma merge_ok:
  assumes "plane_ok n p" "json_ok doc" "f \<noteq> n"
  shows "plane_ok n (snd (merge_doc vf f doc p))"
proof -
  let ?pin = "case str_of doc ''key'' of None \<Rightarrow> (False, p) | Some key \<Rightarrow> pin_plane vf f key p"
  have pin: "plane_ok n (snd ?pin)" using assms pin_ok by (auto split: option.splits)
  have placed: "placement_ok a" if "placement_of (jget doc ''placement'') = Some (Some a)" for a
    using placement_of_ok [OF _ that] json_ok_jget [OF assms(2)] by blast
  obtain b q where q: "?pin = (b, q)" by fastforce
  then have okq: "plane_ok n q" using pin by simp
  show ?thesis
  proof (cases "str_of doc ''d'' = Some INPUT_DIALECT")
    case False
    then show ?thesis using assms(1) by (simp add: merge_doc_def)
  next
    case True
    show ?thesis
    proof (cases "monitors_of vf q (jget doc ''monitors'')")
      case None
      then show ?thesis using True okq by (simp add: merge_doc_def Let_def q)
    next
      case (Some es)
      have okh: "plane_ok n (snd (foldl absorb_entry_of (g, q) es))" for g
        using absorb_entries_ok [OF monitors_of_ok [OF Some]] okq by simp
      show ?thesis
      proof (cases "placement_of (jget doc ''placement'')")
        case None
        then show ?thesis using True okq Some by (simp add: merge_doc_def Let_def q)
      next
        case placement: (Some a)
        show ?thesis
        proof (cases a)
          case None
          then show ?thesis using True okh Some placement by (simp add: merge_doc_def Let_def q case_prod_beta)
        next
          case (Some c)
          then show ?thesis using True absorb_placement_ok [OF okh placed] \<open>monitors_of _ _ _ = _\<close> placement
            by (simp add: merge_doc_def Let_def q case_prod_beta)
        qed
      qed
    qed
  qed
qed

lemma plane_step_ok:
  assumes "plane_ok n p" "is_hex64 (ii_public_hex idn) \<and> plane_op_ok n op"
  shows "plane_ok n (plane_step vf n idn p op)"
  using assms pin_ok own_ok publish_ok place_ok merge_ok by (cases op) (simp_all add: plane_step_def)

interpretation plane_run: op_invariant "plane_step vf n idn" "\<lambda>op. is_hex64 (ii_public_hex idn) \<and> plane_op_ok n op" "plane_ok n"
  for vf n idn
  by unfold_locales (rule plane_step_ok)

text \<open>
  C29. Whatever a device pins, publishes, drags and is told by others, its plane keeps its shape: entries
  and arrangements within every bound of the document, maps in key order, at most \<open>MAX_DEVICES\<close> other
  devices, well-formed pins, and its own word never an unverified one.
\<close>

theorem the_plane_keeps_its_shape:
  assumes "is_hex64 (ii_public_hex idn)" "list_all (plane_op_ok n) ops"
  shows "plane_ok n (foldl (plane_step vf n idn) plane_default ops)"
  using assms by (intro plane_run.run [OF plane_ok_default]) (simp add: list_all_iff)

section \<open>What is written reads back\<close>

lemma as_i64_small: "- (2 ^ 31) \<le> i \<Longrightarrow> i < 2 ^ 31 \<Longrightarrow> as_i64 (of_i64 i) = Some i"
  by (rule as_i64_of_i64) simp

lemma i32_field_of: "I32_MIN \<le> i \<Longrightarrow> i \<le> I32_MAX \<Longrightarrow> jget v k = Some (of_i64 i) \<Longrightarrow> i32_field v k = Some i"
  by (simp add: i32_field_def as_i64_small I32_MIN_def I32_MAX_def)

lemma extent_i32: "in_extent i \<Longrightarrow> I32_MIN \<le> i \<and> i \<le> I32_MAX"
  by (simp add: in_extent_def I32_MIN_def I32_MAX_def MAX_EXTENT_def)

lemma monitor_back: "is_sane m \<Longrightarrow> monitor_from (monitor_to m) = Some m"
proof -
  assume sane: "is_sane m"
  have scale: "I32_MIN \<le> mo_scale m" "mo_scale m \<le> I32_MAX"
    using sane by (auto simp: is_sane_def I32_MIN_def I32_MAX_def)
  have ext: "in_extent (mo_w m)" "in_extent (mo_h m)" "in_extent (mo_x m)" "in_extent (mo_y m)"
    using sane by (simp_all add: is_sane_def)
  have "i32_field (monitor_to m) ''w'' = Some (mo_w m)" "i32_field (monitor_to m) ''h'' = Some (mo_h m)"
    "i32_field (monitor_to m) ''x'' = Some (mo_x m)" "i32_field (monitor_to m) ''y'' = Some (mo_y m)"
    "i32_field (monitor_to m) ''scale'' = Some (mo_scale m)"
    using scale ext extent_i32 by (auto intro!: i32_field_of simp: monitor_to_def jget_jobj)
  moreover have "str_of (monitor_to m) ''id'' = Some (mo_id m)" "str_of (monitor_to m) ''name'' = Some (mo_name m)"
    "bool_of (monitor_to m) ''primary'' = Some (mo_primary m)"
    by (simp_all add: str_of_def bool_of_def monitor_to_def jget_jobj)
  moreover have "is_sane \<lparr>mo_id = mo_id m, mo_name = mo_name m, mo_w = mo_w m, mo_h = mo_h m, mo_x = mo_x m, mo_y = mo_y m,
      mo_scale = mo_scale m, mo_primary = mo_primary m\<rparr>" using sane by (cases m) simp
  ultimately show ?thesis by (simp add: monitor_from_def Let_def)
qed

lemma monitors_back: "list_all is_sane ms \<Longrightarrow> those (map monitor_from (map monitor_to ms)) = Some ms"
  by (induction ms) (auto simp: monitor_back)

lemma seq_back: "n \<le> MAX_SEQ \<Longrightarrow> jget v ''seq'' = Some (of_u64 n) \<Longrightarrow> seq_of v = Some n"
  by (simp add: seq_of_def MAX_SEQ_def)

definition held_as :: "(string \<Rightarrow> string \<Rightarrow> string \<Rightarrow> bool) \<Rightarrow> plane \<Rightarrow> string \<Rightarrow> monitors_entry \<Rightarrow> bool" where
  "held_as vf p d e =
     (case map_of (pn_pins p) d of None \<Rightarrow> False | Some key \<Rightarrow> vf key (monitors_bytes d (me_seq e) (me_list e)) (me_sig e))"

lemma entry_back:
  assumes "entry_ok (d, e)" "jget v ''seq'' = Some (of_u64 (me_seq e))" "jget v ''sig'' = Some (JStr (me_sig e))"
    "jget v ''list'' = Some (JArr (map monitor_to (me_list e)))"
  shows "read_monitors vf p (d, v) = Some (d, e\<lparr>me_verified := held_as vf p d e\<rparr>)"
  using assms monitors_back [of "me_list e"] seq_back [OF _ assms(2)]
  by (simp add: read_monitors_def entry_ok_def str_of_def held_as_def comp_def)

lemma spot_back: "split_spot_key k \<noteq> None \<Longrightarrow> in_extent (sp_x sp) \<Longrightarrow> in_extent (sp_y sp) \<Longrightarrow> spot_from (k, spot_json sp) = Some (k, sp)"
  using extent_i32 i32_field_of [of "sp_x sp" "spot_json sp" "''x''"] i32_field_of [of "sp_y sp" "spot_json sp" "''y''"]
  by (auto simp: spot_from_def spot_json_def jget_jobj)

lemma spots_back: "spots_ok s \<Longrightarrow> those (map spot_from (map (\<lambda>p. (fst p, spot_json (snd p))) s)) = Some s"
proof -
  assume "spots_ok s"
  then have "list_all (\<lambda>q. split_spot_key (fst q) \<noteq> None \<and> in_extent (sp_x (snd q)) \<and> in_extent (sp_y (snd q))) s"
    by (simp add: spots_ok_def)
  then show ?thesis by (induction s) (auto simp: spot_back)
qed

lemma jobj_map: "bt_ok m \<Longrightarrow> jobj (map (\<lambda>p. (fst p, f (snd p))) m) = JObj (map (\<lambda>p. (fst p, f (snd p))) m)"
  by (simp add: jobj_def bt_of_list_id bt_ok_map_snd)

lemma placement_back: "placement_ok a \<Longrightarrow> placement_from (placement_json a) = Some (a\<lparr>pl_verified := False\<rparr>)"
proof -
  assume ok: "placement_ok a"
  then have spots: "spots_ok (pl_spots a)" "bt_ok (pl_spots a)" by (simp_all add: placement_ok_def spots_ok_def)
  have fields: "jget (placement_json a) ''by'' = Some (JStr (pl_by a))" "jget (placement_json a) ''sig'' = Some (JStr (pl_sig a))"
    "jget (placement_json a) ''at'' = Some (of_u64 (pl_at a))"
    "jget (placement_json a) ''spots'' = Some (JObj (map (\<lambda>p. (fst p, spot_json (snd p))) (pl_spots a)))"
    "jget (placement_json a) ''seq'' = Some (of_u64 (pl_seq a))"
    using jobj_map [OF spots(2)] by (simp_all add: placement_json_def jget_jobj)
  show ?thesis using ok spots_back [OF spots(1)] seq_back [OF _ fields(5)] fields
    by (simp add: placement_from_def str_of_def placement_ok_def spots_ok_def comp_def)
qed

section \<open>The plane file\<close>

definition faithful :: "(string \<Rightarrow> string \<Rightarrow> string \<Rightarrow> bool) \<Rightarrow> plane \<Rightarrow> bool" where
  "faithful vf p \<longleftrightarrow>
     list_all (\<lambda>q. me_verified (snd q) = held_as vf p (fst q) (snd q)) (pn_monitors p) \<and>
     pred_option (\<lambda>a. case map_of (pn_pins p) (pl_by a) of
         None \<Rightarrow> \<not> pl_verified a
       | Some key \<Rightarrow> pl_verified a \<and> vf key (placement_bytes (pl_by a) (pl_seq a) (pl_spots a)) (pl_sig a)) (pn_placement p)"

definition stored_entry :: "string \<times> monitors_entry \<Rightarrow> string \<times> json" where
  "stored_entry e = (fst e, jobj (entry_fields (snd e) @ [(''verified'', JBool (me_verified (snd e)))]))"

definition stored_fields :: "plane \<Rightarrow> (string \<times> json) list" where
  "stored_fields p =
     [(''d'', JStr INPUT_DIALECT), (''t'', JStr ''layout''), (''monitors'', JObj (map stored_entry (pn_monitors p))),
      (''pins'', JObj (map (\<lambda>q. (fst q, JStr (snd q))) (pn_pins p)))] @
     opt_field ''placement'' (map_option placement_json (pn_placement p))"

lemma stored_is: "plane_ok n p \<Longrightarrow> to_stored p = jobj (stored_fields p)"
  using jobj_map [of "pn_monitors p" "\<lambda>e. jobj (entry_fields e @ [(''verified'', JBool (me_verified e))])"]
    jobj_map [of "pn_pins p" JStr]
  by (simp add: to_stored_def stored_fields_def stored_entry_def [abs_def] plane_ok_def pins_ok_def)

lemma stored_distinct: "distinct (map fst (stored_fields p))"
  by (simp add: stored_fields_def opt_field_def split: option.splits)

lemma stored_get:
  "jget (jobj (stored_fields p)) ''d'' = Some (JStr INPUT_DIALECT)" "jget (jobj (stored_fields p)) ''key'' = None"
  "jget (jobj (stored_fields p)) ''monitors'' = Some (JObj (map stored_entry (pn_monitors p)))"
  "jget (jobj (stored_fields p)) ''pins'' = Some (JObj (map (\<lambda>q. (fst q, JStr (snd q))) (pn_pins p)))"
  "jget (jobj (stored_fields p)) ''placement'' = map_option placement_json (pn_placement p)"
  unfolding jget_jobj [OF stored_distinct] by (simp_all add: stored_fields_def opt_field_def split: option.splits)

lemma as_received:
  "JObj (bt_remove ''key'' (bt_insert ''d'' (JStr INPUT_DIALECT) (bt_of_list (stored_fields p)))) = jobj (stored_fields p)"
proof -
  have m: "map_of (bt_of_list (stored_fields p)) k = map_of (stored_fields p) k" for k
    by (simp add: map_of_bt_of_list_distinct stored_distinct)
  have "bt_insert ''d'' (JStr INPUT_DIALECT) (bt_of_list (stored_fields p)) = bt_of_list (stored_fields p)"
    by (rule bt.put_id) (simp_all add: m, simp add: stored_fields_def)
  moreover have "bt_remove ''key'' (bt_of_list (stored_fields p)) = bt_of_list (stored_fields p)"
    by (rule bt.del_absent) (simp_all add: m, simp add: stored_fields_def opt_field_def split: option.splits)
  ultimately show ?thesis by (simp add: jobj_def)
qed

lemma bt_of_list_snoc: "bt_of_list (qs @ [q]) = bt_insert (fst q) (snd q) (bt_of_list qs)"
  by (simp add: bt_of_list_def)

lemma pin_bare:
  "pn_monitors p = [] \<Longrightarrow> pn_placement p = None \<Longrightarrow> bt_ok (pn_pins p) \<Longrightarrow> is_hex64 d \<Longrightarrow> is_hex64 k \<Longrightarrow>
   snd (pin_plane vf d k p) = p\<lparr>pn_pins := bt_insert d k (pn_pins p)\<rparr>"
  using bt.put_id [of "pn_pins p" d k] by (simp add: pin_plane_def bt_adjust_def recheck_placement_def)

lemma pins_back:
  assumes "plane_ok n p"
  shows "stored_pins vf (jobj (stored_fields p)) = plane_default\<lparr>pn_pins := pn_pins p\<rparr>"
proof -
  have "foldl (\<lambda>p q. case as_str (snd q) of None \<Rightarrow> p | Some key \<Rightarrow> snd (pin_plane vf (fst q) key p)) plane_default
      (map (\<lambda>q. (fst q, JStr (snd q))) qs) = plane_default\<lparr>pn_pins := bt_of_list qs\<rparr>"
    if "list_all (\<lambda>q. is_hex64 (fst q) \<and> is_hex64 (snd q)) qs" for qs
    using that
  proof (induction qs rule: rev_induct)
    case Nil
    then show ?case by (simp add: plane_default_def bt_of_list_def)
  next
    case (snoc q qs)
    then show ?case using pin_bare [of "plane_default\<lparr>pn_pins := bt_of_list qs\<rparr>" "fst q" "snd q" vf]
      by (simp add: plane_default_def bt_of_list_snoc)
  qed
  then show ?thesis using assms by (simp add: stored_pins_def stored_get plane_ok_def pins_ok_def bt_of_list_id)
qed

lemma entries_back:
  assumes "list_all entry_ok ms" "list_all (\<lambda>q. me_verified (snd q) = held_as vf p (fst q) (snd q)) ms"
  shows "those (map (read_monitors vf p) (map stored_entry ms)) = Some ms"
  using assms
proof (induction ms)
  case (Cons q ms)
  obtain d e where q: "q = (d, e)" by fastforce
  have "read_monitors vf p (stored_entry q) = Some (d, e\<lparr>me_verified := held_as vf p d e\<rparr>)"
    unfolding stored_entry_def q fst_conv snd_conv
    using Cons.prems q by (intro entry_back) (simp_all add: entry_fields_def jget_jobj)
  then show ?case using Cons by (simp add: q)
qed simp

lemma absorb_all:
  assumes "pn_monitors p = []" "pn_own p = []" "distinct (map fst es)" "length es \<le> MAX_DEVICES"
  shows "snd (foldl absorb_entry_of (g, p) es) = p\<lparr>pn_monitors := bt_of_list es\<rparr>"
  using assms(3,4)
proof (induction es rule: rev_induct)
  case Nil
  then show ?case using assms(1) by (simp add: bt_of_list_def)
next
  case (snoc q es)
  have "map_of (bt_of_list es) (fst q) = None" using snoc.prems
    by (simp add: map_of_bt_of_list_distinct map_of_eq_None_iff)
  moreover have "length (bt_of_list es) < MAX_DEVICES" using snoc.prems by (simp add: length_bt_of_list)
  ultimately show ?case using snoc assms(2) by (simp add: bt_of_list_snoc absorb_entry_of_def case_prod_beta absorb_monitors_def Let_def)
qed

lemma arrangement_back:
  assumes "pred_option placement_ok (pn_placement p)"
  shows "placement_of (jget (jobj (stored_fields p)) ''placement'') =
    Some (map_option (\<lambda>a. a\<lparr>pl_verified := False\<rparr>) (pn_placement p))"
proof (cases "pn_placement p")
  case (Some a)
  moreover obtain m where "placement_json a = JObj m" by (simp add: placement_json_def jobj_def)
  ultimately show ?thesis using assms placement_back [of a]
    by (simp add: stored_get placement_of_def placement_ok_def spots_ok_def)
qed (simp add: stored_get placement_of_def)

lemma restored:
  assumes ok: "plane_ok n p"
  shows "from_stored vf (to_stored p) =
     Some (snd (merge_doc vf [] (jobj (stored_fields p)) (plane_default\<lparr>pn_pins := pn_pins p\<rparr>)))"
proof -
  have doc: "to_stored p = JObj (bt_of_list (stored_fields p))" using stored_is [OF ok] by (simp add: jobj_def)
  have pins: "stored_pins vf (JObj (bt_of_list (stored_fields p))) = plane_default\<lparr>pn_pins := pn_pins p\<rparr>"
    using pins_back [OF ok, of vf] by (simp add: jobj_def)
  show ?thesis unfolding from_stored_def doc by (simp add: pins as_received)
qed

lemma dialect_back: "str_of (jobj (stored_fields p)) ''d'' = Some INPUT_DIALECT" "str_of (jobj (stored_fields p)) ''key'' = None"
  by (simp_all add: str_of_def stored_get)

text \<open>
  A plane of at most \<open>MAX_DEVICES\<close> entries, whose verified flags say what its pins say, comes back
  from its file whole: every entry, claim, flag, pin and the arrangement, all but the own name, which
  the file does not carry.
\<close>

theorem the_plane_file_brings_it_back:
  assumes ok: "plane_ok n p" and honest: "faithful vf p" and few: "length (pn_monitors p) \<le> MAX_DEVICES"
  shows "from_stored vf (to_stored p) = Some (p\<lparr>pn_own := []\<rparr>)"
proof -
  let ?q = "plane_default\<lparr>pn_pins := pn_pins p\<rparr>"
  have shape: "list_all entry_ok (pn_monitors p)" "bt_ok (pn_monitors p)" "pred_option placement_ok (pn_placement p)"
    using ok by (simp_all add: plane_ok_def)
  have "held_as vf ?q = held_as vf p" by (simp add: held_as_def fun_eq_iff)
  then have flags: "list_all (\<lambda>q. me_verified (snd q) = held_as vf ?q (fst q) (snd q)) (pn_monitors p)"
    using honest by (simp add: faithful_def)
  have mon: "monitors_of vf ?q (jget (jobj (stored_fields p)) ''monitors'') = Some (pn_monitors p)"
    using entries_back [OF shape(1) flags] few by (simp add: stored_get monitors_of_def)
  have all: "snd (foldl absorb_entry_of (g, ?q) (pn_monitors p)) = ?q\<lparr>pn_monitors := pn_monitors p\<rparr>" for g
    using absorb_all [of ?q "pn_monitors p" g] bt_ok_distinct [OF shape(2)] few shape(2)
    by (simp add: plane_default_def bt_of_list_id)
  show ?thesis
  proof (cases "pn_placement p")
    case None
    have "snd (merge_doc vf [] (jobj (stored_fields p)) ?q) = ?q\<lparr>pn_monitors := pn_monitors p\<rparr>"
      using mon arrangement_back [OF shape(3)] None all by (simp add: merge_doc_def dialect_back Let_def case_prod_beta)
    then show ?thesis unfolding restored [OF ok] using None by (simp add: plane_default_def)
  next
    case (Some a)
    have "snd (merge_doc vf [] (jobj (stored_fields p)) ?q) =
        snd (absorb_placement vf (a\<lparr>pl_verified := False\<rparr>) (?q\<lparr>pn_monitors := pn_monitors p\<rparr>))"
      using mon arrangement_back [OF shape(3)] Some all by (simp add: merge_doc_def dialect_back Let_def case_prod_beta)
    also have "\<dots> = p\<lparr>pn_own := []\<rparr>"
      using honest Some by (auto simp: absorb_placement_def plane_default_def faithful_def Let_def split: option.splits)
    finally show ?thesis unfolding restored [OF ok] by simp
  qed
qed

text \<open>
  C30. A device whose table is full when it first publishes its screens stores one entry more than any
  document may hold, and its next start refuses the whole file: no entry, no arrangement, and its own
  sequence number gone with them.
\<close>

theorem a_full_table_is_lost_at_restart:
  assumes ok: "plane_ok n p" and key: "is_hex64 (ii_public_hex idn)" and name: "is_hex64 n"
    and full: "length (pn_monitors p) = MAX_DEVICES" and absent: "map_of (pn_monitors p) n = None"
  shows "from_stored vf (to_stored (snd (publish_monitors n idn ms p))) =
    Some (plane_default\<lparr>pn_pins := bt_insert n (ii_public_hex idn) (pn_pins p)\<rparr>)"
proof -
  let ?r = "snd (publish_monitors n idn ms p)"
  have own: "snd (set_own n p) = p\<lparr>pn_own := n\<rparr>" using name absent by (simp add: set_own_def Let_def)
  have r: "?r = p\<lparr>pn_own := n, pn_pins := bt_insert n (ii_public_hex idn) (pn_pins p),
      pn_monitors := bt_insert n (own_word n idn (next_seq None) (publishable ms)) (pn_monitors p)\<rparr>"
    using name absent by (simp add: publish_result own unchanged_def)
  have "bt_ok (pn_monitors p)" using ok by (simp add: plane_ok_def)
  then have "MAX_DEVICES < length (pn_monitors ?r)" using full absent by (simp add: r length_bt_insert)
  then have "monitors_of vf q (jget (jobj (stored_fields ?r)) ''monitors'') = None" for q
    by (simp add: stored_get monitors_of_def)
  then have "snd (merge_doc vf [] (jobj (stored_fields ?r)) q) = q" for q
    by (simp add: merge_doc_def dialect_back Let_def)
  then show ?thesis unfolding restored [OF publish_ok [OF ok key]] by (simp add: r)
qed

end
