(* ===== verification/PlaneFacts.thy ===== *)
theory PlaneFacts
  imports PlaneStore
begin

text \<open>
  The layout document converges where its signatures bind: the verified words are the newest of each
  device and the arrangement is the highest in rank, in whatever order and company the statements come.
  Where they do not bind, two devices can disagree for ever.
\<close>

section \<open>Verified words\<close>

definition visible :: "plane \<Rightarrow> string \<Rightarrow> monitors_entry option" where
  "visible p d = (case map_of (pn_monitors p) d of None \<Rightarrow> None | Some e \<Rightarrow> if me_verified e then Some e else None)"

definition hear_words :: "plane \<Rightarrow> (string \<times> monitors_entry) list \<Rightarrow> plane" where
  "hear_words p ws = foldl (\<lambda>p w. snd (absorb_monitors (fst w) (snd w) p)) p ws"

definition foreign :: "plane \<Rightarrow> string \<Rightarrow> bool" where
  "foreign p d \<longleftrightarrow> pn_own p = [] \<or> d \<noteq> pn_own p"

lemma claims_empty: "claims p = [] \<longleftrightarrow> (\<forall>q \<in> set (pn_monitors p). me_verified (snd q))"
  by (auto simp: claims_def filter_empty_conv)

lemma worst_claim:
  assumes "claims p \<noteq> []" "bt_ok (pn_monitors p)"
  obtains e where "map_of (pn_monitors p) (last (claims p)) = Some e" "\<not> me_verified e"
proof -
  have "last (claims p) \<in> set (claims p)" using assms(1) by (rule last_in_set)
  then obtain e where "(last (claims p), e) \<in> set (pn_monitors p)" "\<not> me_verified e" by (auto simp: claims_def)
  with bt_ok_distinct [OF assms(2)] that show thesis by (simp add: map_of_eq_Some_iff)
qed

lemma absorb_frame:
  "pn_own (snd (absorb_monitors d c p)) = pn_own p" "pn_pins (snd (absorb_monitors d c p)) = pn_pins p"
  "pn_placement (snd (absorb_monitors d c p)) = pn_placement p"
  by (simp_all add: absorb_monitors_def Let_def split: option.splits)

lemma absorb_bt: "bt_ok (pn_monitors p) \<Longrightarrow> bt_ok (pn_monitors (snd (absorb_monitors d c p)))"
  by (simp add: absorb_monitors_def Let_def split: option.splits)

text \<open>One statement, as the verified part sees it.\<close>

lemma absorb_visible:
  assumes "bt_ok (pn_monitors p)"
    and room: "me_verified c \<Longrightarrow> map_of (pn_monitors p) d = None \<Longrightarrow> MAX_DEVICES \<le> length (pn_monitors p) \<Longrightarrow> claims p \<noteq> []"
  shows "visible (snd (absorb_monitors d c p)) x =
    (if x = d \<and> foreign p d \<and> me_verified c \<and> (\<forall>e. visible p d = Some e \<longrightarrow> me_seq e < me_seq c) then Some c else visible p x)"
proof (cases "foreign p d")
  case False
  then show ?thesis by (auto simp: absorb_monitors_def foreign_def)
next
  case True
  show ?thesis
  proof (cases "map_of (pn_monitors p) d")
    case (Some held)
    then show ?thesis using True by (auto simp: absorb_monitors_def foreign_def visible_def Let_def)
  next
    case None
    then have none: "visible p d = None" by (simp add: visible_def)
    show ?thesis
    proof (cases "MAX_DEVICES \<le> length (pn_monitors p)")
      case False
      then show ?thesis using True None by (auto simp: absorb_monitors_def foreign_def visible_def Let_def)
    next
      case full: True
      show ?thesis
      proof (cases "claims p = []")
        case True
        then have "\<not> me_verified c" using room None full by blast
        then show ?thesis using True None full by (auto simp: absorb_monitors_def visible_def Let_def)
      next
        case False
        obtain e where "map_of (pn_monitors p) (last (claims p)) = Some e" "\<not> me_verified e"
          by (rule worst_claim [OF False assms(1)])
        then show ?thesis using True None full False by (auto simp: absorb_monitors_def foreign_def visible_def Let_def)
      qed
    qed
  qed
qed

definition verified_words :: "(string \<times> monitors_entry) list \<Rightarrow> (string \<times> monitors_entry) set" where
  "verified_words ws = {w \<in> set ws. me_verified (snd w)}"

lemma hear_frame: "pn_own (hear_words p ws) = pn_own p" "pn_pins (hear_words p ws) = pn_pins p"
  "bt_ok (pn_monitors p) \<Longrightarrow> bt_ok (pn_monitors (hear_words p ws))"
  by (induction ws rule: rev_induct) (simp_all add: hear_words_def absorb_frame absorb_bt)

lemma hear_visible:
  assumes bt: "bt_ok (pn_monitors p)" and none: "\<And>d. visible p d = None"
    and few: "card (fst ` verified_words ws) \<le> MAX_DEVICES"
  shows "visible (hear_words p ws) d = Some e \<Longrightarrow>
      foreign p d \<and> (d, e) \<in> verified_words ws \<and> (\<forall>e'. (d, e') \<in> verified_words ws \<longrightarrow> me_seq e' \<le> me_seq e)"
    and "foreign p d \<Longrightarrow> (d, e) \<in> verified_words ws \<Longrightarrow> visible (hear_words p ws) d \<noteq> None"
  using few
proof (induction ws arbitrary: d e rule: rev_induct)
  case Nil
  {
    case 1
    then show ?case using none by (simp add: hear_words_def)
  next
    case 2
    then show ?case by (simp add: verified_words_def)
  }
next
  case (snoc w ws)
  obtain n c where w: "w = (n, c)" by fastforce
  let ?q = "hear_words p ws"
  have q: "hear_words p (ws @ [w]) = snd (absorb_monitors n c ?q)" by (simp add: hear_words_def w)
  have "verified_words ws \<subseteq> verified_words (ws @ [w])" by (auto simp: verified_words_def)
  moreover have fin: "finite (fst ` verified_words (ws @ [w]))" by (simp add: verified_words_def)
  ultimately have few': "card (fst ` verified_words ws) \<le> MAX_DEVICES" if "card (fst ` verified_words (ws @ [w])) \<le> MAX_DEVICES"
    using that by (meson card_mono image_mono le_trans)
  have room: "claims ?q \<noteq> []"
    if "me_verified c" "map_of (pn_monitors ?q) n = None" "MAX_DEVICES \<le> length (pn_monitors ?q)"
      "card (fst ` verified_words (ws @ [w])) \<le> MAX_DEVICES"
  proof
    assume "claims ?q = []"
    then have all: "\<forall>r \<in> set (pn_monitors ?q). me_verified (snd r)" by (simp add: claims_empty)
    have btq: "bt_ok (pn_monitors ?q)" by (rule hear_frame(3) [OF bt])
    have "fst ` set (pn_monitors ?q) \<subseteq> fst ` verified_words ws"
    proof
      fix k assume "k \<in> fst ` set (pn_monitors ?q)"
      then obtain e where "(k, e) \<in> set (pn_monitors ?q)" by auto
      then have "visible ?q k = Some e" using all bt_ok_distinct [OF btq] by (fastforce simp: visible_def)
      then show "k \<in> fst ` verified_words ws" using snoc.IH(1) few' [OF that(4)] by force
    qed
    moreover have "n \<notin> fst ` set (pn_monitors ?q)" using that(2) by (simp add: map_of_eq_None_iff)
    moreover have "n \<in> fst ` verified_words (ws @ [w])" using that(1) by (force simp: verified_words_def w)
    ultimately have "insert n (fst ` set (pn_monitors ?q)) \<subseteq> fst ` verified_words (ws @ [w])"
      by (auto simp: verified_words_def)
    then have "card (insert n (fst ` set (pn_monitors ?q))) \<le> MAX_DEVICES" using that(4) fin by (meson card_mono le_trans)
    moreover have "card (fst ` set (pn_monitors ?q)) = length (pn_monitors ?q)"
      using bt_ok_distinct [OF btq] distinct_card [of "map fst (pn_monitors ?q)"] by simp
    ultimately show False using that(3) \<open>n \<notin> _\<close> by simp
  qed
  have foreign: "foreign ?q n \<longleftrightarrow> foreign p n" by (simp add: foreign_def hear_frame)
  have words: "verified_words (ws @ [w]) = verified_words ws \<union> (if me_verified c then {(n, c)} else {})"
    by (auto simp: verified_words_def w)
  have step: "visible (hear_words p (ws @ [w])) d =
    (if d = n \<and> foreign p n \<and> me_verified c \<and> (\<forall>e. visible ?q n = Some e \<longrightarrow> me_seq e < me_seq c) then Some c
     else visible ?q d)" if "card (fst ` verified_words (ws @ [w])) \<le> MAX_DEVICES" for d
    unfolding q foreign [symmetric] using absorb_visible [OF hear_frame(3) [OF bt], of c ws n d] room [OF _ _ _ that] by blast
  {
    case 1
    note IH = snoc.IH(1) [OF _ few' [OF 1(2)]]
    show ?case
    proof (cases "d = n \<and> foreign p n \<and> me_verified c \<and> (\<forall>e. visible ?q n = Some e \<longrightarrow> me_seq e < me_seq c)")
      case True
      then have "e = c" using 1 step by simp
      moreover have "me_seq e' \<le> me_seq c" if word: "(n, e') \<in> verified_words ws" for e'
      proof -
        obtain h where "visible ?q n = Some h"
          using snoc.IH(2) [OF _ word few' [OF 1(2)]] True by blast
        then show ?thesis using IH word True by fastforce
      qed
      ultimately show ?thesis using True by (auto simp: words)
    next
      case False
      have v: "visible ?q d = Some e" using 1(1) unfolding step [OF 1(2)] if_not_P [OF False] .
      from IH [OF v] show ?thesis using False v by (auto simp: words not_less split: if_splits)
    qed
  next
    case 2
    show ?case
    proof (cases "(d, e) \<in> verified_words ws")
      case True
      then show ?thesis using snoc.IH(2) [OF 2(1) True few' [OF 2(3)]] step [OF 2(3)] by simp
    next
      case False
      then have "d = n" "e = c" "me_verified c" using 2(2) by (auto simp: words split: if_splits)
      then show ?thesis using step [OF 2(3)] 2(1) by (cases "visible ?q n") auto
    qed
  }
qed

section \<open>Delivering documents\<close>

text \<open>A document whose key claim pins nothing new: none, malformed, or the key already held.\<close>

definition key_settled :: "plane \<Rightarrow> string \<times> json \<Rightarrow> bool" where
  "key_settled p fd \<longleftrightarrow>
     (case str_of (snd fd) ''key'' of
        None \<Rightarrow> True
      | Some key \<Rightarrow> \<not> is_hex64 (fst fd) \<or> \<not> is_hex64 key \<or> map_of (pn_pins p) (fst fd) = Some key)"

definition doc_parts ::
  "(string \<Rightarrow> string \<Rightarrow> string \<Rightarrow> bool) \<Rightarrow> plane \<Rightarrow> json \<Rightarrow> (string \<times> monitors_entry) list \<times> placement option" where
  "doc_parts vf p doc =
     (if str_of doc ''d'' \<noteq> Some INPUT_DIALECT then ([], None)
      else case (monitors_of vf p (jget doc ''monitors''), placement_of (jget doc ''placement'')) of
             (Some entries, Some a) \<Rightarrow> (entries, a)
           | _ \<Rightarrow> ([], None))"

definition hear_docs :: "(string \<Rightarrow> string \<Rightarrow> string \<Rightarrow> bool) \<Rightarrow> (string \<times> json) list \<Rightarrow> plane \<Rightarrow> plane" where
  "hear_docs vf docs p = foldl (\<lambda>p fd. snd (merge_doc vf (fst fd) (snd fd) p)) p docs"

definition words_in :: "(string \<Rightarrow> string \<Rightarrow> string \<Rightarrow> bool) \<Rightarrow> plane \<Rightarrow> (string \<times> json) list \<Rightarrow> (string \<times> monitors_entry) list" where
  "words_in vf p docs = concat (map (\<lambda>fd. fst (doc_parts vf p (snd fd))) docs)"

definition arrangements_in :: "(string \<Rightarrow> string \<Rightarrow> string \<Rightarrow> bool) \<Rightarrow> plane \<Rightarrow> (string \<times> json) list \<Rightarrow> placement list" where
  "arrangements_in vf p docs = List.map_filter (\<lambda>fd. snd (doc_parts vf p (snd fd))) docs"

text \<open>What a device makes of an arrangement it is handed, judged by the key it pins for its author.\<close>

definition judged :: "(string \<Rightarrow> string \<Rightarrow> string \<Rightarrow> bool) \<Rightarrow> plane \<Rightarrow> placement \<Rightarrow> placement option" where
  "judged vf p a =
     (case map_of (pn_pins p) (pl_by a) of
        None \<Rightarrow> Some (a\<lparr>pl_verified := False\<rparr>)
      | Some key \<Rightarrow>
          if vf key (placement_bytes (pl_by a) (pl_seq a) (pl_spots a)) (pl_sig a)
          then Some (a\<lparr>pl_verified := True\<rparr>) else None)"

lemma settled_pin: "key_settled p (f, doc) \<Longrightarrow> str_of doc ''key'' = Some key \<Longrightarrow> pin_plane vf f key p = (False, p)"
  by (auto simp: key_settled_def pin_plane_def)

lemma absorb_entries:
  "snd (foldl absorb_entry_of (g, p) es) = hear_words p es"
  by (induction es rule: rev_induct) (simp_all add: hear_words_def absorb_entry_of_def case_prod_beta)

lemma absorb_placement_frame:
  "pn_own (snd (absorb_placement vf a p)) = pn_own p" "pn_pins (snd (absorb_placement vf a p)) = pn_pins p"
  "pn_monitors (snd (absorb_placement vf a p)) = pn_monitors p"
  by (simp_all add: absorb_placement_def Let_def split: option.splits)

lemma absorb_placement_judged:
  "pn_placement (snd (absorb_placement vf a p)) =
     (case judged vf p a of None \<Rightarrow> pn_placement p | Some c \<Rightarrow> keep_newest outranks (pn_placement p) c)"
  by (simp add: absorb_placement_def judged_def keep_newest_def Let_def split: option.splits)

lemma merge_doc_parts:
  assumes "key_settled p (f, doc)"
  shows "snd (merge_doc vf f doc p) =
     (case snd (doc_parts vf p doc) of
        None \<Rightarrow> hear_words p (fst (doc_parts vf p doc))
      | Some a \<Rightarrow> snd (absorb_placement vf a (hear_words p (fst (doc_parts vf p doc)))))"
proof -
  have "(case str_of doc ''key'' of None \<Rightarrow> (False, p) | Some key \<Rightarrow> pin_plane vf f key p) = (False, p)"
    using settled_pin [OF assms] by (auto split: option.splits)
  then show ?thesis
    by (auto simp: merge_doc_def doc_parts_def Let_def case_prod_beta absorb_entries hear_words_def split: option.splits)
qed

lemma judged_pins: "pn_pins q = pn_pins p \<Longrightarrow> judged vf q = judged vf p"
  by (simp add: judged_def fun_eq_iff)

lemma read_pins:
  assumes "pn_pins q = pn_pins p"
  shows "read_monitors vf q = read_monitors vf p"
  unfolding read_monitors_def assms ..

lemma parts_pins:
  assumes "pn_pins q = pn_pins p"
  shows "doc_parts vf q = doc_parts vf p"
  unfolding doc_parts_def monitors_of_def read_pins [OF assms] ..

lemma hear_words_placement: "pn_placement (hear_words p ws) = pn_placement p"
  by (induction ws rule: rev_induct) (simp_all add: hear_words_def absorb_frame)

lemma hear_words_append: "hear_words p (us @ ws) = hear_words (hear_words p us) ws"
  by (simp add: hear_words_def)

lemma absorb_same_monitors:
  assumes "pn_monitors q = pn_monitors p" "pn_own q = pn_own p"
  shows "pn_monitors (snd (absorb_monitors d c q)) = pn_monitors (snd (absorb_monitors d c p))"
proof (cases "map_of (pn_monitors p) d")
  case None
  then show ?thesis by (simp add: absorb_monitors_def claims_def Let_def assms)
next
  case (Some held)
  then show ?thesis by (simp add: absorb_monitors_def Let_def assms)
qed

lemma hear_words_monitors:
  assumes "pn_monitors q = pn_monitors p" "pn_own q = pn_own p"
  shows "pn_monitors (hear_words q ws) = pn_monitors (hear_words p ws)"
proof (induction ws rule: rev_induct)
  case (snoc w ws)
  then show ?case
    using absorb_same_monitors [of "hear_words q ws" "hear_words p ws" "fst w" "snd w"] assms(2) hear_frame(1)
    by (simp add: hear_words_append) (simp add: hear_words_def)
qed (simp add: hear_words_def assms)

lemma hear_docs_parts:
  assumes "\<forall>fd \<in> set docs. key_settled p fd"
  shows "pn_own (hear_docs vf docs p) = pn_own p" "pn_pins (hear_docs vf docs p) = pn_pins p"
    "pn_monitors (hear_docs vf docs p) = pn_monitors (hear_words p (words_in vf p docs))"
    "pn_placement (hear_docs vf docs p) =
      foldl (keep_newest outranks) (pn_placement p) (List.map_filter (judged vf p) (arrangements_in vf p docs))"
  using assms
proof (induction docs rule: rev_induct)
  case Nil
  { case 1 then show ?case by (simp add: hear_docs_def) next
    case 2 then show ?case by (simp add: hear_docs_def) next
    case 3 then show ?case by (simp add: hear_docs_def words_in_def hear_words_def) next
    case 4 then show ?case by (simp add: hear_docs_def arrangements_in_def List.map_filter_def) }
next
  case (snoc fd docs)
  obtain f doc where fd: "fd = (f, doc)" by fastforce
  let ?q = "hear_docs vf docs p"
  have q: "hear_docs vf (docs @ [fd]) p = snd (merge_doc vf f doc ?q)" by (simp add: hear_docs_def fd)
  have settled: "key_settled ?q (f, doc)" if "\<forall>fd \<in> set (docs @ [fd]). key_settled p fd"
    using that snoc.IH(2) by (auto simp: key_settled_def fd split: option.splits)
  have step: "hear_docs vf (docs @ [fd]) p =
     (case snd (doc_parts vf p doc) of
        None \<Rightarrow> hear_words ?q (fst (doc_parts vf p doc))
      | Some a \<Rightarrow> snd (absorb_placement vf a (hear_words ?q (fst (doc_parts vf p doc)))))"
    if "\<forall>fd \<in> set (docs @ [fd]). key_settled p fd"
  proof -
    have "pn_pins ?q = pn_pins p" using snoc.IH(2) that by simp
    from parts_pins [OF this] show ?thesis by (simp only: q merge_doc_parts [OF settled [OF that]])
  qed
  {
    case 1
    then have "pn_own ?q = pn_own p" using snoc.IH(1) by simp
    then show ?case unfolding step [OF 1] by (cases "snd (doc_parts vf p doc)") (simp_all add: hear_frame absorb_placement_frame)
  next
    case 2
    then have "pn_pins ?q = pn_pins p" using snoc.IH(2) by simp
    then show ?case unfolding step [OF 2] by (cases "snd (doc_parts vf p doc)") (simp_all add: hear_frame absorb_placement_frame)
  next
    case 3
    have "pn_monitors (hear_docs vf (docs @ [fd]) p) = pn_monitors (hear_words ?q (fst (doc_parts vf p doc)))"
      unfolding step [OF 3] by (cases "snd (doc_parts vf p doc)") (simp_all add: absorb_placement_frame)
    also have "\<dots> = pn_monitors (hear_words (hear_words p (words_in vf p docs)) (fst (doc_parts vf p doc)))"
      using snoc.IH 3 by (intro hear_words_monitors) (simp_all add: hear_frame)
    finally show ?case by (simp add: words_in_def hear_words_append fd)
  next
    case 4
    have "judged vf (hear_words ?q (fst (doc_parts vf p doc))) = judged vf p"
      using snoc.IH(2) 4 by (intro judged_pins) (simp add: hear_frame)
    moreover have "pn_placement ?q =
        foldl (keep_newest outranks) (pn_placement p) (List.map_filter (judged vf p) (arrangements_in vf p docs))"
      using snoc.IH(4) 4 by simp
    ultimately show ?case unfolding step [OF 4]
      by (cases "snd (doc_parts vf p doc)")
        (simp_all add: hear_words_placement absorb_placement_judged arrangements_in_def List.map_filter_def fd
          split: option.splits)
  }
qed

section \<open>Convergence\<close>

text \<open>What the signatures decide, whatever the order, the repetition and the unverified company.\<close>

definition newest_word :: "(string \<times> monitors_entry) set \<Rightarrow> string \<Rightarrow> monitors_entry \<Rightarrow> bool" where
  "newest_word W d e \<longleftrightarrow> (d, e) \<in> W \<and> (\<forall>e'. (d, e') \<in> W \<longrightarrow> me_seq e' \<le> me_seq e)"

text \<open>
  C31. Whatever documents that pin no new key a device whose table of words is empty is handed, in any
  order, any number of times and with any unverified claims among them, it ends up holding for each
  other device exactly that device's newest verified word, and never one about itself, as long as the
  verified words speak for at most \<open>MAX_DEVICES\<close> devices and a device signs one list per sequence
  number. A document pins no new key when it claims none, a malformed one, or the one already pinned;
  the first contact with a device pins its key and so changes which words verify from then on.
\<close>

theorem the_newest_words_stand:
  assumes "pn_monitors p = []"
    and settled: "\<forall>fd \<in> set docs. key_settled p fd"
    and few: "card (fst ` verified_words (words_in vf p docs)) \<le> MAX_DEVICES"
    and single: "inj_on (\<lambda>w. (fst w, me_seq (snd w))) (verified_words (words_in vf p docs))"
  shows "visible (hear_docs vf docs p) d = Some e \<longleftrightarrow>
    foreign p d \<and> newest_word (verified_words (words_in vf p docs)) d e"
proof -
  let ?W = "verified_words (words_in vf p docs)"
  let ?h = "hear_words p (words_in vf p docs)"
  have v: "visible (hear_docs vf docs p) d = visible ?h d"
    by (simp only: visible_def hear_docs_parts(3) [OF settled])
  have bt: "bt_ok (pn_monitors p)" "\<And>d. visible p d = None" using assms(1) by (simp_all add: visible_def)
  note hear = hear_visible [OF bt few]
  show ?thesis unfolding v newest_word_def
  proof
    assume "visible ?h d = Some e"
    with hear(1) show "foreign p d \<and> (d, e) \<in> ?W \<and> (\<forall>e'. (d, e') \<in> ?W \<longrightarrow> me_seq e' \<le> me_seq e)" by blast
  next
    assume right: "foreign p d \<and> (d, e) \<in> ?W \<and> (\<forall>e'. (d, e') \<in> ?W \<longrightarrow> me_seq e' \<le> me_seq e)"
    then obtain g where g: "visible ?h d = Some g" using hear(2) by blast
    then have "(d, g) \<in> ?W" "me_seq g = me_seq e" using hear(1) [OF g] right by (auto intro: antisym)
    then have "g = e" using inj_onD [OF single, of "(d, g)" "(d, e)"] right by simp
    then show "visible ?h d = Some e" using g by simp
  qed
qed

lemma outranks_newest: "newest_wins outranks"
proof -
  have eq: "outranks = (\<lambda>a b. (pl_seq b, pl_by b, pl_sig b) < (pl_seq a, pl_by a, pl_sig a))"
    by (intro ext) (simp only: outranks_def)
  show ?thesis unfolding eq by (rule newest_wins_rank [where rank = "\<lambda>a. (pl_seq a, pl_by a, pl_sig a)"])
qed

interpretation arrangement: newest_wins outranks by (rule outranks_newest)

text \<open>
  The arrangement a device ends up with is one it was handed and could not refuse, and nothing it
  was handed and could not refuse outranks it; it holds none only when it was handed none it could take.
\<close>

theorem the_highest_arrangement_wins:
  assumes "pn_placement p = None" and "\<forall>fd \<in> set docs. key_settled p fd"
  shows "(case pn_placement (hear_docs vf docs p) of
      None \<Rightarrow> List.map_filter (judged vf p) (arrangements_in vf p docs) = []
    | Some a \<Rightarrow> a \<in> set (List.map_filter (judged vf p) (arrangements_in vf p docs)) \<and>
        (\<forall>b \<in> set (List.map_filter (judged vf p) (arrangements_in vf p docs)). \<not> outranks b a))"
proof -
  have eq: "pn_placement (hear_docs vf docs p) =
      foldl (keep_newest outranks) None (List.map_filter (judged vf p) (arrangements_in vf p docs))"
    using hear_docs_parts(4) [OF assms(2)] assms(1) by simp
  show ?thesis
  proof (cases "pn_placement (hear_docs vf docs p)")
    case None
    then show ?thesis using arrangement.foldl_keep_some eq by simp
  next
    case (Some a)
    then show ?thesis using arrangement.foldl_keep [OF trans [OF eq [symmetric] Some]] by simp
  qed
qed

section \<open>A lost file\<close>

lemma own_untouched:
  assumes "bt_ok (pn_monitors p)" "pn_own p = n" "n \<noteq> []"
    and mine: "\<forall>e. map_of (pn_monitors p) n = Some e \<longrightarrow> me_verified e"
  shows "map_of (pn_monitors (hear_words p ws)) n = map_of (pn_monitors p) n"
proof (induction ws rule: rev_induct)
  case Nil
  then show ?case by (simp add: hear_words_def)
next
  case (snoc w ws)
  let ?q = "hear_words p ws"
  have bt: "bt_ok (pn_monitors ?q)" by (rule hear_frame(3) [OF assms(1)])
  have worst: "last (claims ?q) \<noteq> n" if "claims ?q \<noteq> []"
    using worst_claim [OF that bt] snoc.IH mine by metis
  have "pn_own ?q = n" using assms(2) by (simp add: hear_frame)
  then have "map_of (pn_monitors (snd (absorb_monitors (fst w) (snd w) ?q))) n = map_of (pn_monitors ?q) n"
    using worst assms(3) by (auto simp: absorb_monitors_def Let_def split: option.splits)
  then show ?case using snoc.IH by (simp add: hear_words_def)
qed

lemma absorb_elsewhere:
  assumes "n \<noteq> d" "claims p \<noteq> [] \<Longrightarrow> last (claims p) \<noteq> n"
  shows "map_of (pn_monitors (snd (absorb_monitors d c p))) n = map_of (pn_monitors p) n"
proof (cases "map_of (pn_monitors p) d")
  case None
  then show ?thesis using assms by (cases "claims p = []") (simp_all add: absorb_monitors_def Let_def)
qed (use assms(1) in \<open>simp add: absorb_monitors_def Let_def\<close>)

lemma absorb_other:
  assumes "bt_ok (pn_monitors p)" "visible p n = Some e" "n \<noteq> d"
  shows "visible (snd (absorb_monitors d c p)) n = Some e"
proof -
  have "last (claims p) \<noteq> n" if some: "claims p \<noteq> []"
  proof -
    obtain e' where "map_of (pn_monitors p) (last (claims p)) = Some e'" "\<not> me_verified e'"
      by (rule worst_claim [OF some assms(1)])
    then have "visible p (last (claims p)) = None" by (simp add: visible_def)
    then show ?thesis using assms(2) by auto
  qed
  from absorb_elsewhere [OF assms(3) this] show ?thesis using assms(2) by (simp add: visible_def)
qed

lemma absorb_older:
  assumes "visible p n = Some e" "me_seq c \<le> me_seq e"
  shows "snd (absorb_monitors n c p) = p"
proof -
  have "map_of (pn_monitors p) n = Some e" "me_verified e" using assms(1) by (simp_all add: visible_def split: option.splits if_splits)
  then show ?thesis using assms(2) by (simp add: absorb_monitors_def Let_def)
qed

lemma visible_stays:
  assumes "visible q n = Some e" "\<forall>w \<in> set ws. fst w = n \<longrightarrow> me_seq (snd w) \<le> me_seq e" "bt_ok (pn_monitors q)"
  shows "visible (hear_words q ws) n = Some e"
  using assms(2)
proof (induction ws rule: rev_induct)
  case Nil
  then show ?case using assms(1) by (simp add: hear_words_def)
next
  case (snoc w ws)
  have v: "visible (hear_words q ws) n = Some e" using snoc by simp
  have "visible (snd (absorb_monitors (fst w) (snd w) (hear_words q ws))) n = Some e"
  proof (cases "fst w = n")
    case True
    then show ?thesis using absorb_older [OF v] v snoc.prems by simp
  next
    case False
    then show ?thesis using absorb_other [OF hear_frame(3) [OF assms(3)] v] by simp
  qed
  then show ?case by (simp add: hear_words_def)
qed

lemma offer_entry_in:
  "r \<in> set (fst (offer_entry sz acc e)) \<Longrightarrow> r = (fst e, entry_json (snd e)) \<or> r \<in> set (fst acc)"
  using set_bt_insert [of "fst e" "entry_json (snd e)" "fst acc"] by (auto simp: offer_entry_def Let_def split: if_splits)

lemma offered_are_held: "(d, v) \<in> set (offered_monitors sz p) \<Longrightarrow> \<exists>e. (d, e) \<in> set (pn_monitors p) \<and> v = entry_json e"
proof -
  have "(d, v) \<in> set (fst (foldl (offer_entry sz) ([], b) es)) \<Longrightarrow> \<exists>e. (d, e) \<in> set es \<and> v = entry_json e" for es b
  proof (induction es rule: rev_induct)
    case (snoc e es)
    then show ?case using offer_entry_in [of "(d, v)" sz "foldl (offer_entry sz) ([], b) es" e] by (cases e) auto
  qed simp
  moreover assume "(d, v) \<in> set (offered_monitors sz p)"
  ultimately obtain e where "(d, e) \<in> set ((case map_of (pn_monitors p) (pn_own p) of None \<Rightarrow> [] | Some e \<Rightarrow> [(pn_own p, e)]) @
      filter (\<lambda>e. fst e \<noteq> pn_own p \<and> me_verified (snd e)) (pn_monitors p))" "v = entry_json e"
    unfolding offered_monitors_def Let_def by blast
  then show ?thesis by (cases "map_of (pn_monitors p) (pn_own p)") (auto dest: map_of_SomeD)
qed

lemma offer_words:
  assumes "fd \<in> set (words_in vf q [(n, offer_plane sz key p)])"
  shows "\<exists>e. (fst fd, e) \<in> set (pn_monitors p) \<and> me_seq (snd fd) = me_seq e"
proof -
  have "jget (offer_plane sz key p) ''monitors'' = Some (JObj (offered_monitors sz p))"
    by (simp add: offer_plane_def jget_jobj opt_field_def split: option.splits)
  then obtain es where "fd \<in> set es" "those (map (read_monitors vf q) (offered_monitors sz p)) = Some es"
    using assms by (auto simp: words_in_def doc_parts_def monitors_of_def split: option.splits if_splits)
  then obtain d v where dv: "(d, v) \<in> set (offered_monitors sz p)" "read_monitors vf q (d, v) = Some fd"
    by (auto simp: those_Some_iff in_set_conv_nth list_eq_iff_nth_eq) (metis nth_mem prod.exhaust)
  obtain e where e: "(d, e) \<in> set (pn_monitors p)" "v = entry_json e" using offered_are_held [OF dv(1)] by blast
  have "seq_of v = Some (me_seq (snd fd))" "fst fd = d"
    using dv(2) by (auto simp: read_monitors_def bind_Some_iff split: if_splits)
  moreover have "jget v ''seq'' = Some (of_u64 (me_seq e))" by (simp add: e entry_json_def entry_fields_def jget_jobj)
  ultimately have "me_seq (snd fd) = me_seq e" by (auto simp: seq_of_def split: if_splits)
  then show ?thesis using e \<open>fst fd = d\<close> by blast
qed

text \<open>
  A device that has lost its own word (a damaged or refused plane file) does not learn it back,
  whatever its peers hand it: they cannot speak for it. It publishes again from sequence number one,
  and a peer that holds its earlier word keeps that one, whatever the screens are now.
\<close>

theorem a_lost_word_is_not_refilled:
  fixes n :: string and vf :: "string \<Rightarrow> string \<Rightarrow> string \<Rightarrow> bool" and docs p idn ms
  assumes p: "bt_ok (pn_monitors p)" "pn_own p = n" "map_of (pn_monitors p) n = None" and name: "is_hex64 n"
    and settled: "\<forall>fd \<in> set docs. key_settled p fd"
    and q: "bt_ok (pn_monitors q)" "visible q n = Some e" "1 \<le> me_seq e" "map_of (pn_pins q) n = Some (ii_public_hex idn)"
  defines "r \<equiv> snd (publish_monitors n idn ms (hear_docs vf docs p))"
  shows "map_of (pn_monitors r) n = Some (own_word n idn 1 (publishable ms)) \<and>
    visible (hear_docs vf [(n, offer_plane sz (ii_public_hex idn) r)] q) n = Some e"
proof
  let ?p = "hear_docs vf docs p"
  note heard = hear_docs_parts [OF settled, of vf]
  have own: "pn_own ?p = n" by (simp add: heard(1) p(2))
  have gone: "map_of (pn_monitors ?p) n = None"
    using own_untouched [OF p(1,2) hex64_nonempty [OF name]] p(3) by (simp add: heard(3))
  have bt: "bt_ok (pn_monitors ?p)" by (simp add: heard(3) hear_frame(3) [OF p(1)])
  have r: "pn_monitors r = bt_insert n (own_word n idn 1 (publishable ms)) (pn_monitors ?p)"
    using name gone own by (simp add: r_def publish_result set_own_def Let_def unchanged_def next_seq_def)
  then show "map_of (pn_monitors r) n = Some (own_word n idn 1 (publishable ms))" by simp
  let ?d = "[(n, offer_plane sz (ii_public_hex idn) r)]"
  have "\<forall>fd \<in> set ?d. key_settled q fd"
    using q(4) by (simp add: key_settled_def offer_plane_def str_of_def jget_jobj opt_field_def split: option.splits)
  moreover have "\<forall>w \<in> set (words_in vf q ?d). fst w = n \<longrightarrow> me_seq (snd w) \<le> me_seq e"
  proof (intro ballI impI)
    fix w assume w: "w \<in> set (words_in vf q ?d)" "fst w = n"
    obtain c where c: "(n, c) \<in> set (pn_monitors r)" "me_seq (snd w) = me_seq c" using offer_words [OF w(1)] w(2) by auto
    have "bt_ok (pn_monitors r)" using bt by (simp add: r)
    then have "map_of (pn_monitors r) n = Some c" using c(1) by (simp add: map_of_in_set)
    then show "me_seq (snd w) \<le> me_seq e" using c(2) q(3) by (auto simp: r own_word_def)
  qed
  ultimately show "visible (hear_docs vf ?d q) n = Some e"
    using visible_stays [OF q(2) _ q(1)] hear_docs_parts(3) [of ?d q vf] by (simp add: visible_def)
qed

end
