(* ===== verification/InputGraph.thy ===== *)
theory InputGraph
  imports InputPlane
begin

text \<open>
  The crossing graph of input sharing (\<open>input/src/graph.rs\<close>): the plane laid out as rectangles, the
  stretches of edge two devices' screens share, the guards that decide whether the pointer crosses, and
  where it lands. Coordinates are \<open>i32\<close> values as integers; the saturating operations are written out, and
  the plain subtractions are integer subtractions, which \<open>LayoutFacts\<close> shows cannot overflow.
\<close>

definition SNAP :: int where "SNAP = 16"
definition DEAD_CORNER :: int where "DEAD_CORNER = 16"
definition DWELL_MS :: nat where "DWELL_MS = 250"

datatype side = SLeft | SRight | STop | SBottom

fun side_as_str :: "side \<Rightarrow> string" where
  "side_as_str SLeft = ''left''"
| "side_as_str SRight = ''right''"
| "side_as_str STop = ''top''"
| "side_as_str SBottom = ''bottom''"

definition side_parse :: "string \<Rightarrow> side option" where
  "side_parse s =
     (if s = ''left'' then Some SLeft else if s = ''right'' then Some SRight
      else if s = ''top'' then Some STop else if s = ''bottom'' then Some SBottom else None)"

fun opposite :: "side \<Rightarrow> side" where
  "opposite SLeft = SRight"
| "opposite SRight = SLeft"
| "opposite STop = SBottom"
| "opposite SBottom = STop"

text \<open>The derived order of the sides is the order of their declaration.\<close>

fun side_rank :: "side \<Rightarrow> nat" where
  "side_rank SLeft = 0"
| "side_rank SRight = 1"
| "side_rank STop = 2"
| "side_rank SBottom = 3"

lemma side_rank_inj: "side_rank a = side_rank b \<Longrightarrow> a = b"
  by (cases a; cases b) simp_all

instantiation side :: linorder
begin

definition less_eq_side :: "side \<Rightarrow> side \<Rightarrow> bool" where
  "less_eq_side a b \<longleftrightarrow> side_rank a \<le> side_rank b"

definition less_side :: "side \<Rightarrow> side \<Rightarrow> bool" where
  "less_side a b \<longleftrightarrow> side_rank a < side_rank b"

instance
  by standard (auto simp: less_eq_side_def less_side_def intro: side_rank_inj)

end

record placed =
  pc_node_id :: string
  pc_key :: string
  pc_x :: int
  pc_y :: int
  pc_w :: int
  pc_h :: int
  pc_own :: monitor
  pc_present :: bool

definition pc_right :: "placed \<Rightarrow> int" where "pc_right m = sadd (pc_x m) (pc_w m)"
definition pc_bottom :: "placed \<Rightarrow> int" where "pc_bottom m = sadd (pc_y m) (pc_h m)"

definition pc_contains :: "placed \<Rightarrow> int \<Rightarrow> int \<Rightarrow> bool" where
  "pc_contains m x y \<longleftrightarrow> pc_x m \<le> x \<and> x < pc_right m \<and> pc_y m \<le> y \<and> y < pc_bottom m"

definition to_own :: "placed \<Rightarrow> int \<Rightarrow> int \<Rightarrow> int \<times> int" where
  "to_own m x y = (sadd (mo_x (pc_own m)) (ssub x (pc_x m)), sadd (mo_y (pc_own m)) (ssub y (pc_y m)))"

record segment =
  sg_from :: string
  sg_to :: string
  sg_node_id :: string
  sg_side :: side
  sg_lo :: int
  sg_hi :: int

definition admits :: "segment \<Rightarrow> int \<Rightarrow> int \<Rightarrow> bool" where
  "admits s along dead_corner =
     (let dead_corner = max dead_corner 0;
          lo = sadd (sg_lo s) dead_corner;
          hi = ssub (sg_hi s) dead_corner
      in lo < hi \<and> lo \<le> along \<and> along < hi)"

section \<open>Guards\<close>

record guards =
  gd_dwell_ms :: nat
  gd_double_tap_ms :: nat
  gd_dead_corner :: int
  gd_require_mods :: u16
  gd_wall :: bool

definition guards_default :: guards where
  "guards_default =
     \<lparr>gd_dwell_ms = DWELL_MS, gd_double_tap_ms = 0, gd_dead_corner = DEAD_CORNER, gd_require_mods = 0, gd_wall = False\<rparr>"

definition guards_to_value :: "guards \<Rightarrow> json" where
  "guards_to_value g = jobj
     [(''dwell_ms'', of_u64 (gd_dwell_ms g)), (''double_tap_ms'', of_u64 (gd_double_tap_ms g)),
      (''dead_corner'', of_i64 (gd_dead_corner g)), (''require_mods'', of_u64 (unat (gd_require_mods g))),
      (''wall'', JBool (gd_wall g))]"

definition guards_ms :: "json \<Rightarrow> string \<Rightarrow> nat \<Rightarrow> nat" where
  "guards_ms v k fallback =
     (case Option.bind (jget v k) as_u64 of
        None \<Rightarrow> fallback | Some n \<Rightarrow> if n < 2 ^ 32 then min n 10000 else fallback)"

definition guards_from_value :: "json \<Rightarrow> guards" where
  "guards_from_value v =
     \<lparr>gd_dwell_ms = guards_ms v ''dwell_ms'' (gd_dwell_ms guards_default),
      gd_double_tap_ms = guards_ms v ''double_tap_ms'' (gd_double_tap_ms guards_default),
      gd_dead_corner =
        (case Option.bind (jget v ''dead_corner'') as_i64 of
           None \<Rightarrow> gd_dead_corner guards_default
         | Some n \<Rightarrow> if I32_MIN \<le> n \<and> n \<le> I32_MAX then max 0 (min 1000 n) else gd_dead_corner guards_default),
      gd_require_mods =
        (case Option.bind (jget v ''require_mods'') as_u64 of
           None \<Rightarrow> gd_require_mods guards_default
         | Some n \<Rightarrow> if n < 2 ^ 16 then and (word_of_nat n) mods_HOLDABLE else gd_require_mods guards_default),
      gd_wall = (case Option.bind (jget v ''wall'') as_bool of None \<Rightarrow> gd_wall guards_default | Some b \<Rightarrow> b)\<rparr>"

section \<open>Laying the plane out\<close>

definition spot_of :: "plane \<Rightarrow> string \<Rightarrow> monitor \<Rightarrow> spot option" where
  "spot_of p node_id m = Option.bind (pn_placement p) (\<lambda>a. map_of (pl_spots a) (spot_key node_id (mo_id m)))"

definition place_at :: "string \<Rightarrow> monitor \<Rightarrow> int \<Rightarrow> int \<Rightarrow> bool \<Rightarrow> placed" where
  "place_at node_id m x y here =
     \<lparr>pc_node_id = node_id, pc_key = spot_key node_id (mo_id m), pc_x = x, pc_y = y, pc_w = mo_w m, pc_h = mo_h m,
      pc_own = m, pc_present = here\<rparr>"

definition place_block :: "plane \<Rightarrow> string \<Rightarrow> bool \<Rightarrow> monitor list \<Rightarrow> (string, placed) btree \<Rightarrow> (string, placed) btree" where
  "place_block p node_id here ms out =
     foldl (\<lambda>out m.
       let s = (case spot_of p node_id m of None \<Rightarrow> \<lparr>sp_x = mo_x m, sp_y = mo_y m\<rparr> | Some s \<Rightarrow> s)
       in bt_insert (spot_key node_id (mo_id m)) (place_at node_id m (sp_x s) (sp_y s) here) out) out ms"

definition undragged :: "plane \<Rightarrow> string \<Rightarrow> monitor list \<Rightarrow> bool" where
  "undragged p node_id ms \<longleftrightarrow> list_all (\<lambda>m. spot_of p node_id m = None) ms \<and> ms \<noteq> []"

definition place_entry ::
  "plane \<Rightarrow> string list \<Rightarrow> (string, placed) btree \<times> string list \<Rightarrow> string \<times> monitors_entry \<Rightarrow> (string, placed) btree \<times> string list" where
  "place_entry p present acc q =
     (case acc of (out, unplaced) \<Rightarrow> (case q of (node_id, e) \<Rightarrow>
        if \<not> me_verified e then (out, unplaced)
        else if undragged p node_id (me_list e) then (out, unplaced @ [node_id])
        else (place_block p node_id (node_id \<in> set present) (me_list e) out, unplaced)))"

definition ghost :: "string \<Rightarrow> string \<Rightarrow> string \<Rightarrow> spot \<Rightarrow> placed" where
  "ghost key node_id monitor_id s =
     \<lparr>pc_node_id = node_id, pc_key = key, pc_x = sp_x s, pc_y = sp_y s, pc_w = 1920, pc_h = 1080,
      pc_own = \<lparr>mo_id = monitor_id, mo_name = [], mo_w = 1920, mo_h = 1080, mo_x = 0, mo_y = 0, mo_scale = 1000,
                mo_primary = False\<rparr>, pc_present = False\<rparr>"

definition place_ghost :: "plane \<Rightarrow> (string, placed) btree \<Rightarrow> string \<times> spot \<Rightarrow> (string, placed) btree" where
  "place_ghost p out q =
     (case q of (key, s) \<Rightarrow>
        if map_of out key \<noteq> None then out
        else
          (case split_spot_key key of
             None \<Rightarrow> out
           | Some (node_id, monitor_id) \<Rightarrow>
               if (case map_of (pn_monitors p) node_id of None \<Rightarrow> False | Some e \<Rightarrow> me_verified e)
               then bt_insert key (ghost key node_id monitor_id s) out else out))"

fun minimum_or :: "int \<Rightarrow> int list \<Rightarrow> int" where
  "minimum_or d [] = d"
| "minimum_or d (x # xs) = foldl min x xs"

fun maximum_or :: "int \<Rightarrow> int list \<Rightarrow> int" where
  "maximum_or d [] = d"
| "maximum_or d (x # xs) = foldl max x xs"

definition append_block :: "string list \<Rightarrow> string \<Rightarrow> monitor list \<Rightarrow> (string, placed) btree \<Rightarrow> (string, placed) btree" where
  "append_block present node_id ms out =
     (let offset = maximum_or 0 (map (\<lambda>q. pc_right (snd q)) out);
          block_x = minimum_or 0 (map mo_x ms);
          block_y = minimum_or 0 (map mo_y ms)
      in foldl (\<lambda>out m.
           bt_insert (spot_key node_id (mo_id m))
             (place_at node_id m (sadd offset (ssub (mo_x m) block_x)) (ssub (mo_y m) block_y) (node_id \<in> set present)) out)
         out ms)"

definition lay_out :: "plane \<Rightarrow> string list \<Rightarrow> (string, placed) btree" where
  "lay_out p present =
     (case foldl (place_entry p present) ([], []) (pn_monitors p) of
        (out, unplaced) \<Rightarrow>
          let out = (case pn_placement p of None \<Rightarrow> out | Some a \<Rightarrow> foldl (place_ghost p) out (pl_spots a))
          in foldl (\<lambda>out node_id.
               (case map_of (pn_monitors p) node_id of
                  None \<Rightarrow> out | Some e \<Rightarrow> append_block present node_id (me_list e) out)) out unplaced)"

section \<open>The graph\<close>

definition shared :: "placed \<Rightarrow> placed \<Rightarrow> side \<Rightarrow> (int \<times> int) option" where
  "shared from_m to_m s =
     (let abuts = (case s of
            SRight \<Rightarrow> \<bar>pc_x to_m - pc_right from_m\<bar> \<le> SNAP \<and> pc_right from_m - SNAP \<le> pc_x to_m
          | SLeft \<Rightarrow> \<bar>pc_x from_m - pc_right to_m\<bar> \<le> SNAP \<and> pc_right to_m \<le> pc_x from_m + SNAP
          | SBottom \<Rightarrow> \<bar>pc_y to_m - pc_bottom from_m\<bar> \<le> SNAP \<and> pc_bottom from_m - SNAP \<le> pc_y to_m
          | STop \<Rightarrow> \<bar>pc_y from_m - pc_bottom to_m\<bar> \<le> SNAP \<and> pc_bottom to_m \<le> pc_y from_m + SNAP);
          (lo, hi) = (if s = SLeft \<or> s = SRight
            then (max (pc_y from_m) (pc_y to_m), min (pc_bottom from_m) (pc_bottom to_m))
            else (max (pc_x from_m) (pc_x to_m), min (pc_right from_m) (pc_right to_m)))
      in if \<not> abuts then None else if hi \<le> lo then None else Some (lo, hi))"

definition segments_between :: "placed \<Rightarrow> placed \<Rightarrow> segment list" where
  "segments_between from_m to_m =
     List.map_filter (\<lambda>s. map_option (\<lambda>(lo, hi).
       \<lparr>sg_from = pc_key from_m, sg_to = pc_key to_m, sg_node_id = pc_node_id to_m, sg_side = s, sg_lo = lo, sg_hi = hi\<rparr>)
       (shared from_m to_m s)) [SLeft, SRight, STop, SBottom]"

definition segment_order :: "segment \<Rightarrow> string \<times> side \<times> string \<times> int" where
  "segment_order s = (sg_from s, sg_side s, sg_to s, sg_lo s)"

definition derive :: "(string, placed) btree \<Rightarrow> string \<Rightarrow> segment list" where
  "derive placed own =
     sort_key segment_order
       (concat (map (\<lambda>from_m.
          concat (map (\<lambda>to_m. if pc_node_id to_m = own \<or> \<not> pc_present to_m then [] else segments_between from_m to_m)
            (map snd placed)))
          (filter (\<lambda>m. pc_node_id m = own) (map snd placed))))"

record graph =
  gr_placed :: "(string, placed) btree"
  gr_segments :: "segment list"

definition build :: "plane \<Rightarrow> string \<Rightarrow> string list \<Rightarrow> graph" where
  "build p own present =
     (let placed = lay_out p present in \<lparr>gr_placed = placed, gr_segments = derive placed own\<rparr>)"

section \<open>At an edge\<close>

datatype wall_reason = WNothing | WScreenAway | WLocked | WRefused | WCorner | WNeedsModifier

datatype edge_answer = AInside | ASegment segment | AWall wall_reason

fun wall_rank :: "wall_reason \<Rightarrow> nat" where
  "wall_rank WLocked = 0"
| "wall_rank WRefused = 1"
| "wall_rank WNothing = 2"
| "wall_rank WScreenAway = 2"
| "wall_rank WCorner = 3"
| "wall_rank WNeedsModifier = 4"

definition keep_earliest :: "wall_reason option \<Rightarrow> wall_reason \<Rightarrow> wall_reason option" where
  "keep_earliest worst reason =
     (if case worst of None \<Rightarrow> True | Some held \<Rightarrow> wall_rank reason < wall_rank held then Some reason else worst)"

text \<open>The side left by furthest, the first of the declaration's order among equals.\<close>

definition pushed_side :: "placed \<Rightarrow> int \<Rightarrow> int \<Rightarrow> side option" where
  "pushed_side m x y =
     (let overs = filter (\<lambda>q. 0 < fst q)
            [(pc_x m - x, SLeft), (x - (pc_right m - 1), SRight), (pc_y m - y, STop), (y - (pc_bottom m - 1), SBottom)]
      in case overs of
           [] \<Rightarrow> None
         | q # qs \<Rightarrow> Some (snd (foldl (\<lambda>b q. if fst b < fst q \<or> fst b = fst q \<and> snd q \<le> snd b then q else b) q qs)))"

definition clamp :: "int \<Rightarrow> int \<Rightarrow> int \<Rightarrow> int" where
  "clamp v lo hi = (if v < lo then lo else if hi < v then hi else v)"

definition along_edge :: "placed \<Rightarrow> side \<Rightarrow> int \<Rightarrow> int \<Rightarrow> int" where
  "along_edge m s x y =
     (if s = SLeft \<or> s = SRight then clamp y (pc_y m) (max (ssub (pc_bottom m) 1) (pc_y m))
      else clamp x (pc_x m) (max (ssub (pc_right m) 1) (pc_x m)))"

fun try_segments :: "(segment \<Rightarrow> guards) \<Rightarrow> u16 \<Rightarrow> int \<Rightarrow> wall_reason option \<Rightarrow> segment list \<Rightarrow> segment + wall_reason option" where
  "try_segments guards_for mods_held along worst [] = Inr worst"
| "try_segments guards_for mods_held along worst (s # rest) =
     (if \<not> (sg_lo s \<le> along \<and> along < sg_hi s) then try_segments guards_for mods_held along worst rest
      else
        let g = guards_for s
        in if gd_wall g then try_segments guards_for mods_held along (keep_earliest worst WRefused) rest
           else if \<not> admits s along (gd_dead_corner g)
           then try_segments guards_for mods_held along (keep_earliest worst WCorner) rest
           else if gd_require_mods g \<noteq> 0 \<and> and mods_held mods_HOLDABLE \<noteq> gd_require_mods g
           then try_segments guards_for mods_held along (keep_earliest worst WNeedsModifier) rest
           else Inl s)"

definition at_edge ::
  "graph \<Rightarrow> string \<Rightarrow> int \<Rightarrow> int \<Rightarrow> u16 \<Rightarrow> bool \<Rightarrow> (segment \<Rightarrow> guards) \<Rightarrow> edge_answer" where
  "at_edge g from_key x y mods_held locked guards_for =
     (case map_of (gr_placed g) from_key of
        None \<Rightarrow> AWall WNothing
      | Some m \<Rightarrow>
          if pc_contains m x y then AInside
          else
            (case pushed_side m x y of
               None \<Rightarrow> AInside
             | Some s \<Rightarrow>
                 if locked then AWall WLocked
                 else
                   let along = along_edge m s x y
                   in case try_segments guards_for mods_held along None
                        (filter (\<lambda>sg. sg_from sg = from_key \<and> sg_side sg = s) (gr_segments g)) of
                        Inl sg \<Rightarrow> ASegment sg
                      | Inr worst \<Rightarrow>
                          let worst =
                            (if worst = None \<and> list_ex (\<lambda>q. \<not> pc_present (snd q) \<and>
                                 (case shared m (snd q) s of None \<Rightarrow> False | Some (lo, hi) \<Rightarrow> lo \<le> along \<and> along < hi))
                                 (gr_placed g)
                             then keep_earliest worst WScreenAway else worst)
                          in AWall (case worst of None \<Rightarrow> WNothing | Some r \<Rightarrow> r)))"

definition entry_point :: "graph \<Rightarrow> segment \<Rightarrow> int \<Rightarrow> (int \<times> int) option" where
  "entry_point g s along = do {
     m \<leftarrow> map_of (gr_placed g) (sg_to s);
     let along = clamp along (sg_lo s) (max (ssub (sg_hi s) 1) (sg_lo s));
         (x, y) = (case sg_side s of
             SRight \<Rightarrow> (pc_x m, along)
           | SLeft \<Rightarrow> (ssub (pc_right m) 1, along)
           | SBottom \<Rightarrow> (along, pc_y m)
           | STop \<Rightarrow> (along, ssub (pc_bottom m) 1))
     in Some (to_own m x y)
   }"

definition clamp_to :: "graph \<Rightarrow> string \<Rightarrow> int \<Rightarrow> int \<Rightarrow> int \<times> int" where
  "clamp_to g key x y =
     (case map_of (gr_placed g) key of
        None \<Rightarrow> (x, y)
      | Some m \<Rightarrow> (clamp x (pc_x m) (max (ssub (pc_right m) 1) (pc_x m)),
                   clamp y (pc_y m) (max (ssub (pc_bottom m) 1) (pc_y m))))"

definition monitor_at :: "graph \<Rightarrow> string \<Rightarrow> int \<Rightarrow> int \<Rightarrow> string option" where
  "monitor_at g own x y =
     map_option (\<lambda>q. pc_key (snd q)) (find (\<lambda>q. pc_node_id (snd q) = own \<and> pc_contains (snd q) x y) (gr_placed g))"

end
