(* ===== verification/PlaneId.thy ===== *)
theory PlaneId
  imports PlaneStore
begin

text \<open>
  The signed bytes of the layout document name their content: every encoding is prefix-free within the
  bounds of the document, so the bytes under the plane id determine every verified word and every spot.
\<close>

section \<open>Prefix-free encodings\<close>

locale prefix_free =
  fixes enc :: "'a \<Rightarrow> string" and fits :: "'a \<Rightarrow> bool"
  assumes cut: "fits a \<Longrightarrow> fits b \<Longrightarrow> enc a @ r = enc b @ s \<Longrightarrow> a = b \<and> r = s"
begin

lemma cut_list:
  "length xs = length ys \<Longrightarrow> list_all fits xs \<Longrightarrow> list_all fits ys \<Longrightarrow>
   concat (map enc xs) @ r = concat (map enc ys) @ s \<Longrightarrow> xs = ys \<and> r = s"
proof (induction xs ys rule: list_induct2)
  case (Cons x xs y ys)
  have "enc x @ (concat (map enc xs) @ r) = enc y @ (concat (map enc ys) @ s)" using Cons.prems(3) by simp
  moreover have "fits x" "fits y" using Cons.prems by simp_all
  ultimately have "x = y" "concat (map enc xs) @ r = concat (map enc ys) @ s" using cut by blast+
  with Cons.IH Cons.prems(1,2) show ?case by simp
qed simp

lemma cut_all:
  assumes "\<And>a. fits a \<Longrightarrow> enc a \<noteq> []"
  shows "list_all fits xs \<Longrightarrow> list_all fits ys \<Longrightarrow> concat (map enc xs) = concat (map enc ys) \<Longrightarrow> xs = ys"
proof (induction xs arbitrary: ys)
  case Nil
  then show ?case using assms by (cases ys) auto
next
  case (Cons x xs)
  then obtain y zs where ys: "ys = y # zs" using assms by (cases ys) auto
  have "enc x @ concat (map enc xs) = enc y @ concat (map enc zs)" using Cons.prems(3) ys by simp
  moreover have "fits x" "fits y" using Cons.prems ys by simp_all
  ultimately have "x = y" "concat (map enc xs) = concat (map enc zs)" using cut by blast+
  with Cons ys show ?case by simp
qed

end

lemma char_of_inj: "m < 256 \<Longrightarrow> n < 256 \<Longrightarrow> char_of (m::nat) = (char_of n :: char) \<longleftrightarrow> m = n"
  by (metis of_char_of mod_less)

lemma be16_cut: "m < 2 ^ 16 \<Longrightarrow> n < 2 ^ 16 \<Longrightarrow> be16 m @ r = be16 n @ s \<Longrightarrow> m = n \<and> r = s"
proof -
  assume less: "m < 2 ^ 16" "n < 2 ^ 16" and eq: "be16 m @ r = be16 n @ s"
  have digits: "k = k div 2 ^ 8 mod 256 * 2 ^ 8 + k mod 256" if "k < 2 ^ 16" for k :: nat
    using that by simp
  have "m div 2 ^ 8 mod 256 = n div 2 ^ 8 mod 256" "m mod 256 = n mod 256" "r = s"
    using eq by (simp_all add: be16_def char_of_inj)
  then show "m = n \<and> r = s" using digits [OF less(1)] digits [OF less(2)] by simp
qed

lemma digits_sum:
  "a * 2 ^ 8 + d = k \<Longrightarrow> b * 2 ^ 8 + e = a \<Longrightarrow> c * 2 ^ 8 + f = b \<Longrightarrow>
   k = c * 2 ^ 24 + f * 2 ^ 16 + e * 2 ^ 8 + (d::nat)"
  by auto

lemma be32_cut: "m < 2 ^ 32 \<Longrightarrow> n < 2 ^ 32 \<Longrightarrow> be32 m @ r = be32 n @ s \<Longrightarrow> m = n \<and> r = s"
proof -
  assume less: "m < 2 ^ 32" "n < 2 ^ 32" and eq: "be32 m @ r = be32 n @ s"
  have digits: "k = k div 2 ^ 24 mod 256 * 2 ^ 24 + k div 2 ^ 16 mod 256 * 2 ^ 16 + k div 2 ^ 8 mod 256 * 2 ^ 8 + k mod 256"
    if "k < 2 ^ 32" for k :: nat
  proof -
    have parts: "k div 2 ^ 16 = k div 2 ^ 8 div 2 ^ 8" "k div 2 ^ 24 = k div 2 ^ 8 div 2 ^ 8 div 2 ^ 8"
      by (simp_all flip: div_mult2_eq)
    have "k div 2 ^ 24 < 256" using that by (simp add: less_mult_imp_div_less)
    then have top: "k div 2 ^ 24 mod 256 = k div 2 ^ 24" by simp
    have "k div 2 ^ 8 * 2 ^ 8 + k mod 256 = k" "k div 2 ^ 16 * 2 ^ 8 + k div 2 ^ 8 mod 256 = k div 2 ^ 8"
      "k div 2 ^ 24 * 2 ^ 8 + k div 2 ^ 16 mod 256 = k div 2 ^ 16"
      unfolding parts using div_mult_mod_eq [of k "2 ^ 8"] div_mult_mod_eq [of "k div 2 ^ 8" "2 ^ 8"]
        div_mult_mod_eq [of "k div 2 ^ 8 div 2 ^ 8" "2 ^ 8"] by simp_all
    then show ?thesis unfolding top by (rule digits_sum)
  qed
  have "m div 2 ^ 24 mod 256 = n div 2 ^ 24 mod 256" "m div 2 ^ 16 mod 256 = n div 2 ^ 16 mod 256"
    "m div 2 ^ 8 mod 256 = n div 2 ^ 8 mod 256" "m mod 256 = n mod 256" "r = s"
    using eq by (simp_all add: be32_def char_of_inj)
  then show "m = n \<and> r = s" using digits [OF less(1)] digits [OF less(2)] by metis
qed

interpretation b16: prefix_free be16 "\<lambda>n. n < 2 ^ 16"
  by unfold_locales (rule be16_cut)

interpretation b32: prefix_free be32 "\<lambda>n. n < 2 ^ 32"
  by unfold_locales (rule be32_cut)

lemma i32_mod:
  assumes "I32_MIN \<le> i" "i \<le> I32_MAX"
  shows "i mod 2 ^ 32 = (if 0 \<le> i then i else i + 2 ^ 32)"
proof (cases "0 \<le> i")
  case True
  then show ?thesis using assms by (simp add: I32_MAX_def)
next
  case False
  then have "(i + 2 ^ 32) mod 2 ^ 32 = i + 2 ^ 32"
    using assms by (intro mod_pos_pos_trivial) (simp_all add: I32_MIN_def)
  then show ?thesis using False by simp
qed

lemma be_i32_cut:
  assumes "I32_MIN \<le> i \<and> i \<le> I32_MAX" "I32_MIN \<le> j \<and> j \<le> I32_MAX" "be_i32 i @ r = be_i32 j @ s"
  shows "i = j \<and> r = s"
proof -
  have "nat (i mod 2 ^ 32) < 2 ^ 32" "nat (j mod 2 ^ 32) < 2 ^ 32" by (simp_all add: nat_less_iff)
  from b32.cut [OF this assms(3) [unfolded be_i32_def]] have "i mod 2 ^ 32 = j mod 2 ^ 32" "r = s"
    by (simp_all add: eq_nat_nat_iff)
  moreover have "i = j" if "i mod 2 ^ 32 = j mod 2 ^ 32"
    using that i32_mod [of i] i32_mod [of j] assms(1,2) by (simp add: I32_MIN_def I32_MAX_def split: if_splits)
  ultimately show ?thesis by simp
qed

interpretation bi32: prefix_free be_i32 "\<lambda>i. I32_MIN \<le> i \<and> i \<le> I32_MAX"
  by unfold_locales (rule be_i32_cut)

definition counted :: "string \<Rightarrow> string" where "counted s = be16 (length s) @ s"

interpretation text16: prefix_free counted "\<lambda>s. length s < 2 ^ 16"
proof unfold_locales
  fix a b r s :: string
  assume "length a < 2 ^ 16" "length b < 2 ^ 16" "counted a @ r = counted b @ s"
  then show "a = b \<and> r = s" using b16.cut [of "length a" "length b" "a @ r" "b @ s"] append_eq_append_conv [of a b r s]
    by (simp add: counted_def)
qed

section \<open>Monitors\<close>

lemma sane_i32: "is_sane m \<Longrightarrow> list_all (\<lambda>i. I32_MIN \<le> i \<and> i \<le> I32_MAX) [mo_w m, mo_h m, mo_x m, mo_y m, mo_scale m]"
  using extent_i32 by (auto simp: is_sane_def I32_MIN_def I32_MAX_def)

lemma monitor_cut:
  assumes "is_sane m" "is_sane k" "monitor_bytes m @ r = monitor_bytes k @ s"
  shows "m = k \<and> r = s"
proof -
  let ?ints = "\<lambda>m. [mo_w m, mo_h m, mo_x m, mo_y m, mo_scale m]"
  let ?flag = "\<lambda>m. if mo_primary m then CHR 0x01 else CHR 0x00"
  have short: "length (mo_id m) < 2 ^ 16" "length (mo_id k) < 2 ^ 16" "length (mo_name m) < 2 ^ 16" "length (mo_name k) < 2 ^ 16"
    using assms(1,2) by (auto simp: is_sane_def MAX_ID_def MAX_NAME_def)
  have bytes: "monitor_bytes m @ r = counted (mo_id m) @ counted (mo_name m) @ concat (map be_i32 (?ints m)) @ ?flag m # r" for m r
    by (simp add: monitor_bytes_def counted_def)
  note eq = assms(3) [unfolded bytes]
  note 1 = text16.cut [OF short(1,2) eq]
  note 2 = text16.cut [OF short(3,4) conjunct2 [OF 1]]
  have "?ints m = ?ints k \<and> ?flag m # r = ?flag k # s"
    by (rule bi32.cut_list [OF _ sane_i32 [OF assms(1)] sane_i32 [OF assms(2)] conjunct2 [OF 2]]) simp
  then show ?thesis using 1 2 by (cases m; cases k) (auto split: if_splits)
qed

interpretation monitors: prefix_free monitor_bytes is_sane
  by unfold_locales (rule monitor_cut)

section \<open>Words and arrangements\<close>

definition hex_then :: "string \<Rightarrow> nat \<Rightarrow> string" where "hex_then node seq = node @ be32 seq"

lemma hex_cut:
  assumes "is_hex64 a" "is_hex64 b" "m < 2 ^ 32" "n < 2 ^ 32" "hex_then a m @ r = hex_then b n @ s"
  shows "a = b \<and> m = n \<and> r = s"
proof -
  have "length a = length b" using assms(1,2) by (simp add: is_hex64_def)
  then have "a = b" "be32 m @ r = be32 n @ s" using assms(5) by (auto simp: hex_then_def)
  then show ?thesis using b32.cut assms(3,4) by blast
qed

definition word_fits :: "string \<times> nat \<times> monitor list \<Rightarrow> bool" where
  "word_fits w \<longleftrightarrow> is_hex64 (fst w) \<and> fst (snd w) \<le> MAX_SEQ \<and> length (snd (snd w)) \<le> MAX_MONITORS \<and>
     list_all is_sane (snd (snd w))"

definition word_bytes :: "string \<times> nat \<times> monitor list \<Rightarrow> string" where
  "word_bytes w = monitors_bytes (fst w) (fst (snd w)) (snd (snd w))"

lemma word_cut:
  assumes "word_fits v" "word_fits w" "word_bytes v @ r = word_bytes w @ s"
  shows "v = w \<and> r = s"
proof -
  obtain d m xs e n ys where vw: "v = (d, m, xs)" "w = (e, n, ys)" by (metis prod.exhaust)
  have bytes: "word_bytes (d, m, xs) @ r =
      DOMAIN_MONITORS @ hex_then d m @ be32 (length xs) @ concat (map monitor_bytes xs) @ r" for d m xs r
    by (simp add: word_bytes_def monitors_bytes_def hex_then_def)
  have fits: "is_hex64 d" "is_hex64 e" "m < 2 ^ 32" "n < 2 ^ 32" "length xs < 2 ^ 32" "length ys < 2 ^ 32"
    "list_all is_sane xs" "list_all is_sane ys"
    using assms(1,2) by (auto simp: vw word_fits_def MAX_SEQ_def MAX_MONITORS_def)
  have "hex_then d m @ be32 (length xs) @ concat (map monitor_bytes xs) @ r =
      hex_then e n @ be32 (length ys) @ concat (map monitor_bytes ys) @ s"
    using assms(3) unfolding vw bytes by simp
  from hex_cut [OF fits(1-4) this] have 1: "d = e" "m = n"
    "be32 (length xs) @ concat (map monitor_bytes xs) @ r = be32 (length ys) @ concat (map monitor_bytes ys) @ s" by auto
  from b32.cut [OF fits(5,6) 1(3)] have 2: "length xs = length ys"
    "concat (map monitor_bytes xs) @ r = concat (map monitor_bytes ys) @ s" by auto
  from monitors.cut_list [OF 2(1) fits(7,8) 2(2)] 1 show ?thesis by (simp add: vw)
qed

interpretation words: prefix_free word_bytes word_fits
  by unfold_locales (rule word_cut)

lemma word_bytes_some: "word_bytes w \<noteq> []"
  by (simp add: word_bytes_def monitors_bytes_def DOMAIN_MONITORS_def)

definition spot_fits :: "string \<times> spot \<Rightarrow> bool" where
  "spot_fits q \<longleftrightarrow> split_spot_key (fst q) \<noteq> None \<and> in_extent (sp_x (snd q)) \<and> in_extent (sp_y (snd q))"

lemma spot_key_short: "split_spot_key k \<noteq> None \<Longrightarrow> length k < 2 ^ 16"
  by (auto simp: split_spot_key_def is_hex64_def MAX_ID_def split_once_Some split: option.splits if_splits dest!: split_once_Some)

lemma spot_cut:
  assumes "spot_fits a" "spot_fits b" "spot_bytes a @ r = spot_bytes b @ s"
  shows "a = b \<and> r = s"
proof -
  obtain k u l v where ab: "a = (k, u)" "b = (l, v)" by fastforce
  have bytes: "spot_bytes (k, u) @ r = counted k @ be_i32 (sp_x u) @ be_i32 (sp_y u) @ r" for k u r
    by (simp add: spot_bytes_def counted_def)
  have short: "length k < 2 ^ 16" "length l < 2 ^ 16" using assms(1,2) spot_key_short by (simp_all add: spot_fits_def ab)
  have ext: "I32_MIN \<le> sp_x u \<and> sp_x u \<le> I32_MAX" "I32_MIN \<le> sp_x v \<and> sp_x v \<le> I32_MAX"
    "I32_MIN \<le> sp_y u \<and> sp_y u \<le> I32_MAX" "I32_MIN \<le> sp_y v \<and> sp_y v \<le> I32_MAX"
    using assms(1,2) extent_i32 by (simp_all add: spot_fits_def ab)
  note 1 = text16.cut [OF short assms(3) [unfolded ab bytes]]
  note 2 = bi32.cut [OF ext(1,2) conjunct2 [OF 1]]
  note 3 = bi32.cut [OF ext(3,4) conjunct2 [OF 2]]
  show ?thesis using 1 2 3 by (simp add: ab)
qed

interpretation spots: prefix_free spot_bytes spot_fits
  by unfold_locales (rule spot_cut)

type_synonym arrangement = "string \<times> nat \<times> (string, spot) btree"

definition arrangement_fits :: "arrangement \<Rightarrow> bool" where
  "arrangement_fits a \<longleftrightarrow> is_hex64 (fst a) \<and> fst (snd a) \<le> MAX_SEQ \<and> length (snd (snd a)) \<le> MAX_SPOTS \<and>
     list_all spot_fits (snd (snd a))"

lemma arrangement_cut:
  assumes "arrangement_fits (d, m, xs)" "arrangement_fits (e, n, ys)"
    "placement_bytes d m xs @ r = placement_bytes e n ys @ s"
  shows "d = e \<and> m = n \<and> xs = ys \<and> r = s"
proof -
  have bytes: "placement_bytes d m xs @ r =
      DOMAIN_PLACEMENT @ hex_then d m @ be32 (length xs) @ concat (map spot_bytes xs) @ r" for d m xs r
    by (simp add: placement_bytes_def hex_then_def)
  have fits: "is_hex64 d" "is_hex64 e" "m < 2 ^ 32" "n < 2 ^ 32" "length xs < 2 ^ 32" "length ys < 2 ^ 32"
    "list_all spot_fits xs" "list_all spot_fits ys"
    using assms(1,2) by (auto simp: arrangement_fits_def MAX_SEQ_def MAX_SPOTS_def MAX_DEVICES_def MAX_MONITORS_def)
  have "hex_then d m @ be32 (length xs) @ concat (map spot_bytes xs) @ r =
      hex_then e n @ be32 (length ys) @ concat (map spot_bytes ys) @ s"
    using assms(3) unfolding bytes by simp
  from hex_cut [OF fits(1-4) this] have 1: "d = e" "m = n"
    "be32 (length xs) @ concat (map spot_bytes xs) @ r = be32 (length ys) @ concat (map spot_bytes ys) @ s" by auto
  from b32.cut [OF fits(5,6) 1(3)] have 2: "length xs = length ys"
    "concat (map spot_bytes xs) @ r = concat (map spot_bytes ys) @ s" by auto
  from spots.cut_list [OF 2(1) fits(7,8) 2(2)] 1 show ?thesis by simp
qed

section \<open>The bytes of a plane\<close>

definition plane_words :: "plane \<Rightarrow> (string \<times> nat \<times> monitor list) list" where
  "plane_words p = map (\<lambda>q. (fst q, me_seq (snd q), me_list (snd q))) (filter (\<lambda>q. me_verified (snd q)) (pn_monitors p))"

definition plane_arrangement :: "plane \<Rightarrow> arrangement option" where
  "plane_arrangement p = map_option (\<lambda>a. (pl_by a, pl_seq a, pl_spots a)) (pn_placement p)"

lemma plane_bytes_words:
  "plane_bytes p =
     (case plane_arrangement p of None \<Rightarrow> ''1device-input:no-placement'' | Some (d, m, xs) \<Rightarrow> placement_bytes d m xs) @
     concat (map word_bytes (plane_words p))"
proof -
  have "concat (map (\<lambda>(d, e). if me_verified e then monitors_bytes d (me_seq e) (me_list e) else []) ms) =
      concat (map word_bytes (map (\<lambda>q. (fst q, me_seq (snd q), me_list (snd q))) (filter (\<lambda>q. me_verified (snd q)) ms)))" for ms
    by (induction ms) (auto simp: word_bytes_def)
  then show ?thesis by (auto simp: plane_bytes_def plane_words_def plane_arrangement_def split: option.splits)
qed

lemma plane_words_fit: "plane_ok n p \<Longrightarrow> list_all word_fits (plane_words p)"
  by (auto simp: plane_ok_def plane_words_def word_fits_def entry_ok_def list_all_iff)

lemma plane_arrangement_fits: "plane_ok n p \<Longrightarrow> pred_option arrangement_fits (plane_arrangement p)"
  by (cases "pn_placement p")
    (auto simp: plane_ok_def plane_arrangement_def arrangement_fits_def placement_ok_def spots_ok_def spot_fits_def list_all_iff)

lemma no_placement_cut: "''1device-input:no-placement'' @ r \<noteq> placement_bytes d m xs @ s"
  by (simp add: placement_bytes_def DOMAIN_PLACEMENT_def)

lemma plane_bytes_name_the_plane:
  assumes "plane_ok n p" "plane_ok k q" "plane_bytes p = plane_bytes q"
  shows "plane_words p = plane_words q \<and> plane_arrangement p = plane_arrangement q"
proof -
  have words: "plane_words p = plane_words q" if "concat (map word_bytes (plane_words p)) = concat (map word_bytes (plane_words q))"
    by (rule words.cut_all [OF word_bytes_some plane_words_fit [OF assms(1)] plane_words_fit [OF assms(2)] that])
  note fits = plane_arrangement_fits [OF assms(1)] plane_arrangement_fits [OF assms(2)]
  note eq = assms(3) [unfolded plane_bytes_words]
  show ?thesis
  proof (cases "plane_arrangement p")
    case None
    then have "plane_arrangement q = None"
      using eq no_placement_cut by (cases "plane_arrangement q") fastforce+
    then show ?thesis using None eq words by simp
  next
    case (Some a)
    obtain d m xs where a: "a = (d, m, xs)" by (metis prod.exhaust)
    obtain e l ys where b: "plane_arrangement q = Some (e, l, ys)"
      using eq Some a no_placement_cut [of _ d m xs] by (cases "plane_arrangement q") (auto, metis)
    have fab: "arrangement_fits (d, m, xs)" "arrangement_fits (e, l, ys)" using fits Some a b by simp_all
    have "placement_bytes d m xs @ concat (map word_bytes (plane_words p)) =
        placement_bytes e l ys @ concat (map word_bytes (plane_words q))"
      using eq Some a b by simp
    from arrangement_cut [OF fab this] show ?thesis using Some a b words by simp
  qed
qed

end
