(* ===== verification/LayoutFacts.thy ===== *)
theory LayoutFacts
  imports InputGraph PlaneId
begin

text \<open>
  What the layout and the crossings promise: coordinates stay far inside their width, a crossing lands on
  the screen it is a crossing to and can be undone, a guard that forbids is obeyed, and the layout is a
  function of the bytes the plane id hashes.
\<close>

section \<open>Coordinates\<close>

definition placed_ok :: "int \<Rightarrow> placed \<Rightarrow> bool" where
  "placed_ok b m \<longleftrightarrow> is_sane (pc_own m) \<and> pc_w m = mo_w (pc_own m) \<and> pc_h m = mo_h (pc_own m) \<and>
     pc_key m = spot_key (pc_node_id m) (mo_id (pc_own m)) \<and>
     - MAX_EXTENT \<le> pc_x m \<and> pc_x m + pc_w m \<le> b \<and> - MAX_EXTENT \<le> pc_y m \<and> pc_y m + pc_h m \<le> 2 * MAX_EXTENT"

definition laid_ok :: "int \<Rightarrow> (string, placed) btree \<Rightarrow> bool" where
  "laid_ok b out \<longleftrightarrow> bt_ok out \<and> list_all (\<lambda>q. placed_ok b (snd q) \<and> fst q = pc_key (snd q)) out"

lemma sane_size: "is_sane m \<Longrightarrow> 0 < mo_w m \<and> 0 < mo_h m \<and> mo_w m \<le> MAX_EXTENT \<and> mo_h m \<le> MAX_EXTENT \<and>
    - MAX_EXTENT \<le> mo_x m \<and> - MAX_EXTENT \<le> mo_y m \<and> mo_x m + mo_w m \<le> MAX_EXTENT \<and> mo_y m + mo_h m \<le> MAX_EXTENT"
  by (auto simp: is_sane_def in_extent_def checked_add_def split: if_splits)

lemma placed_ok_mono: "placed_ok b m \<Longrightarrow> b \<le> c \<Longrightarrow> placed_ok c m"
  by (simp add: placed_ok_def)

lemma laid_ok_mono: "laid_ok b out \<Longrightarrow> b \<le> c \<Longrightarrow> laid_ok c out"
  using placed_ok_mono by (fastforce simp: laid_ok_def list_all_iff)

lemma laid_ok_insert: "laid_ok b out \<Longrightarrow> placed_ok b m \<Longrightarrow> k = pc_key m \<Longrightarrow> laid_ok b (bt_insert k m out)"
  by (auto simp: laid_ok_def intro: list_all_bt_insert)

lemma sadd_exact: "I32_MIN \<le> a + b \<Longrightarrow> a + b \<le> I32_MAX \<Longrightarrow> sadd a b = a + b"
  by (simp add: sadd_def sat_i32_def)

lemma ssub_exact: "I32_MIN \<le> a - b \<Longrightarrow> a - b \<le> I32_MAX \<Longrightarrow> ssub a b = a - b"
  by (simp add: ssub_def sat_i32_def)

lemmas extents = I32_MIN_def I32_MAX_def MAX_EXTENT_def

text \<open>A bound below which no sum or difference of two coordinates saturates.\<close>

definition roomy :: "int \<Rightarrow> bool" where "roomy b \<longleftrightarrow> 0 \<le> b \<and> b \<le> 100 * MAX_EXTENT"

lemma placed_edges:
  assumes "placed_ok b m" "roomy b"
  shows "pc_right m = pc_x m + pc_w m" "pc_bottom m = pc_y m + pc_h m" "0 < pc_w m" "0 < pc_h m"
    "- MAX_EXTENT \<le> pc_x m" "pc_x m + pc_w m \<le> b" "- MAX_EXTENT \<le> pc_y m" "pc_y m + pc_h m \<le> 2 * MAX_EXTENT"
  using assms sane_size [of "pc_own m"]
  by (auto simp: placed_ok_def roomy_def pc_right_def pc_bottom_def sadd_exact extents)

lemma place_at_ok:
  assumes "is_sane m" "- MAX_EXTENT \<le> x" "x + mo_w m \<le> b" "- MAX_EXTENT \<le> y" "y + mo_h m \<le> 2 * MAX_EXTENT"
  shows "placed_ok b (place_at d m x y here)"
  using assms by (simp add: placed_ok_def place_at_def)

lemma foldl_inv: "I s \<Longrightarrow> (\<And>s x. I s \<Longrightarrow> x \<in> set xs \<Longrightarrow> I (f s x)) \<Longrightarrow> I (foldl f s xs)"
  by (induction xs rule: rev_induct) auto

lemma spot_of_extent:
  assumes "pred_option placement_ok (pn_placement p)" "spot_of p d m = Some s"
  shows "in_extent (sp_x s) \<and> in_extent (sp_y s)"
proof -
  obtain a where "placement_ok a" "(spot_key d (mo_id m), s) \<in> set (pl_spots a)"
    using assms by (auto simp: spot_of_def bind_Some_iff dest!: map_of_SomeD)
  then show ?thesis by (fastforce simp: placement_ok_def spots_ok_def list_all_iff)
qed

lemma place_block_ok:
  assumes "pred_option placement_ok (pn_placement p)" "list_all is_sane ms" "laid_ok b out" "2 * MAX_EXTENT \<le> b"
  shows "laid_ok b (place_block p d here ms out)"
  unfolding place_block_def Let_def
proof (rule foldl_inv [where I = "laid_ok b", OF assms(3)])
  fix out m assume out: "laid_ok b out" and "m \<in> set ms"
  then have sane: "is_sane m" using assms(2) by (simp add: list_all_iff)
  let ?s = "case spot_of p d m of None \<Rightarrow> \<lparr>sp_x = mo_x m, sp_y = mo_y m\<rparr> | Some s \<Rightarrow> s"
  have "- MAX_EXTENT \<le> sp_x ?s" "sp_x ?s \<le> MAX_EXTENT" "- MAX_EXTENT \<le> sp_y ?s" "sp_y ?s \<le> MAX_EXTENT"
    using spot_of_extent [OF assms(1), of d m] sane_size [OF sane]
    by (auto simp: in_extent_def split: option.splits)
  then have "placed_ok b (place_at d m (sp_x ?s) (sp_y ?s) here)"
    using sane_size [OF sane] assms(4) by (intro place_at_ok [OF sane]) auto
  then show "laid_ok b (bt_insert (spot_key d (mo_id m)) (place_at d m (sp_x ?s) (sp_y ?s) here) out)"
    using out by (simp add: laid_ok_insert place_at_def)
qed

lemma place_entries_ok:
  assumes "pred_option placement_ok (pn_placement p)" "list_all entry_ok es" "2 * MAX_EXTENT \<le> b" "laid_ok b (fst acc)"
  shows "laid_ok b (fst (foldl (place_entry p present) acc es))"
proof (rule foldl_inv [where I = "\<lambda>acc. laid_ok b (fst acc)", OF assms(4)])
  fix acc :: "(string, placed) btree \<times> string list" and e
  assume "laid_ok b (fst acc)" "e \<in> set es"
  moreover have "list_all is_sane (me_list (snd e))" using \<open>e \<in> set es\<close> assms(2) by (simp add: list_all_iff entry_ok_def)
  ultimately show "laid_ok b (fst (place_entry p present acc e))"
    using place_block_ok [OF assms(1) _ _ assms(3)] by (simp add: place_entry_def case_prod_beta)
qed

lemma ghost_ok:
  assumes "split_spot_key k = Some (d, i)" "in_extent (sp_x s)" "in_extent (sp_y s)" "2 * MAX_EXTENT \<le> b"
  shows "placed_ok b (ghost k d i s)" "pc_key (ghost k d i s) = k"
proof -
  have "k = spot_key d i"
    using assms(1) by (auto simp: split_spot_key_def spot_key_def split_once_Some split: option.splits if_splits)
  moreover have "i \<noteq> [] \<and> length i \<le> MAX_ID \<and> CHR ''/'' \<notin> set i \<and> CHR ''|'' \<notin> set i"
    using assms(1) by (auto simp: split_spot_key_def split: option.splits if_splits)
  ultimately show "placed_ok b (ghost k d i s)" using assms(2-4)
    by (simp add: placed_ok_def ghost_def is_sane_def in_extent_def checked_add_def extents)
  show "pc_key (ghost k d i s) = k" by (simp add: ghost_def)
qed

lemma place_ghosts_ok:
  assumes "list_all (\<lambda>q. split_spot_key (fst q) \<noteq> None \<and> in_extent (sp_x (snd q)) \<and> in_extent (sp_y (snd q))) spots"
    "2 * MAX_EXTENT \<le> b" "laid_ok b out"
  shows "laid_ok b (foldl (place_ghost p) out spots)"
proof (rule foldl_inv [where I = "laid_ok b", OF assms(3)])
  fix out q assume out: "laid_ok b out" and "q \<in> set spots"
  then obtain d i where split: "split_spot_key (fst q) = Some (d, i)" and ext: "in_extent (sp_x (snd q))" "in_extent (sp_y (snd q))"
    using assms(1) by (fastforce simp: list_all_iff)
  have "laid_ok b (bt_insert (fst q) (ghost (fst q) d i (snd q)) out)"
    using out ghost_ok [OF split ext assms(2)] by (intro laid_ok_insert) simp_all
  then show "laid_ok b (place_ghost p out q)" using out split by (simp add: place_ghost_def case_prod_beta)
qed

lemma foldl_min_le: "foldl min a xs \<le> (a::int) \<and> (\<forall>x \<in> set xs. foldl min a xs \<le> x)"
proof (induction xs arbitrary: a)
  case (Cons x xs)
  from Cons [of "min a x"] show ?case by auto
qed simp

lemma foldl_min_in: "foldl min a xs \<in> insert (a::int) (set xs)"
  by (induction xs arbitrary: a) (auto simp: min_def)

lemma foldl_max_in: "foldl max a xs \<in> insert (a::int) (set xs)"
  by (induction xs arbitrary: a) (auto simp: max_def)

lemma minimum_or_le: "x \<in> set xs \<Longrightarrow> minimum_or d xs \<le> x"
  using foldl_min_le by (cases xs) auto

lemma minimum_or_in: "xs \<noteq> [] \<Longrightarrow> minimum_or d xs \<in> set xs"
  using foldl_min_in by (cases xs) auto

lemma maximum_or_in: "xs \<noteq> [] \<Longrightarrow> maximum_or d xs \<in> set xs"
  using foldl_max_in by (cases xs) auto

lemma offset_bounds:
  assumes "laid_ok b out" "roomy b"
  shows "- MAX_EXTENT \<le> maximum_or 0 (map (\<lambda>q. pc_right (snd q)) out)" "maximum_or 0 (map (\<lambda>q. pc_right (snd q)) out) \<le> b"
proof -
  have "- MAX_EXTENT \<le> r \<and> r \<le> b" if "r \<in> set (map (\<lambda>q. pc_right (snd q)) out)" for r
  proof -
    have "r \<in> (\<lambda>q. pc_right (snd q)) ` set out" using that by simp
    then obtain q where "q \<in> set out" "r = pc_right (snd q)" by (rule imageE)
    then show ?thesis using placed_edges [OF _ assms(2), of "snd q"] assms(1) by (auto simp: laid_ok_def list_all_iff)
  qed
  then have "out \<noteq> [] \<Longrightarrow> - MAX_EXTENT \<le> maximum_or 0 (map (\<lambda>q. pc_right (snd q)) out) \<and>
      maximum_or 0 (map (\<lambda>q. pc_right (snd q)) out) \<le> b"
    using maximum_or_in [of "map (\<lambda>q. pc_right (snd q)) out" 0] by blast
  then show "- MAX_EXTENT \<le> maximum_or 0 (map (\<lambda>q. pc_right (snd q)) out)" "maximum_or 0 (map (\<lambda>q. pc_right (snd q)) out) \<le> b"
    using assms(2) by (cases out; simp add: roomy_def MAX_EXTENT_def)+
qed

text \<open>One block nobody dragged, appended: two extents more.\<close>

lemma append_block_ok:
  assumes "list_all is_sane ms" "laid_ok b out" "roomy b" "2 * MAX_EXTENT \<le> b" "roomy (b + 2 * MAX_EXTENT)"
  shows "laid_ok (b + 2 * MAX_EXTENT) (append_block present d ms out)"
proof -
  let ?o = "maximum_or 0 (map (\<lambda>q. pc_right (snd q)) out)"
  let ?bx = "minimum_or 0 (map mo_x ms)" let ?by = "minimum_or 0 (map mo_y ms)"
  have off: "- MAX_EXTENT \<le> ?o" "?o \<le> b" by (rule offset_bounds [OF assms(2,3)])+
  have start: "laid_ok (b + 2 * MAX_EXTENT) out" by (rule laid_ok_mono [OF assms(2)]) (simp add: MAX_EXTENT_def)
  show ?thesis unfolding append_block_def Let_def
  proof (rule foldl_inv [where I = "laid_ok (b + 2 * MAX_EXTENT)", OF start])
    fix out m assume out: "laid_ok (b + 2 * MAX_EXTENT) out" and m: "m \<in> set ms"
    have sane: "is_sane m" using assms(1) m by (simp add: list_all_iff)
    have le: "?bx \<le> mo_x m" "?by \<le> mo_y m" using m by (auto intro: minimum_or_le)
    have "?bx \<in> set (map mo_x ms)" "?by \<in> set (map mo_y ms)"
      using m by (intro minimum_or_in; auto)+
    then have ge: "- MAX_EXTENT \<le> ?bx" "- MAX_EXTENT \<le> ?by" using assms(1) sane_size by (auto simp: list_all_iff)
    note size = sane_size [OF sane]
    have x: "ssub (mo_x m) ?bx = mo_x m - ?bx" "ssub (mo_y m) ?by = mo_y m - ?by"
      using le ge size by (intro ssub_exact; simp add: extents)+
    have "sadd ?o (mo_x m - ?bx) = ?o + (mo_x m - ?bx)"
      using le ge size off assms(5) by (intro sadd_exact) (simp_all add: extents roomy_def)
    then have "placed_ok (b + 2 * MAX_EXTENT) (place_at d m (sadd ?o (ssub (mo_x m) ?bx)) (ssub (mo_y m) ?by) (d \<in> set present))"
      using le ge size off by (intro place_at_ok [OF sane]) (simp_all add: x MAX_EXTENT_def)
    then show "laid_ok (b + 2 * MAX_EXTENT) (bt_insert (spot_key d (mo_id m))
        (place_at d m (sadd ?o (ssub (mo_x m) ?bx)) (ssub (mo_y m) ?by) (d \<in> set present)) out)"
      using out by (simp add: laid_ok_insert place_at_def)
  qed
qed

definition append_named :: "plane \<Rightarrow> string list \<Rightarrow> (string, placed) btree \<Rightarrow> string \<Rightarrow> (string, placed) btree" where
  "append_named p present out d =
     (case map_of (pn_monitors p) d of None \<Rightarrow> out | Some e \<Rightarrow> append_block present d (me_list e) out)"

lemma append_blocks_ok:
  assumes "list_all entry_ok (pn_monitors p)" "laid_ok (2 * MAX_EXTENT) out" "length ds \<le> 40"
  shows "laid_ok (2 * MAX_EXTENT * (1 + int (length ds))) (foldl (append_named p present) out ds)"
  using assms(3)
proof (induction ds rule: rev_induct)
  case Nil
  then show ?case using assms(2) by simp
next
  case (snoc d ds)
  let ?b = "2 * MAX_EXTENT * (1 + int (length ds))"
  have IH: "laid_ok ?b (foldl (append_named p present) out ds)" using snoc by simp
  have b: "?b + 2 * MAX_EXTENT = 2 * MAX_EXTENT * (1 + int (length (ds @ [d])))" by (simp add: algebra_simps)
  show ?case
  proof (cases "map_of (pn_monitors p) d")
    case None
    have "?b \<le> 2 * MAX_EXTENT * (1 + int (length (ds @ [d])))" by (simp add: MAX_EXTENT_def)
    from laid_ok_mono [OF IH this] show ?thesis
      unfolding foldl_append foldl.simps append_named_def [of _ _ "foldl _ _ _"] None by simp
  next
    case (Some e)
    then have "list_all is_sane (me_list e)" using assms(1) by (auto simp: list_all_iff entry_ok_def dest: map_of_SomeD)
    then have "laid_ok (?b + 2 * MAX_EXTENT) (append_block present d (me_list e) (foldl (append_named p present) out ds))"
      using snoc.prems by (intro append_block_ok IH) (simp_all add: roomy_def MAX_EXTENT_def)
    then show ?thesis
      unfolding b foldl_append foldl.simps append_named_def [of _ _ "foldl _ _ _"] Some by simp
  qed
qed

definition LAYOUT_BOUND :: int where "LAYOUT_BOUND = 2 * MAX_EXTENT * (2 + int MAX_DEVICES)"

lemma unplaced_few: "length (snd (foldl (place_entry p present) acc es)) \<le> length (snd acc) + length es"
proof (induction es rule: rev_induct)
  case (snoc e es)
  have "length (snd (place_entry p present a e)) \<le> Suc (length (snd a))" for a
    by (simp add: place_entry_def case_prod_beta)
  from this [of "foldl (place_entry p present) acc es"] snoc show ?case by simp
qed simp

lemma plane_entries_few: "plane_ok n p \<Longrightarrow> length (pn_monitors p) \<le> Suc MAX_DEVICES"
  using length_bt_remove [of "pn_monitors p" n] bt.del_absent [of "pn_monitors p" n]
  by (cases "map_of (pn_monitors p) n") (auto simp: plane_ok_def)

lemma lay_out_stages:
  "lay_out p present =
     (let (out, unplaced) = foldl (place_entry p present) ([], []) (pn_monitors p)
      in foldl (append_named p present)
           (case pn_placement p of None \<Rightarrow> out | Some a \<Rightarrow> foldl (place_ghost p) out (pl_spots a)) unplaced)"
  by (simp add: lay_out_def append_named_def [abs_def] Let_def)

lemma lay_out_ok:
  assumes "plane_ok n p"
  shows "laid_ok LAYOUT_BOUND (lay_out p present)"
proof -
  have ok: "pred_option placement_ok (pn_placement p)" "list_all entry_ok (pn_monitors p)"
    using assms by (simp_all add: plane_ok_def)
  obtain out unplaced where st: "foldl (place_entry p present) ([], []) (pn_monitors p) = (out, unplaced)" by fastforce
  have out: "laid_ok (2 * MAX_EXTENT) out"
    using place_entries_ok [OF ok, of "2 * MAX_EXTENT" "([], [])" present] st by (simp add: laid_ok_def)
  have few: "length unplaced \<le> Suc MAX_DEVICES"
    using unplaced_few [of p present "([], [])" "pn_monitors p"] plane_entries_few [OF assms] st by simp
  let ?g = "case pn_placement p of None \<Rightarrow> out | Some a \<Rightarrow> foldl (place_ghost p) out (pl_spots a)"
  have "laid_ok (2 * MAX_EXTENT) ?g"
  proof (cases "pn_placement p")
    case (Some a)
    then show ?thesis using ok(1) place_ghosts_ok [OF _ order_refl out] by (simp add: placement_ok_def spots_ok_def)
  qed (use out in simp)
  then have "laid_ok (2 * MAX_EXTENT * (1 + int (length unplaced))) (foldl (append_named p present) ?g unplaced)"
    using few by (intro append_blocks_ok [OF ok(2)]) (simp_all add: MAX_DEVICES_def)
  moreover have "2 * MAX_EXTENT * (1 + int (length unplaced)) \<le> LAYOUT_BOUND"
    using few by (simp add: LAYOUT_BOUND_def MAX_EXTENT_def)
  ultimately show ?thesis unfolding lay_out_stages st by (simp add: laid_ok_mono)
qed

lemma bound_roomy: "roomy LAYOUT_BOUND"
  by (simp add: roomy_def LAYOUT_BOUND_def MAX_EXTENT_def MAX_DEVICES_def)

lemma laid_edges:
  assumes "plane_ok n p" "map_of (lay_out p present) k = Some m"
  shows "placed_ok LAYOUT_BOUND m" "pc_key m = k" "pc_right m = pc_x m + pc_w m" "pc_bottom m = pc_y m + pc_h m"
    "0 < pc_w m" "0 < pc_h m"
proof -
  have "placed_ok LAYOUT_BOUND m \<and> k = pc_key m"
    using lay_out_ok [OF assms(1), of present] map_of_SomeD [OF assms(2)] by (auto simp: laid_ok_def list_all_iff)
  then show "placed_ok LAYOUT_BOUND m" "pc_key m = k" "pc_right m = pc_x m + pc_w m" "pc_bottom m = pc_y m + pc_h m"
    "0 < pc_w m" "0 < pc_h m" using placed_edges bound_roomy by auto
qed

text \<open>
  C32. Every rectangle of a laid-out plane keeps its own size, starts right of and below the plane's
  extent and ends within \<open>LAYOUT_BOUND\<close>, thirty-six million pixels, so that neither the saturating sums
  of the layout and of the edges, nor the plain subtractions between two edges, ever leave 32 bits.
\<close>

theorem no_coordinate_overflows:
  assumes "plane_ok n p" and "map_of (lay_out p present) k = Some a" and "map_of (lay_out p present) j = Some b"
  shows "pc_right a = pc_x a + pc_w a \<and> pc_bottom a = pc_y a + pc_h a \<and> pc_x a < pc_right a \<and> pc_y a < pc_bottom a \<and>
    pc_w a = mo_w (pc_own a) \<and> pc_h a = mo_h (pc_own a) \<and>
    - MAX_EXTENT \<le> pc_x a \<and> pc_right a \<le> LAYOUT_BOUND \<and> - MAX_EXTENT \<le> pc_y a \<and> pc_bottom a \<le> 2 * MAX_EXTENT \<and>
    \<bar>pc_x b - pc_right a\<bar> \<le> I32_MAX \<and> \<bar>pc_y b - pc_bottom a\<bar> \<le> I32_MAX"
  using laid_edges [OF assms(1,2)] laid_edges [OF assms(1,3)] placed_edges [OF _ bound_roomy, of a] placed_edges [OF _ bound_roomy, of b]
  by (simp add: placed_ok_def LAYOUT_BOUND_def extents MAX_DEVICES_def) linarith

section \<open>What the layout reads\<close>

definition word_lists :: "plane \<Rightarrow> (string \<times> monitor list) list" where
  "word_lists p = map (\<lambda>q. (fst q, me_list (snd q))) (filter (\<lambda>q. me_verified (snd q)) (pn_monitors p))"

definition spots_held :: "plane \<Rightarrow> (string, spot) btree option" where
  "spots_held p = map_option pl_spots (pn_placement p)"

lemma spot_of_held: "spot_of p d m = Option.bind (spots_held p) (\<lambda>s. map_of s (spot_key d (mo_id m)))"
  by (cases "pn_placement p") (simp_all add: spot_of_def spots_held_def)

definition place_word ::
  "plane \<Rightarrow> string list \<Rightarrow> (string, placed) btree \<times> string list \<Rightarrow> string \<times> monitor list \<Rightarrow> (string, placed) btree \<times> string list" where
  "place_word p present acc w =
     (if undragged p (fst w) (snd w) then (fst acc, snd acc @ [fst w])
      else (place_block p (fst w) (fst w \<in> set present) (snd w) (fst acc), snd acc))"

lemma entries_words:
  "foldl (place_entry p present) acc es =
   foldl (place_word p present) acc (map (\<lambda>q. (fst q, me_list (snd q))) (filter (\<lambda>q. me_verified (snd q)) es))"
  by (induction es arbitrary: acc) (auto simp: place_entry_def place_word_def split: prod.splits)

lemma word_lists_get:
  assumes "bt_ok (pn_monitors p)"
  shows "map_of (word_lists p) d =
    (case map_of (pn_monitors p) d of None \<Rightarrow> None | Some e \<Rightarrow> if me_verified e then Some (me_list e) else None)"
proof -
  have "distinct (map fst ms) \<Longrightarrow> map_of (map (\<lambda>q. (fst q, me_list (snd q))) (filter (\<lambda>q. me_verified (snd q)) ms)) d =
    (case map_of ms d of None \<Rightarrow> None | Some e \<Rightarrow> if me_verified e then Some (me_list e) else None)"
    for ms :: "(string \<times> monitors_entry) list"
    by (induction ms) (auto simp: map_of_eq_None_iff intro: rev_image_eqI split: option.splits)
  then show ?thesis using bt_ok_distinct [OF assms] by (simp add: word_lists_def)
qed

lemma word_lists_held:
  assumes "bt_ok (pn_monitors p)" "map_of (word_lists p) d = Some ms"
  obtains e where "map_of (pn_monitors p) d = Some e" "me_verified e" "me_list e = ms"
  using assms(2) unfolding word_lists_get [OF assms(1)] by (auto split: option.splits if_splits)

lemma place_word_named:
  "set (snd (foldl (place_word p present) acc ws)) \<subseteq> set (snd acc) \<union> fst ` set ws"
  by (induction ws rule: rev_induct) (auto simp: place_word_def)

lemma place_word_same:
  assumes "spots_held p = spots_held q"
  shows "place_word p = place_word q"
  unfolding place_word_def undragged_def place_block_def spot_of_held assms by simp

lemma foldl_same: "(\<And>a x. x \<in> set xs \<Longrightarrow> f a x = g a x) \<Longrightarrow> foldl f a xs = foldl g a xs"
  by (induction xs arbitrary: a) auto

lemma lay_out_reads:
  assumes bt: "bt_ok (pn_monitors p)" "bt_ok (pn_monitors q)"
    and same: "word_lists p = word_lists q" "spots_held p = spots_held q"
  shows "lay_out p present = lay_out q present"
proof -
  let ?st = "\<lambda>p. foldl (place_entry p present) ([], []) (pn_monitors p)"
  have st: "?st p = ?st q"
    unfolding entries_words word_lists_def [symmetric] same(1) place_word_same [OF same(2)] ..
  obtain out unplaced where two: "?st q = (out, unplaced)" by fastforce
  have "set (snd (?st q)) \<subseteq> fst ` set (word_lists q)"
    using place_word_named [of q present "([], [])"] unfolding entries_words word_lists_def [symmetric] by simp
  then have named: "\<forall>d \<in> set unplaced. \<exists>ms. map_of (word_lists q) d = Some ms"
    using two by (fastforce simp: weak_map_of_SomeI)
  have verified: "(case map_of (pn_monitors p) d of None \<Rightarrow> False | Some e \<Rightarrow> me_verified e) \<longleftrightarrow> map_of (word_lists p) d \<noteq> None"
    if "bt_ok (pn_monitors p)" for p d
    unfolding word_lists_get [OF that] by (cases "map_of (pn_monitors p) d") simp_all
  have ghosts: "place_ghost p = place_ghost q"
    unfolding place_ghost_def verified [OF bt(1)] verified [OF bt(2)] same(1) ..
  have append: "append_named p present a d = append_named q present a d" if here: "d \<in> set unplaced" for a d
  proof -
    obtain ms where "map_of (word_lists q) d = Some ms" using named here by blast
    moreover obtain e where "map_of (pn_monitors q) d = Some e" "me_list e = ms"
      using word_lists_held [OF bt(2) calculation] by blast
    moreover obtain f where "map_of (pn_monitors p) d = Some f" "me_list f = ms"
      using word_lists_held [OF bt(1), of d ms] calculation(1) same(1) by auto
    ultimately show ?thesis by (simp add: append_named_def)
  qed
  have drag: "(case pn_placement p of None \<Rightarrow> out | Some a \<Rightarrow> foldl (place_ghost p) out (pl_spots a)) =
      (case pn_placement q of None \<Rightarrow> out | Some a \<Rightarrow> foldl (place_ghost q) out (pl_spots a))"
    using same(2) by (auto simp: ghosts spots_held_def split: option.splits)
  show ?thesis unfolding lay_out_stages st two using drag by (simp add: foldl_same [OF append])
qed

text \<open>
  C33. Two devices whose planes have the same bytes under the plane id lay out the same screens at the same
  places, whatever unverified claims, pins, times and signatures either holds besides: an absolute
  coordinate means the same pixel on both.
\<close>

theorem the_layout_follows_the_plane_id:
  assumes "plane_ok n p" "plane_ok k q" "plane_bytes p = plane_bytes q"
  shows "lay_out p present = lay_out q present"
proof -
  have words: "word_lists p = map (\<lambda>w. (fst w, snd (snd w))) (plane_words p)" for p
    by (simp add: word_lists_def plane_words_def comp_def)
  have spots: "spots_held p = map_option (\<lambda>a. snd (snd a)) (plane_arrangement p)" for p
    by (simp add: spots_held_def plane_arrangement_def option.map_comp comp_def)
  show ?thesis
    using plane_bytes_name_the_plane [OF assms] assms(1,2)
    by (intro lay_out_reads) (simp_all add: plane_ok_def words spots)
qed

section \<open>Presence\<close>

text \<open>Which devices are here decides which screens are live, and nothing about where they are.\<close>

definition masked :: "string list \<Rightarrow> placed \<Rightarrow> placed" where
  "masked present m = m\<lparr>pc_present := pc_present m \<and> pc_node_id m \<in> set present\<rparr>"

definition mask_map :: "string list \<Rightarrow> (string, placed) btree \<Rightarrow> (string, placed) btree" where
  "mask_map present out = map (\<lambda>q. (fst q, masked present (snd q))) out"

lemma mask_fields [simp]:
  "pc_x (masked pr m) = pc_x m" "pc_y (masked pr m) = pc_y m" "pc_right (masked pr m) = pc_right m"
  "pc_bottom (masked pr m) = pc_bottom m" "pc_key (masked pr m) = pc_key m" "pc_node_id (masked pr m) = pc_node_id m"
  "pc_own (masked pr m) = pc_own m" "pc_present (masked pr m) \<longleftrightarrow> pc_present m \<and> pc_node_id m \<in> set pr"
  by (simp_all add: masked_def pc_right_def pc_bottom_def)

lemma mask_insert: "mask_map pr (bt_insert k m out) = bt_insert k (masked pr m) (mask_map pr out)"
  by (induction k m out rule: bt_insert.induct) (simp_all add: mask_map_def)

lemma mask_place [simp]: "masked pr (place_at d m x y True) = place_at d m x y (d \<in> set pr)"
  by (simp add: masked_def place_at_def)

lemma mask_ghost [simp]: "masked pr (ghost k d i s) = ghost k d i s"
  by (simp add: masked_def ghost_def)

lemma mask_get: "map_of (mask_map pr out) k = map_option (masked pr) (map_of out k)"
  unfolding mask_map_def by (rule map_of_map_snd)

lemma mask_rights: "map (\<lambda>q. pc_right (snd q)) (mask_map pr out) = map (\<lambda>q. pc_right (snd q)) out"
  by (simp add: mask_map_def masked_def pc_right_def)

lemma foldl_hom: "(\<And>a x. x \<in> set xs \<Longrightarrow> h (f a x) = g (h a) x) \<Longrightarrow> h (foldl f a xs) = foldl g (h a) xs"
  by (induction xs arbitrary: a) auto

lemma mask_block: "mask_map pr (place_block p d True ms out) = place_block p d (d \<in> set pr) ms (mask_map pr out)"
  unfolding place_block_def Let_def by (rule foldl_hom) (simp add: mask_insert)

lemma mask_entry:
  assumes "fst e \<in> set all"
  shows "map_prod (mask_map pr) id (place_entry p all acc e) = place_entry p pr (map_prod (mask_map pr) id acc) e"
  using assms by (simp add: place_entry_def case_prod_beta map_prod_def mask_block)

lemma mask_ghosts: "mask_map pr (place_ghost p out q) = place_ghost p (mask_map pr out) q"
  by (simp add: place_ghost_def case_prod_beta mask_get mask_insert split: option.splits)

lemma mask_append: "d \<in> set all \<Longrightarrow> mask_map pr (append_block all d ms out) = append_block pr d ms (mask_map pr out)"
  unfolding append_block_def Let_def mask_rights by (rule foldl_hom) (simp add: mask_insert)

lemma lay_out_mask: "lay_out p pr = mask_map pr (lay_out p (map fst (pn_monitors p)))"
proof -
  let ?all = "map fst (pn_monitors p)"
  obtain out unplaced where st: "foldl (place_entry p ?all) ([], []) (pn_monitors p) = (out, unplaced)" by fastforce
  have stp: "foldl (place_entry p pr) ([], []) (pn_monitors p) = (mask_map pr out, unplaced)"
    using foldl_hom [of "pn_monitors p" "map_prod (mask_map pr) id" "place_entry p ?all" "place_entry p pr" "([], [])"]
      mask_entry [of _ ?all pr p] st by (simp add: mask_map_def)
  let ?g = "\<lambda>out. case pn_placement p of None \<Rightarrow> out | Some a \<Rightarrow> foldl (place_ghost p) out (pl_spots a)"
  have ghosts: "mask_map pr (?g out) = ?g (mask_map pr out)"
    by (cases "pn_placement p")
      (simp_all add: foldl_hom [where h = "mask_map pr" and f = "place_ghost p" and g = "place_ghost p", OF mask_ghosts])
  have named: "mask_map pr (append_named p ?all a d) = append_named p pr (mask_map pr a) d" for a d
  proof (cases "map_of (pn_monitors p) d")
    case (Some e)
    then have "d \<in> set ?all" by (metis domI dom_map_of_conv_image_fst image_set)
    then show ?thesis using Some by (simp add: append_named_def mask_append)
  qed (simp add: append_named_def)
  show ?thesis unfolding lay_out_stages st stp
    by (simp add: foldl_hom [where h = "mask_map pr" and f = "append_named p ?all" and g = "append_named p pr", OF named] ghosts)
qed

section \<open>Crossings\<close>

lemma segment_in:
  "sg \<in> set (derive placed own) \<longleftrightarrow>
   (\<exists>a b. a \<in> snd ` set placed \<and> b \<in> snd ` set placed \<and> pc_node_id a = own \<and> pc_node_id b \<noteq> own \<and> pc_present b \<and>
      shared a b (sg_side sg) = Some (sg_lo sg, sg_hi sg) \<and> sg_from sg = pc_key a \<and> sg_to sg = pc_key b \<and>
      sg_node_id sg = pc_node_id b)"
proof -
  have between: "sg \<in> set (segments_between a b) \<longleftrightarrow>
      shared a b (sg_side sg) = Some (sg_lo sg, sg_hi sg) \<and> sg_from sg = pc_key a \<and> sg_to sg = pc_key b \<and>
      sg_node_id sg = pc_node_id b" for a b
  proof -
    have "sg_side sg \<in> set [SLeft, SRight, STop, SBottom]" by (cases "sg_side sg") simp_all
    then show ?thesis by (cases sg) (auto simp: segments_between_def List.map_filter_def)
  qed
  show ?thesis by (auto simp: derive_def between)
qed

lemma shared_back: "shared a b s = shared b a (opposite s)"
  by (cases s) (auto simp: shared_def Let_def max.commute min.commute abs_le_iff)

lemma mask_shared: "shared (masked pr a) (masked pr' b) s = shared a b s"
  by (cases s) (simp_all add: shared_def)

text \<open>
  C34. Every crossing can be undone: for each stretch of edge by which one device's live screen leads to
  another device's screen, the other device derives from the same plane, when it sees the first one
  present, the same stretch leading back.
\<close>

theorem every_crossing_can_be_undone:
  assumes ok: "plane_ok n p" and sg: "sg \<in> set (gr_segments (build p own present))"
    and live: "map_of (gr_placed (build p own present)) (sg_from sg) = Some a" "pc_present a" and here: "own \<in> set present'"
  shows "sg\<lparr>sg_from := sg_to sg, sg_to := sg_from sg, sg_node_id := own, sg_side := opposite (sg_side sg)\<rparr>
    \<in> set (gr_segments (build p (sg_node_id sg) present'))"
proof -
  let ?base = "lay_out p (map fst (pn_monitors p))"
  have laid: "laid_ok LAYOUT_BOUND ?base" by (rule lay_out_ok [OF ok])
  obtain a' b' where ab: "a' \<in> snd ` set (mask_map present ?base)" "b' \<in> snd ` set (mask_map present ?base)"
      "pc_node_id a' = own" "pc_node_id b' \<noteq> own" "shared a' b' (sg_side sg) = Some (sg_lo sg, sg_hi sg)"
      "sg_from sg = pc_key a'" "sg_to sg = pc_key b'" "sg_node_id sg = pc_node_id b'"
    using sg by (auto simp: build_def Let_def segment_in lay_out_mask [of p present])
  obtain x y where xy: "x \<in> set ?base" "a' = masked present (snd x)" "y \<in> set ?base" "b' = masked present (snd y)"
    using ab(1,2) by (auto simp: mask_map_def)
  have "fst x = pc_key (snd x)" using laid xy(1) by (simp add: laid_ok_def list_all_iff)
  moreover have "map_of ?base (fst x) = Some (snd x)"
    using laid xy(1) map_of_in_set [of ?base "fst x" "snd x"] by (simp add: laid_ok_def)
  ultimately have "a = a'" using live(1) ab(6) xy(2) by (simp add: build_def Let_def lay_out_mask [of p present] mask_get)
  then have px: "pc_present (snd x)" "pc_node_id (snd x) = own"
    using live(2) ab(3) xy(2) by simp_all
  have "masked present' (snd y) \<in> snd ` set (mask_map present' ?base)" "masked present' (snd x) \<in> snd ` set (mask_map present' ?base)"
    using xy(1,3) by (simp_all add: mask_map_def image_image)
  then show ?thesis
    unfolding build_def Let_def graph.simps segment_in lay_out_mask [of p present']
    using ab(3-) xy px here
    by (intro exI [of _ "masked present' (snd y)"] exI [of _ "masked present' (snd x)"])
      (simp add: mask_shared shared_back [symmetric])
qed

lemma shared_within:
  assumes "shared a b s = Some (lo, hi)"
  shows "lo < hi"
    "s \<in> {SLeft, SRight} \<Longrightarrow> pc_y a \<le> lo \<and> pc_y b \<le> lo \<and> hi \<le> pc_bottom a \<and> hi \<le> pc_bottom b"
    "s \<in> {STop, SBottom} \<Longrightarrow> pc_x a \<le> lo \<and> pc_x b \<le> lo \<and> hi \<le> pc_right a \<and> hi \<le> pc_right b"
  using assms by (cases s; auto simp: shared_def Let_def split: if_splits)+

lemma clamp_bounds: "lo \<le> hi \<Longrightarrow> lo \<le> clamp v lo hi \<and> clamp v lo hi \<le> hi"
  by (simp add: clamp_def)

lemma to_own_exact:
  assumes "placed_ok LAYOUT_BOUND m" "pc_x m \<le> x" "x < pc_x m + pc_w m" "pc_y m \<le> y" "y < pc_y m + pc_h m"
  shows "to_own m x y = (mo_x (pc_own m) + (x - pc_x m), mo_y (pc_own m) + (y - pc_y m))"
proof -
  have size: "pc_w m \<le> MAX_EXTENT" "pc_h m \<le> MAX_EXTENT" "- MAX_EXTENT \<le> mo_x (pc_own m)" "- MAX_EXTENT \<le> mo_y (pc_own m)"
    "mo_x (pc_own m) + pc_w m \<le> MAX_EXTENT" "mo_y (pc_own m) + pc_h m \<le> MAX_EXTENT"
    using assms(1) sane_size [of "pc_own m"] by (auto simp: placed_ok_def)
  have "ssub x (pc_x m) = x - pc_x m" "ssub y (pc_y m) = y - pc_y m"
    using assms(2-5) size by (intro ssub_exact; simp add: extents)+
  moreover have "sadd (mo_x (pc_own m)) (x - pc_x m) = mo_x (pc_own m) + (x - pc_x m)"
    "sadd (mo_y (pc_own m)) (y - pc_y m) = mo_y (pc_own m) + (y - pc_y m)"
    using assms(2-5) size by (intro sadd_exact; simp add: extents)+
  ultimately show ?thesis by (simp add: to_own_def)
qed

text \<open>The rectangle a machine gives its own monitor.\<close>

definition on_screen :: "monitor \<Rightarrow> int \<times> int \<Rightarrow> bool" where
  "on_screen m at \<longleftrightarrow> mo_x m \<le> fst at \<and> fst at < mo_x m + mo_w m \<and> mo_y m \<le> snd at \<and> snd at < mo_y m + mo_h m"

lemma segment_ends:
  assumes "plane_ok n p" "sg \<in> set (gr_segments (build p own present))"
  obtains a b where "map_of (gr_placed (build p own present)) (sg_from sg) = Some a"
    "map_of (gr_placed (build p own present)) (sg_to sg) = Some b"
    "pc_node_id a = own" "pc_node_id b = sg_node_id sg" "sg_node_id sg \<noteq> own" "pc_present b"
    "shared a b (sg_side sg) = Some (sg_lo sg, sg_hi sg)" "placed_ok LAYOUT_BOUND a" "placed_ok LAYOUT_BOUND b"
proof -
  let ?l = "lay_out p present"
  have laid: "laid_ok LAYOUT_BOUND ?l" by (rule lay_out_ok [OF assms(1)])
  obtain a b where ab: "a \<in> snd ` set ?l" "b \<in> snd ` set ?l" "pc_node_id a = own" "pc_node_id b \<noteq> own" "pc_present b"
      "shared a b (sg_side sg) = Some (sg_lo sg, sg_hi sg)" "sg_from sg = pc_key a" "sg_to sg = pc_key b"
      "sg_node_id sg = pc_node_id b"
    using assms(2) by (auto simp: build_def Let_def segment_in)
  have "map_of ?l (pc_key m) = Some m \<and> placed_ok LAYOUT_BOUND m" if m: "m \<in> snd ` set ?l" for m
  proof -
    obtain k where km: "(k, m) \<in> set ?l" using m by auto
    then have "k = pc_key m" "placed_ok LAYOUT_BOUND m" using laid by (auto simp: laid_ok_def list_all_iff)
    moreover have "map_of ?l k = Some m" using km laid map_of_in_set [of ?l k m] by (simp add: laid_ok_def)
    ultimately show ?thesis by simp
  qed
  then show thesis using that [of a b] ab by (simp add: build_def Let_def)
qed

text \<open>
  C35. A crossing lands on a screen: wherever along the edge the pointer leaves, the entry point is a
  pixel of the target monitor in its own machine's coordinates, and that monitor belongs to the device
  the session is started with.
\<close>

theorem a_crossing_lands_on_the_screen:
  assumes "plane_ok n p" and "sg \<in> set (gr_segments (build p own present))"
  shows "\<exists>m at. map_of (gr_placed (build p own present)) (sg_to sg) = Some m \<and> pc_node_id m = sg_node_id sg \<and>
    entry_point (build p own present) sg along = Some at \<and> on_screen (pc_own m) at"
proof -
  obtain a b where b: "map_of (gr_placed (build p own present)) (sg_to sg) = Some b" "pc_node_id b = sg_node_id sg"
      "shared a b (sg_side sg) = Some (sg_lo sg, sg_hi sg)" "placed_ok LAYOUT_BOUND a" "placed_ok LAYOUT_BOUND b"
    by (rule segment_ends [OF assms]) blast
  note edges = placed_edges [OF b(5) bound_roomy]
  note within = shared_within [OF b(3)]
  let ?l = "clamp along (sg_lo sg) (max (ssub (sg_hi sg) 1) (sg_lo sg))"
  have own: "pc_w b = mo_w (pc_own b)" "pc_h b = mo_h (pc_own b)" using b(5) by (simp_all add: placed_ok_def)
  have low: "- MAX_EXTENT \<le> sg_lo sg" using within edges by (cases "sg_side sg") auto
  have high: "sg_hi sg \<le> LAYOUT_BOUND"
    using within edges by (cases "sg_side sg") (auto simp: LAYOUT_BOUND_def MAX_EXTENT_def MAX_DEVICES_def)
  have last: "ssub (sg_hi sg) 1 = sg_hi sg - 1"
    using low high within(1) by (intro ssub_exact) (simp_all add: extents LAYOUT_BOUND_def MAX_DEVICES_def)
  have along: "sg_lo sg \<le> ?l" "?l < sg_hi sg"
    using clamp_bounds [of "sg_lo sg" "max (ssub (sg_hi sg) 1) (sg_lo sg)" along] within(1) by (auto simp: last)
  have ends: "ssub (pc_right b) 1 = pc_x b + pc_w b - 1" "ssub (pc_bottom b) 1 = pc_y b + pc_h b - 1"
    unfolding edges(1,2) using edges by (intro ssub_exact; simp add: extents LAYOUT_BOUND_def MAX_DEVICES_def)+
  obtain x y where xy: "entry_point (build p own present) sg along = Some (to_own b x y)"
    "pc_x b \<le> x" "x < pc_x b + pc_w b" "pc_y b \<le> y" "y < pc_y b + pc_h b"
    using b(1) edges within along ends
    by (cases "sg_side sg") (auto simp: entry_point_def Let_def)
  have "on_screen (pc_own b) (to_own b x y)"
    unfolding to_own_exact [OF b(5) xy(2-5)] using xy(2-5) by (simp add: on_screen_def own)
  then show ?thesis using b(1,2) xy(1) by blast
qed

section \<open>The guard chain\<close>

text \<open>Why a stretch the pointer is against does not let it through: the first guard of the chain that refuses.\<close>

definition refusal :: "(segment \<Rightarrow> guards) \<Rightarrow> u16 \<Rightarrow> int \<Rightarrow> segment \<Rightarrow> wall_reason option" where
  "refusal gf mods along s =
     (if gd_wall (gf s) then Some WRefused
      else if \<not> admits s along (gd_dead_corner (gf s)) then Some WCorner
      else if gd_require_mods (gf s) \<noteq> 0 \<and> and mods mods_HOLDABLE \<noteq> gd_require_mods (gf s) then Some WNeedsModifier
      else None)"

definition covers :: "segment \<Rightarrow> int \<Rightarrow> bool" where
  "covers s along \<longleftrightarrow> sg_lo s \<le> along \<and> along < sg_hi s"

definition at_stretch :: "graph \<Rightarrow> string \<Rightarrow> side \<Rightarrow> int \<Rightarrow> segment list" where
  "at_stretch g k s along = filter (\<lambda>sg. sg_from sg = k \<and> sg_side sg = s \<and> covers sg along) (gr_segments g)"

definition earliest :: "wall_reason option \<Rightarrow> wall_reason list \<Rightarrow> wall_reason option" where
  "earliest worst rs = foldl keep_earliest worst rs"

lemma try_segments_step:
  "try_segments gf mods along worst (s # ss) =
     (if \<not> covers s along then try_segments gf mods along worst ss
      else case refusal gf mods along s of
             None \<Rightarrow> Inl s | Some r \<Rightarrow> try_segments gf mods along (keep_earliest worst r) ss)"
  by (simp add: Let_def refusal_def covers_def)

lemma try_segments_find:
  "try_segments gf mods along worst ss =
     (case find (\<lambda>s. covers s along \<and> refusal gf mods along s = None) ss of
        Some s \<Rightarrow> Inl s
      | None \<Rightarrow> Inr (earliest worst (map (\<lambda>s. the (refusal gf mods along s)) (filter (\<lambda>s. covers s along) ss))))"
proof (induction ss arbitrary: worst)
  case (Cons s ss)
  then show ?case
    by (cases "covers s along"; cases "refusal gf mods along s") (simp_all add: try_segments_step earliest_def del: try_segments.simps(2) split: option.split)
qed (simp add: earliest_def)

lemma earliest_in: "earliest worst rs = Some r \<Longrightarrow> worst = Some r \<or> r \<in> set rs"
  by (induction rs arbitrary: worst) (fastforce simp: earliest_def keep_earliest_def split: if_splits option.splits)+

lemma earliest_least:
  "earliest worst rs = Some r \<Longrightarrow> (\<forall>q \<in> set rs. wall_rank r \<le> wall_rank q) \<and> (\<forall>q. worst = Some q \<longrightarrow> wall_rank r \<le> wall_rank q)"
proof (induction rs arbitrary: worst)
  case (Cons q rs)
  have "earliest (keep_earliest worst q) rs = Some r" using Cons.prems by (simp add: earliest_def)
  from Cons.IH [OF this] show ?case by (force simp: keep_earliest_def split: option.splits if_splits)
qed (simp add: earliest_def)

lemma earliest_some: "rs \<noteq> [] \<or> worst \<noteq> None \<Longrightarrow> earliest worst rs \<noteq> None"
  by (induction rs arbitrary: worst) (auto simp: earliest_def keep_earliest_def split: option.splits)

lemma at_stretch_filter:
  "filter (\<lambda>s. covers s along) (filter (\<lambda>sg. sg_from sg = k \<and> sg_side sg = s) (gr_segments g)) = at_stretch g k s along"
  by (simp add: at_stretch_def conj_ac)

lemma find_filter: "find (\<lambda>s. P s \<and> Q s) xs = find Q (filter P xs)"
  by (induction xs) auto

text \<open>Whether the screen across this stretch is one that is away.\<close>

definition away_here :: "graph \<Rightarrow> placed \<Rightarrow> side \<Rightarrow> int \<Rightarrow> bool" where
  "away_here g m s along \<longleftrightarrow>
     (\<exists>q \<in> set (gr_placed g). \<not> pc_present (snd q) \<and> (\<exists>lo hi. shared m (snd q) s = Some (lo, hi) \<and> lo \<le> along \<and> along < hi))"

lemma away_here_iff:
  "list_ex (\<lambda>q. \<not> pc_present (snd q) \<and> (case shared m (snd q) s of None \<Rightarrow> False | Some (lo, hi) \<Rightarrow> lo \<le> along \<and> along < hi))
     (gr_placed g) \<longleftrightarrow> away_here g m s along"
proof -
  have "(case o' of None \<Rightarrow> False | Some (lo, hi) \<Rightarrow> lo \<le> along \<and> along < hi) \<longleftrightarrow>
      (\<exists>lo hi. o' = Some (lo, hi) \<and> lo \<le> along \<and> along < hi)" for o' :: "(int \<times> int) option"
    by (auto split: option.split)
  then show ?thesis by (simp add: away_here_def list_ex_iff)
qed

text \<open>
  C36. A pointer pushed off a screen is told that the pointer is locked when it is, whatever is across.
  Otherwise it crosses by the first stretch there whose guards all let it, and when there is none the
  wall names the earliest refusal of the guard chain among the stretches it is against, whatever order
  they are in; against no stretch at all it says that a screen is away when one is, and nothing else.
\<close>

theorem the_guards_decide:
  assumes "map_of (gr_placed g) k = Some m" "\<not> pc_contains m x y" "pushed_side m x y = Some s"
  shows "if locked then at_edge g k x y mods locked gf = AWall WLocked
    else case find (\<lambda>sg. refusal gf mods (along_edge m s x y) sg = None) (at_stretch g k s (along_edge m s x y)) of
      Some sg \<Rightarrow> at_edge g k x y mods locked gf = ASegment sg
    | None \<Rightarrow> (\<exists>r. at_edge g k x y mods locked gf = AWall r \<and>
        (if at_stretch g k s (along_edge m s x y) = []
         then r = (if away_here g m s (along_edge m s x y) then WScreenAway else WNothing)
         else r \<in> (\<lambda>sg. the (refusal gf mods (along_edge m s x y) sg)) ` set (at_stretch g k s (along_edge m s x y)) \<and>
           (\<forall>sg \<in> set (at_stretch g k s (along_edge m s x y)). wall_rank r \<le> wall_rank (the (refusal gf mods (along_edge m s x y) sg)))))"
proof (cases locked)
  case True
  with assms show ?thesis by (simp add: at_edge_def)
next
  case unlocked: False
  let ?a = "along_edge m s x y" let ?c = "at_stretch g k s ?a"
  let ?rs = "map (\<lambda>sg. the (refusal gf mods ?a sg)) ?c"
  have tried: "try_segments gf mods ?a None (filter (\<lambda>sg. sg_from sg = k \<and> sg_side sg = s) (gr_segments g)) =
      (case find (\<lambda>sg. refusal gf mods ?a sg = None) ?c of Some s \<Rightarrow> Inl s | None \<Rightarrow> Inr (earliest None ?rs))"
    unfolding try_segments_find find_filter at_stretch_filter ..
  show ?thesis
  proof (cases "find (\<lambda>sg. refusal gf mods ?a sg = None) ?c")
    case (Some sg)
    then show ?thesis using assms unlocked by (simp add: at_edge_def tried)
  next
    case None
    show ?thesis
    proof (cases "?c = []")
      case True
      then show ?thesis using assms None unlocked
        by (simp add: at_edge_def tried away_here_iff earliest_def keep_earliest_def Let_def)
    next
      case False
      then obtain r where r: "earliest None ?rs = Some r" using earliest_some [of ?rs None] by auto
      have "at_edge g k x y mods locked gf = AWall r" using assms None unlocked by (simp add: at_edge_def tried r)
      then show ?thesis using None False unlocked earliest_in [OF r] earliest_least [OF r] by auto
    qed
  qed
qed

text \<open>
  Clamped to its monitor, the virtual cursor is on it: a push no stretch admits leaves the cursor where
  the next look at the edge finds it inside.
\<close>

theorem the_clamped_cursor_is_inside:
  assumes "plane_ok n p" "map_of (gr_placed (build p own present)) k = Some m"
  shows "at_edge (build p own present) k (fst (clamp_to (build p own present) k x y)) (snd (clamp_to (build p own present) k x y))
    mods locked gf = AInside"
proof -
  have m: "placed_ok LAYOUT_BOUND m" using laid_edges(1) [OF assms(1)] assms(2) by (simp add: build_def Let_def)
  note edges = placed_edges [OF m bound_roomy]
  have ends: "ssub (pc_x m + pc_w m) 1 = pc_x m + pc_w m - 1" "ssub (pc_y m + pc_h m) 1 = pc_y m + pc_h m - 1"
    using edges by (intro ssub_exact; simp add: extents LAYOUT_BOUND_def MAX_DEVICES_def)+
  have "pc_contains m (fst (clamp_to (build p own present) k x y)) (snd (clamp_to (build p own present) k x y))"
    using assms(2) edges(1-4) by (simp add: clamp_to_def pc_contains_def ends clamp_def)
  then show ?thesis using assms(2) by (simp add: at_edge_def)
qed

end
