(* ===== verification/PlaneWitnesses.thy ===== *)
theory PlaneWitnesses
  imports PlaneFacts LayoutFacts Canonical
begin

text \<open>
  Concrete planes for the witnesses: two devices with one screen each and the keys they sign with. A
  signature of the sample scheme is the key followed by the message.
\<close>

definition pnode_a :: string where "pnode_a = replicate 64 CHR ''a''"
definition pnode_b :: string where "pnode_b = replicate 64 CHR ''b''"
definition pkey :: "string \<Rightarrow> string" where "pkey n = replicate 63 CHR ''0'' @ take 1 n"

definition pidn :: "string \<Rightarrow> input_identity" where
  "pidn n = \<lparr>ii_public_hex = pkey n, ii_sign = (\<lambda>m. pkey n @ m)\<rparr>"

definition pvf :: "string \<Rightarrow> string \<Rightarrow> string \<Rightarrow> bool" where
  "pvf k m s \<longleftrightarrow> s = k @ m"

definition pscreen :: monitor where
  "pscreen = \<lparr>mo_id = ''DP-1'', mo_name = ''one'', mo_w = 1920, mo_h = 1080, mo_x = 0, mo_y = 0, mo_scale = 1000,
     mo_primary = True\<rparr>"

definition pword :: "string \<Rightarrow> monitors_entry" where
  "pword n = \<lparr>me_seq = 1, me_list = [pscreen], me_sig = pkey n @ monitors_bytes n 1 [pscreen], me_verified = True\<rparr>"

definition pspots :: "(string, spot) btree" where
  "pspots = [(spot_key pnode_b ''DP-1'', \<lparr>sp_x = 1920, sp_y = 0\<rparr>)]"

definition pplace :: placement where
  "pplace = \<lparr>pl_seq = 1, pl_by = pnode_a, pl_at = 0, pl_spots = pspots, pl_sig = pkey pnode_a @ placement_bytes pnode_a 1 pspots,
     pl_verified = True\<rparr>"

text \<open>Device a's plane with both words and an arrangement of its own.\<close>

definition pplane :: plane where
  "pplane = \<lparr>pn_monitors = [(pnode_a, pword pnode_a), (pnode_b, pword pnode_b)], pn_placement = Some pplace,
     pn_pins = [(pnode_a, pkey pnode_a), (pnode_b, pkey pnode_b)], pn_own = pnode_a\<rparr>"

text \<open>A plane with the two pins and nothing else, and a document of device b.\<close>

definition ppins :: plane where
  "ppins = plane_default\<lparr>pn_pins := pn_pins pplane\<rparr>"

definition pdoc :: json where
  "pdoc = jobj [(''d'', JStr INPUT_DIALECT), (''monitors'', JObj [(pnode_b, entry_json (pword pnode_b))]),
     (''placement'', placement_json pplace)]"

text \<open>Sixteen names nobody vouches for.\<close>

definition pclaims :: "(string, monitors_entry) btree" where
  "pclaims = map (\<lambda>c. (replicate 63 CHR ''0'' @ [c], (pword pnode_b)\<lparr>me_verified := False\<rparr>)) ''0123456789abcdef''"

section \<open>The samples are well-formed\<close>

lemma pnodes_hex [simp]: "is_hex64 pnode_a" "is_hex64 pnode_b"
  by (simp_all add: is_hex64_def pnode_a_def pnode_b_def list_all_iff is_lower_hex_def is_digit_def)

lemma pkeys_hex [simp]: "is_hex64 (pkey pnode_a)" "is_hex64 (pkey pnode_b)"
  by (simp_all add: is_hex64_def pkey_def pnode_a_def pnode_b_def list_all_iff is_lower_hex_def is_digit_def)

lemma pnodes_differ [simp]: "pnode_a < pnode_b" "pnode_a \<noteq> pnode_b" "pnode_b \<noteq> pnode_a" "\<not> pnode_b < pnode_a"
  by (simp_all add: pnode_a_def pnode_b_def numeral_eq_Suc)

lemma pidn_simps [simp]: "ii_public_hex (pidn n) = pkey n" "ii_sign (pidn n) m = pkey n @ m"
  by (simp_all add: pidn_def)

lemma pscreen_sane [simp]: "is_sane pscreen"
  by (simp add: is_sane_def pscreen_def in_extent_def checked_add_def MAX_ID_def MAX_NAME_def extents)

lemma hex_no_slash: "is_hex64 n \<Longrightarrow> CHR ''/'' \<notin> set n"
  by (fastforce simp: is_hex64_def list_all_iff is_lower_hex_def is_digit_def)

lemma split_of_spot_key:
  "is_hex64 n \<Longrightarrow> i \<noteq> [] \<Longrightarrow> length i \<le> MAX_ID \<Longrightarrow> CHR ''/'' \<notin> set i \<Longrightarrow> CHR ''|'' \<notin> set i \<Longrightarrow>
   split_spot_key (spot_key n i) = Some (n, i)"
  using hex_no_slash [of n] by (simp add: split_spot_key_def spot_key_def split_once_append)

lemma pspot_key [simp]: "split_spot_key (spot_key pnode_b ''DP-1'') = Some (pnode_b, ''DP-1'')"
  by (rule split_of_spot_key) (simp_all add: MAX_ID_def)

lemma pnode_lengths [simp]: "length pnode_a = 64" "length pnode_b = 64"
  by (simp_all add: pnode_a_def pnode_b_def)

lemma pspots_ok: "spots_ok pspots"
  by (simp add: spots_ok_def pspots_def MAX_SPOTS_def MAX_DEVICES_def MAX_MONITORS_def spots_bytes_def MAX_PLACEMENT_BYTES_def
      spot_key_def [of _ "''DP-1''"] pspot_key [unfolded spot_key_def] in_extent_def MAX_EXTENT_def bt_ok_Cons)

lemma pplace_ok: "placement_ok pplace"
  using pspots_ok by (simp add: placement_ok_def pplace_def MAX_SEQ_def)

lemma pword_ok: "entry_ok (pnode_a, pword pnode_a)" "entry_ok (pnode_b, pword pnode_b)"
  by (simp_all add: entry_ok_def pword_def MAX_SEQ_def MAX_MONITORS_def)

lemma pword_verified [simp]: "me_verified (pword n)" "me_seq (pword n) = 1" "me_list (pword n) = [pscreen]"
  by (simp_all add: pword_def)

lemma pplane_ok: "plane_ok pnode_a pplane"
  using pword_ok pplace_ok
  by (simp add: plane_ok_def pplane_def bt_ok_Cons pins_ok_def bt_remove_def MAX_DEVICES_def)

lemma pplane_honest: "faithful pvf pplane"
  by (simp add: faithful_def pplane_def held_as_def pvf_def pword_def pplace_def)

section \<open>Witnesses\<close>

lemma the_plane_keeps_its_shape_witness:
  "plane_ok pnode_a (foldl (plane_step pvf pnode_a (pidn pnode_a)) plane_default
     [OpOwn, OpPublish [pscreen], OpPin pnode_b (pkey pnode_b), OpPlace 0 pspots])"
  using the_plane_keeps_its_shape [of "pidn pnode_a" pnode_a "[OpOwn, OpPublish [pscreen], OpPin pnode_b (pkey pnode_b), OpPlace 0 pspots]" pvf]
    pspots_ok by (simp add: spots_ok_def)

lemma the_plane_file_brings_it_back_witness:
  "from_stored pvf (to_stored pplane) = Some (pplane\<lparr>pn_own := []\<rparr>)"
  using the_plane_file_brings_it_back [OF pplane_ok pplane_honest] by (simp add: pplane_def MAX_DEVICES_def)

definition pfull :: plane where
  "pfull = plane_default\<lparr>pn_monitors := pclaims, pn_own := pnode_b\<rparr>"

lemma pfull_ok: "plane_ok pnode_b pfull" "length (pn_monitors pfull) = MAX_DEVICES" "map_of (pn_monitors pfull) pnode_b = None"
proof -
  have keys: "map fst pclaims = map (\<lambda>c. replicate 63 CHR ''0'' @ [c]) ''0123456789abcdef''"
    by (simp add: pclaims_def)
  have "sorted_wrt (<) (map (\<lambda>c. xs @ [c]) ''0123456789abcdef'')" for xs :: string
    by (induction xs) (simp_all add: sorted_wrt_map)
  then have bt: "bt_ok pclaims" unfolding bt_ok_def keys .
  have "pnode_b \<notin> fst ` set pclaims"
    by (auto simp: pclaims_def pnode_b_def numeral_eq_Suc)
  then show none: "map_of (pn_monitors pfull) pnode_b = None"
    by (simp add: pfull_def plane_default_def map_of_eq_None_iff)
  show len: "length (pn_monitors pfull) = MAX_DEVICES" by (simp add: pfull_def plane_default_def pclaims_def MAX_DEVICES_def)
  have "list_all entry_ok pclaims"
    by (simp add: pclaims_def entry_ok_def MAX_SEQ_def MAX_MONITORS_def is_hex64_def list_all_iff is_lower_hex_def is_digit_def)
  then show "plane_ok pnode_b pfull"
    using bt len none length_remove_le [of pnode_b "pn_monitors pfull"]
    by (simp add: plane_ok_def pfull_def plane_default_def pins_ok_def)
qed

lemma a_full_table_is_lost_at_restart_witness:
  "from_stored pvf (to_stored (snd (publish_monitors pnode_b (pidn pnode_b) [pscreen] pfull))) =
    Some (plane_default\<lparr>pn_pins := [(pnode_b, pkey pnode_b)]\<rparr>)"
  using a_full_table_is_lost_at_restart [OF pfull_ok(1) _ _ pfull_ok(2,3), of "pidn pnode_b" pvf "[pscreen]"]
  by (simp add: pfull_def plane_default_def)

lemma pdoc_get:
  "jget pdoc ''d'' = Some (JStr INPUT_DIALECT)" "jget pdoc ''key'' = None"
  "jget pdoc ''monitors'' = Some (JObj [(pnode_b, entry_json (pword pnode_b))])"
  "jget pdoc ''placement'' = Some (placement_json pplace)"
  by (simp_all add: pdoc_def jget_jobj)

lemma ppins_simps [simp]: "pn_monitors ppins = []" "pn_placement ppins = None" "pn_own ppins = []"
  "pn_pins ppins = [(pnode_a, pkey pnode_a), (pnode_b, pkey pnode_b)]"
  by (simp_all add: ppins_def plane_default_def pplane_def)

lemma pdoc_settled: "key_settled p (f, pdoc)"
  by (simp add: key_settled_def str_of_def pdoc_get)

lemma pdoc_parts: "doc_parts pvf ppins pdoc = ([(pnode_b, pword pnode_b)], Some (pplace\<lparr>pl_verified := False\<rparr>))"
proof -
  have "read_monitors pvf ppins (pnode_b, entry_json (pword pnode_b)) =
      Some (pnode_b, (pword pnode_b)\<lparr>me_verified := held_as pvf ppins pnode_b (pword pnode_b)\<rparr>)"
    by (rule entry_back [OF pword_ok(2)]) (simp_all add: entry_json_def entry_fields_def jget_jobj)
  moreover have "held_as pvf ppins pnode_b (pword pnode_b)" by (simp add: held_as_def pvf_def pword_def)
  then have "(pword pnode_b)\<lparr>me_verified := held_as pvf ppins pnode_b (pword pnode_b)\<rparr> = pword pnode_b"
    by (simp add: pword_def)
  ultimately have "monitors_of pvf ppins (jget pdoc ''monitors'') = Some [(pnode_b, pword pnode_b)]"
    by (simp add: pdoc_get monitors_of_def MAX_DEVICES_def)
  moreover have "placement_of (jget pdoc ''placement'') = Some (Some (pplace\<lparr>pl_verified := False\<rparr>))"
    using placement_back [OF pplace_ok] pplace_ok
    by (simp add: pdoc_get placement_of_def placement_ok_def spots_ok_def placement_json_def jobj_def)
  ultimately show ?thesis by (simp add: doc_parts_def str_of_def pdoc_get)
qed

lemma the_newest_words_stand_witness:
  "visible (hear_docs pvf [(pnode_b, pdoc), (pnode_b, pdoc)] ppins) pnode_b = Some (pword pnode_b)"
proof -
  have words: "words_in pvf ppins [(pnode_b, pdoc), (pnode_b, pdoc)] = [(pnode_b, pword pnode_b), (pnode_b, pword pnode_b)]"
    by (simp add: words_in_def pdoc_parts)
  then have "verified_words (words_in pvf ppins [(pnode_b, pdoc), (pnode_b, pdoc)]) = {(pnode_b, pword pnode_b)}"
    by (auto simp: verified_words_def)
  then show ?thesis
    using the_newest_words_stand [of ppins "[(pnode_b, pdoc), (pnode_b, pdoc)]" pvf pnode_b "pword pnode_b"] pdoc_settled
    by (simp add: newest_word_def foreign_def MAX_DEVICES_def)
qed

lemma the_highest_arrangement_wins_witness:
  "pn_placement (hear_docs pvf [(pnode_b, pdoc)] ppins) = Some pplace"
proof -
  have "judged pvf ppins (pplace\<lparr>pl_verified := False\<rparr>) = Some pplace"
    by (simp add: judged_def pvf_def pplace_def)
  then have "List.map_filter (judged pvf ppins) (arrangements_in pvf ppins [(pnode_b, pdoc)]) = [pplace]"
    by (simp add: arrangements_in_def List.map_filter_def pdoc_parts)
  then show ?thesis
    using the_highest_arrangement_wins [of ppins "[(pnode_b, pdoc)]" pvf] pdoc_settled
    by (auto split: option.splits)
qed

text \<open>The size of an entry is the number of bytes the canonical writer gives it.\<close>
definition psize :: "json \<Rightarrow> nat" where
  "psize v = (case to_canonical_json json_escape v of Inl _ \<Rightarrow> 0 | Inr bytes \<Rightarrow> length bytes)"

lemma a_lost_word_is_not_refilled_witness:
  "visible (hear_docs pvf [(pnode_b, offer_plane psize (pkey pnode_b)
     (snd (publish_monitors pnode_b (pidn pnode_b) [] (hear_docs pvf [(pnode_a, pdoc)] (ppins\<lparr>pn_own := pnode_b\<rparr>)))))] pplane)
     pnode_b = Some (pword pnode_b)"
  using a_lost_word_is_not_refilled [of "ppins\<lparr>pn_own := pnode_b\<rparr>" pnode_b "[(pnode_a, pdoc)]" pplane "pword pnode_b"
      "pidn pnode_b" "[]" pvf psize] pdoc_settled
  by (simp add: pplane_def visible_def bt_ok_Cons)

section \<open>The laid-out sample\<close>

lemma pspot_keys [simp]:
  "spot_key pnode_a i \<noteq> spot_key pnode_b i" "spot_key pnode_b i \<noteq> spot_key pnode_a i" "spot_key pnode_a i < spot_key pnode_b i"
  "\<not> spot_key pnode_b i < spot_key pnode_a i"
  by (simp_all add: spot_key_def pnode_a_def pnode_b_def numeral_eq_Suc)

definition pa_screen :: placed where "pa_screen = place_at pnode_a pscreen 3840 0 True"
definition pb_screen :: placed where "pb_screen = place_at pnode_b pscreen 1920 0 True"

lemma pscreen_simps [simp]: "mo_id pscreen = ''DP-1''" "mo_w pscreen = 1920" "mo_h pscreen = 1080" "mo_x pscreen = 0" "mo_y pscreen = 0"
  by (simp_all add: pscreen_def)

lemma pspots_get: "spot_of pplane pnode_a pscreen = None" "spot_of pplane pnode_b pscreen = Some \<lparr>sp_x = 1920, sp_y = 0\<rparr>"
  by (simp_all add: spot_of_def pplane_def pplace_def pspots_def)

lemma pplane_laid:
  "lay_out pplane [pnode_a, pnode_b] = [(spot_key pnode_a ''DP-1'', pa_screen), (spot_key pnode_b ''DP-1'', pb_screen)]"
proof -
  have words: "word_lists pplane = [(pnode_a, [pscreen]), (pnode_b, [pscreen])]" by (simp add: word_lists_def pplane_def)
  have placed: "foldl (place_entry pplane [pnode_a, pnode_b]) ([], []) (pn_monitors pplane) =
      ([(spot_key pnode_b ''DP-1'', pb_screen)], [pnode_a])"
    unfolding entries_words word_lists_def [symmetric] words
    by (simp add: place_word_def undragged_def pspots_get place_block_def Let_def pb_screen_def)
  have appended: "append_block [pnode_a, pnode_b] pnode_a [pscreen] [(spot_key pnode_b ''DP-1'', pb_screen)] =
      [(spot_key pnode_a ''DP-1'', pa_screen), (spot_key pnode_b ''DP-1'', pb_screen)]"
    by (simp add: append_block_def Let_def pb_screen_def pa_screen_def place_at_def pc_right_def sadd_def ssub_def sat_i32_def extents)
  show ?thesis unfolding lay_out_stages placed
    by (simp add: pplane_def pplace_def pspots_def place_ghost_def append_named_def appended)
qed

lemma no_coordinate_overflows_witness:
  "pc_right pa_screen = pc_x pa_screen + pc_w pa_screen \<and> \<bar>pc_x pb_screen - pc_right pa_screen\<bar> \<le> I32_MAX"
proof -
  have "map_of (lay_out pplane [pnode_a, pnode_b]) (spot_key pnode_a ''DP-1'') = Some pa_screen"
    "map_of (lay_out pplane [pnode_a, pnode_b]) (spot_key pnode_b ''DP-1'') = Some pb_screen" by (simp_all add: pplane_laid)
  from no_coordinate_overflows [OF pplane_ok this] show ?thesis by blast
qed

text \<open>A plane that differs where the plane id does not look: an unverified claim and the time of the drag.\<close>

definition pother :: plane where
  "pother = pplane\<lparr>pn_monitors := pn_monitors pplane @ [(replicate 64 CHR ''c'', (pword pnode_b)\<lparr>me_verified := False\<rparr>)],
     pn_placement := Some (pplace\<lparr>pl_at := 7\<rparr>)\<rparr>"

lemma pother_ok: "plane_ok pnode_a pother"
proof -
  have "pnode_a < replicate 64 CHR ''c''" "pnode_b < replicate 64 CHR ''c''" "pnode_a \<noteq> replicate 64 CHR ''c''"
    by (simp_all add: pnode_a_def pnode_b_def numeral_eq_Suc)
  moreover have "entry_ok (replicate 64 CHR ''c'', (pword pnode_b)\<lparr>me_verified := False\<rparr>)"
    by (simp add: entry_ok_def MAX_SEQ_def MAX_MONITORS_def is_hex64_def list_all_iff is_lower_hex_def is_digit_def)
  ultimately show ?thesis using pplane_ok pplace_ok
    by (simp add: plane_ok_def pother_def pplane_def bt_ok_Cons bt_remove_def MAX_DEVICES_def placement_ok_def)
qed

lemma the_layout_follows_the_plane_id_witness:
  "lay_out pother [pnode_a, pnode_b] = [(spot_key pnode_a ''DP-1'', pa_screen), (spot_key pnode_b ''DP-1'', pb_screen)]"
  using the_layout_follows_the_plane_id [OF pother_ok pplane_ok, of "[pnode_a, pnode_b]"] pplane_laid
  by (simp add: plane_bytes_def pother_def) (simp add: pplane_def)

definition pcrossing :: segment where
  "pcrossing = \<lparr>sg_from = spot_key pnode_a ''DP-1'', sg_to = spot_key pnode_b ''DP-1'', sg_node_id = pnode_b, sg_side = SLeft,
     sg_lo = 0, sg_hi = 1080\<rparr>"

lemma pscreens_simps [simp]:
  "pc_x pa_screen = 3840" "pc_y pa_screen = 0" "pc_right pa_screen = 5760" "pc_bottom pa_screen = 1080" "pc_present pa_screen"
  "pc_node_id pa_screen = pnode_a" "pc_key pa_screen = spot_key pnode_a ''DP-1''" "pc_own pa_screen = pscreen"
  "pc_x pb_screen = 1920" "pc_y pb_screen = 0" "pc_right pb_screen = 3840" "pc_bottom pb_screen = 1080" "pc_present pb_screen"
  "pc_node_id pb_screen = pnode_b" "pc_key pb_screen = spot_key pnode_b ''DP-1''" "pc_own pb_screen = pscreen"
  by (simp_all add: pa_screen_def pb_screen_def place_at_def pc_right_def pc_bottom_def sadd_def sat_i32_def extents)

lemma pcrossing_in: "pcrossing \<in> set (gr_segments (build pplane pnode_a [pnode_a, pnode_b]))"
  unfolding build_def Let_def graph.simps segment_in pplane_laid
  by (intro exI [of _ pa_screen] exI [of _ pb_screen]) (simp add: pcrossing_def shared_def SNAP_def)

lemma every_crossing_can_be_undone_witness:
  "pcrossing\<lparr>sg_from := spot_key pnode_b ''DP-1'', sg_to := spot_key pnode_a ''DP-1'', sg_node_id := pnode_a, sg_side := SRight\<rparr>
    \<in> set (gr_segments (build pplane pnode_b [pnode_b, pnode_a]))"
  using every_crossing_can_be_undone [OF pplane_ok pcrossing_in, of pa_screen "[pnode_b, pnode_a]"]
  by (simp add: build_def Let_def pplane_laid) (simp add: pcrossing_def)

lemma a_crossing_lands_on_the_screen_witness:
  "\<exists>at. entry_point (build pplane pnode_a [pnode_a, pnode_b]) pcrossing 5000 = Some at \<and> on_screen pscreen at"
proof -
  have "map_of (gr_placed (build pplane pnode_a [pnode_a, pnode_b])) (sg_to pcrossing) = Some pb_screen"
    by (simp add: build_def Let_def pplane_laid pcrossing_def)
  then show ?thesis using a_crossing_lands_on_the_screen [OF pplane_ok pcrossing_in, of 5000] by auto
qed

lemma the_guards_decide_witness:
  "at_edge (build pplane pnode_a [pnode_a, pnode_b]) (spot_key pnode_a ''DP-1'') 3830 500 0 False
     (\<lambda>s. guards_default\<lparr>gd_wall := True\<rparr>) = AWall WRefused"
proof -
  let ?g = "build pplane pnode_a [pnode_a, pnode_b]" let ?k = "spot_key pnode_a ''DP-1''"
  let ?gf = "\<lambda>s. guards_default\<lparr>gd_wall := True\<rparr>"
  have placed: "map_of (gr_placed ?g) ?k = Some pa_screen" by (simp add: build_def Let_def pplane_laid)
  have push: "\<not> pc_contains pa_screen 3830 500" "pushed_side pa_screen 3830 500 = Some SLeft"
    by (simp_all add: pc_contains_def pushed_side_def)
  have along: "along_edge pa_screen SLeft 3830 500 = 500"
    by (simp add: along_edge_def clamp_def ssub_def sat_i32_def extents)
  have refused: "refusal ?gf 0 a s = Some WRefused" for a s by (simp add: refusal_def)
  have "pcrossing \<in> set (at_stretch ?g ?k SLeft 500)"
    using pcrossing_in by (simp add: at_stretch_def covers_def) (simp add: pcrossing_def)
  then have some: "at_stretch ?g ?k SLeft 500 \<noteq> []" by auto
  have none: "find (\<lambda>sg. refusal ?gf 0 500 sg = None) ss = None" for ss by (simp add: find_None_iff refused)
  show ?thesis using the_guards_decide [OF placed push, where locked = False and gf = ?gf and mods = 0] some
    unfolding along none by (auto simp: refused)
qed

lemma the_clamped_cursor_is_inside_witness:
  "at_edge (build pplane pnode_a [pnode_a, pnode_b]) (spot_key pnode_a ''DP-1'')
     (fst (clamp_to (build pplane pnode_a [pnode_a, pnode_b]) (spot_key pnode_a ''DP-1'') 0 (- 7)))
     (snd (clamp_to (build pplane pnode_a [pnode_a, pnode_b]) (spot_key pnode_a ''DP-1'') 0 (- 7))) 0 False
     (\<lambda>s. guards_default) = AInside"
  by (rule the_clamped_cursor_is_inside [OF pplane_ok, of _ _ _ pa_screen]) (simp add: build_def Let_def pplane_laid)

end
