(* ===== verification/InputKeys.thy ===== *)
theory InputKeys
  imports InputWire
begin

text \<open>
  The keyboard of input sharing (\<open>input/src/keys.rs\<close>, the key types of \<open>backend.rs\<close>): the names and
  usages that travel, the cache over the backend's one answering call, the keys held on this machine, and
  the sequence of actions one keystroke becomes. The backend's answer to \<open>resolve\<close> is the argument
  \<open>ask\<close>; the platform's key codes are opaque pairs of numbers.
\<close>

section \<open>The types at the backend's seam\<close>

record platform_key =
  pk_code :: u32
  pk_detail :: u32

datatype want = WUsage u32 | WNamed string | WSymbol string

datatype resolved =
  Resolved (rs_code: platform_key) (rs_mods: u16) (rs_prefix: "resolved option") (rs_group: "u32 option")

datatype action =
    AMoveTo int int
  | AMoveBy int int
  | AButton u8 bool
  | AWheel i32 i32 bool
  | AKey platform_key bool
  | AText string
  | AGroup u32

section \<open>Modifiers and named keys\<close>

definition mods_LAYOUT :: u16 where "mods_LAYOUT = mods_SHIFT OR mods_ALTGR"

definition mods_table :: "(u16 \<times> string) list" where
  "mods_table =
     [(mods_SHIFT, ''shift''), (mods_CTRL, ''ctrl''), (mods_ALT, ''alt''), (mods_ALTGR, ''altgr''),
      (mods_META, ''meta''), (mods_CAPS, ''caps''), (mods_NUM, ''num''), (mods_SCROLL, ''scroll'')]"

definition mods_name :: "u16 \<Rightarrow> string option" where
  "mods_name b = map_of mods_table b"

definition mods_bit :: "string \<Rightarrow> u16 option" where
  "mods_bit name = map_option fst (find (\<lambda>p. snd p = name) mods_table)"

definition holdable_list :: "u16 list" where
  "holdable_list = [mods_SHIFT, mods_CTRL, mods_ALT, mods_ALTGR, mods_META]"

definition holdable_bits :: "u16 \<Rightarrow> u16 list" where
  "holdable_bits m = filter (\<lambda>b. m AND b \<noteq> 0) holdable_list"

definition PAGE_KEYBOARD :: u32 where "PAGE_KEYBOARD = 0x0007"
definition PAGE_CONSUMER :: u32 where "PAGE_CONSUMER = 0x000C"

definition hid_usage :: "u32 \<Rightarrow> u32 \<Rightarrow> u32" where
  "hid_usage page n = push_bit 16 page OR n"

definition NAMED :: "(string \<times> u32) list" where
  "NAMED =
    [(''Enter'', hid_usage PAGE_KEYBOARD 0x28), (''Escape'', hid_usage PAGE_KEYBOARD 0x29),
     (''Backspace'', hid_usage PAGE_KEYBOARD 0x2A), (''Tab'', hid_usage PAGE_KEYBOARD 0x2B),
     (''Space'', hid_usage PAGE_KEYBOARD 0x2C), (''CapsLock'', hid_usage PAGE_KEYBOARD 0x39),
     (''F1'', hid_usage PAGE_KEYBOARD 0x3A), (''F2'', hid_usage PAGE_KEYBOARD 0x3B),
     (''F3'', hid_usage PAGE_KEYBOARD 0x3C), (''F4'', hid_usage PAGE_KEYBOARD 0x3D),
     (''F5'', hid_usage PAGE_KEYBOARD 0x3E), (''F6'', hid_usage PAGE_KEYBOARD 0x3F),
     (''F7'', hid_usage PAGE_KEYBOARD 0x40), (''F8'', hid_usage PAGE_KEYBOARD 0x41),
     (''F9'', hid_usage PAGE_KEYBOARD 0x42), (''F10'', hid_usage PAGE_KEYBOARD 0x43),
     (''F11'', hid_usage PAGE_KEYBOARD 0x44), (''F12'', hid_usage PAGE_KEYBOARD 0x45),
     (''PrintScreen'', hid_usage PAGE_KEYBOARD 0x46), (''ScrollLock'', hid_usage PAGE_KEYBOARD 0x47),
     (''Pause'', hid_usage PAGE_KEYBOARD 0x48), (''Insert'', hid_usage PAGE_KEYBOARD 0x49),
     (''Home'', hid_usage PAGE_KEYBOARD 0x4A), (''PageUp'', hid_usage PAGE_KEYBOARD 0x4B),
     (''Delete'', hid_usage PAGE_KEYBOARD 0x4C), (''End'', hid_usage PAGE_KEYBOARD 0x4D),
     (''PageDown'', hid_usage PAGE_KEYBOARD 0x4E), (''Right'', hid_usage PAGE_KEYBOARD 0x4F),
     (''Left'', hid_usage PAGE_KEYBOARD 0x50), (''Down'', hid_usage PAGE_KEYBOARD 0x51),
     (''Up'', hid_usage PAGE_KEYBOARD 0x52), (''NumLock'', hid_usage PAGE_KEYBOARD 0x53),
     (''NumpadEnter'', hid_usage PAGE_KEYBOARD 0x58), (''Menu'', hid_usage PAGE_KEYBOARD 0x65),
     (''F13'', hid_usage PAGE_KEYBOARD 0x68), (''F14'', hid_usage PAGE_KEYBOARD 0x69),
     (''F15'', hid_usage PAGE_KEYBOARD 0x6A), (''F16'', hid_usage PAGE_KEYBOARD 0x6B),
     (''F17'', hid_usage PAGE_KEYBOARD 0x6C), (''F18'', hid_usage PAGE_KEYBOARD 0x6D),
     (''F19'', hid_usage PAGE_KEYBOARD 0x6E), (''F20'', hid_usage PAGE_KEYBOARD 0x6F),
     (''F21'', hid_usage PAGE_KEYBOARD 0x70), (''F22'', hid_usage PAGE_KEYBOARD 0x71),
     (''F23'', hid_usage PAGE_KEYBOARD 0x72), (''F24'', hid_usage PAGE_KEYBOARD 0x73),
     (''MediaPlayPause'', hid_usage PAGE_CONSUMER 0xCD), (''MediaStop'', hid_usage PAGE_CONSUMER 0xB7),
     (''MediaNext'', hid_usage PAGE_CONSUMER 0xB5), (''MediaPrevious'', hid_usage PAGE_CONSUMER 0xB6),
     (''VolumeUp'', hid_usage PAGE_CONSUMER 0xE9), (''VolumeDown'', hid_usage PAGE_CONSUMER 0xEA),
     (''VolumeMute'', hid_usage PAGE_CONSUMER 0xE2)]"

definition usage_of :: "string \<Rightarrow> u32 option" where
  "usage_of name = map_of NAMED name"

definition name_of :: "u32 \<Rightarrow> string option" where
  "name_of usage = map_option fst (find (\<lambda>p. snd p = usage) NAMED)"

definition is_lock :: "u32 \<Rightarrow> bool" where
  "is_lock usage \<longleftrightarrow> usage = 0x00070039 \<or> usage = 0x00070053 \<or> usage = 0x00070047"

definition mod_usage :: "u16 \<Rightarrow> u32 option" where
  "mod_usage b =
     (if b = mods_SHIFT then Some (hid_usage PAGE_KEYBOARD 0xE1)
      else if b = mods_CTRL then Some (hid_usage PAGE_KEYBOARD 0xE0)
      else if b = mods_ALT then Some (hid_usage PAGE_KEYBOARD 0xE2)
      else if b = mods_ALTGR then Some (hid_usage PAGE_KEYBOARD 0xE6)
      else if b = mods_META then Some (hid_usage PAGE_KEYBOARD 0xE3)
      else None)"

definition mod_of_usage :: "u32 \<Rightarrow> u16 option" where
  "mod_of_usage usage =
     (if usage = hid_usage PAGE_KEYBOARD 0xE0 then Some mods_CTRL
      else if usage = hid_usage PAGE_KEYBOARD 0xE1 then Some mods_SHIFT
      else if usage = hid_usage PAGE_KEYBOARD 0xE2 then Some mods_ALT
      else if usage = hid_usage PAGE_KEYBOARD 0xE3 then Some mods_META
      else if usage = hid_usage PAGE_KEYBOARD 0xE4 then Some mods_CTRL
      else if usage = hid_usage PAGE_KEYBOARD 0xE5 then Some mods_SHIFT
      else if usage = hid_usage PAGE_KEYBOARD 0xE6 then Some mods_ALTGR
      else if usage = hid_usage PAGE_KEYBOARD 0xE7 then Some mods_META
      else None)"

section \<open>The held set\<close>

definition HELD_MAX :: nat where "HELD_MAX = 64"
definition HELD_PRESS_MAX :: nat where "HELD_PRESS_MAX = HELD_MAX * 4"

record held_entry =
  he_code :: platform_key
  he_bit :: "u16 option"

type_synonym held = "held_entry list"

fun held_press :: "platform_key \<Rightarrow> u16 option \<Rightarrow> held \<Rightarrow> held" where
  "held_press code m [] = [\<lparr>he_code = code, he_bit = m\<rparr>]"
| "held_press code m (e # es) =
     (if he_code e = code then (if m = None then e else e\<lparr>he_bit := m\<rparr>) # es else e # held_press code m es)"

definition held_absorb :: "held \<Rightarrow> held \<Rightarrow> held" where
  "held_absorb other h = foldl (\<lambda>h e. held_press (he_code e) (he_bit e) h) h other"

definition held_release :: "platform_key \<Rightarrow> held \<Rightarrow> held" where
  "held_release code h = filter (\<lambda>e. he_code e \<noteq> code) h"

definition holds :: "held \<Rightarrow> platform_key \<Rightarrow> bool" where
  "holds h code = list_ex (\<lambda>e. he_code e = code) h"

definition held_mod_bits :: "held \<Rightarrow> u16" where
  "held_mod_bits h = foldl (OR) 0 (List.map_filter he_bit h)"

definition held_release_plan :: "held \<Rightarrow> platform_key list" where
  "held_release_plan h = map he_code (rev h)"

definition held_modifiers :: "held \<Rightarrow> platform_key list" where
  "held_modifiers h = map he_code (filter (\<lambda>e. he_bit e \<noteq> None) h)"

definition held_keys_for :: "held \<Rightarrow> u16 \<Rightarrow> platform_key list" where
  "held_keys_for h bits =
     map he_code (filter (\<lambda>e. case he_bit e of None \<Rightarrow> False | Some b \<Rightarrow> b AND bits \<noteq> 0) h)"

definition held_to_value :: "held \<Rightarrow> json" where
  "held_to_value h = jobj [(''keys'', JArr (List.map_filter (\<lambda>e. map_option (\<lambda>b. jobj
     [(''code'', of_u32 (pk_code (he_code e))), (''detail'', of_u32 (pk_detail (he_code e))),
      (''mod'', of_u64 (unat b))]) (he_bit e)) h))]"

definition held_read_entry :: "json \<Rightarrow> (platform_key \<times> u16) option" where
  "held_read_entry v = do {
     code \<leftarrow> u32_of v ''code'';
     let detail = (case u32_of v ''detail'' of None \<Rightarrow> 0 | Some d \<Rightarrow> d);
         b = (case Option.bind (jget v ''mod'') as_u64 of
                None \<Rightarrow> 0 | Some n \<Rightarrow> if n < 2 ^ 16 then word_of_nat n AND mods_HOLDABLE else 0)
     in Some (\<lparr>pk_code = code, pk_detail = detail\<rparr>, b)
   }"

definition held_load :: "held \<Rightarrow> json \<Rightarrow> held" where
  "held_load h v =
     (if HELD_MAX \<le> length h then h
      else case held_read_entry v of None \<Rightarrow> h | Some (code, b) \<Rightarrow> held_press code (Some b) h)"

definition held_from_value :: "json \<Rightarrow> held" where
  "held_from_value v =
     (case Option.bind (jget v ''keys'') as_array of None \<Rightarrow> [] | Some es \<Rightarrow> foldl held_load [] es)"

section \<open>Asking the layout\<close>

definition RESOLVE_CACHE_MAX :: nat where "RESOLVE_CACHE_MAX = 512"
definition NEGATIVE_CACHE_MAX :: nat where "NEGATIVE_CACHE_MAX = 128"

record resolver =
  rv_layout :: string
  rv_answers :: "(string, resolved) btree"
  rv_misses :: "(string, unit) btree"

definition resolver_new :: resolver where
  "resolver_new = \<lparr>rv_layout = [], rv_answers = [], rv_misses = []\<rparr>"

definition layout_changed :: "string \<Rightarrow> resolver \<Rightarrow> resolver" where
  "layout_changed layout r =
     (if rv_layout r = layout then r else r\<lparr>rv_layout := layout, rv_answers := [], rv_misses := []\<rparr>)"

fun cache_key :: "want \<Rightarrow> string" where
  "cache_key (WUsage u) = ''u:'' @ show_nat (unat u)"
| "cache_key (WNamed n) = ''n:'' @ n"
| "cache_key (WSymbol s) = ''s:'' @ s"

definition resolve_want :: "(want \<Rightarrow> resolved option) \<Rightarrow> want \<Rightarrow> resolver \<Rightarrow> resolved option \<times> resolver" where
  "resolve_want ask w r =
     (let key = cache_key w
      in case map_of (rv_answers r) key of
           Some cached \<Rightarrow> (Some cached, r)
         | None \<Rightarrow>
             if map_of (rv_misses r) key \<noteq> None then (None, r)
             else
               (case ask w of
                  Some how \<Rightarrow>
                    (Some how,
                     if length (rv_answers r) < RESOLVE_CACHE_MAX
                     then r\<lparr>rv_answers := bt_insert key how (rv_answers r)\<rparr> else r)
                | None \<Rightarrow>
                    (None, r\<lparr>rv_misses := bt_insert key ()
                      (if NEGATIVE_CACHE_MAX \<le> length (rv_misses r) then [] else rv_misses r)\<rparr>)))"

type_synonym mod_keys = "(u16, platform_key) btree"

definition learn_bit :: "(want \<Rightarrow> resolved option) \<Rightarrow> mod_keys \<times> resolver \<Rightarrow> u16 \<Rightarrow> mod_keys \<times> resolver" where
  "learn_bit ask kr b =
     (case mod_usage b of
        None \<Rightarrow> kr
      | Some usage \<Rightarrow>
          (case resolve_want ask (WUsage usage) (snd kr) of
             (Some how, r) \<Rightarrow> (bt_insert b (rs_code how) (fst kr), r)
           | (None, r) \<Rightarrow> (bt_remove b (fst kr), r)))"

definition learn :: "(want \<Rightarrow> resolved option) \<Rightarrow> mod_keys \<Rightarrow> resolver \<Rightarrow> mod_keys \<times> resolver" where
  "learn ask keys r = foldl (learn_bit ask) (keys, r) (holdable_bits mods_HOLDABLE)"

definition levels :: "key_mode \<Rightarrow> u32 \<Rightarrow> string option \<Rightarrow> string option \<Rightarrow> want list" where
  "levels mode usage key sy =
     (let positional = (if usage \<noteq> 0 then [WUsage usage] else []);
          named = (case key of None \<Rightarrow> [] | Some k \<Rightarrow> [WNamed k]);
          symbol = (case sy of None \<Rightarrow> [] | Some s \<Rightarrow> if s = [] then [] else [WSymbol s])
      in case mode of
           Typing \<Rightarrow> if symbol \<noteq> [] then symbol @ positional @ named else named @ positional
         | Positional \<Rightarrow> positional @ named @ symbol)"

section \<open>One keystroke\<close>

record answer =
  an_level :: want
  an_how :: resolved

definition from_symbol :: "answer \<Rightarrow> bool" where
  "from_symbol a = (case an_level a of WSymbol _ \<Rightarrow> True | _ \<Rightarrow> False)"

record stroke =
  st_mode :: key_mode
  st_answer :: "answer option"
  st_down :: bool
  st_lock :: bool
  st_sym :: "string option"
  st_unicode :: bool
  st_group :: u32

record plan =
  pl_actions :: "action list"
  pl_held :: held
  pl_peak :: held

definition plan_nothing :: "held \<Rightarrow> plan" where
  "plan_nothing h = \<lparr>pl_actions = [], pl_held = h, pl_peak = h\<rparr>"

fun answers_a_lock :: "want \<Rightarrow> bool" where
  "answers_a_lock (WUsage usage) = is_lock usage"
| "answers_a_lock (WNamed name) = (case usage_of name of None \<Rightarrow> False | Some u \<Rightarrow> is_lock u)"
| "answers_a_lock (WSymbol _) = False"

definition lock_plan :: "stroke \<Rightarrow> held \<Rightarrow> plan option" where
  "lock_plan st h =
     (if \<not> st_down st then Some (plan_nothing h)
      else do {
        answer \<leftarrow> st_answer st;
        Some \<lparr>pl_actions = [AKey (rs_code (an_how answer)) True], pl_held = h, pl_peak = h\<rparr>
      })"

definition release_stroke :: "stroke \<Rightarrow> held \<Rightarrow> plan" where
  "release_stroke st h =
     (case st_answer st of
        None \<Rightarrow> plan_nothing h
      | Some answer \<Rightarrow>
          let code = rs_code (an_how answer)
          in if \<not> holds h code then plan_nothing h
             else \<lparr>pl_actions = [AKey code False], pl_held = held_release code h, pl_peak = h\<rparr>)"

definition symbol_level_failed :: "stroke \<Rightarrow> bool" where
  "symbol_level_failed st \<longleftrightarrow>
     st_mode st = Typing \<and> (case st_sym st of None \<Rightarrow> False | Some s \<Rightarrow> s \<noteq> []) \<and>
     \<not> (case st_answer st of None \<Rightarrow> False | Some a \<Rightarrow> from_symbol a)"

definition text_plan :: "stroke \<Rightarrow> held \<Rightarrow> plan option" where
  "text_plan st h =
     (if \<not> st_unicode st \<or> \<not> st_down st then None
      else case st_sym st of
             None \<Rightarrow> None
           | Some s \<Rightarrow> if s = [] then None else Some \<lparr>pl_actions = [AText s], pl_held = h, pl_peak = h\<rparr>)"

fun positional_bit :: "want \<Rightarrow> u16 option" where
  "positional_bit (WUsage usage) = mod_of_usage usage"
| "positional_bit (WNamed name) = Option.bind (usage_of name) mod_of_usage"
| "positional_bit (WSymbol _) = None"

record dance =
  dn_release :: "platform_key list"
  dn_press :: "(platform_key \<times> u16) list"

definition wanted_keys :: "mod_keys \<Rightarrow> u16 list \<Rightarrow> (platform_key \<times> u16) list option" where
  "wanted_keys keys bs = those (map (\<lambda>b. map_option (\<lambda>k. (k, b)) (map_of keys b)) bs)"

definition dance_for :: "held \<Rightarrow> u16 \<Rightarrow> mod_keys \<Rightarrow> dance option" where
  "dance_for h want keys =
     (let have = held_mod_bits h
      in map_option (\<lambda>press. \<lparr>dn_release = held_keys_for h (have AND mods_LAYOUT AND NOT want), dn_press = press\<rparr>)
           (wanted_keys keys (holdable_bits (want AND NOT have))))"

text \<open>What a press sequence builds: its actions, the working set, the peak, and the keys it added.\<close>

record press_state =
  ps_actions :: "action list"
  ps_work :: held
  ps_peak :: held
  ps_added :: "platform_key list"

definition dance_release :: "press_state \<Rightarrow> platform_key \<Rightarrow> press_state" where
  "dance_release p code =
     p\<lparr>ps_actions := ps_actions p @ [AKey code False],
       ps_work := held_release code (ps_work p),
       ps_added := filter (\<lambda>k. k \<noteq> code) (ps_added p)\<rparr>"

definition dance_press :: "held \<Rightarrow> press_state \<Rightarrow> platform_key \<times> u16 \<Rightarrow> press_state" where
  "dance_press before p kb =
     p\<lparr>ps_actions := ps_actions p @ [AKey (fst kb) True],
       ps_work := held_press (fst kb) (Some (snd kb)) (ps_work p),
       ps_peak := held_press (fst kb) (Some (snd kb)) (ps_peak p),
       ps_added := (if \<not> holds before (fst kb) \<and> fst kb \<notin> set (ps_added p)
                    then ps_added p @ [fst kb] else ps_added p)\<rparr>"

definition dance_apply :: "held \<Rightarrow> dance \<Rightarrow> press_state \<Rightarrow> press_state" where
  "dance_apply before d p =
     foldl (dance_press before) (foldl dance_release p (rev (dn_release d))) (dn_press d)"

definition reconcile :: "bool \<Rightarrow> held \<Rightarrow> u16 \<Rightarrow> mod_keys \<Rightarrow> press_state \<Rightarrow> press_state option" where
  "reconcile owns_modifiers before want keys p =
     (if owns_modifiers
      then map_option (\<lambda>d. dance_apply before d p) (dance_for (ps_work p) want keys)
      else Some p)"

definition strike_key :: "platform_key \<Rightarrow> press_state \<Rightarrow> press_state" where
  "strike_key code p =
     p\<lparr>ps_actions := ps_actions p @ [AKey code True, AKey code False], ps_peak := held_press code None (ps_peak p)\<rparr>"

definition hold_down :: "platform_key \<Rightarrow> u16 option \<Rightarrow> press_state \<Rightarrow> press_state" where
  "hold_down code b p =
     p\<lparr>ps_actions := ps_actions p @ [AKey code True],
       ps_work := held_press code b (ps_work p), ps_peak := held_press code b (ps_peak p)\<rparr>"

definition undo_added :: "press_state \<Rightarrow> platform_key \<Rightarrow> press_state" where
  "undo_added p code =
     p\<lparr>ps_actions := ps_actions p @ [AKey code False], ps_work := held_release code (ps_work p)\<rparr>"

definition press_back :: "press_state \<Rightarrow> held_entry \<Rightarrow> press_state" where
  "press_back p e =
     (if he_bit e \<noteq> None \<and> \<not> holds (ps_work p) (he_code e)
      then p\<lparr>ps_actions := ps_actions p @ [AKey (he_code e) True],
             ps_work := held_press (he_code e) (he_bit e) (ps_work p)\<rparr>
      else p)"

definition restore :: "held \<Rightarrow> press_state \<Rightarrow> press_state" where
  "restore h p = foldl press_back (foldl undo_added p (rev (ps_added p))) h"

definition base_key :: "bool \<Rightarrow> answer \<Rightarrow> press_state \<Rightarrow> press_state" where
  "base_key owns_modifiers answer p =
     (if owns_modifiers then strike_key (rs_code (an_how answer)) p
      else hold_down (rs_code (an_how answer)) (positional_bit (an_level answer)) p)"

definition press_plan :: "stroke \<Rightarrow> answer \<Rightarrow> held \<Rightarrow> mod_keys \<Rightarrow> plan option" where
  "press_plan st answer h keys =
     (if HELD_PRESS_MAX \<le> length h then None
      else
        let how = an_how answer;
            owns_modifiers = from_symbol answer;
            switch = (case rs_group how of None \<Rightarrow> None | Some g \<Rightarrow> if g \<noteq> st_group st then Some g else None);
            p = \<lparr>ps_actions = (case switch of None \<Rightarrow> [] | Some g \<Rightarrow> [AGroup g]),
                 ps_work = h, ps_peak = h, ps_added = []\<rparr>
        in do {
          p \<leftarrow> (case rs_prefix how of
                  None \<Rightarrow> Some p
                | Some prefix \<Rightarrow>
                    map_option (strike_key (rs_code prefix)) (reconcile owns_modifiers h (rs_mods prefix) keys p));
          p \<leftarrow> map_option (restore h \<circ> base_key owns_modifiers answer)
                 (reconcile owns_modifiers h (rs_mods how) keys p);
          Some \<lparr>pl_actions = ps_actions p @ (if switch = None then [] else [AGroup (st_group st)]),
                pl_held = ps_work p, pl_peak = ps_peak p\<rparr>
        })"

definition plan_stroke :: "stroke \<Rightarrow> held \<Rightarrow> mod_keys \<Rightarrow> plan option" where
  "plan_stroke st h keys =
     (if st_lock st \<or> (case st_answer st of None \<Rightarrow> False | Some a \<Rightarrow> answers_a_lock (an_level a)) then lock_plan st h
      else if \<not> st_down st then Some (release_stroke st h)
      else
        case (if symbol_level_failed st then text_plan st h else None) of
          Some p \<Rightarrow> Some p
        | None \<Rightarrow>
            (case Option.bind (st_answer st) (\<lambda>a. press_plan st a h keys) of
               Some p \<Rightarrow> Some p
             | None \<Rightarrow> text_plan st h))"

definition remap_bit :: "(string, string) btree \<Rightarrow> u16 \<Rightarrow> u16" where
  "remap_bit m b =
     (case do { name \<leftarrow> mods_name b; other \<leftarrow> map_of m name; mods_bit other } of
        None \<Rightarrow> b | Some other \<Rightarrow> if other AND mods_HOLDABLE \<noteq> 0 then other else b)"

definition remap :: "u16 \<Rightarrow> (string, string) btree \<Rightarrow> u16" where
  "remap bits m = foldl (\<lambda>out b. out OR remap_bit m b) (bits AND NOT mods_HOLDABLE) (holdable_bits bits)"

section \<open>The return hotkey\<close>

definition HOTKEY_MAX :: nat where "HOTKEY_MAX = 6"

definition PRESENTED :: "u16 list" where
  "PRESENTED = [mods_CTRL, mods_ALT, mods_ALTGR, mods_SHIFT, mods_META]"

record hotkey =
  hk_mods :: u16
  hk_usage :: u32

record key_event =
  ke_usage :: u32
  ke_key :: "string option"
  ke_sym :: "string option"
  ke_mods :: u16
  ke_down :: bool
  ke_lock :: bool

definition default_hotkey :: hotkey where
  "default_hotkey = \<lparr>hk_mods = mods_CTRL OR mods_ALT, hk_usage = the (usage_of ''Escape'')\<rparr>"

definition hotkey_name :: "u16 \<times> u32 option \<Rightarrow> string \<Rightarrow> (u16 \<times> u32 option) option" where
  "hotkey_name acc name =
     (case mods_bit name of
        Some b \<Rightarrow> if b AND mods_HOLDABLE = 0 then None else Some (fst acc OR b, snd acc)
      | None \<Rightarrow> if snd acc \<noteq> None then None else map_option (\<lambda>u. (fst acc, Some u)) (usage_of name))"

fun hotkey_names :: "u16 \<times> u32 option \<Rightarrow> string list \<Rightarrow> (u16 \<times> u32 option) option" where
  "hotkey_names acc [] = Some acc"
| "hotkey_names acc (name # names) = Option.bind (hotkey_name acc name) (\<lambda>acc. hotkey_names acc names)"

definition hotkey_parse :: "string list \<Rightarrow> hotkey option" where
  "hotkey_parse keys =
     (if keys = [] \<or> HOTKEY_MAX < length keys then None
      else do {
        acc \<leftarrow> hotkey_names (0, None) keys;
        usage \<leftarrow> snd acc;
        if fst acc = 0 then None else Some \<lparr>hk_mods = fst acc, hk_usage = usage\<rparr>
      })"

definition hotkey_to_names :: "hotkey \<Rightarrow> string list" where
  "hotkey_to_names h =
     List.map_filter mods_name (filter (\<lambda>b. hk_mods h AND b \<noteq> 0) PRESENTED) @
     (case name_of (hk_usage h) of None \<Rightarrow> [] | Some n \<Rightarrow> [n])"

definition fires :: "hotkey \<Rightarrow> key_event \<Rightarrow> bool" where
  "fires h e \<longleftrightarrow>
     ke_down e \<and> ke_mods e AND mods_HOLDABLE = hk_mods h \<and>
     (ke_usage e = hk_usage h \<and> hk_usage h \<noteq> 0 \<or>
      hk_usage h \<noteq> 0 \<and> ke_usage e = 0 \<and> ke_key e = name_of (hk_usage h))"

end
