(* ===== verification/KeyFacts.thy ===== *)
theory KeyFacts
  imports InputKeys
begin

text \<open>
  What a keystroke does to this machine: after its batch the keys that are down are the keys recorded as
  held, nothing outside the recorded peak was ever down, and a typed symbol leaves no key behind. The
  cache over the backend answers what the backend answers, and the crash guard's file brings back the
  modifiers.
\<close>

section \<open>The keyboard under a batch\<close>

fun key_effect :: "action \<Rightarrow> platform_key set \<Rightarrow> platform_key set" where
  "key_effect (AKey code down) ks = (if down then insert code ks else ks - {code})"
| "key_effect _ ks = ks"

definition keyboard :: "action list \<Rightarrow> platform_key set \<Rightarrow> platform_key set" where
  "keyboard as ks = foldl (\<lambda>ks a. key_effect a ks) ks as"

fun ever_down :: "action list \<Rightarrow> platform_key set \<Rightarrow> platform_key set" where
  "ever_down [] ks = ks"
| "ever_down (a # as) ks = ks \<union> ever_down as (key_effect a ks)"

lemma keyboard_simps [simp]:
  "keyboard [] ks = ks" "keyboard (a # as) ks = keyboard as (key_effect a ks)"
  "keyboard (as @ bs) ks = keyboard bs (keyboard as ks)"
  by (simp_all add: keyboard_def)

lemma ever_down_append [simp]: "ever_down (as @ bs) ks = ever_down as ks \<union> ever_down bs (keyboard as ks)"
proof (induction as arbitrary: ks)
  case Nil
  show ?case by (cases bs) auto
qed auto

definition codes :: "held \<Rightarrow> platform_key set" where
  "codes h = he_code ` set h"

definition ordinary :: "held \<Rightarrow> platform_key set" where
  "ordinary h = he_code ` {e \<in> set h. he_bit e = None}"

lemma codes_simps [simp]: "codes [] = {}" "codes (e # h) = insert (he_code e) (codes h)"
  by (simp_all add: codes_def)

lemma ordinary_simps [simp]:
  "ordinary [] = {}" "ordinary (e # h) = (if he_bit e = None then {he_code e} else {}) \<union> ordinary h"
  by (auto simp: ordinary_def)

lemma codes_press [simp]: "codes (held_press code m h) = insert code (codes h)"
  by (induction code m h rule: held_press.induct) auto

lemma codes_release [simp]: "codes (held_release code h) = codes h - {code}"
  by (auto simp: codes_def held_release_def)

lemma holds_iff [simp]: "holds h code \<longleftrightarrow> code \<in> codes h"
  by (auto simp: holds_def codes_def list_ex_iff)

lemma ordinary_press: "ordinary (held_press code (Some b) h) \<subseteq> ordinary h"
  by (induction code "Some b" h rule: held_press.induct) (auto simp: ordinary_def)

lemma ordinary_press_keeps: "c \<in> ordinary h \<Longrightarrow> c \<noteq> code \<Longrightarrow> c \<in> ordinary (held_press code m h)"
  by (induction code m h rule: held_press.induct) (auto simp: ordinary_def)

lemma ordinary_release [simp]: "ordinary (held_release code h) = ordinary h - {code}"
  by (auto simp: ordinary_def held_release_def)

lemma distinct_press: "distinct (map he_code h) \<Longrightarrow> distinct (map he_code (held_press code m h))"
proof (induction code m h rule: held_press.induct)
  case (2 code m e es)
  have "he_code ` set (held_press code m es) = insert code (he_code ` set es)"
    using codes_press [of code m es] by (simp add: codes_def)
  with 2 show ?case by auto
qed auto

lemma distinct_release: "distinct (map he_code h) \<Longrightarrow> distinct (map he_code (held_release code h))"
  by (simp add: held_release_def distinct_map_filter)

text \<open>A key looked up by the bits it stands for is a modifier of ours.\<close>

lemma keys_for_modifier:
  assumes "code \<in> set (held_keys_for h bits)" and "distinct (map he_code h)"
  shows "code \<in> codes h" "code \<notin> ordinary h"
proof -
  obtain e where e: "e \<in> set h" "he_code e = code" "he_bit e \<noteq> None"
    using assms(1) by (auto simp: held_keys_for_def split: option.splits)
  then show "code \<in> codes h" by (auto simp: codes_def)
  have "f = e" if "f \<in> set h" "he_code f = code" for f
    using assms(2) e(1,2) that by (metis distinct_map inj_on_def)
  then show "code \<notin> ordinary h" using e(3) by (auto simp: ordinary_def)
qed

lemma wanted_keys_in: "wanted_keys keys bs = Some ks \<Longrightarrow> kb \<in> set ks \<Longrightarrow> fst kb \<in> snd ` set keys"
proof (induction bs arbitrary: ks)
  case (Cons b bs)
  then obtain k ks' where "map_of keys b = Some k" "wanted_keys keys bs = Some ks'" "ks = (k, b) # ks'"
    by (auto simp: wanted_keys_def split: option.splits)
  with Cons show ?case by (auto dest: map_of_SomeD) (force dest: map_of_SomeD)
qed (simp add: wanted_keys_def)

section \<open>The press sequence\<close>

text \<open>
  The invariant of a sequence that began with \<open>h\<close>: the working set is what is down, everything ever down
  is in the peak, and the working set differs from \<open>h\<close> by added keys and by modifiers taken away.
\<close>

definition following :: "mod_keys \<Rightarrow> held \<Rightarrow> press_state \<Rightarrow> bool" where
  "following keys h p \<longleftrightarrow>
     keyboard (ps_actions p) (codes h) = codes (ps_work p) \<and>
     ever_down (ps_actions p) (codes h) \<subseteq> codes (ps_peak p) \<and>
     codes h \<subseteq> codes (ps_peak p) \<and>
     distinct (map he_code (ps_work p)) \<and>
     codes (ps_work p) \<subseteq> codes h \<union> set (ps_added p) \<and>
     set (ps_added p) \<subseteq> snd ` set keys - codes h \<and>
     ordinary h \<subseteq> ordinary (ps_work p)"

lemma following_start: "distinct (map he_code h) \<Longrightarrow>
  following keys h \<lparr>ps_actions = (case switch of None \<Rightarrow> [] | Some g \<Rightarrow> [AGroup g]), ps_work = h, ps_peak = h, ps_added = []\<rparr>"
  by (simp add: following_def split: option.splits)

lemma ever_down_final: "keyboard as ks \<subseteq> ever_down as ks"
  by (induction as arbitrary: ks) auto

lemma following_release:
  assumes p: "following keys h p" and code: "code \<notin> ordinary h"
  shows "following keys h (dance_release p code)"
  using p code ever_down_final [of "ps_actions p" "codes h"]
  by (auto simp: following_def dance_release_def distinct_release)

lemma following_press:
  assumes p: "following keys h p" and kb: "fst kb \<in> snd ` set keys" "fst kb \<notin> ordinary h"
  shows "following keys h (dance_press h p kb)"
proof -
  have "c \<in> ordinary (held_press (fst kb) (Some (snd kb)) (ps_work p))" if "c \<in> ordinary h" for c
    using that p kb(2) by (intro ordinary_press_keeps) (auto simp: following_def)
  then show ?thesis
    using p kb ever_down_final [of "ps_actions p" "codes h"]
    by (auto simp: following_def dance_press_def distinct_press)
qed

lemma following_dance:
  assumes p: "following keys h p" and d: "dance_for (ps_work p) want keys = Some d"
    and apart: "snd ` set keys \<inter> ordinary h = {}"
  shows "following keys h (dance_apply h d p)"
proof -
  have rel: "code \<notin> ordinary h" if "code \<in> set (dn_release d)" for code
  proof -
    have "code \<in> set (held_keys_for (ps_work p) (held_mod_bits (ps_work p) AND mods_LAYOUT AND NOT want))"
      using that d by (auto simp: dance_for_def Let_def)
    then show ?thesis using p keys_for_modifier(2) by (auto simp: following_def)
  qed
  have "following keys h (foldl dance_release p cs)" if "set cs \<subseteq> set (dn_release d)" for cs
    using that p by (induction cs rule: rev_induct) (simp_all add: following_release rel)
  then have "following keys h (foldl dance_release p (rev (dn_release d)))" by simp
  moreover have "fst kb \<in> snd ` set keys" "fst kb \<notin> ordinary h" if kb: "kb \<in> set (dn_press d)" for kb
  proof -
    obtain bs where "wanted_keys keys bs = Some (dn_press d)" using d by (auto simp: dance_for_def Let_def)
    from wanted_keys_in [OF this kb] show "fst kb \<in> snd ` set keys" "fst kb \<notin> ordinary h" using apart by auto
  qed
  then have "following keys h (foldl (dance_press h) q kbs)"
    if "following keys h q" "set kbs \<subseteq> set (dn_press d)" for q kbs
    using that by (induction kbs rule: rev_induct) (simp_all add: following_press)
  ultimately show ?thesis by (simp add: dance_apply_def)
qed

lemma following_strike:
  assumes "following keys h p" and "code \<notin> codes h" and "code \<notin> snd ` set keys"
  shows "following keys h (strike_key code p)"
proof -
  have "code \<notin> codes (ps_work p)" using assms by (auto simp: following_def)
  then show ?thesis
    using assms(1) ever_down_final [of "ps_actions p" "codes h"] by (auto simp: following_def strike_key_def)
qed

lemma following_reconcile:
  assumes p: "following keys h p" and q: "reconcile owns h want keys p = Some q"
    and apart: "snd ` set keys \<inter> ordinary h = {}"
  shows "following keys h q"
  using q following_dance [OF p _ apart] p by (auto simp: reconcile_def split: if_splits)

text \<open>The last phase: a state whose working set is what is down, with a bound on everything ever down.\<close>

definition matched :: "platform_key set \<Rightarrow> platform_key set \<Rightarrow> press_state \<Rightarrow> bool" where
  "matched ks bound p \<longleftrightarrow>
     keyboard (ps_actions p) ks = codes (ps_work p) \<and> ever_down (ps_actions p) ks \<subseteq> bound"

lemma matched_undo:
  assumes "matched ks bound p"
  shows "matched ks bound (undo_added p c)" "codes (ps_work (undo_added p c)) = codes (ps_work p) - {c}"
    "ps_peak (undo_added p c) = ps_peak p"
  using assms ever_down_final [of "ps_actions p" ks] by (auto simp: matched_def undo_added_def)

lemma matched_back:
  assumes "matched ks bound p" and "he_code e \<in> bound"
  shows "matched ks bound (press_back p e)"
    "codes (ps_work (press_back p e)) = codes (ps_work p) \<union> (if he_bit e = None then {} else {he_code e})"
    "ps_peak (press_back p e) = ps_peak p"
  using assms ever_down_final [of "ps_actions p" ks] by (auto simp: matched_def press_back_def)

lemma undone:
  assumes "matched ks bound p"
  shows "matched ks bound (foldl undo_added p cs) \<and>
    codes (ps_work (foldl undo_added p cs)) = codes (ps_work p) - set cs \<and> ps_peak (foldl undo_added p cs) = ps_peak p"
proof (induction cs rule: rev_induct)
  case (snoc c cs)
  then show ?case using matched_undo [of ks bound "foldl undo_added p cs" c] by auto
qed (use assms in simp)

lemma pressed_back:
  assumes "matched ks bound p" and "codes es \<subseteq> bound"
  shows "matched ks bound (foldl press_back p es) \<and>
    codes (ps_work (foldl press_back p es)) = codes (ps_work p) \<union> he_code ` {e \<in> set es. he_bit e \<noteq> None} \<and>
    ps_peak (foldl press_back p es) = ps_peak p"
  using assms(2)
proof (induction es rule: rev_induct)
  case (snoc e es)
  then have "codes es \<subseteq> bound" "he_code e \<in> bound" by (auto simp: codes_def)
  then show ?case using snoc(1) matched_back [of ks bound "foldl press_back p es" e] by auto
qed (use assms in simp)

lemma restored_down:
  assumes p: "following keys h p"
  shows "matched (codes h) (codes (ps_peak p)) (restore h p)" "codes (ps_work (restore h p)) = codes h"
    "ps_peak (restore h p) = ps_peak p"
proof -
  let ?q = "foldl undo_added p (rev (ps_added p))" let ?bound = "codes (ps_peak p)"
  have "matched (codes h) ?bound p" using p by (simp add: following_def matched_def)
  from undone [OF this, of "rev (ps_added p)"]
  have q: "matched (codes h) ?bound ?q" "codes (ps_work ?q) = codes (ps_work p) - set (ps_added p)" "ps_peak ?q = ps_peak p"
    by simp_all
  have "codes h \<subseteq> ?bound" using p by (simp add: following_def)
  note b = pressed_back [OF q(1) this]
  have split: "codes h = ordinary h \<union> he_code ` {e \<in> set h. he_bit e \<noteq> None}"
    unfolding codes_def ordinary_def by blast
  have "ordinary h \<subseteq> codes (ps_work p)" "ordinary h \<inter> set (ps_added p) = {}"
    using p by (auto simp: following_def ordinary_def codes_def)
  moreover have "codes (ps_work p) - set (ps_added p) \<subseteq> codes h" using p by (auto simp: following_def)
  ultimately have "codes (ps_work ?q) \<union> he_code ` {e \<in> set h. he_bit e \<noteq> None} = codes h"
    using q(2) split by blast
  with b q(3) show "matched (codes h) ?bound (restore h p)" "codes (ps_work (restore h p)) = codes h"
    "ps_peak (restore h p) = ps_peak p" by (simp_all add: restore_def)
qed

lemma nothing_to_press_back: "codes es \<subseteq> codes (ps_work p) \<Longrightarrow> foldl press_back p es = p"
  by (induction es) (simp_all add: press_back_def)

text \<open>
  The keys of a stroke are apart from the keys around it: what a symbol strikes is not held by us and is
  no modifier's key, and no modifier's key is held as an ordinary one.
\<close>

definition apart :: "answer \<Rightarrow> held \<Rightarrow> mod_keys \<Rightarrow> bool" where
  "apart a h keys \<longleftrightarrow>
     (from_symbol a \<longrightarrow> rs_code (an_how a) \<notin> codes h \<union> snd ` set keys) \<and>
     (case rs_prefix (an_how a) of None \<Rightarrow> True | Some q \<Rightarrow> rs_code q \<notin> codes h \<union> snd ` set keys) \<and>
     snd ` set keys \<inter> ordinary h = {}"

text \<open>What a batch must do: leave down exactly what the plan records, and never hold down more than its peak.\<close>

definition faithful_batch :: "held \<Rightarrow> plan \<Rightarrow> bool" where
  "faithful_batch h pl \<longleftrightarrow>
     keyboard (pl_actions pl) (codes h) = codes (pl_held pl) \<and> ever_down (pl_actions pl) (codes h) \<subseteq> codes (pl_peak pl)"

lemma press_plan_faithful:
  assumes plan: "press_plan st a h keys = Some pl" and h: "distinct (map he_code h)" and apart: "apart a h keys"
  shows "faithful_batch h pl \<and>
    codes (pl_held pl) = codes h \<union> (if from_symbol a then {} else {rs_code (an_how a)})"
proof -
  define switch where "switch = (case rs_group (an_how a) of None \<Rightarrow> None | Some g \<Rightarrow> if g \<noteq> st_group st then Some g else None)"
  define p0 where "p0 = \<lparr>ps_actions = (case switch of None \<Rightarrow> [] | Some g \<Rightarrow> [AGroup g]), ps_work = h, ps_peak = h, ps_added = []\<rparr>"
  let ?owns = "from_symbol a" let ?code = "rs_code (an_how a)"
  have mk: "snd ` set keys \<inter> ordinary h = {}" using apart by (simp add: apart_def)
  obtain p1 p2 where p1: "(case rs_prefix (an_how a) of None \<Rightarrow> Some p0
      | Some prefix \<Rightarrow> map_option (strike_key (rs_code prefix)) (reconcile ?owns h (rs_mods prefix) keys p0)) = Some p1"
    and p2: "reconcile ?owns h (rs_mods (an_how a)) keys p1 = Some p2"
    and pl: "pl = \<lparr>pl_actions = ps_actions (restore h (base_key ?owns a p2)) @ (if switch = None then [] else [AGroup (st_group st)]),
      pl_held = ps_work (restore h (base_key ?owns a p2)), pl_peak = ps_peak (restore h (base_key ?owns a p2))\<rparr>"
    using plan unfolding press_plan_def Let_def switch_def [symmetric] p0_def [symmetric]
    by (cases "HELD_PRESS_MAX \<le> length h")
      (auto simp only: bind_eq_Some_conv map_option_eq_Some comp_apply option.inject if_True if_False option.distinct)
  have f0: "following keys h p0" unfolding p0_def by (rule following_start [OF h])
  have f1: "following keys h p1"
  proof (cases "rs_prefix (an_how a)")
    case None
    with p1 f0 show ?thesis by simp
  next
    case (Some prefix)
    with p1 obtain q where q: "reconcile ?owns h (rs_mods prefix) keys p0 = Some q" "p1 = strike_key (rs_code prefix) q" by auto
    then show ?thesis
      using following_reconcile [OF f0 q(1) mk] Some apart by (auto simp: apart_def intro: following_strike)
  qed
  note f2 = following_reconcile [OF f1 p2 mk]
  have tail: "faithful_batch h pl" if "matched (codes h) (codes (ps_peak r)) r" "restore h (base_key ?owns a p2) = r" for r
    using that ever_down_final [of "ps_actions r" "codes h"] by (auto simp: pl faithful_batch_def matched_def)
  show ?thesis
  proof (cases ?owns)
    case True
    have "following keys h (strike_key ?code p2)" using True apart by (intro following_strike f2) (auto simp: apart_def)
    note r = restored_down [OF this]
    have "faithful_batch h pl" using r True by (intro tail [OF _ refl]) (simp add: base_key_def)
    with r True show ?thesis by (simp add: base_key_def pl)
  next
    case False
    have same: "ps_work p1 = h" "ps_added p1 = []"
      using p1 False by (auto simp: p0_def reconcile_def strike_key_def split: option.splits)
    have p21: "p2 = p1" using p2 False by (simp add: reconcile_def)
    let ?r = "hold_down ?code (positional_bit (an_level a)) p1"
    have r: "restore h ?r = ?r"
      using same nothing_to_press_back [of h ?r] by (auto simp: restore_def hold_down_def)
    have "matched (codes h) (codes (ps_peak ?r)) ?r" "codes (ps_work ?r) = insert ?code (codes h)"
      using f1 same ever_down_final [of "ps_actions p1" "codes h"] by (auto simp: matched_def following_def hold_down_def)
    then show ?thesis using tail [of ?r] r False by (simp add: base_key_def p21 pl)
  qed
qed

text \<open>
  C37. Whatever one keystroke becomes that is no lock key and whose keys are apart from those around it:
  after its batch, of the keys this engine pressed, exactly those recorded as held are down, at no moment
  was one down that the recorded peak does not name, and the record is what the frame asked for. A symbol
  or a text leaves it as it was, a position is held from its press to its release. Keys are apart when
  what a symbol strikes is neither held by us nor a modifier's key, and no modifier's key is held as an
  ordinary one; \<open>a_symbol_lifts_a_held_key\<close> shows that this is needed.
\<close>

theorem a_keystroke_does_what_is_recorded:
  assumes plan: "plan_stroke st h keys = Some pl" and h: "distinct (map he_code h)"
    and lock: "\<not> st_lock st" and answer: "st_answer st = Some a" "\<not> answers_a_lock (an_level a)" "apart a h keys"
  shows "keyboard (pl_actions pl) (codes h) = codes (pl_held pl) \<and>
    ever_down (pl_actions pl) (codes h) \<subseteq> codes (pl_peak pl) \<and>
    (codes (pl_held pl) = codes h \<or>
     codes (pl_held pl) = (if st_down st then insert (rs_code (an_how a)) (codes h) else codes h - {rs_code (an_how a)}) \<and>
     (st_down st \<longrightarrow> \<not> from_symbol a))"
proof (cases "st_down st")
  case False
  then have "pl = release_stroke st h" using plan lock answer by (simp add: plan_stroke_def)
  then show ?thesis using answer(1) False by (auto simp: release_stroke_def Let_def plan_nothing_def)
next
  case True
  have typed: "faithful_batch h pl \<and> codes (pl_held pl) = codes h" if "text_plan st h = Some pl"
    using that by (auto simp: text_plan_def faithful_batch_def split: if_splits option.splits)
  have "text_plan st h = Some pl \<or> press_plan st a h keys = Some pl"
    using plan lock answer(1,2) True by (auto simp: plan_stroke_def split: if_splits option.splits)
  then show ?thesis
  proof
    assume "text_plan st h = Some pl"
    with typed show ?thesis by (simp add: faithful_batch_def)
  next
    assume "press_plan st a h keys = Some pl"
    from press_plan_faithful [OF this h answer(3)] True show ?thesis by (auto simp: faithful_batch_def)
  qed
qed

section \<open>The cache over the backend\<close>

lemma cache_key_inj: "cache_key v = cache_key w \<Longrightarrow> v = w"
  by (cases v; cases w) (auto simp: show_nat_inj word_unat_eq_iff)

text \<open>Every cached answer, positive or negative, is the backend's, and both maps keep their bounds.\<close>

definition cache_ok :: "(want \<Rightarrow> resolved option) \<Rightarrow> resolver \<Rightarrow> bool" where
  "cache_ok ask r \<longleftrightarrow>
     (\<forall>w how. map_of (rv_answers r) (cache_key w) = Some how \<longrightarrow> ask w = Some how) \<and>
     (\<forall>w. map_of (rv_misses r) (cache_key w) \<noteq> None \<longrightarrow> ask w = None) \<and>
     length (rv_answers r) \<le> RESOLVE_CACHE_MAX \<and> length (rv_misses r) \<le> NEGATIVE_CACHE_MAX"

lemma bt_insert_length: "length (bt_insert k v m) \<le> Suc (length m)"
  by (induction k v m rule: bt_insert.induct) auto

lemma cache_ok_new: "cache_ok ask resolver_new" "cache_ok ask (layout_changed layout resolver_new)"
  by (simp_all add: cache_ok_def resolver_new_def layout_changed_def)

lemma resolve_transparent:
  assumes r: "cache_ok ask r"
  shows "fst (resolve_want ask w r) = ask w \<and> cache_ok ask (snd (resolve_want ask w r))"
proof (cases "map_of (rv_answers r) (cache_key w)")
  case (Some how)
  with r show ?thesis by (simp add: resolve_want_def cache_ok_def)
next
  case None
  show ?thesis
  proof (cases "map_of (rv_misses r) (cache_key w)")
    case (Some u)
    with None r show ?thesis by (auto simp: resolve_want_def cache_ok_def)
  next
    case missed: None
    have short: "length (bt_insert (cache_key w) () (if NEGATIVE_CACHE_MAX \<le> length (rv_misses r) then [] else rv_misses r))
        \<le> NEGATIVE_CACHE_MAX"
      using bt_insert_length [of "cache_key w" "()" "rv_misses r"] by (auto simp: NEGATIVE_CACHE_MAX_def)
    show ?thesis
    proof (cases "ask w")
      case asked: None
      then show ?thesis
        using r None missed short by (auto simp: resolve_want_def cache_ok_def Let_def dest: cache_key_inj split: if_splits)
    next
      case asked: (Some how)
      then show ?thesis
        using r None missed bt_insert_length [of "cache_key w" how "rv_answers r"]
        by (auto simp: resolve_want_def cache_ok_def Let_def dest: cache_key_inj split: if_splits)
    qed
  qed
qed

fun resolve_all :: "(want \<Rightarrow> resolved option) \<Rightarrow> want list \<Rightarrow> resolver \<Rightarrow> resolved option list \<times> resolver" where
  "resolve_all ask [] r = ([], r)"
| "resolve_all ask (w # ws) r =
     (case resolve_want ask w r of (a, r) \<Rightarrow> case resolve_all ask ws r of (as, r) \<Rightarrow> (a # as, r))"

text \<open>
  C38. The cache is transparent: as long as the layout's answers do not change, any number of questions is
  answered as the backend would answer each of them, and neither map outgrows its bound whatever is asked.
\<close>

theorem the_cache_answers_like_the_backend:
  "fst (resolve_all ask ws (layout_changed layout resolver_new)) = map ask ws \<and>
   length (rv_answers (snd (resolve_all ask ws (layout_changed layout resolver_new)))) \<le> RESOLVE_CACHE_MAX \<and>
   length (rv_misses (snd (resolve_all ask ws (layout_changed layout resolver_new)))) \<le> NEGATIVE_CACHE_MAX"
proof -
  have "fst (resolve_all ask ws r) = map ask ws \<and> cache_ok ask (snd (resolve_all ask ws r))" if "cache_ok ask r" for r
    using that
  proof (induction ws arbitrary: r)
    case (Cons w ws)
    have "fst (resolve_want ask w r) = ask w" "cache_ok ask (snd (resolve_want ask w r))"
      using resolve_transparent [OF Cons.prems] by auto
    then show ?case using Cons.IH [of "snd (resolve_want ask w r)"] by (simp add: case_prod_unfold)
  qed simp
  from this [OF cache_ok_new(2)] show ?thesis by (simp add: cache_ok_def)
qed

section \<open>The return hotkey\<close>

lemma named_distinct: "distinct (map fst NAMED)" "distinct (map snd NAMED)"
  unfolding NAMED_def hid_usage_def PAGE_KEYBOARD_def PAGE_CONSUMER_def by (simp_all add: push_bit_eq_mult)

lemma named_no_modifier: "list_all (\<lambda>p. fst p \<notin> set (map snd mods_table)) NAMED"
  unfolding NAMED_def mods_table_def by simp

lemma find_pair: "distinct (map snd ps) \<Longrightarrow> (a, b) \<in> set ps \<Longrightarrow> find (\<lambda>p. snd p = b) ps = Some (a, b)"
  by (induction ps) (auto simp: image_iff)

lemma named_keysD:
  assumes "usage_of name = Some u"
  shows "name_of u = Some name" "mods_bit name = None"
proof -
  have "(name, u) \<in> set NAMED" using assms by (auto simp: usage_of_def dest: map_of_SomeD)
  moreover from this have "name \<notin> set (map snd mods_table)" using named_no_modifier
    by (auto simp only: list_all_iff fst_conv dest!: bspec)
  ultimately show "name_of u = Some name" "mods_bit name = None"
    using find_pair [OF named_distinct(2)] by (auto simp: name_of_def mods_bit_def find_None_iff rev_image_eqI)
qed

lemma presented_names:
  "list_all (\<lambda>b. mods_name b \<noteq> None \<and> mods_bit (the (mods_name b)) = Some b \<and> b AND mods_HOLDABLE \<noteq> 0) PRESENTED"
  by code_simp

lemma presented_names_read:
  assumes "set bs \<subseteq> set PRESENTED" and "mods_bit name = None" and "usage_of name = Some u"
  shows "hotkey_names (a, None) (List.map_filter mods_name bs @ [name]) = Some (foldl (OR) a bs, Some u)"
  using assms(1)
proof (induction bs arbitrary: a)
  case Nil
  show ?case using assms(2,3) by (simp add: hotkey_name_def)
next
  case (Cons b bs)
  then obtain n where "mods_name b = Some n" "mods_bit n = Some b" "b AND mods_HOLDABLE \<noteq> 0"
    using presented_names by (auto simp: list_all_iff)
  with Cons show ?case by (simp add: hotkey_name_def)
qed

lemma single_bit: "(if m AND push_bit n 1 \<noteq> 0 then push_bit n 1 else 0) = m AND push_bit n (1 :: u16)"
proof -
  have "m AND push_bit n 1 = (if bit m n then push_bit n 1 else 0)"
    by (rule bit_word_eqI) (auto simp: bit_simps)
  then show ?thesis by auto
qed

lemma foldl_or_filter: "foldl (OR) a (filter P bs) = foldl (\<lambda>a b. a OR (if P b then b else 0)) (a :: u16) bs"
  by (induction bs arbitrary: a) auto

lemma presented_bits: "foldl (OR) 0 (filter (\<lambda>b. m AND b \<noteq> 0) PRESENTED) = m AND mods_HOLDABLE"
proof -
  have each: "(if m AND b \<noteq> 0 then b else 0) = m AND b" if "b \<in> {1, 2, 4, 8, 16}" for b :: u16
    using that single_bit [of m 0] single_bit [of m 1] single_bit [of m 2] single_bit [of m 3] single_bit [of m 4]
    by (auto simp: push_bit_eq_mult)
  show ?thesis
    unfolding foldl_or_filter
    by (simp add: PRESENTED_def mods_HOLDABLE_def mods_SHIFT_def mods_CTRL_def mods_ALT_def mods_ALTGR_def mods_META_def each
          bit.conj_disj_distrib [symmetric] or.assoc)
qed

lemma hotkey_names_holdable:
  "hotkey_names acc names = Some r \<Longrightarrow> fst acc AND mods_HOLDABLE = fst acc \<Longrightarrow> fst r AND mods_HOLDABLE = fst r"
proof (induction names arbitrary: acc)
  case (Cons name names)
  have findSomeD: "x \<in> set xs" if "find P xs = Some x" for P x and xs :: "(u16 \<times> string) list"
    using that by (auto simp: find_Some_iff)
  have mods: "b AND mods_HOLDABLE = b \<or> b AND mods_HOLDABLE = 0" if that_bit: "mods_bit name = Some b" for b
  proof -
    have "list_all (\<lambda>p. fst p AND mods_HOLDABLE = fst p \<or> fst p AND mods_HOLDABLE = 0) mods_table" by code_simp
    moreover obtain p where "find (\<lambda>p. snd p = name) mods_table = Some p" "b = fst p"
      using that_bit by (cases "find (\<lambda>p. snd p = name) mods_table") (auto simp: mods_bit_def)
    ultimately show ?thesis using findSomeD by (fastforce simp: list_all_iff)
  qed
  from Cons.prems obtain acc' where acc': "hotkey_name acc name = Some acc'" "hotkey_names acc' names = Some r"
    by (auto simp: bind_eq_Some_conv)
  then have "fst acc' AND mods_HOLDABLE = fst acc'"
    using mods Cons.prems(2)
    by (auto simp: hotkey_name_def bit.conj_disj_distrib2 split: option.splits if_splits)
  from Cons.IH [OF acc'(2) this] show ?case .
qed simp

lemma hotkey_names_usage:
  "hotkey_names acc names = Some r \<Longrightarrow> snd r = Some u \<Longrightarrow> snd acc \<noteq> None \<and> snd acc = Some u \<or> (\<exists>name. usage_of name = Some u)"
proof (induction names arbitrary: acc)
  case (Cons name names)
  then obtain acc' where acc': "hotkey_name acc name = Some acc'" "hotkey_names acc' names = Some r"
    by (auto simp: bind_eq_Some_conv)
  from Cons.IH [OF acc'(2) Cons.prems(2)] acc'(1) show ?case
    by (auto simp: hotkey_name_def split: option.splits if_splits)
qed simp

text \<open>
  A chord that was accepted is shown, stored and read back as the same chord, in one spelling whatever
  order and repetition its names were given in.
\<close>

lemma a_hotkey_reads_back:
  assumes "hotkey_parse names = Some h"
  shows "hotkey_parse (hotkey_to_names h) = Some h"
proof -
  obtain acc u where acc: "hotkey_names (0, None) names = Some acc" "snd acc = Some u" "fst acc \<noteq> 0"
    and h: "h = \<lparr>hk_mods = fst acc, hk_usage = u\<rparr>"
    using assms by (auto simp: hotkey_parse_def bind_eq_Some_conv split: if_splits)
  have m: "hk_mods h AND mods_HOLDABLE = hk_mods h" using hotkey_names_holdable [OF acc(1)] h by simp
  obtain name where name: "usage_of name = Some u" using hotkey_names_usage [OF acc(1,2)] by auto
  let ?bs = "filter (\<lambda>b. hk_mods h AND b \<noteq> 0) PRESENTED"
  have "hotkey_names (0, None) (hotkey_to_names h) = Some (hk_mods h, Some u)"
    using presented_names_read [of ?bs name u 0] named_keysD [OF name] name presented_bits [of "hk_mods h"] m
    by (simp add: hotkey_to_names_def h)
  moreover have "length (List.map_filter mods_name ?bs) \<le> 5"
    using length_filter_le [of _ PRESENTED] by (simp add: List.map_filter_def PRESENTED_def)
  then have "hotkey_to_names h \<noteq> [] \<and> length (hotkey_to_names h) \<le> HOTKEY_MAX"
    using named_keysD [OF name] by (simp add: hotkey_to_names_def h HOTKEY_MAX_def)
  ultimately show ?thesis using acc(3) h by (simp add: hotkey_parse_def)
qed

lemma default_hotkey_reads_back: "hotkey_parse (hotkey_to_names default_hotkey) = Some default_hotkey"
proof -
  have "hotkey_parse [''Escape'', ''alt'', ''ctrl'', ''alt''] = Some default_hotkey" by code_simp
  then show ?thesis by (rule a_hotkey_reads_back)
qed

section \<open>The crash guard's file\<close>

lemma held_entry_read:
  "held_read_entry (jobj [(''code'', of_u32 (pk_code k)), (''detail'', of_u32 (pk_detail k)), (''mod'', of_u64 (unat b))]) =
   Some (k, b AND mods_HOLDABLE)"
  using unsigned_less [where ?'a = nat, of b] by (simp add: held_read_entry_def jget_jobj)

lemma held_press_new: "code \<notin> codes h \<Longrightarrow> held_press code m h = h @ [\<lparr>he_code = code, he_bit = m\<rparr>]"
  by (induction h) auto

definition modifiers_of :: "held \<Rightarrow> held" where
  "modifiers_of h = filter (\<lambda>e. he_bit e \<noteq> None) h"

text \<open>
  The next run finds in the crash guard's file every modifier the record named, in the order of their
  presses, so what it releases is what was left down, provided the record is no longer than the reader reads.
\<close>

theorem the_crash_guard_brings_back_the_modifiers:
  assumes "distinct (map he_code h)" and "length (modifiers_of h) \<le> HELD_MAX"
    and bits: "\<forall>e \<in> set h. \<forall>b. he_bit e = Some b \<longrightarrow> b AND mods_HOLDABLE = b"
  shows "held_from_value (held_to_value h) = modifiers_of h"
proof -
  let ?enc = "\<lambda>e. map_option (\<lambda>b. jobj
     [(''code'', of_u32 (pk_code (he_code e))), (''detail'', of_u32 (pk_detail (he_code e))), (''mod'', of_u64 (unat b))]) (he_bit e)"
  have "foldl held_load g (List.map_filter ?enc es) = g @ modifiers_of es"
    if "distinct (map he_code (g @ es))" "length g + length (modifiers_of es) \<le> HELD_MAX"
      "\<forall>e \<in> set es. \<forall>b. he_bit e = Some b \<longrightarrow> b AND mods_HOLDABLE = b" for g es
    using that
  proof (induction es arbitrary: g)
    case (Cons e es)
    show ?case
    proof (cases "he_bit e")
      case None
      with Cons.prems Cons.IH [of g] show ?thesis by (simp add: modifiers_of_def)
    next
      case (Some b)
      have "he_code e \<notin> codes g" "b AND mods_HOLDABLE = b" using Cons.prems Some by (auto simp: codes_def)
      then have "held_load g (the (?enc e)) = g @ [e]"
        using Cons.prems(2) Some by (simp add: held_load_def held_entry_read held_press_new modifiers_of_def)
      moreover have "foldl held_load (g @ [e]) (List.map_filter ?enc es) = (g @ [e]) @ modifiers_of es"
        using Cons.prems Some by (intro Cons.IH) (auto simp: modifiers_of_def)
      ultimately show ?thesis using Some by (simp add: modifiers_of_def)
    qed
  qed (simp add: modifiers_of_def)
  from this [of "[]" h] assms show ?thesis
    by (simp add: held_from_value_def held_to_value_def jget_jobj)
qed

text \<open>The witnesses: Shift is held, its key is 1, and the layout's at sign is AltGr, whose key is 2, with the key 9.\<close>

definition key_one :: platform_key where "key_one = \<lparr>pk_code = 1, pk_detail = 0\<rparr>"
definition key_two :: platform_key where "key_two = \<lparr>pk_code = 2, pk_detail = 0\<rparr>"
definition key_nine :: platform_key where "key_nine = \<lparr>pk_code = 9, pk_detail = 0\<rparr>"
definition shift_held :: held where "shift_held = [\<lparr>he_code = key_one, he_bit = Some mods_SHIFT\<rparr>]"
definition both_keys :: mod_keys where "both_keys = [(mods_SHIFT, key_one), (mods_ALTGR, key_two)]"

definition at_sign :: answer where
  "at_sign = \<lparr>an_level = WSymbol ''@'', an_how = Resolved key_nine mods_ALTGR None None\<rparr>"

definition at_stroke :: stroke where
  "at_stroke = \<lparr>st_mode = Typing, st_answer = Some at_sign, st_down = True, st_lock = False,
     st_sym = Some ''@'', st_unicode = False, st_group = 0\<rparr>"

lemma at_sign_plan:
  "plan_stroke at_stroke shift_held both_keys =
     Some \<lparr>pl_actions = [AKey key_one False, AKey key_two True, AKey key_nine True, AKey key_nine False,
             AKey key_two False, AKey key_one True],
           pl_held = shift_held,
           pl_peak = shift_held @ [\<lparr>he_code = key_two, he_bit = Some mods_ALTGR\<rparr>, \<lparr>he_code = key_nine, he_bit = None\<rparr>]\<rparr>"
  by code_simp

lemma at_sign_apart: "apart at_sign shift_held both_keys"
  by (simp add: apart_def at_sign_def shift_held_def both_keys_def key_one_def key_two_def key_nine_def from_symbol_def)

lemma a_keystroke_does_what_is_recorded_witness:
  "keyboard [AKey key_one False, AKey key_two True, AKey key_nine True, AKey key_nine False,
             AKey key_two False, AKey key_one True] (codes shift_held) = codes shift_held"
  using a_keystroke_does_what_is_recorded [OF at_sign_plan _ _ _ _ at_sign_apart]
  by (simp add: at_stroke_def at_sign_def shift_held_def)

lemma the_crash_guard_brings_back_the_modifiers_witness:
  "held_from_value (held_to_value (\<lparr>he_code = key_nine, he_bit = None\<rparr> # shift_held)) = shift_held"
  using the_crash_guard_brings_back_the_modifiers [of "\<lparr>he_code = key_nine, he_bit = None\<rparr> # shift_held"]
  by (simp add: shift_held_def modifiers_of_def key_one_def key_nine_def HELD_MAX_def mods_SHIFT_def mods_HOLDABLE_def
      mods_CTRL_def mods_ALT_def mods_ALTGR_def mods_META_def)

text \<open>
  The key of a symbol may be one we hold: then the stroke lifts it while the record keeps it.
\<close>

lemma a_symbol_lifts_a_held_key:
  "plan_stroke at_stroke (\<lparr>he_code = key_nine, he_bit = None\<rparr> # shift_held) both_keys = Some pl \<Longrightarrow>
   key_nine \<in> codes (pl_held pl) \<and> key_nine \<notin> keyboard (pl_actions pl) (codes (\<lparr>he_code = key_nine, he_bit = None\<rparr> # shift_held))"
proof -
  have "plan_stroke at_stroke (\<lparr>he_code = key_nine, he_bit = None\<rparr> # shift_held) both_keys =
    Some \<lparr>pl_actions = [AKey key_one False, AKey key_two True, AKey key_nine True, AKey key_nine False,
             AKey key_two False, AKey key_one True],
           pl_held = \<lparr>he_code = key_nine, he_bit = None\<rparr> # shift_held,
           pl_peak = (\<lparr>he_code = key_nine, he_bit = None\<rparr> # shift_held) @ [\<lparr>he_code = key_two, he_bit = Some mods_ALTGR\<rparr>]\<rparr>"
    by code_simp
  then show "plan_stroke at_stroke (\<lparr>he_code = key_nine, he_bit = None\<rparr> # shift_held) both_keys = Some pl \<Longrightarrow> ?thesis"
    by (auto simp: shift_held_def key_one_def key_two_def key_nine_def)
qed

end
