(* ===== verification/InputSettings.thy ===== *)
theory InputSettings
  imports InputGraph KeyFacts
begin

text \<open>
  What one machine decides for itself and never replicates (\<open>input/src/settings.rs\<close>): who may drive it,
  whom it drives, the remappings, the guards on its crossings, the return hotkey and the lock; and their
  stored form. The setters answer whether they changed something, and refuse what a table cannot hold.
\<close>

section \<open>The settings\<close>

definition MAX_PEERS :: nat where "MAX_PEERS = MAX_DEVICES * 2"
definition MAX_GUARDS :: nat where "MAX_GUARDS = 256"
definition MAX_REMAP :: nat where "MAX_REMAP = 8"

datatype applied = SetChanged | SetUnchanged | SetRefused

record peer_settings =
  se_allow :: bool
  se_drive :: bool
  se_mode :: key_mode
  se_remap :: "(string, string) btree"

definition peer_settings_default :: peer_settings where
  "peer_settings_default = \<lparr>se_allow = False, se_drive = False, se_mode = Typing, se_remap = []\<rparr>"

record settings =
  ss_peers :: "(string, peer_settings) btree"
  ss_guards :: "(string, guards) btree"
  ss_hotkey :: hotkey
  ss_locked :: bool

definition settings_default :: settings where
  "settings_default = \<lparr>ss_peers = [], ss_guards = [], ss_hotkey = default_hotkey, ss_locked = False\<rparr>"

definition settings_peer :: "settings \<Rightarrow> string \<Rightarrow> peer_settings" where
  "settings_peer s node_id = (case map_of (ss_peers s) node_id of None \<Rightarrow> peer_settings_default | Some p \<Rightarrow> p)"

definition allows :: "settings \<Rightarrow> string \<Rightarrow> bool" where
  "allows s node_id = (case map_of (ss_peers s) node_id of None \<Rightarrow> False | Some p \<Rightarrow> se_allow p)"

definition drives :: "settings \<Rightarrow> string \<Rightarrow> bool" where
  "drives s node_id = (case map_of (ss_peers s) node_id of None \<Rightarrow> False | Some p \<Rightarrow> se_drive p)"

definition update_peer ::
  "string \<Rightarrow> (peer_settings \<Rightarrow> bool \<times> peer_settings) \<Rightarrow> settings \<Rightarrow> applied \<times> settings" where
  "update_peer node_id f s =
     (if \<not> is_hex64 node_id then (SetRefused, s)
      else if map_of (ss_peers s) node_id = None \<and> MAX_PEERS \<le> length (ss_peers s) then (SetRefused, s)
      else
        (case f (settings_peer s node_id) of
           (changed, entry) \<Rightarrow>
             (if changed then SetChanged else SetUnchanged,
              s\<lparr>ss_peers := if entry = peer_settings_default then bt_remove node_id (ss_peers s)
                            else bt_insert node_id entry (ss_peers s)\<rparr>)))"

definition set_allow :: "string \<Rightarrow> bool \<Rightarrow> settings \<Rightarrow> applied \<times> settings" where
  "set_allow node_id allowed = update_peer node_id (\<lambda>p. (se_allow p \<noteq> allowed, p\<lparr>se_allow := allowed\<rparr>))"

definition set_drive :: "string \<Rightarrow> bool \<Rightarrow> key_mode option \<Rightarrow> settings \<Rightarrow> applied \<times> settings" where
  "set_drive node_id allowed mode = update_peer node_id (\<lambda>p.
     (se_drive p \<noteq> allowed \<or> (mode \<noteq> None \<and> mode \<noteq> Some (se_mode p)),
      p\<lparr>se_drive := allowed, se_mode := (case mode of None \<Rightarrow> se_mode p | Some m \<Rightarrow> m)\<rparr>))"

definition holdable_name :: "string \<Rightarrow> bool" where
  "holdable_name name = (case mods_bit name of None \<Rightarrow> False | Some b \<Rightarrow> b AND mods_HOLDABLE \<noteq> 0)"

definition remap_entries :: "(string, string) btree \<Rightarrow> (string, string) btree" where
  "remap_entries m = take MAX_REMAP (filter (\<lambda>p. holdable_name (fst p) \<and> holdable_name (snd p)) m)"

definition set_remap :: "string \<Rightarrow> (string, string) btree \<Rightarrow> settings \<Rightarrow> applied \<times> settings" where
  "set_remap node_id m = update_peer node_id (\<lambda>p.
     (se_remap p \<noteq> remap_entries m, p\<lparr>se_remap := remap_entries m\<rparr>))"

section \<open>Guards\<close>

definition guard_key :: "string \<Rightarrow> string \<Rightarrow> side \<Rightarrow> string" where
  "guard_key from_monitor to_key s = from_monitor @ ''|'' @ to_key @ ''|'' @ side_as_str s"

definition split_guard_key :: "string \<Rightarrow> (string \<times> string \<times> side) option" where
  "split_guard_key key =
     (case split_on CHR ''|'' key of
        [from_m, to_m, s] \<Rightarrow> do {
          s \<leftarrow> side_parse s;
          _ \<leftarrow> split_spot_key from_m;
          _ \<leftarrow> split_spot_key to_m;
          Some (from_m, to_m, s)
        }
      | _ \<Rightarrow> None)"

definition guards_on :: "settings \<Rightarrow> string \<Rightarrow> string \<Rightarrow> side \<Rightarrow> guards" where
  "guards_on s from_monitor to_key sd =
     (case map_of (ss_guards s) (guard_key from_monitor to_key sd) of None \<Rightarrow> guards_default | Some g \<Rightarrow> g)"

definition set_guards :: "string \<Rightarrow> string \<Rightarrow> side \<Rightarrow> guards \<Rightarrow> settings \<Rightarrow> applied \<times> settings" where
  "set_guards from_monitor to_key sd g s =
     (let key = guard_key from_monitor to_key sd
      in if split_guard_key key = None then (SetRefused, s)
         else if map_of (ss_guards s) key = None \<and> MAX_GUARDS \<le> length (ss_guards s) then (SetRefused, s)
         else if g = guards_default
         then (if map_of (ss_guards s) key = None then SetUnchanged else SetChanged,
               s\<lparr>ss_guards := bt_remove key (ss_guards s)\<rparr>)
         else (if map_of (ss_guards s) key = Some g then SetUnchanged else SetChanged,
               s\<lparr>ss_guards := bt_insert key g (ss_guards s)\<rparr>))"

definition faces :: "string \<Rightarrow> string \<Rightarrow> bool" where
  "faces node_id key =
     (case do { k \<leftarrow> split_guard_key key; split_spot_key (fst (snd k)) } of
        None \<Rightarrow> False | Some q \<Rightarrow> fst q = node_id)"

definition forget_peer :: "string \<Rightarrow> settings \<Rightarrow> bool \<times> settings" where
  "forget_peer node_id s =
     (let guards = filter (\<lambda>q. \<not> faces node_id (fst q)) (ss_guards s)
      in (map_of (ss_peers s) node_id \<noteq> None \<or> length guards \<noteq> length (ss_guards s),
          s\<lparr>ss_peers := bt_remove node_id (ss_peers s), ss_guards := guards\<rparr>))"

definition forget_all_grants :: "settings \<Rightarrow> bool \<times> settings" where
  "forget_all_grants s = (ss_peers s \<noteq> [], s\<lparr>ss_peers := []\<rparr>)"

definition set_hotkey :: "hotkey \<Rightarrow> settings \<Rightarrow> bool \<times> settings" where
  "set_hotkey h s = (ss_hotkey s \<noteq> h, s\<lparr>ss_hotkey := h\<rparr>)"

section \<open>The stored form\<close>

definition peer_settings_value :: "peer_settings \<Rightarrow> json" where
  "peer_settings_value p = jobj
     [(''allow'', JBool (se_allow p)), (''drive'', JBool (se_drive p)), (''mode'', JStr (key_mode_as_str (se_mode p))),
      (''remap'', JObj (map (\<lambda>q. (fst q, JStr (snd q))) (se_remap p)))]"

definition settings_to_value :: "settings \<Rightarrow> json" where
  "settings_to_value s = jobj
     [(''peers'', JObj (map (\<lambda>q. (fst q, peer_settings_value (snd q))) (ss_peers s))),
      (''guards'', JObj (map (\<lambda>q. (fst q, guards_to_value (snd q))) (ss_guards s))),
      (''hotkey'', JArr (map JStr (hotkey_to_names (ss_hotkey s)))),
      (''locked'', JBool (ss_locked s))]"

definition read_flag :: "json \<Rightarrow> string \<Rightarrow> bool" where
  "read_flag v k = (case Option.bind (jget v k) as_bool of None \<Rightarrow> False | Some b \<Rightarrow> b)"

definition read_remap :: "json \<Rightarrow> (string, string) btree" where
  "read_remap v =
     (case Option.bind (jget v ''remap'') as_object of
        None \<Rightarrow> []
      | Some m \<Rightarrow> List.map_filter (\<lambda>q. map_option (\<lambda>s. (fst q, s)) (as_str (snd q))) (take MAX_REMAP m))"

definition read_peer :: "json \<Rightarrow> peer_settings" where
  "read_peer v =
     \<lparr>se_allow = read_flag v ''allow'', se_drive = read_flag v ''drive'',
      se_mode = (case Option.bind (Option.bind (jget v ''mode'') as_str) key_mode_parse of None \<Rightarrow> Typing | Some m \<Rightarrow> m),
      se_remap = []\<rparr>"

definition load_peer :: "settings \<Rightarrow> string \<times> json \<Rightarrow> settings" where
  "load_peer s q =
     (if \<not> is_hex64 (fst q) then s
      else if read_peer (snd q) = peer_settings_default \<and> read_remap (snd q) = [] then s
      else snd (set_remap (fst q) (read_remap (snd q))
             (s\<lparr>ss_peers := bt_insert (fst q) (read_peer (snd q)) (ss_peers s)\<rparr>)))"

definition load_guard :: "settings \<Rightarrow> string \<times> json \<Rightarrow> settings" where
  "load_guard s q =
     (if split_guard_key (fst q) = None then s
      else
        let g = guards_from_value (snd q)
        in if g = guards_default then s else s\<lparr>ss_guards := bt_insert (fst q) g (ss_guards s)\<rparr>)"

definition settings_from_value :: "json \<Rightarrow> settings" where
  "settings_from_value doc =
     (let s = settings_default;
          s = (case Option.bind (jget doc ''peers'') as_object of
                 None \<Rightarrow> s | Some m \<Rightarrow> foldl load_peer s (take MAX_PEERS m));
          s = (case Option.bind (jget doc ''guards'') as_object of
                 None \<Rightarrow> s | Some m \<Rightarrow> foldl load_guard s (take MAX_GUARDS m));
          s = (case Option.bind (jget doc ''hotkey'') as_array of
                 None \<Rightarrow> s
               | Some names \<Rightarrow>
                   (case hotkey_parse (List.map_filter as_str names) of
                      None \<Rightarrow> s | Some h \<Rightarrow> s\<lparr>ss_hotkey := h\<rparr>))
      in s\<lparr>ss_locked := read_flag doc ''locked''\<rparr>)"

end
