(* ===== verification/SettingsFacts.thy ===== *)
theory SettingsFacts
  imports InputSettings
begin

text \<open>
  The settings keep their shape under every gesture, their file brings them back, and a permission is
  only ever read where the file grants it in so many words.
\<close>

section \<open>The shape of the settings\<close>

definition guards_ok :: "guards \<Rightarrow> bool" where
  "guards_ok g \<longleftrightarrow> gd_dwell_ms g \<le> 10000 \<and> gd_double_tap_ms g \<le> 10000 \<and>
     0 \<le> gd_dead_corner g \<and> gd_dead_corner g \<le> 1000 \<and> gd_require_mods g AND mods_HOLDABLE = gd_require_mods g"

definition peer_settings_ok :: "peer_settings \<Rightarrow> bool" where
  "peer_settings_ok p \<longleftrightarrow> bt_ok (se_remap p) \<and> remap_entries (se_remap p) = se_remap p"

definition settings_ok :: "settings \<Rightarrow> bool" where
  "settings_ok s \<longleftrightarrow>
     bt_ok (ss_peers s) \<and> length (ss_peers s) \<le> MAX_PEERS \<and>
     (\<forall>q \<in> set (ss_peers s). is_hex64 (fst q) \<and> snd q \<noteq> peer_settings_default \<and> peer_settings_ok (snd q)) \<and>
     bt_ok (ss_guards s) \<and> length (ss_guards s) \<le> MAX_GUARDS \<and>
     (\<forall>q \<in> set (ss_guards s). split_guard_key (fst q) \<noteq> None \<and> snd q \<noteq> guards_default \<and> guards_ok (snd q)) \<and>
     hotkey_parse (hotkey_to_names (ss_hotkey s)) = Some (ss_hotkey s)"

datatype settings_op =
    SetAllow string bool
  | SetDrive string bool "key_mode option"
  | SetRemap string "(string, string) btree"
  | SetGuards string string side guards
  | SetHotkey "string list"
  | SetLock bool
  | ForgetPeer string
  | ForgetAll

fun settings_op_ok :: "settings_op \<Rightarrow> bool" where
  "settings_op_ok (SetRemap _ m) \<longleftrightarrow> bt_ok m"
| "settings_op_ok (SetGuards _ _ _ g) \<longleftrightarrow> guards_ok g"
| "settings_op_ok _ \<longleftrightarrow> True"

text \<open>The gestures as the facade makes them: a chord that does not parse is refused.\<close>

fun apply_setting :: "settings \<Rightarrow> settings_op \<Rightarrow> settings" where
  "apply_setting s (SetAllow n b) = snd (set_allow n b s)"
| "apply_setting s (SetDrive n b m) = snd (set_drive n b m s)"
| "apply_setting s (SetRemap n m) = snd (set_remap n m s)"
| "apply_setting s (SetGuards a b sd g) = snd (set_guards a b sd g s)"
| "apply_setting s (SetHotkey names) = (case hotkey_parse names of None \<Rightarrow> s | Some h \<Rightarrow> snd (set_hotkey h s))"
| "apply_setting s (SetLock b) = s\<lparr>ss_locked := b\<rparr>"
| "apply_setting s (ForgetPeer n) = snd (forget_peer n s)"
| "apply_setting s ForgetAll = snd (forget_all_grants s)"

lemma length_bt_insert_old: "map_of m k \<noteq> None \<Longrightarrow> bt_ok m \<Longrightarrow> length (bt_insert k v m) = length m"
  by (induction k v m rule: bt_insert.induct) (auto simp: bt_ok_Cons dest!: map_of_SomeD split: if_splits)

lemma in_bt_insert: "bt_ok m \<Longrightarrow> q \<in> set (bt_insert k v m) \<Longrightarrow> q = (k, v) \<or> q \<in> set m"
  using set_bt_insert [of k v m] by auto

lemma in_bt_remove: "q \<in> set (bt_remove k m) \<Longrightarrow> q \<in> set m"
  by (simp add: bt_remove_def)

lemma bt_remove_length: "length (bt_remove k m) \<le> length m"
  by (simp add: bt_remove_def)

lemma settings_peer_ok:
  assumes "settings_ok s"
  shows "peer_settings_ok (settings_peer s n)"
proof (cases "map_of (ss_peers s) n")
  case None
  then show ?thesis by (simp add: settings_peer_def peer_settings_ok_def peer_settings_default_def remap_entries_def)
next
  case (Some p)
  then have "(n, p) \<in> set (ss_peers s)" by (rule map_of_SomeD)
  with assms Some show ?thesis by (auto simp: settings_ok_def settings_peer_def)
qed

lemma update_peer_ok:
  assumes s: "settings_ok s" and f: "\<And>p. peer_settings_ok p \<Longrightarrow> peer_settings_ok (snd (f p))"
  shows "settings_ok (snd (update_peer n f s))"
proof -
  obtain changed entry where e: "f (settings_peer s n) = (changed, entry)" by (cases "f (settings_peer s n)")
  have ok: "peer_settings_ok entry" using f [OF settings_peer_ok [OF s, of n]] e by simp
  have len: "length (bt_insert n entry (ss_peers s)) \<le> MAX_PEERS"
    if "\<not> (map_of (ss_peers s) n = None \<and> MAX_PEERS \<le> length (ss_peers s))"
    using that s bt_insert_length [of n entry "ss_peers s"] length_bt_insert_old [of "ss_peers s" n entry]
    by (cases "map_of (ss_peers s) n") (auto simp: settings_ok_def)
  show ?thesis
    using s e ok len bt_remove_length [of n "ss_peers s"]
    by (auto simp: update_peer_def settings_ok_def dest: in_bt_remove in_bt_insert [of "ss_peers s"])
qed

lemma bt_ok_filter: "bt_ok m \<Longrightarrow> bt_ok (filter P m)"
  by (induction m) (auto simp: bt_ok_def)

lemma bt_ok_take: "bt_ok m \<Longrightarrow> bt_ok (take n m)"
  by (simp add: bt_ok_def take_map [symmetric] sorted_wrt_take)

lemma remap_entries_ok: "bt_ok m \<Longrightarrow> bt_ok (remap_entries m) \<and> remap_entries (remap_entries m) = remap_entries m"
proof
  let ?P = "\<lambda>p. holdable_name (fst p) \<and> holdable_name (snd p)"
  show "bt_ok m \<Longrightarrow> bt_ok (remap_entries m)" by (simp add: remap_entries_def bt_ok_filter bt_ok_take)
  have "filter ?P (take MAX_REMAP (filter ?P m)) = take MAX_REMAP (filter ?P m)"
    using set_take_subset [of MAX_REMAP "filter ?P m"] by (intro filter_True) auto
  then show "remap_entries (remap_entries m) = remap_entries m" by (simp add: remap_entries_def)
qed

lemma apply_setting_ok: "settings_ok s \<Longrightarrow> settings_op_ok op \<Longrightarrow> settings_ok (apply_setting s op)"
proof (cases op)
  case (SetGuards a b sd g)
  assume s: "settings_ok s" and ok: "settings_op_ok op"
  let ?k = "guard_key a b sd"
  have len: "length (bt_insert ?k g (ss_guards s)) \<le> MAX_GUARDS"
    if "\<not> (map_of (ss_guards s) ?k = None \<and> MAX_GUARDS \<le> length (ss_guards s))"
    using that s bt_insert_length [of ?k g "ss_guards s"] length_bt_insert_old [of "ss_guards s" ?k g]
    by (cases "map_of (ss_guards s) ?k") (auto simp: settings_ok_def)
  show ?thesis
    using s ok len bt_remove_length [of ?k "ss_guards s"] unfolding SetGuards
    by (auto simp: set_guards_def Let_def settings_ok_def dest: in_bt_remove in_bt_insert [of "ss_guards s"])
next
  case (ForgetPeer n)
  assume "settings_ok s"
  then show ?thesis
    using bt_remove_length [of n "ss_peers s"] length_filter_le [of _ "ss_guards s"]
    unfolding ForgetPeer
    by (auto simp: forget_peer_def Let_def settings_ok_def bt_ok_filter dest: in_bt_remove
        intro: le_trans [OF length_filter_le])
next
  case (SetHotkey names)
  assume "settings_ok s"
  then show ?thesis
    unfolding SetHotkey
    by (cases "hotkey_parse names") (auto simp: set_hotkey_def settings_ok_def dest: a_hotkey_reads_back)
next
  case (SetLock b)
  assume "settings_ok s"
  then show ?thesis unfolding SetLock by (simp add: settings_ok_def)
next
  case ForgetAll
  assume "settings_ok s"
  then show ?thesis unfolding ForgetAll by (simp add: settings_ok_def forget_all_grants_def)
qed (auto simp: set_allow_def set_drive_def set_remap_def peer_settings_ok_def intro!: update_peer_ok remap_entries_ok)


interpretation settings_run: op_invariant apply_setting settings_op_ok settings_ok
  by unfold_locales (rule apply_setting_ok)

lemma settings_default_ok: "settings_ok settings_default"
  using default_hotkey_reads_back by (simp add: settings_ok_def settings_default_def)

section \<open>The file brings them back\<close>

lemma guards_read_back:
  assumes "guards_ok g"
  shows "guards_from_value (guards_to_value g) = g"
proof -
  have "unat (gd_require_mods g) < 2 ^ 16" using unsigned_less [where ?'a = nat, of "gd_require_mods g"] by simp
  then show ?thesis
    using assms by (simp add: guards_from_value_def guards_to_value_def guards_ok_def guards_ms_def jget_jobj as_i64_of_i64
        I32_MIN_def I32_MAX_def)
qed

lemma bt_insert_last: "\<forall>p \<in> set m. fst p < k \<Longrightarrow> bt_insert k v m = m @ [(k, v)]"
  by (induction m) auto

lemma bt_insert_same: "bt_ok (m @ [(k, v)]) \<Longrightarrow> bt_insert k w (m @ [(k, v)]) = m @ [(k, w)]"
  by (induction m) (auto simp: bt_ok_Cons)

lemma read_remap_back:
  assumes "peer_settings_ok p"
  shows "read_remap (peer_settings_value p) = se_remap p"
proof -
  have "take MAX_REMAP (se_remap p) = se_remap p"
    using assms by (metis (no_types, lifting) peer_settings_ok_def remap_entries_def min.idem take_take)
  moreover have "List.map_filter (\<lambda>q. map_option (\<lambda>s. (fst q, s)) (as_str (snd q))) (map (\<lambda>q. (fst q, JStr (snd q))) m) = m" for m
    by (induction m) auto
  ultimately show ?thesis by (simp add: read_remap_def peer_settings_value_def jget_jobj take_map)
qed

lemma load_peer_back:
  assumes q: "is_hex64 n" "p \<noteq> peer_settings_default" "peer_settings_ok p"
    and g: "bt_ok (ss_peers s @ [(n, p)])"
  shows "load_peer s (n, peer_settings_value p) = s\<lparr>ss_peers := ss_peers s @ [(n, p)]\<rparr>"
proof -
  let ?q = "p\<lparr>se_remap := []\<rparr>"
  have read: "read_peer (peer_settings_value p) = ?q"
    by (cases "se_mode p"; cases p) (simp_all add: read_peer_def read_flag_def peer_settings_value_def jget_jobj key_mode_parse_def)
  have last: "\<forall>r \<in> set (ss_peers s). fst r < n" using g by (auto simp: bt_ok_def sorted_wrt_append)
  have ok: "bt_ok (ss_peers s @ [(n, ?q)])" using g by (simp add: bt_ok_def)
  have parts: "\<not> (?q = peer_settings_default \<and> se_remap p = [])" "?q\<lparr>se_remap := se_remap p\<rparr> = p"
    using q(2) by (cases p; auto simp: peer_settings_default_def)+
  have found: "map_of (ss_peers s @ [(n, ?q)]) n = Some ?q"
    using ok by (metis in_set_conv_decomp map_of_in_set)
  then have peer: "settings_peer (s\<lparr>ss_peers := ss_peers s @ [(n, ?q)]\<rparr>) n = ?q" by (simp add: settings_peer_def del: map_of_append)
  have entries: "remap_entries (se_remap p) = se_remap p" using q(3) by (simp add: peer_settings_ok_def)
  show ?thesis
    using q(1,2) parts bt_insert_last [OF last] bt_insert_same [OF ok] found
    by (simp add: load_peer_def read read_remap_back [OF q(3)] set_remap_def update_peer_def peer entries del: map_of_append)
qed

lemma load_guard_back:
  assumes "split_guard_key k \<noteq> None" "g \<noteq> guards_default" "guards_ok g" and "bt_ok (ss_guards s @ [(k, g)])"
  shows "load_guard s (k, guards_to_value g) = s\<lparr>ss_guards := ss_guards s @ [(k, g)]\<rparr>"
proof -
  have "\<forall>r \<in> set (ss_guards s). fst r < k" using assms(4) by (auto simp: bt_ok_def sorted_wrt_append)
  from bt_insert_last [OF this] assms(1-3) show ?thesis by (simp add: load_guard_def guards_read_back)
qed

lemma load_peers_back:
  "bt_ok (ss_peers s @ ps) \<Longrightarrow>
   \<forall>q \<in> set ps. is_hex64 (fst q) \<and> snd q \<noteq> peer_settings_default \<and> peer_settings_ok (snd q) \<Longrightarrow>
   foldl load_peer s (map (\<lambda>q. (fst q, peer_settings_value (snd q))) ps) = s\<lparr>ss_peers := ss_peers s @ ps\<rparr>"
proof (induction ps arbitrary: s)
  case (Cons q ps)
  have "bt_ok (ss_peers s @ [q])" using Cons.prems(1) by (auto simp: bt_ok_def sorted_wrt_append)
  then have "load_peer s (fst q, peer_settings_value (snd q)) = s\<lparr>ss_peers := ss_peers s @ [q]\<rparr>"
    using load_peer_back [of "fst q" "snd q" s] Cons.prems(2) by simp
  with Cons.IH [of "s\<lparr>ss_peers := ss_peers s @ [q]\<rparr>"] Cons.prems show ?case by simp
qed simp

lemma load_guards_back:
  "bt_ok (ss_guards s @ gs) \<Longrightarrow>
   \<forall>q \<in> set gs. split_guard_key (fst q) \<noteq> None \<and> snd q \<noteq> guards_default \<and> guards_ok (snd q) \<Longrightarrow>
   foldl load_guard s (map (\<lambda>q. (fst q, guards_to_value (snd q))) gs) = s\<lparr>ss_guards := ss_guards s @ gs\<rparr>"
proof (induction gs arbitrary: s)
  case (Cons q gs)
  have "bt_ok (ss_guards s @ [q])" using Cons.prems(1) by (auto simp: bt_ok_def sorted_wrt_append)
  then have "load_guard s (fst q, guards_to_value (snd q)) = s\<lparr>ss_guards := ss_guards s @ [q]\<rparr>"
    using load_guard_back [of "fst q" "snd q" s] Cons.prems(2) by simp
  with Cons.IH [of "s\<lparr>ss_guards := ss_guards s @ [q]\<rparr>"] Cons.prems show ?case by simp
qed simp

lemma settings_read_back:
  assumes "settings_ok s"
  shows "settings_from_value (settings_to_value s) = s"
proof -
  let ?v = "settings_to_value s"
  have get: "jget ?v ''peers'' = Some (JObj (map (\<lambda>q. (fst q, peer_settings_value (snd q))) (ss_peers s)))"
    "jget ?v ''guards'' = Some (JObj (map (\<lambda>q. (fst q, guards_to_value (snd q))) (ss_guards s)))"
    "jget ?v ''hotkey'' = Some (JArr (map JStr (hotkey_to_names (ss_hotkey s))))"
    "jget ?v ''locked'' = Some (JBool (ss_locked s))"
    by (simp_all add: settings_to_value_def jget_jobj)
  have names: "List.map_filter as_str (map JStr ns) = ns" for ns by (induction ns) auto
  have take: "take MAX_PEERS (map f (ss_peers s)) = map f (ss_peers s)" "take MAX_GUARDS (map h (ss_guards s)) = map h (ss_guards s)"
    for f :: "_ \<Rightarrow> string \<times> json" and h :: "_ \<Rightarrow> string \<times> json" using assms by (simp_all add: settings_ok_def)
  have peers: "foldl load_peer settings_default (map (\<lambda>q. (fst q, peer_settings_value (snd q))) (ss_peers s)) =
      settings_default\<lparr>ss_peers := ss_peers s\<rparr>"
    using load_peers_back [of settings_default "ss_peers s"] assms by (simp add: settings_ok_def settings_default_def)
  have guards: "foldl load_guard (settings_default\<lparr>ss_peers := ss_peers s\<rparr>) (map (\<lambda>q. (fst q, guards_to_value (snd q))) (ss_guards s)) =
      settings_default\<lparr>ss_peers := ss_peers s, ss_guards := ss_guards s\<rparr>"
    using load_guards_back [of "settings_default\<lparr>ss_peers := ss_peers s\<rparr>" "ss_guards s"] assms
    by (simp add: settings_ok_def settings_default_def)
  show ?thesis
    using assms by (simp add: settings_from_value_def get take peers guards names read_flag_def settings_ok_def)
qed

text \<open>
  C39. Whatever gestures a machine's settings went through, they keep their bounds and their file brings
  them back whole: every permission, mode, remapping, guard and the chord.
\<close>

theorem the_settings_survive_a_restart:
  assumes "list_all settings_op_ok ops"
  shows "settings_from_value (settings_to_value (foldl apply_setting settings_default ops)) =
      foldl apply_setting settings_default ops \<and>
    length (ss_peers (foldl apply_setting settings_default ops)) \<le> MAX_PEERS \<and>
    length (ss_guards (foldl apply_setting settings_default ops)) \<le> MAX_GUARDS"
  using settings_run.run [OF settings_default_ok assms] settings_read_back by (simp add: settings_ok_def)

section \<open>Permissions\<close>

text \<open>The file grants a permission: the value \<open>true\<close> under \<open>allow\<close>, in the entry of a well-formed name.\<close>

definition file_allows :: "json \<Rightarrow> string \<Rightarrow> bool" where
  "file_allows doc n \<longleftrightarrow> is_hex64 n \<and>
     (case Option.bind (jget doc ''peers'') as_object of
        None \<Rightarrow> False | Some m \<Rightarrow> list_ex (\<lambda>q. fst q = n \<and> jget (snd q) ''allow'' = Some (JBool True)) m)"

lemma update_peer_allows:
  assumes "\<And>p. se_allow (snd (f p)) = se_allow p"
  shows "allows (snd (update_peer m f s)) n \<longleftrightarrow> allows s n"
proof -
  obtain c e where e: "f (settings_peer s m) = (c, e)" by (cases "f (settings_peer s m)")
  then have "se_allow e = se_allow (settings_peer s m)" using assms [of "settings_peer s m"] by simp
  then show ?thesis
    using e by (auto simp: update_peer_def allows_def settings_peer_def peer_settings_default_def split: option.splits)
qed

lemma read_peer_allow: "se_allow (read_peer v) \<Longrightarrow> jget v ''allow'' = Some (JBool True)"
proof (cases "jget v ''allow''")
  case (Some j)
  assume "se_allow (read_peer v)"
  with Some show ?thesis by (cases j) (simp_all add: read_peer_def read_flag_def)
qed (simp add: read_peer_def read_flag_def)

lemma load_peer_allows:
  assumes a: "allows (load_peer s q) n"
  shows "allows s n \<or> (n = fst q \<and> is_hex64 n \<and> jget (snd q) ''allow'' = Some (JBool True))"
proof (cases "load_peer s q = s")
  case True
  with a show ?thesis by simp
next
  case False
  let ?s = "s\<lparr>ss_peers := bt_insert (fst q) (read_peer (snd q)) (ss_peers s)\<rparr>"
  have hex: "is_hex64 (fst q)" and load: "load_peer s q = snd (set_remap (fst q) (read_remap (snd q)) ?s)"
    using False by (auto simp: load_peer_def split: if_splits)
  have "allows (snd (set_remap (fst q) m ?s)) n \<longleftrightarrow> allows ?s n" for m
    unfolding set_remap_def by (rule update_peer_allows) simp
  then have "allows ?s n" using a load by simp
  then show ?thesis using hex read_peer_allow [of "snd q"] by (auto simp: allows_def split: if_splits)
qed

text \<open>
  C40. A permission is read only where the file grants it: a device the settings allow to drive this machine
  has an entry of its own in the file with \<open>allow\<close> set to \<open>true\<close>, and anything malformed reads as a refusal.
\<close>

theorem no_permission_is_guessed:
  assumes "allows (settings_from_value doc) n"
  shows "file_allows doc n"
proof -
  have guard: "ss_peers (load_guard s q) = ss_peers s" for s q by (simp add: load_guard_def Let_def)
  have guards: "ss_peers (foldl load_guard s qs) = ss_peers s" for s qs by (induction qs arbitrary: s) (simp_all add: guard)
  have none: "\<not> allows settings_default n" by (simp add: allows_def settings_default_def)
  have peers: "allows (foldl load_peer s qs) n \<Longrightarrow>
      allows s n \<or> (\<exists>q \<in> set qs. n = fst q \<and> is_hex64 n \<and> jget (snd q) ''allow'' = Some (JBool True))" for s qs
  proof (induction qs arbitrary: s)
    case (Cons q qs)
    then show ?case using load_peer_allows [of s q n] by fastforce
  qed simp
  let ?s = "case Option.bind (jget doc ''peers'') as_object of
    None \<Rightarrow> settings_default | Some m \<Rightarrow> foldl load_peer settings_default (take MAX_PEERS m)"
  have "ss_peers (settings_from_value doc) = ss_peers ?s"
    by (auto simp: settings_from_value_def Let_def guards split: option.splits)
  with assms have "allows ?s n" by (simp add: allows_def)
  then show ?thesis
    using peers none by (fastforce simp: file_allows_def list_ex_iff dest: in_set_takeD split: option.splits)
qed

definition desk_node :: string where "desk_node = replicate 64 (CHR ''a'')"

lemma desk_node_hex: "is_hex64 desk_node"
  by (simp add: desk_node_def is_hex64_def list_all_iff is_lower_hex_def)

lemma the_settings_survive_a_restart_witness:
  "settings_from_value (settings_to_value (foldl apply_setting settings_default
      [SetAllow desk_node True, SetRemap desk_node [(''ctrl'', ''meta'')], SetHotkey [''ctrl'', ''F1''], SetLock True])) =
    foldl apply_setting settings_default
      [SetAllow desk_node True, SetRemap desk_node [(''ctrl'', ''meta'')], SetHotkey [''ctrl'', ''F1''], SetLock True]"
  using the_settings_survive_a_restart
    [of "[SetAllow desk_node True, SetRemap desk_node [(''ctrl'', ''meta'')], SetHotkey [''ctrl'', ''F1''], SetLock True]"]
  by (simp add: bt_ok_Cons)

lemma no_permission_is_guessed_witness:
  "file_allows (settings_to_value (snd (set_allow desk_node True settings_default))) desk_node"
proof (rule no_permission_is_guessed)
  let ?s = "snd (set_allow desk_node True settings_default)"
  have "settings_ok ?s" using apply_setting_ok [OF settings_default_ok, of "SetAllow desk_node True"] by simp
  moreover have "allows ?s desk_node"
    by (simp add: set_allow_def update_peer_def desk_node_hex allows_def settings_default_def settings_peer_def
        peer_settings_default_def MAX_PEERS_def MAX_DEVICES_def)
  ultimately show "allows (settings_from_value (settings_to_value ?s)) desk_node" by (simp add: settings_read_back)
qed

text \<open>A remapping that is no permutation is accepted, and loses a modifier.\<close>

lemma a_remapping_loses_a_modifier:
  "remap_entries [(''ctrl'', ''meta'')] = [(''ctrl'', ''meta'')]"
  "remap (mods_CTRL OR mods_META) [(''ctrl'', ''meta'')] = mods_META"
  by code_simp+

end
