(* ===== verification/InputBackend.thy ===== *)
theory InputBackend
  imports InputSettings
begin

text \<open>
  The seam between the input engine and a platform (\<open>input/src/backend.rs\<close>): what a machine can do, the
  problems it reports, and the events that come up from it.
\<close>

section \<open>Problems\<close>

datatype problem =
    PNoBackend | PNoPermission | PMonitorsUnstable | PWayland | PXWayland
  | PWaylandNoBus | PWaylandNoPortal | PWaylandPortalOld | PWaylandPortalRefused | PWaylandUntested

definition problem_all :: "problem list" where
  "problem_all =
     [PNoBackend, PNoPermission, PMonitorsUnstable, PWayland, PXWayland,
      PWaylandNoBus, PWaylandNoPortal, PWaylandPortalOld, PWaylandPortalRefused, PWaylandUntested]"

fun problem_code :: "problem \<Rightarrow> string" where
  "problem_code PNoBackend = ''no_backend''"
| "problem_code PNoPermission = ''no_permission''"
| "problem_code PMonitorsUnstable = ''monitors_unstable''"
| "problem_code PWayland = ''wayland''"
| "problem_code PXWayland = ''xwayland''"
| "problem_code PWaylandNoBus = ''wayland_no_bus''"
| "problem_code PWaylandNoPortal = ''wayland_no_portal''"
| "problem_code PWaylandPortalOld = ''wayland_portal_old''"
| "problem_code PWaylandPortalRefused = ''wayland_portal_refused''"
| "problem_code PWaylandUntested = ''wayland_untested''"

definition problem_parse :: "string \<Rightarrow> problem option" where
  "problem_parse code = find (\<lambda>p. problem_code p = code) problem_all"

datatype peer_problem =
  PPNotAllowed | PPBusy | PPLocked | PPNoBackend | PPNoPath | PPTooSlow | PPPlaneStale | PPXWayland

fun peer_problem_code :: "peer_problem \<Rightarrow> string" where
  "peer_problem_code PPNotAllowed = ''not_allowed''"
| "peer_problem_code PPBusy = ''busy''"
| "peer_problem_code PPLocked = ''locked''"
| "peer_problem_code PPNoBackend = ''no_backend''"
| "peer_problem_code PPNoPath = ''no_path''"
| "peer_problem_code PPTooSlow = ''too_slow''"
| "peer_problem_code PPPlaneStale = ''plane_stale''"
| "peer_problem_code PPXWayland = ''xwayland''"

fun as_peer :: "problem \<Rightarrow> peer_problem option" where
  "as_peer PXWayland = Some PPXWayland"
| "as_peer _ = None"

section \<open>Capabilities\<close>

record capabilities =
  ca_capture :: bool
  ca_swallow :: bool
  ca_confine :: bool
  ca_warp :: bool
  ca_inject_keys :: bool
  ca_inject_pointer :: bool
  ca_unicode :: bool
  ca_monitors_stable :: bool
  ca_problem :: "problem option"

definition can_be_driven :: "capabilities \<Rightarrow> bool" where
  "can_be_driven c \<longleftrightarrow> ca_inject_keys c"

definition can_drive :: "capabilities \<Rightarrow> bool" where
  "can_drive c \<longleftrightarrow> ca_capture c \<and> ca_swallow c \<and> ca_confine c"

definition caps_to_value :: "capabilities \<Rightarrow> json" where
  "caps_to_value c = jobj
     ([(''capture'', JBool (ca_capture c)), (''swallow'', JBool (ca_swallow c)), (''confine'', JBool (ca_confine c)),
       (''warp'', JBool (ca_warp c)), (''inject_keys'', JBool (ca_inject_keys c)),
       (''inject_pointer'', JBool (ca_inject_pointer c)), (''unicode'', JBool (ca_unicode c)),
       (''monitors_stable'', JBool (ca_monitors_stable c))] @
      opt_field ''problem'' (map_option (\<lambda>p. JStr (problem_code p)) (ca_problem c)))"

definition caps_flag :: "json \<Rightarrow> string \<Rightarrow> bool" where
  "caps_flag v name \<longleftrightarrow> Option.bind (jget v name) as_bool = Some True"

definition caps_from_value :: "json \<Rightarrow> capabilities" where
  "caps_from_value v =
     \<lparr>ca_capture = caps_flag v ''capture'', ca_swallow = caps_flag v ''swallow'', ca_confine = caps_flag v ''confine'',
      ca_warp = caps_flag v ''warp'', ca_inject_keys = caps_flag v ''inject_keys'',
      ca_inject_pointer = caps_flag v ''inject_pointer'', ca_unicode = caps_flag v ''unicode'',
      ca_monitors_stable = caps_flag v ''monitors_stable'',
      ca_problem = Option.bind (Option.bind (jget v ''problem'') as_str) problem_parse\<rparr>"

lemma problem_reads_back: "problem_parse (problem_code p) = Some p"
  by (cases p) (simp_all add: problem_parse_def problem_all_def)

lemma caps_read_back: "caps_from_value (caps_to_value c) = c"
  by (cases c; cases "ca_problem c")
    (simp_all add: caps_from_value_def caps_to_value_def caps_flag_def opt_field_def jget_jobj problem_reads_back)

section \<open>Events\<close>

datatype capture_mode = CaptureOff | CaptureWatch | CaptureSwallow

datatype refusal_kind = ElevatedWindow | SecureInput | ScreenLocked | RNoPermission

fun refusal_kind_code :: "refusal_kind \<Rightarrow> string" where
  "refusal_kind_code ElevatedWindow = ''ELEVATED_WINDOW''"
| "refusal_kind_code SecureInput = ''SECURE_INPUT''"
| "refusal_kind_code ScreenLocked = ''SCREEN_LOCKED''"
| "refusal_kind_code RNoPermission = ''NO_PERMISSION''"

datatype capture_loss = CaptureBroken | CapturePermission | CaptureSessionEnded

type_synonym point = "int \<times> int"

record motion =
  mt_at :: point
  mt_dx :: int
  mt_dy :: int

record rect =
  rc_x :: int
  rc_y :: int
  rc_w :: int
  rc_h :: int

datatype backend_event =
    BMotion motion
  | BButton u8 bool
  | BWheel i32 i32 bool
  | BKey key_event
  | BMonitorsChanged
  | BLayoutChanged string u32
  | BCapabilitiesChanged
  | BRefused refusal_kind
  | BCaptureLost capture_loss

end
