(* ===== verification/InputSession.thy ===== *)
theory InputSession
  imports Complex_Main InputBackend
begin

text \<open>
  The engine of input sharing (\<open>input/src/session.rs\<close>): its state, the channels to the other computers,
  what it says on them, and the half in which this machine is driven. Every operation that awaits only
  asks the platform, so each is one step on the state.

  Time is an argument: an \<open>Instant\<close> is a number of nanoseconds, and a difference of instants saturates at
  zero. What is read outside is the record \<open>desk\<close>. What the engine makes others do is the list
  \<open>ie_calls\<close> in the order it does it: calls to the platform, frames handed to a channel, files written. A
  channel's outbox is present or not; a frame it has no room for is lost without a trace in the state. The
  token buckets, \<open>f64\<close> in the source, are rational numbers. Logging is dropped.
\<close>

section \<open>Constants\<close>

definition seconds :: "nat \<Rightarrow> nat" where "seconds n = n * 1000000000"
definition millis :: "nat \<Rightarrow> nat" where "millis n = n * 1000000"

definition SESSION_IDLE :: nat where "SESSION_IDLE = seconds 5"
definition SOURCE_STALL :: nat where "SOURCE_STALL = seconds 2"
definition CROSS_OPEN_BOUND :: nat where "CROSS_OPEN_BOUND = seconds 1"
definition WARM_PING :: nat where "WARM_PING = seconds 3"
definition SESSION_PING :: nat where "SESSION_PING = seconds 1"
definition LAYOUT_SWEEP :: nat where "LAYOUT_SWEEP = seconds 60"
definition LAYOUT_MIN_GAP :: nat where "LAYOUT_MIN_GAP = seconds 2"
definition EMIT_GAP :: nat where "EMIT_GAP = millis 100"
definition REFUSAL_WINDOW :: nat where "REFUSAL_WINDOW = seconds 1"
definition RTT_SILENT_MS :: nat where "RTT_SILENT_MS = 10"
definition RTT_MAX_MS :: nat where "RTT_MAX_MS = 60"
definition FLOW_RATE_FAST :: rat where "FLOW_RATE_FAST = 250"
definition FLOW_RATE_SLOW :: rat where "FLOW_RATE_SLOW = 125"
definition FLOW_BURST :: rat where "FLOW_BURST = 2"
definition OUT_RATE_MAX :: rat where "OUT_RATE_MAX = 1000"
definition TAKE_PARK_BOUND :: nat where "TAKE_PARK_BOUND = seconds 5"
definition CLOSURE_GRACE :: nat where "CLOSURE_GRACE = millis 250"
definition BACKOFF_REFUSED :: nat where "BACKOFF_REFUSED = seconds 30"
definition BACKOFF_OPEN :: nat where "BACKOFF_OPEN = seconds 5"
definition BACKOFF_CUT :: nat where "BACKOFF_CUT = seconds 60"
definition BACKOFF_STALE :: nat where "BACKOFF_STALE = seconds 2"
definition NOT_WARM :: string where "NOT_WARM = ''NOT_WARM''"

definition as_secs :: "nat \<Rightarrow> rat" where "as_secs d = of_nat d / 1000000000"
definition from_secs :: "rat \<Rightarrow> nat" where "from_secs r = nat (round (r * 1000000000))"

section \<open>The directory\<close>

datatype input_effect =
    IOpen string string
  | ISend string json
  | IEmit string json

datatype flow = FlowAt int int | FlowBy int int

definition flow_relative :: "int \<Rightarrow> int \<Rightarrow> flow option" where
  "flow_relative dx dy = (if dx \<noteq> 0 \<or> dy \<noteq> 0 then Some (FlowBy dx dy) else None)"

fun flow_frame :: "flow \<Rightarrow> u32 \<Rightarrow> u32 \<Rightarrow> frame" where
  "flow_frame (FlowAt x y) session n = FPointer session n (word_of_int x) (word_of_int y)"
| "flow_frame (FlowBy dx dy) session n = FMotion session n (word_of_int dx) (word_of_int dy)"

record dir_entry =
  de_device_id :: string
  de_name :: string
  de_online :: bool
  de_lan :: bool
  de_reachable :: bool

record directory =
  di_own_node :: "string option"
  di_own_device :: "string option"
  di_own_name :: string
  di_peers :: "(string, dir_entry) btree"

definition directory_default :: directory where
  "directory_default = \<lparr>di_own_node = None, di_own_device = None, di_own_name = [], di_peers = []\<rparr>"

definition text_or_empty :: "json \<Rightarrow> string \<Rightarrow> string" where
  "text_or_empty v k = (case str_of v k of None \<Rightarrow> [] | Some s \<Rightarrow> s)"

definition directory_row :: "directory \<Rightarrow> json \<Rightarrow> directory" where
  "directory_row d row =
     (case (str_of row ''node_id'', str_of row ''device_id'') of
        (Some node, Some device) \<Rightarrow>
          if bool_of row ''is_self'' = Some True
          then d\<lparr>di_own_node := Some node, di_own_device := Some device, di_own_name := text_or_empty row ''name''\<rparr>
          else d\<lparr>di_peers := bt_insert node
                 \<lparr>de_device_id = device, de_name = text_or_empty row ''name'',
                  de_online = (bool_of row ''online'' = Some True), de_lan = (bool_of row ''lan'' = Some True),
                  de_reachable = (bool_of row ''reachable'' = Some True)\<rparr> (di_peers d)\<rparr>
      | _ \<Rightarrow> d)"

definition directory_parse :: "json \<Rightarrow> directory" where
  "directory_parse snapshot =
     (case as_array snapshot of None \<Rightarrow> directory_default | Some rows \<Rightarrow> foldl directory_row directory_default rows)"

definition node_of :: "directory \<Rightarrow> string \<Rightarrow> string option" where
  "node_of d device_id = map_option fst (find (\<lambda>q. de_device_id (snd q) = device_id) (di_peers d))"

definition device_of_node :: "directory \<Rightarrow> string \<Rightarrow> string option" where
  "device_of_node d node_id =
     (if di_own_node d = Some node_id then di_own_device d
      else map_option de_device_id (map_of (di_peers d) node_id))"

section \<open>The state\<close>

datatype link = LinkCold | LinkWarming | LinkWarm

record hi =
  hi_caps :: capabilities
  hi_plane :: string

record input_peer =
  pr_link :: link
  pr_mine :: bool
  pr_out :: bool
  pr_hi :: "hi option"
  pr_next_session :: u32
  pr_rtt_ms :: "nat option"
  pr_last_ping :: "nat option"
  pr_last_pong :: "nat option"
  pr_attached_at :: "nat option"
  pr_backoff_until :: "nat option"
  pr_problem :: "peer_problem option"
  pr_layout_sent :: "nat option"
  pr_layout_due :: bool
  pr_take :: "(mode option \<times> nat) option"

definition peer_default :: input_peer where
  "peer_default =
     \<lparr>pr_link = LinkCold, pr_mine = False, pr_out = False, pr_hi = None, pr_next_session = 1, pr_rtt_ms = None,
      pr_last_ping = None, pr_last_pong = None, pr_attached_at = None, pr_backoff_until = None, pr_problem = None,
      pr_layout_sent = None, pr_layout_due = False, pr_take = None\<rparr>"

record driving =
  dg_node :: string
  dg_session :: u32
  dg_mode :: mode
  dg_accepted :: bool
  dg_since :: nat
  dg_since_unix :: nat
  dg_cursor :: point
  dg_on :: string
  dg_from :: string
  dg_home :: point
  dg_n :: u32
  dg_pending :: "flow option"
  dg_tokens :: rat
  dg_tokens_at :: nat
  dg_out_tokens :: rat
  dg_out_at :: nat

record driven =
  dv_node :: string
  dv_session :: u32
  dv_keys :: key_mode
  dv_mode :: mode
  dv_since_unix :: nat
  dv_last_frame :: nat
  dv_last_n :: u32

record dwell =
  dw_seg :: segment
  dw_since :: nat
  dw_along :: int
  dw_tapped :: bool
  dw_warming :: "nat option"
  dw_probed :: bool

record window =
  wn_until :: nat
  wn_pending :: u32
  wn_oops :: bool

datatype downcall =
    CCapture capture_mode
  | CConfine "rect option"
  | CWarp point
  | CInject "action list"
  | CReleaseAll "platform_key list"
  | CFrame string frame
  | CSaveHeld json bool
  | CSavePlane json
  | CSaveSettings json

text \<open>The store is its identity and the files it writes, which appear in \<open>ie_calls\<close>.\<close>

record input_engine =
  ie_identity :: input_identity
  ie_directory :: directory
  ie_plane :: plane
  ie_plane_id :: string
  ie_settings :: settings
  ie_graph :: graph
  ie_caps :: capabilities
  ie_monitors :: "monitor list"
  ie_layout :: string
  ie_group :: u32
  ie_mods_held :: u16
  ie_last_pointer :: "point option"
  ie_capture :: "capture_mode option"
  ie_capture_sent :: "capture_mode option"
  ie_confined :: bool
  ie_peers :: "(string, input_peer) btree"
  ie_driving :: "driving option"
  ie_driven :: "driven option"
  ie_held :: held
  ie_stranded :: held
  ie_held_on_disk :: json
  ie_resolver :: resolver
  ie_mod_keys :: mod_keys
  ie_dwell :: "dwell option"
  ie_left :: "(string, nat) btree"
  ie_epoch :: nat
  ie_effects :: "input_effect list"
  ie_dirty :: bool
  ie_last_emit :: nat
  ie_last_snapshot :: json
  ie_sweep_at :: nat
  ie_open_due :: bool
  ie_windows :: "(string \<times> string, window) btree"
  ie_calls :: "downcall list"

text \<open>What a step reads outside the engine.\<close>

record desk =
  dk_caps :: capabilities
  dk_monitors :: "monitor list"
  dk_pointer :: "point option"
  dk_resolve :: "want \<Rightarrow> resolved option"
  dk_saves :: "json \<Rightarrow> bool"
  dk_size :: "json \<Rightarrow> nat"
  dk_verify :: "string \<Rightarrow> string \<Rightarrow> string \<Rightarrow> bool"
  dk_hash :: "string \<Rightarrow> string"
  dk_wall :: nat

section \<open>Access\<close>

definition call :: "downcall \<Rightarrow> input_engine \<Rightarrow> input_engine" where
  "call c s = s\<lparr>ie_calls := ie_calls s @ [c]\<rparr>"

definition peer_of :: "input_engine \<Rightarrow> string \<Rightarrow> input_peer" where
  "peer_of s node = (case map_of (ie_peers s) node of None \<Rightarrow> peer_default | Some p \<Rightarrow> p)"

text \<open>\<open>peers.entry(node).or_default()\<close> and \<open>peers.get_mut(node)\<close>.\<close>

definition upd_peer :: "string \<Rightarrow> (input_peer \<Rightarrow> input_peer) \<Rightarrow> input_engine \<Rightarrow> input_engine" where
  "upd_peer node f s = s\<lparr>ie_peers := bt_insert node (f (peer_of s node)) (ie_peers s)\<rparr>"

definition mod_peer :: "string \<Rightarrow> (input_peer \<Rightarrow> input_peer) \<Rightarrow> input_engine \<Rightarrow> input_engine" where
  "mod_peer node f s = (if map_of (ie_peers s) node = None then s else upd_peer node f s)"

definition is_driving :: "input_engine \<Rightarrow> string \<Rightarrow> bool" where
  "is_driving s node = (case ie_driving s of None \<Rightarrow> False | Some d \<Rightarrow> dg_node d = node)"

definition is_driven :: "input_engine \<Rightarrow> string \<Rightarrow> bool" where
  "is_driven s node = (case ie_driven s of None \<Rightarrow> False | Some d \<Rightarrow> dv_node d = node)"

definition is_warm :: "input_engine \<Rightarrow> string \<Rightarrow> bool" where
  "is_warm s node = (case map_of (ie_peers s) node of None \<Rightarrow> False | Some p \<Rightarrow> pr_link p = LinkWarm)"

definition dirty :: "input_engine \<Rightarrow> input_engine" where
  "dirty s = s\<lparr>ie_dirty := True\<rparr>"

definition effect_out :: "input_effect \<Rightarrow> input_engine \<Rightarrow> input_engine" where
  "effect_out e s = s\<lparr>ie_effects := ie_effects s @ [e]\<rparr>"

definition saturating_inc :: "u32 \<Rightarrow> u32" where
  "saturating_inc w = (if w = - 1 then w else w + 1)"

section \<open>Frames out\<close>

definition allow_out :: "string \<Rightarrow> bool \<Rightarrow> nat \<Rightarrow> input_engine \<Rightarrow> bool \<times> input_engine" where
  "allow_out node droppable now s =
     (case ie_driving s of
        None \<Rightarrow> (True, s)
      | Some d \<Rightarrow>
          if dg_node d \<noteq> node then (True, s)
          else
            let tokens = min (dg_out_tokens d + as_secs (now - dg_out_at d) * OUT_RATE_MAX) (OUT_RATE_MAX / 10);
                d = d\<lparr>dg_out_tokens := (if 1 \<le> tokens then tokens - 1 else tokens), dg_out_at := now\<rparr>
            in (1 \<le> tokens \<or> \<not> droppable, s\<lparr>ie_driving := Some d\<rparr>))"

text \<open>The frame that fits: itself, or the degraded one, or none.\<close>

definition fitting_frame :: "(json \<Rightarrow> nat) \<Rightarrow> frame \<Rightarrow> frame option" where
  "fitting_frame sz f =
     (case encode_frame sz f of
        Inr _ \<Rightarrow> Some f
      | Inl _ \<Rightarrow>
          (case degrade f of
             (gave_up, g) \<Rightarrow>
               if gave_up \<and> (case encode_frame sz g of Inr _ \<Rightarrow> True | Inl _ \<Rightarrow> False) then Some g else None))"

definition write_frame :: "desk \<Rightarrow> string \<Rightarrow> frame \<Rightarrow> bool \<Rightarrow> nat \<Rightarrow> input_engine \<Rightarrow> input_engine" where
  "write_frame w node f droppable now s =
     (case fitting_frame (dk_size w) f of
        None \<Rightarrow> s
      | Some f \<Rightarrow>
          (case allow_out node droppable now s of
             (allowed, s) \<Rightarrow>
               if \<not> allowed then s
               else (case map_of (ie_peers s) node of
                       None \<Rightarrow> s | Some p \<Rightarrow> if pr_out p then call (CFrame node f) s else s)))"

definition send_frame :: "desk \<Rightarrow> string \<Rightarrow> frame \<Rightarrow> nat \<Rightarrow> input_engine \<Rightarrow> input_engine" where
  "send_frame w node f now = write_frame w node f False now"

definition send_droppable :: "desk \<Rightarrow> string \<Rightarrow> frame \<Rightarrow> nat \<Rightarrow> input_engine \<Rightarrow> input_engine" where
  "send_droppable w node f now = write_frame w node f True now"

section \<open>Refusals\<close>

definition emit_refused :: "string \<Rightarrow> string \<Rightarrow> u32 \<Rightarrow> input_engine \<Rightarrow> input_engine" where
  "emit_refused node code count s =
     (case device_of_node (ie_directory s) node of
        None \<Rightarrow> s
      | Some device_id \<Rightarrow> effect_out (IEmit ''input.refused'' (jobj
          [(''device_id'', JStr device_id), (''code'', JStr code), (''count'', of_u32 count)])) s)"

definition say_refusal :: "desk \<Rightarrow> string \<Rightarrow> string \<Rightarrow> u32 \<Rightarrow> bool \<Rightarrow> nat \<Rightarrow> input_engine \<Rightarrow> input_engine" where
  "say_refusal w node code count is_oops now s =
     emit_refused node code count
       (case ie_driven s of
          None \<Rightarrow> s
        | Some d \<Rightarrow>
            if is_oops \<and> dv_node d = node then send_frame w node (FOops (dv_session d) code count) now s else s)"

definition announce :: "desk \<Rightarrow> string \<Rightarrow> string \<Rightarrow> bool \<Rightarrow> nat \<Rightarrow> input_engine \<Rightarrow> input_engine" where
  "announce w node code is_oops now s =
     (let key = (node, code);
          open_window = (\<lambda>count. say_refusal w node code (saturating_inc count) is_oops now
            (s\<lparr>ie_windows := bt_insert key
                 \<lparr>wn_until = now + REFUSAL_WINDOW, wn_pending = 0, wn_oops = is_oops\<rparr> (ie_windows s)\<rparr>))
      in case map_of (ie_windows s) key of
           None \<Rightarrow> open_window 0
         | Some win \<Rightarrow>
             if now < wn_until win
             then s\<lparr>ie_windows := bt_insert key
                    (win\<lparr>wn_pending := saturating_inc (wn_pending win), wn_oops := wn_oops win \<or> is_oops\<rparr>) (ie_windows s)\<rparr>
             else open_window (wn_pending win))"

definition close_window ::
  "desk \<Rightarrow> nat \<Rightarrow> input_engine \<Rightarrow> (string \<times> string) \<times> window \<Rightarrow> input_engine" where
  "close_window w now s q =
     say_refusal w (fst (fst q)) (snd (fst q)) (wn_pending (snd q)) (wn_oops (snd q)) now
       (s\<lparr>ie_windows := bt_insert (fst q)
            \<lparr>wn_until = now + REFUSAL_WINDOW, wn_pending = 0, wn_oops = wn_oops (snd q)\<rparr> (ie_windows s)\<rparr>)"

definition refusal_windows :: "desk \<Rightarrow> nat \<Rightarrow> input_engine \<Rightarrow> input_engine" where
  "refusal_windows w now s =
     (let due = filter (\<lambda>q. 0 < wn_pending (snd q) \<and> wn_until (snd q) \<le> now) (ie_windows s);
          s = foldl (close_window w now) s due
      in s\<lparr>ie_windows := filter (\<lambda>q. 0 < wn_pending (snd q) \<or> now < wn_until (snd q) + REFUSAL_WINDOW) (ie_windows s)\<rparr>)"

section \<open>The crash guard and the held set\<close>

definition write_held_value :: "desk \<Rightarrow> json \<Rightarrow> input_engine \<Rightarrow> input_engine" where
  "write_held_value w v s =
     (let s = call (CSaveHeld v (dk_saves w v)) s in if dk_saves w v then s\<lparr>ie_held_on_disk := v\<rparr> else s)"

definition write_held :: "desk \<Rightarrow> held \<Rightarrow> input_engine \<Rightarrow> input_engine" where
  "write_held w h s =
     (if held_to_value h \<noteq> ie_held_on_disk s then write_held_value w (held_to_value h) s else s)"

definition write_stranded :: "desk \<Rightarrow> input_engine \<Rightarrow> input_engine" where
  "write_stranded w s = write_held w (held_absorb (ie_stranded s) (ie_held s)) s"

definition drain_stranded :: "desk \<Rightarrow> input_engine \<Rightarrow> input_engine" where
  "drain_stranded w s =
     (if ie_stranded s = [] \<or> \<not> ca_inject_keys (ie_caps s) then s
      else write_stranded w ((call (CReleaseAll (held_release_plan (ie_stranded s))) s)\<lparr>ie_stranded := []\<rparr>))"

definition refresh_caps :: "desk \<Rightarrow> input_engine \<Rightarrow> input_engine" where
  "refresh_caps w s = drain_stranded w (s\<lparr>ie_caps := dk_caps w\<rparr>)"

definition release_held :: "desk \<Rightarrow> input_engine \<Rightarrow> input_engine" where
  "release_held w s =
     (if ie_held s = [] then s
      else
        let t = call (CReleaseAll (held_release_plan (ie_held s))) s
        in if \<not> ca_inject_keys (ie_caps s)
           then write_stranded w (t\<lparr>ie_held := [], ie_stranded := held_absorb (ie_held s) (ie_stranded s)\<rparr>)
           else write_stranded w (t\<lparr>ie_held := []\<rparr>))"

definition relearn :: "desk \<Rightarrow> input_engine \<Rightarrow> input_engine" where
  "relearn w s =
     (case learn (dk_resolve w) (ie_mod_keys s) (layout_changed (ie_layout s) resolver_new) of
        (keys, r) \<Rightarrow> s\<lparr>ie_mod_keys := keys, ie_resolver := r\<rparr>)"

section \<open>Capture and confinement\<close>

definition wanted_capture :: "input_engine \<Rightarrow> capture_mode" where
  "wanted_capture s =
     (if ie_driving s \<noteq> None then CaptureSwallow
      else if ie_driven s \<noteq> None \<or> \<not> can_drive (ie_caps s) then CaptureOff
      else if list_ex (\<lambda>sg. drives (ie_settings s) (sg_node_id sg) \<and> is_warm s (sg_node_id sg)) (gr_segments (ie_graph s))
      then CaptureWatch else CaptureOff)"

definition capture_on :: "input_engine \<Rightarrow> bool" where
  "capture_on s \<longleftrightarrow> ie_capture_sent s = Some CaptureWatch \<or> ie_capture_sent s = Some CaptureSwallow"

definition apply_capture :: "input_engine \<Rightarrow> input_engine" where
  "apply_capture s =
     (let want = wanted_capture s
      in if ie_capture s = Some want \<and> ie_capture_sent s = Some want then s
         else
           let t = s\<lparr>ie_capture := Some want\<rparr>
           in if ca_capture (ie_caps s) \<or> (want = CaptureOff \<and> capture_on s)
              then call (CCapture want) (t\<lparr>ie_capture_sent := Some want\<rparr>) else t)"

definition force_capture_off :: "input_engine \<Rightarrow> input_engine" where
  "force_capture_off s =
     (let t = s\<lparr>ie_capture := Some CaptureOff\<rparr>
      in if ie_capture_sent s \<noteq> Some CaptureOff \<and> (ca_capture (ie_caps s) \<or> capture_on s)
         then call (CCapture CaptureOff) (t\<lparr>ie_capture_sent := Some CaptureOff\<rparr>) else t)"

definition confine_to :: "rect option \<Rightarrow> input_engine \<Rightarrow> input_engine" where
  "confine_to r s =
     (if ca_confine (ie_caps s) \<or> (r = None \<and> ie_confined s)
      then call (CConfine r) (s\<lparr>ie_confined := (r \<noteq> None)\<rparr>) else s)"

definition warp_to :: "point \<Rightarrow> input_engine \<Rightarrow> input_engine" where
  "warp_to home s = (if ca_warp (ie_caps s) then call (CWarp home) s else s)"

section \<open>Ends of sessions\<close>

definition segment_key :: "segment \<Rightarrow> string" where
  "segment_key sg = sg_from sg @ ''|'' @ sg_to sg @ ''|'' @ side_as_str (sg_side sg)"

definition oldest_left :: "(string, nat) btree \<Rightarrow> string option" where
  "oldest_left m =
     (case m of [] \<Rightarrow> None | q # qs \<Rightarrow> Some (fst (foldl (\<lambda>b q. if snd q < snd b then q else b) q qs)))"

definition forget_dwell :: "nat \<Rightarrow> input_engine \<Rightarrow> input_engine" where
  "forget_dwell now s =
     (case ie_dwell s of
        None \<Rightarrow> s
      | Some d \<Rightarrow>
          let left = bt_insert (segment_key (dw_seg d)) now (ie_left s);
              left = (if 64 < length left then (case oldest_left left of None \<Rightarrow> left | Some k \<Rightarrow> bt_remove k left) else left)
          in s\<lparr>ie_dwell := None, ie_left := left\<rparr>)"

definition flush_now :: "desk \<Rightarrow> driving \<Rightarrow> nat \<Rightarrow> input_engine \<Rightarrow> input_engine" where
  "flush_now w d now s =
     (case dg_pending d of
        None \<Rightarrow> s | Some flow \<Rightarrow> send_droppable w (dg_node d) (flow_frame flow (dg_session d) (dg_n d)) now s)"

definition warp_home :: "driving \<Rightarrow> input_engine \<Rightarrow> input_engine" where
  "warp_home d s =
     (if dg_accepted d \<and> dg_mode d = FullMode then (warp_to (dg_home d) s)\<lparr>ie_last_pointer := Some (dg_home d)\<rparr> else s)"

definition bring_home :: "desk \<Rightarrow> string \<Rightarrow> nat \<Rightarrow> input_engine \<Rightarrow> input_engine" where
  "bring_home w code now s =
     (case ie_driving s of
        None \<Rightarrow> s
      | Some d \<Rightarrow>
          let s = s\<lparr>ie_driving := None\<rparr>;
              alive = pr_out (peer_of s (dg_node d));
              s = (if alive \<and> dg_accepted d
                   then send_frame w (dg_node d) (FStop (dg_session d) code) now
                          (send_frame w (dg_node d) (FReleaseAll (dg_session d)) now (flush_now w d now s))
                   else s);
              s = forget_dwell now (apply_capture (warp_home d (confine_to None s)))
          in dirty (if code = ''SLOW'' \<or> code = ''GONE'' then announce w (dg_node d) code False now s else s))"

definition bring_home_quietly :: "nat \<Rightarrow> input_engine \<Rightarrow> input_engine" where
  "bring_home_quietly now s =
     (case ie_driving s of
        None \<Rightarrow> s
      | Some d \<Rightarrow> dirty (forget_dwell now (apply_capture (warp_home d (confine_to None (s\<lparr>ie_driving := None\<rparr>))))))"

definition end_driven :: "desk \<Rightarrow> string option \<Rightarrow> nat \<Rightarrow> input_engine \<Rightarrow> input_engine" where
  "end_driven w code now s =
     (case ie_driven s of
        None \<Rightarrow> s
      | Some d \<Rightarrow>
          let s = release_held w (s\<lparr>ie_driven := None\<rparr>);
              s = (case code of None \<Rightarrow> s | Some c \<Rightarrow> send_frame w (dv_node d) (FEnded (dv_session d) c) now s)
          in dirty (apply_capture s))"

section \<open>The plane and the directory\<close>

definition want_layout :: "string \<Rightarrow> input_engine \<Rightarrow> input_engine" where
  "want_layout node = upd_peer node (\<lambda>p. p\<lparr>pr_layout_due := True\<rparr>)"

definition layout_everyone :: "input_engine \<Rightarrow> input_engine" where
  "layout_everyone s = foldl (\<lambda>s q. want_layout (fst q) s) s (di_peers (ie_directory s))"

definition persist_plane :: "input_engine \<Rightarrow> input_engine" where
  "persist_plane s = call (CSavePlane (to_stored (ie_plane s))) s"

definition persist_settings :: "input_engine \<Rightarrow> input_engine" where
  "persist_settings s = call (CSaveSettings (settings_to_value (ie_settings s))) s"

definition rebuild :: "desk \<Rightarrow> input_engine \<Rightarrow> input_engine" where
  "rebuild w s =
     (case di_own_node (ie_directory s) of
        None \<Rightarrow> s
      | Some own \<Rightarrow>
          s\<lparr>ie_graph := build (ie_plane s) own
                (own # map fst (filter (\<lambda>q. de_reachable (snd q)) (di_peers (ie_directory s)))),
            ie_plane_id := plane_id (dk_hash w) (ie_plane s)\<rparr>)"

definition republish :: "desk \<Rightarrow> input_engine \<Rightarrow> input_engine" where
  "republish w s =
     (case di_own_node (ie_directory s) of
        None \<Rightarrow> s
      | Some own \<Rightarrow>
          (case publish_monitors own (ie_identity s) (ie_monitors s) (ie_plane s) of
             (changed, p) \<Rightarrow>
               let s = s\<lparr>ie_plane := p\<rparr>
               in if changed
                  then dirty ((layout_everyone (rebuild w (persist_plane s)))\<lparr>ie_open_due := True\<rparr>)
                  else rebuild w s))"

section \<open>Channels\<close>

definition forget_channel :: "input_peer \<Rightarrow> input_peer" where
  "forget_channel p =
     p\<lparr>pr_out := False, pr_attached_at := None, pr_link := LinkCold, pr_hi := None, pr_rtt_ms := None,
       pr_last_ping := None, pr_last_pong := None, pr_take := None\<rparr>"

definition closure_problem :: "string \<Rightarrow> input_peer \<Rightarrow> input_peer" where
  "closure_problem reason p =
     p\<lparr>pr_problem :=
         (if reason = ''PEER_GONE'' \<or> reason = ''IDLE_TIMEOUT'' then None
          else if reason = ''NO_DIRECT_PATH'' then Some PPNoPath else pr_problem p)\<rparr>"

definition tear_down :: "desk \<Rightarrow> string \<Rightarrow> string option \<Rightarrow> nat \<Rightarrow> input_engine \<Rightarrow> input_engine" where
  "tear_down w node reason now s =
     (let s = mod_peer node forget_channel s;
          s = (if is_driving s node then bring_home w ''GONE'' now s else s);
          s = (if is_driven s node then end_driven w None now s else s);
          s = (case ie_dwell s of
                 None \<Rightarrow> s | Some d \<Rightarrow> if sg_node_id (dw_seg d) = node then forget_dwell now s else s);
          s = (case reason of None \<Rightarrow> s | Some r \<Rightarrow> mod_peer node (closure_problem r) s)
      in dirty (apply_capture s))"

definition end_everything :: "desk \<Rightarrow> nat \<Rightarrow> input_engine \<Rightarrow> input_engine" where
  "end_everything w now s = foldl (\<lambda>s q. tear_down w (fst q) None now s) s (ie_peers s)"

definition remove_peer :: "string \<Rightarrow> input_engine \<Rightarrow> input_engine" where
  "remove_peer node s = s\<lparr>ie_peers := bt_remove node (ie_peers s)\<rparr>"

definition was_reachable :: "directory \<Rightarrow> string \<Rightarrow> bool" where
  "was_reachable d node = (case map_of (di_peers d) node of None \<Rightarrow> False | Some e \<Rightarrow> de_reachable e)"

definition set_directory :: "desk \<Rightarrow> directory \<Rightarrow> nat \<Rightarrow> input_engine \<Rightarrow> input_engine" where
  "set_directory w d now s =
     (if ie_directory s = d then s
      else
        let first_name = (di_own_node (ie_directory s) = None \<and> di_own_node d \<noteq> None);
            gone = filter (\<lambda>node. map_of (di_peers d) node = None) (map fst (ie_peers s));
            s = foldl (\<lambda>s node. remove_peer node (tear_down w node None now s)) s gone;
            reached = map fst (filter (\<lambda>q. de_reachable (snd q) \<and> \<not> was_reachable (ie_directory s) (fst q)) (di_peers d));
            s = s\<lparr>ie_directory := d\<rparr>;
            s = (case di_own_node d of
                   None \<Rightarrow> s
                 | Some own \<Rightarrow>
                     (case set_own own (ie_plane s) of
                        (changed, p) \<Rightarrow> let s = s\<lparr>ie_plane := p\<rparr> in if changed then persist_plane s else s));
            s = (if first_name then republish w s else s);
            s = foldl (\<lambda>s node. want_layout node s) s reached
        in dirty ((rebuild w s)\<lparr>ie_open_due := True\<rparr>))"

definition wants_warm :: "input_engine \<Rightarrow> string \<Rightarrow> nat \<Rightarrow> bool" where
  "wants_warm s node now \<longleftrightarrow>
     can_drive (ie_caps s) \<and>
     (case map_of (di_peers (ie_directory s)) node of None \<Rightarrow> False | Some e \<Rightarrow> de_reachable e) \<and>
     drives (ie_settings s) node \<and>
     \<not> (case map_of (ie_peers s) node of
           None \<Rightarrow> False
         | Some p \<Rightarrow> \<not> pr_out p \<and> (case pr_backoff_until p of None \<Rightarrow> False | Some t \<Rightarrow> now < t)) \<and>
     ((case map_of (ie_peers s) node of None \<Rightarrow> False | Some p \<Rightarrow> pr_take p \<noteq> None) \<or>
      list_ex (\<lambda>sg. sg_node_id sg = node) (gr_segments (ie_graph s)))"

definition sync_channel :: "bool \<Rightarrow> nat \<Rightarrow> input_engine \<Rightarrow> string \<times> dir_entry \<Rightarrow> input_engine" where
  "sync_channel opening now s q =
     (let node = fst q;
          wanted = wants_warm s node now;
          s = upd_peer node id s;
          p = peer_of s node
      in if opening \<and> wanted \<and> pr_link p = LinkCold
         then dirty (effect_out (IOpen node (de_device_id (snd q))) (upd_peer node (\<lambda>p. p\<lparr>pr_link := LinkWarming\<rparr>) s))
         else if \<not> wanted \<and> pr_mine p \<and> pr_out p
         then (if is_driving s node \<or> is_driven s node then s
               else dirty (upd_peer node (\<lambda>p. p\<lparr>pr_out := False, pr_link := LinkCold, pr_hi := None\<rparr>) s))
         else s)"

definition sync_channels :: "nat \<Rightarrow> input_engine \<Rightarrow> input_engine" where
  "sync_channels now s =
     (if di_own_node (ie_directory s) = None then s
      else foldl (sync_channel (ie_open_due s) now) (s\<lparr>ie_open_due := False\<rparr>) (di_peers (ie_directory s)))"

definition attach :: "desk \<Rightarrow> string \<Rightarrow> bool \<Rightarrow> nat \<Rightarrow> input_engine \<Rightarrow> input_engine" where
  "attach w node mine now s =
     (let hi = FHi 1 (caps_to_value (ie_caps s)) (ie_plane_id s);
          s = upd_peer node (\<lambda>p. p\<lparr>pr_out := True, pr_mine := mine, pr_attached_at := Some now, pr_link := LinkWarming,
                pr_hi := None, pr_last_ping := None, pr_last_pong := None, pr_next_session := 1\<rparr>) s
      in dirty (send_frame w node hi now s))"

definition on_open_failed :: "desk \<Rightarrow> string \<Rightarrow> string \<Rightarrow> nat \<Rightarrow> input_engine \<Rightarrow> input_engine" where
  "on_open_failed w node code now s =
     dirty (announce w node code False now
       (upd_peer node (\<lambda>p. p\<lparr>pr_link := LinkCold, pr_out := False, pr_hi := None,
          pr_backoff_until := Some (now + BACKOFF_OPEN),
          pr_problem := (if code = ''NO_DIRECT_PATH'' then Some PPNoPath
                         else if code = ''COMPONENT_ABSENT'' then Some PPNoBackend else None)\<rparr>) s))"

definition on_channel_ended :: "desk \<Rightarrow> string \<Rightarrow> nat \<Rightarrow> input_engine \<Rightarrow> input_engine" where
  "on_channel_ended w node now = tear_down w node None now"

definition plane_forget :: "string \<Rightarrow> plane \<Rightarrow> plane" where
  "plane_forget node p =
     p\<lparr>pn_monitors := bt_remove node (pn_monitors p), pn_pins := bt_remove node (pn_pins p)\<rparr>"

definition on_revoked :: "desk \<Rightarrow> string \<Rightarrow> input_engine \<Rightarrow> input_engine" where
  "on_revoked w node s =
     (case forget_peer node (ie_settings s) of
        (changed, st) \<Rightarrow>
          let s = s\<lparr>ie_settings := st, ie_plane := plane_forget node (ie_plane s)\<rparr>;
              s = (if changed then persist_settings s else s)
          in remove_peer node (rebuild w (persist_plane s)))"

definition on_account_left :: "desk \<Rightarrow> nat \<Rightarrow> input_engine \<Rightarrow> input_engine" where
  "on_account_left w now s =
     (let s = end_everything w now s
      in case forget_all_grants (ie_settings s) of
           (changed, st) \<Rightarrow> let s = s\<lparr>ie_settings := st\<rparr> in if changed then persist_settings s else s)"

definition just_attached :: "input_engine \<Rightarrow> string \<Rightarrow> nat \<Rightarrow> bool" where
  "just_attached s node now =
     (case map_of (ie_peers s) node of
        None \<Rightarrow> False
      | Some p \<Rightarrow> pr_out p \<and> (case pr_attached_at p of None \<Rightarrow> False | Some t \<Rightarrow> now - t < CLOSURE_GRACE))"

definition on_channel_closed :: "desk \<Rightarrow> string \<Rightarrow> string \<Rightarrow> nat \<Rightarrow> input_engine \<Rightarrow> input_engine" where
  "on_channel_closed w node reason now s =
     (let s = (if just_attached s node now then s else tear_down w node (Some reason) now s);
          s = (if reason = ''DEVICE_REVOKED'' then on_revoked w node s
               else if reason = ''ACCOUNT_LEFT'' then on_account_left w now s
               else if reason = ''LOGGED_OUT'' \<or> reason = ''SHUTDOWN'' then end_everything w now s
               else if reason = ''FRAME_TOO_LARGE'' \<or> reason = ''RATE_EXCEEDED''
               then upd_peer node (\<lambda>p. p\<lparr>pr_backoff_until := Some (now + BACKOFF_CUT)\<rparr>) s
               else if reason = ''NO_DIRECT_PATH''
               then upd_peer node (\<lambda>p. p\<lparr>pr_backoff_until := Some (now + BACKOFF_OPEN), pr_problem := Some PPNoPath\<rparr>) s
               else if reason = ''REPLACED'' \<or> reason = ''IDLE_TIMEOUT'' then s\<lparr>ie_open_due := True\<rparr>
               else s)
      in dirty s)"

end
