(* ===== verification/InputDriven.thy ===== *)
theory InputDriven
  imports InputSession
begin

text \<open>
  What the engine of input sharing does with the frames of another computer (\<open>input/src/session.rs\<close>,
  \<open>on_frames\<close> to \<open>remember_refusal\<close>): the handshake, the five checks of a \<open>start\<close>, the flow that is
  injected here, the keystrokes with their crash guard, and the answers to our own sessions.
\<close>

section \<open>The handshake\<close>

definition on_hi :: "string \<Rightarrow> json \<Rightarrow> string \<Rightarrow> input_engine \<Rightarrow> input_engine" where
  "on_hi node caps plane s =
     dirty (apply_capture (want_layout node (upd_peer node (\<lambda>p.
       p\<lparr>pr_hi := Some \<lparr>hi_caps = caps_from_value caps, hi_plane = plane\<rparr>, pr_link := LinkWarm,
         pr_problem := None, pr_last_ping := None\<rparr>) s)))"

definition stamp :: "nat \<Rightarrow> input_engine \<Rightarrow> nat" where
  "stamp now s = (now - ie_epoch s) div 1000000"

definition on_pong :: "string \<Rightarrow> u64 \<Rightarrow> nat \<Rightarrow> input_engine \<Rightarrow> input_engine" where
  "on_pong node ms now s =
     (let rtt = stamp now s - unat ms
      in dirty (mod_peer node (\<lambda>p. p\<lparr>pr_last_pong := Some now,
           pr_rtt_ms := (if rtt \<le> 60000 then Some rtt else pr_rtt_ms p)\<rparr>) s))"

section \<open>Being driven\<close>

text \<open>The outer option: whether anybody holds this machine; the inner one: the holder's name.\<close>

definition busy_with :: "input_engine \<Rightarrow> string \<Rightarrow> string option option" where
  "busy_with s asking =
     (if ie_driving s \<noteq> None then Some (di_own_device (ie_directory s))
      else
        (case ie_driven s of
           None \<Rightarrow> None
         | Some d \<Rightarrow> if dv_node d = asking then None else Some (device_of_node (ie_directory s) (dv_node d))))"

definition start_refusal :: "input_engine \<Rightarrow> string \<Rightarrow> string \<Rightarrow> (string \<times> string option) option" where
  "start_refusal s node plane =
     (if \<not> allows (ie_settings s) node then Some (''NOT_ALLOWED'', None)
      else
        (case busy_with s node of
           Some holder \<Rightarrow> Some (''BUSY'', holder)
         | None \<Rightarrow>
             if plane \<noteq> ie_plane_id s then Some (''PLANE_STALE'', None)
             else if \<not> can_be_driven (ie_caps s) then Some (''NO_BACKEND'', None)
             else if ss_locked (ie_settings s) then Some (''LOCKED'', None)
             else None))"

definition saturating_dec :: "u32 \<Rightarrow> u32" where
  "saturating_dec n = (if n = 0 then 0 else n - 1)"

definition on_start ::
  "desk \<Rightarrow> string \<Rightarrow> u32 \<Rightarrow> mode \<Rightarrow> key_mode \<Rightarrow> string \<Rightarrow> u32 \<Rightarrow> i32 \<Rightarrow> i32 \<Rightarrow> nat \<Rightarrow> input_engine \<Rightarrow> input_engine" where
  "on_start w node session mode keys plane n x y now s =
     (case start_refusal s node plane of
        Some (code, holder) \<Rightarrow>
          let s = send_frame w node (FRefused session code holder) now s
          in if code = ''PLANE_STALE'' then want_layout node s else s
      | None \<Rightarrow>
          let s = (if ie_driven s \<noteq> None then end_driven w None now s else s);
              s = relearn w (send_frame w node (FAccepted session) now s);
              s = apply_capture (s\<lparr>ie_driven := Some \<lparr>dv_node = node, dv_session = session, dv_keys = keys, dv_mode = mode,
                    dv_since_unix = dk_wall w, dv_last_frame = now, dv_last_n = saturating_dec n\<rparr>\<rparr>);
              s = (if mode = FullMode \<and> ca_inject_pointer (ie_caps s)
                   then call (CInject [AMoveTo (sint x) (sint y)]) s else s)
          in dirty s)"

text \<open>Resolving the levels in order, up to the first that is answered.\<close>

fun first_answer ::
  "(want \<Rightarrow> resolved option) \<Rightarrow> want list \<Rightarrow> resolver \<Rightarrow> answer option \<times> resolver" where
  "first_answer ask [] r = (None, r)"
| "first_answer ask (want # wants) r =
     (case resolve_want ask want r of
        (Some how, r) \<Rightarrow> (Some \<lparr>an_level = want, an_how = how\<rparr>, r)
      | (None, r) \<Rightarrow> first_answer ask wants r)"

definition remapped_key :: "(string, string) btree \<Rightarrow> u32 \<Rightarrow> string option \<Rightarrow> u32 \<times> string option" where
  "remapped_key m usage key =
     (case mod_of_usage usage of
        None \<Rightarrow> (usage, key)
      | Some b \<Rightarrow>
          if remap b m \<noteq> b
          then (case mod_usage (remap b m) of None \<Rightarrow> (usage, key) | Some swapped \<Rightarrow> (swapped, None))
          else (usage, key))"

definition apply_key ::
  "desk \<Rightarrow> string \<Rightarrow> u32 \<Rightarrow> string option \<Rightarrow> string option \<Rightarrow> bool \<Rightarrow> bool \<Rightarrow> nat \<Rightarrow> input_engine \<Rightarrow> input_engine" where
  "apply_key w node usage key sy down lock now s =
     (if \<not> ca_inject_keys (ie_caps s) then s
      else
        (case remapped_key (se_remap (settings_peer (ie_settings s) node)) usage key of
           (usage, key) \<Rightarrow>
             let mode = (case ie_driven s of None \<Rightarrow> Typing | Some d \<Rightarrow> dv_keys d)
             in (case first_answer (dk_resolve w) (levels mode usage key sy) (ie_resolver s) of
                   (answer, r) \<Rightarrow>
                     let s = s\<lparr>ie_resolver := r\<rparr>
                     in (case plan_stroke \<lparr>st_mode = mode, st_answer = answer, st_down = down, st_lock = lock, st_sym = sy,
                                st_unicode = ca_unicode (ie_caps s), st_group = ie_group s\<rparr> (ie_held s) (ie_mod_keys s) of
                           None \<Rightarrow> announce w node ''UNRESOLVED'' True now s
                         | Some pl \<Rightarrow>
                             if pl_actions pl = [] then s\<lparr>ie_held := pl_held pl\<rparr>
                             else
                               write_stranded w
                                 ((call (CInject (pl_actions pl))
                                    (write_held w (held_absorb (ie_stranded s) (pl_peak pl)) s))\<lparr>ie_held := pl_held pl\<rparr>)))))"

fun pointer_action :: "frame \<Rightarrow> action option" where
  "pointer_action (FPointer _ _ x y) = Some (AMoveTo (sint x) (sint y))"
| "pointer_action (FMotion _ _ dx dy) = Some (AMoveBy (sint dx) (sint dy))"
| "pointer_action (FButton _ _ button down) = Some (AButton button down)"
| "pointer_action (FWheel _ _ dx dy pixels) = Some (AWheel dx dy pixels)"
| "pointer_action _ = None"

fun key_frame :: "frame \<Rightarrow> bool" where
  "key_frame (FKey _ _ _ _ _ _ _ _ _) \<longleftrightarrow> True"
| "key_frame (FReleaseAll _) \<longleftrightarrow> True"
| "key_frame _ \<longleftrightarrow> False"

definition inject_flow :: "desk \<Rightarrow> string \<Rightarrow> frame \<Rightarrow> nat \<Rightarrow> input_engine \<Rightarrow> input_engine" where
  "inject_flow w node f now s =
     (case f of
        FKey _ _ usage key sy _ _ down lock \<Rightarrow> apply_key w node usage key sy down lock now s
      | _ \<Rightarrow>
          (case pointer_action f of
             None \<Rightarrow> s
           | Some a \<Rightarrow> if ca_inject_pointer (ie_caps s) then call (CInject [a]) s else s))"

definition apply_flow :: "desk \<Rightarrow> string \<Rightarrow> frame \<Rightarrow> nat \<Rightarrow> input_engine \<Rightarrow> input_engine" where
  "apply_flow w node f now s =
     (case ie_driven s of
        None \<Rightarrow> s
      | Some d \<Rightarrow>
          if dv_node d \<noteq> node \<or> Some (dv_session d) \<noteq> frame_session f then s
          else if dv_mode d = KeysMode \<and> \<not> key_frame f then s
          else
            (case frame_flow f of
               None \<Rightarrow> inject_flow w node f now s
             | Some n \<Rightarrow>
                 if is_position f \<and> n \<le> dv_last_n d then s
                 else inject_flow w node f now (s\<lparr>ie_driven := Some (d\<lparr>dv_last_n := max (dv_last_n d) n\<rparr>)\<rparr>)))"

section \<open>Answers to our sessions\<close>

definition on_accepted :: "string \<Rightarrow> u32 \<Rightarrow> nat \<Rightarrow> input_engine \<Rightarrow> input_engine" where
  "on_accepted node session now s =
     (case ie_driving s of
        None \<Rightarrow> s
      | Some d \<Rightarrow>
          if dg_node d \<noteq> node \<or> dg_session d \<noteq> session \<or> dg_accepted d then s
          else
            let s = s\<lparr>ie_driving := Some (d\<lparr>dg_accepted := True, dg_tokens := 1, dg_tokens_at := now\<rparr>)\<rparr>;
                s = mod_peer node (\<lambda>p. p\<lparr>pr_problem := None, pr_last_pong := Some now, pr_take := None\<rparr>) s;
                s = (if dg_mode d = FullMode
                     then (case map_of (gr_placed (ie_graph s)) (dg_from d) of
                             None \<Rightarrow> s
                           | Some p \<Rightarrow> confine_to (Some \<lparr>rc_x = mo_x (pc_own p), rc_y = mo_y (pc_own p),
                               rc_w = mo_w (pc_own p), rc_h = mo_h (pc_own p)\<rparr>) s)
                     else s)
            in dirty (apply_capture s))"

definition refusal_problem :: "string \<Rightarrow> peer_problem option" where
  "refusal_problem code =
     (if code = ''NOT_ALLOWED'' \<or> code = ''REVOKED'' then Some PPNotAllowed
      else if code = ''BUSY'' \<or> code = ''TAKEN'' then Some PPBusy
      else if code = ''PLANE_STALE'' then Some PPPlaneStale
      else if code = ''NO_BACKEND'' then Some PPNoBackend
      else if code = ''LOCKED'' then Some PPLocked
      else None)"

definition remember_refusal :: "string \<Rightarrow> string \<Rightarrow> nat \<Rightarrow> input_engine \<Rightarrow> input_engine" where
  "remember_refusal node code now s =
     dirty (upd_peer node (\<lambda>p. p\<lparr>
       pr_backoff_until := Some (now + (if code = ''PLANE_STALE'' \<or> code = ''IDLE'' then BACKOFF_STALE else BACKOFF_REFUSED)),
       pr_problem := refusal_problem code\<rparr>) s)"

definition on_refused :: "string \<Rightarrow> u32 \<Rightarrow> string \<Rightarrow> nat \<Rightarrow> input_engine \<Rightarrow> input_engine" where
  "on_refused node session code now s =
     (case ie_driving s of
        None \<Rightarrow> s
      | Some d \<Rightarrow>
          if dg_node d = node \<and> dg_session d = session
          then
            let s = remember_refusal node code now (bring_home_quietly now s);
                s = (if code = ''PLANE_STALE'' then want_layout node s else s)
            in emit_refused node code 1 s
          else s)"

definition holds_session :: "input_engine \<Rightarrow> string \<Rightarrow> u32 \<Rightarrow> bool" where
  "holds_session s node session =
     (case ie_driven s of None \<Rightarrow> False | Some d \<Rightarrow> dv_node d = node \<and> dv_session d = session)"

definition runs_session :: "input_engine \<Rightarrow> string \<Rightarrow> u32 \<Rightarrow> bool" where
  "runs_session s node session =
     (case ie_driving s of None \<Rightarrow> False | Some d \<Rightarrow> dg_node d = node \<and> dg_session d = session)"

text \<open>\<open>stop\<close> and \<open>end\<close>; the code is there for an \<open>end\<close> alone.\<close>

definition on_over :: "desk \<Rightarrow> string \<Rightarrow> u32 \<Rightarrow> string option \<Rightarrow> nat \<Rightarrow> input_engine \<Rightarrow> input_engine" where
  "on_over w node session code now s =
     (if holds_session s node session then end_driven w None now s
      else if runs_session s node session
      then bring_home_quietly now
             (case code of None \<Rightarrow> s | Some c \<Rightarrow> emit_refused node c 1 (remember_refusal node c now s))
      else s)"

definition heard :: "string \<Rightarrow> nat \<Rightarrow> input_engine \<Rightarrow> input_engine" where
  "heard node now s =
     (case ie_driven s of
        None \<Rightarrow> s
      | Some d \<Rightarrow> if dv_node d = node then s\<lparr>ie_driven := Some (d\<lparr>dv_last_frame := now\<rparr>)\<rparr> else s)"

definition on_frame :: "desk \<Rightarrow> string \<Rightarrow> frame \<Rightarrow> nat \<Rightarrow> input_engine \<Rightarrow> input_engine" where
  "on_frame w node f now s =
     (let s = heard node now s
      in case f of
           FHi _ _ _ \<Rightarrow> s
         | FPing ms \<Rightarrow> send_frame w node (FPong ms) now s
         | FPong ms \<Rightarrow> on_pong node ms now s
         | FStart session mode keys plane n x y \<Rightarrow> on_start w node session mode keys plane n x y now s
         | FAccepted session \<Rightarrow> on_accepted node session now s
         | FRefused session code _ \<Rightarrow> on_refused node session code now s
         | FStop session _ \<Rightarrow> on_over w node session None now s
         | FEnded session code \<Rightarrow> on_over w node session (Some code) now s
         | FReleaseAll session \<Rightarrow> if holds_session s node session then release_held w s else s
         | FOops session code count \<Rightarrow> if runs_session s node session then emit_refused node code count s else s
         | _ \<Rightarrow> apply_flow w node f now s)"

fun on_batch :: "desk \<Rightarrow> string \<Rightarrow> nat \<Rightarrow> frame list \<Rightarrow> input_engine \<Rightarrow> input_engine" where
  "on_batch w node now [] s = s"
| "on_batch w node now (f # fs) s =
     on_batch w node now fs
       (case f of
          FHi _ caps plane \<Rightarrow> on_hi node caps plane s
        | _ \<Rightarrow>
            if is_position f \<and> (case fs of [] \<Rightarrow> False | g # _ \<Rightarrow> is_position g) then s else on_frame w node f now s)"

fun is_hi :: "frame \<Rightarrow> bool" where
  "is_hi (FHi _ _ _) \<longleftrightarrow> True"
| "is_hi _ \<longleftrightarrow> False"

definition handshaken :: "input_engine \<Rightarrow> string \<Rightarrow> bool" where
  "handshaken s node = (case map_of (ie_peers s) node of None \<Rightarrow> False | Some p \<Rightarrow> pr_hi p \<noteq> None)"

definition on_frames :: "desk \<Rightarrow> string \<Rightarrow> json list \<Rightarrow> nat \<Rightarrow> input_engine \<Rightarrow> input_engine" where
  "on_frames w node batch now s =
     (if map_of (di_peers (ie_directory s)) node = None then s
      else if \<not> handshaken s node \<and>
              \<not> (case batch of
                    [] \<Rightarrow> False
                  | v # _ \<Rightarrow> (case decode_frame (dk_size w) v of None \<Rightarrow> False | Some f \<Rightarrow> is_hi f))
      then tear_down w node None now s
      else on_batch w node now (List.map_filter (decode_frame (dk_size w)) batch) s)"

end
