(* ===== verification/InputDriving.thy ===== *)
theory InputDriving
  imports InputDriven
begin

text \<open>
  The source half of input sharing (\<open>input/src/session.rs\<close>): the dwell against an edge, the crossing, the
  session it starts, the virtual cursor and its coalescing, and the platform's upcalls.
\<close>

section \<open>The flow\<close>

definition flow_rate :: "input_engine \<Rightarrow> string \<Rightarrow> rat" where
  "flow_rate s node =
     (case Option.bind (map_of (ie_peers s) node) pr_rtt_ms of
        None \<Rightarrow> FLOW_RATE_FAST | Some ms \<Rightarrow> if RTT_SILENT_MS \<le> ms then FLOW_RATE_SLOW else FLOW_RATE_FAST)"

definition next_n :: "input_engine \<Rightarrow> u32 \<times> input_engine" where
  "next_n s =
     (case ie_driving s of
        None \<Rightarrow> (0, s) | Some d \<Rightarrow> (dg_n d, s\<lparr>ie_driving := Some (d\<lparr>dg_n := saturating_inc (dg_n d)\<rparr>)\<rparr>))"

definition send_flow :: "desk \<Rightarrow> driving \<Rightarrow> flow \<Rightarrow> nat \<Rightarrow> input_engine \<Rightarrow> input_engine" where
  "send_flow w d flow now s =
     (case next_n s of (n, s) \<Rightarrow> send_droppable w (dg_node d) (flow_frame flow (dg_session d) n) now s)"

definition offer_flow :: "desk \<Rightarrow> flow \<Rightarrow> nat \<Rightarrow> input_engine \<Rightarrow> input_engine" where
  "offer_flow w flow now s =
     (case ie_driving s of
        None \<Rightarrow> s
      | Some d \<Rightarrow>
          let tokens = min (dg_tokens d + as_secs (now - dg_tokens_at d) * flow_rate s (dg_node d)) FLOW_BURST
          in if tokens < 1
             then s\<lparr>ie_driving := Some (d\<lparr>dg_tokens := tokens, dg_tokens_at := now, dg_pending := Some flow\<rparr>)\<rparr>
             else send_flow w d flow now
                    (s\<lparr>ie_driving := Some (d\<lparr>dg_tokens := tokens - 1, dg_tokens_at := now, dg_pending := None\<rparr>)\<rparr>))"

definition flush_pending :: "desk \<Rightarrow> nat \<Rightarrow> input_engine \<Rightarrow> input_engine" where
  "flush_pending w now s =
     (case ie_driving s of
        None \<Rightarrow> s
      | Some d \<Rightarrow>
          (case dg_pending d of
             None \<Rightarrow> s
           | Some flow \<Rightarrow>
               send_flow w d flow now
                 (s\<lparr>ie_driving := Some (d\<lparr>dg_pending := None, dg_tokens := 0, dg_tokens_at := now\<rparr>)\<rparr>)))"

definition flush_wait :: "input_engine \<Rightarrow> driving \<Rightarrow> nat" where
  "flush_wait s d = from_secs (max (max (1 - dg_tokens d) 0 / flow_rate s (dg_node d)) 0)"

definition flow_flush :: "desk \<Rightarrow> nat \<Rightarrow> input_engine \<Rightarrow> input_engine" where
  "flow_flush w now s =
     (case ie_driving s of
        None \<Rightarrow> s
      | Some d \<Rightarrow>
          if dg_pending d = None then s
          else if now - dg_tokens_at d < flush_wait s d then s
          else flush_pending w now s)"

definition move_cursor :: "desk \<Rightarrow> int \<Rightarrow> int \<Rightarrow> nat \<Rightarrow> input_engine \<Rightarrow> input_engine" where
  "move_cursor w x y now s =
     (case ie_driving s of
        None \<Rightarrow> s
      | Some d \<Rightarrow>
          if dg_cursor d = (x, y) then s
          else
            let s = s\<lparr>ie_driving := Some (d\<lparr>dg_cursor := (x, y)\<rparr>)\<rparr>
            in (case map_of (gr_placed (ie_graph s)) (dg_on d) of
                  None \<Rightarrow> s
                | Some p \<Rightarrow> (case to_own p x y of (tx, ty) \<Rightarrow> offer_flow w (FlowAt tx ty) now s)))"

section \<open>Starting a session\<close>

definition session_mode :: "input_peer \<Rightarrow> mode option \<Rightarrow> mode" where
  "session_mode p asked =
     (if asked = Some KeysMode then KeysMode
      else if \<not> (case pr_hi p of None \<Rightarrow> False | Some h \<Rightarrow> ca_inject_pointer (hi_caps h)) \<or>
              (case pr_rtt_ms p of None \<Rightarrow> False | Some ms \<Rightarrow> RTT_MAX_MS < ms)
      then KeysMode else FullMode)"

definition start_session ::
  "desk \<Rightarrow> string \<Rightarrow> mode option \<Rightarrow> point \<Rightarrow> string \<Rightarrow> string \<Rightarrow> point \<Rightarrow> point \<Rightarrow> nat \<Rightarrow> input_engine \<Rightarrow> bool \<times> input_engine" where
  "start_session w node asked cursor on_key from_key home entry now s =
     (if ie_driving s \<noteq> None \<or> ie_driven s \<noteq> None \<or> \<not> can_drive (ie_caps s) \<or> \<not> drives (ie_settings s) node
      then (False, s)
      else
        (case map_of (ie_peers s) node of
           None \<Rightarrow> (False, s)
         | Some p \<Rightarrow>
             if pr_link p \<noteq> LinkWarm \<or> \<not> pr_out p then (False, s)
             else
               let session = pr_next_session p;
                   mode = session_mode p asked;
                   s = upd_peer node (\<lambda>p. p\<lparr>pr_next_session := saturating_inc session\<rparr>) s;
                   s = send_frame w node (FStart session mode (se_mode (settings_peer (ie_settings s) node)) (ie_plane_id s) 1
                         (word_of_int (fst entry)) (word_of_int (snd entry))) now s
               in (True, dirty (s\<lparr>ie_driving := Some
                     \<lparr>dg_node = node, dg_session = session, dg_mode = mode, dg_accepted = False, dg_since = now,
                      dg_since_unix = dk_wall w, dg_cursor = cursor, dg_on = on_key, dg_from = from_key, dg_home = home,
                      dg_n = 1, dg_pending = None, dg_tokens = 1, dg_tokens_at = now,
                      dg_out_tokens = OUT_RATE_MAX / 10, dg_out_at = now\<rparr>\<rparr>))))"

definition own_to_plane :: "input_engine \<Rightarrow> point \<Rightarrow> (string \<times> point) option" where
  "own_to_plane s pt =
     (case di_own_node (ie_directory s) of
        None \<Rightarrow> None
      | Some own \<Rightarrow>
          map_option (\<lambda>p. (pc_key p, (sadd (pc_x p) (ssub (fst pt) (mo_x (pc_own p))),
                                     sadd (pc_y p) (ssub (snd pt) (mo_y (pc_own p))))))
            (find (\<lambda>p. pc_node_id p = own \<and>
                mo_x (pc_own p) \<le> fst pt \<and> fst pt < sadd (mo_x (pc_own p)) (mo_w (pc_own p)) \<and>
                mo_y (pc_own p) \<le> snd pt \<and> snd pt < sadd (mo_y (pc_own p)) (mo_h (pc_own p)))
              (map snd (gr_placed (ie_graph s)))))"

definition leaving_from :: "input_engine \<Rightarrow> point \<times> string" where
  "leaving_from s =
     (let own = (case di_own_node (ie_directory s) of None \<Rightarrow> [] | Some n \<Rightarrow> n);
          home = (case ie_last_pointer s of None \<Rightarrow> (0, 0) | Some p \<Rightarrow> p)
      in (home,
          case Option.bind (ie_last_pointer s) (own_to_plane s) of
            Some (key, _) \<Rightarrow> key
          | None \<Rightarrow>
              (case find (\<lambda>p. pc_node_id p = own) (map snd (gr_placed (ie_graph s))) of
                 None \<Rightarrow> [] | Some p \<Rightarrow> pc_key p)))"

text \<open>The first screen of a device, or the first primary one if there is any.\<close>

definition better_screen :: "placed option \<Rightarrow> placed \<Rightarrow> placed option" where
  "better_screen best p =
     (case best of
        None \<Rightarrow> Some p | Some b \<Rightarrow> if \<not> mo_primary (pc_own b) \<and> mo_primary (pc_own p) then Some p else best)"

definition take_entry :: "input_engine \<Rightarrow> string \<Rightarrow> (string \<times> point \<times> point) option" where
  "take_entry s node =
     map_option (\<lambda>p.
        let cx = sadd (pc_x p) (pc_w p div 2); cy = sadd (pc_y p) (pc_h p div 2)
        in (pc_key p, (cx, cy), to_own p cx cy))
       (foldl better_screen None (filter (\<lambda>p. pc_node_id p = node \<and> pc_present p) (map snd (gr_placed (ie_graph s)))))"

definition parked_take :: "desk \<Rightarrow> nat \<Rightarrow> input_engine \<Rightarrow> string \<times> mode option \<times> nat \<Rightarrow> input_engine" where
  "parked_take w now s q =
     (case q of (node, mode, parked) \<Rightarrow>
        let s = mod_peer node (\<lambda>p. p\<lparr>pr_take := None\<rparr>) s
        in if TAKE_PARK_BOUND < now - parked then announce w node NOT_WARM False now s
           else
             (case take_entry s node of
                None \<Rightarrow> s
              | Some (key, cursor, entry) \<Rightarrow>
                  (case leaving_from s of
                     (home, from_key) \<Rightarrow> snd (start_session w node mode cursor key from_key home entry now s))))"

definition parked_takes :: "desk \<Rightarrow> nat \<Rightarrow> input_engine \<Rightarrow> input_engine" where
  "parked_takes w now s =
     (if ie_driving s \<noteq> None \<or> ie_driven s \<noteq> None then s
      else foldl (parked_take w now) s
             (List.map_filter (\<lambda>q. if pr_link (snd q) = LinkWarm \<and> pr_out (snd q)
                                   then map_option (\<lambda>t. (fst q, fst t, snd t)) (pr_take (snd q)) else None) (ie_peers s)))"

section \<open>The edge\<close>

definition press_edge :: "desk \<Rightarrow> segment \<Rightarrow> int \<Rightarrow> nat \<Rightarrow> input_engine \<Rightarrow> input_engine" where
  "press_edge w seg along now s =
     (let key = segment_key seg
      in if (case ie_dwell s of None \<Rightarrow> False | Some d \<Rightarrow> segment_key (dw_seg d) = key)
         then s\<lparr>ie_dwell := map_option (\<lambda>d. d\<lparr>dw_along := along\<rparr>) (ie_dwell s)\<rparr>
         else
           let s = (case ie_dwell s of
                      None \<Rightarrow> s | Some d \<Rightarrow> s\<lparr>ie_left := bt_insert (segment_key (dw_seg d)) now (ie_left s)\<rparr>);
               g = guards_on (ie_settings s) (sg_from seg) (sg_to seg) (sg_side seg);
               tapped = (gd_double_tap_ms g = 0 \<or>
                         (case map_of (ie_left s) key of
                            None \<Rightarrow> False | Some left \<Rightarrow> now - left \<le> millis (gd_double_tap_ms g)));
               node = sg_node_id seg;
               warm = is_warm s node;
               s = (if warm then s else s\<lparr>ie_open_due := True\<rparr>);
               s = s\<lparr>ie_dwell := Some \<lparr>dw_seg = seg, dw_since = now, dw_along = along, dw_tapped = tapped,
                      dw_warming = (if warm then None else Some now), dw_probed = False\<rparr>\<rparr>
           in if warm
              then
                let s = mod_peer node (\<lambda>p. p\<lparr>pr_last_ping := Some now\<rparr>)
                          (send_frame w node (FPing (word_of_nat (stamp now s))) now s)
                in s\<lparr>ie_dwell := map_option (\<lambda>d. d\<lparr>dw_probed := True\<rparr>) (ie_dwell s)\<rparr>
              else s)"

definition guards_of :: "input_engine \<Rightarrow> segment \<Rightarrow> guards" where
  "guards_of s seg = guards_on (ie_settings s) (sg_from seg) (sg_to seg) (sg_side seg)"

definition crossing_x :: "placed \<Rightarrow> side \<Rightarrow> int" where
  "crossing_x p sd = (if sd = SRight then pc_x p else ssub (sadd (pc_x p) (pc_w p)) 1)"

definition crossing_y :: "placed \<Rightarrow> side \<Rightarrow> int" where
  "crossing_y p sd = (if sd = SBottom then pc_y p else ssub (sadd (pc_y p) (pc_h p)) 1)"

definition cross_over :: "desk \<Rightarrow> segment \<Rightarrow> int \<Rightarrow> nat \<Rightarrow> input_engine \<Rightarrow> input_engine" where
  "cross_over w seg along now s =
     (case (entry_point (ie_graph s) seg along, map_of (gr_placed (ie_graph s)) (sg_to seg)) of
        (Some entry, Some p) \<Rightarrow>
          let home = (case ie_last_pointer s of None \<Rightarrow> entry | Some h \<Rightarrow> h);
              cursor = (if sg_side seg = SLeft \<or> sg_side seg = SRight
                        then (crossing_x p (sg_side seg), along) else (along, crossing_y p (sg_side seg)))
          in snd (start_session w (sg_node_id seg) None cursor (sg_to seg) (sg_from seg) home entry now (forget_dwell now s))
      | _ \<Rightarrow> forget_dwell now s)"

definition crossing :: "desk \<Rightarrow> nat \<Rightarrow> input_engine \<Rightarrow> input_engine" where
  "crossing w now s =
     (case ie_dwell s of
        None \<Rightarrow> s
      | Some d \<Rightarrow>
          if \<not> dw_tapped d \<or> ie_driving s \<noteq> None \<or> ie_driven s \<noteq> None then s
          else if now - dw_since d < millis (gd_dwell_ms (guards_of s (dw_seg d))) then s
          else if \<not> is_warm s (sg_node_id (dw_seg d))
          then (if (case dw_warming d of None \<Rightarrow> True | Some started \<Rightarrow> now - started \<le> CROSS_OPEN_BOUND) then s
                else forget_dwell now (announce w (sg_node_id (dw_seg d)) NOT_WARM False now s))
          else cross_over w (dw_seg d) (dw_along d) now s)"

definition can_hand_over :: "input_engine \<Rightarrow> string \<Rightarrow> nat \<Rightarrow> bool" where
  "can_hand_over s node now \<longleftrightarrow>
     drives (ie_settings s) node \<and>
     (case map_of (ie_peers s) node of
        None \<Rightarrow> False
      | Some p \<Rightarrow> pr_link p = LinkWarm \<and> pr_out p \<and>
          \<not> (case pr_backoff_until p of None \<Rightarrow> False | Some t \<Rightarrow> now < t))"

definition bump_cursor :: "desk \<Rightarrow> driving \<Rightarrow> int \<Rightarrow> int \<Rightarrow> nat \<Rightarrow> input_engine \<Rightarrow> input_engine" where
  "bump_cursor w d nx ny now s = (case clamp_to (ie_graph s) (dg_on d) nx ny of (cx, cy) \<Rightarrow> move_cursor w cx cy now s)"

definition integrate :: "desk \<Rightarrow> int \<Rightarrow> int \<Rightarrow> nat \<Rightarrow> input_engine \<Rightarrow> input_engine" where
  "integrate w dx dy now s =
     (case ie_driving s of
        None \<Rightarrow> s
      | Some d \<Rightarrow>
          if \<not> dg_accepted d \<or> dg_mode d \<noteq> FullMode then s
          else
            let nx = sadd (fst (dg_cursor d)) dx; ny = sadd (snd (dg_cursor d)) dy;
                own = (case di_own_node (ie_directory s) of None \<Rightarrow> [] | Some n \<Rightarrow> n)
            in (case find (\<lambda>p. pc_present p \<and> pc_contains p nx ny) (map snd (gr_placed (ie_graph s))) of
                  None \<Rightarrow> bump_cursor w d nx ny now s
                | Some p \<Rightarrow>
                    if pc_node_id p = dg_node d
                    then move_cursor w nx ny now (s\<lparr>ie_driving := Some (d\<lparr>dg_on := pc_key p\<rparr>)\<rparr>)
                    else if pc_node_id p = own then bring_home w ''RETURNED'' now s
                    else if \<not> can_hand_over s (pc_node_id p) now then bump_cursor w d nx ny now s
                    else
                      (case map_of (gr_placed (ie_graph s)) (pc_key p) of
                         None \<Rightarrow> s
                       | Some q \<Rightarrow>
                           snd (start_session w (pc_node_id p) None (nx, ny) (pc_key p) (dg_from d) (dg_home d)
                                  (to_own q nx ny) now (bring_home w ''MOVED'' now s)))))"

section \<open>Upcalls\<close>

definition on_motion :: "desk \<Rightarrow> motion \<Rightarrow> nat \<Rightarrow> input_engine \<Rightarrow> input_engine" where
  "on_motion w m now s =
     (if ie_driving s \<noteq> None then integrate w (mt_dx m) (mt_dy m) now s
      else
        let s = s\<lparr>ie_last_pointer := Some (mt_at m)\<rparr>
        in if ie_driven s \<noteq> None \<or> \<not> can_drive (ie_caps s) then s
           else
             (case own_to_plane s (mt_at m) of
                None \<Rightarrow> forget_dwell now s
              | Some (from_key, px, py) \<Rightarrow>
                  let ix = sadd px (mt_dx m); iy = sadd py (mt_dy m)
                  in crossing w now
                       (case at_edge (ie_graph s) from_key ix iy (ie_mods_held s) (ss_locked (ie_settings s)) (guards_of s) of
                          ASegment seg \<Rightarrow>
                            press_edge w seg (if sg_side seg = SLeft \<or> sg_side seg = SRight then iy else ix) now s
                        | _ \<Rightarrow> forget_dwell now s)))"

definition on_key :: "desk \<Rightarrow> key_event \<Rightarrow> nat \<Rightarrow> input_engine \<Rightarrow> input_engine" where
  "on_key w e now s =
     (let s = s\<lparr>ie_mods_held := ke_mods e\<rparr>
      in if fires (ss_hotkey (ie_settings s)) e
         then (if ie_driving s \<noteq> None then bring_home w ''RETURNED'' now s else s)
         else
           (case ie_driving s of
              None \<Rightarrow> s
            | Some d \<Rightarrow>
                if \<not> dg_accepted d then s
                else
                  (case next_n (flush_pending w now s) of
                     (n, s) \<Rightarrow>
                       send_frame w (dg_node d) (FKey (dg_session d) n (ke_usage e) (ke_key e) (ke_sym e) (ke_mods e)
                         (ie_layout s) (ke_down e) (ke_lock e)) now s)))"

text \<open>A button or the wheel, in a session that carries the pointer.\<close>

definition on_pointer_event :: "desk \<Rightarrow> (u32 \<Rightarrow> u32 \<Rightarrow> frame) \<Rightarrow> nat \<Rightarrow> input_engine \<Rightarrow> input_engine" where
  "on_pointer_event w f now s =
     (case ie_driving s of
        None \<Rightarrow> s
      | Some d \<Rightarrow>
          if dg_accepted d \<and> dg_mode d = FullMode
          then (case next_n (flush_pending w now s) of (n, s) \<Rightarrow> send_frame w (dg_node d) (f (dg_session d) n) now s)
          else s)"

definition on_monitors_changed :: "desk \<Rightarrow> input_engine \<Rightarrow> input_engine" where
  "on_monitors_changed w s =
     dirty (apply_capture (republish w (refresh_caps w (s\<lparr>ie_monitors := dk_monitors w\<rparr>))))"

definition on_layout_changed :: "desk \<Rightarrow> string \<Rightarrow> u32 \<Rightarrow> input_engine \<Rightarrow> input_engine" where
  "on_layout_changed w layout grp s =
     (let s = release_held w (s\<lparr>ie_layout := layout, ie_group := grp\<rparr>)
      in case learn (dk_resolve w) (ie_mod_keys s) (layout_changed layout (ie_resolver s)) of
           (keys, r) \<Rightarrow> s\<lparr>ie_mod_keys := keys, ie_resolver := r\<rparr>)"

definition on_capabilities_changed :: "desk \<Rightarrow> nat \<Rightarrow> input_engine \<Rightarrow> input_engine" where
  "on_capabilities_changed w now s =
     (let before = ie_caps s;
          s = refresh_caps w s;
          s = (if ie_driving s \<noteq> None \<and> \<not> can_drive (ie_caps s) then bring_home w ''GONE'' now s else s);
          s = (if ie_driven s \<noteq> None \<and> \<not> can_be_driven (ie_caps s) then end_driven w (Some ''NO_BACKEND'') now s else s);
          s = (if ca_inject_keys before \<noteq> ca_inject_keys (ie_caps s) \<or> ca_unicode before \<noteq> ca_unicode (ie_caps s) \<or>
                  ca_inject_pointer before \<noteq> ca_inject_pointer (ie_caps s) then relearn w s else s)
      in dirty (apply_capture (republish w s)))"

definition on_capture_lost :: "desk \<Rightarrow> nat \<Rightarrow> input_engine \<Rightarrow> input_engine" where
  "on_capture_lost w now s =
     (let s = refresh_caps w s;
          s = (if ie_driving s \<noteq> None then bring_home w ''GONE'' now s else s)
      in dirty (apply_capture (s\<lparr>ie_capture := None, ie_capture_sent := None\<rparr>)))"

definition on_backend_refusal :: "desk \<Rightarrow> refusal_kind \<Rightarrow> nat \<Rightarrow> input_engine \<Rightarrow> input_engine" where
  "on_backend_refusal w r now s =
     (case ie_driven s of None \<Rightarrow> s | Some d \<Rightarrow> announce w (dv_node d) (refusal_kind_code r) True now s)"

definition on_backend :: "desk \<Rightarrow> backend_event \<Rightarrow> nat \<Rightarrow> input_engine \<Rightarrow> input_engine" where
  "on_backend w e now s =
     (case e of
        BMotion m \<Rightarrow> on_motion w m now s
      | BButton button down \<Rightarrow> on_pointer_event w (\<lambda>session n. FButton session n button down) now s
      | BWheel dx dy pixels \<Rightarrow> on_pointer_event w (\<lambda>session n. FWheel session n dx dy pixels) now s
      | BKey k \<Rightarrow> on_key w k now s
      | BMonitorsChanged \<Rightarrow> on_monitors_changed w s
      | BLayoutChanged layout grp \<Rightarrow> on_layout_changed w layout grp s
      | BCapabilitiesChanged \<Rightarrow> on_capabilities_changed w now s
      | BRefused r \<Rightarrow> on_backend_refusal w r now s
      | BCaptureLost _ \<Rightarrow> on_capture_lost w now s)"

end
