(* ===== verification/InputPump.thy ===== *)
theory InputPump
  imports InputDriving
begin

text \<open>
  What the engine of input sharing does on its own time and for its user (\<open>input/src/session.rs\<close>): keepalives,
  the two watchdogs, layout rounds, the snapshot, \<open>pump\<close> and \<open>next_deadline\<close>, the ten gestures of the facade,
  the start and the end of the process.
\<close>

section \<open>Keepalives and watchdogs\<close>

definition ping_gap :: "input_engine \<Rightarrow> string \<Rightarrow> nat" where
  "ping_gap s node =
     (case ie_driving s of
        None \<Rightarrow> WARM_PING | Some d \<Rightarrow> if dg_accepted d \<and> dg_node d = node then SESSION_PING else WARM_PING)"

definition ping_due :: "input_engine \<Rightarrow> nat \<Rightarrow> string \<times> input_peer \<Rightarrow> bool" where
  "ping_due s now q \<longleftrightarrow>
     pr_link (snd q) = LinkWarm \<and>
     (case pr_last_ping (snd q) of None \<Rightarrow> True | Some ping \<Rightarrow> ping_gap s (fst q) \<le> now - ping)"

definition ping_peer :: "desk \<Rightarrow> nat \<Rightarrow> input_engine \<Rightarrow> string \<Rightarrow> input_engine" where
  "ping_peer w now s node =
     mod_peer node (\<lambda>p. p\<lparr>pr_last_ping := Some now\<rparr>) (send_frame w node (FPing (word_of_nat (stamp now s))) now s)"

definition keepalives :: "desk \<Rightarrow> nat \<Rightarrow> input_engine \<Rightarrow> input_engine" where
  "keepalives w now s = foldl (ping_peer w now) s (map fst (filter (ping_due s now) (ie_peers s)))"

definition last_sign :: "input_engine \<Rightarrow> driving \<Rightarrow> nat" where
  "last_sign s d =
     (case Option.bind (map_of (ie_peers s) (dg_node d)) pr_last_pong of None \<Rightarrow> dg_since d | Some t \<Rightarrow> t)"

definition stalled :: "input_engine \<Rightarrow> nat \<Rightarrow> bool" where
  "stalled s now =
     (case ie_driving s of None \<Rightarrow> False | Some d \<Rightarrow> dg_accepted d \<and> SOURCE_STALL \<le> now - last_sign s d)"

definition idle :: "input_engine \<Rightarrow> nat \<Rightarrow> bool" where
  "idle s now = (case ie_driven s of None \<Rightarrow> False | Some d \<Rightarrow> SESSION_IDLE \<le> now - dv_last_frame d)"

definition watchdogs :: "desk \<Rightarrow> nat \<Rightarrow> input_engine \<Rightarrow> input_engine" where
  "watchdogs w now s =
     (let s = (if stalled s now then bring_home w ''SLOW'' now s else s)
      in if idle s now then end_driven w (Some ''IDLE'') now s else s)"

section \<open>Layout rounds\<close>

definition layout_ready :: "nat \<Rightarrow> input_peer \<Rightarrow> bool" where
  "layout_ready now p \<longleftrightarrow>
     pr_layout_due p \<and> (case pr_layout_sent p of None \<Rightarrow> True | Some sent \<Rightarrow> LAYOUT_MIN_GAP \<le> now - sent)"

definition layout_round :: "desk \<Rightarrow> nat \<Rightarrow> input_engine \<Rightarrow> string \<Rightarrow> input_engine" where
  "layout_round w now s node =
     (let s = mod_peer node (\<lambda>p. p\<lparr>pr_layout_due := False\<rparr>) s
      in case map_of (di_peers (ie_directory s)) node of
           None \<Rightarrow> s
         | Some e \<Rightarrow>
             if \<not> de_reachable e then s
             else mod_peer node (\<lambda>p. p\<lparr>pr_layout_sent := Some now\<rparr>)
                    (effect_out (ISend (de_device_id e)
                       (offer_plane (dk_size w) (ii_public_hex (ie_identity s)) (ie_plane s))) s))"

definition layout_rounds :: "desk \<Rightarrow> nat \<Rightarrow> input_engine \<Rightarrow> input_engine" where
  "layout_rounds w now s =
     (let s = (if LAYOUT_SWEEP \<le> now - ie_sweep_at s
               then (layout_everyone (s\<lparr>ie_sweep_at := now\<rparr>))\<lparr>ie_open_due := True\<rparr> else s)
      in if di_own_node (ie_directory s) = None then s
         else foldl (layout_round w now) s (map fst (filter (\<lambda>q. layout_ready now (snd q)) (ie_peers s))))"

definition on_peer_message :: "desk \<Rightarrow> string \<Rightarrow> json \<Rightarrow> input_engine \<Rightarrow> input_engine" where
  "on_peer_message w node payload s =
     (if map_of (di_peers (ie_directory s)) node = None \<or> str_of payload ''t'' \<noteq> Some ''layout'' then s
      else
        (case merge_doc (dk_verify w) node payload (ie_plane s) of
           (g, p) \<Rightarrow>
             let s = s\<lparr>ie_plane := p\<rparr>
             in if \<not> mg_changed g then s
                else dirty (apply_capture (layout_everyone ((rebuild w (persist_plane s))\<lparr>ie_open_due := True\<rparr>)))))"

section \<open>The snapshot\<close>

definition monitor_value :: "monitor \<Rightarrow> bool \<Rightarrow> json" where
  "monitor_value m here = jobj
     [(''id'', JStr (mo_id m)), (''name'', JStr (mo_name m)), (''w'', of_i64 (mo_w m)), (''h'', of_i64 (mo_h m)),
      (''x'', of_i64 (mo_x m)), (''y'', of_i64 (mo_y m)), (''scale'', of_i64 (mo_scale m)),
      (''primary'', JBool (mo_primary m)), (''present'', JBool here)]"

definition or_null :: "json option \<Rightarrow> json" where
  "or_null v = (case v of None \<Rightarrow> JNull | Some j \<Rightarrow> j)"

definition peer_problem_of :: "input_peer \<Rightarrow> peer_problem option" where
  "peer_problem_of p =
     (case pr_problem p of
        Some r \<Rightarrow> Some r
      | None \<Rightarrow>
          (case pr_hi p of
             None \<Rightarrow> None
           | Some h \<Rightarrow>
               if \<not> can_be_driven (hi_caps h) then Some PPNoBackend else Option.bind (ca_problem (hi_caps h)) as_peer))"

definition peer_state :: "input_engine \<Rightarrow> string \<Rightarrow> string" where
  "peer_state s node =
     (if is_driving s node then ''driving''
      else if is_driven s node then ''driven''
      else
        (case map_of (ie_peers s) node of
           None \<Rightarrow> ''off''
         | Some p \<Rightarrow>
             if pr_problem p \<noteq> None then ''refused''
             else (case pr_link p of LinkWarm \<Rightarrow> ''ready'' | LinkWarming \<Rightarrow> ''warming'' | LinkCold \<Rightarrow> ''off'')))"

definition spot_value :: "input_engine \<Rightarrow> placed \<Rightarrow> json" where
  "spot_value s p = jobj
     [(''monitor'', JStr (pc_key p)), (''device_id'', or_null (map_option JStr (device_of_node (ie_directory s) (pc_node_id p)))),
      (''name'', JStr (mo_name (pc_own p))), (''x'', of_i64 (pc_x p)), (''y'', of_i64 (pc_y p)), (''w'', of_i64 (pc_w p)),
      (''h'', of_i64 (pc_h p)), (''present'', JBool (pc_present p)), (''primary'', JBool (mo_primary (pc_own p)))]"

definition device_monitors :: "input_engine \<Rightarrow> string \<Rightarrow> json list" where
  "device_monitors s node =
     (case map_of (pn_monitors (ie_plane s)) node of
        None \<Rightarrow> []
      | Some e \<Rightarrow>
          if me_verified e
          then map (\<lambda>m. monitor_value m
                 (case map_of (gr_placed (ie_graph s)) (spot_key node (mo_id m)) of None \<Rightarrow> False | Some p \<Rightarrow> pc_present p))
                 (me_list e)
          else [])"

definition rtt_value :: "input_engine \<Rightarrow> string \<Rightarrow> json" where
  "rtt_value s node = or_null (map_option of_u64 (Option.bind (map_of (ie_peers s) node) pr_rtt_ms))"

definition device_value :: "input_engine \<Rightarrow> string \<times> dir_entry \<Rightarrow> json" where
  "device_value s q =
     (let node = fst q; st = settings_peer (ie_settings s) node
      in jobj
        [(''device_id'', JStr (de_device_id (snd q))), (''name'', JStr (de_name (snd q))),
         (''state'', JStr (peer_state s node)), (''monitors'', JArr (device_monitors s node)),
         (''rtt_ms'', rtt_value s node), (''lan'', JBool (de_lan (snd q))), (''allowed'', JBool (se_allow st)),
         (''drive'', JBool (se_drive st)), (''mode'', JStr (key_mode_as_str (se_mode st))),
         (''problem'', or_null (map_option (\<lambda>p. JStr (peer_problem_code p))
            (Option.bind (map_of (ie_peers s) node) peer_problem_of)))])"

definition session_value :: "input_engine \<Rightarrow> json" where
  "session_value s =
     (let row = (\<lambda>node direction m since. jobj
        [(''device_id'', or_null (map_option JStr (device_of_node (ie_directory s) node))), (''direction'', JStr direction),
         (''mode'', JStr (mode_as_str m)), (''since'', of_u64 since), (''rtt_ms'', rtt_value s node)])
      in case ie_driving s of
           Some d \<Rightarrow> row (dg_node d) ''out'' (dg_mode d) (dg_since_unix d)
         | None \<Rightarrow>
             (case ie_driven s of
                Some d \<Rightarrow> row (dv_node d) ''in'' (dv_mode d) (dv_since_unix d)
              | None \<Rightarrow> JNull))"

definition guard_row :: "input_engine \<Rightarrow> string \<times> json \<Rightarrow> json option" where
  "guard_row s q =
     (case split_on CHR ''|'' (fst q) of
        _ # to_key # sd # _ \<Rightarrow>
          (case split_spot_key to_key of
             None \<Rightarrow> None
           | Some (node, _) \<Rightarrow>
               let row = [(''device_id'', or_null (map_option JStr (device_of_node (ie_directory s) node))),
                          (''monitor'', JStr to_key), (''side'', JStr sd)]
               in Some (case as_object (snd q) of
                          None \<Rightarrow> jobj row
                        | Some rest \<Rightarrow> JObj (foldl (\<lambda>m f. bt_insert (fst f) (snd f) m) (bt_of_list row) rest)))
      | _ \<Rightarrow> None)"

definition guards_rows :: "input_engine \<Rightarrow> json list" where
  "guards_rows s =
     (case Option.bind (jget (settings_to_value (ie_settings s)) ''guards'') as_object of
        None \<Rightarrow> [] | Some m \<Rightarrow> List.map_filter (guard_row s) m)"

definition status_value :: "input_engine \<Rightarrow> json" where
  "status_value s = jobj
     [(''here'', jobj
        [(''device_id'', or_null (map_option JStr (di_own_device (ie_directory s)))),
         (''name'', JStr (di_own_name (ie_directory s))),
         (''monitors'', JArr (map (\<lambda>m. monitor_value m True) (ie_monitors s))),
         (''problem'', or_null (map_option (\<lambda>p. JStr (problem_code p)) (ca_problem (ie_caps s)))),
         (''can_drive'', JBool (can_drive (ie_caps s))), (''can_be_driven'', JBool (can_be_driven (ie_caps s)))]),
      (''plane'', jobj
        [(''id'', JStr (ie_plane_id s)), (''spots'', JArr (map (\<lambda>q. spot_value s (snd q)) (gr_placed (ie_graph s)))),
         (''by'', or_null (map_option JStr (Option.bind (pn_placement (ie_plane s))
            (\<lambda>a. device_of_node (ie_directory s) (pl_by a)))))]),
      (''devices'', JArr (map (device_value s) (di_peers (ie_directory s)))),
      (''session'', session_value s),
      (''guards'', JArr (guards_rows s)),
      (''lock'', JBool (ss_locked (ie_settings s))),
      (''hotkey'', JArr (map JStr (hotkey_to_names (ss_hotkey (ie_settings s)))))]"

definition emit_snapshot :: "nat \<Rightarrow> input_engine \<Rightarrow> input_engine" where
  "emit_snapshot now s =
     (if \<not> ie_dirty s \<or> now - ie_last_emit s < EMIT_GAP then s
      else
        let state = status_value s;
            s = s\<lparr>ie_dirty := False, ie_last_emit := now\<rparr>
        in if state = ie_last_snapshot s then s
           else effect_out (IEmit ''input.updated'' (jobj [(''state'', state)])) (s\<lparr>ie_last_snapshot := state\<rparr>))"

section \<open>The pump\<close>

definition pump_input :: "desk \<Rightarrow> nat \<Rightarrow> input_engine \<Rightarrow> input_engine" where
  "pump_input w now s =
     emit_snapshot now (refusal_windows w now (layout_rounds w now (crossing w now (watchdogs w now
       (flow_flush w now (keepalives w now (parked_takes w now (sync_channels now s))))))))"

definition dirty_deadline :: "input_engine \<Rightarrow> nat list" where
  "dirty_deadline s = (if ie_dirty s then [ie_last_emit s + EMIT_GAP] else [])"

definition peer_deadlines :: "input_engine \<Rightarrow> string \<times> input_peer \<Rightarrow> nat list" where
  "peer_deadlines s q =
     (if pr_layout_due (snd q)
      then [case pr_layout_sent (snd q) of None \<Rightarrow> ie_epoch s | Some sent \<Rightarrow> sent + LAYOUT_MIN_GAP] else []) @
     (if pr_link (snd q) = LinkWarm
      then [case pr_last_ping (snd q) of None \<Rightarrow> ie_epoch s | Some ping \<Rightarrow> ping + ping_gap s (fst q)] else [])"

definition driving_deadlines :: "input_engine \<Rightarrow> nat list" where
  "driving_deadlines s =
     (case ie_driving s of
        None \<Rightarrow> []
      | Some d \<Rightarrow>
          (if dg_pending d \<noteq> None then [dg_tokens_at d + flush_wait s d] else []) @
          (if dg_accepted d then [last_sign s d + SOURCE_STALL] else []))"

definition dwell_deadlines :: "input_engine \<Rightarrow> nat \<Rightarrow> nat list" where
  "dwell_deadlines s now =
     (case ie_dwell s of
        None \<Rightarrow> []
      | Some d \<Rightarrow>
          let ready = dw_since d + millis (gd_dwell_ms (guards_of s (dw_seg d)))
          in (if now < ready \<and> dw_tapped d \<and> ie_driving s = None \<and> ie_driven s = None then [ready] else []) @
             (case dw_warming d of
                None \<Rightarrow> []
              | Some started \<Rightarrow> if now < started + CROSS_OPEN_BOUND then [started + CROSS_OPEN_BOUND] else []))"

definition deadlines :: "input_engine \<Rightarrow> nat \<Rightarrow> nat list" where
  "deadlines s now =
     dirty_deadline s @ [ie_sweep_at s + LAYOUT_SWEEP] @ concat (map (peer_deadlines s) (ie_peers s)) @
     driving_deadlines s @
     (case ie_driven s of None \<Rightarrow> [] | Some d \<Rightarrow> [dv_last_frame d + SESSION_IDLE]) @
     dwell_deadlines s now @
     List.map_filter (\<lambda>q. if 0 < wn_pending (snd q) then Some (wn_until (snd q)) else None) (ie_windows s)"

definition next_deadline :: "input_engine \<Rightarrow> nat \<Rightarrow> nat option" where
  "next_deadline s now = (case deadlines s now of [] \<Rightarrow> None | t # ts \<Rightarrow> Some (foldl min t ts))"

end
