(* ===== verification/InputFacade.thy ===== *)
theory InputFacade
  imports InputPump
begin

text \<open>
  The gestures of input sharing's facade, the start of its engine and its end (\<open>input/src/session.rs\<close>,
  \<open>open\<close>, \<open>start\<close>, \<open>serve\<close>, \<open>shutdown\<close>). A gesture answers a value, or the code of an error.
\<close>

section \<open>Reading what a caller sends\<close>

definition string_param :: "json \<Rightarrow> string \<Rightarrow> string + string" where
  "string_param v k = (case str_of v k of None \<Rightarrow> Inl (''param:'' @ k) | Some s \<Rightarrow> Inr s)"

definition bool_param :: "json \<Rightarrow> string \<Rightarrow> string + bool" where
  "bool_param v k = (case bool_of v k of None \<Rightarrow> Inl (''param:'' @ k) | Some b \<Rightarrow> Inr b)"

definition key_mode_param :: "json \<Rightarrow> string + key_mode option" where
  "key_mode_param v =
     (case jget v ''mode'' of
        None \<Rightarrow> Inr None
      | Some JNull \<Rightarrow> Inr None
      | Some j \<Rightarrow>
          (case Option.bind (as_str j) key_mode_parse of None \<Rightarrow> Inl ''param:mode'' | Some m \<Rightarrow> Inr (Some m)))"

definition mode_param :: "json \<Rightarrow> string + mode option" where
  "mode_param v =
     (case jget v ''mode'' of
        None \<Rightarrow> Inr None
      | Some JNull \<Rightarrow> Inr None
      | Some j \<Rightarrow>
          (case Option.bind (as_str j) mode_parse of None \<Rightarrow> Inl ''param:mode'' | Some m \<Rightarrow> Inr (Some m)))"

definition spot_point :: "json \<Rightarrow> spot option" where
  "spot_point v = do { x \<leftarrow> i32_field v ''x''; y \<leftarrow> i32_field v ''y''; Some \<lparr>sp_x = x, sp_y = y\<rparr> }"

definition insert_spot :: "(string, spot) btree option \<Rightarrow> (string \<times> spot) option \<Rightarrow> (string, spot) btree option" where
  "insert_spot acc q = do { m \<leftarrow> acc; q \<leftarrow> q; Some (bt_insert (fst q) (snd q) m) }"

definition read_spots :: "json \<Rightarrow> string + (string, spot) btree" where
  "read_spots v =
     (let spots =
        (case jget v ''spots'' of
           Some (JArr es) \<Rightarrow>
             foldl insert_spot (Some [])
               (map (\<lambda>e. do { m \<leftarrow> str_of e ''monitor''; p \<leftarrow> spot_point e; Some (m, p) }) es)
         | Some (JObj m) \<Rightarrow> foldl insert_spot (Some []) (map (\<lambda>q. map_option (Pair (fst q)) (spot_point (snd q))) m)
         | _ \<Rightarrow> None)
      in case spots of None \<Rightarrow> Inl ''param:spots'' | Some m \<Rightarrow> Inr m)"

definition qualify :: "string \<Rightarrow> string \<Rightarrow> string" where
  "qualify named node = (if CHR ''/'' \<in> set named then named else spot_key node named)"

definition device_param :: "input_engine \<Rightarrow> json \<Rightarrow> string + string" where
  "device_param s v =
     (case string_param v ''device_id'' of
        Inl e \<Rightarrow> Inl e
      | Inr device \<Rightarrow>
          (case node_of (ie_directory s) device of None \<Rightarrow> Inl ''INPUT_DEVICE_UNKNOWN'' | Some node \<Rightarrow> Inr node))"

section \<open>The gestures\<close>

type_synonym served = "(string + json) \<times> input_engine"

definition done_with :: "input_engine \<Rightarrow> served" where
  "done_with s = (Inr (JObj []), s)"

definition settle :: "applied \<Rightarrow> input_engine \<Rightarrow> (string + unit) \<times> input_engine" where
  "settle a s =
     (case a of
        SetRefused \<Rightarrow> (Inl ''INPUT_INTERNAL'', s)
      | SetChanged \<Rightarrow> (Inr (), dirty (persist_settings s))
      | SetUnchanged \<Rightarrow> (Inr (), s))"

text \<open>A setter of the settings, settled; on success the rest of the gesture runs.\<close>

definition with_setting ::
  "(settings \<Rightarrow> applied \<times> settings) \<Rightarrow> (input_engine \<Rightarrow> input_engine) \<Rightarrow> input_engine \<Rightarrow> served" where
  "with_setting f rest s =
     (case f (ie_settings s) of
        (a, st) \<Rightarrow>
          (case settle a (s\<lparr>ie_settings := st\<rparr>) of
             (Inl e, s) \<Rightarrow> (Inl e, s) | (Inr _, s) \<Rightarrow> done_with (rest s)))"

definition serve_place :: "desk \<Rightarrow> string \<Rightarrow> json \<Rightarrow> input_engine \<Rightarrow> served" where
  "serve_place w own v s =
     (case read_spots v of
        Inl e \<Rightarrow> (Inl e, s)
      | Inr spots \<Rightarrow>
          if list_ex (\<lambda>q. split_spot_key (fst q) = None) spots then (Inl ''param:spots'', s)
          else
            (case place own (ie_identity s) (dk_wall w) spots (ie_plane s) of
               (Inl e, p) \<Rightarrow>
                 (Inl (if e = Ceiling \<or> e = BadAuthor then ''INPUT_INTERNAL'' else ''param:spots''), s\<lparr>ie_plane := p\<rparr>)
             | (Inr _, p) \<Rightarrow>
                 done_with (dirty ((apply_capture (layout_everyone (rebuild w (persist_plane (s\<lparr>ie_plane := p\<rparr>)))))
                   \<lparr>ie_open_due := True\<rparr>))))"

definition serve_allow :: "desk \<Rightarrow> json \<Rightarrow> nat \<Rightarrow> input_engine \<Rightarrow> served" where
  "serve_allow w v now s =
     (case bool_param v ''allowed'' of
        Inl e \<Rightarrow> (Inl e, s)
      | Inr allowed \<Rightarrow>
          (case device_param s v of
             Inl e \<Rightarrow> (Inl e, s)
           | Inr node \<Rightarrow>
               with_setting (set_allow node allowed)
                 (\<lambda>s. if \<not> allowed \<and> is_driven s node then end_driven w (Some ''REVOKED'') now s else s) s))"

definition serve_drive :: "desk \<Rightarrow> json \<Rightarrow> nat \<Rightarrow> input_engine \<Rightarrow> served" where
  "serve_drive w v now s =
     (case bool_param v ''allowed'' of
        Inl e \<Rightarrow> (Inl e, s)
      | Inr allowed \<Rightarrow>
          (case key_mode_param v of
             Inl e \<Rightarrow> (Inl e, s)
           | Inr mode \<Rightarrow>
               (case device_param s v of
                  Inl e \<Rightarrow> (Inl e, s)
                | Inr node \<Rightarrow>
                    with_setting (set_drive node allowed mode)
                      (\<lambda>s. if \<not> allowed \<and> is_driving s node then bring_home w ''RETURNED'' now s else s) s)))"

definition take_now :: "desk \<Rightarrow> string \<Rightarrow> mode option \<Rightarrow> nat \<Rightarrow> input_engine \<Rightarrow> input_engine" where
  "take_now w node asked now s =
     (case take_entry s node of
        None \<Rightarrow> s
      | Some (key, cursor, entry) \<Rightarrow>
          (case leaving_from s of
             (home, from_key) \<Rightarrow>
               (case start_session w node asked cursor key from_key home entry now s of
                  (started, s) \<Rightarrow> if started then mod_peer node (\<lambda>p. p\<lparr>pr_take := None\<rparr>) s else s)))"

definition serve_take :: "desk \<Rightarrow> json \<Rightarrow> nat \<Rightarrow> input_engine \<Rightarrow> served" where
  "serve_take w v now s =
     (case mode_param v of
        Inl e \<Rightarrow> (Inl e, s)
      | Inr asked \<Rightarrow>
          (case device_param s v of
             Inl e \<Rightarrow> (Inl e, s)
           | Inr node \<Rightarrow>
               if \<not> can_drive (ie_caps s) then (Inl ''INPUT_NO_BACKEND'', s)
               else if ss_locked (ie_settings s) then (Inl ''INPUT_LOCKED'', s)
               else if ie_driven s \<noteq> None then (Inl ''INPUT_BUSY'', s)
               else if ie_driving s \<noteq> None then (if is_driving s node then done_with s else (Inl ''INPUT_BUSY'', s))
               else if asked \<noteq> Some KeysMode \<and>
                       (case Option.bind (map_of (ie_peers s) node) pr_rtt_ms of None \<Rightarrow> False | Some ms \<Rightarrow> RTT_MAX_MS < ms)
               then (Inl ''INPUT_TOO_SLOW'', s)
               else
                 done_with (take_now w node asked now (dirty
                   ((upd_peer node (\<lambda>p. p\<lparr>pr_backoff_until := None, pr_problem := None, pr_take := Some (asked, now)\<rparr>) s)
                    \<lparr>ie_open_due := True\<rparr>)))))"

definition serve_release :: "desk \<Rightarrow> nat \<Rightarrow> input_engine \<Rightarrow> served" where
  "serve_release w now s =
     done_with
       (if ie_driving s \<noteq> None then bring_home w ''RETURNED'' now s
        else if ie_driven s \<noteq> None then end_driven w (Some ''TAKEN'') now s else s)"

text \<open>Several stretches take the same guards; a refusal of one is the answer of all.\<close>

definition set_guards_step :: "side \<Rightarrow> guards \<Rightarrow> applied \<times> settings \<Rightarrow> string \<times> string \<Rightarrow> applied \<times> settings" where
  "set_guards_step sd g acc pair =
     (case set_guards (fst pair) (snd pair) sd g (snd acc) of
        (SetRefused, st) \<Rightarrow> (SetRefused, st)
      | (SetChanged, st) \<Rightarrow> (if fst acc = SetRefused then SetRefused else SetChanged, st)
      | (SetUnchanged, st) \<Rightarrow> (fst acc, st))"

definition serve_guards :: "string \<Rightarrow> json \<Rightarrow> input_engine \<Rightarrow> served" where
  "serve_guards own v s =
     (case string_param v ''monitor'' of
        Inl e \<Rightarrow> (Inl e, s)
      | Inr named \<Rightarrow>
          (case string_param v ''side'' of
             Inl e \<Rightarrow> (Inl e, s)
           | Inr sd \<Rightarrow>
               (case side_parse sd of
                  None \<Rightarrow> (Inl ''param:side'', s)
                | Some sd \<Rightarrow>
                    (case jget v ''guards'' of
                       None \<Rightarrow> (Inl ''param:guards'', s)
                     | Some g \<Rightarrow>
                         (case device_param s v of
                            Inl e \<Rightarrow> (Inl e, s)
                          | Inr node \<Rightarrow>
                              let pairs = map (\<lambda>sg. (sg_from sg, sg_to sg))
                                    (filter (\<lambda>sg. sg_side sg = sd \<and> sg_node_id sg = node \<and>
                                        (sg_to sg = qualify named node \<or> sg_from sg = qualify named own))
                                      (gr_segments (ie_graph s)))
                              in if pairs = [] then (Inl ''INPUT_UNKNOWN_MONITOR'', s)
                                 else with_setting
                                   (\<lambda>st. foldl (set_guards_step sd (guards_from_value g)) (SetUnchanged, st) pairs) id s)))))"

definition serve_lock :: "desk \<Rightarrow> json \<Rightarrow> nat \<Rightarrow> input_engine \<Rightarrow> served" where
  "serve_lock w v now s =
     (case bool_param v ''locked'' of
        Inl e \<Rightarrow> (Inl e, s)
      | Inr locked \<Rightarrow>
          let s = (if ss_locked (ie_settings s) \<noteq> locked
                   then dirty (persist_settings (s\<lparr>ie_settings := (ie_settings s)\<lparr>ss_locked := locked\<rparr>\<rparr>)) else s);
              s = (if locked \<and> ie_driving s \<noteq> None then bring_home w ''RETURNED'' now s else s);
              s = (if locked \<and> ie_driven s \<noteq> None then end_driven w (Some ''LOCKED'') now s else s)
          in done_with s)"

definition serve_hotkey :: "json \<Rightarrow> input_engine \<Rightarrow> served" where
  "serve_hotkey v s =
     (case Option.bind (jget v ''keys'') as_array of
        None \<Rightarrow> (Inl ''param:keys'', s)
      | Some names \<Rightarrow>
          (case hotkey_parse (map (\<lambda>n. case as_str n of None \<Rightarrow> [] | Some t \<Rightarrow> t) names) of
             None \<Rightarrow> (Inl ''param:keys'', s)
           | Some h \<Rightarrow>
               (case set_hotkey h (ie_settings s) of
                  (changed, st) \<Rightarrow>
                    let s = s\<lparr>ie_settings := st\<rparr> in done_with (if changed then dirty (persist_settings s) else s))))"

definition serve_remap :: "json \<Rightarrow> input_engine \<Rightarrow> served" where
  "serve_remap v s =
     (case Option.bind (jget v ''map'') as_object of
        None \<Rightarrow> (Inl ''param:map'', s)
      | Some m \<Rightarrow>
          (case those (map (\<lambda>q. map_option (Pair (fst q)) (as_str (snd q))) m) of
             None \<Rightarrow> (Inl ''param:map'', s)
           | Some table \<Rightarrow>
               (case device_param s v of
                  Inl e \<Rightarrow> (Inl e, s)
                | Inr node \<Rightarrow> with_setting (set_remap node (bt_of_list table)) id s)))"

definition serve_input :: "desk \<Rightarrow> string \<Rightarrow> json \<Rightarrow> nat \<Rightarrow> input_engine \<Rightarrow> served" where
  "serve_input w gesture v now s =
     (if gesture = ''input.status'' then (Inr (status_value s), s)
      else
        (case di_own_node (ie_directory s) of
           None \<Rightarrow> (Inl ''INPUT_NOT_READY'', s)
         | Some own \<Rightarrow>
             if gesture = ''input.place'' then serve_place w own v s
             else if gesture = ''input.allow'' then serve_allow w v now s
             else if gesture = ''input.drive'' then serve_drive w v now s
             else if gesture = ''input.take'' then serve_take w v now s
             else if gesture = ''input.release'' then serve_release w now s
             else if gesture = ''input.guards'' then serve_guards own v s
             else if gesture = ''input.lock'' then serve_lock w v now s
             else if gesture = ''input.hotkey'' then serve_hotkey v s
             else if gesture = ''input.remap'' then serve_remap v s
             else (Inl ''-32601'', s)))"

section \<open>The start and the end\<close>

text \<open>
  What is on disk: a plane, settings and a held set, each \<open>None\<close> when there is none; a torn plane counts as
  none, and torn settings keep the engine from opening at all.
\<close>

definition open_engine ::
  "desk \<Rightarrow> input_identity \<Rightarrow> json option \<Rightarrow> json option \<Rightarrow> json \<Rightarrow> nat \<Rightarrow> input_engine option" where
  "open_engine w idn plane_doc settings_doc held_doc now =
     (case (case plane_doc of None \<Rightarrow> Some plane_default | Some doc \<Rightarrow> from_stored (dk_verify w) doc) of
        None \<Rightarrow> None
      | Some p \<Rightarrow>
          let found = held_from_value held_doc;
              release = found \<noteq> [] \<and> ca_inject_keys (dk_caps w);
              empty = held_to_value [];
              s = \<lparr>ie_identity = idn, ie_directory = directory_default, ie_plane = p, ie_plane_id = plane_id (dk_hash w) p,
                   ie_settings = (case settings_doc of None \<Rightarrow> settings_default | Some doc \<Rightarrow> settings_from_value doc),
                   ie_graph = \<lparr>gr_placed = [], gr_segments = []\<rparr>, ie_caps = dk_caps w, ie_monitors = [], ie_layout = [],
                   ie_group = 0, ie_mods_held = 0, ie_last_pointer = None, ie_capture = None, ie_capture_sent = None,
                   ie_confined = False, ie_peers = [], ie_driving = None, ie_driven = None, ie_held = [],
                   ie_stranded = (if release then [] else found), ie_held_on_disk = held_doc,
                   ie_resolver = resolver_new, ie_mod_keys = [], ie_dwell = None, ie_left = [], ie_epoch = now,
                   ie_effects = [], ie_dirty = True, ie_last_emit = now, ie_last_snapshot = JNull, ie_sweep_at = now,
                   ie_open_due = True, ie_windows = [], ie_calls = []\<rparr>
          in Some (if release
                   then write_held_value w empty (call (CReleaseAll (held_release_plan found)) s) else s))"

definition start_engine :: "desk \<Rightarrow> input_engine \<Rightarrow> input_engine" where
  "start_engine w s =
     republish w (relearn w ((refresh_caps w s)\<lparr>ie_monitors := dk_monitors w, ie_last_pointer := dk_pointer w\<rparr>))"

text \<open>What the host drains after every step.\<close>

definition take_effects :: "input_engine \<Rightarrow> input_effect list \<times> input_engine" where
  "take_effects s = (ie_effects s, s\<lparr>ie_effects := []\<rparr>)"

definition shutdown_input :: "desk \<Rightarrow> nat \<Rightarrow> input_engine \<Rightarrow> input_engine" where
  "shutdown_input w now s =
     (let s = (if ie_driving s \<noteq> None then bring_home w ''GONE'' now s else s);
          s = (if ie_driven s \<noteq> None then end_driven w (Some ''NO_BACKEND'') now s else s)
      in confine_to None (force_capture_off (release_held w s)))"

end
