(* ===== verification/SessionFrame.thy ===== *)
theory SessionFrame
  imports InputFacade
begin

text \<open>
  What the operations of the input engine leave alone: for each of them, the parts of the state its sessions
  rest on. The output rate bucket of a session is charged by every frame sent, so a session is compared with
  that bucket set aside.
\<close>

section \<open>What is compared\<close>

definition session_of :: "input_engine \<Rightarrow> driving option" where
  "session_of s = map_option (\<lambda>d. d\<lparr>dg_out_tokens := 0, dg_out_at := 0\<rparr>) (ie_driving s)"

text \<open>Sessions, keys, capture, permissions and the directory are as before.\<close>

definition unmoved :: "input_engine \<Rightarrow> input_engine \<Rightarrow> bool" where
  "unmoved s t \<longleftrightarrow>
     ie_held t = ie_held s \<and> ie_capture_sent t = ie_capture_sent s \<and> ie_confined t = ie_confined s \<and>
     ie_settings t = ie_settings s \<and> ie_caps t = ie_caps s \<and> ie_driven t = ie_driven s \<and>
     ie_directory t = ie_directory s \<and> session_of t = session_of s"

text \<open>So are the peers, and what \<open>pump\<close> decides by.\<close>

definition still :: "input_engine \<Rightarrow> input_engine \<Rightarrow> bool" where
  "still s t \<longleftrightarrow>
     unmoved s t \<and> ie_peers t = ie_peers s \<and> ie_dwell t = ie_dwell s \<and> ie_graph t = ie_graph s \<and>
     ie_sweep_at t = ie_sweep_at s \<and> ie_epoch t = ie_epoch s \<and> ie_last_emit t = ie_last_emit s \<and>
     (bt_ok (ie_windows s) \<longrightarrow> bt_ok (ie_windows t))"

lemma unmoved_refl [simp]: "unmoved s s"
  by (simp add: unmoved_def)

lemma unmoved_trans: "unmoved s t \<Longrightarrow> unmoved t u \<Longrightarrow> unmoved s u"
  by (simp add: unmoved_def)

lemma still_refl [simp]: "still s s"
  by (simp add: still_def)

lemma still_trans: "still s t \<Longrightarrow> still t u \<Longrightarrow> still s u"
  using unmoved_trans by (auto simp: still_def)

lemma still_unmoved: "still s t \<Longrightarrow> unmoved s t"
  by (simp add: still_def)

lemma still_foldl: "(\<And>s x. still s (f s x)) \<Longrightarrow> still s (foldl f s xs)"
  by (induction xs arbitrary: s) (auto intro: still_trans)

lemma unmoved_foldl: "(\<And>s x. unmoved s (f s x)) \<Longrightarrow> unmoved s (foldl f s xs)"
  by (induction xs arbitrary: s) (auto intro: unmoved_trans)

lemmas still_parts = still_def unmoved_def session_of_def

lemma session_of_None [simp]: "session_of s = None \<longleftrightarrow> ie_driving s = None"
  by (simp add: session_of_def)

lemma same_session:
  assumes "session_of t = session_of s"
  shows "ie_driving t = None \<longleftrightarrow> ie_driving s = None"
    and "map_option dg_node (ie_driving t) = map_option dg_node (ie_driving s)"
    and "is_driving t node \<longleftrightarrow> is_driving s node"
  using assms by (cases "ie_driving s"; cases "ie_driving t"; force simp: session_of_def is_driving_def dest: arg_cong [of _ _ dg_node])+

section \<open>Frames and refusals\<close>

lemma call_still: "still s (call c s)"
  by (simp add: still_parts call_def)

lemma dirty_still: "still s (dirty s)"
  by (simp add: still_parts dirty_def)

lemma effect_still: "still s (effect_out e s)"
  by (simp add: still_parts effect_out_def)

lemma allow_out_still: "still s (snd (allow_out node droppable now s))"
  by (simp add: allow_out_def still_parts Let_def split: option.splits)

lemma write_frame_still: "still s (write_frame w node f droppable now s)"
proof (cases "fitting_frame (dk_size w) f")
  case (Some g)
  obtain b t where a: "allow_out node droppable now s = (b, t)" by fastforce
  then have t: "still s t" using allow_out_still [of s node droppable now] by simp
  show ?thesis
    using Some a t still_trans [OF t call_still] by (simp add: write_frame_def split: option.splits)
qed (simp add: write_frame_def)

lemma send_still: "still s (send_frame w node f now s)" "still s (send_droppable w node f now s)"
  by (simp_all add: send_frame_def send_droppable_def write_frame_still)

lemma emit_refused_still: "still s (emit_refused node code n s)"
  by (simp add: emit_refused_def effect_still split: option.splits)

lemma say_refusal_still: "still s (say_refusal w node code n told now s)"
  using still_trans [OF send_still(1) emit_refused_still] emit_refused_still
  by (simp add: say_refusal_def split: option.splits)

lemma windows_still: "(bt_ok (ie_windows s) \<Longrightarrow> bt_ok ws) \<Longrightarrow> still s (s\<lparr>ie_windows := ws\<rparr>)"
  by (simp add: still_parts)

lemma announce_still: "still s (announce w node code told now s)"
  using still_trans [OF windows_still say_refusal_still] windows_still
  by (simp add: announce_def Let_def split: option.splits)

lemma close_window_still: "still s (close_window w now s q)"
  using still_trans [OF windows_still say_refusal_still] by (simp add: close_window_def)

lemma refusal_windows_still: "still s (refusal_windows w now s)"
proof -
  have "bt_ok (filter P ws)" if "bt_ok ws" for P :: "(string \<times> string) \<times> window \<Rightarrow> bool" and ws
    using that by (auto simp: bt_ok_def sorted_wrt_map sorted_wrt_filter)
  then show ?thesis
    by (simp add: refusal_windows_def Let_def still_trans [OF still_foldl [OF close_window_still] windows_still])
qed

section \<open>Files and the platform\<close>

lemma write_held_value_still: "still s (write_held_value w v s)"
  by (simp add: write_held_value_def still_parts call_def Let_def)

lemma write_held_still: "still s (write_held w h s)" "still s (write_stranded w s)"
  by (simp_all add: write_held_def write_stranded_def write_held_value_still)

lemma drain_stranded_still: "still s (drain_stranded w s)"
proof -
  have "still s ((call (CReleaseAll (held_release_plan (ie_stranded s))) s)\<lparr>ie_stranded := []\<rparr>)"
    by (simp add: still_parts call_def)
  from still_trans [OF this write_held_still(2)] show ?thesis by (simp add: drain_stranded_def)
qed

lemma relearn_still: "still s (relearn w s)"
  by (simp add: relearn_def still_parts split: prod.splits)

lemma persist_still: "still s (persist_plane s)" "still s (persist_settings s)"
  by (simp_all add: persist_plane_def persist_settings_def call_still)

lemma refresh_caps_still: "still (s\<lparr>ie_caps := dk_caps w\<rparr>) (refresh_caps w s)"
  by (simp add: refresh_caps_def drain_stranded_still)

lemma release_held_still: "still (s\<lparr>ie_held := []\<rparr>) (release_held w s)"
proof -
  have "still (s\<lparr>ie_held := []\<rparr>) ((call c s)\<lparr>ie_held := [], ie_stranded := h\<rparr>)"
    "still (s\<lparr>ie_held := []\<rparr>) ((call c s)\<lparr>ie_held := []\<rparr>)" for c h
    by (simp_all add: still_parts call_def)
  note st = this [THEN still_trans, OF write_held_still(2)]
  show ?thesis
  proof (cases "ie_held s = []")
    case False
    then show ?thesis by (simp add: release_held_def Let_def st)
  qed (simp add: release_held_def still_parts)
qed

lemma apply_capture_still: "still (s\<lparr>ie_capture_sent := ie_capture_sent (apply_capture s)\<rparr>) (apply_capture s)"
  by (simp add: apply_capture_def still_parts call_def Let_def)

lemma force_capture_off_still: "still (s\<lparr>ie_capture_sent := ie_capture_sent (force_capture_off s)\<rparr>) (force_capture_off s)"
  by (simp add: force_capture_off_def still_parts call_def Let_def)

lemma confine_to_still: "still (s\<lparr>ie_confined := ie_confined (confine_to r s)\<rparr>) (confine_to r s)"
  by (simp add: confine_to_def still_parts call_def)

lemma warp_home_still: "still s (warp_home d s)"
  by (simp add: warp_home_def warp_to_def still_parts call_def)

lemma forget_dwell_still: "still (s\<lparr>ie_dwell := None\<rparr>) (forget_dwell now s)"
  by (simp add: forget_dwell_def still_parts Let_def split: option.splits)

lemma flush_now_still: "still s (flush_now w d now s)"
  by (simp add: flush_now_def send_still split: option.splits)

section \<open>What a session's end leaves alone\<close>

definition beside :: "input_engine \<Rightarrow> input_engine \<Rightarrow> bool" where
  "beside s t \<longleftrightarrow>
     ie_settings t = ie_settings s \<and> ie_caps t = ie_caps s \<and> ie_directory t = ie_directory s \<and>
     ie_peers t = ie_peers s \<and> ie_graph t = ie_graph s \<and> ie_sweep_at t = ie_sweep_at s \<and>
     ie_epoch t = ie_epoch s \<and> ie_last_emit t = ie_last_emit s \<and> (bt_ok (ie_windows s) \<longrightarrow> bt_ok (ie_windows t))"

lemma beside_refl [simp]: "beside s s"
  by (simp add: beside_def)

lemma beside_trans: "beside s t \<Longrightarrow> beside t u \<Longrightarrow> beside s u"
  by (simp add: beside_def)

lemma still_beside: "still s t \<Longrightarrow> beside s t"
  by (simp add: beside_def still_def unmoved_def)

lemma beside_moves [simp]:
  "beside s (t\<lparr>ie_held := h\<rparr>) \<longleftrightarrow> beside s t" "beside s (t\<lparr>ie_driving := d\<rparr>) \<longleftrightarrow> beside s t"
  "beside s (t\<lparr>ie_driven := v\<rparr>) \<longleftrightarrow> beside s t" "beside s (t\<lparr>ie_capture_sent := c\<rparr>) \<longleftrightarrow> beside s t"
  "beside s (t\<lparr>ie_confined := b\<rparr>) \<longleftrightarrow> beside s t" "beside s (t\<lparr>ie_dwell := dw\<rparr>) \<longleftrightarrow> beside s t"
  "beside s (t\<lparr>ie_capture := ca\<rparr>) \<longleftrightarrow> beside s t"
  by (simp_all add: beside_def)

lemma beside_flip [simp]:
  "beside (s\<lparr>ie_held := h\<rparr>) t \<longleftrightarrow> beside s t" "beside (s\<lparr>ie_driving := d\<rparr>) t \<longleftrightarrow> beside s t"
  "beside (s\<lparr>ie_driven := v\<rparr>) t \<longleftrightarrow> beside s t" "beside (s\<lparr>ie_capture_sent := c\<rparr>) t \<longleftrightarrow> beside s t"
  "beside (s\<lparr>ie_confined := b\<rparr>) t \<longleftrightarrow> beside s t" "beside (s\<lparr>ie_dwell := dw\<rparr>) t \<longleftrightarrow> beside s t"
  "beside (s\<lparr>ie_capture := ca\<rparr>) t \<longleftrightarrow> beside s t"
  by (simp_all add: beside_def)

lemmas moves_beside =
  apply_capture_still [THEN still_beside, simplified] confine_to_still [THEN still_beside, simplified]
  release_held_still [THEN still_beside, simplified] forget_dwell_still [THEN still_beside, simplified]
  force_capture_off_still [THEN still_beside, simplified]
  warp_home_still [THEN still_beside] flush_now_still [THEN still_beside] send_still [THEN still_beside]
  announce_still [THEN still_beside] dirty_still [THEN still_beside]

section \<open>Rest\<close>

text \<open>
  The resting values: one direction at a time, no key held for nobody, no pointer pinned and no keyboard
  swallowed without a session of ours, nothing captured while driven.
\<close>

definition capture_rests :: "input_engine \<Rightarrow> bool" where
  "capture_rests s \<longleftrightarrow>
     (ie_driving s = None \<longrightarrow> ie_capture_sent s \<noteq> Some CaptureSwallow) \<and> (ie_driven s \<noteq> None \<longrightarrow> \<not> capture_on s)"

definition at_rest :: "input_engine \<Rightarrow> bool" where
  "at_rest s \<longleftrightarrow>
     (ie_driving s = None \<or> ie_driven s = None) \<and> (ie_driven s = None \<longrightarrow> ie_held s = []) \<and>
     (ie_driving s = None \<longrightarrow> \<not> ie_confined s) \<and> capture_rests s"

lemma unmoved_at_rest: "unmoved s t \<Longrightarrow> at_rest t \<longleftrightarrow> at_rest s"
  using same_session(1) [of t s] by (auto simp: at_rest_def capture_rests_def capture_on_def unmoved_def)

lemma at_rest_elsewhere [simp]:
  "at_rest (s\<lparr>ie_dwell := dw\<rparr>) = at_rest s" "at_rest (s\<lparr>ie_peers := ps\<rparr>) = at_rest s"
  "at_rest (s\<lparr>ie_graph := g\<rparr>) = at_rest s" "at_rest (s\<lparr>ie_directory := di\<rparr>) = at_rest s"
  "at_rest (s\<lparr>ie_settings := st\<rparr>) = at_rest s" "at_rest (s\<lparr>ie_caps := c\<rparr>) = at_rest s"
  "at_rest (s\<lparr>ie_plane := p\<rparr>) = at_rest s" "at_rest (s\<lparr>ie_plane_id := i\<rparr>) = at_rest s"
  "at_rest (s\<lparr>ie_open_due := b\<rparr>) = at_rest s" "at_rest (s\<lparr>ie_monitors := ms\<rparr>) = at_rest s"
  "at_rest (s\<lparr>ie_effects := es\<rparr>) = at_rest s" "at_rest (s\<lparr>ie_last_pointer := lp\<rparr>) = at_rest s"
  "at_rest (s\<lparr>ie_mods_held := mh\<rparr>) = at_rest s" "at_rest (s\<lparr>ie_left := l\<rparr>) = at_rest s"
  "at_rest (s\<lparr>ie_layout := la\<rparr>) = at_rest s" "at_rest (s\<lparr>ie_group := gr\<rparr>) = at_rest s"
  "at_rest (s\<lparr>ie_resolver := r\<rparr>) = at_rest s" "at_rest (s\<lparr>ie_mod_keys := mk\<rparr>) = at_rest s"
  "at_rest (s\<lparr>ie_sweep_at := t\<rparr>) = at_rest s" "at_rest (s\<lparr>ie_dirty := b\<rparr>) = at_rest s"
  "at_rest (s\<lparr>ie_last_emit := t\<rparr>) = at_rest s" "at_rest (s\<lparr>ie_last_snapshot := v\<rparr>) = at_rest s"
  by (simp_all add: at_rest_def capture_rests_def capture_on_def)

lemma apply_capture_sent:
  "ie_driving s = None \<Longrightarrow> ie_capture_sent (apply_capture s) \<noteq> Some CaptureSwallow"
  "ie_driving s = None \<Longrightarrow> ie_driven s \<noteq> None \<Longrightarrow> \<not> capture_on (apply_capture s)"
  by (auto simp: apply_capture_def wanted_capture_def capture_on_def call_def Let_def can_drive_def)

lemma apply_capture_rest:
  assumes "ie_driving s = None \<or> ie_driven s = None" and "ie_driven s = None \<longrightarrow> ie_held s = []"
    and "ie_driving s = None \<longrightarrow> \<not> ie_confined s"
  shows "at_rest (apply_capture s)"
proof -
  have "session_of (apply_capture s) = session_of s" "ie_driven (apply_capture s) = ie_driven s"
    "ie_held (apply_capture s) = ie_held s" "ie_confined (apply_capture s) = ie_confined s"
    using apply_capture_still [of s] by (simp_all add: still_parts)
  with assms apply_capture_sent [of s] same_session(1) [of "apply_capture s" s] show ?thesis
    by (auto simp: at_rest_def capture_rests_def)
qed

lemma at_rest_apply_capture: "at_rest s \<Longrightarrow> at_rest (apply_capture s)"
  by (rule apply_capture_rest) (auto simp: at_rest_def)

lemma confine_off: "\<not> ie_confined (confine_to None s)"
  by (simp add: confine_to_def call_def)

lemma coming_home:
  assumes "ie_driving s = None" and "ie_driven s = None \<longrightarrow> ie_held s = []"
  shows "at_rest (forget_dwell now (apply_capture (warp_home d (confine_to None s))))"
proof -
  let ?t = "warp_home d (confine_to None s)"
  have "ie_driving ?t = None" "ie_driven ?t = ie_driven s" "ie_held ?t = ie_held s" "\<not> ie_confined ?t"
    using assms(1) confine_off [of s] warp_home_still [of "confine_to None s" d] confine_to_still [of None s]
    by (simp_all add: still_parts)
  then have "at_rest (apply_capture ?t)" using assms(2) by (intro apply_capture_rest) auto
  then show ?thesis
    using unmoved_at_rest [OF still_unmoved [OF forget_dwell_still]] by simp
qed

lemma coming_home_leaves:
  "beside s (forget_dwell now (apply_capture (warp_home d (confine_to None s))))"
  "ie_driving s = None \<Longrightarrow> ie_driving (forget_dwell now (apply_capture (warp_home d (confine_to None s)))) = None"
  "ie_driven (forget_dwell now (apply_capture (warp_home d (confine_to None s)))) = ie_driven s"
  "ie_held (forget_dwell now (apply_capture (warp_home d (confine_to None s)))) = ie_held s"
  "ie_dwell (forget_dwell now (apply_capture (warp_home d (confine_to None s)))) = None"
proof -
  let ?c = "confine_to None s" let ?t = "warp_home d ?c" let ?u = "apply_capture ?t" let ?v = "forget_dwell now ?u"
  show "beside s ?v"
    by (meson beside_trans moves_beside)
  show "ie_driving s = None \<Longrightarrow> ie_driving ?v = None" "ie_driven ?v = ie_driven s" "ie_held ?v = ie_held s"
    "ie_dwell ?v = None"
    using apply_capture_still [of ?t] confine_to_still [of None s] forget_dwell_still [of ?u now] warp_home_still [of ?c d]
    by (simp_all add: still_parts)
qed

lemma still_at_rest: "still s t \<Longrightarrow> at_rest t \<longleftrightarrow> at_rest s"
  by (rule unmoved_at_rest [OF still_unmoved])

lemma bring_home_parts:
  assumes d: "ie_driving s = Some d"
  shows "ie_driving (bring_home w code now s) = None" (is ?driving)
    and "ie_driven (bring_home w code now s) = ie_driven s" (is ?driven)
    and "ie_held (bring_home w code now s) = ie_held s" (is ?held)
    and "ie_dwell (bring_home w code now s) = None" (is ?dwell)
    and "beside s (bring_home w code now s)" (is ?beside)
    and "(ie_driven s = None \<longrightarrow> ie_held s = []) \<Longrightarrow> at_rest (bring_home w code now s)"
proof -
  define u where "u = (if pr_out (peer_of (s\<lparr>ie_driving := None\<rparr>) (dg_node d)) \<and> dg_accepted d
    then send_frame w (dg_node d) (FStop (dg_session d) code) now
           (send_frame w (dg_node d) (FReleaseAll (dg_session d)) now (flush_now w d now (s\<lparr>ie_driving := None\<rparr>)))
    else s\<lparr>ie_driving := None\<rparr>)"
  define v where "v = forget_dwell now (apply_capture (warp_home d (confine_to None u)))"
  have u: "still (s\<lparr>ie_driving := None\<rparr>) u"
    unfolding u_def by (auto intro: still_trans [OF still_trans [OF flush_now_still send_still(1)] send_still(1)])
  then have un: "ie_driving u = None" "ie_driven u = ie_driven s" "ie_held u = ie_held s"
    by (auto simp: still_parts)
  have t: "bring_home w code now s = dirty (if code = ''SLOW'' \<or> code = ''GONE'' then announce w (dg_node d) code False now v else v)"
    by (simp add: bring_home_def d u_def v_def Let_def)
  have v: "still v (bring_home w code now s)"
    unfolding t by (auto intro: still_trans [OF announce_still dirty_still] dirty_still)
  note leaves = coming_home_leaves [where s = u and now = now and d = d, folded v_def]
  show ?driving ?driven ?held ?dwell using v leaves un by (auto simp: still_parts)
  show ?beside
    using still_beside [OF u] leaves(1) still_beside [OF v] by (auto intro: beside_trans)
  show "at_rest (bring_home w code now s)" if "ie_driven s = None \<longrightarrow> ie_held s = []"
    using coming_home [where s = u and now = now and d = d] un that still_at_rest [OF v] by (simp add: v_def)
qed

lemma bring_home_quietly_parts:
  assumes d: "ie_driving s = Some d"
  shows "ie_driving (bring_home_quietly now s) = None" (is ?driving)
    and "ie_driven (bring_home_quietly now s) = ie_driven s" (is ?driven)
    and "ie_held (bring_home_quietly now s) = ie_held s" (is ?held)
    and "beside s (bring_home_quietly now s)" (is ?beside)
    and "(ie_driven s = None \<longrightarrow> ie_held s = []) \<Longrightarrow> at_rest (bring_home_quietly now s)"
proof -
  define u where "u = s\<lparr>ie_driving := None\<rparr>"
  define v where "v = forget_dwell now (apply_capture (warp_home d (confine_to None u)))"
  have t: "bring_home_quietly now s = dirty v" by (simp add: bring_home_quietly_def d u_def v_def)
  have v: "still v (bring_home_quietly now s)" unfolding t by (rule dirty_still)
  note leaves = coming_home_leaves [where s = u and now = now and d = d, folded v_def]
  show ?driving ?driven ?held using v leaves by (auto simp: still_parts u_def)
  show ?beside using leaves(1) still_beside [OF v] by (auto intro: beside_trans simp: u_def)
  show "at_rest (bring_home_quietly now s)" if "ie_driven s = None \<longrightarrow> ie_held s = []"
    using coming_home [where s = u and now = now and d = d] that still_at_rest [OF v] by (simp add: v_def u_def)
qed

lemma bring_home_none [simp]: "ie_driving s = None \<Longrightarrow> bring_home w code now s = s"
  "ie_driving s = None \<Longrightarrow> bring_home_quietly now s = s"
  by (simp_all add: bring_home_def bring_home_quietly_def)

lemma home_always [simp]:
  "ie_driving (bring_home w code now s) = None" "ie_driving (bring_home_quietly now s) = None"
  "ie_driven (bring_home w code now s) = ie_driven s" "ie_driven (bring_home_quietly now s) = ie_driven s"
  "ie_held (bring_home w code now s) = ie_held s" "ie_held (bring_home_quietly now s) = ie_held s"
  "beside s (bring_home w code now s)" "beside s (bring_home_quietly now s)"
  by (cases "ie_driving s"; simp add: bring_home_parts bring_home_quietly_parts)+

lemma at_rest_home [simp, intro]:
  assumes "at_rest s"
  shows "at_rest (bring_home w code now s)" "at_rest (bring_home_quietly now s)"
proof -
  have none: "ie_driven s = None \<longrightarrow> ie_held s = []" using assms by (simp add: at_rest_def)
  show "at_rest (bring_home w code now s)" "at_rest (bring_home_quietly now s)"
    using assms bring_home_parts(6) [OF _ none] bring_home_quietly_parts(5) [OF _ none]
    by (cases "ie_driving s"; simp)+
qed

lemma end_driven_none [simp]: "ie_driven s = None \<Longrightarrow> end_driven w code now s = s"
  by (simp add: end_driven_def)

lemma end_driven_parts:
  assumes d: "ie_driven s = Some d"
  shows "ie_driven (end_driven w code now s) = None" (is ?driven)
    and "session_of (end_driven w code now s) = session_of s" (is ?session)
    and "ie_held (end_driven w code now s) = []" (is ?held)
    and "ie_dwell (end_driven w code now s) = ie_dwell s" (is ?dwell)
    and "beside s (end_driven w code now s)" (is ?beside)
    and "(ie_driving s = None \<longrightarrow> \<not> ie_confined s) \<Longrightarrow> at_rest (end_driven w code now s)"
proof -
  define u where "u = release_held w (s\<lparr>ie_driven := None\<rparr>)"
  define v where "v = (case code of None \<Rightarrow> u | Some c \<Rightarrow> send_frame w (dv_node d) (FEnded (dv_session d) c) now u)"
  have t: "end_driven w code now s = dirty (apply_capture v)" unfolding end_driven_def d u_def v_def Let_def by simp
  have u: "still (s\<lparr>ie_driven := None, ie_held := []\<rparr>) u" using release_held_still [of "s\<lparr>ie_driven := None\<rparr>"] by (simp add: u_def)
  have "still u v" by (simp add: v_def send_still split: option.splits)
  with u have v: "still (s\<lparr>ie_driven := None, ie_held := []\<rparr>) v" by (rule still_trans)
  note parts = still_trans [OF apply_capture_still dirty_still, of v, folded t]
  show ?driven ?session ?held ?dwell using v parts by (simp_all add: still_parts)
  show ?beside using still_beside [OF v] still_beside [OF parts] by (auto intro: beside_trans)
  show "at_rest (end_driven w code now s)" if "ie_driving s = None \<longrightarrow> \<not> ie_confined s"
  proof -
    have "ie_driven v = None" "ie_held v = []" "ie_confined v = ie_confined s" "session_of v = session_of s"
      using v by (simp_all add: still_parts)
    then have "at_rest (apply_capture v)"
      using that same_session(1) [of v s] by (intro apply_capture_rest) auto
    then show ?thesis unfolding t using still_at_rest [OF dirty_still] by simp
  qed
qed

lemma ended_always [simp]:
  "ie_driven (end_driven w code now s) = None" "session_of (end_driven w code now s) = session_of s"
  "ie_dwell (end_driven w code now s) = ie_dwell s" "beside s (end_driven w code now s)"
  by (cases "ie_driven s"; simp add: end_driven_parts)+

lemma at_rest_ended [simp, intro]: "at_rest s \<Longrightarrow> at_rest (end_driven w code now s)"
  by (cases "ie_driven s") (auto intro!: end_driven_parts(6) simp: at_rest_def [of s])

section \<open>Operations that only learn\<close>

text \<open>Sessions go on with the same computers, nothing is pressed, pinned or granted; peers are only added.\<close>

definition grip :: "input_engine \<Rightarrow> held \<times> capture_mode option \<times> bool \<times> settings \<times> string option \<times> string option" where
  "grip s = (ie_held s, ie_capture_sent s, ie_confined s, ie_settings s, map_option dv_node (ie_driven s),
     map_option dg_node (ie_driving s))"

definition wider :: "input_engine \<Rightarrow> input_engine \<Rightarrow> bool" where
  "wider s t \<longleftrightarrow>
     grip t = grip s \<and> dom (map_of (ie_peers s)) \<subseteq> dom (map_of (ie_peers t)) \<and>
     (bt_ok (ie_windows s) \<longrightarrow> bt_ok (ie_windows t)) \<and> (bt_ok (ie_peers s) \<longrightarrow> bt_ok (ie_peers t))"

lemma wider_refl [simp]: "wider s s"
  by (simp add: wider_def)

lemma wider_trans: "wider s t \<Longrightarrow> wider t u \<Longrightarrow> wider s u"
  by (auto simp: wider_def)

lemma wider_foldl: "(\<And>s x. wider s (f s x)) \<Longrightarrow> wider s (foldl f s xs)"
  by (induction xs arbitrary: s) (auto intro: wider_trans)

lemma still_wider: "still s t \<Longrightarrow> wider s t"
  using same_session(2) [of t s] by (simp add: still_def unmoved_def wider_def grip_def)

lemma wider_same:
  assumes "wider s t"
  shows "map_option dv_node (ie_driven t) = map_option dv_node (ie_driven s)"
    and "map_option dg_node (ie_driving t) = map_option dg_node (ie_driving s)"
    and "ie_held t = ie_held s" and "ie_capture_sent t = ie_capture_sent s" and "ie_confined t = ie_confined s"
    and "ie_settings t = ie_settings s"
  using assms by (simp_all add: wider_def grip_def del: map_option_eq_Some)

definition sound :: "input_engine \<Rightarrow> bool" where
  "sound s \<longleftrightarrow> at_rest s \<and> bt_ok (ie_peers s) \<and> bt_ok (ie_windows s)"

text \<open>Whoever types here may, and whoever we type on, we were told to drive.\<close>

definition granted :: "input_engine \<Rightarrow> bool" where
  "granted s \<longleftrightarrow>
     (\<forall>node. map_option dv_node (ie_driven s) = Some node \<longrightarrow>
        allows (ie_settings s) node \<and> \<not> ss_locked (ie_settings s) \<and> node \<in> dom (map_of (ie_peers s))) \<and>
     (\<forall>node. map_option dg_node (ie_driving s) = Some node \<longrightarrow>
        drives (ie_settings s) node \<and> node \<in> dom (map_of (ie_peers s)))"

lemma wider_nones:
  assumes "wider s t"
  shows "ie_driving t = None \<longleftrightarrow> ie_driving s = None" and "ie_driven t = None \<longleftrightarrow> ie_driven s = None"
  using wider_same(1,2) [OF assms] by (metis map_option_is_None)+

lemma wider_sound: "wider s t \<Longrightarrow> sound s \<Longrightarrow> sound t"
  using wider_nones [of s t] wider_same(3-5) [of s t]
  by (simp add: sound_def at_rest_def capture_rests_def capture_on_def wider_def)

lemma wider_granted:
  assumes w: "wider s t" and g: "granted s"
  shows "granted t"
proof -
  have "dom (map_of (ie_peers s)) \<subseteq> dom (map_of (ie_peers t))" using w by (simp add: wider_def)
  with g show ?thesis unfolding granted_def wider_same(1,2,6) [OF w] by blast
qed

lemma beside_sound: "beside s t \<Longrightarrow> at_rest t \<Longrightarrow> sound s \<Longrightarrow> sound t"
  by (simp add: sound_def beside_def)

section \<open>Who only learns\<close>

lemma wider_elsewhere [simp]:
  "wider s (t\<lparr>ie_directory := di\<rparr>) = wider s t" "wider s (t\<lparr>ie_plane := p\<rparr>) = wider s t"
  "wider s (t\<lparr>ie_plane_id := i\<rparr>) = wider s t" "wider s (t\<lparr>ie_graph := g\<rparr>) = wider s t"
  "wider s (t\<lparr>ie_caps := c\<rparr>) = wider s t" "wider s (t\<lparr>ie_monitors := ms\<rparr>) = wider s t"
  "wider s (t\<lparr>ie_layout := la\<rparr>) = wider s t" "wider s (t\<lparr>ie_group := gr\<rparr>) = wider s t"
  "wider s (t\<lparr>ie_mods_held := mh\<rparr>) = wider s t" "wider s (t\<lparr>ie_last_pointer := lp\<rparr>) = wider s t"
  "wider s (t\<lparr>ie_stranded := h\<rparr>) = wider s t" "wider s (t\<lparr>ie_resolver := r\<rparr>) = wider s t"
  "wider s (t\<lparr>ie_mod_keys := mk\<rparr>) = wider s t" "wider s (t\<lparr>ie_dwell := dw\<rparr>) = wider s t"
  "wider s (t\<lparr>ie_left := l\<rparr>) = wider s t" "wider s (t\<lparr>ie_effects := es\<rparr>) = wider s t"
  "wider s (t\<lparr>ie_dirty := b\<rparr>) = wider s t" "wider s (t\<lparr>ie_last_emit := e\<rparr>) = wider s t"
  "wider s (t\<lparr>ie_last_snapshot := v\<rparr>) = wider s t" "wider s (t\<lparr>ie_sweep_at := e\<rparr>) = wider s t"
  "wider s (t\<lparr>ie_open_due := b\<rparr>) = wider s t"
  by (simp_all add: wider_def grip_def)

lemma upd_peer_wider: "wider s (upd_peer node f s)" "wider s (mod_peer node f s)"
  by (auto simp: wider_def grip_def mod_peer_def upd_peer_def)

lemma refresh_caps_wider: "wider s (refresh_caps w s)"
  using still_wider [OF refresh_caps_still [of w s]] by (rule wider_trans [rotated]) simp

lemma forget_dwell_wider: "wider s (forget_dwell now s)"
  using still_wider [OF forget_dwell_still [of s now]] by (rule wider_trans [rotated]) simp

lemmas wider_basic =
  call_still [THEN still_wider, THEN [2] wider_trans] dirty_still [THEN still_wider, THEN [2] wider_trans]
  effect_still [THEN still_wider, THEN [2] wider_trans] send_still [THEN still_wider, THEN [2] wider_trans]
  announce_still [THEN still_wider, THEN [2] wider_trans] emit_refused_still [THEN still_wider, THEN [2] wider_trans]
  refusal_windows_still [THEN still_wider, THEN [2] wider_trans]
  write_held_still [THEN still_wider, THEN [2] wider_trans] relearn_still [THEN still_wider, THEN [2] wider_trans]
  persist_still [THEN still_wider, THEN [2] wider_trans]
  upd_peer_wider [THEN [2] wider_trans] refresh_caps_wider [THEN [2] wider_trans] forget_dwell_wider [THEN [2] wider_trans]

declare wider_basic [intro!]

lemma wider_layout: "wider s (want_layout node s)" "wider s (layout_everyone s)"
proof -
  show one: "wider s (want_layout node s)" for s node by (auto simp: want_layout_def)
  show "wider s (layout_everyone s)" unfolding layout_everyone_def by (rule wider_foldl) (rule one)
qed

declare wider_layout [THEN [2] wider_trans, intro!]

lemma rebuild_wider: "wider s (rebuild w s)"
  by (simp add: rebuild_def split: option.splits)

declare rebuild_wider [THEN [2] wider_trans, intro!]

lemma republish_wider: "wider s (republish w s)"
  by (auto simp: republish_def Let_def split: option.splits prod.splits)

declare republish_wider [THEN [2] wider_trans, intro!]

lemma attach_wider: "wider s (attach w node mine now s)" "wider s (on_open_failed w node code now s)"
  by (auto simp: attach_def on_open_failed_def Let_def)

lemma sync_channels_wider: "wider s (sync_channels now s)"
proof -
  have one: "wider s (sync_channel due now s q)" for s due q
    by (auto simp: sync_channel_def Let_def)
  have "wider (s\<lparr>ie_open_due := False\<rparr>) (foldl (sync_channel b now) (s\<lparr>ie_open_due := False\<rparr>) qs)" for b qs
    by (rule wider_foldl) (rule one)
  from wider_trans [OF _ this] show ?thesis by (simp add: sync_channels_def)
qed

lemma on_pong_wider: "wider s (on_pong node ms now s)"
  by (auto simp: on_pong_def Let_def)

lemma heard_wider: "wider s (heard node now s)"
  by (auto simp: heard_def wider_def grip_def split: option.splits)

lemma remember_refusal_wider: "wider s (remember_refusal node code now s)"
  by (auto simp: remember_refusal_def)

lemma send_flow_wider: "wider s (send_flow w d flow now s)"
proof -
  have "wider s (snd (next_n s))" by (simp add: next_n_def wider_def grip_def split: option.splits)
  then show ?thesis by (auto simp: send_flow_def split: prod.splits)
qed

lemma flow_wider:
  "wider s (offer_flow w flow now s)" "wider s (flush_pending w now s)" "wider s (flow_flush w now s)"
proof -
  have d: "wider s (s\<lparr>ie_driving := Some d'\<rparr>)" if "ie_driving s = Some d" "dg_node d' = dg_node d" for d d' s
    using that by (simp add: wider_def grip_def)
  note sent = wider_trans [OF d send_flow_wider]
  show "wider s (offer_flow w flow now s)"
    by (auto simp: offer_flow_def Let_def d sent split: option.splits)
  show flush: "wider s (flush_pending w now s)"
    by (auto simp: flush_pending_def d sent split: option.splits)
  show "wider s (flow_flush w now s)" by (auto simp: flow_flush_def flush split: option.splits)
qed

declare flow_wider [THEN [2] wider_trans, intro!]

lemma move_cursor_wider: "wider s (move_cursor w x y now s)" "wider s (bump_cursor w d x y now s)"
proof -
  show one: "wider s (move_cursor w x y now s)" for x y
    by (auto simp: move_cursor_def Let_def wider_def [of _ "_\<lparr>ie_driving := _\<rparr>"] grip_def split: option.splits prod.splits)
  show "wider s (bump_cursor w d x y now s)" by (simp add: bump_cursor_def one split: prod.splits)
qed

lemma press_edge_wider: "wider s (press_edge w seg along now s)"
  by (auto simp: press_edge_def Let_def split: option.splits)

lemma keepalives_wider: "wider s (keepalives w now s)"
  unfolding keepalives_def by (rule wider_foldl) (auto simp: ping_peer_def)

lemma layout_rounds_wider: "wider s (layout_rounds w now s)"
proof -
  have one: "wider s (layout_round w now s node)" for s node
    by (auto simp: layout_round_def Let_def split: option.splits)
  have all: "wider s t \<Longrightarrow> wider s (foldl (layout_round w now) t ns)" for t ns
    by (rule wider_trans [OF _ wider_foldl]) (simp_all add: one)
  show ?thesis unfolding layout_rounds_def Let_def by (simp, intro conjI impI all) (auto)
qed

lemma emit_snapshot_wider: "wider s (emit_snapshot now s)"
  by (auto simp: emit_snapshot_def Let_def)

end
