(* ===== verification/SessionFacts.thy ===== *)
theory SessionFacts
  imports SessionFrame
begin

text \<open>
  What every run of the input engine keeps: its resting values, the shape of its maps, and that whoever
  drives or is driven may.
\<close>

section \<open>Ends of sessions\<close>

lemma sound_elsewhere [simp]:
  "sound (s\<lparr>ie_directory := di\<rparr>) = sound s" "sound (s\<lparr>ie_plane := p\<rparr>) = sound s"
  "sound (s\<lparr>ie_settings := st\<rparr>) = sound s" "sound (s\<lparr>ie_open_due := b\<rparr>) = sound s"
  "sound (s\<lparr>ie_effects := es\<rparr>) = sound s"
  by (simp_all add: sound_def)

lemma apply_capture_keeps:
  "sound s \<Longrightarrow> sound (apply_capture s)" "granted s \<Longrightarrow> granted (apply_capture s)"
  "ie_peers (apply_capture s) = ie_peers s" "ie_settings (apply_capture s) = ie_settings s"
  "ie_driving (apply_capture s) = None \<longleftrightarrow> ie_driving s = None" "ie_driven (apply_capture s) = ie_driven s"
proof -
  note b = apply_capture_still [of s]
  have same: "session_of (apply_capture s) = session_of s" using b by (simp add: still_def unmoved_def session_of_def)
  show "sound s \<Longrightarrow> sound (apply_capture s)"
    using beside_sound [OF moves_beside(1) at_rest_apply_capture] by (simp add: sound_def)
  show peers: "ie_peers (apply_capture s) = ie_peers s" and st: "ie_settings (apply_capture s) = ie_settings s"
    and dv: "ie_driven (apply_capture s) = ie_driven s"
    using b by (simp_all add: still_def unmoved_def)
  show "ie_driving (apply_capture s) = None \<longleftrightarrow> ie_driving s = None" using same_session(1) [OF same] .
  show "granted s \<Longrightarrow> granted (apply_capture s)"
    unfolding granted_def peers st dv same_session(2) [OF same] .
qed

lemma sound_home: "sound s \<Longrightarrow> sound (bring_home w code now s)" "sound s \<Longrightarrow> sound (bring_home_quietly now s)"
  using beside_sound [OF home_always(7) at_rest_home(1)] beside_sound [OF home_always(8) at_rest_home(2)]
  by (simp_all add: sound_def)

lemma granted_home: "granted s \<Longrightarrow> granted (bring_home w code now s)" "granted s \<Longrightarrow> granted (bring_home_quietly now s)"
  using home_always(7) [of s w code now] home_always(8) [of s now]
  by (simp_all add: granted_def beside_def)

lemma sound_ended: "sound s \<Longrightarrow> sound (end_driven w code now s)"
  using beside_sound [OF ended_always(4) at_rest_ended] by (simp add: sound_def)

lemma ended_session [simp]:
  "ie_driving (end_driven w code now s) = None \<longleftrightarrow> ie_driving s = None"
  "map_option dg_node (ie_driving (end_driven w code now s)) = map_option dg_node (ie_driving s)"
  "is_driving (end_driven w code now s) node \<longleftrightarrow> is_driving s node"
  by (rule same_session [OF ended_always(2)])+

lemma granted_ended: "granted s \<Longrightarrow> granted (end_driven w code now s)"
  using ended_always(4) [of s w code now]
  unfolding granted_def ended_session ended_always by (simp add: beside_def)

lemma sound_release: "sound s \<Longrightarrow> sound (release_held w s)"
proof -
  have "at_rest (s\<lparr>ie_held := []\<rparr>)" if "at_rest s" using that by (simp add: at_rest_def capture_rests_def capture_on_def)
  then show "sound s \<Longrightarrow> sound (release_held w s)"
    using beside_sound [OF moves_beside(3) iffD2 [OF still_at_rest [OF release_held_still]]] by (simp add: sound_def)
qed

lemma granted_release: "granted s \<Longrightarrow> granted (release_held w s)"
proof -
  note r = release_held_still [of s w]
  have "session_of (release_held w s) = session_of s" using r by (simp add: still_def unmoved_def session_of_def)
  note d = same_session(2) [OF this]
  show "granted s \<Longrightarrow> granted (release_held w s)" using r unfolding granted_def d by (simp add: still_def unmoved_def)
qed

lemma wider_keeps: "wider s t \<Longrightarrow> sound s \<and> granted s \<longrightarrow> sound t \<and> granted t"
  using wider_sound wider_granted by blast

lemma not_driving:
  "ie_driving s = None \<Longrightarrow> \<not> is_driving s node" "ie_driven s = None \<Longrightarrow> \<not> is_driven s node"
  by (simp_all add: is_driving_def is_driven_def)

lemma wider_with: 
  assumes "wider s t"
  shows "is_driving t node \<longleftrightarrow> is_driving s node" and "is_driven t node \<longleftrightarrow> is_driven s node"
proof -
  have i: "is_driving u node \<longleftrightarrow> map_option dg_node (ie_driving u) = Some node"
    "is_driven u node \<longleftrightarrow> map_option dv_node (ie_driven u) = Some node" for u
    by (auto simp: is_driving_def is_driven_def split: option.splits)
  show "is_driving t node \<longleftrightarrow> is_driving s node" "is_driven t node \<longleftrightarrow> is_driven s node"
    unfolding i wider_same(1,2) [OF assms] by (rule refl)+
qed

text \<open>Taking down what a computer had with us ends both directions with it, and starts nothing.\<close>

lemma tear_down_keeps:
  shows "sound s \<Longrightarrow> sound (tear_down w node reason now s)" (is "_ \<Longrightarrow> sound ?t")
    and "granted s \<Longrightarrow> granted (tear_down w node reason now s)"
    and "\<not> is_driving (tear_down w node reason now s) node"
    and "\<not> is_driven (tear_down w node reason now s) node"
    and "is_driving (tear_down w node reason now s) n \<Longrightarrow> is_driving s n"
    and "is_driven (tear_down w node reason now s) n \<Longrightarrow> is_driven s n"
    and "dom (map_of (ie_peers (tear_down w node reason now s))) = dom (map_of (ie_peers s))"
    and "ie_settings (tear_down w node reason now s) = ie_settings s"
proof -
  define a where "a = mod_peer node forget_channel s"
  define b where "b = (if is_driving a node then bring_home w ''GONE'' now a else a)"
  define c where "c = (if is_driven b node then end_driven w None now b else b)"
  define d where "d = (case ie_dwell c of None \<Rightarrow> c | Some d \<Rightarrow> if sg_node_id (dw_seg d) = node then forget_dwell now c else c)"
  define e where "e = (case reason of None \<Rightarrow> d | Some r \<Rightarrow> mod_peer node (closure_problem r) d)"
  have t: "tear_down w node reason now s = dirty (apply_capture e)"
    unfolding tear_down_def Let_def e_def d_def c_def b_def a_def by (rule refl)
  have sa: "wider s a" by (simp add: a_def upd_peer_wider)
  have cd: "wider c d" by (auto simp: d_def split: option.splits)
  have "wider d e" by (auto simp: e_def split: option.splits)
  with cd have ce: "wider c e" by (rule wider_trans)
  have u: "wider (apply_capture e) (tear_down w node reason now s)" unfolding t by auto
  have b: "sound a \<Longrightarrow> sound b" "granted a \<Longrightarrow> granted b" by (simp_all add: b_def sound_home granted_home)
  have c: "sound b \<Longrightarrow> sound c" "granted b \<Longrightarrow> granted c" by (simp_all add: c_def sound_ended granted_ended)
  show "sound s \<Longrightarrow> sound (tear_down w node reason now s)"
    using wider_sound [OF sa] wider_sound [OF ce] wider_sound [OF u] b(1) c(1) apply_capture_keeps(1) by blast
  show "granted s \<Longrightarrow> granted (tear_down w node reason now s)"
    using wider_granted [OF sa] wider_granted [OF ce] wider_granted [OF u] b(2) c(2) apply_capture_keeps(2) by blast
  have cap: "is_driving (apply_capture e) n \<longleftrightarrow> is_driving e n" "is_driven (apply_capture e) n \<longleftrightarrow> is_driven e n" for n
    using apply_capture_still [of e] same_session(3) [of "apply_capture e" e n]
    by (simp_all add: is_driven_def still_def unmoved_def session_of_def)
  have ends: "is_driving (tear_down w node reason now s) n \<longleftrightarrow> is_driving c n"
    "is_driven (tear_down w node reason now s) n \<longleftrightarrow> is_driven c n" for n
    using wider_with [OF u] wider_with [OF ce] cap by simp_all
  have home: "is_driving b n \<longleftrightarrow> is_driving a n \<and> n \<noteq> node" "is_driven b n = is_driven a n" for n
    by (auto simp: b_def is_driving_def is_driven_def split: option.splits)
  have ended: "is_driving c n = is_driving b n" "is_driven c n \<longleftrightarrow> is_driven b n \<and> n \<noteq> node" for n
    by (simp add: c_def, auto simp: c_def is_driven_def split: option.splits)
  note as = wider_with [OF sa]
  show "\<not> is_driving (tear_down w node reason now s) node" "\<not> is_driven (tear_down w node reason now s) node"
    "is_driving (tear_down w node reason now s) n \<Longrightarrow> is_driving s n"
    "is_driven (tear_down w node reason now s) n \<Longrightarrow> is_driven s n"
    using ends home ended as by simp_all
  have mp: "dom (map_of (ie_peers (mod_peer n f s))) = dom (map_of (ie_peers s))" "ie_settings (mod_peer n f s) = ie_settings s" for n f s
    by (auto simp: mod_peer_def upd_peer_def)
  have ab: "ie_peers b = ie_peers a" "ie_settings b = ie_settings a" using home_always(7) [of a w "''GONE''" now] by (simp_all add: b_def beside_def)
  have bc: "ie_peers c = ie_peers b" "ie_settings c = ie_settings b" using ended_always(4) [of b w None now] by (simp_all add: c_def beside_def)
  have dc: "ie_peers d = ie_peers c" "ie_settings d = ie_settings c"
    using forget_dwell_still [of c now] by (auto simp: d_def still_def unmoved_def split: option.splits)
  have ed: "dom (map_of (ie_peers e)) = dom (map_of (ie_peers d))" "ie_settings e = ie_settings d"
    by (simp_all add: e_def mp split: option.splits)
  show "dom (map_of (ie_peers (tear_down w node reason now s))) = dom (map_of (ie_peers s))"
    "ie_settings (tear_down w node reason now s) = ie_settings s"
    using ab bc dc ed mp dirty_still [of "apply_capture e"] unfolding t a_def
    by (simp_all add: apply_capture_keeps still_def unmoved_def)
qed

section \<open>Channels and the directory\<close>

lemmas learners =
  call_still [THEN still_wider] dirty_still [THEN still_wider] effect_still [THEN still_wider]
  send_still [THEN still_wider] announce_still [THEN still_wider] emit_refused_still [THEN still_wider]
  refusal_windows_still [THEN still_wider] write_held_still [THEN still_wider] relearn_still [THEN still_wider]
  persist_still [THEN still_wider] upd_peer_wider refresh_caps_wider forget_dwell_wider wider_layout rebuild_wider
  republish_wider attach_wider sync_channels_wider on_pong_wider heard_wider remember_refusal_wider send_flow_wider
  flow_wider move_cursor_wider press_edge_wider keepalives_wider layout_rounds_wider emit_snapshot_wider

lemmas learners_sound = learners [THEN wider_sound]
lemmas learners_granted = learners [THEN wider_granted]

declare learners_sound [intro] learners_granted [intro]
declare apply_capture_keeps(1,2) [intro] sound_home [intro] granted_home [intro] sound_ended [intro] granted_ended [intro]
  sound_release [intro] granted_release [intro] tear_down_keeps(1,2) [intro]

lemma granted_elsewhere [simp]:
  "granted (s\<lparr>ie_directory := di\<rparr>) = granted s" "granted (s\<lparr>ie_plane := p\<rparr>) = granted s"
  "granted (s\<lparr>ie_open_due := b\<rparr>) = granted s" "granted (s\<lparr>ie_effects := es\<rparr>) = granted s"
  by (simp_all add: granted_def)

lemma sound_foldl: "(\<And>s x. sound s \<Longrightarrow> sound (f s x)) \<Longrightarrow> sound s \<Longrightarrow> sound (foldl f s xs)"
  by (induction xs arbitrary: s) auto

lemma granted_foldl: "(\<And>s x. granted s \<Longrightarrow> granted (f s x)) \<Longrightarrow> granted s \<Longrightarrow> granted (foldl f s xs)"
  by (induction xs arbitrary: s) auto

text \<open>Taking everything down leaves no session with any computer the engine knows.\<close>

lemma all_torn_down:
  assumes "is_driving (foldl (\<lambda>s q. tear_down w (fst q) None now s) s qs) n \<or>
           is_driven (foldl (\<lambda>s q. tear_down w (fst q) None now s) s qs) n"
  shows "n \<notin> fst ` set qs \<and> (is_driving s n \<or> is_driven s n)"
  using assms
proof (induction qs arbitrary: s)
  case (Cons q qs)
  then have "n \<notin> fst ` set qs" "is_driving (tear_down w (fst q) None now s) n \<or> is_driven (tear_down w (fst q) None now s) n"
    by auto
  moreover from this(2) have "n \<noteq> fst q" using tear_down_keeps(3,4) by metis
  moreover from calculation(2) have "is_driving s n \<or> is_driven s n" using tear_down_keeps(5,6) by metis
  ultimately show ?case by simp
qed simp

lemma end_everything_keeps:
  "sound s \<Longrightarrow> sound (end_everything w now s)" "granted s \<Longrightarrow> granted (end_everything w now s)"
  "granted s \<Longrightarrow> ie_driving (end_everything w now s) = None \<and> ie_driven (end_everything w now s) = None"
proof -
  show "sound s \<Longrightarrow> sound (end_everything w now s)" "granted s \<Longrightarrow> granted (end_everything w now s)"
    by (auto simp: end_everything_def intro: sound_foldl granted_foldl)
  assume g: "granted s"
  have keys: "n \<in> fst ` set (ie_peers s)" if "is_driving s n \<or> is_driven s n" for n
    using that g by (auto simp: granted_def is_driving_def is_driven_def dom_map_of_conv_image_fst [symmetric] split: option.splits)
  have "\<not> (is_driving (end_everything w now s) n \<or> is_driven (end_everything w now s) n)" for n
    using all_torn_down [of w now s "ie_peers s" n] keys by (auto simp: end_everything_def)
  then show "ie_driving (end_everything w now s) = None \<and> ie_driven (end_everything w now s) = None"
    by (cases "ie_driving (end_everything w now s)"; cases "ie_driven (end_everything w now s)")
      (auto simp: is_driving_def is_driven_def)
qed

lemma remove_peer_keeps:
  "sound s \<Longrightarrow> sound (remove_peer node s)"
  "granted s \<Longrightarrow> \<not> is_driving s node \<Longrightarrow> \<not> is_driven s node \<Longrightarrow> granted (remove_peer node s)"
  by (auto simp: remove_peer_def sound_def granted_def is_driving_def is_driven_def)

lemma set_own_engine_keeps:
  "sound s \<Longrightarrow> sound (s\<lparr>ie_plane := p\<rparr>)" "granted s \<Longrightarrow> granted (s\<lparr>ie_plane := p\<rparr>)"
  by simp_all

lemma set_directory_keeps:
  "sound s \<Longrightarrow> sound (set_directory w d now s)" "granted s \<Longrightarrow> granted (set_directory w d now s)"
proof -
  have gone: "sound s \<Longrightarrow> sound (foldl (\<lambda>s node. remove_peer node (tear_down w node None now s)) s ns)"
    "granted s \<Longrightarrow> granted (foldl (\<lambda>s node. remove_peer node (tear_down w node None now s)) s ns)" for ns
    by (rule sound_foldl granted_foldl; auto intro!: remove_peer_keeps simp: tear_down_keeps)+
  have reached: "sound s \<Longrightarrow> sound (foldl (\<lambda>s node. want_layout node s) s ns)"
    "granted s \<Longrightarrow> granted (foldl (\<lambda>s node. want_layout node s) s ns)" for s ns
    by (rule sound_foldl granted_foldl; auto)+
  show "sound s \<Longrightarrow> sound (set_directory w d now s)"
    using gone(1) by (auto simp: set_directory_def Let_def intro!: learners_sound reached split: option.splits prod.splits)
  show "granted s \<Longrightarrow> granted (set_directory w d now s)"
    using gone(2) by (auto simp: set_directory_def Let_def intro!: learners_granted reached split: option.splits prod.splits)
qed

lemma either_way:
  "(b \<Longrightarrow> sound x) \<Longrightarrow> (\<not> b \<Longrightarrow> sound y) \<Longrightarrow> sound (if b then x else y)"
  "(b \<Longrightarrow> granted x) \<Longrightarrow> (\<not> b \<Longrightarrow> granted y) \<Longrightarrow> granted (if b then x else y)"
  by simp_all

lemma granted_nobody: "ie_driving s = None \<Longrightarrow> ie_driven s = None \<Longrightarrow> granted s"
  by (simp add: granted_def)

lemma sound_settings: "sound s \<Longrightarrow> sound (s\<lparr>ie_settings := st\<rparr>)"
  by simp

lemma forget_peer_others:
  "n \<noteq> node \<Longrightarrow> allows (snd (forget_peer node st)) n = allows st n"
  "n \<noteq> node \<Longrightarrow> drives (snd (forget_peer node st)) n = drives st n"
  "ss_locked (snd (forget_peer node st)) = ss_locked st"
  by (simp_all add: forget_peer_def Let_def allows_def drives_def)

lemma on_revoked_keeps:
  "sound s \<Longrightarrow> sound (on_revoked w node s)"
  "granted s \<Longrightarrow> \<not> is_driving s node \<Longrightarrow> \<not> is_driven s node \<Longrightarrow> granted (on_revoked w node s)"
proof -
  obtain changed st where f: "forget_peer node (ie_settings s) = (changed, st)" by fastforce
  define a where "a = s\<lparr>ie_settings := st, ie_plane := plane_forget node (ie_plane s)\<rparr>"
  define b where "b = rebuild w (persist_plane (if changed then persist_settings a else a))"
  have t: "on_revoked w node s = remove_peer node b" by (simp add: on_revoked_def f a_def b_def)
  have ab: "wider a b" by (auto simp: b_def)
  show "sound s \<Longrightarrow> sound (on_revoked w node s)"
    using wider_sound [OF ab] by (simp add: t a_def remove_peer_keeps)
  assume g: "granted s" and no: "\<not> is_driving s node" "\<not> is_driven s node"
  have "granted a"
    using g no forget_peer_others [where node = node and st = "ie_settings s"]
    by (auto simp: granted_def a_def f is_driving_def is_driven_def)
  moreover have "\<not> is_driving b node" "\<not> is_driven b node"
    using no wider_with [OF ab] by (simp_all add: a_def is_driving_def is_driven_def)
  ultimately show "granted (on_revoked w node s)"
    using wider_granted [OF ab] by (simp add: t remove_peer_keeps)
qed

lemma on_account_left_keeps:
  "sound s \<Longrightarrow> sound (on_account_left w now s)" "granted s \<Longrightarrow> granted (on_account_left w now s)"
proof -
  obtain changed st where f: "forget_all_grants (ie_settings (end_everything w now s)) = (changed, st)" by fastforce
  define a where "a = (end_everything w now s)\<lparr>ie_settings := st\<rparr>"
  have t: "on_account_left w now s = (if changed then persist_settings a else a)"
    by (simp add: on_account_left_def f a_def Let_def)
  show "sound s \<Longrightarrow> sound (on_account_left w now s)" by (auto simp: t a_def intro!: learners_sound end_everything_keeps)
  assume "granted s"
  with end_everything_keeps(3) have "granted a" by (auto simp: a_def intro: granted_nobody)
  then show "granted (on_account_left w now s)" by (auto simp: t)
qed

lemma on_channel_closed_keeps:
  "sound s \<Longrightarrow> sound (on_channel_closed w node reason now s)"
  "granted s \<Longrightarrow> \<not> (reason = ''DEVICE_REVOKED'' \<and> just_attached s node now) \<Longrightarrow> granted (on_channel_closed w node reason now s)"
proof -
  define a where "a = (if just_attached s node now then s else tear_down w node (Some reason) now s)"
  have a: "sound s \<Longrightarrow> sound a" "granted s \<Longrightarrow> granted a" by (auto simp: a_def)
  show "sound s \<Longrightarrow> sound (on_channel_closed w node reason now s)"
    unfolding on_channel_closed_def Let_def a_def [symmetric]
    by (intro learners_sound either_way on_revoked_keeps on_account_left_keeps end_everything_keeps)
      (simp_all add: a)
  assume g: "granted s" and fresh: "\<not> (reason = ''DEVICE_REVOKED'' \<and> just_attached s node now)"
  have "granted (on_revoked w node a)" if "reason = ''DEVICE_REVOKED''"
    using that fresh a(2) [OF g] tear_down_keeps(3,4) by (auto intro!: on_revoked_keeps(2) simp: a_def)
  then show "granted (on_channel_closed w node reason now s)"
    unfolding on_channel_closed_def Let_def a_def [symmetric]
    by (intro learners_granted either_way on_account_left_keeps end_everything_keeps) (simp_all add: a g)
qed

section \<open>The driven half\<close>

lemma on_hi_keeps: "sound s \<Longrightarrow> sound (on_hi node caps plane s)" "granted s \<Longrightarrow> granted (on_hi node caps plane s)"
  by (auto simp: on_hi_def)

lemma sound_pressed: "sound s \<Longrightarrow> ie_driven s \<noteq> None \<Longrightarrow> sound (s\<lparr>ie_held := h\<rparr>)"
  by (auto simp: sound_def at_rest_def capture_rests_def capture_on_def)

lemma granted_held [simp]: "granted (s\<lparr>ie_held := h\<rparr>) = granted s"
  by (simp add: granted_def)

lemma apply_key_keeps:
  "sound s \<Longrightarrow> ie_driven s \<noteq> None \<Longrightarrow> sound (apply_key w node usage key sy down lock now s)"
  "granted s \<Longrightarrow> granted (apply_key w node usage key sy down lock now s)"
proof -
  obtain u k where r: "remapped_key (se_remap (settings_peer (ie_settings s) node)) usage key = (u, k)" by fastforce
  let ?m = "case ie_driven s of None \<Rightarrow> Typing | Some d \<Rightarrow> dv_keys d"
  obtain answer rv where f: "first_answer (dk_resolve w) (levels ?m u k sy) (ie_resolver s) = (answer, rv)" by fastforce
  define a where "a = s\<lparr>ie_resolver := rv\<rparr>"
  define res where "res = plan_stroke \<lparr>st_mode = ?m, st_answer = answer, st_down = down, st_lock = lock, st_sym = sy,
    st_unicode = ca_unicode (ie_caps a), st_group = ie_group a\<rparr> (ie_held a) (ie_mod_keys a)"
  have t: "apply_key w node usage key sy down lock now s =
     (if \<not> ca_inject_keys (ie_caps s) then s
      else case res of
        None \<Rightarrow> announce w node ''UNRESOLVED'' True now a
      | Some pl \<Rightarrow>
          if pl_actions pl = [] then a\<lparr>ie_held := pl_held pl\<rparr>
          else write_stranded w ((call (CInject (pl_actions pl)) (write_held w (held_absorb (ie_stranded a) (pl_peak pl)) a))
                 \<lparr>ie_held := pl_held pl\<rparr>))"
    unfolding apply_key_def r Let_def prod.case f res_def a_def by (rule refl)
  have sa: "wider s a" by (simp add: a_def)
  define b where "b pl = call (CInject (pl_actions pl)) (write_held w (held_absorb (ie_stranded a) (pl_peak pl)) a)" for pl :: plan
  have ab: "wider a (b pl)" for pl by (auto simp: b_def)
  have dv: "ie_driven s \<noteq> None \<Longrightarrow> ie_driven a \<noteq> None" "ie_driven s \<noteq> None \<Longrightarrow> ie_driven (b pl) \<noteq> None" for pl
    using wider_nones(2) [OF sa] wider_nones(2) [OF ab] by auto
  show "sound (apply_key w node usage key sy down lock now s)" if "sound s" "ie_driven s \<noteq> None"
  proof -
    have b: "sound (b pl)" "ie_driven (b pl) \<noteq> None" for pl
      using that wider_sound [OF sa] wider_sound [OF ab] dv by auto
    have a: "sound a" "ie_driven a \<noteq> None" using that wider_sound [OF sa] dv by auto
    have held: "sound (write_stranded w ((b pl)\<lparr>ie_held := pl_held pl\<rparr>))" for pl :: plan
      by (intro learners_sound sound_pressed b)
    show ?thesis
    proof (cases res)
      case (Some pl)
      then show ?thesis using that a held [of pl] unfolding t b_def by (simp add: sound_pressed)
    qed (simp add: t that a learners_sound)
  qed
  show "granted s \<Longrightarrow> granted (apply_key w node usage key sy down lock now s)"
    using wider_granted [OF sa] wider_granted [OF ab, unfolded b_def]
    by (auto simp: t intro!: learners_granted split: option.splits)
qed

text \<open>The computers the engine has met are not forgotten by a frame.\<close>

definition met :: "input_engine \<Rightarrow> string set" where
  "met s = dom (map_of (ie_peers s))"

lemma met_still: "still s t \<Longrightarrow> met t = met s" and met_beside: "beside s t \<Longrightarrow> met t = met s"
  and met_wider: "wider s t \<Longrightarrow> met s \<subseteq> met t"
  by (auto simp: met_def still_def beside_def wider_def)

lemma met_ends [simp]:
  "met (bring_home w code now s) = met s" "met (bring_home_quietly now s) = met s" "met (end_driven w c now s) = met s"
  "met (apply_capture s) = met s" "met (release_held w s) = met s" "met (confine_to r s) = met s"
  using met_beside [OF home_always(7)] met_beside [OF home_always(8)] met_beside [OF ended_always(4)] met_beside [OF moves_beside(1)]
    met_beside [OF moves_beside(3)] met_beside [OF moves_beside(2)] by simp_all

lemmas met_learns [simp] =
  call_still [THEN met_still] dirty_still [THEN met_still] send_still [THEN met_still] announce_still [THEN met_still]
  emit_refused_still [THEN met_still] relearn_still [THEN met_still] write_held_still [THEN met_still]

lemma met_elsewhere [simp]:
  "met (s\<lparr>ie_held := h\<rparr>) = met s" "met (s\<lparr>ie_driven := dv\<rparr>) = met s" "met (s\<lparr>ie_driving := dg\<rparr>) = met s"
  "met (s\<lparr>ie_resolver := rv\<rparr>) = met s"
  by (simp_all add: met_def)

lemma apply_key_met [simp]: "met (apply_key w node usage key sy down lock now s) = met s"
  by (simp add: apply_key_def Let_def split: prod.splits option.splits)

lemma inject_flow_keeps:
  "sound s \<Longrightarrow> ie_driven s \<noteq> None \<Longrightarrow> sound (inject_flow w node f now s)"
  "granted s \<Longrightarrow> granted (inject_flow w node f now s)" "met (inject_flow w node f now s) = met s"
  by (cases f; cases "pointer_action f"; auto simp: inject_flow_def apply_key_keeps)+

lemma apply_flow_keeps:
  "sound s \<Longrightarrow> sound (apply_flow w node f now s)" "granted s \<Longrightarrow> granted (apply_flow w node f now s)"
  "met (apply_flow w node f now s) = met s"
proof -
  have same: "wider s (s\<lparr>ie_driven := Some (d\<lparr>dv_last_n := n\<rparr>)\<rparr>)" if "ie_driven s = Some d" for d n
    using that by (simp add: wider_def grip_def)
  show "sound s \<Longrightarrow> sound (apply_flow w node f now s)"
    by (auto simp: apply_flow_def intro!: inject_flow_keeps wider_sound [OF same] split: option.splits)
  show "granted s \<Longrightarrow> granted (apply_flow w node f now s)"
    by (auto simp: apply_flow_def intro!: inject_flow_keeps wider_granted [OF same] split: option.splits)
  show "met (apply_flow w node f now s) = met s"
    by (simp add: apply_flow_def inject_flow_keeps split: option.splits)
qed

lemma start_refusal_None:
  assumes "start_refusal s node plane = None"
  shows "allows (ie_settings s) node" and "\<not> ss_locked (ie_settings s)" and "ie_driving s = None"
    and "plane = ie_plane_id s" and "can_be_driven (ie_caps s)"
    and "ie_driven s = None \<or> is_driven s node"
  using assms by (auto simp: start_refusal_def busy_with_def is_driven_def split: if_splits option.splits)

lemma on_start_keeps:
  "sound s \<Longrightarrow> sound (on_start w node session mode keys plane n x y now s)"
  "granted s \<Longrightarrow> node \<in> met s \<Longrightarrow> granted (on_start w node session mode keys plane n x y now s)"
  "met s \<subseteq> met (on_start w node session mode keys plane n x y now s)"
proof -
  define a where "a = (if ie_driven s \<noteq> None then end_driven w None now s else s)"
  define b where "b = relearn w (send_frame w node (FAccepted session) now a)"
  define c where "c = b\<lparr>ie_driven := Some \<lparr>dv_node = node, dv_session = session, dv_keys = keys, dv_mode = mode,
    dv_since_unix = dk_wall w, dv_last_frame = now, dv_last_n = saturating_dec n\<rparr>\<rparr>"
  have t: "on_start w node session mode keys plane n x y now s =
     dirty (if mode = FullMode \<and> ca_inject_pointer (ie_caps (apply_capture c))
            then call (CInject [AMoveTo (sint x) (sint y)]) (apply_capture c) else apply_capture c)"
    if "start_refusal s node plane = None"
    unfolding on_start_def that option.case Let_def c_def b_def a_def by (rule refl)
  have ab: "wider a b" by (auto simp: b_def)
  have as: "ie_settings a = ie_settings s" "met a = met s" "ie_driven a = None"
    using ended_always(4) [of s w None now] by (simp_all add: a_def beside_def)
  have ad: "ie_driving a = None \<longleftrightarrow> ie_driving s = None" by (simp add: a_def)
  have bs: "ie_settings b = ie_settings s" "met b = met s"
    using wider_same(6) [OF ab] as by (simp_all add: b_def)
  have bd: "ie_driving b = None \<longleftrightarrow> ie_driving s = None" "ie_driven b = None" using wider_nones [OF ab] ad as by simp_all
  note refused = start_refusal_None [of s node plane]
  show "sound (on_start w node session mode keys plane n x y now s)" if s: "sound s"
  proof (cases "start_refusal s node plane")
    case None
    have "sound a" using s by (auto simp: a_def)
    then have b: "sound b" by (rule wider_sound [OF ab])
    then have "at_rest (apply_capture c)"
      using refused(3) [OF None] bd by (intro apply_capture_rest) (auto simp: c_def sound_def at_rest_def)
    moreover have "beside c (apply_capture c)" by (rule moves_beside)
    ultimately have "sound (apply_capture c)" using b by (simp add: sound_def beside_def c_def)
    then show ?thesis unfolding t [OF None] by (auto intro!: learners_sound)
  next
    case (Some r)
    then show ?thesis using s by (cases r) (auto simp: on_start_def Let_def intro!: learners_sound)
  qed
  show "granted (on_start w node session mode keys plane n x y now s)" if g: "granted s" and m: "node \<in> met s"
  proof (cases "start_refusal s node plane")
    case None
    have "granted c" using refused [OF None] bd bs m by (auto simp: granted_def c_def met_def)
    then show ?thesis unfolding t [OF None] by (auto intro!: learners_granted)
  next
    case (Some r)
    then show ?thesis using g by (cases r) (auto simp: on_start_def Let_def intro!: learners_granted)
  qed
  show "met s \<subseteq> met (on_start w node session mode keys plane n x y now s)"
  proof (cases "start_refusal s node plane")
    case None
    show ?thesis unfolding t [OF None] using bs by (simp add: c_def)
  next
    case (Some r)
    have "met s \<subseteq> met (want_layout node (send_frame w node (FRefused session code holder) now s))" for code holder
      using met_wider [OF wider_layout(1)] by fastforce
    then show ?thesis using Some by (cases r) (auto simp: on_start_def Let_def)
  qed
qed

lemma confine_keeps:
  "sound s \<Longrightarrow> ie_driving s \<noteq> None \<or> r = None \<Longrightarrow> sound (confine_to r s)" "granted s \<Longrightarrow> granted (confine_to r s)"
  by (auto simp: confine_to_def call_def sound_def at_rest_def capture_rests_def capture_on_def granted_def)

lemma on_accepted_keeps:
  "sound s \<Longrightarrow> sound (on_accepted node session now s)" "granted s \<Longrightarrow> granted (on_accepted node session now s)"
  "met s \<subseteq> met (on_accepted node session now s)"
proof -
  define a where "a d = mod_peer node (\<lambda>p. p\<lparr>pr_problem := None, pr_last_pong := Some now, pr_take := None\<rparr>)
    (s\<lparr>ie_driving := Some (d\<lparr>dg_accepted := True, dg_tokens := 1, dg_tokens_at := now\<rparr>)\<rparr>)" for d :: driving
  define b where "b d = (if dg_mode d = FullMode
     then (case map_of (gr_placed (ie_graph (a d))) (dg_from d) of
             None \<Rightarrow> a d
           | Some p \<Rightarrow> confine_to (Some \<lparr>rc_x = mo_x (pc_own p), rc_y = mo_y (pc_own p),
               rc_w = mo_w (pc_own p), rc_h = mo_h (pc_own p)\<rparr>) (a d)) else a d)" for d
  have t: "on_accepted node session now s = dirty (apply_capture (b d))"
    if "ie_driving s = Some d" "\<not> (dg_node d \<noteq> node \<or> dg_session d \<noteq> session \<or> dg_accepted d)" for d
    unfolding on_accepted_def that(1) option.case Let_def b_def a_def using that(2) by simp
  have sa: "wider s (a d)" if "ie_driving s = Some d" for d
    unfolding a_def by (rule wider_trans [OF _ upd_peer_wider(2)]) (use that in \<open>simp add: wider_def grip_def\<close>)
  have ad: "ie_driving (a d) \<noteq> None" for d by (simp add: a_def mod_peer_def upd_peer_def)
  have b: "sound (a d) \<Longrightarrow> sound (b d)" "granted (a d) \<Longrightarrow> granted (b d)" "met (b d) = met (a d)" for d
    using ad [of d] by (auto simp: b_def intro!: confine_keeps split: option.splits)
  have other: "on_accepted node session now s = s"
    if "ie_driving s = Some d" "dg_node d \<noteq> node \<or> dg_session d \<noteq> session \<or> dg_accepted d" for d
    using that by (auto simp: on_accepted_def)
  have "(sound s \<longrightarrow> sound (on_accepted node session now s)) \<and> (granted s \<longrightarrow> granted (on_accepted node session now s)) \<and>
      met s \<subseteq> met (on_accepted node session now s)" if d: "ie_driving s = Some d" for d
  proof (cases "dg_node d \<noteq> node \<or> dg_session d \<noteq> session \<or> dg_accepted d")
    case True
    then show ?thesis using other [OF d True] by simp
  next
    case False
    show ?thesis
      using b [of d] wider_sound [OF sa [OF d]] wider_granted [OF sa [OF d]] met_wider [OF sa [OF d]]
      unfolding t [OF d False] by (auto intro!: learners_sound learners_granted)
  qed
  moreover have "on_accepted node session now s = s" if "ie_driving s = None" using that by (simp add: on_accepted_def)
  ultimately show "sound s \<Longrightarrow> sound (on_accepted node session now s)"
    "granted s \<Longrightarrow> granted (on_accepted node session now s)" "met s \<subseteq> met (on_accepted node session now s)"
    by (cases "ie_driving s"; auto)+
qed

lemma on_refused_keeps:
  "sound s \<Longrightarrow> sound (on_refused node session code now s)" "granted s \<Longrightarrow> granted (on_refused node session code now s)"
  "met s \<subseteq> met (on_refused node session code now s)"
proof -
  show "sound s \<Longrightarrow> sound (on_refused node session code now s)"
    by (auto simp: on_refused_def Let_def intro!: learners_sound sound_home split: option.splits)
  show "granted s \<Longrightarrow> granted (on_refused node session code now s)"
    by (auto simp: on_refused_def Let_def intro!: learners_granted granted_home split: option.splits)
  have "met s \<subseteq> met (remember_refusal node code now (bring_home_quietly now s))"
    using met_wider [OF remember_refusal_wider, of "bring_home_quietly now s"] by simp
  moreover have "met t \<subseteq> met (want_layout node t)" for t by (rule met_wider [OF wider_layout(1)])
  ultimately show "met s \<subseteq> met (on_refused node session code now s)"
    by (cases "code = ''PLANE_STALE''") (simp_all add: on_refused_def Let_def order_trans split: option.splits)
qed

lemma on_over_keeps:
  "sound s \<Longrightarrow> sound (on_over w node session code now s)" "granted s \<Longrightarrow> granted (on_over w node session code now s)"
  "met s \<subseteq> met (on_over w node session code now s)"
proof -
  show "sound s \<Longrightarrow> sound (on_over w node session code now s)"
    by (cases code) (auto simp: on_over_def intro!: learners_sound sound_home sound_ended)
  show "granted s \<Longrightarrow> granted (on_over w node session code now s)"
    by (cases code) (auto simp: on_over_def intro!: learners_granted granted_home granted_ended)
  show "met s \<subseteq> met (on_over w node session code now s)"
    using met_wider [OF remember_refusal_wider, of s] by (cases code) (auto simp: on_over_def)
qed

lemma on_frame_keeps:
  "sound s \<Longrightarrow> sound (on_frame w node f now s)" "granted s \<Longrightarrow> node \<in> met s \<Longrightarrow> granted (on_frame w node f now s)"
  "met s \<subseteq> met (on_frame w node f now s)"
proof -
  note h = heard_wider [of s node now]
  note learnt = learners_sound learners_granted apply_flow_keeps on_start_keeps on_accepted_keeps on_refused_keeps on_over_keeps
  note sh = wider_sound [OF h] and gh = wider_granted [OF h] and mh = met_wider [OF h]
  show "sound s \<Longrightarrow> sound (on_frame w node f now s)"
    by (cases f) (auto simp: on_frame_def Let_def intro!: learnt sh)
  show "granted s \<Longrightarrow> node \<in> met s \<Longrightarrow> granted (on_frame w node f now s)"
    using subsetD [OF mh, of node] by (cases f) (auto simp: on_frame_def Let_def intro!: learnt gh)
  have grows: "met s \<subseteq> met t" if "met (heard node now s) \<subseteq> met t" for t using mh that by blast
  show "met s \<subseteq> met (on_frame w node f now s)"
    by (cases f) (auto simp: on_frame_def Let_def apply_flow_keeps
        intro!: grows [THEN subsetD] on_start_keeps on_accepted_keeps on_refused_keeps on_over_keeps on_pong_wider [THEN met_wider])
qed

lemma on_hi_met: "node \<in> met (on_hi node caps plane s)" "met s \<subseteq> met (on_hi node caps plane s)"
proof -
  let ?p = "upd_peer node (\<lambda>p. p\<lparr>pr_hi := Some \<lparr>hi_caps = caps_from_value caps, hi_plane = plane\<rparr>, pr_link := LinkWarm,
     pr_problem := None, pr_last_ping := None\<rparr>) s"
  have "node \<in> met ?p" "met s \<subseteq> met ?p" by (auto simp: met_def upd_peer_def)
  moreover have "met ?p \<subseteq> met (want_layout node ?p)" by (rule met_wider [OF wider_layout(1)])
  ultimately show "node \<in> met (on_hi node caps plane s)" "met s \<subseteq> met (on_hi node caps plane s)"
    by (auto simp: on_hi_def)
qed

lemma on_batch_keeps:
  "(sound s \<longrightarrow> sound (on_batch w node now fs s)) \<and>
   (granted s \<longrightarrow> node \<in> met s \<longrightarrow> granted (on_batch w node now fs s))"
proof (induction w node now fs s rule: on_batch.induct)
  case (2 w node now f fs s)
  define t where "t = (case f of FHi _ caps plane \<Rightarrow> on_hi node caps plane s
    | _ \<Rightarrow> if is_position f \<and> (case fs of [] \<Rightarrow> False | g # _ \<Rightarrow> is_position g) then s else on_frame w node f now s)"
  have e: "on_batch w node now (f # fs) s = on_batch w node now fs t" by (simp add: t_def)
  have "sound s \<Longrightarrow> sound t" "granted s \<Longrightarrow> node \<in> met s \<Longrightarrow> granted t" "node \<in> met s \<Longrightarrow> node \<in> met t"
    unfolding t_def
    by (cases f; auto intro: on_frame_keeps on_hi_keeps on_hi_met subsetD [OF on_frame_keeps(3)])+
  with 2 show ?case
    unfolding e t_def [symmetric] by blast+
qed simp_all

lemma on_frames_keeps:
  "sound s \<Longrightarrow> sound (on_frames w node batch now s)" "granted s \<Longrightarrow> granted (on_frames w node batch now s)"
proof -
  note b = on_batch_keeps [of s w node now "List.map_filter (decode_frame (dk_size w)) batch"]
  show "sound s \<Longrightarrow> sound (on_frames w node batch now s)" using b by (auto simp: on_frames_def)
  assume g: "granted s"
  show "granted (on_frames w node batch now s)"
  proof (cases "handshaken s node")
    case True
    then have "node \<in> met s" by (auto simp: handshaken_def met_def split: option.splits)
    with b g show ?thesis by (auto simp: on_frames_def)
  next
    case False
    show ?thesis
    proof (cases batch)
      case (Cons v vs)
      have "granted (on_batch w node now (f # fs) s)" if h: "is_hi f" for f fs
      proof -
        obtain ver caps plane where f: "f = FHi ver caps plane" using h by (cases f) auto
        have "granted (on_hi node caps plane s)" "node \<in> met (on_hi node caps plane s)" using g on_hi_keeps(2) on_hi_met(1) by auto
        then show ?thesis using on_batch_keeps by (simp add: f)
      qed
      then show ?thesis
        using g Cons False by (auto simp: on_frames_def List.map_filter_simps split: option.splits)
    qed (use g False in \<open>auto simp: on_frames_def\<close>)
  qed
qed

section \<open>The driving half\<close>

lemma start_session_keeps:
  "sound s \<Longrightarrow> sound (snd (start_session w node asked cursor k j home entry now s))"
  "granted s \<Longrightarrow> granted (snd (start_session w node asked cursor k j home entry now s))"
proof -
  let ?r = "snd (start_session w node asked cursor k j home entry now s)"
  have "(sound s \<longrightarrow> sound ?r) \<and> (granted s \<longrightarrow> granted ?r)"
  proof (cases "ie_driving s \<noteq> None \<or> ie_driven s \<noteq> None \<or> \<not> can_drive (ie_caps s) \<or> \<not> drives (ie_settings s) node")
    case False
    show ?thesis
    proof (cases "map_of (ie_peers s) node")
      case (Some p)
      show ?thesis
      proof (cases "pr_link p \<noteq> LinkWarm \<or> \<not> pr_out p")
        case warm: False
        define a where "a = send_frame w node (FStart (pr_next_session p) (session_mode p asked)
          (se_mode (settings_peer (ie_settings s) node)) (ie_plane_id s) 1 (word_of_int (fst entry)) (word_of_int (snd entry))) now
          (upd_peer node (\<lambda>q. q\<lparr>pr_next_session := saturating_inc (pr_next_session p)\<rparr>) s)"
        have a: "wider s a" by (auto simp: a_def)
        define d where "d = \<lparr>dg_node = node, dg_session = pr_next_session p, dg_mode = session_mode p asked, dg_accepted = False,
          dg_since = now, dg_since_unix = dk_wall w, dg_cursor = cursor, dg_on = k, dg_from = j, dg_home = home,
          dg_n = 1, dg_pending = None, dg_tokens = 1, dg_tokens_at = now, dg_out_tokens = OUT_RATE_MAX / 10, dg_out_at = now\<rparr>"
        have d: "dg_node d = node" by (simp add: d_def)
        have r: "?r = dirty (a\<lparr>ie_driving := Some d\<rparr>)"
          using False Some warm by (simp add: start_session_def Let_def a_def d_def upd_peer_def)
        have none: "ie_driving a = None" "ie_driven a = None" using False wider_nones [OF a] by auto
        have "sound (a\<lparr>ie_driving := Some d\<rparr>)" if "sound a"
          using that none by (auto simp: sound_def at_rest_def capture_rests_def capture_on_def)
        moreover have "granted (a\<lparr>ie_driving := Some d\<rparr>)" if "granted a"
          using that none False Some d wider_same(6) [OF a] met_wider [OF a] by (auto simp: granted_def met_def)
        ultimately show ?thesis
          using wider_sound [OF a] wider_granted [OF a] by (auto simp: r intro!: learners_sound learners_granted)
      qed (use False Some in \<open>simp add: start_session_def\<close>)
    qed (use False in \<open>simp add: start_session_def\<close>)
  qed (simp add: start_session_def)
  then show "sound s \<Longrightarrow> sound ?r" "granted s \<Longrightarrow> granted ?r" by simp_all
qed

declare start_session_keeps [intro]

lemma parked_takes_keeps:
  "sound s \<Longrightarrow> sound (parked_takes w now s)" "granted s \<Longrightarrow> granted (parked_takes w now s)"
proof -
  have "sound s \<Longrightarrow> sound (parked_take w now s q)" "granted s \<Longrightarrow> granted (parked_take w now s q)" for s q
    by (auto simp: parked_take_def Let_def split: prod.splits option.splits)
  then show "sound s \<Longrightarrow> sound (parked_takes w now s)" "granted s \<Longrightarrow> granted (parked_takes w now s)"
    by (auto simp: parked_takes_def intro: sound_foldl granted_foldl)
qed

lemma crossing_keeps:
  "sound s \<Longrightarrow> sound (crossing w now s)" "granted s \<Longrightarrow> granted (crossing w now s)"
  by (auto simp: crossing_def cross_over_def Let_def split: option.splits prod.splits)

lemma session_field:
  "ie_driving s = Some d \<Longrightarrow> dg_node d' = dg_node d \<Longrightarrow> wider s (s\<lparr>ie_driving := Some d'\<rparr>)"
  by (simp add: wider_def grip_def)

lemma integrate_keeps:
  "sound s \<Longrightarrow> sound (integrate w dx dy now s)" "granted s \<Longrightarrow> granted (integrate w dx dy now s)"
proof -
  have "wider s (move_cursor w x y now (s\<lparr>ie_driving := Some (d\<lparr>dg_on := k\<rparr>)\<rparr>))" if "ie_driving s = Some d" for d k x y
    by (rule wider_trans [OF session_field [OF that] move_cursor_wider(1)]) simp
  note moved = this [THEN wider_sound] this [THEN wider_granted]
  have over: "sound s \<longrightarrow> sound (case map_of m k of None \<Rightarrow> s | Some q \<Rightarrow> snd (start_session w n asked c a j h (to_own q nx ny) now (bring_home w r now s)))"
    "granted s \<longrightarrow> granted (case map_of m k of None \<Rightarrow> s | Some q \<Rightarrow> snd (start_session w n asked c a j h (to_own q nx ny) now (bring_home w r now s)))"
    for m k n asked c a j h nx ny r
    by (auto split: option.splits)
  show "sound s \<Longrightarrow> sound (integrate w dx dy now s)" "granted s \<Longrightarrow> granted (integrate w dx dy now s)"
    by (simp_all add: integrate_def Let_def over moved learners_sound learners_granted sound_home granted_home split: option.split)
qed

lemma on_motion_keeps:
  "sound s \<Longrightarrow> sound (on_motion w m now s)" "granted s \<Longrightarrow> granted (on_motion w m now s)"
proof -
  have e: "sound (s\<lparr>ie_last_pointer := lp\<rparr>) = sound s" "granted (s\<lparr>ie_last_pointer := lp\<rparr>) = granted s" for lp
    by (simp_all add: sound_def granted_def)
  show "sound s \<Longrightarrow> sound (on_motion w m now s)" "granted s \<Longrightarrow> granted (on_motion w m now s)"
    by (auto simp: on_motion_def Let_def e intro!: integrate_keeps crossing_keeps split: option.splits prod.splits edge_answer.splits)
qed

lemma next_n_wider: "wider s (snd (next_n s))"
  by (simp add: next_n_def wider_def grip_def split: option.splits)

lemma own_input_wider:
  "wider s (on_pointer_event w f now s)"
proof -
  have "wider s (snd (next_n (flush_pending w now s)))" by (rule wider_trans [OF flow_wider(2) next_n_wider])
  then show ?thesis by (auto simp: on_pointer_event_def split: option.splits prod.splits)
qed

lemma on_key_keeps: "sound s \<Longrightarrow> sound (on_key w e now s)" "granted s \<Longrightarrow> granted (on_key w e now s)"
proof -
  let ?s = "s\<lparr>ie_mods_held := ke_mods e\<rparr>"
  have e: "sound ?s = sound s" "granted ?s = granted s" by (simp_all add: sound_def granted_def)
  have "wider ?s (snd (next_n (flush_pending w now ?s)))" by (rule wider_trans [OF flow_wider(2) next_n_wider])
  from wider_sound [OF this] wider_granted [OF this] e
  show "sound s \<Longrightarrow> sound (on_key w e now s)" "granted s \<Longrightarrow> granted (on_key w e now s)"
    by (auto simp: on_key_def Let_def split: option.splits prod.splits)
qed

lemma platform_changes_keep:
  "sound s \<Longrightarrow> sound (on_monitors_changed w s)" "granted s \<Longrightarrow> granted (on_monitors_changed w s)"
  "sound s \<Longrightarrow> sound (on_layout_changed w layout grp s)" "granted s \<Longrightarrow> granted (on_layout_changed w layout grp s)"
  "sound s \<Longrightarrow> sound (on_capabilities_changed w now s)" "granted s \<Longrightarrow> granted (on_capabilities_changed w now s)"
  "sound s \<Longrightarrow> sound (on_capture_lost w now s)" "granted s \<Longrightarrow> granted (on_capture_lost w now s)"
proof -
  have e: "sound (s\<lparr>ie_monitors := ms\<rparr>) = sound s" "granted (s\<lparr>ie_monitors := ms\<rparr>) = granted s"
    "sound (s\<lparr>ie_layout := la, ie_group := gr\<rparr>) = sound s" "granted (s\<lparr>ie_layout := la, ie_group := gr\<rparr>) = granted s"
    "sound (s\<lparr>ie_mod_keys := mk, ie_resolver := r\<rparr>) = sound s" "granted (s\<lparr>ie_mod_keys := mk, ie_resolver := r\<rparr>) = granted s"
    "granted (s\<lparr>ie_capture := None, ie_capture_sent := None\<rparr>) = granted s"
    for s ms la gr mk r by (simp_all add: sound_def granted_def at_rest_def capture_rests_def capture_on_def)
  show "sound s \<Longrightarrow> sound (on_monitors_changed w s)" "granted s \<Longrightarrow> granted (on_monitors_changed w s)"
    by (auto simp: on_monitors_changed_def e intro!: learners_sound learners_granted apply_capture_keeps)
  show "sound s \<Longrightarrow> sound (on_layout_changed w layout grp s)" "granted s \<Longrightarrow> granted (on_layout_changed w layout grp s)"
    by (auto simp: on_layout_changed_def e Let_def intro!: sound_release granted_release split: prod.splits)
  show "sound s \<Longrightarrow> sound (on_capabilities_changed w now s)" "granted s \<Longrightarrow> granted (on_capabilities_changed w now s)"
    unfolding on_capabilities_changed_def Let_def
    by (intro learners_sound learners_granted apply_capture_keeps either_way sound_home granted_home sound_ended granted_ended; assumption)+
  have c: "sound (s\<lparr>ie_capture := None, ie_capture_sent := None\<rparr>)" if "sound s" for s
    using that by (auto simp: sound_def at_rest_def capture_rests_def capture_on_def)
  show "sound s \<Longrightarrow> sound (on_capture_lost w now s)" "granted s \<Longrightarrow> granted (on_capture_lost w now s)"
    by (auto simp: on_capture_lost_def Let_def e intro!: learners_sound learners_granted apply_capture_keeps c sound_home granted_home)
qed

lemma on_backend_keeps: "sound s \<Longrightarrow> sound (on_backend w e now s)" "granted s \<Longrightarrow> granted (on_backend w e now s)"
proof -
  note own = own_input_wider [THEN wider_sound] own_input_wider [THEN wider_granted]
  show "sound s \<Longrightarrow> sound (on_backend w e now s)" "granted s \<Longrightarrow> granted (on_backend w e now s)"
    by (cases e; auto simp: on_backend_def on_backend_refusal_def
        intro!: platform_changes_keep on_key_keeps on_motion_keeps own split: option.splits)+
qed

section \<open>The pump and the peers' documents\<close>

lemma watchdogs_keeps: "sound s \<Longrightarrow> sound (watchdogs w now s)" "granted s \<Longrightarrow> granted (watchdogs w now s)"
  by (auto simp: watchdogs_def Let_def)

lemma pump_keeps: "sound s \<Longrightarrow> sound (pump_input w now s)" "granted s \<Longrightarrow> granted (pump_input w now s)"
  by (auto simp: pump_input_def intro!: learners_sound learners_granted crossing_keeps watchdogs_keeps parked_takes_keeps)

lemma on_peer_message_keeps:
  "sound s \<Longrightarrow> sound (on_peer_message w node v s)" "granted s \<Longrightarrow> granted (on_peer_message w node v s)"
  by (auto simp: on_peer_message_def Let_def intro!: learners_sound learners_granted apply_capture_keeps split: prod.splits)

section \<open>Gestures\<close>

text \<open>What a setter leaves of the permissions: all of them, but for the one it is about.\<close>

definition permits :: "settings \<Rightarrow> settings \<Rightarrow> bool" where
  "permits st st' \<longleftrightarrow>
     (\<forall>n. allows st n \<longrightarrow> allows st' n) \<and> (\<forall>n. drives st n \<longrightarrow> drives st' n) \<and> ss_locked st' = ss_locked st"

lemma permits_refl [simp]: "permits st st"
  by (simp add: permits_def)

lemma permits_trans: "permits a b \<Longrightarrow> permits b c \<Longrightarrow> permits a c"
  by (simp add: permits_def)

lemma granted_permits: "granted s \<Longrightarrow> permits (ie_settings s) st \<Longrightarrow> granted (s\<lparr>ie_settings := st\<rparr>)"
  by (simp add: granted_def permits_def)

lemma update_peer_others:
  assumes "n \<noteq> node"
  shows "allows (snd (update_peer node f st)) n = allows st n" and "drives (snd (update_peer node f st)) n = drives st n"
  using assms by (auto simp: update_peer_def allows_def drives_def Let_def split: prod.splits)

lemma update_peer_locked: "ss_locked (snd (update_peer node f st)) = ss_locked st"
  by (simp add: update_peer_def split: prod.splits)

lemma update_peer_at:
  "allows (snd (update_peer node f st)) node = allows st node \<or>
   allows (snd (update_peer node f st)) node = se_allow (snd (f (settings_peer st node)))"
  "drives (snd (update_peer node f st)) node = drives st node \<or>
   drives (snd (update_peer node f st)) node = se_drive (snd (f (settings_peer st node)))"
  by (auto simp: update_peer_def allows_def drives_def peer_settings_default_def split: prod.splits)

lemma peer_flags: "se_allow (settings_peer st node) = allows st node" "se_drive (settings_peer st node) = drives st node"
  by (simp_all add: settings_peer_def allows_def drives_def peer_settings_default_def split: option.splits)

lemma update_peer_leaves:
  "(\<And>p. se_allow p \<Longrightarrow> se_allow (snd (f p))) \<Longrightarrow> allows st n \<Longrightarrow> allows (snd (update_peer node f st)) n"
  "(\<And>p. se_drive p \<Longrightarrow> se_drive (snd (f p))) \<Longrightarrow> drives st n \<Longrightarrow> drives (snd (update_peer node f st)) n"
  using update_peer_others [of n node f st] update_peer_at [of node f st] peer_flags [of st node]
  by (cases "n = node"; auto)+

lemma update_peer_permits:
  "(\<And>p. se_allow p \<Longrightarrow> se_allow (snd (f p))) \<Longrightarrow> (\<And>p. se_drive p \<Longrightarrow> se_drive (snd (f p))) \<Longrightarrow>
     permits st (snd (update_peer node f st))"
  unfolding permits_def by (intro conjI allI impI update_peer_leaves update_peer_locked)

lemma set_guards_permits: "permits st (snd (set_guards a b sd g st))"
  by (auto simp: set_guards_def permits_def allows_def drives_def Let_def)

lemma set_guards_steps_permit: "permits (snd acc) (snd (foldl (set_guards_step sd g) acc pairs))"
proof (induction pairs arbitrary: acc)
  case (Cons q qs)
  have "snd (set_guards_step sd g acc q) = snd (set_guards (fst q) (snd q) sd g (snd acc))"
    by (simp add: set_guards_step_def split: prod.splits applied.splits)
  with set_guards_permits permits_trans Cons.IH show ?case by (metis foldl_Cons)
qed simp

lemma with_setting_result:
  "snd (with_setting f rest s) =
     (case f (ie_settings s) of
        (SetRefused, st) \<Rightarrow> s\<lparr>ie_settings := st\<rparr>
      | (SetChanged, st) \<Rightarrow> rest (dirty (persist_settings (s\<lparr>ie_settings := st\<rparr>)))
      | (SetUnchanged, st) \<Rightarrow> rest (s\<lparr>ie_settings := st\<rparr>))"
  by (simp add: with_setting_def settle_def done_with_def split: prod.splits applied.splits sum.splits)

lemma with_setting_keeps:
  assumes "\<And>t. sound t \<Longrightarrow> sound (rest t)" and "sound s"
  shows "sound (snd (with_setting f rest s))"
proof -
  obtain a st where f: "f (ie_settings s) = (a, st)" by fastforce
  have "sound (s\<lparr>ie_settings := st\<rparr>)" using assms(2) by simp
  then have "sound (dirty (persist_settings (s\<lparr>ie_settings := st\<rparr>)))" by (intro learners_sound)
  then show ?thesis using assms by (cases a) (simp_all add: with_setting_result f)
qed

lemma with_setting_granted:
  assumes refused: "\<And>st. f (ie_settings s) = (SetRefused, st) \<Longrightarrow> permits (ie_settings s) st"
    and rest: "\<And>t. wider (s\<lparr>ie_settings := snd (f (ie_settings s))\<rparr>) t \<Longrightarrow> granted (rest t)" and "granted s"
  shows "granted (snd (with_setting f rest s))"
proof -
  obtain a st where f: "f (ie_settings s) = (a, st)" by fastforce
  have "wider (s\<lparr>ie_settings := st\<rparr>) (dirty (persist_settings (s\<lparr>ie_settings := st\<rparr>)))" by auto
  then show ?thesis
    using refused rest f granted_permits [OF assms(3)] by (cases a) (simp_all add: with_setting_result)
qed

text \<open>The two halves of the grants, and how either survives the end of the other's session.\<close>

definition driven_granted :: "input_engine \<Rightarrow> bool" where
  "driven_granted s \<longleftrightarrow>
     (\<forall>node. map_option dv_node (ie_driven s) = Some node \<longrightarrow>
        allows (ie_settings s) node \<and> \<not> ss_locked (ie_settings s) \<and> node \<in> met s)"

definition driving_granted :: "input_engine \<Rightarrow> bool" where
  "driving_granted s \<longleftrightarrow>
     (\<forall>node. map_option dg_node (ie_driving s) = Some node \<longrightarrow> drives (ie_settings s) node \<and> node \<in> met s)"

lemma granted_halves: "granted s \<longleftrightarrow> driven_granted s \<and> driving_granted s"
  by (simp add: granted_def driven_granted_def driving_granted_def met_def)

lemma wider_halves:
  assumes "wider s t"
  shows "driven_granted s \<Longrightarrow> driven_granted t" and "driving_granted s \<Longrightarrow> driving_granted t"
  using met_wider [OF assms] unfolding driven_granted_def driving_granted_def wider_same(1,2,6) [OF assms] by blast+

lemma driving_half_ends: "driving_granted s \<Longrightarrow> granted (end_driven w c now s)"
  using ended_always(4) [of s w c now]
  unfolding granted_halves driven_granted_def driving_granted_def ended_session ended_always(1) met_ends
  by (simp add: beside_def del: map_option_eq_Some)

lemma driven_half_home: "driven_granted s \<Longrightarrow> granted (bring_home w c now s)"
  using home_always(7) [of s w c now]
  unfolding granted_halves driven_granted_def driving_granted_def home_always met_ends
  by (simp add: beside_def del: map_option_eq_Some)

lemma set_allow_facts:
  "drives st n \<Longrightarrow> drives (snd (set_allow node b st)) n" "n \<noteq> node \<Longrightarrow> allows (snd (set_allow node b st)) n = allows st n"
  "ss_locked (snd (set_allow node b st)) = ss_locked st" "b \<Longrightarrow> permits st (snd (set_allow node b st))"
  by (simp_all add: set_allow_def update_peer_others update_peer_locked update_peer_leaves update_peer_permits)

lemma set_drive_facts:
  "allows st n \<Longrightarrow> allows (snd (set_drive node b m st)) n" "n \<noteq> node \<Longrightarrow> drives (snd (set_drive node b m st)) n = drives st n"
  "ss_locked (snd (set_drive node b m st)) = ss_locked st" "b \<Longrightarrow> permits st (snd (set_drive node b m st))"
  by (simp_all add: set_drive_def update_peer_others update_peer_locked update_peer_leaves update_peer_permits)

lemma update_refused: "update_peer node f st = (SetRefused, st') \<Longrightarrow> st' = st"
  by (auto simp: update_peer_def split: if_splits prod.splits)

lemma set_refused:
  "set_allow node b st = (SetRefused, st') \<Longrightarrow> st' = st" "set_drive node b m st = (SetRefused, st') \<Longrightarrow> st' = st"
  by (auto simp: set_allow_def set_drive_def dest: update_refused)

lemma is_driven_alt: "is_driven s node \<longleftrightarrow> map_option dv_node (ie_driven s) = Some node"
  by (auto simp: is_driven_def split: option.splits)

lemma is_driving_alt: "is_driving s node \<longleftrightarrow> map_option dg_node (ie_driving s) = Some node"
  by (auto simp: is_driving_def split: option.splits)

lemma new_settings_halves:
  assumes "granted s" and "ss_locked st = ss_locked (ie_settings s)"
  shows "(\<And>n. is_driven s n \<Longrightarrow> allows (ie_settings s) n \<Longrightarrow> allows st n) \<Longrightarrow> driven_granted (s\<lparr>ie_settings := st\<rparr>)"
    and "(\<And>n. is_driving s n \<Longrightarrow> drives (ie_settings s) n \<Longrightarrow> drives st n) \<Longrightarrow> driving_granted (s\<lparr>ie_settings := st\<rparr>)"
  using assms by (auto simp: granted_halves driven_granted_def driving_granted_def met_def is_driven_def is_driving_def)

lemma serve_allow_keeps:
  "sound s \<Longrightarrow> sound (snd (serve_allow w v now s))" "granted s \<Longrightarrow> granted (snd (serve_allow w v now s))"
proof -
  have "granted (snd (with_setting (set_allow node b)
      (\<lambda>s. if \<not> b \<and> is_driven s node then end_driven w (Some ''REVOKED'') now s else s) s))" if g: "granted s" for node b
  proof (rule with_setting_granted [OF _ _ g])
    show "permits (ie_settings s) st" if "set_allow node b (ie_settings s) = (SetRefused, st)" for st
      using set_refused(1) [OF that] by simp
    let ?u = "s\<lparr>ie_settings := snd (set_allow node b (ie_settings s))\<rparr>"
    fix t assume t: "wider ?u t"
    have driving: "driving_granted ?u" by (rule new_settings_halves [OF g]) (simp_all add: set_allow_facts)
    show "granted (if \<not> b \<and> is_driven t node then end_driven w (Some ''REVOKED'') now t else t)"
    proof (cases "\<not> b \<and> is_driven t node")
      case True
      then show ?thesis using driving_half_ends [OF wider_halves(2) [OF t driving]] by simp
    next
      case False
      have "driven_granted ?u"
      proof (rule new_settings_halves [OF g])
        fix n assume "is_driven s n" "allows (ie_settings s) n"
        with False wider_with(2) [OF t, of node] set_allow_facts(2) [of n node b] set_allow_facts(4) [of b "ie_settings s" node]
        show "allows (snd (set_allow node b (ie_settings s))) n"
          by (cases b; cases "n = node") (auto simp: permits_def is_driven_def)
      qed (simp add: set_allow_facts)
      with wider_halves [OF t] driving False show ?thesis by (auto simp: granted_halves)
    qed
  qed
  then show "granted s \<Longrightarrow> granted (snd (serve_allow w v now s))"
    by (simp add: serve_allow_def split: sum.splits)
  show "sound s \<Longrightarrow> sound (snd (serve_allow w v now s))"
    by (auto simp: serve_allow_def intro!: with_setting_keeps sound_ended split: sum.splits)
qed

lemma serve_drive_keeps:
  "sound s \<Longrightarrow> sound (snd (serve_drive w v now s))" "granted s \<Longrightarrow> granted (snd (serve_drive w v now s))"
proof -
  have "granted (snd (with_setting (set_drive node b m)
      (\<lambda>s. if \<not> b \<and> is_driving s node then bring_home w ''RETURNED'' now s else s) s))" if g: "granted s" for node b m
  proof (rule with_setting_granted [OF _ _ g])
    show "permits (ie_settings s) st" if "set_drive node b m (ie_settings s) = (SetRefused, st)" for st
      using set_refused(2) [OF that] by simp
    let ?u = "s\<lparr>ie_settings := snd (set_drive node b m (ie_settings s))\<rparr>"
    fix t assume t: "wider ?u t"
    have driven: "driven_granted ?u" by (rule new_settings_halves [OF g]) (simp_all add: set_drive_facts)
    show "granted (if \<not> b \<and> is_driving t node then bring_home w ''RETURNED'' now t else t)"
    proof (cases "\<not> b \<and> is_driving t node")
      case True
      then show ?thesis using driven_half_home [OF wider_halves(1) [OF t driven]] by simp
    next
      case False
      have "driving_granted ?u"
      proof (rule new_settings_halves [OF g])
        fix n assume "is_driving s n" "drives (ie_settings s) n"
        with False wider_with(1) [OF t, of node] set_drive_facts(2) [of n node b m] set_drive_facts(4) [of b "ie_settings s" node m]
        show "drives (snd (set_drive node b m (ie_settings s))) n"
          by (cases b; cases "n = node") (auto simp: permits_def is_driving_def)
      qed (simp add: set_drive_facts)
      with wider_halves [OF t] driven False show ?thesis by (auto simp: granted_halves)
    qed
  qed
  then show "granted s \<Longrightarrow> granted (snd (serve_drive w v now s))"
    by (simp add: serve_drive_def split: sum.splits)
  show "sound s \<Longrightarrow> sound (snd (serve_drive w v now s))"
    by (auto simp: serve_drive_def intro!: with_setting_keeps sound_home split: sum.splits)
qed

lemma plain_setting_keeps:
  assumes "\<And>st. permits st (snd (f st))"
  shows "sound s \<Longrightarrow> sound (snd (with_setting f id s))" "granted s \<Longrightarrow> granted (snd (with_setting f id s))"
proof -
  show "sound s \<Longrightarrow> sound (snd (with_setting f id s))" by (rule with_setting_keeps) simp_all
  assume g: "granted s"
  show "granted (snd (with_setting f id s))"
  proof (rule with_setting_granted [OF _ _ g])
    show "permits (ie_settings s) st" if "f (ie_settings s) = (SetRefused, st)" for st
      using assms [of "ie_settings s"] that by simp
    show "granted (id t)" if "wider (s\<lparr>ie_settings := snd (f (ie_settings s))\<rparr>) t" for t
      using wider_granted [OF that granted_permits [OF g assms]] by simp
  qed
qed

lemma take_now_keeps: "sound s \<Longrightarrow> sound (take_now w node asked now s)" "granted s \<Longrightarrow> granted (take_now w node asked now s)"
proof -
  have "(sound s \<longrightarrow> sound (take_now w node asked now s)) \<and> (granted s \<longrightarrow> granted (take_now w node asked now s))"
  proof (cases "take_entry s node")
    case (Some e)
    obtain key cursor entry where e: "e = (key, cursor, entry)" by (cases e) auto
    obtain home j where l: "leaving_from s = (home, j)" by fastforce
    obtain b t where r: "start_session w node asked cursor key j home entry now s = (b, t)" by fastforce
    have "sound s \<Longrightarrow> sound t" "granted s \<Longrightarrow> granted t"
      using start_session_keeps [of s w node asked cursor key j home entry now] by (simp_all add: r)
    then show ?thesis by (auto simp: take_now_def Some e l r intro!: learners_sound learners_granted)
  qed (simp add: take_now_def)
  then show "sound s \<Longrightarrow> sound (take_now w node asked now s)" "granted s \<Longrightarrow> granted (take_now w node asked now s)" by simp_all
qed

lemma served_done [simp]: "snd (done_with s) = s"
  by (simp add: done_with_def)

lemma other_gestures_keep:
  "sound s \<Longrightarrow> sound (snd (serve_take w v now s))" "granted s \<Longrightarrow> granted (snd (serve_take w v now s))"
  "sound s \<Longrightarrow> sound (snd (serve_release w now s))" "granted s \<Longrightarrow> granted (snd (serve_release w now s))"
  "sound s \<Longrightarrow> sound (snd (serve_place w own v s))" "granted s \<Longrightarrow> granted (snd (serve_place w own v s))"
  "sound s \<Longrightarrow> sound (snd (serve_guards own v s))" "granted s \<Longrightarrow> granted (snd (serve_guards own v s))"
  "sound s \<Longrightarrow> sound (snd (serve_hotkey v s))" "granted s \<Longrightarrow> granted (snd (serve_hotkey v s))"
  "sound s \<Longrightarrow> sound (snd (serve_remap v s))" "granted s \<Longrightarrow> granted (snd (serve_remap v s))"
proof -
  have take: "wider s (dirty ((upd_peer node f s)\<lparr>ie_open_due := True\<rparr>))" for node f by auto
  show "sound s \<Longrightarrow> sound (snd (serve_take w v now s))" "granted s \<Longrightarrow> granted (snd (serve_take w v now s))"
    using wider_sound [OF take] wider_granted [OF take]
    by (auto simp: serve_take_def intro!: take_now_keeps split: sum.splits)
  show "sound s \<Longrightarrow> sound (snd (serve_release w now s))" "granted s \<Longrightarrow> granted (snd (serve_release w now s))"
    by (auto simp: serve_release_def)
  show "sound s \<Longrightarrow> sound (snd (serve_place w own v s))" "granted s \<Longrightarrow> granted (snd (serve_place w own v s))"
    by (auto simp: serve_place_def intro!: learners_sound learners_granted apply_capture_keeps split: sum.splits prod.splits)
  have guards: "permits st (snd (foldl (set_guards_step sd g) (SetUnchanged, st) pairs))" for st sd g pairs
    using set_guards_steps_permit [of "(SetUnchanged, st)"] by simp
  show "sound s \<Longrightarrow> sound (snd (serve_guards own v s))" "granted s \<Longrightarrow> granted (snd (serve_guards own v s))"
    by (auto simp: serve_guards_def Let_def intro!: plain_setting_keeps guards split: sum.splits option.splits)
  have hot: "sound (s\<lparr>ie_settings := snd (set_hotkey h (ie_settings s))\<rparr>) = sound s"
    "granted s \<Longrightarrow> granted (s\<lparr>ie_settings := snd (set_hotkey h (ie_settings s))\<rparr>)" for h
    by (simp_all add: granted_permits permits_def set_hotkey_def allows_def drives_def)
  show "sound s \<Longrightarrow> sound (snd (serve_hotkey v s))" "granted s \<Longrightarrow> granted (snd (serve_hotkey v s))"
    using hot by (auto simp: serve_hotkey_def set_hotkey_def Let_def intro!: learners_sound learners_granted split: option.splits)
  have remap: "permits st (snd (set_remap node m st))" for node m st
    by (simp add: set_remap_def update_peer_permits)
  show "sound s \<Longrightarrow> sound (snd (serve_remap v s))" "granted s \<Longrightarrow> granted (snd (serve_remap v s))"
    by (auto simp: serve_remap_def intro!: plain_setting_keeps remap split: sum.splits option.splits)
qed

lemma serve_lock_keeps:
  "sound s \<Longrightarrow> sound (snd (serve_lock w v now s))" "granted s \<Longrightarrow> granted (snd (serve_lock w v now s))"
proof -
  define a where "a b = (if ss_locked (ie_settings s) \<noteq> b
    then dirty (persist_settings (s\<lparr>ie_settings := (ie_settings s)\<lparr>ss_locked := b\<rparr>\<rparr>)) else s)" for b
  define c where "c b = (if b \<and> ie_driving (a b) \<noteq> None then bring_home w ''RETURNED'' now (a b) else a b)" for b
  define d where "d b = (if b \<and> ie_driven (c b) \<noteq> None then end_driven w (Some ''LOCKED'') now (c b) else c b)" for b
  have t: "snd (serve_lock w v now s) = (case bool_param v ''locked'' of Inl e \<Rightarrow> s | Inr b \<Rightarrow> d b)"
    unfolding serve_lock_def Let_def d_def c_def a_def by (cases "bool_param v ''locked''") simp_all
  have "sound (a b)" if "sound s" for b using that by (simp add: a_def learners_sound)
  then have "sound (c b)" if "sound s" for b using that by (simp add: c_def sound_home)
  then have "sound (d b)" if "sound s" for b using that by (simp add: d_def sound_ended)
  then show "sound s \<Longrightarrow> sound (snd (serve_lock w v now s))" by (simp add: t split: sum.splits)
  have "granted (d b)" if g: "granted s" for b
  proof (cases b)
    case True
    have "ie_driving (c True) = None" by (auto simp: c_def)
    then have "ie_driving (d True) = None" "ie_driven (d True) = None" by (auto simp: d_def)
    with True show ?thesis by (simp add: granted_nobody)
  next
    case False
    have "granted (s\<lparr>ie_settings := (ie_settings s)\<lparr>ss_locked := False\<rparr>\<rparr>)"
      using g by (simp add: granted_def allows_def drives_def)
    then have "granted (a b)" using False g by (simp add: a_def learners_granted)
    with False show ?thesis by (simp add: d_def c_def)
  qed
  then show "granted s \<Longrightarrow> granted (snd (serve_lock w v now s))" by (simp add: t split: sum.splits)
qed

lemma serve_keeps:
  "sound s \<Longrightarrow> sound (snd (serve_input w gesture v now s))" "granted s \<Longrightarrow> granted (snd (serve_input w gesture v now s))"
proof -
  have pick: "sound (snd x) \<Longrightarrow> sound (snd y) \<Longrightarrow> sound (snd (if b then x else y))"
    "granted (snd x) \<Longrightarrow> granted (snd y) \<Longrightarrow> granted (snd (if b then x else y))" for b and x y :: served by simp_all
  note kept = serve_allow_keeps serve_drive_keeps other_gestures_keep serve_lock_keeps
  show "sound s \<Longrightarrow> sound (snd (serve_input w gesture v now s))"
    unfolding serve_input_def
    by (cases "di_own_node (ie_directory s)") (simp_all only: option.case, (intro pick kept; simp)+)
  show "granted s \<Longrightarrow> granted (snd (serve_input w gesture v now s))"
    unfolding serve_input_def
    by (cases "di_own_node (ie_directory s)") (simp_all only: option.case, (intro pick kept; simp)+)
qed

lemma shutdown_keeps: "sound s \<Longrightarrow> sound (shutdown_input w now s)" "granted s \<Longrightarrow> granted (shutdown_input w now s)"
proof -
  define a where "a = release_held w (if ie_driven (if ie_driving s \<noteq> None then bring_home w ''GONE'' now s else s) \<noteq> None
    then end_driven w (Some ''NO_BACKEND'') now (if ie_driving s \<noteq> None then bring_home w ''GONE'' now s else s)
    else (if ie_driving s \<noteq> None then bring_home w ''GONE'' now s else s))"
  have t: "shutdown_input w now s = confine_to None (force_capture_off a)"
    by (simp add: shutdown_input_def Let_def a_def)
  note off = force_capture_off_still [of a]
  have same: "session_of (force_capture_off a) = session_of a" using off by (simp add: still_def unmoved_def session_of_def)
  have cap: "sound (force_capture_off a)" if "sound a"
  proof -
    have "\<not> capture_on (force_capture_off a)"
      by (auto simp: force_capture_off_def capture_on_def call_def Let_def)
    then have "at_rest (force_capture_off a)"
      using that off same_session(1) [OF same]
      by (auto simp: sound_def at_rest_def capture_rests_def capture_on_def still_def unmoved_def)
    with that off show ?thesis by (auto simp: sound_def still_def)
  qed
  have "granted (force_capture_off a)" if "granted a"
    using that off unfolding granted_def same_session(2) [OF same] by (simp add: still_def unmoved_def)
  moreover have "sound s \<Longrightarrow> sound a" "granted s \<Longrightarrow> granted a"
    unfolding a_def by (intro sound_release granted_release either_way sound_home granted_home sound_ended granted_ended; assumption)+
  ultimately show "sound s \<Longrightarrow> sound (shutdown_input w now s)" "granted s \<Longrightarrow> granted (shutdown_input w now s)"
    using cap by (auto simp: t intro!: confine_keeps)
qed

end
