(* ===== verification/SessionRuns.thy ===== *)
theory SessionRuns
  imports SessionFacts
begin

text \<open>
  The runs of the input engine: every entry point its host calls as one event, what every run keeps, and a
  concrete pair of desks. The clock of a run is arbitrary: nothing here needs it to go forward.
\<close>

section \<open>Events\<close>

datatype input_event =
    EStart
  | EDirectory directory
  | EAttach string bool
  | EOpenFailed string string
  | EEnded string
  | EClosed string string
  | EFrames string "json list"
  | EMessage string json
  | EBackend backend_event
  | EGesture string json
  | EPump
  | EEffects
  | EShutdown

fun input_step :: "desk \<Rightarrow> nat \<Rightarrow> input_event \<Rightarrow> input_engine \<Rightarrow> input_engine" where
  "input_step w now EStart s = start_engine w s"
| "input_step w now (EDirectory d) s = set_directory w d now s"
| "input_step w now (EAttach node mine) s = attach w node mine now s"
| "input_step w now (EOpenFailed node code) s = on_open_failed w node code now s"
| "input_step w now (EEnded node) s = on_channel_ended w node now s"
| "input_step w now (EClosed node reason) s = on_channel_closed w node reason now s"
| "input_step w now (EFrames node batch) s = on_frames w node batch now s"
| "input_step w now (EMessage node payload) s = on_peer_message w node payload s"
| "input_step w now (EBackend e) s = on_backend w e now s"
| "input_step w now (EGesture gesture v) s = snd (serve_input w gesture v now s)"
| "input_step w now EPump s = pump_input w now s"
| "input_step w now EEffects s = snd (take_effects s)"
| "input_step w now EShutdown s = shutdown_input w now s"

text \<open>What the engine reads outside may differ at every step.\<close>

type_synonym timed_event = "desk \<times> nat \<times> input_event"

definition input_apply :: "input_engine \<Rightarrow> timed_event \<Rightarrow> input_engine" where
  "input_apply s e = (case e of (w, now, ev) \<Rightarrow> input_step w now ev s)"

lemma start_wider: "wider s (start_engine w s)"
  by (auto simp: start_engine_def)

lemmas start_keeps = start_wider [THEN wider_sound] start_wider [THEN wider_granted]

text \<open>A revocation that is not heard within the grace of a new channel.\<close>

fun timely :: "nat \<Rightarrow> input_event \<Rightarrow> input_engine \<Rightarrow> bool" where
  "timely now (EClosed node reason) s \<longleftrightarrow> \<not> (reason = ''DEVICE_REVOKED'' \<and> just_attached s node now)"
| "timely _ _ _ \<longleftrightarrow> True"

lemma step_sound: "sound s \<Longrightarrow> sound (input_step w now e s)"
  by (cases e) (auto simp: on_channel_ended_def take_effects_def intro!: learners_sound start_keeps set_directory_keeps tear_down_keeps
      on_channel_closed_keeps on_frames_keeps on_peer_message_keeps on_backend_keeps serve_keeps pump_keeps shutdown_keeps)

lemma step_granted: "granted s \<Longrightarrow> timely now e s \<Longrightarrow> granted (input_step w now e s)"
  by (cases e) (auto simp: on_channel_ended_def take_effects_def intro!: learners_granted start_keeps set_directory_keeps tear_down_keeps
      on_channel_closed_keeps on_frames_keeps on_peer_message_keeps on_backend_keeps serve_keeps pump_keeps shutdown_keeps)

lemma opens_sound:
  assumes "open_engine w idn p st h now = Some s"
  shows "sound s" and "granted s"
proof -
  have "at_rest s \<and> ie_peers s = [] \<and> ie_windows s = [] \<and> ie_driving s = None \<and> ie_driven s = None"
    using assms by (auto simp: open_engine_def Let_def write_held_value_def call_def at_rest_def capture_rests_def capture_on_def
        split: option.splits if_splits)
  then show "sound s" "granted s" by (simp_all add: sound_def granted_nobody)
qed

interpretation input_runs: op_invariant input_apply "\<lambda>_. True" sound
  by unfold_locales (auto simp: input_apply_def step_sound split: prod.splits)

text \<open>The states of runs in which every revocation comes in time.\<close>

inductive reached :: "input_engine \<Rightarrow> bool" where
  opened: "open_engine w idn p st h now = Some s \<Longrightarrow> reached s"
| stepped: "reached s \<Longrightarrow> timely now e s \<Longrightarrow> reached (input_step w now e s)"

lemma reached_granted: "reached s \<Longrightarrow> granted s"
  by (induction rule: reached.induct) (auto intro: opens_sound step_granted)

section \<open>Two desks\<close>

definition desk_b :: string where "desk_b = replicate 64 CHR ''b''"

definition able :: capabilities where
  "able = \<lparr>ca_capture = True, ca_swallow = True, ca_confine = True, ca_warp = True, ca_inject_keys = True,
    ca_inject_pointer = True, ca_unicode = True, ca_monitors_stable = True, ca_problem = None\<rparr>"

definition quiet_desk :: desk where
  "quiet_desk = \<lparr>dk_caps = able, dk_monitors = [], dk_pointer = None, dk_resolve = (\<lambda>_. None), dk_saves = (\<lambda>_. True),
    dk_size = (\<lambda>_. 0), dk_verify = (\<lambda>_ _ _. True), dk_hash = (\<lambda>_. ''plane''), dk_wall = 0\<rparr>"

definition own_desk :: input_identity where
  "own_desk = \<lparr>ii_public_hex = replicate 64 CHR ''a'', ii_sign = (\<lambda>_. ''signed'')\<rparr>"

definition desk_settings :: json where
  "desk_settings = jobj [(''peers'', JObj [(desk_b, jobj [(''allow'', JBool True)])])]"

definition two_desks :: directory where
  "two_desks = \<lparr>di_own_node = Some (replicate 64 CHR ''a''), di_own_device = Some ''A'', di_own_name = ''a'',
    di_peers = [(desk_b, \<lparr>de_device_id = ''B'', de_name = ''b'', de_online = True, de_lan = True, de_reachable = True\<rparr>)]\<rparr>"

definition being_driven :: "timed_event list" where
  "being_driven = map (\<lambda>e. (quiet_desk, 1000, e))
    [EDirectory two_desks, EAttach desk_b False,
     EFrames desk_b [encode_value (\<lambda>_. 0) (FHi 1 (JObj []) ''plane''),
       encode_value (\<lambda>_. 0) (FStart 1 FullMode Typing ''plane'' 1 5 7)]]"

definition first_state :: input_engine where
  "first_state = the (open_engine quiet_desk own_desk None (Some desk_settings) JNull 0)"

lemma opens: "open_engine quiet_desk own_desk None (Some desk_settings) JNull 0 = Some first_state"
proof -
  have "\<not> Option.is_none (open_engine quiet_desk own_desk None (Some desk_settings) JNull 0)"
    by (simp add: open_engine_def Let_def)
  then show ?thesis by (simp add: first_state_def Option.is_none_def)
qed

lemma opened_parts:
  assumes "open_engine w idn None (Some doc) held now = Some s"
  shows "ie_settings s = settings_from_value doc" and "ie_caps s = dk_caps w" and "ie_directory s = directory_default"
    and "ie_peers s = []" and "ie_driving s = None" and "ie_driven s = None"
  using assms by (auto simp: open_engine_def Let_def write_held_value_def call_def split: if_splits)

lemma allows_b: "allows (settings_from_value desk_settings) desk_b \<and> \<not> ss_locked (settings_from_value desk_settings)"
  by code_simp

text \<open>A machine somebody may start driving, by what the operations before a start leave alone.\<close>

definition drivable :: "input_engine \<Rightarrow> bool" where
  "drivable s \<longleftrightarrow>
     ie_driving s = None \<and> ie_driven s = None \<and> ie_caps s = able \<and> ie_plane_id s = ''plane'' \<and>
     ie_directory s = two_desks \<and> allows (ie_settings s) desk_b \<and> \<not> ss_locked (ie_settings s)"

lemma same_plane [simp]:
  "ie_plane_id (call c s) = ie_plane_id s" "ie_plane_id (dirty s) = ie_plane_id s"
  "ie_plane_id (upd_peer node f s) = ie_plane_id s" "ie_plane_id (want_layout node s) = ie_plane_id s"
  "ie_plane_id (snd (allow_out node droppable now s)) = ie_plane_id s"
  by (simp_all add: call_def dirty_def upd_peer_def want_layout_def allow_out_def Let_def split: option.splits)

lemma same_plane_sent [simp]: "ie_plane_id (send_frame w node f now s) = ie_plane_id s"
proof -
  obtain b t where a: "allow_out node False now s = (b, t)" by fastforce
  then have "ie_plane_id t = ie_plane_id s" using same_plane(5) [of node False now s] by simp
  then show ?thesis by (simp add: send_frame_def write_frame_def a split: option.splits)
qed

lemma same_plane_capture [simp]: "ie_plane_id (apply_capture s) = ie_plane_id s"
  by (simp add: apply_capture_def Let_def)

lemma upd_unmoved: "unmoved s (upd_peer node f s)" "unmoved s (want_layout node s)"
  by (simp_all add: unmoved_def upd_peer_def want_layout_def session_of_def)

lemma drivable_unmoved: "drivable s \<Longrightarrow> unmoved s t \<Longrightarrow> ie_plane_id t = ie_plane_id s \<Longrightarrow> drivable t"
  using same_session(1) [of t s] by (auto simp: drivable_def unmoved_def)

lemma rebuilt: "unmoved s (rebuild w s)" "di_own_node (ie_directory s) \<noteq> None \<Longrightarrow> ie_plane_id (rebuild quiet_desk s) = ''plane''"
  by (auto simp: rebuild_def unmoved_def session_of_def plane_id_def quiet_desk_def split: option.splits)

lemma republish_unmoved: "unmoved s (republish w s)"
proof -
  have "unmoved s (layout_everyone (rebuild w (persist_plane (s\<lparr>ie_plane := p\<rparr>))))" for p
  proof -
    have "unmoved s (s\<lparr>ie_plane := p\<rparr>)" by (simp add: unmoved_def session_of_def)
    then show ?thesis
      unfolding layout_everyone_def
      by (intro unmoved_trans [OF _ unmoved_foldl] unmoved_trans [OF _ rebuilt(1)] unmoved_trans [OF _ still_unmoved [OF persist_still(1)]] upd_unmoved)
  qed
  moreover have "unmoved s (rebuild w (s\<lparr>ie_plane := p\<rparr>))" for p
    by (rule unmoved_trans [OF _ rebuilt(1)]) (simp add: unmoved_def session_of_def)
  ultimately show ?thesis
    by (auto simp: republish_def Let_def unmoved_def session_of_def dirty_def split: option.splits prod.splits)
qed

section \<open>Rest and permission\<close>

lemma shutdown_result:
  shows "ie_driving (shutdown_input w now s) = None" and "ie_driven (shutdown_input w now s) = None"
    and "ie_held (shutdown_input w now s) = []" and "\<not> ie_confined (shutdown_input w now s)"
    and "\<not> capture_on (shutdown_input w now s)"
proof -
  define a where "a = (if ie_driving s \<noteq> None then bring_home w ''GONE'' now s else s)"
  define b where "b = (if ie_driven a \<noteq> None then end_driven w (Some ''NO_BACKEND'') now a else a)"
  define c where "c = force_capture_off (release_held w b)"
  have t: "shutdown_input w now s = confine_to None c" unfolding shutdown_input_def Let_def c_def b_def a_def by (rule refl)
  have "ie_driving b = None" "ie_driven b = None" by (auto simp: a_def b_def)
  moreover note release_held_still [of b w] force_capture_off_still [of "release_held w b"]
  ultimately have c: "ie_driving c = None" "ie_driven c = None" "ie_held c = []"
    by (auto simp: c_def still_def unmoved_def session_of_def)
  have off: "\<not> capture_on c" by (auto simp: c_def force_capture_off_def capture_on_def call_def Let_def)
  note k = confine_to_still [of None c]
  show "ie_driving (shutdown_input w now s) = None" "ie_driven (shutdown_input w now s) = None"
    "ie_held (shutdown_input w now s) = []" "\<not> ie_confined (shutdown_input w now s)" "\<not> capture_on (shutdown_input w now s)"
    using k c off confine_off [of c] by (auto simp: t still_def unmoved_def session_of_def capture_on_def)
qed

text \<open>
  C25. Every run comes to rest: whatever frames, upcalls, gestures and deaths of channels follow the opening, in
  any order and at any times, the machine never drives and is driven at once, holds no key down unless it is
  being driven, swallows no keyboard and pins no pointer unless it drives, and reads no input while it is
  driven; and after a shutdown nothing is held, pinned, read or swallowed at all.
\<close>

theorem every_run_comes_to_rest:
  fixes es :: "timed_event list"
  assumes "open_engine w idn plane settings held now = Some s0"
  defines "s \<equiv> foldl input_apply s0 es"
  shows "(ie_driving s = None \<or> ie_driven s = None) \<and>
         (ie_driven s = None \<longrightarrow> ie_held s = []) \<and>
         (ie_driving s = None \<longrightarrow> ie_capture_sent s \<noteq> Some CaptureSwallow \<and> \<not> ie_confined s) \<and>
         (ie_driven s \<noteq> None \<longrightarrow> \<not> capture_on s) \<and>
         ie_driving (shutdown_input w' t s) = None \<and> ie_driven (shutdown_input w' t s) = None \<and>
         ie_held (shutdown_input w' t s) = [] \<and> \<not> ie_confined (shutdown_input w' t s) \<and>
         \<not> capture_on (shutdown_input w' t s)"
proof -
  have "sound s" unfolding s_def by (rule input_runs.run [OF opens_sound(1) [OF assms(1)]]) (simp add: list_all_iff)
  then show ?thesis by (auto simp: sound_def at_rest_def capture_rests_def shutdown_result)
qed

text \<open>
  C26. Nobody types here without a grant: in every run in which no revocation is lost to the grace of a new
  channel, whoever drives this machine is allowed to by its settings and the machine is not locked, and the
  computer it drives is one its settings say to drive. The settings of the moment count, not those at the start
  of the session.
\<close>

theorem nobody_types_without_a_grant:
  assumes "reached s"
  shows "(\<forall>d. ie_driven s = Some d \<longrightarrow> allows (ie_settings s) (dv_node d) \<and> \<not> ss_locked (ie_settings s)) \<and>
         (\<forall>d. ie_driving s = Some d \<longrightarrow> drives (ie_settings s) (dg_node d))"
  using reached_granted [OF assms] by (auto simp: granted_def)

lemma directory_drivable: "drivable (set_directory quiet_desk two_desks 1000 first_state)"
proof -
  note p = opened_parts [OF opens]
  define a where "a = first_state\<lparr>ie_directory := two_desks\<rparr>"
  obtain changed pl where o: "set_own (replicate 64 CHR ''a'') (ie_plane a) = (changed, pl)" by fastforce
  define b where "b = (if changed then persist_plane (a\<lparr>ie_plane := pl\<rparr>) else a\<lparr>ie_plane := pl\<rparr>)"
  define c where "c = foldl (\<lambda>s node. want_layout node s) (republish quiet_desk b) [desk_b]"
  have "set_directory quiet_desk two_desks 1000 first_state = dirty ((rebuild quiet_desk c)\<lparr>ie_open_due := True\<rparr>)"
    using o by (simp add: set_directory_def Let_def p directory_default_def two_desks_def was_reachable_def a_def b_def c_def)
  moreover have "drivable ((rebuild quiet_desk c)\<lparr>ie_open_due := True\<rparr>)"
  proof -
    have "unmoved a (a\<lparr>ie_plane := pl\<rparr>)" by (simp add: unmoved_def session_of_def)
    then have "unmoved a b" using unmoved_trans [OF _ still_unmoved [OF persist_still(1)]] by (simp add: b_def)
    then have ac: "unmoved a c" unfolding c_def by (intro unmoved_trans [OF _ unmoved_foldl] unmoved_trans [OF _ republish_unmoved] upd_unmoved)
    then have "unmoved a (rebuild quiet_desk c)" by (rule unmoved_trans [OF _ rebuilt(1)])
    moreover have "ie_plane_id (rebuild quiet_desk c) = ''plane''"
      using ac by (intro rebuilt(2)) (simp add: unmoved_def a_def two_desks_def)
    ultimately show ?thesis
      using allows_b same_session(1) [of "rebuild quiet_desk c" a] by (simp add: drivable_def unmoved_def a_def p quiet_desk_def)
  qed
  ultimately show ?thesis by (simp add: drivable_def dirty_def)
qed

lemma attach_drivable: "drivable s \<Longrightarrow> drivable (attach quiet_desk desk_b False 1000 s)"
  by (rule drivable_unmoved) (auto simp: attach_def Let_def intro!: unmoved_trans [OF _ still_unmoved [OF dirty_still]]
      unmoved_trans [OF _ still_unmoved [OF send_still(1)]] upd_unmoved)

lemma start_there:
  assumes "drivable s"
  shows "map_option dv_node (ie_driven (on_start w desk_b session FullMode keys ''plane'' n x y now s)) = Some desk_b"
proof -
  have "start_refusal s desk_b ''plane'' = None"
    using assms by (simp add: drivable_def start_refusal_def busy_with_def can_be_driven_def able_def)
  with assms show ?thesis by (simp add: on_start_def Let_def drivable_def apply_capture_keeps(6) call_def dirty_def)
qed

lemma hi_then_start:
  assumes "decode_frame (dk_size w) a = Some (FHi v caps plane)" "decode_frame (dk_size w) b = Some (FStart s m k pl n x y)"
    and "map_of (di_peers (ie_directory i)) node \<noteq> None" and "ie_driven (on_hi node caps plane i) = None"
  shows "on_frames w node [a, b] now i = on_start w node s m k pl n x y now (on_hi node caps plane i)"
  using assms by (auto simp: on_frames_def List.map_filter_def on_frame_def heard_def)

lemma driven_there: "map_option dv_node (ie_driven (foldl input_apply first_state being_driven)) = Some desk_b"
proof -
  define s where "s = attach quiet_desk desk_b False 1000 (set_directory quiet_desk two_desks 1000 first_state)"
  have s: "drivable s" unfolding s_def by (rule attach_drivable [OF directory_drivable])
  define t where "t = on_hi desk_b (JObj []) ''plane'' s"
  have t: "drivable t"
  proof -
    have "drivable (want_layout desk_b (upd_peer desk_b f s))" for f
      by (rule drivable_unmoved [OF s unmoved_trans [OF upd_unmoved(1) upd_unmoved(2)]]) simp
    then show ?thesis
      using apply_capture_still apply_capture_keeps(5)
      by (simp add: t_def on_hi_def drivable_def dirty_def apply_capture_keeps still_def unmoved_def)
  qed
  have "foldl input_apply first_state being_driven =
    on_start quiet_desk desk_b 1 FullMode Typing ''plane'' 1 5 7 1000 t"
  proof -
    have "foldl input_apply first_state being_driven =
      on_frames quiet_desk desk_b [encode_value (\<lambda>_. 0) (FHi 1 (JObj []) ''plane''),
        encode_value (\<lambda>_. 0) (FStart 1 FullMode Typing ''plane'' 1 5 7)] 1000 s"
      unfolding being_driven_def s_def by (simp only: list.map foldl.simps input_apply_def prod.case input_step.simps)
    also have "\<dots> = on_start quiet_desk desk_b 1 FullMode Typing ''plane'' 1 5 7 1000 t"
      unfolding t_def
    proof (rule hi_then_start)
      show "map_of (di_peers (ie_directory s)) desk_b \<noteq> None" using s by (simp add: drivable_def two_desks_def)
      show "ie_driven (on_hi desk_b (JObj []) ''plane'' s) = None" using t by (simp add: drivable_def t_def)
      show "decode_frame (dk_size quiet_desk) (encode_value (\<lambda>_. 0) (FHi 1 (JObj []) ''plane'')) = Some (FHi 1 (JObj []) ''plane'')"
        "decode_frame (dk_size quiet_desk) (encode_value (\<lambda>_. 0) (FStart 1 FullMode Typing ''plane'' 1 5 7)) =
          Some (FStart 1 FullMode Typing ''plane'' 1 5 7)"
        unfolding quiet_desk_def desk.simps frames_are_read by (simp_all add: PLANE_ID_MAX_def)
    qed
    finally show ?thesis .
  qed
  then show ?thesis by (simp add: start_there [OF t])
qed

lemma every_run_comes_to_rest_witness:
  "ie_driven (foldl input_apply first_state being_driven) \<noteq> None \<and>
   \<not> capture_on (foldl input_apply first_state being_driven)"
  using every_run_comes_to_rest [OF opens, of being_driven quiet_desk 0] driven_there by auto

lemma timely_open: "\<forall>node reason. e \<noteq> EClosed node reason \<Longrightarrow> timely now e s"
  by (cases e) auto

lemma reached_run:
  "reached s \<Longrightarrow> list_all (\<lambda>e. \<forall>node reason. snd (snd e) \<noteq> EClosed node reason) es \<Longrightarrow> reached (foldl input_apply s es)"
proof (induction es arbitrary: s)
  case (Cons e es)
  obtain w now ev where e: "e = (w, now, ev)" by (cases e) auto
  have "reached (input_apply s e)"
    using reached.stepped [OF Cons.prems(1) timely_open] Cons.prems(2) by (simp add: input_apply_def e)
  from Cons.IH [OF this] Cons.prems(2) show ?case by simp
qed simp

lemma reached_there: "reached (foldl input_apply first_state being_driven)"
  by (rule reached_run [OF reached.opened [OF opens]]) (simp add: being_driven_def)

lemma nobody_types_without_a_grant_witness:
  "map_option dv_node (ie_driven (foldl input_apply first_state being_driven)) = Some desk_b \<and>
   allows (ie_settings (foldl input_apply first_state being_driven)) desk_b"
  using nobody_types_without_a_grant [OF reached_there] driven_there by auto

end
