(* ===== verification/SessionTurns.thy ===== *)
theory SessionTurns
  imports SessionRuns
begin

text \<open>
  What one turn of the host's loop leaves due. The host sleeps until \<open>next_deadline\<close>, so a deadline that
  \<open>pump\<close> could not clear would make it spin.
\<close>

section \<open>What the deadlines are made of\<close>

text \<open>What the deadlines read of a peer; one we never heard of reads as the default.\<close>

definition beat :: "input_engine \<Rightarrow> string \<Rightarrow> link \<times> nat option \<times> nat option \<times> nat option" where
  "beat s n = (pr_link (peer_of s n), pr_last_ping (peer_of s n), pr_last_pong (peer_of s n), pr_rtt_ms (peer_of s n))"

definition steady :: "input_engine \<Rightarrow> input_engine \<Rightarrow> bool" where
  "steady s t \<longleftrightarrow> beat t = beat s \<and> session_of t = session_of s \<and> ie_driven t = ie_driven s"

definition pinged :: "nat \<Rightarrow> input_engine \<Rightarrow> bool" where
  "pinged now s \<longleftrightarrow>
     (\<forall>n. pr_link (peer_of s n) = LinkWarm \<longrightarrow> (\<exists>t. pr_last_ping (peer_of s n) = Some t \<and> now < t + ping_gap s n))"

definition flowed :: "nat \<Rightarrow> input_engine \<Rightarrow> bool" where
  "flowed now s \<longleftrightarrow>
     (\<forall>d. ie_driving s = Some d \<longrightarrow> dg_pending d \<noteq> None \<longrightarrow> now < dg_tokens_at d + flush_wait s d)"

definition waiting :: "nat \<Rightarrow> input_engine \<Rightarrow> bool" where
  "waiting now s \<longleftrightarrow> pinged now s \<and> flowed now s \<and> \<not> stalled s now \<and> \<not> idle s now"

lemma steady_refl [simp]: "steady s s"
  by (simp add: steady_def)

lemma steady_trans: "steady s t \<Longrightarrow> steady t u \<Longrightarrow> steady s u"
  by (simp add: steady_def)

lemma steady_foldl: "(\<And>s x. steady s (f s x)) \<Longrightarrow> steady s (foldl f s xs)"
  by (induction xs arbitrary: s) (auto intro: steady_trans)

lemma peer_of_peers: "ie_peers t = ie_peers s \<Longrightarrow> peer_of t n = peer_of s n"
  by (simp add: peer_of_def)

lemma steady_peers:
  "ie_peers t = ie_peers s \<Longrightarrow> session_of t = session_of s \<Longrightarrow> ie_driven t = ie_driven s \<Longrightarrow> steady s t"
  by (simp add: steady_def beat_def fun_eq_iff peer_of_def)

lemma still_steady: "still s t \<Longrightarrow> steady s t"
  by (rule steady_peers) (simp_all add: still_def unmoved_def)

lemma peer_of_upd: "peer_of (upd_peer node f s) n = (if n = node then f (peer_of s node) else peer_of s n)"
  by (simp add: upd_peer_def peer_of_def)

lemma peer_of_mod:
  "peer_of (mod_peer node f s) n =
     (if n = node \<and> n \<in> dom (map_of (ie_peers s)) then f (peer_of s node) else peer_of s n)"
  by (auto simp: mod_peer_def peer_of_upd)

lemma upd_others [simp]:
  "session_of (upd_peer node f s) = session_of s" "ie_driven (upd_peer node f s) = ie_driven s"
  "ie_driving (upd_peer node f s) = ie_driving s" "ie_directory (upd_peer node f s) = ie_directory s"
  "ie_sweep_at (upd_peer node f s) = ie_sweep_at s" "ie_settings (upd_peer node f s) = ie_settings s"
  unfolding upd_peer_def session_of_def by simp_all

lemma mod_others [simp]:
  "session_of (mod_peer node f s) = session_of s" "ie_driven (mod_peer node f s) = ie_driven s"
  "ie_driving (mod_peer node f s) = ie_driving s" "ie_directory (mod_peer node f s) = ie_directory s"
  "ie_sweep_at (mod_peer node f s) = ie_sweep_at s"
  unfolding mod_peer_def by (cases "map_of (ie_peers s) node = None", simp, simp)+

lemma mod_peer_known [simp]: "dom (map_of (ie_peers (mod_peer node f s))) = dom (map_of (ie_peers s))"
proof (cases "map_of (ie_peers s) node = None")
  case False
  then have "node \<in> dom (map_of (ie_peers s))" by auto
  then show ?thesis using False by (simp add: upd_peer_def mod_peer_def insert_absorb)
qed (simp add: mod_peer_def)

lemma bind_peer:
  "Option.bind (map_of (ie_peers s) n) pr_last_pong = pr_last_pong (peer_of s n)"
  "Option.bind (map_of (ie_peers s) n) pr_rtt_ms = pr_rtt_ms (peer_of s n)"
  by (simp_all add: peer_of_def peer_default_def split: option.split)

lemma warm_is_known: "pr_link (peer_of s n) = LinkWarm \<Longrightarrow> n \<in> dom (map_of (ie_peers s))"
  by (auto simp: peer_of_def peer_default_def split: option.splits)

lemma same_driving:
  assumes "session_of t = session_of s" and "ie_driving t = Some e"
  obtains d where "ie_driving s = Some d" "dg_node e = dg_node d" "dg_session e = dg_session d"
    "dg_accepted e = dg_accepted d" "dg_since e = dg_since d"
    "dg_pending e = dg_pending d" "dg_tokens e = dg_tokens d" "dg_tokens_at e = dg_tokens_at d"
proof -
  from assms obtain d where d: "ie_driving s = Some d" using same_session(1) [OF assms(1)] by auto
  with assms have "e\<lparr>dg_out_tokens := 0, dg_out_at := 0\<rparr> = d\<lparr>dg_out_tokens := 0, dg_out_at := 0\<rparr>"
    by (simp add: session_of_def)
  then show ?thesis using that [OF d] by (cases e, cases d) simp
qed

lemma same_gap:
  assumes st: "session_of t = session_of s"
  shows "ping_gap t n = ping_gap s n"
proof (cases "ie_driving t")
  case None
  with same_session(1) [OF st] show ?thesis by (simp add: ping_gap_def)
next
  case (Some e)
  from same_driving [OF st this] obtain d where
    "ie_driving s = Some d" "dg_node e = dg_node d" "dg_accepted e = dg_accepted d" .
  with Some show ?thesis by (simp add: ping_gap_def)
qed

lemma steady_gap: "steady s t \<Longrightarrow> ping_gap t n = ping_gap s n"
  by (rule same_gap) (simp add: steady_def)

lemma steady_peer:
  assumes "steady s t"
  shows "pr_link (peer_of t n) = pr_link (peer_of s n)" and "pr_last_ping (peer_of t n) = pr_last_ping (peer_of s n)"
    and "pr_last_pong (peer_of t n) = pr_last_pong (peer_of s n)" and "pr_rtt_ms (peer_of t n) = pr_rtt_ms (peer_of s n)"
proof -
  have "beat t n = beat s n" using assms by (simp only: steady_def)
  then show "pr_link (peer_of t n) = pr_link (peer_of s n)" "pr_last_ping (peer_of t n) = pr_last_ping (peer_of s n)"
    "pr_last_pong (peer_of t n) = pr_last_pong (peer_of s n)" "pr_rtt_ms (peer_of t n) = pr_rtt_ms (peer_of s n)"
    by (simp_all only: beat_def prod.inject)
qed

lemma steady_flow:
  assumes st: "steady s t" and f: "flowed now s"
  shows "flowed now t"
  unfolding flowed_def
proof (intro allI impI)
  fix e
  assume e: "ie_driving t = Some e" and p: "dg_pending e \<noteq> None"
  from st have "session_of t = session_of s" by (simp add: steady_def)
  from same_driving [OF this e] obtain d where d: "ie_driving s = Some d" "dg_node e = dg_node d"
    "dg_pending e = dg_pending d" "dg_tokens e = dg_tokens d" "dg_tokens_at e = dg_tokens_at d" .
  then have "flush_wait t e = flush_wait s d"
    using steady_peer(4) [OF st] by (simp add: flush_wait_def flow_rate_def bind_peer)
  with f d p show "now < dg_tokens_at e + flush_wait t e" by (simp add: flowed_def)
qed

lemma steady_stalled:
  assumes st: "steady s t" and f: "\<not> stalled s now"
  shows "\<not> stalled t now"
proof (cases "ie_driving t")
  case (Some e)
  from st have "session_of t = session_of s" by (simp add: steady_def)
  from same_driving [OF this Some] obtain d where d: "ie_driving s = Some d" "dg_node e = dg_node d"
    "dg_accepted e = dg_accepted d" "dg_since e = dg_since d" .
  then have "last_sign t e = last_sign s d" using steady_peer(3) [OF st] by (simp add: last_sign_def bind_peer split: option.split)
  with f d Some show ?thesis by (simp add: stalled_def)
qed (simp add: stalled_def)

lemma steady_pinged: "steady s t \<Longrightarrow> pinged now s \<Longrightarrow> pinged now t"
  by (simp add: pinged_def steady_gap steady_peer)

lemma steady_waiting: "steady s t \<Longrightarrow> waiting now s \<Longrightarrow> waiting now t"
  using steady_flow steady_stalled steady_pinged by (simp add: waiting_def idle_def steady_def)

section \<open>Keepalives and the flow\<close>

lemma ping_peer_parts:
  "peer_of (ping_peer w now s node) n =
     (if n = node \<and> n \<in> dom (map_of (ie_peers s)) then (peer_of s n)\<lparr>pr_last_ping := Some now\<rparr> else peer_of s n)"
  "dom (map_of (ie_peers (ping_peer w now s node))) = dom (map_of (ie_peers s))"
  "session_of (ping_peer w now s node) = session_of s"
proof -
  have u: "still s (send_frame w node (FPing (word_of_nat (stamp now s))) now s)" (is "still s ?u") by (rule send_still)
  then have p: "ie_peers ?u = ie_peers s" by (simp add: still_def)
  show "peer_of (ping_peer w now s node) n =
     (if n = node \<and> n \<in> dom (map_of (ie_peers s)) then (peer_of s n)\<lparr>pr_last_ping := Some now\<rparr> else peer_of s n)"
    unfolding ping_peer_def peer_of_mod p peer_of_peers [OF p] by (cases "n = node") simp_all
  show "dom (map_of (ie_peers (ping_peer w now s node))) = dom (map_of (ie_peers s))"
    unfolding ping_peer_def mod_peer_known p ..
  show "session_of (ping_peer w now s node) = session_of s"
    using u by (simp add: ping_peer_def still_def unmoved_def)
qed

lemma all_pinged:
  "peer_of (foldl (ping_peer w now) s ns) n =
     (if n \<in> set ns \<and> n \<in> dom (map_of (ie_peers s)) then (peer_of s n)\<lparr>pr_last_ping := Some now\<rparr> else peer_of s n)"
  "session_of (foldl (ping_peer w now) s ns) = session_of s"
  by (induction ns arbitrary: s) (auto simp: ping_peer_parts)

lemma keepalives_pinged: "pinged now (keepalives w now s)"
  unfolding pinged_def
proof (intro allI impI)
  fix n
  define ns where "ns = map fst (filter (ping_due s now) (ie_peers s))"
  have k: "keepalives w now s = foldl (ping_peer w now) s ns" by (simp add: keepalives_def ns_def)
  have g: "ping_gap (keepalives w now s) n = ping_gap s n" unfolding k by (rule same_gap [OF all_pinged(2)])
  assume "pr_link (peer_of (keepalives w now s) n) = LinkWarm"
  then have warm: "pr_link (peer_of s n) = LinkWarm" unfolding k all_pinged by (auto split: if_splits)
  from warm_is_known [OF this] have m: "map_of (ie_peers s) n = Some (peer_of s n)" by (auto simp: peer_of_def)
  show "\<exists>t. pr_last_ping (peer_of (keepalives w now s) n) = Some t \<and> now < t + ping_gap (keepalives w now s) n"
  proof (cases "ping_due s now (n, peer_of s n)")
    case True
    with map_of_SomeD [OF m] have "n \<in> set ns" by (force simp: ns_def)
    then have "pr_last_ping (peer_of (keepalives w now s) n) = Some now" using m unfolding k all_pinged by auto
    moreover have "0 < ping_gap s n"
      by (simp add: ping_gap_def WARM_PING_def SESSION_PING_def seconds_def split: option.split)
    ultimately show ?thesis unfolding g by simp
  next
    case False
    with warm obtain ping where "pr_last_ping (peer_of s n) = Some ping" "\<not> ping_gap s n \<le> now - ping"
      by (auto simp: ping_due_def split: option.splits)
    then show ?thesis unfolding g unfolding k all_pinged by auto
  qed
qed

text \<open>The pending position has gone, or its wait has not run out.\<close>

lemma flow_flush_parts:
  shows "ie_peers (flow_flush w now s) = ie_peers s" and "ie_driven (flow_flush w now s) = ie_driven s"
    and "ping_gap (flow_flush w now s) n = ping_gap s n" and "flowed now (flow_flush w now s)"
proof -
  let ?P = "\<lambda>t. ie_peers t = ie_peers s \<and> ie_driven t = ie_driven s \<and> ping_gap t n = ping_gap s n \<and> flowed now t"
  have "?P (flow_flush w now s)"
  proof (cases "ie_driving s")
    case None
    then show ?thesis by (simp add: flow_flush_def flowed_def)
  next
    case (Some d)
    show ?thesis
    proof (cases "dg_pending d = None \<or> now - dg_tokens_at d < flush_wait s d")
      case True
      then show ?thesis using Some by (auto simp: flow_flush_def flowed_def)
    next
      case False
      then obtain flow where p: "dg_pending d = Some flow" by auto
      define e where "e = d\<lparr>dg_pending := None, dg_tokens := 0, dg_tokens_at := now, dg_n := saturating_inc (dg_n d)\<rparr>"
      define u where "u = s\<lparr>ie_driving := Some e\<rparr>"
      have t: "flow_flush w now s = send_droppable w (dg_node d) (flow_frame flow (dg_session d) (dg_n d)) now u"
        using Some p False by (simp add: flow_flush_def flush_pending_def send_flow_def next_n_def u_def e_def)
      have st: "still u (flow_flush w now s)" unfolding t by (rule send_still)
      have "flowed now u" by (simp add: flowed_def u_def e_def)
      then have "flowed now (flow_flush w now s)" by (rule steady_flow [OF still_steady [OF st]])
      moreover have "ping_gap u n = ping_gap s n" using Some by (simp add: ping_gap_def u_def e_def)
      ultimately show ?thesis
        using st same_gap [of "flow_flush w now s" u n] by (simp add: still_def unmoved_def u_def)
    qed
  qed
  then show "ie_peers (flow_flush w now s) = ie_peers s" "ie_driven (flow_flush w now s) = ie_driven s"
    "ping_gap (flow_flush w now s) n = ping_gap s n" "flowed now (flow_flush w now s)" by blast+
qed

section \<open>The watchdogs and the crossing\<close>

text \<open>None of it but the idle watchdog looks at who drives us.\<close>

lemma driven_aside [simp]:
  "pinged now (s\<lparr>ie_driven := v\<rparr>) = pinged now s" "flowed now (s\<lparr>ie_driven := v\<rparr>) = flowed now s"
  "stalled (s\<lparr>ie_driven := v\<rparr>) now = stalled s now"
  by (simp_all add: pinged_def flowed_def peer_of_def ping_gap_def flush_wait_def flow_rate_def)
    (cases "ie_driving s"; simp add: stalled_def last_sign_def)

lemma steady_aside: "ie_peers t = ie_peers s \<Longrightarrow> session_of t = session_of s \<Longrightarrow> steady (s\<lparr>ie_driven := ie_driven t\<rparr>) t"
  by (rule steady_peers) (simp_all add: session_of_def)

text \<open>Without a session of ours nothing is pending and nothing can stall.\<close>

lemma home_waiting:
  assumes "pinged now s" and "ie_peers t = ie_peers s" and "ie_driving t = None"
  shows "pinged now t" and "flowed now t" and "\<not> stalled t now"
proof -
  have "ping_gap s n \<le> ping_gap t n" for n
    using assms(3) by (simp add: ping_gap_def WARM_PING_def SESSION_PING_def seconds_def split: option.split)
  then show "pinged now t"
    using assms(1) peer_of_peers [OF assms(2)] unfolding pinged_def by (metis add_left_mono order_less_le_trans)
  show "flowed now t" "\<not> stalled t now" using assms(3) by (simp_all add: flowed_def stalled_def)
qed

lemma watchdogs_waiting:
  assumes "pinged now s" and "flowed now s"
  shows "waiting now (watchdogs w now s)"
proof -
  define u where "u = (if stalled s now then bring_home w ''SLOW'' now s else s)"
  have u: "pinged now u \<and> flowed now u \<and> \<not> stalled u now"
  proof (cases "stalled s now")
    case True
    then have "ie_peers u = ie_peers s" "ie_driving u = None"
      using home_always(7) [of s w "''SLOW''" now] by (simp_all add: u_def beside_def)
    from home_waiting [OF assms(1) this] show ?thesis by blast
  qed (use assms in \<open>simp add: u_def\<close>)
  have w: "watchdogs w now s = (if idle u now then end_driven w (Some ''IDLE'') now u else u)"
    by (simp add: watchdogs_def u_def Let_def)
  show ?thesis
  proof (cases "idle u now")
    case True
    define t where "t = end_driven w (Some ''IDLE'') now u"
    have t: "ie_peers t = ie_peers u" "session_of t = session_of u" "ie_driven t = None"
      using ended_always(4) [of u w "Some ''IDLE''" now] by (simp_all add: t_def beside_def)
    have "waiting now (u\<lparr>ie_driven := ie_driven t\<rparr>)" using u t(3) by (simp add: waiting_def idle_def)
    from steady_waiting [OF steady_aside [OF t(1,2)] this] show ?thesis using True by (simp add: w t_def)
  qed (use u in \<open>simp add: w waiting_def\<close>)
qed

text \<open>A session that starts is not accepted yet and has nothing pending.\<close>

lemma start_session_waiting:
  assumes "waiting now s"
  shows "waiting now (snd (start_session w node asked cursor k j home entry now s))" (is "waiting now ?r")
proof (cases "?r = s")
  case False
  then obtain p where p: "ie_driving s = None" "map_of (ie_peers s) node = Some p"
    "pr_link p = LinkWarm" "pr_out p"
    by (auto simp: start_session_def split: if_splits option.splits)
  define a where "a = send_frame w node (FStart (pr_next_session p) (session_mode p asked)
    (se_mode (settings_peer (ie_settings s) node)) (ie_plane_id s) 1 (word_of_int (fst entry)) (word_of_int (snd entry))) now
    (upd_peer node (\<lambda>q. q\<lparr>pr_next_session := saturating_inc (pr_next_session p)\<rparr>) s)"
  define d where "d = \<lparr>dg_node = node, dg_session = pr_next_session p, dg_mode = session_mode p asked, dg_accepted = False,
    dg_since = now, dg_since_unix = dk_wall w, dg_cursor = cursor, dg_on = k, dg_from = j, dg_home = home,
    dg_n = 1, dg_pending = None, dg_tokens = 1, dg_tokens_at = now, dg_out_tokens = OUT_RATE_MAX / 10, dg_out_at = now\<rparr>"
  have d: "\<not> dg_accepted d" "dg_pending d = None" by (simp_all add: d_def)
  have r: "?r = dirty (a\<lparr>ie_driving := Some d\<rparr>)"
    using False p by (auto simp: start_session_def Let_def a_def d_def split: if_splits)
  have "steady s (upd_peer node (\<lambda>q. q\<lparr>pr_next_session := saturating_inc (pr_next_session p)\<rparr>) s)"
    by (simp add: steady_def beat_def fun_eq_iff peer_of_upd)
  then have a: "steady s a" unfolding a_def by (rule steady_trans [OF _ still_steady [OF send_still(1)]])
  then have none: "ie_driving a = None" using p(1) same_session(1) [of a s] by (simp add: steady_def)
  from steady_waiting [OF a assms] have "waiting now (a\<lparr>ie_driving := Some d\<rparr>)"
    using d none by (simp add: waiting_def pinged_def flowed_def stalled_def idle_def peer_of_def ping_gap_def)
  then show ?thesis unfolding r by (rule steady_waiting [OF still_steady [OF dirty_still]])
qed (simp add: assms)

lemma forget_dwell_steady: "steady s (forget_dwell now s)"
  using forget_dwell_still [of s now] by (intro steady_peers) (simp_all add: still_def unmoved_def session_of_def)

lemma crossing_waiting: "waiting now s \<Longrightarrow> waiting now (crossing w now s)"
  using steady_waiting [OF forget_dwell_steady] steady_waiting [OF still_steady [OF announce_still]]
  by (auto simp: crossing_def cross_over_def Let_def intro: start_session_waiting split: option.split)

section \<open>Layout rounds\<close>

definition laid :: "nat \<Rightarrow> input_engine \<Rightarrow> bool" where
  "laid now s \<longleftrightarrow> (\<forall>n. \<not> layout_ready now (peer_of s n))"

lemma layout_steady:
  "steady s (want_layout node s)" "steady s (layout_round w now s node)" "steady s (layout_everyone s)"
proof -
  show want: "steady s (want_layout node s)" for s node
    by (simp add: want_layout_def steady_def beat_def fun_eq_iff peer_of_upd)
  show "steady s (layout_everyone s)" unfolding layout_everyone_def by (rule steady_foldl [OF want])
  have "steady s (mod_peer node (\<lambda>p. p\<lparr>pr_layout_due := False\<rparr>) s)" "steady s (mod_peer node (\<lambda>p. p\<lparr>pr_layout_sent := Some now\<rparr>) s)" for s
    by (simp_all add: steady_def beat_def fun_eq_iff peer_of_mod)
  note m = this(1) steady_trans [OF steady_trans [OF this(1) still_steady [OF effect_still]] this(2)]
  show "steady s (layout_round w now s node)"
    using m by (simp add: layout_round_def Let_def split: option.split)
qed

lemma layout_round_cases:
  obtains "layout_round w now s node = mod_peer node (\<lambda>p. p\<lparr>pr_layout_due := False\<rparr>) s"
  | x where "layout_round w now s node = mod_peer node (\<lambda>p. p\<lparr>pr_layout_sent := Some now\<rparr>)
      (effect_out x (mod_peer node (\<lambda>p. p\<lparr>pr_layout_due := False\<rparr>) s))"
proof (cases "map_of (di_peers (ie_directory s)) node")
  case None
  with that(1) show ?thesis by (simp add: layout_round_def Let_def)
next
  case (Some e)
  show ?thesis
  proof (cases "de_reachable e")
    case True
    with Some that(2) show ?thesis by (simp add: layout_round_def Let_def)
  next
    case False
    with Some that(1) show ?thesis by (simp add: layout_round_def Let_def)
  qed
qed

lemma layout_round_parts:
  "n \<noteq> node \<Longrightarrow> peer_of (layout_round w now s node) n = peer_of s n"
  "node \<in> dom (map_of (ie_peers s)) \<Longrightarrow> \<not> pr_layout_due (peer_of (layout_round w now s node) node)"
  "node \<notin> dom (map_of (ie_peers s)) \<Longrightarrow> peer_of (layout_round w now s node) node = peer_of s node"
  "dom (map_of (ie_peers (layout_round w now s node))) = dom (map_of (ie_peers s))"
  "ie_sweep_at (layout_round w now s node) = ie_sweep_at s"
proof -
  have e: "peer_of (effect_out x t) n = peer_of t n" "ie_peers (effect_out x t) = ie_peers t" "ie_sweep_at (effect_out x t) = ie_sweep_at t" for x t n
    by (simp_all add: effect_out_def peer_of_def)
  show "n \<noteq> node \<Longrightarrow> peer_of (layout_round w now s node) n = peer_of s n"
    by (rule layout_round_cases [of w now s node]) (simp_all add: peer_of_mod e)
  show "node \<in> dom (map_of (ie_peers s)) \<Longrightarrow> \<not> pr_layout_due (peer_of (layout_round w now s node) node)"
    by (rule layout_round_cases [of w now s node]) (simp_all only: peer_of_mod e mod_peer_known simp_thms if_True, simp_all)
  show "node \<notin> dom (map_of (ie_peers s)) \<Longrightarrow> peer_of (layout_round w now s node) node = peer_of s node"
    by (rule layout_round_cases [of w now s node]) (simp_all only: peer_of_mod e mod_peer_known simp_thms if_False)
  show "dom (map_of (ie_peers (layout_round w now s node))) = dom (map_of (ie_peers s))"
    by (rule layout_round_cases [of w now s node]) (simp_all only: e mod_peer_known)
  show "ie_sweep_at (layout_round w now s node) = ie_sweep_at s"
    by (rule layout_round_cases [of w now s node]) (simp_all add: e)
qed

lemma rounds_sent:
  "ie_sweep_at (foldl (layout_round w now) s ns) = ie_sweep_at s"
  "peer_of (foldl (layout_round w now) s ns) n = peer_of s n \<or> \<not> pr_layout_due (peer_of (foldl (layout_round w now) s ns) n)"
  "n \<in> set ns \<Longrightarrow> n \<in> dom (map_of (ie_peers s)) \<Longrightarrow> \<not> pr_layout_due (peer_of (foldl (layout_round w now) s ns) n)"
proof -
  show "ie_sweep_at (foldl (layout_round w now) s ns) = ie_sweep_at s" for s
    by (induction ns arbitrary: s) (simp_all add: layout_round_parts)
  show two: "peer_of (foldl (layout_round w now) s ns) n = peer_of s n \<or> \<not> pr_layout_due (peer_of (foldl (layout_round w now) s ns) n)" for s ns
  proof (induction ns arbitrary: s)
    case (Cons x ns)
    have "peer_of (layout_round w now s x) n = peer_of s n \<or> \<not> pr_layout_due (peer_of (layout_round w now s x) n)"
      using layout_round_parts(1-3) [where w = w and now = now and s = s and node = x] by metis
    then show ?case using Cons [of "layout_round w now s x"] by auto
  qed simp
  show "n \<in> set ns \<Longrightarrow> n \<in> dom (map_of (ie_peers s)) \<Longrightarrow> \<not> pr_layout_due (peer_of (foldl (layout_round w now) s ns) n)"
  proof (induction ns arbitrary: s)
    case (Cons x ns)
    show ?case
    proof (cases "n \<in> set ns")
      case True
      with Cons.IH [of "layout_round w now s x"] Cons.prems show ?thesis by (simp add: layout_round_parts)
    next
      case False
      with Cons.prems have "\<not> pr_layout_due (peer_of (layout_round w now s x) n)" using layout_round_parts(2) by simp
      then show ?thesis using two [of "layout_round w now s x" ns] by auto
    qed
  qed simp
qed

lemma layout_rounds_parts:
  shows "steady s (layout_rounds w now s)" and "now < ie_sweep_at (layout_rounds w now s) + LAYOUT_SWEEP"
    and "di_own_node (ie_directory s) \<noteq> None \<Longrightarrow> laid now (layout_rounds w now s)"
proof -
  define a where "a = (if LAYOUT_SWEEP \<le> now - ie_sweep_at s
    then (layout_everyone (s\<lparr>ie_sweep_at := now\<rparr>))\<lparr>ie_open_due := True\<rparr> else s)"
  define ns where "ns = map fst (filter (\<lambda>q. layout_ready now (snd q)) (ie_peers a))"
  have r: "layout_rounds w now s = (if di_own_node (ie_directory a) = None then a else foldl (layout_round w now) a ns)"
    by (simp add: layout_rounds_def Let_def a_def ns_def)
  have x: "ie_sweep_at (foldl (\<lambda>s q. want_layout (fst q) s) t qs) = ie_sweep_at t"
    "ie_directory (foldl (\<lambda>s q. want_layout (fst q) s) t qs) = ie_directory t" for t and qs :: "(string \<times> dir_entry) list"
    by (induction qs arbitrary: t) (simp_all add: want_layout_def)
  have "0 < LAYOUT_SWEEP" by (simp add: LAYOUT_SWEEP_def seconds_def)
  then have sweep: "now < ie_sweep_at a + LAYOUT_SWEEP" by (auto simp: a_def layout_everyone_def x)
  have dir: "ie_directory a = ie_directory s" by (simp add: a_def layout_everyone_def x)
  have "steady t (layout_everyone (t\<lparr>ie_sweep_at := now\<rparr>))" for t
    by (rule steady_trans [OF _ layout_steady(3)]) (simp add: steady_peers session_of_def)
  moreover have "steady t (t\<lparr>ie_open_due := True\<rparr>)" for t by (simp add: steady_peers session_of_def)
  ultimately have "steady s ((layout_everyone (s\<lparr>ie_sweep_at := now\<rparr>))\<lparr>ie_open_due := True\<rparr>)" by (rule steady_trans)
  then have a: "steady s a" by (simp add: a_def)
  show "steady s (layout_rounds w now s)"
    unfolding r by (auto intro: a steady_trans [OF a] steady_foldl layout_steady(2))
  show "now < ie_sweep_at (layout_rounds w now s) + LAYOUT_SWEEP" using sweep by (simp add: r rounds_sent)
  show "laid now (layout_rounds w now s)" if own: "di_own_node (ie_directory s) \<noteq> None"
    unfolding laid_def
  proof (intro allI notI)
    fix n
    assume n: "layout_ready now (peer_of (layout_rounds w now s) n)"
    have f: "layout_rounds w now s = foldl (layout_round w now) a ns" unfolding r dir by (simp only: own if_False)
    from n rounds_sent(2) [of w now a ns n] have rdy: "layout_ready now (peer_of a n)" by (auto simp: f layout_ready_def)
    then have m: "map_of (ie_peers a) n = Some (peer_of a n)" by (auto simp: peer_of_def layout_ready_def peer_default_def split: option.splits)
    with rdy map_of_SomeD [OF m] have "n \<in> set ns" by (force simp: ns_def)
    from rounds_sent(3) [OF this] m n show False by (auto simp: f layout_ready_def)
  qed
qed

section \<open>Refusals and the snapshot\<close>

definition quieted :: "nat \<Rightarrow> input_engine \<Rightarrow> bool" where
  "quieted now s \<longleftrightarrow> (\<forall>q \<in> set (ie_windows s). 0 < wn_pending (snd q) \<longrightarrow> now < wn_until (snd q))"

lemma same_windows [simp]: "ie_windows (send_frame w node f now s) = ie_windows s"
proof -
  obtain b t where a: "allow_out node False now s = (b, t)" by fastforce
  moreover have "ie_windows (snd (allow_out node False now s)) = ie_windows s"
    by (simp add: allow_out_def Let_def split: option.splits)
  ultimately show ?thesis by (simp add: send_frame_def write_frame_def call_def split: option.splits)
qed

lemma closed_window:
  "map_of (ie_windows (close_window w now s q)) k =
     (if k = fst q then Some \<lparr>wn_until = now + REFUSAL_WINDOW, wn_pending = 0, wn_oops = wn_oops (snd q)\<rparr>
      else map_of (ie_windows s) k)"
proof -
  have "ie_windows (say_refusal w node code n told now t) = ie_windows t" for node code n told t
    by (simp add: say_refusal_def emit_refused_def effect_out_def split: option.split)
  then show ?thesis by (simp add: close_window_def)
qed

lemma closed_windows:
  "k \<in> fst ` set qs \<Longrightarrow>
     map_option wn_pending (map_of (ie_windows (foldl (close_window w now) s qs)) k) = Some 0"
  "k \<notin> fst ` set qs \<Longrightarrow>
     map_of (ie_windows (foldl (close_window w now) s qs)) k = map_of (ie_windows s) k"
proof -
  show out: "k \<notin> fst ` set qs \<Longrightarrow>
     map_of (ie_windows (foldl (close_window w now) s qs)) k = map_of (ie_windows s) k" for s qs
    by (induction qs arbitrary: s) (simp_all add: closed_window)
  show "k \<in> fst ` set qs \<Longrightarrow>
     map_option wn_pending (map_of (ie_windows (foldl (close_window w now) s qs)) k) = Some 0"
  proof (induction qs arbitrary: s)
    case (Cons q qs)
    then show ?case using out [of qs "close_window w now s q"] by (cases "k \<in> fst ` set qs") (auto simp: closed_window)
  qed simp
qed

lemma refusal_windows_quieted:
  assumes "bt_ok (ie_windows s)"
  shows "quieted now (refusal_windows w now s)"
  unfolding quieted_def
proof (intro ballI impI)
  fix q
  assume q: "q \<in> set (ie_windows (refusal_windows w now s))" and p: "0 < wn_pending (snd q)"
  define due where "due = filter (\<lambda>q. 0 < wn_pending (snd q) \<and> wn_until (snd q) \<le> now) (ie_windows s)"
  define a where "a = foldl (close_window w now) s due"
  have "bt_ok (ie_windows a)"
  proof -
    have "still s a" unfolding a_def by (rule still_foldl [OF close_window_still])
    then show ?thesis using assms by (simp add: still_def)
  qed
  moreover have "q \<in> set (ie_windows a)" using q by (simp add: refusal_windows_def Let_def due_def a_def)
  ultimately have m: "map_of (ie_windows a) (fst q) = Some (snd q)"
    using map_of_in_set [of "ie_windows a" "fst q" "snd q"] by simp
  have out: "fst q \<notin> fst ` set due"
  proof
    assume "fst q \<in> fst ` set due"
    from closed_windows(1) [OF this, of w now s] m p show False by (simp add: a_def)
  qed
  then have "map_of (ie_windows s) (fst q) = Some (snd q)" using closed_windows(2) m by (simp add: a_def)
  from map_of_SomeD [OF this] have "q \<in> set (ie_windows s)" by simp
  then show "now < wn_until (snd q)" using out p by (force simp: due_def)
qed

lemma emit_snapshot_parts:
  shows "steady s (emit_snapshot now s)" and "ie_peers (emit_snapshot now s) = ie_peers s"
    and "ie_sweep_at (emit_snapshot now s) = ie_sweep_at s" and "ie_windows (emit_snapshot now s) = ie_windows s"
    and "ie_dirty (emit_snapshot now s) \<Longrightarrow> now < ie_last_emit (emit_snapshot now s) + EMIT_GAP"
  by (auto simp: emit_snapshot_def Let_def effect_out_def session_of_def EMIT_GAP_def millis_def intro!: steady_peers)

section \<open>A turn\<close>

lemma nothing_due:
  assumes "waiting now s" and "laid now s" and "quieted now s" and "bt_ok (ie_peers s)"
    and "now < ie_sweep_at s + LAYOUT_SWEEP" and "ie_dirty s \<longrightarrow> now < ie_last_emit s + EMIT_GAP"
  shows "\<forall>t \<in> set (deadlines s now). now < t"
proof -
  have peers: "now < t" if q: "q \<in> set (ie_peers s)" and t: "t \<in> set (peer_deadlines s q)" for q t
  proof -
    from q assms(4) have "map_of (ie_peers s) (fst q) = Some (snd q)"
      using map_of_in_set [of "ie_peers s" "fst q" "snd q"] by simp
    then have q': "snd q = peer_of s (fst q)" by (simp add: peer_of_def)
    have "\<not> layout_ready now (snd q)" using assms(2) by (simp add: laid_def q')
    moreover have "\<exists>t. pr_last_ping (snd q) = Some t \<and> now < t + ping_gap s (fst q)" if "pr_link (snd q) = LinkWarm"
      using assms(1) that unfolding waiting_def pinged_def q' by blast
    ultimately show ?thesis using t by (auto simp: peer_deadlines_def layout_ready_def split: if_splits option.splits)
  qed
  have "\<forall>t \<in> set (driving_deadlines s). now < t"
    using assms(1) by (auto simp: driving_deadlines_def waiting_def flowed_def stalled_def split: option.splits)
  moreover have "\<forall>t \<in> set (case ie_driven s of None \<Rightarrow> [] | Some d \<Rightarrow> [dv_last_frame d + SESSION_IDLE]). now < t"
    using assms(1) by (auto simp: waiting_def idle_def split: option.splits)
  moreover have "\<forall>t \<in> set (dwell_deadlines s now). now < t"
    by (auto simp: dwell_deadlines_def Let_def split: option.splits)
  moreover have "\<forall>t \<in> set (List.map_filter (\<lambda>q. if 0 < wn_pending (snd q) then Some (wn_until (snd q)) else None) (ie_windows s)). now < t"
    using assms(3) by (auto simp: quieted_def map_filter_def split: if_splits)
  ultimately show ?thesis using peers assms(5,6) by (auto simp: deadlines_def dirty_deadline_def)
qed

lemma same_directory:
  "ie_directory (snd (start_session w node asked cursor k j home entry now s)) = ie_directory s"
proof -
  have send: "ie_directory (send_frame w n f now t) = ie_directory t" for n f t
    using send_still(1) [of t w n f now] by (simp add: still_def unmoved_def)
  show ?thesis
    by (simp add: start_session_def Let_def send dirty_def split: option.split)
qed

lemma turn_directory:
  "ie_directory (sync_channels now s) = ie_directory s" "ie_directory (parked_takes w now s) = ie_directory s"
  "ie_directory (keepalives w now s) = ie_directory s" "ie_directory (flow_flush w now s) = ie_directory s"
  "ie_directory (watchdogs w now s) = ie_directory s" "ie_directory (crossing w now s) = ie_directory s"
proof -
  have send: "ie_directory (send_frame w n f now t) = ie_directory t" "ie_directory (send_droppable w n f now t) = ie_directory t"
    and say: "ie_directory (announce w n c b now t) = ie_directory t" and dwell: "ie_directory (forget_dwell now t) = ie_directory t" for n f t c b
    using send_still [of t w n f now] announce_still [of t w n c b now] forget_dwell_still [of t now]
    by (simp_all add: still_def unmoved_def)
  have folded: "(\<And>t x. ie_directory (f t x) = ie_directory t) \<Longrightarrow> ie_directory (foldl f t xs) = ie_directory t"
    for f :: "input_engine \<Rightarrow> 'b \<Rightarrow> input_engine" and t xs
    by (induction xs arbitrary: t) simp_all
  note start = same_directory
  show "ie_directory (sync_channels now s) = ie_directory s"
    by (simp add: sync_channels_def folded sync_channel_def Let_def dirty_def effect_out_def)
  show "ie_directory (parked_takes w now s) = ie_directory s"
    by (simp add: parked_takes_def folded parked_take_def Let_def say start split: prod.split option.split)
  show "ie_directory (keepalives w now s) = ie_directory s"
    by (simp add: keepalives_def folded ping_peer_def send)
  show "ie_directory (flow_flush w now s) = ie_directory s"
    by (simp add: flow_flush_def flush_pending_def send_flow_def next_n_def send split: option.split)
  show "ie_directory (watchdogs w now s) = ie_directory s"
    using home_always(7) [of s w "''SLOW''" now] ended_always(4) [of s w "Some ''IDLE''" now]
      ended_always(4) [of "bring_home w ''SLOW'' now s" w "Some ''IDLE''" now]
    by (simp add: watchdogs_def Let_def beside_def)
  show "ie_directory (crossing w now s) = ie_directory s"
    by (simp add: crossing_def cross_over_def Let_def say dwell start split: option.split)
qed

lemma turn_leaves_nothing_due:
  assumes "sound s" and own: "di_own_node (ie_directory s) \<noteq> None"
  shows "\<forall>t \<in> set (deadlines (pump_input w now s) now). now < t"
proof -
  define a where "a = keepalives w now (parked_takes w now (sync_channels now s))"
  define b where "b = crossing w now (watchdogs w now (flow_flush w now a))"
  define c where "c = refusal_windows w now (layout_rounds w now b)"
  have p: "pump_input w now s = emit_snapshot now c" by (simp add: pump_input_def a_def b_def c_def)
  have a: "pinged now a" unfolding a_def by (rule keepalives_pinged)
  have "pinged now (flow_flush w now a)"
    using a flow_flush_parts(1,3) [of w now a] peer_of_peers [OF flow_flush_parts(1)] by (simp add: pinged_def)
  then have b: "waiting now b"
    unfolding b_def by (intro crossing_waiting watchdogs_waiting flow_flush_parts(4))
  have st: "still (layout_rounds w now b) c" unfolding c_def by (rule refusal_windows_still)
  have "di_own_node (ie_directory b) \<noteq> None" using own by (simp add: b_def a_def turn_directory)
  note l = layout_rounds_parts(1) [of b w now] layout_rounds_parts(2) [of now w b] layout_rounds_parts(3) [OF this, of now w]
  have "sound (layout_rounds w now b)"
    using assms(1) by (auto simp: b_def a_def intro!: learners_sound crossing_keeps watchdogs_keeps parked_takes_keeps)
  then have q: "quieted now c" unfolding c_def by (intro refusal_windows_quieted) (simp add: sound_def)
  show ?thesis
    unfolding p
  proof (rule nothing_due)
    note e = emit_snapshot_parts [where s = c and now = now]
    show "waiting now (emit_snapshot now c)"
      by (rule steady_waiting [OF e(1) steady_waiting [OF still_steady [OF st] steady_waiting [OF l(1) b]]])
    show "laid now (emit_snapshot now c)"
      using l(3) st e(2) by (simp add: laid_def peer_of_def still_def)
    show "quieted now (emit_snapshot now c)" using q e(4) by (simp add: quieted_def)
    show "bt_ok (ie_peers (emit_snapshot now c))" using pump_keeps(1) [OF assms(1), of w now] by (simp add: p sound_def)
    show "now < ie_sweep_at (emit_snapshot now c) + LAYOUT_SWEEP" using l(2) st e(3) by (simp add: still_def)
    show "ie_dirty (emit_snapshot now c) \<longrightarrow> now < ie_last_emit (emit_snapshot now c) + EMIT_GAP" using e(5) by simp
  qed
qed

lemma earliest_of: "\<forall>x \<in> set (t # ts). n < x \<Longrightarrow> n < foldl min t (ts :: nat list)"
  by (induction ts arbitrary: t) auto

text \<open>
  The host may sleep: whatever happened since the opening, after a turn of the pump no deadline is due
  any more, provided the directory names this machine: the next deadline lies in the future, so the loop of the
  host does not spin, however many pings, positions, layout rounds, refusals and watchdogs were overdue.
\<close>

theorem the_host_may_sleep:
  fixes es :: "timed_event list"
  assumes "open_engine w idn plane settings held t0 = Some s0"
  defines "s \<equiv> foldl input_apply s0 es"
  assumes "di_own_node (ie_directory s) \<noteq> None"
  shows "\<exists>t. next_deadline (pump_input w' now s) now = Some t \<and> now < t"
proof -
  have "sound s" unfolding s_def by (rule input_runs.run [OF opens_sound(1) [OF assms(1)]]) (simp add: list_all_iff)
  from turn_leaves_nothing_due [OF this assms(3)] have d: "\<forall>t \<in> set (deadlines (pump_input w' now s) now). now < t" .
  have "deadlines (pump_input w' now s) now \<noteq> []" by (simp add: deadlines_def)
  then obtain t ts where t: "deadlines (pump_input w' now s) now = t # ts" by (cases "deadlines (pump_input w' now s) now") auto
  with d earliest_of [of t ts now] show ?thesis by (simp add: next_deadline_def)
qed

lemma the_host_may_sleep_witness:
  "\<exists>t. next_deadline (pump_input quiet_desk 2000 (foldl input_apply first_state [(quiet_desk, 1000, EDirectory two_desks)])) 2000 = Some t \<and>
     2000 < t"
proof (rule the_host_may_sleep [OF opens])
  show "di_own_node (ie_directory (foldl input_apply first_state [(quiet_desk, 1000, EDirectory two_desks)])) \<noteq> None"
    using directory_drivable by (simp add: input_apply_def drivable_def two_desks_def)
qed

section \<open>A start nobody answers\<close>

definition asking :: "string \<Rightarrow> u32 \<Rightarrow> capabilities \<Rightarrow> input_engine \<Rightarrow> bool" where
  "asking n k c s \<longleftrightarrow>
     (\<exists>d. ie_driving s = Some d \<and> dg_node d = n \<and> dg_session d = k \<and> \<not> dg_accepted d) \<and> ie_driven s = None \<and> ie_caps s = c"

lemma asking_unmoved:
  assumes "unmoved s t" and "asking n k c s"
  shows "asking n k c t"
proof -
  have st: "session_of t = session_of s" using assms(1) by (simp add: unmoved_def)
  obtain e where e: "ie_driving t = Some e" using assms(2) same_session(1) [OF st] by (auto simp: asking_def)
  from same_driving [OF st e] obtain d where
    "ie_driving s = Some d" "dg_node e = dg_node d" "dg_session e = dg_session d" "dg_accepted e = dg_accepted d" .
  with assms e show ?thesis by (auto simp: asking_def unmoved_def)
qed

lemmas asking_still = asking_unmoved [OF still_unmoved]

lemma turn_unmoved:
  "unmoved s (sync_channels now s)" "unmoved s (keepalives w now s)" "unmoved s (layout_rounds w now s)"
  "unmoved s (emit_snapshot now s)"
proof -
  have mod: "unmoved s (mod_peer n f s)" for n f s by (simp add: mod_peer_def upd_unmoved)
  have upd: "unmoved s t \<Longrightarrow> unmoved s (upd_peer n f t)" "unmoved s t \<Longrightarrow> unmoved s (mod_peer n f t)"
    "unmoved s t \<Longrightarrow> unmoved s (dirty t)" "unmoved s t \<Longrightarrow> unmoved s (effect_out x t)"
    "unmoved s t \<Longrightarrow> unmoved s (send_frame w n g now t)" "unmoved s t \<Longrightarrow> unmoved s (want_layout n t)" for s n f t x g
    by (blast intro: unmoved_trans upd_unmoved mod still_unmoved dirty_still effect_still send_still(1))+
  have set: "unmoved s (s\<lparr>ie_open_due := b\<rparr>)" "unmoved s (s\<lparr>ie_sweep_at := t\<rparr>)" for s b t
    by (simp_all add: unmoved_def session_of_def)
  show "unmoved s (sync_channels now s)"
    by (auto simp: sync_channels_def sync_channel_def Let_def intro!: upd unmoved_trans [OF set(1) unmoved_foldl])
  show "unmoved s (keepalives w now s)"
    by (auto simp: keepalives_def ping_peer_def intro!: upd unmoved_foldl)
  have round: "unmoved s (layout_round w now s n)" for s n
    by (rule layout_round_cases [of w now s n]) (auto intro!: upd)
  have every: "unmoved s ((layout_everyone (s\<lparr>ie_sweep_at := now\<rparr>))\<lparr>ie_open_due := True\<rparr>)"
    unfolding layout_everyone_def by (rule unmoved_trans [OF unmoved_trans [OF set(2) unmoved_foldl] set(1)]) (auto intro: upd)
  show "unmoved s (layout_rounds w now s)"
  proof -
    have "unmoved t (foldl (layout_round w now) t ns)" for t ns
      by (simp add: unmoved_foldl round)
    then show ?thesis unfolding layout_rounds_def Let_def by (auto intro: every unmoved_trans [OF every])
  qed
  show "unmoved s (emit_snapshot now s)"
    by (simp add: emit_snapshot_def Let_def effect_out_def unmoved_def session_of_def)
qed

lemma flow_asking: "asking n k c s \<Longrightarrow> asking n k c (flow_flush w now s)"
proof -
  assume a: "asking n k c s"
  have "asking n k c (s\<lparr>ie_driving := Some (d\<lparr>dg_pending := x, dg_tokens := y, dg_tokens_at := z, dg_n := m\<rparr>)\<rparr>)"
    if "ie_driving s = Some d" for d x y z m
    using a that by (simp add: asking_def)
  then show ?thesis
    using a by (auto simp: flow_flush_def flush_pending_def send_flow_def next_n_def intro!: asking_still [OF send_still(2)] split: option.split)
qed

lemma pump_asking:
  assumes "asking n k c s"
  shows "asking n k c (pump_input w now s)"
proof -
  have busy: "parked_takes w now t = t" "watchdogs w now t = t" "crossing w now t = t" if "asking n k c t" for t
    using that by (auto simp: asking_def parked_takes_def watchdogs_def stalled_def idle_def crossing_def Let_def split: option.split)
  note turn = turn_unmoved [THEN asking_unmoved]
  from turn(1) [OF assms] have a: "asking n k c (sync_channels now s)" .
  from flow_asking [OF turn(2) [OF a]] have b: "asking n k c (flow_flush w now (keepalives w now (sync_channels now s)))" .
  from turn(4) [OF asking_still [OF refusal_windows_still turn(3) [OF b]]] show ?thesis
    by (simp add: pump_input_def busy a b)
qed

lemma driving_swallows:
  "ie_driving s \<noteq> None \<Longrightarrow> ca_capture (ie_caps s) \<Longrightarrow> ie_capture_sent (apply_capture s) = Some CaptureSwallow"
  by (simp add: apply_capture_def wanted_capture_def call_def Let_def)

text \<open>
  A start nobody answers is never given up: an unanswered start survives every sequence of turns of the
  pump, at whatever times, and a greeting of any computer heard then makes this machine swallow its keyboard
  for it.
\<close>

theorem an_unanswered_start_is_never_given_up:
  fixes turns :: "(desk \<times> nat) list"
  assumes "ie_driving s = Some d" and "\<not> dg_accepted d" and "ie_driven s = None" and "ca_capture (ie_caps s)"
  defines "t \<equiv> foldl (\<lambda>s turn. pump_input (fst turn) (snd turn) s) s turns"
  shows "(\<exists>e. ie_driving t = Some e \<and> dg_node e = dg_node d \<and> dg_session e = dg_session d \<and> \<not> dg_accepted e) \<and>
         ie_capture_sent (on_hi node caps plane t) = Some CaptureSwallow"
proof -
  have "asking (dg_node d) (dg_session d) (ie_caps s) (foldl (\<lambda>s turn. pump_input (fst turn) (snd turn) s) u turns)"
    if "asking (dg_node d) (dg_session d) (ie_caps s) u" for u
    using that by (induction turns arbitrary: u) (simp_all add: pump_asking)
  from this [of s] have t: "asking (dg_node d) (dg_session d) (ie_caps s) t" using assms by (simp add: asking_def t_def)
  have "asking (dg_node d) (dg_session d) (ie_caps s) (want_layout node (upd_peer node f t))" for f
    by (rule asking_unmoved [OF unmoved_trans [OF upd_unmoved(1) upd_unmoved(2)] t])
  then have "ie_driving (want_layout node (upd_peer node f t)) \<noteq> None" "ca_capture (ie_caps (want_layout node (upd_peer node f t)))" for f
    using assms(4) by (force simp: asking_def)+
  note driving_swallows [OF this]
  then have "ie_capture_sent (on_hi node caps plane t) = Some CaptureSwallow" by (simp add: on_hi_def dirty_def)
  with t show ?thesis by (auto simp: asking_def)
qed

definition asked_b :: driving where
  "asked_b = \<lparr>dg_node = desk_b, dg_session = 1, dg_mode = KeysMode, dg_accepted = False, dg_since = 0, dg_since_unix = 0,
     dg_cursor = (0, 0), dg_on = [], dg_from = [], dg_home = (0, 0), dg_n = 1, dg_pending = None, dg_tokens = 1,
     dg_tokens_at = 0, dg_out_tokens = 0, dg_out_at = 0\<rparr>"

lemma an_unanswered_start_is_never_given_up_witness:
  "ie_capture_sent (on_hi desk_b JNull ''plane'' (pump_input quiet_desk (seconds 3600)
     (first_state\<lparr>ie_driving := Some asked_b\<rparr>))) = Some CaptureSwallow"
  using an_unanswered_start_is_never_given_up [of "first_state\<lparr>ie_driving := Some asked_b\<rparr>" asked_b "[(quiet_desk, seconds 3600)]"
      desk_b JNull "''plane''"] opened_parts [OF opens]
  by (simp add: asked_b_def quiet_desk_def able_def)

text \<open>A revocation heard within the grace of a new channel withdraws the grant and leaves the driver.\<close>

lemma a_revoked_driver_goes_on:
  assumes "just_attached s node now"
  shows "ie_driven (on_channel_closed w node ''DEVICE_REVOKED'' now s) = ie_driven s"
    and "\<not> allows (ie_settings (on_channel_closed w node ''DEVICE_REVOKED'' now s)) node"
proof -
  obtain changed st where f: "forget_peer node (ie_settings s) = (changed, st)" by fastforce
  then have "\<not> allows st node" by (auto simp: forget_peer_def allows_def Let_def)
  moreover have "ie_driven (rebuild w t) = ie_driven t" "ie_settings (rebuild w t) = ie_settings t"
    "ie_driven (persist_plane t) = ie_driven t" "ie_settings (persist_plane t) = ie_settings t"
    "ie_driven (persist_settings t) = ie_driven t" "ie_settings (persist_settings t) = ie_settings t" for t
    using rebuilt(1) [of t w] persist_still [of t] by (simp_all add: unmoved_def still_def)
  ultimately show "ie_driven (on_channel_closed w node ''DEVICE_REVOKED'' now s) = ie_driven s"
    "\<not> allows (ie_settings (on_channel_closed w node ''DEVICE_REVOKED'' now s)) node"
    using assms f by (simp_all add: on_channel_closed_def on_revoked_def remove_peer_def Let_def dirty_def)
qed

end
