(* ===== verification/Spec2Isabelle.thy ===== *)
theory Spec2Isabelle
  imports Losses MembershipStore TransferFacts EngineFacts PlaneWitnesses SettingsFacts SessionTurns
begin

text \<open>
  Verification library of 1Device (repository \<open>universal-link\<close>): the folder synchronization of
  \<open>src/sync\<close> and the input sharing of \<open>src/input\<close>.

  \<^bold>\<open>The program.\<close> A Core daemon keeps an account and its connections; two further daemons use it.
  The synchronization daemon keeps folders equal among the devices that are members of a \<^emph>\<open>set\<close>. A walk
  of the folder is folded into an index of versions, two members exchange heads and pages of entries and
  of signed membership records (a \<^emph>\<open>round\<close>), the versions received wait in a pending set until a drain
  turns them into files, and file bytes travel as needs, offers and pulls. The input daemon lets the
  pointer of one computer cross onto the screen of another: the computers exchange a signed \<^emph>\<open>plane\<close> that
  says which monitors exist and where they stand, and each derives the crossings from it. While a pointer is
  across, a \<^emph>\<open>session\<close> captures the keyboard and pointer of one machine (it \<^emph>\<open>drives\<close>) and injects them
  on the other (it is \<^emph>\<open>driven\<close>), where the settings of each must allow it.

  \<^bold>\<open>Conventions.\<close> A \<open>String\<close> is the list of its UTF-8 bytes, a \<open>BTreeMap\<close> the list of its pairs in
  strictly ascending key order (\<open>bt_ok\<close>), \<open>u64\<close> and \<open>u32\<close> are naturals with the bound in the invariant,
  \<open>i32\<close> in the geometry of a plane is an integer with the saturating operations written out, and the
  numbers of the input dialect, of keys and of sessions are words (times are naturals, in nanoseconds).
  \<open>Option\<close> and \<open>?\<close> are the option monad, a \<open>Result\<close> is a sum whose left side is the error. A struct is a record, an enum a datatype, a method a function on the record. Code
  that is not in the repository is an argument: Ed25519 and hexadecimal (\<open>deps\<close>, \<open>vf\<close>), the digests of
  BLAKE3, Unicode normalization, the length of JSON text, JSON string escaping (\<open>string_escaping\<close> says
  what is needed of it). The outcome of every filesystem call is a field of an arbitrary oracle
  (\<open>fs_env\<close>, \<open>conflict_env\<close>, \<open>scan_env\<close>), so what is proved holds for every pattern of failures.

  \<^bold>\<open>Theories and sources.\<close>
  \<^item> \<open>Prelude\<close>: ordered maps, folds, the interfaces \<open>ordered_map\<close>, \<open>newest_wins\<close> and \<open>op_invariant\<close>.
    \<open>Text\<close>: the string operations of the standard library. \<open>Json\<close>: JSON values and the interface
    \<open>strict_codec\<close> of a parser that accepts exactly what its writer writes.
  \<^item> \<open>Canonical\<close> (\<open>sync/src/canonical.rs\<close>): the signed bytes and their injectivity.
  \<^item> \<open>Gates\<close> (\<open>wirepath.rs\<close>, the format checks of \<open>records.rs\<close>): what may cross the wire as a path.
  \<^item> \<open>Versions\<close> (\<open>vv.rs\<close>), \<open>Index\<close> (\<open>index.rs\<close>): version vectors as a lattice (\<open>version_order\<close>), entries,
    the index and the delta a peer misses.
  \<^item> \<open>Clock\<close> (\<open>clock.rs\<close>): the durable clock over a disk whose writes fail, as a step relation with opens,
    ticks, jumps and crashes.
  \<^item> \<open>Scan\<close>, \<open>ScanFacts\<close> (\<open>scan.rs\<close>): the walk of the tree (data) and the folding of what it observed.
  \<^item> \<open>Records\<close> (\<open>records.rs\<close>), \<open>Membership\<close>, \<open>Admission\<close>, \<open>MembershipStore\<close> (\<open>membership.rs\<close>): the signed
    records with their keep-newest orders, every operation of a membership state, what every run of them
    keeps, and its persisted form.
  \<^item> \<open>Protocol\<close> (\<open>protocol.rs\<close>), \<open>Paging\<close>: the messages, their strict parse and their pages.
  \<^item> \<open>SetState\<close>, \<open>Landing\<close>, \<open>Rounds\<close>, \<open>CopyName\<close>, \<open>Conflicts\<close>, \<open>Transfers\<close>, \<open>Gestures\<close>, \<open>Engine\<close>
    (\<open>engine.rs\<close>, in that order): the state of a set and its buffers; tombstones, directories, parked
    renames and \<open>drain_pending\<close>; heads, pages and answering legs; the name of a conflict copy and
    \<open>materialize_conflict\<close>; needs, offers, pulls and slots; the user's gestures; \<open>on_message\<close>, the callbacks,
    walks and \<open>pump\<close>.
  \<^item> \<open>Retention\<close>, \<open>RoundFacts\<close>, \<open>Network\<close>, \<open>Losses\<close>, \<open>TransferFacts\<close>, \<open>GestureFacts\<close>, \<open>EngineFacts\<close>: what
    these operations keep and lose. \<open>Network\<close> is a step relation of several members whose messages are
    lost, delayed and repeated. \<open>Samples\<close> holds concrete states.
  \<^item> \<open>InputWire\<close> (\<open>input/src/wire.rs\<close>, the modifier bits of \<open>keys.rs\<close>): the frames of the dialect, written
    with clipping and clamping, read defensively.
  \<^item> \<open>InputPlane\<close> (\<open>plane.rs\<close>, the monitor of \<open>backend.rs\<close>), \<open>PlaneStore\<close>, \<open>PlaneFacts\<close>, \<open>PlaneId\<close>: the plane,
    its signatures, the merge of a peer's document, the stored file and the bytes under the plane id.
  \<^item> \<open>InputGraph\<close> (\<open>graph.rs\<close>), \<open>LayoutFacts\<close>: rectangles, crossing stretches, guards, entry points.
    \<open>PlaneWitnesses\<close> holds concrete planes.
  \<^item> \<open>InputKeys\<close> (\<open>keys.rs\<close>), \<open>KeyFacts\<close>: key names and modifiers, the record of held keys, the bounded caches of
    the resolver, and the plan of presses and releases one keystroke becomes.
  \<^item> \<open>InputSettings\<close> (\<open>settings.rs\<close>), \<open>SettingsFacts\<close>: grants, remappings, guards, the hotkey and their file.
  \<^item> \<open>InputBackend\<close> (\<open>backend.rs\<close>): capabilities, the actions injected and the events of a platform.
  \<^item> \<open>InputSession\<close>, \<open>InputDriven\<close>, \<open>InputDriving\<close>, \<open>InputPump\<close>, \<open>InputFacade\<close> (\<open>session.rs\<close>): the state of the
    engine (\<open>input_engine\<close>, the struct \<open>Engine\<close>), channels and the ends of sessions; frames received and
    being driven; the dwell, the crossing and driving; keepalives, watchdogs, layout rounds, the snapshot and
    \<open>pump\<close>; the gestures, the opening and the shutdown. What the engine calls outside (injection, capture,
    confinement, the channel's queue, files) is appended to \<open>ie_calls\<close>, what it hands its host to
    \<open>ie_effects\<close>, and what it reads there is the record \<open>desk\<close>, which may differ at every step.
  \<^item> \<open>SessionFrame\<close>, \<open>SessionFacts\<close>, \<open>SessionRuns\<close>, \<open>SessionTurns\<close>: what each operation leaves alone, what it
    keeps, the runs of all of them, and the turns of the pump between two deadlines.

  \<^bold>\<open>How the parts meet.\<close> The engine calls the clock for every new version, the index and the version
  vectors for every comparison, and the membership state for every decision about a peer. These meet as
  interfaces: \<open>strict_codec\<close> is interpreted for every record, message entry and vector, so a parsed value
  is always what its writer writes; \<open>newest_wins\<close> for the member, invitation and conflict orders and for
  the arrangement of a plane, so a merge does not depend on the order of arrival; \<open>op_invariant\<close> for the
  runs of a membership state, of transfers, of an engine's rounds, of a plane and of the input engine; \<open>retaining\<close> for
  the passes of a drain; \<open>prefix_free\<close> for the pieces of the signed bytes.

  \<^bold>\<open>What is shown.\<close> Safety of the exchange: an advertised vector is backed by held versions through
  every history without blocked renames, foreign directory tombstones and departures
  (\<open>advertised_is_held\<close>), a walk tombstones only what vanished, a clock never repeats a
  value, conflicts keep both contents and converge. Safety of membership: admission is rooted in the
  creator, pins come from contact, runs keep the state well formed, parked records are only those that are
  still unacceptable. Safety of parsing: what passes a gate is within its bounds and below the root, and
  round trips are exact. Boundedness and termination of transfers and exchanges. For input sharing: the
  plane keeps its shape, converges to the newest verified words and the highest arrangement, is
  determined by the bytes its id hashes, and its crossings are mutual, inside the screens, free of overflow
  and obedient to the guards; a keystroke leaves exactly the recorded keys down, no grant is guessed from a
  torn file, no run leaves a key, a pinned pointer or a swallowed keyboard behind, nobody drives a
  machine without its grant, and after a turn of the pump no deadline is due. Several theorems state what the code does where it falls
  short: a concurrent edit below a directory tombstone, a conflict copy named like its own path, joining again after leaving, a failed write while
  accepting, markers between two engines without the set, a table of sixteen devices, a lost own word,
  a legal frame above the cap.

  \<^bold>\<open>Bounds and recursion.\<close> No definition uses fuel. Recursions that are not structural have their
  measure: \<open>reverify\<close> the number of parked records, \<open>walk_dir\<close> the size of the tree, \<open>utf8_chars\<close>,
  \<open>clamp_name\<close> and \<open>shorten\<close> the length of the text. Widths and caps are the constants of the sources.
  Arithmetic the code performs without saturation is exact here; \<open>no_coordinate_overflows\<close> shows that it
  stays inside its width for the layout, and the version and clock ceilings are part of the invariants.

  \<^bold>\<open>Not modelled.\<close> The hosts of both engines: files on disk, the file watcher, the connection to
  the Core and the process's timers (\<open>sync/src/store.rs\<close>, \<open>watcher.rs\<close>, \<open>orchestrator.rs\<close>,
  \<open>input/src/store.rs\<close>, \<open>orchestrator.rs\<close>); the platform backends of \<open>input\<close> (Wayland, X11,
  macOS, Windows), which are calls into display servers; the Core
  (accounts, pairing and transport around third-party cryptography and QUIC); clipboard, menu, tray,
  client, server, supervisor and user interfaces, which are glue. In \<open>wirepath.rs\<close>, \<open>long_path\<close> prefixes
  Windows host paths and belongs to the standard library's path type. Logging and debug assertions are dropped.
\<close>

end
